(* ===== verification/Prelude.thy ===== *)
theory Prelude
  imports Main "HOL-Library.Word" "HOL-Library.Char_ord" "HOL-Library.List_Lexorder"
    "HOL-Library.Product_Lexorder" "HOL-Library.AList"
begin

text \<open>
  The vocabulary the component theories share: machine integers and their saturating and
  checked operations, the parts of Rust's \<open>str\<close>, slice and iterator interfaces that the
  data plane uses, loops that hand each element to a visitor which may stop them, and the
  generic lemmas on them.

  Conventions of the whole development:
  \<^item> a Rust \<open>String\<close> or \<open>&str\<close> is its sequence of bytes, a \<open>string\<close> (a \<open>char\<close> is one
    byte), so \<open>length\<close> is \<open>str::len\<close>;
  \<^item> \<open>u32\<close> and \<open>u64\<close> are words; \<open>usize\<close> indices and lengths are \<open>nat\<close>;
  \<^item> an \<open>Instant\<close> or \<open>Duration\<close> is a number of nanoseconds;
  \<^item> a \<open>HashMap\<close> is a partial function; a \<open>BTreeMap\<close>, whose iteration order the code
    relies on, is the list of its entries in ascending key order;
  \<^item> \<open>slice::get\<close> is \<open>nth_opt\<close>; an early return or a \<open>?\<close> is a branch of the model.
\<close>

named_theorems rust_str \<open>unfolding rules for the string operations\<close>
named_theorems visit_simps \<open>equations of the visitor loops\<close>
named_theorems frame \<open>fields an operation leaves unchanged\<close>

type_synonym u32 = "32 word"
type_synonym u64 = "64 word"
type_synonym Instant = nat
type_synonym Duration = nat
type_synonym 'v btree = "(string \<times> 'v) list"

section \<open>Integers\<close>

definition saturating_add :: "'a::len word \<Rightarrow> 'a word \<Rightarrow> 'a word" where
  "saturating_add a b = (if unat a + unat b < 2 ^ LENGTH('a) then a + b else - 1)"

definition checked_add :: "'a::len word \<Rightarrow> 'a word \<Rightarrow> 'a word option" where
  "checked_add a b = (if unat a + unat b < 2 ^ LENGTH('a) then Some (a + b) else None)"

definition checked_mul :: "'a::len word \<Rightarrow> 'a word \<Rightarrow> 'a word option" where
  "checked_mul a b = (if unat a * unat b < 2 ^ LENGTH('a) then Some (a * b) else None)"

definition checked_sub :: "'a::len word \<Rightarrow> 'a word \<Rightarrow> 'a word option" where
  "checked_sub a b = (if b \<le> a then Some (a - b) else None)"

lemma unat_max_word: "unat (- 1 :: 'a::len word) = 2 ^ LENGTH('a) - 1"
  by (simp add: unsigned_minus_1_eq_mask mask_eq_exp_minus_1)

lemma unat_add_no_overflow:
  "unat a + unat b < 2 ^ LENGTH('a) \<Longrightarrow> unat (a + b) = unat a + unat b"
  for a b :: "'a::len word"
  by (simp add: unat_word_ariths)

lemma unat_mult_no_overflow:
  "unat a * unat b < 2 ^ LENGTH('a) \<Longrightarrow> unat (a * b) = unat a * unat b"
  for a b :: "'a::len word"
  by (simp add: unat_word_ariths)

lemma unat_saturating_add:
  "unat (saturating_add a b) = min (unat a + unat b) (2 ^ LENGTH('a) - 1)"
  for a b :: "'a::len word"
  by (auto simp: saturating_add_def unat_add_no_overflow unat_max_word min_def)

lemma unat_le_max: "unat a \<le> 2 ^ LENGTH('a) - 1" for a :: "'a::len word"
proof -
  have "unat a < 2 ^ LENGTH('a)" by (rule unsigned_less)
  then show ?thesis by linarith
qed

lemma saturating_add_ge: "a \<le> saturating_add a b"
  by (simp add: word_le_nat_alt unat_saturating_add unat_le_max [simplified])

lemma unat_u64_of_u32: "unat (ucast w :: u64) = unat w" for w :: u32
proof -
  have "unat w < 2 ^ LENGTH(32)" by (rule unsigned_less)
  then have "unat w < 2 ^ 64" by simp
  then show ?thesis by (simp add: unsigned_ucast_eq take_bit_nat_eq_self)
qed

lemma checked_add_Some [simp]:
  "checked_add a b = Some c \<longleftrightarrow> unat a + unat b < 2 ^ LENGTH('a) \<and> c = a + b"
  for a b c :: "'a::len word"
  by (auto simp: checked_add_def)

lemma checked_mul_Some [simp]:
  "checked_mul a b = Some c \<longleftrightarrow> unat a * unat b < 2 ^ LENGTH('a) \<and> c = a * b"
  for a b c :: "'a::len word"
  by (auto simp: checked_mul_def)

lemma unat_sum_list_ucast:
  "sum_list (map (\<lambda>x. unat (w x)) xs) < 2 ^ 64 \<Longrightarrow>
   unat (sum_list (map (\<lambda>x. ucast (w x) :: u64) xs)) = sum_list (map (\<lambda>x. unat (w x)) xs)"
  for w :: "'b \<Rightarrow> u32"
proof (induction xs)
  case Nil
  then show ?case by simp
next
  case (Cons x xs)
  then have "unat (w x) + unat (sum_list (map (\<lambda>x. ucast (w x) :: u64) xs)) < 2 ^ 64"
    by simp
  then show ?case
    using Cons by (simp add: unat_word_ariths unat_u64_of_u32)
qed

section \<open>Slices and iterators\<close>

definition nth_opt :: "'a list \<Rightarrow> nat \<Rightarrow> 'a option" where
  "nth_opt xs i = (if i < length xs then Some (xs ! i) else None)"

lemma nth_opt_Some: "nth_opt xs i = Some x \<longleftrightarrow> i < length xs \<and> xs ! i = x"
  by (auto simp: nth_opt_def)

lemma nth_opt_simps [simp]:
  "nth_opt [] i = None"
  "nth_opt (x # xs) 0 = Some x"
  "nth_opt (x # xs) (Suc i) = nth_opt xs i"
  by (simp_all add: nth_opt_def)

lemma nth_opt_map: "nth_opt (map f xs) i = map_option f (nth_opt xs i)"
  by (simp add: nth_opt_def)

text \<open>
  \<open>Iterator::max_by\<close> and \<open>Iterator::max\<close>: of several greatest elements the last one is
  returned.
\<close>

fun max_by_from :: "('a \<Rightarrow> 'b::linorder) \<Rightarrow> 'a \<Rightarrow> 'a list \<Rightarrow> 'a" where
  "max_by_from f acc [] = acc"
| "max_by_from f acc (x # xs) = max_by_from f (if f x < f acc then acc else x) xs"

definition max_by :: "('a \<Rightarrow> 'b::linorder) \<Rightarrow> 'a list \<Rightarrow> 'a option" where
  "max_by f xs = (case xs of [] \<Rightarrow> None | x # xs \<Rightarrow> Some (max_by_from f x xs))"

lemma max_by_from_in: "max_by_from f acc xs \<in> insert acc (set xs)"
  by (induction xs arbitrary: acc) (fastforce split: if_splits)+

lemma max_by_from_ge: "y \<in> insert acc (set xs) \<Longrightarrow> f y \<le> f (max_by_from f acc xs)"
proof (induction xs arbitrary: acc y)
  case Nil
  then show ?case by simp
next
  case (Cons x xs)
  let ?a = "if f x < f acc then acc else x"
  have a: "f ?a \<le> f (max_by_from f ?a xs)" by (rule Cons.IH) simp
  moreover have "y \<in> set xs \<Longrightarrow> f y \<le> f (max_by_from f ?a xs)" by (rule Cons.IH) simp
  ultimately show ?case using Cons.prems by (auto split: if_splits)
qed

lemma max_by_None [simp]: "max_by f xs = None \<longleftrightarrow> xs = []"
  by (cases xs) (auto simp: max_by_def)

lemma max_by_SomeD:
  assumes "max_by f xs = Some x"
  shows "x \<in> set xs" and "\<And>y. y \<in> set xs \<Longrightarrow> f y \<le> f x"
proof -
  from assms obtain z zs where xs: "xs = z # zs" and x: "x = max_by_from f z zs"
    by (auto simp: max_by_def split: list.splits)
  show "x \<in> set xs" using max_by_from_in [of f z zs] by (simp add: xs x)
  fix y assume "y \<in> set xs"
  then show "f y \<le> f x" using max_by_from_ge [of y z zs f] by (simp add: xs x)
qed

lemma max_by_nonempty: "xs \<noteq> [] \<Longrightarrow> \<exists>x. max_by f xs = Some x"
  by (cases xs) (simp_all add: max_by_def)

lemma max_by_id_eq_Max: "xs \<noteq> [] \<Longrightarrow> max_by (\<lambda>x. x) xs = Some (Max (set xs))"
proof -
  assume "xs \<noteq> []"
  then obtain m where m: "max_by (\<lambda>x. x) xs = Some m" using max_by_nonempty by blast
  from max_by_SomeD [OF m] have "Max (set xs) = m"
    by (intro Max_eqI) auto
  with m show ?thesis by simp
qed

text \<open>\<open>Iterator::find_map\<close> and \<open>Iterator::find\<close>.\<close>

fun find_map :: "('a \<Rightarrow> 'b option) \<Rightarrow> 'a list \<Rightarrow> 'b option" where
  "find_map f [] = None"
| "find_map f (x # xs) = (case f x of Some y \<Rightarrow> Some y | None \<Rightarrow> find_map f xs)"

lemma find_SomeD: "find P xs = Some x \<Longrightarrow> x \<in> set xs \<and> P x"
  by (auto simp: find_Some_iff)

text \<open>
  \<open>HashMap::entry(k).or_default().push(v)\<close> on a map to vectors, and the vector stored under a
  key, empty when there is none.
\<close>

definition entry_push :: "'k \<Rightarrow> 'v \<Rightarrow> ('k \<rightharpoonup> 'v list) \<Rightarrow> ('k \<rightharpoonup> 'v list)" where
  "entry_push k v m = m(k \<mapsto> (case m k of None \<Rightarrow> [v] | Some vs \<Rightarrow> vs @ [v]))"

definition entry_list :: "('k \<rightharpoonup> 'v list) \<Rightarrow> 'k \<Rightarrow> 'v list" where
  "entry_list m k = (case m k of None \<Rightarrow> [] | Some vs \<Rightarrow> vs)"

lemma entry_list_push [simp]:
  "entry_list (entry_push k v m) k' = (if k' = k then entry_list m k @ [v] else entry_list m k')"
  by (simp add: entry_list_def entry_push_def split: option.splits)

lemma entry_list_empty [simp]: "entry_list Map.empty k = []"
  by (simp add: entry_list_def)

lemma entry_push_Some: "entry_push k v m k' = Some vs \<Longrightarrow> vs \<noteq> [] \<or> m k' = Some vs"
  by (auto simp: entry_push_def split: if_splits option.splits)

text \<open>\<open>slice::partition_point\<close>, on slices that the predicate partitions.\<close>

definition partition_point :: "('a \<Rightarrow> bool) \<Rightarrow> 'a list \<Rightarrow> nat" where
  "partition_point P xs = length (takeWhile P xs)"

section \<open>Visitor loops\<close>

text \<open>
  The code walks over candidates with a closure that returns \<open>bool\<close>, \<open>false\<close> to stop. The
  closure's captured variables are the state \<open>'s\<close>.
\<close>

fun visit_while :: "('a \<Rightarrow> 's \<Rightarrow> bool \<times> 's) \<Rightarrow> 'a list \<Rightarrow> 's \<Rightarrow> bool \<times> 's" where
  "visit_while visit [] s = (True, s)"
| "visit_while visit (x # xs) s =
     (case visit x s of (go, s') \<Rightarrow> if go then visit_while visit xs s' else (False, s'))"

lemma visit_while_append:
  "visit_while v (xs @ ys) s =
     (case visit_while v xs s of (go, s') \<Rightarrow> if go then visit_while v ys s' else (False, s'))"
  by (induction xs arbitrary: s) (auto split: prod.splits)

lemma visit_while_map: "visit_while v (map f xs) s = visit_while (\<lambda>x. v (f x)) xs s"
  by (induction xs arbitrary: s) (auto split: prod.splits)

lemma visit_while_cong:
  "(\<And>x s. x \<in> set xs \<Longrightarrow> v x s = v' x s) \<Longrightarrow> visit_while v xs s = visit_while v' xs s"
  by (induction xs arbitrary: s) (auto split: prod.splits)

text \<open>Elements the visitor passes over without an effect may be left out.\<close>

lemma visit_while_filter:
  "(\<And>x s. x \<in> set xs \<Longrightarrow> \<not> P x \<Longrightarrow> v x s = (True, s)) \<Longrightarrow>
   visit_while v (filter P xs) s = visit_while v xs s"
  by (induction xs arbitrary: s) (auto split: prod.splits)

lemma visit_while_always:
  "(\<And>x s. fst (v x s)) \<Longrightarrow> visit_while v xs s = (True, fold (\<lambda>x s. snd (v x s)) xs s)"
proof (induction xs arbitrary: s)
  case Nil
  then show ?case by simp
next
  case (Cons x xs)
  obtain s' where "v x s = (True, s')" using Cons.prems [of x s] by (cases "v x s") simp
  then show ?case using Cons by simp
qed

lemma visit_while_invariant:
  assumes "I s" and "\<And>x s. x \<in> set xs \<Longrightarrow> I s \<Longrightarrow> I (snd (v x s))"
  shows "I (snd (visit_while v xs s))"
  using assms
proof (induction xs arbitrary: s)
  case Nil
  then show ?case by simp
next
  case (Cons x xs)
  obtain go s' where v: "v x s = (go, s')" by (cases "v x s")
  have "I s'" using Cons.prems(2) [of x s] Cons.prems(1) v by simp
  moreover from this have "I (snd (visit_while v xs s'))"
    by (rule Cons.IH) (simp add: Cons.prems(2))
  ultimately show ?case using v by simp
qed

end
