(* ===== verification/Rust_Str.thy ===== *)
theory Rust_Str
  imports Prelude
begin

text \<open>
  The operations of Rust's \<open>str\<close> and of ASCII bytes that the data plane uses, on byte
  strings, with the characterisations the components rest on: a split is undone by putting
  the separator back, \<open>split_once\<close> cuts at the first separator and \<open>rsplit_once\<close> at the
  last one, ASCII case folding is idempotent and keeps lengths, decimal printing and the
  strict decimal parser are inverse to each other.
\<close>

section \<open>ASCII case\<close>

definition is_ascii_uppercase :: "char \<Rightarrow> bool" where
  "is_ascii_uppercase c = (65 \<le> (of_char c :: nat) \<and> (of_char c :: nat) \<le> 90)"

definition ascii_lower :: "char \<Rightarrow> char" where
  "ascii_lower c = (if is_ascii_uppercase c then char_of ((of_char c :: nat) + 32) else c)"

definition is_ascii_lowercase :: "char \<Rightarrow> bool" where
  "is_ascii_lowercase c = (97 \<le> (of_char c :: nat) \<and> (of_char c :: nat) \<le> 122)"

definition ascii_upper :: "char \<Rightarrow> char" where
  "ascii_upper c = (if is_ascii_lowercase c then char_of ((of_char c :: nat) - 32) else c)"

definition to_ascii_lowercase :: "string \<Rightarrow> string" where
  "to_ascii_lowercase s = map ascii_lower s"

definition to_ascii_uppercase :: "string \<Rightarrow> string" where
  "to_ascii_uppercase s = map ascii_upper s"

definition eq_ignore_ascii_case :: "string \<Rightarrow> string \<Rightarrow> bool" where
  "eq_ignore_ascii_case a b = (to_ascii_lowercase a = to_ascii_lowercase b)"

lemma of_char_lower:
  "(of_char (ascii_lower c) :: nat) = (if is_ascii_uppercase c then of_char c + 32 else of_char c)"
  by (auto simp: ascii_lower_def is_ascii_uppercase_def)

lemma ascii_lower_not_upper [simp]: "\<not> is_ascii_uppercase (ascii_lower c)"
  using of_char_lower [of c] by (auto simp: is_ascii_uppercase_def split: if_splits)

lemma ascii_lower_idem [simp]: "ascii_lower (ascii_lower c) = ascii_lower c"
  by (simp add: ascii_lower_def [of "ascii_lower c"])

lemma ascii_lower_id: "\<not> is_ascii_uppercase c \<Longrightarrow> ascii_lower c = c"
  by (simp add: ascii_lower_def)

text \<open>
  A byte that is not a letter is the image of itself only, so folding neither creates nor
  removes separators.
\<close>

lemma ascii_lower_eq_iff:
  assumes "\<not> is_ascii_lowercase d" and "\<not> is_ascii_uppercase d"
  shows "ascii_lower c = d \<longleftrightarrow> c = d"
proof
  assume "ascii_lower c = d"
  then have "of_char (ascii_lower c) = (of_char d :: nat)" by simp
  then show "c = d"
    using assms \<open>ascii_lower c = d\<close>
    by (auto simp: of_char_lower is_ascii_lowercase_def is_ascii_uppercase_def ascii_lower_def
        split: if_splits)
next
  assume "c = d"
  with assms show "ascii_lower c = d" by (simp add: ascii_lower_id)
qed

lemma ascii_lower_sep [simp]:
  "ascii_lower c = CHR ''.'' \<longleftrightarrow> c = CHR ''.''"
  "ascii_lower c = CHR ''*'' \<longleftrightarrow> c = CHR ''*''"
  "ascii_lower c = CHR '':'' \<longleftrightarrow> c = CHR '':''"
  by (rule ascii_lower_eq_iff; simp add: is_ascii_lowercase_def is_ascii_uppercase_def)+

lemma ascii_lower_of_sep [simp]:
  "ascii_lower CHR ''.'' = CHR ''.''" "ascii_lower CHR ''*'' = CHR ''*''"
  "ascii_lower CHR '':'' = CHR '':''"
  by (simp_all add: ascii_lower_sep)

lemma lowercase_simps [simp]:
  "to_ascii_lowercase [] = []"
  "to_ascii_lowercase (c # s) = ascii_lower c # to_ascii_lowercase s"
  "to_ascii_lowercase (a @ b) = to_ascii_lowercase a @ to_ascii_lowercase b"
  "length (to_ascii_lowercase s) = length s"
  "to_ascii_lowercase (drop n s) = drop n (to_ascii_lowercase s)"
  "to_ascii_lowercase (take n s) = take n (to_ascii_lowercase s)"
  "to_ascii_lowercase (to_ascii_lowercase s) = to_ascii_lowercase s"
  by (simp_all add: to_ascii_lowercase_def drop_map take_map)

lemma lowercase_id:
  "list_all (\<lambda>c. \<not> is_ascii_uppercase c) s \<Longrightarrow> to_ascii_lowercase s = s"
  by (induction s) (simp_all add: ascii_lower_id)

lemma lowercase_nth: "i < length s \<Longrightarrow> to_ascii_lowercase s ! i = ascii_lower (s ! i)"
  by (simp add: to_ascii_lowercase_def)

lemma eq_ignore_ascii_case_refl [simp]: "eq_ignore_ascii_case s s"
  by (simp add: eq_ignore_ascii_case_def)

lemma eq_ignore_ascii_case_sym: "eq_ignore_ascii_case a b = eq_ignore_ascii_case b a"
  by (auto simp: eq_ignore_ascii_case_def)

lemma eq_ignore_ascii_case_length: "eq_ignore_ascii_case a b \<Longrightarrow> length a = length b"
  unfolding eq_ignore_ascii_case_def by (metis lowercase_simps(4))

section \<open>Prefixes, suffixes and splits\<close>

definition starts_with :: "string \<Rightarrow> string \<Rightarrow> bool" where
  "starts_with s p = (take (length p) s = p)"

definition ends_with_char :: "string \<Rightarrow> char \<Rightarrow> bool" where
  "ends_with_char s c = (s \<noteq> [] \<and> last s = c)"

definition strip_prefix :: "string \<Rightarrow> string \<Rightarrow> string option" where
  "strip_prefix p s = (if starts_with s p then Some (drop (length p) s) else None)"

fun split_once :: "char \<Rightarrow> string \<Rightarrow> (string \<times> string) option" where
  "split_once c [] = None"
| "split_once c (x # xs) =
     (if x = c then Some ([], xs) else map_option (\<lambda>(a, b). (x # a, b)) (split_once c xs))"

definition rsplit_once :: "char \<Rightarrow> string \<Rightarrow> (string \<times> string) option" where
  "rsplit_once c s = map_option (\<lambda>(a, b). (rev b, rev a)) (split_once c (rev s))"

fun split_once_str :: "string \<Rightarrow> string \<Rightarrow> (string \<times> string) option" where
  "split_once_str p [] = (if p = [] then Some ([], []) else None)"
| "split_once_str p (x # xs) =
     (if starts_with (x # xs) p then Some ([], drop (length p) (x # xs))
      else map_option (\<lambda>(a, b). (x # a, b)) (split_once_str p xs))"

fun split_char :: "char \<Rightarrow> string \<Rightarrow> string list" where
  "split_char c [] = [[]]"
| "split_char c (x # xs) =
     (if x = c then [] # split_char c xs
      else (case split_char c xs of [] \<Rightarrow> [[x]] | y # ys \<Rightarrow> (x # y) # ys))"

lemma starts_with_iff: "starts_with s p \<longleftrightarrow> (\<exists>r. s = p @ r)"
proof
  assume "starts_with s p"
  then have "s = p @ drop (length p) s"
    unfolding starts_with_def by (metis append_take_drop_id)
  then show "\<exists>r. s = p @ r" by blast
qed (auto simp: starts_with_def)

lemma strip_prefix_Some: "strip_prefix p s = Some r \<longleftrightarrow> s = p @ r"
  by (auto simp: strip_prefix_def starts_with_iff)

lemma strip_prefix_None: "strip_prefix p s = None \<longleftrightarrow> (\<forall>r. s \<noteq> p @ r)"
  by (auto simp: strip_prefix_def starts_with_iff)

lemma strip_prefix_append [simp]: "strip_prefix p (p @ r) = Some r"
  by (simp add: strip_prefix_Some)

lemma split_once_Some: "split_once c s = Some (a, b) \<longleftrightarrow> s = a @ c # b \<and> c \<notin> set a"
proof (induction s arbitrary: a)
  case Nil
  then show ?case by simp
next
  case (Cons x xs)
  show ?case
  proof (cases "x = c")
    case True
    then show ?thesis by (cases a) auto
  next
    case False
    then show ?thesis using Cons.IH by (cases a) auto
  qed
qed

lemma split_once_None: "split_once c s = None \<longleftrightarrow> c \<notin> set s"
  by (induction s) auto

lemma split_once_append: "c \<notin> set a \<Longrightarrow> split_once c (a @ c # b) = Some (a, b)"
  by (simp add: split_once_Some)

lemma rsplit_once_Some: "rsplit_once c s = Some (a, b) \<longleftrightarrow> s = a @ c # b \<and> c \<notin> set b"
proof -
  have "rsplit_once c s = Some (a, b) \<longleftrightarrow> split_once c (rev s) = Some (rev b, rev a)"
    by (auto simp: rsplit_once_def)
  also have "\<dots> \<longleftrightarrow> rev s = rev b @ c # rev a \<and> c \<notin> set b"
    by (simp add: split_once_Some)
  also have "rev s = rev b @ c # rev a \<longleftrightarrow> s = a @ c # b"
    by (metis append.assoc append_Cons append_Nil rev.simps(2) rev_append rev_rev_ident)
  finally show ?thesis .
qed

lemma rsplit_once_None: "rsplit_once c s = None \<longleftrightarrow> c \<notin> set s"
  by (simp add: rsplit_once_def split_once_None)

lemma split_char_Nil [simp]: "split_char c s \<noteq> []"
  by (cases s) (auto split: list.splits)

lemma split_char_hd: "\<exists>ys. split_char c s = takeWhile (\<lambda>x. x \<noteq> c) s # ys"
  by (induction s) auto

lemma concat_split_char: "concat (map (\<lambda>p. p @ [c]) (split_char c s)) = s @ [c]"
  by (induction s) (auto split: list.splits)

section \<open>Decimal numbers\<close>

definition is_ascii_digit :: "char \<Rightarrow> bool" where
  "is_ascii_digit c = (48 \<le> (of_char c :: nat) \<and> (of_char c :: nat) \<le> 57)"

definition digit_value :: "char \<Rightarrow> nat" where
  "digit_value c = of_char c - 48"

definition digit_char :: "nat \<Rightarrow> char" where
  "digit_char d = char_of (48 + d)"

fun decimal_value :: "nat \<Rightarrow> string \<Rightarrow> nat" where
  "decimal_value acc [] = acc"
| "decimal_value acc (c # s) = decimal_value (acc * 10 + digit_value c) s"

text \<open>\<open>str::parse::<u32>\<close>: an optional \<open>+\<close>, at least one digit, no overflow.\<close>

definition parse_u32 :: "string \<Rightarrow> u32 option" where
  "parse_u32 s =
     (let digits = (case s of c # rest \<Rightarrow> if c = CHR ''+'' then rest else s | [] \<Rightarrow> [])
      in if digits \<noteq> [] \<and> list_all is_ascii_digit digits \<and> decimal_value 0 digits < 2 ^ 32
         then Some (of_nat (decimal_value 0 digits)) else None)"

text \<open>\<open>Display\<close> for unsigned integers.\<close>

fun show_nat :: "nat \<Rightarrow> string" where
  "show_nat n = (if n < 10 then [digit_char n] else show_nat (n div 10) @ [digit_char (n mod 10)])"

declare show_nat.simps [simp del]

definition show_u32 :: "u32 \<Rightarrow> string" where
  "show_u32 w = show_nat (unat w)"

lemma digit_char_value [simp]: "d < 10 \<Longrightarrow> digit_value (digit_char d) = d"
  by (simp add: digit_value_def digit_char_def)

lemma digit_char_digit [simp]: "d < 10 \<Longrightarrow> is_ascii_digit (digit_char d)"
  by (simp add: is_ascii_digit_def digit_char_def)

lemma digit_value_char: "is_ascii_digit c \<Longrightarrow> digit_char (digit_value c) = c"
  by (simp add: digit_value_def digit_char_def is_ascii_digit_def)

lemma digit_value_less: "is_ascii_digit c \<Longrightarrow> digit_value c < 10"
  by (auto simp: digit_value_def is_ascii_digit_def)

lemma decimal_value_append:
  "decimal_value acc (s @ [c]) = decimal_value acc s * 10 + digit_value c"
  by (induction s arbitrary: acc) auto

lemma decimal_value_ge: "acc * 10 ^ length s \<le> decimal_value acc s"
proof (induction s arbitrary: acc)
  case Nil
  then show ?case by simp
next
  case (Cons c s)
  have "acc * 10 ^ length (c # s) \<le> (acc * 10 + digit_value c) * 10 ^ length s"
    by (simp add: algebra_simps)
  also have "\<dots> \<le> decimal_value (acc * 10 + digit_value c) s" by (rule Cons.IH)
  finally show ?case by simp
qed

lemma decimal_value_mono_prefix: "acc \<le> decimal_value acc s"
proof (induction s arbitrary: acc)
  case Nil
  then show ?case by simp
next
  case (Cons c s)
  have "acc \<le> acc * 10 + digit_value c" by simp
  also have "\<dots> \<le> decimal_value (acc * 10 + digit_value c) s" by (rule Cons.IH)
  finally show ?case by simp
qed

lemma show_nat_digits: "list_all is_ascii_digit (show_nat n)"
proof (induction n rule: show_nat.induct)
  case (1 n)
  then show ?case by (subst show_nat.simps) simp
qed

lemma show_nat_nonempty [simp]: "show_nat n \<noteq> []"
  by (subst show_nat.simps) simp

lemma decimal_value_show_nat: "decimal_value 0 (show_nat n) = n"
proof (induction n rule: show_nat.induct)
  case (1 n)
  show ?case
  proof (cases "n < 10")
    case True
    then show ?thesis by (subst show_nat.simps) simp
  next
    case False
    then have "decimal_value 0 (show_nat n) =
        decimal_value 0 (show_nat (n div 10) @ [digit_char (n mod 10)])"
      by (subst show_nat.simps) simp
    also have "\<dots> = n div 10 * 10 + n mod 10"
      using 1 [OF False] by (simp add: decimal_value_append)
    finally show ?thesis by simp
  qed
qed

lemma show_nat_inj [simp]: "show_nat a = show_nat b \<longleftrightarrow> a = b"
  by (metis decimal_value_show_nat)

lemma show_u32_inj [simp]: "show_u32 a = show_u32 b \<longleftrightarrow> a = b"
  by (auto simp: show_u32_def word_unat_eq_iff)

lemma show_nat_no_sep:
  assumes "\<not> is_ascii_digit c" shows "c \<notin> set (show_nat n)"
  using show_nat_digits [of n] assms by (auto simp: list_all_iff)

lemma show_u32_no_colon [simp]: "CHR '':'' \<notin> set (show_u32 w)"
  unfolding show_u32_def by (rule show_nat_no_sep) (simp add: is_ascii_digit_def)

text \<open>\<open>show_nat\<close> prints no leading zeros: a digit string as long as its value prints is it.\<close>

lemma show_nat_canonical:
  "list_all is_ascii_digit s \<Longrightarrow> s \<noteq> [] \<Longrightarrow> length s = length (show_nat (decimal_value 0 s)) \<Longrightarrow>
   s = show_nat (decimal_value 0 s)"
proof (induction s rule: rev_induct)
  case Nil
  then show ?case by simp
next
  case (snoc c t)
  let ?v = "decimal_value 0 t" and ?d = "digit_value c"
  have c: "?d < 10" "digit_char ?d = c"
    using snoc.prems(1) by (simp_all add: digit_value_less digit_value_char)
  have val: "decimal_value 0 (t @ [c]) = ?v * 10 + ?d" by (rule decimal_value_append)
  show ?case
  proof (cases "?v * 10 + ?d < 10")
    case True
    then have "length (show_nat (?v * 10 + ?d)) = 1" by (subst show_nat.simps) simp
    then have "t = []" using snoc.prems(3) val by simp
    then show ?thesis using c True by (subst show_nat.simps) (simp add: val)
  next
    case False
    then have s: "show_nat (?v * 10 + ?d) = show_nat ?v @ [c]"
      using c by (subst show_nat.simps) simp
    then have len: "length t = length (show_nat ?v)" using snoc.prems(3) val by simp
    then have "t \<noteq> []" by (metis length_0_conv show_nat_nonempty)
    then have "t = show_nat ?v" using snoc.IH snoc.prems(1) len by simp
    then show ?thesis using s val by simp
  qed
qed

section \<open>Trimming white space\<close>

text \<open>
  \<open>str::trim\<close> removes the characters with the Unicode property \<open>White_Space\<close>, listed here by
  their UTF-8 encodings.
\<close>

definition white_space :: "string list" where
  "white_space =
     [[CHR 0x09], [CHR 0x0A], [CHR 0x0B], [CHR 0x0C], [CHR 0x0D], [CHR 0x20],
      [CHR 0xC2, CHR 0x85], [CHR 0xC2, CHR 0xA0], [CHR 0xE1, CHR 0x9A, CHR 0x80],
      [CHR 0xE2, CHR 0x80, CHR 0x80], [CHR 0xE2, CHR 0x80, CHR 0x81], [CHR 0xE2, CHR 0x80, CHR 0x82],
      [CHR 0xE2, CHR 0x80, CHR 0x83], [CHR 0xE2, CHR 0x80, CHR 0x84], [CHR 0xE2, CHR 0x80, CHR 0x85],
      [CHR 0xE2, CHR 0x80, CHR 0x86], [CHR 0xE2, CHR 0x80, CHR 0x87], [CHR 0xE2, CHR 0x80, CHR 0x88],
      [CHR 0xE2, CHR 0x80, CHR 0x89], [CHR 0xE2, CHR 0x80, CHR 0x8A], [CHR 0xE2, CHR 0x80, CHR 0xA8],
      [CHR 0xE2, CHR 0x80, CHR 0xA9], [CHR 0xE2, CHR 0x80, CHR 0xAF], [CHR 0xE2, CHR 0x81, CHR 0x9F],
      [CHR 0xE3, CHR 0x80, CHR 0x80]]"

function trim_start_with :: "string list \<Rightarrow> string \<Rightarrow> string" where
  "trim_start_with ws s =
     (case find (\<lambda>w. w \<noteq> [] \<and> starts_with s w) ws of
        None \<Rightarrow> s
      | Some w \<Rightarrow> trim_start_with ws (drop (length w) s))"
  by pat_completeness auto
termination
proof (relation "measure (\<lambda>(_, s). length s)")
  fix ws s w assume "find (\<lambda>w. w \<noteq> [] \<and> starts_with s w) ws = Some w"
  then have "w \<noteq> []" "take (length w) s = w" by (auto simp: find_Some_iff starts_with_def)
  then have "s \<noteq> []" by auto
  with \<open>w \<noteq> []\<close> show "((ws, drop (length w) s), ws, s) \<in> measure (\<lambda>(_, s). length s)" by simp
qed simp

declare trim_start_with.simps [simp del]

definition trim :: "string \<Rightarrow> string" where
  "trim s = rev (trim_start_with (map rev white_space) (rev (trim_start_with white_space s)))"

lemma trim_start_with_id:
  assumes "\<And>w. w \<in> set ws \<Longrightarrow> w \<noteq> [] \<Longrightarrow> s \<noteq> [] \<Longrightarrow> hd w \<noteq> hd s"
  shows "trim_start_with ws s = s"
proof -
  have "\<not> (w \<noteq> [] \<and> starts_with s w)" if "w \<in> set ws" for w
    using assms [OF that] by (cases w; cases s) (auto simp: starts_with_def)
  then have "find (\<lambda>w. w \<noteq> [] \<and> starts_with s w) ws = None" by (simp add: find_None_iff)
  then show ?thesis by (subst trim_start_with.simps) simp
qed

text \<open>A string that starts and ends with a printable ASCII byte is not changed.\<close>

definition is_ascii_graphic :: "char \<Rightarrow> bool" where
  "is_ascii_graphic c = (0x21 \<le> (of_char c :: nat) \<and> (of_char c :: nat) \<le> 0x7E)"

lemma white_space_not_graphic:
  "w \<in> set white_space \<Longrightarrow> w \<noteq> [] \<and> \<not> is_ascii_graphic (hd w) \<and> \<not> is_ascii_graphic (last w)"
proof -
  have "list_all (\<lambda>w. w \<noteq> [] \<and> \<not> is_ascii_graphic (hd w) \<and> \<not> is_ascii_graphic (last w)) white_space"
    by (simp add: white_space_def is_ascii_graphic_def)
  then show "w \<in> set white_space \<Longrightarrow> w \<noteq> [] \<and> \<not> is_ascii_graphic (hd w) \<and> \<not> is_ascii_graphic (last w)"
    by (simp add: list_all_iff)
qed

lemma trim_graphic:
  assumes "list_all is_ascii_graphic s"
  shows "trim s = s"
proof -
  have hl: "is_ascii_graphic (hd s)" "is_ascii_graphic (last s)" if "s \<noteq> []"
    using assms that by (simp_all add: list_all_iff)
  have "trim_start_with white_space s = s"
    using hl white_space_not_graphic by (intro trim_start_with_id) metis
  moreover have "trim_start_with (map rev white_space) (rev s) = rev s"
  proof (rule trim_start_with_id)
    fix w assume "w \<in> set (map rev white_space)" "rev s \<noteq> []"
    then show "hd w \<noteq> hd (rev s)"
      using hl(2) white_space_not_graphic [of "rev w"] by (auto simp: hd_rev)
  qed
  ultimately show ?thesis by (simp add: trim_def)
qed

section \<open>Hexadecimal\<close>

definition is_ascii_hexdigit :: "char \<Rightarrow> bool" where
  "is_ascii_hexdigit c =
     (let n = of_char c :: nat in
      (48 \<le> n \<and> n \<le> 57) \<or> (65 \<le> n \<and> n \<le> 70) \<or> (97 \<le> n \<and> n \<le> 102))"

definition hex_digit_value :: "char \<Rightarrow> nat" where
  "hex_digit_value c =
     (let n = of_char c :: nat in
      if n \<le> 57 then n - 48 else if n \<le> 70 then n - 55 else n - 87)"

definition hex_char :: "nat \<Rightarrow> char" where
  "hex_char d = (if d < 10 then char_of (48 + d) else char_of (87 + d))"

fun hex_value :: "nat \<Rightarrow> string \<Rightarrow> nat" where
  "hex_value acc [] = acc"
| "hex_value acc (c # s) = hex_value (acc * 16 + hex_digit_value c) s"

text \<open>\<open>{:0kx}\<close>: the low \<open>k\<close> hexadecimal digits, with leading zeros.\<close>

fun show_hex :: "nat \<Rightarrow> nat \<Rightarrow> string" where
  "show_hex 0 n = []"
| "show_hex (Suc k) n = show_hex k (n div 16) @ [hex_char (n mod 16)]"

lemma hex_value_append: "hex_value acc (s @ [c]) = hex_value acc s * 16 + hex_digit_value c"
  by (induction s arbitrary: acc) auto

lemma hex_char_props:
  assumes "d < 16"
  shows "hex_digit_value (hex_char d) = d" and "is_ascii_hexdigit (hex_char d)"
    and "is_ascii_graphic (hex_char d)"
  using assms
  by (auto simp: hex_digit_value_def hex_char_def is_ascii_hexdigit_def is_ascii_graphic_def Let_def)

lemma show_hex_props:
  "length (show_hex k n) = k" "list_all is_ascii_hexdigit (show_hex k n)"
  "list_all is_ascii_graphic (show_hex k n)"
  by (induction k arbitrary: n) (auto simp: hex_char_props)

lemma hex_value_show: "hex_value 0 (show_hex k n) = n mod 16 ^ k"
proof (induction k arbitrary: n)
  case 0
  then show ?case by simp
next
  case (Suc k)
  have "hex_value 0 (show_hex (Suc k) n) = (n div 16) mod 16 ^ k * 16 + n mod 16"
    by (simp add: hex_value_append Suc hex_char_props)
  also have "\<dots> = n mod 16 ^ Suc k" by (simp add: mod_mult2_eq mult.commute)
  finally show ?case .
qed

lemma hex_digit_value_less: "is_ascii_hexdigit c \<Longrightarrow> hex_digit_value c < 16"
  by (auto simp: is_ascii_hexdigit_def hex_digit_value_def Let_def split: if_splits)

lemma hex_value_less:
  "list_all is_ascii_hexdigit s \<Longrightarrow> hex_value 0 s < 16 ^ length s"
proof (induction s rule: rev_induct)
  case (snoc c s)
  then have "hex_value 0 s < 16 ^ length s" "hex_digit_value c < 16"
    by (simp_all add: hex_digit_value_less)
  then have "hex_value 0 s * 16 + hex_digit_value c < 16 ^ length s * 16" by linarith
  then show ?case by (simp add: hex_value_append)
qed simp

end
