(* ===== verification/IR_Types.thy ===== *)
theory IR_Types
  imports Complex_Main Rust_Str
begin

text \<open>
  The data of the runtime IR (\<open>crates/ntgw-ir/src/types.rs\<close>, \<open>filters.rs\<close>, \<open>mesh.rs\<close>,
  \<open>session.rs\<close>, \<open>timeouts.rs\<close>, \<open>selection.rs\<close>), one record or datatype per struct or enum
  with its fields in the source's order. A field \<open>f\<close> of a struct is named with a short prefix
  of the struct, because Isabelle's field names are global. \<open>Filter\<close> and \<open>BackendRef\<close> refer
  to each other and are one mutual datatype with selectors. A compiled \<open>Regex\<close> is observed
  through \<open>is_match\<close> only and is that predicate. Integer fields that the modelled code never
  computes with (time-outs in seconds, byte limits, 32-bit signed settings) are \<open>nat\<close> or
  \<open>int\<close>; the one \<open>f64\<close> setting is a \<open>real\<close>.
\<close>

type_synonym Regex = "string \<Rightarrow> bool"

section \<open>Third-party and platform parameters\<close>

text \<open>
  What the modelled code takes from outside the repository: \<open>Regex::new\<close> (its result as the
  compiled \<open>is_match\<close>), \<open>form_urlencoded::parse\<close>, and the standard library's
  \<open>DefaultHasher\<close>, whose algorithm Rust leaves unspecified, applied to the three fields of an
  endpoint key.
\<close>

record Lib =
  regex_new :: "string \<Rightarrow> Regex option"
  form_urlencoded_parse :: "string \<Rightarrow> (string \<times> string) list"
  default_hash :: "string \<times> string \<times> u32 \<Rightarrow> u64"

section \<open>Time-outs, sessions, mesh references\<close>

record RouteTimeouts =
  rt_request :: "Duration option"
  rt_backend_request :: "Duration option"
  rt_connect :: "Duration option"
  rt_next_upstream :: "Duration option"

record CookieConfig =
  ck_lifetime_type :: string

record SessionPersistence =
  sp_session_name :: string
  sp_session_type :: string
  sp_absolute_timeout :: "Duration option"
  sp_idle_timeout :: "Duration option"
  sp_cookie :: "CookieConfig option"

record Workload =
  wl_namespace :: string
  wl_name :: string
  wl_ip :: string

record ParentRef =
  pr_group :: string
  pr_kind :: string
  pr_namespace :: string
  pr_name :: string
  pr_section_name :: string
  pr_port :: u32

record ServiceFrontendRef =
  sf_namespace :: string
  sf_name :: string
  sf_port :: u32

section \<open>Endpoints, policies, clusters\<close>

record BackendEndpoint =
  ep_address :: string
  ep_port :: u32
  ep_healthy :: bool

record PersistentSessionTarget =
  pt_backend_name :: string
  pt_endpoint :: BackendEndpoint

record BackendSubjectAltName =
  san_kind :: string
  san_value :: string

record BackendTlsValidation =
  bv_hostname :: string
  bv_use_system_ca_certificates :: bool
  bv_ca_pems :: "string list"
  bv_subject_alt_names :: "BackendSubjectAltName list"
  bv_min_version :: string
  bv_max_version :: string

record BackendTlsConfig =
  bt_client_certificate_ref :: string

record ConsistentHashPolicy =
  ch_key_type :: string
  ch_header_name :: string

record SlowStartConfig =
  ss_window :: "Duration option"

record LoadBalancingPolicy =
  lb_policy_type :: string
  lb_consistent_hash :: "ConsistentHashPolicy option"
  lb_slow_start :: "SlowStartConfig option"

record HealthCheckConfig =
  hc_type :: string
  hc_path :: string
  hc_expected_status :: int
  hc_interval :: "Duration option"
  hc_timeout :: "Duration option"
  hc_healthy_threshold :: u32
  hc_unhealthy_threshold :: u32

record OutlierDetectionConfig =
  od_consecutive_5xx :: u32
  od_interval :: "Duration option"
  od_base_ejection_time :: "Duration option"
  od_max_ejection_percent :: u32

record BackendPolicy =
  bp_connect_timeout :: "Duration option"
  bp_request_timeout :: "Duration option"
  bp_tls_validation :: "BackendTlsValidation option"
  bp_session_persistence :: "SessionPersistence option"
  bp_load_balancing :: "LoadBalancingPolicy option"
  bp_health_check :: "HealthCheckConfig option"
  bp_outlier_detection :: "OutlierDetectionConfig option"

record RetryPolicy =
  ry_codes :: "u32 list"
  ry_attempts :: u32
  ry_backoff :: "Duration option"

section \<open>Filters and backend references\<close>

record HeaderOperation =
  ho_name :: string
  ho_value :: string

record HeaderModifier =
  hm_set :: "HeaderOperation list"
  hm_add :: "HeaderOperation list"
  hm_remove :: "string list"

record CorsFilter =
  cf_allow_origins :: "string list"
  cf_allow_methods :: "string list"
  cf_allow_headers :: "string list"
  cf_expose_headers :: "string list"
  cf_allow_credentials :: bool
  cf_max_age :: "u32 option"

record PathModifier =
  pm_modifier_type :: string
  pm_replace_full_path :: string
  pm_replace_prefix_match :: string

record RequestRedirectFilter =
  rr_scheme :: string
  rr_hostname :: string
  rr_path :: "PathModifier option"
  rr_port :: u32
  rr_status_code :: "16 word"

record UrlRewriteFilter =
  ur_hostname :: string
  ur_path :: "PathModifier option"

record Fraction =
  fr_numerator :: u32
  fr_denominator :: u32

record ExternalHTTPAuthConfig =
  eh_path :: string
  eh_allowed_headers :: "string list"
  eh_allowed_response_headers :: "string list"

record ExternalGRPCAuthConfig =
  eg_allowed_headers :: "string list"

record DirectResponseFilter =
  dr_status_code :: "16 word"
  dr_body :: string
  dr_content_type :: string
  dr_headers :: "HeaderOperation list"

record ExtensionFilter =
  ef_resolved :: bool
  ef_message :: string
  ef_extension_type :: string
  ef_direct_response :: "DirectResponseFilter option"

record MatchedHttpPath =
  mp_path :: string
  mp_path_type :: string

record ClaimToHeader =
  cl_claim :: string
  cl_header :: string

record JwtAuthFilter =
  jf_jwks_url :: string
  jf_issuer :: "string option"
  jf_audience :: "string option"
  jf_header_name :: string
  jf_token_prefix :: string
  jf_claims_to_headers :: "ClaimToHeader list"
  jf_cache_ttl_secs :: "u64 option"

datatype Filter = Filter
    (fl_filter_type: string)
    (fl_header_modifier: "HeaderModifier option")
    (fl_cors: "CorsFilter option")
    (fl_request_redirect: "RequestRedirectFilter option")
    (fl_url_rewrite: "UrlRewriteFilter option")
    (fl_request_mirror: "RequestMirrorFilter option")
    (fl_external_auth: "ExternalAuthFilter option")
    (fl_extension_ref: "ExtensionFilter option")
    (fl_jwt_auth: "JwtAuthFilter option")
  and RequestMirrorFilter = RequestMirrorFilter
    (rm_backend_ref: BackendRef)
    (rm_percent: "u32 option")
    (rm_fraction: "Fraction option")
  and ExternalAuthFilter = ExternalAuthFilter
    (ea_protocol: string)
    (ea_backend_ref: BackendRef)
    (ea_http: ExternalHTTPAuthConfig)
    (ea_grpc: ExternalGRPCAuthConfig)
    (ea_forward_body_max_size: "u32 option")
  and BackendRef = BackendRef
    (br_group: string)
    (br_kind: string)
    (br_namespace: string)
    (br_name: string)
    (br_port: u32)
    (br_weight: u32)
    (br_metadata: "(string \<times> string) list")
    (br_filters: "Filter list")

definition default_backend_weight :: u32 where
  "default_backend_weight = 1"

section \<open>Security policy, plugin and AI service data\<close>

record JwtAuthConfig =
  ja_issuer :: string
  ja_jwks_url :: string
  ja_audience :: string
  ja_header_name :: string
  ja_token_prefix :: string
  ja_claims_to_headers :: "string btree"
  ja_cache_ttl_secs :: int

record OidcAuthConfig =
  oi_provider_authorization_url :: string
  oi_provider_token_url :: string
  oi_provider_jwks_url :: string
  oi_provider_userinfo_url :: string
  oi_client_id :: string
  oi_client_secret_ref :: string
  oi_callback_path :: string
  oi_scopes :: "string list"
  oi_redirect_url :: string
  oi_session_signing_key_ref :: string
  oi_session_cookie_name :: string
  oi_session_ttl_secs :: int

record BasicAuthConfig =
  ba_htpasswd_ref :: string
  ba_bcrypt :: bool
  ba_realm :: string

record SecurityAuthNConfig =
  an_jwt :: "JwtAuthConfig option"
  an_oidc :: "OidcAuthConfig option"
  an_basic_auth :: "BasicAuthConfig option"

record ExternalHttpAuth =
  xh_path_prefix :: string
  xh_headers_to_add :: "string list"

record ExternalGrpcAuth =
  xg_grpc_service :: string

record ExternalAuthConfig =
  xa_protocol :: string
  xa_backend_ref :: "BackendRef option"
  xa_http :: "ExternalHttpAuth option"
  xa_grpc :: "ExternalGrpcAuth option"
  xa_forward_body_max_size :: int

record SecurityAuthZConfig =
  az_external :: "ExternalAuthConfig option"

record SecurityCorsConfig =
  sc_allow_origins :: "string list"
  sc_allow_methods :: "string list"
  sc_allow_headers :: "string list"
  sc_expose_headers :: "string list"
  sc_allow_credentials :: bool
  sc_max_age :: int

record RateLimitRule =
  rl_scope :: string
  rl_requests_per_second :: u32
  rl_burst :: u32
  rl_key_type :: string
  rl_on_limit :: string
  rl_key_header_name :: string

record SecurityIpConfig =
  si_allow_cidrs :: "string list"
  si_deny_cidrs :: "string list"

record SecurityPolicyConfig =
  sy_authn :: "SecurityAuthNConfig option"
  sy_authz :: "SecurityAuthZConfig option"
  sy_cors :: "SecurityCorsConfig option"
  sy_rate_limit :: "RateLimitRule list"
  sy_ip :: "SecurityIpConfig option"

record CircuitBreakerConfig =
  cb_max_inflight_requests :: u32

record WasmSandboxConfig =
  ws_max_memory_bytes :: u64
  ws_max_execution_time_ms :: u64
  ws_allow_network :: bool
  ws_allow_file_system :: bool

record WasmPluginConfig =
  wp_name :: string
  wp_namespace :: string
  wp_wasm_bytes :: "8 word list"
  wp_sha256 :: string
  wp_hooks :: "string list"
  wp_config_json :: string
  wp_sandbox :: WasmSandboxConfig
  wp_source_url :: string

record AIServiceAuthConfig =
  aa_auth_type :: string
  aa_secret_ref :: string
  aa_key :: string
  aa_header :: string

record AIServiceConfig =
  ai_provider :: string
  ai_format :: string
  ai_model :: string
  ai_endpoint :: string
  ai_auth :: "AIServiceAuthConfig option"
  ai_timeout_secs :: "u64 option"
  ai_retry_max_retries :: u32
  ai_retry_backoff_ms :: u64

record TokenPolicyConfig =
  tp_tokens_per_minute :: u64
  tp_tokens_per_hour :: u64
  tp_requests_per_minute :: u64
  tp_scope :: string
  tp_burst :: real
  tp_on_limit :: string

record BackendCluster =
  bc_name :: string
  bc_namespace :: string
  bc_protocol :: string
  bc_endpoints :: "BackendEndpoint list"
  bc_wasm_plugin :: "WasmPluginConfig option"
  bc_ai_service :: "AIServiceConfig option"
  bc_token_policy :: "TokenPolicyConfig option"
  bc_circuit_breaker :: "CircuitBreakerConfig option"
  bc_security_policy :: "SecurityPolicyConfig option"

record SecretMaterial =
  se_namespace :: string
  se_name :: string
  se_cert_pem :: string
  se_key_pem :: string
  se_htpasswd :: string
  se_oidc_client_secret :: string

section \<open>Listeners\<close>

record FrontendValidation =
  fv_ca_pems :: "string list"
  fv_mode :: string

record TlsConfig =
  tl_enabled :: bool
  tl_passthrough :: bool
  tl_secret_refs :: "string list"
  tl_sni_hosts :: "string list"
  tl_min_version :: string
  tl_max_version :: string
  tl_frontend_validation :: "FrontendValidation option"

record Listener =
  ls_name :: string
  ls_address :: string
  ls_addresses :: "string list"
  ls_port :: u32
  ls_protocol :: string
  ls_hostnames :: "string list"
  ls_attached_routes :: "string list"
  ls_tls :: "TlsConfig option"
  ls_backend_tls :: "BackendTlsConfig option"
  ls_metadata :: "string btree"

datatype FrontendClientCertificateRequirement = CertNone | CertReject | CertRequire

fun closes_connection_without_valid_client_certificate ::
    "FrontendClientCertificateRequirement \<Rightarrow> bool \<Rightarrow> bool" where
  "closes_connection_without_valid_client_certificate CertNone present = False"
| "closes_connection_without_valid_client_certificate CertReject present = True"
| "closes_connection_without_valid_client_certificate CertRequire present = (\<not> present)"

section \<open>Routes\<close>

record HeaderMatch =
  hd_name :: string
  hd_value :: string
  hd_match_type :: string
  hd_compiled_regex :: "Regex option"

record QueryMatch =
  qm_name :: string
  qm_value :: string
  qm_match_type :: string
  qm_compiled_regex :: "Regex option"

record HttpMatch =
  ht_path :: string
  ht_path_type :: string
  ht_method :: string
  ht_headers :: "HeaderMatch list"
  ht_query_params :: "QueryMatch list"
  ht_compiled_path_regex :: "Regex option"

record HttpRule =
  hr_name :: string
  hr_matches :: "HttpMatch list"
  hr_filters :: "Filter list"
  hr_backend_refs :: "BackendRef list"
  hr_timeouts :: "RouteTimeouts option"
  hr_retry :: "RetryPolicy option"
  hr_session_persistence :: "SessionPersistence option"

record HttpRoute =
  hroute_name :: string
  hroute_namespace :: string
  hroute_hostnames :: "string list"
  hroute_parent_refs :: "ParentRef list"
  hroute_rules :: "HttpRule list"
  hroute_labels :: "string btree"
  hroute_annotations :: "string btree"

record GrpcMatch =
  gm_service :: string
  gm_method :: string
  gm_match_type :: string
  gm_headers :: "HeaderMatch list"
  gm_compiled_service_regex :: "Regex option"
  gm_compiled_method_regex :: "Regex option"

record GrpcRule =
  gr_name :: string
  gr_matches :: "GrpcMatch list"
  gr_filters :: "Filter list"
  gr_backend_refs :: "BackendRef list"
  gr_session_persistence :: "SessionPersistence option"

record GrpcRoute =
  groute_name :: string
  groute_namespace :: string
  groute_hostnames :: "string list"
  groute_parent_refs :: "ParentRef list"
  groute_rules :: "GrpcRule list"
  groute_labels :: "string btree"
  groute_annotations :: "string btree"

datatype TlsRouteMode = Passthrough | Terminate

record StreamMatch =
  sm_port :: u32
  sm_sni_hostname :: string
  sm_mode :: TlsRouteMode

record StreamRule =
  sr_name :: string
  sr_matches :: "StreamMatch list"
  sr_backend_refs :: "BackendRef list"

record StreamRoute =
  sroute_name :: string
  sroute_namespace :: string
  sroute_kind :: string
  sroute_parent_refs :: "ParentRef list"
  sroute_rules :: "StreamRule list"
  sroute_labels :: "string btree"
  sroute_annotations :: "string btree"

section \<open>Requests\<close>

record RequestMeta =
  rq_host :: "string option"
  rq_port :: u32
  rq_path :: string
  rq_method :: string
  rq_source_ip :: "string option"
  rq_headers :: "string list btree"
  rq_query_params :: "string list btree"

definition RequestMeta_default :: RequestMeta where
  "RequestMeta_default = \<lparr> rq_host = None, rq_port = 0, rq_path = [], rq_method = [],
     rq_source_ip = None, rq_headers = [], rq_query_params = [] \<rparr>"

record RequestMaterializationHints =
  mh_http_route_headers :: bool
  mh_grpc_route_headers :: bool
  mh_session_headers :: bool
  mh_backend_hash_headers :: bool
  mh_source_ip :: bool

definition requires_full_headers :: "RequestMaterializationHints \<Rightarrow> bool" where
  "requires_full_headers h = (mh_http_route_headers h \<or> mh_grpc_route_headers h
     \<or> mh_session_headers h \<or> mh_backend_hash_headers h)"

section \<open>Route policy (ntgw-config) and selection results\<close>

record RoutePolicyTimeoutConfig =
  pt_request :: "u64 option"
  pt_backend_request :: "u64 option"
  pt_connect :: "u64 option"
  pt_next_upstream :: "u64 option"

record RoutePolicyBodyLimitConfig =
  pb_max_request_body_bytes :: "nat option"
  pb_request_body_buffer_bytes :: "nat option"
  pb_max_request_header_bytes :: "nat option"

record RoutePolicyProxyConfig =
  pp_request_buffering :: "bool option"
  pp_response_buffering :: "bool option"
  pp_buffer_size :: "nat option"
  pp_buffer_count :: "u32 option"

record RoutePolicyConnectionConfig =
  pc_keepalive_requests :: "u32 option"
  pc_keepalive_time :: "u64 option"
  pc_keepalive_timeout :: "u64 option"
  pc_upstream_keepalive_pool_size :: "u32 option"
  pc_upstream_keepalive_idle :: "u64 option"

record RoutePolicyConfig =
  rp_timeout :: "RoutePolicyTimeoutConfig option"
  rp_body_limit :: "RoutePolicyBodyLimitConfig option"
  rp_proxy :: "RoutePolicyProxyConfig option"
  rp_connection :: "RoutePolicyConnectionConfig option"

datatype RouteKind = Http | Grpc | Tcp | Udp | Tls

datatype BackendSelectionError = InvalidBackendRefs | NoHealthyBackends

record SelectedBackend =
  sb_route_kind :: RouteKind
  sb_route_name :: string
  sb_route_namespace :: string
  sb_rule_index :: "nat option"
  sb_route_annotations :: "string btree"
  sb_listener_name :: string
  sb_listener_protocol :: string
  sb_backend :: BackendEndpoint
  sb_backend_name :: string
  sb_filters :: "Filter list"
  sb_matched_http_path :: "MatchedHttpPath option"
  sb_timeouts :: "RouteTimeouts option"
  sb_retry :: "RetryPolicy option"
  sb_session_persistence :: "SessionPersistence option"
  sb_backend_tls :: "BackendTlsConfig option"
  sb_route_policy :: "RoutePolicyConfig option"

record RequestMirrorContext =
  mc_route_kind :: RouteKind
  mc_route_name :: string
  mc_route_namespace :: string
  mc_rule_index :: "nat option"
  mc_filters :: "Filter list"
  mc_matched_http_path :: "MatchedHttpPath option"
  mc_timeouts :: "RouteTimeouts option"
  mc_backend_tls :: "BackendTlsConfig option"
  mc_route_policy :: "RoutePolicyConfig option"

record SelectedHttpRoute =
  sh_route_name :: string
  sh_route_namespace :: string
  sh_rule_index :: "nat option"
  sh_route_annotations :: "string btree"
  sh_listener_name :: string
  sh_listener_protocol :: string
  sh_filters :: "Filter list"
  sh_matched_http_path :: MatchedHttpPath
  sh_backend :: "BackendEndpoint option"
  sh_backend_name :: "string option"
  sh_backend_error :: "BackendSelectionError option"
  sh_timeouts :: "RouteTimeouts option"
  sh_retry :: "RetryPolicy option"
  sh_session_persistence :: "SessionPersistence option"
  sh_backend_tls :: "BackendTlsConfig option"
  sh_route_policy :: "RoutePolicyConfig option"
  sh_security_policy :: "SecurityPolicyConfig option"

record ResolvedHttpBackend =
  rb_endpoint :: BackendEndpoint
  rb_backend_name :: string
  rb_filters :: "Filter list"
  rb_session_persistence :: "SessionPersistence option"

record HttpBackendResolution =
  hb_selected :: "ResolvedHttpBackend option"
  hb_error :: "BackendSelectionError option"

end
