(* ===== verification/Scores.thy ===== *)
theory Scores
  imports IR_Types
begin

text \<open>
  The match scores that order candidates (\<open>types.rs\<close>, \<open>http_selection/scoring.rs\<close>,
  \<open>http_fast_path.rs\<close>). The structs derive \<open>Ord\<close>, the lexicographic order of the fields in
  declaration order; here each is a datatype with selectors and an instance of
  \<^theory_text>\<open>linorder\<close>, defined through the tuple of its fields. \<open>Default\<close> is the least
  element of each.
\<close>

section \<open>StreamMatchScore\<close>

datatype StreamMatchScore = StreamMatchScore (sms_hostname_rank: nat) (sms_hostname_length: nat)

fun StreamMatchScore_key :: "StreamMatchScore \<Rightarrow> nat \<times> nat" where
  "StreamMatchScore_key (StreamMatchScore r l) = (r, l)"

lemma StreamMatchScore_key_inj: "StreamMatchScore_key a = StreamMatchScore_key b \<Longrightarrow> a = b"
  by (cases a; cases b) simp

instantiation StreamMatchScore :: linorder
begin

definition less_eq_StreamMatchScore :: "StreamMatchScore \<Rightarrow> StreamMatchScore \<Rightarrow> bool" where
  "less_eq_StreamMatchScore a b = (StreamMatchScore_key a \<le> StreamMatchScore_key b)"

definition less_StreamMatchScore :: "StreamMatchScore \<Rightarrow> StreamMatchScore \<Rightarrow> bool" where
  "less_StreamMatchScore a b = (StreamMatchScore_key a < StreamMatchScore_key b)"

instance
  by standard (auto simp: less_eq_StreamMatchScore_def less_StreamMatchScore_def
      intro: StreamMatchScore_key_inj)

end

definition StreamMatchScore_default :: StreamMatchScore where
  "StreamMatchScore_default = StreamMatchScore 0 0"

section \<open>HostnameScore\<close>

datatype HostnameScore = HostnameScore (hs_rank: nat) (hs_length: nat)

fun HostnameScore_key :: "HostnameScore \<Rightarrow> nat \<times> nat" where
  "HostnameScore_key (HostnameScore r l) = (r, l)"

lemma HostnameScore_key_inj: "HostnameScore_key a = HostnameScore_key b \<Longrightarrow> a = b"
  by (cases a; cases b) simp

instantiation HostnameScore :: linorder
begin

definition less_eq_HostnameScore :: "HostnameScore \<Rightarrow> HostnameScore \<Rightarrow> bool" where
  "less_eq_HostnameScore a b = (HostnameScore_key a \<le> HostnameScore_key b)"

definition less_HostnameScore :: "HostnameScore \<Rightarrow> HostnameScore \<Rightarrow> bool" where
  "less_HostnameScore a b = (HostnameScore_key a < HostnameScore_key b)"

instance
  by standard (auto simp: less_eq_HostnameScore_def less_HostnameScore_def
      intro: HostnameScore_key_inj)

end

definition HostnameScore_default :: HostnameScore where
  "HostnameScore_default = HostnameScore 0 0"

section \<open>HttpRuleScore\<close>

datatype HttpRuleScore = HttpRuleScore (hrs_path_rank: nat) (hrs_path_length: nat)
  (hrs_method_specified: bool) (hrs_header_count: nat) (hrs_query_count: nat)

fun HttpRuleScore_key :: "HttpRuleScore \<Rightarrow> nat \<times> nat \<times> bool \<times> nat \<times> nat" where
  "HttpRuleScore_key (HttpRuleScore r l m h q) = (r, l, m, h, q)"

lemma HttpRuleScore_key_inj: "HttpRuleScore_key a = HttpRuleScore_key b \<Longrightarrow> a = b"
  by (cases a; cases b) simp

instantiation HttpRuleScore :: linorder
begin

definition less_eq_HttpRuleScore :: "HttpRuleScore \<Rightarrow> HttpRuleScore \<Rightarrow> bool" where
  "less_eq_HttpRuleScore a b = (HttpRuleScore_key a \<le> HttpRuleScore_key b)"

definition less_HttpRuleScore :: "HttpRuleScore \<Rightarrow> HttpRuleScore \<Rightarrow> bool" where
  "less_HttpRuleScore a b = (HttpRuleScore_key a < HttpRuleScore_key b)"

instance
  by standard (auto simp: less_eq_HttpRuleScore_def less_HttpRuleScore_def
      intro: HttpRuleScore_key_inj)

end

definition HttpRuleScore_default :: HttpRuleScore where
  "HttpRuleScore_default = HttpRuleScore 0 0 False 0 0"

section \<open>GrpcRuleScore\<close>

datatype GrpcRuleScore = GrpcRuleScore (grs_service_specified: bool) (grs_method_specified: bool)
  (grs_header_count: nat)

fun GrpcRuleScore_key :: "GrpcRuleScore \<Rightarrow> bool \<times> bool \<times> nat" where
  "GrpcRuleScore_key (GrpcRuleScore s m h) = (s, m, h)"

lemma GrpcRuleScore_key_inj: "GrpcRuleScore_key a = GrpcRuleScore_key b \<Longrightarrow> a = b"
  by (cases a; cases b) simp

instantiation GrpcRuleScore :: linorder
begin

definition less_eq_GrpcRuleScore :: "GrpcRuleScore \<Rightarrow> GrpcRuleScore \<Rightarrow> bool" where
  "less_eq_GrpcRuleScore a b = (GrpcRuleScore_key a \<le> GrpcRuleScore_key b)"

definition less_GrpcRuleScore :: "GrpcRuleScore \<Rightarrow> GrpcRuleScore \<Rightarrow> bool" where
  "less_GrpcRuleScore a b = (GrpcRuleScore_key a < GrpcRuleScore_key b)"

instance
  by standard (auto simp: less_eq_GrpcRuleScore_def less_GrpcRuleScore_def
      intro: GrpcRuleScore_key_inj)

end

definition GrpcRuleScore_default :: GrpcRuleScore where
  "GrpcRuleScore_default = GrpcRuleScore False False 0"

section \<open>HttpCandidateScore\<close>

datatype HttpCandidateScore = HttpCandidateScore (hcs_listener_host: HostnameScore)
  (hcs_route_host: HostnameScore) (hcs_rule: HttpRuleScore)

fun HttpCandidateScore_key :: "HttpCandidateScore \<Rightarrow> HostnameScore \<times> HostnameScore \<times> HttpRuleScore" where
  "HttpCandidateScore_key (HttpCandidateScore l r s) = (l, r, s)"

lemma HttpCandidateScore_key_inj: "HttpCandidateScore_key a = HttpCandidateScore_key b \<Longrightarrow> a = b"
  by (cases a; cases b) simp

instantiation HttpCandidateScore :: linorder
begin

definition less_eq_HttpCandidateScore :: "HttpCandidateScore \<Rightarrow> HttpCandidateScore \<Rightarrow> bool" where
  "less_eq_HttpCandidateScore a b = (HttpCandidateScore_key a \<le> HttpCandidateScore_key b)"

definition less_HttpCandidateScore :: "HttpCandidateScore \<Rightarrow> HttpCandidateScore \<Rightarrow> bool" where
  "less_HttpCandidateScore a b = (HttpCandidateScore_key a < HttpCandidateScore_key b)"

instance
  by standard (auto simp: less_eq_HttpCandidateScore_def less_HttpCandidateScore_def
      intro: HttpCandidateScore_key_inj)

end

section \<open>GrpcCandidateScore\<close>

datatype GrpcCandidateScore = GrpcCandidateScore (gcs_listener_host: HostnameScore)
  (gcs_route_host: HostnameScore) (gcs_rule: GrpcRuleScore)

fun GrpcCandidateScore_key :: "GrpcCandidateScore \<Rightarrow> HostnameScore \<times> HostnameScore \<times> GrpcRuleScore" where
  "GrpcCandidateScore_key (GrpcCandidateScore l r s) = (l, r, s)"

lemma GrpcCandidateScore_key_inj: "GrpcCandidateScore_key a = GrpcCandidateScore_key b \<Longrightarrow> a = b"
  by (cases a; cases b) simp

instantiation GrpcCandidateScore :: linorder
begin

definition less_eq_GrpcCandidateScore :: "GrpcCandidateScore \<Rightarrow> GrpcCandidateScore \<Rightarrow> bool" where
  "less_eq_GrpcCandidateScore a b = (GrpcCandidateScore_key a \<le> GrpcCandidateScore_key b)"

definition less_GrpcCandidateScore :: "GrpcCandidateScore \<Rightarrow> GrpcCandidateScore \<Rightarrow> bool" where
  "less_GrpcCandidateScore a b = (GrpcCandidateScore_key a < GrpcCandidateScore_key b)"

instance
  by standard (auto simp: less_eq_GrpcCandidateScore_def less_GrpcCandidateScore_def
      intro: GrpcCandidateScore_key_inj)

end

section \<open>The scores of the compiled HTTP fast path\<close>

datatype FastHostnameScore = FastHostnameScore (fhs_rank: nat) (fhs_length: nat)

fun FastHostnameScore_key :: "FastHostnameScore \<Rightarrow> nat \<times> nat" where
  "FastHostnameScore_key (FastHostnameScore r l) = (r, l)"

lemma FastHostnameScore_key_inj: "FastHostnameScore_key a = FastHostnameScore_key b \<Longrightarrow> a = b"
  by (cases a; cases b) simp

instantiation FastHostnameScore :: linorder
begin

definition less_eq_FastHostnameScore :: "FastHostnameScore \<Rightarrow> FastHostnameScore \<Rightarrow> bool" where
  "less_eq_FastHostnameScore a b = (FastHostnameScore_key a \<le> FastHostnameScore_key b)"

definition less_FastHostnameScore :: "FastHostnameScore \<Rightarrow> FastHostnameScore \<Rightarrow> bool" where
  "less_FastHostnameScore a b = (FastHostnameScore_key a < FastHostnameScore_key b)"

instance
  by standard (auto simp: less_eq_FastHostnameScore_def less_FastHostnameScore_def
      intro: FastHostnameScore_key_inj)

end

definition FastHostnameScore_default :: FastHostnameScore where
  "FastHostnameScore_default = FastHostnameScore 0 0"

datatype FastHttpRuleScore = FastHttpRuleScore (frs_path_rank: nat) (frs_path_length: nat)
  (frs_method_specified: bool)

fun FastHttpRuleScore_key :: "FastHttpRuleScore \<Rightarrow> nat \<times> nat \<times> bool" where
  "FastHttpRuleScore_key (FastHttpRuleScore r l m) = (r, l, m)"

lemma FastHttpRuleScore_key_inj: "FastHttpRuleScore_key a = FastHttpRuleScore_key b \<Longrightarrow> a = b"
  by (cases a; cases b) simp

instantiation FastHttpRuleScore :: linorder
begin

definition less_eq_FastHttpRuleScore :: "FastHttpRuleScore \<Rightarrow> FastHttpRuleScore \<Rightarrow> bool" where
  "less_eq_FastHttpRuleScore a b = (FastHttpRuleScore_key a \<le> FastHttpRuleScore_key b)"

definition less_FastHttpRuleScore :: "FastHttpRuleScore \<Rightarrow> FastHttpRuleScore \<Rightarrow> bool" where
  "less_FastHttpRuleScore a b = (FastHttpRuleScore_key a < FastHttpRuleScore_key b)"

instance
  by standard (auto simp: less_eq_FastHttpRuleScore_def less_FastHttpRuleScore_def
      intro: FastHttpRuleScore_key_inj)

end

definition FastHttpRuleScore_default :: FastHttpRuleScore where
  "FastHttpRuleScore_default = FastHttpRuleScore 0 0 False"

datatype FastCandidateScore = FastCandidateScore (fcs_listener_host: FastHostnameScore)
  (fcs_route_host: FastHostnameScore) (fcs_rule: FastHttpRuleScore)

fun FastCandidateScore_key ::
    "FastCandidateScore \<Rightarrow> FastHostnameScore \<times> FastHostnameScore \<times> FastHttpRuleScore" where
  "FastCandidateScore_key (FastCandidateScore l r s) = (l, r, s)"

lemma FastCandidateScore_key_inj: "FastCandidateScore_key a = FastCandidateScore_key b \<Longrightarrow> a = b"
  by (cases a; cases b) simp

instantiation FastCandidateScore :: linorder
begin

definition less_eq_FastCandidateScore :: "FastCandidateScore \<Rightarrow> FastCandidateScore \<Rightarrow> bool" where
  "less_eq_FastCandidateScore a b = (FastCandidateScore_key a \<le> FastCandidateScore_key b)"

definition less_FastCandidateScore :: "FastCandidateScore \<Rightarrow> FastCandidateScore \<Rightarrow> bool" where
  "less_FastCandidateScore a b = (FastCandidateScore_key a < FastCandidateScore_key b)"

instance
  by standard (auto simp: less_eq_FastCandidateScore_def less_FastCandidateScore_def
      intro: FastCandidateScore_key_inj)

end

lemmas score_order_defs =
  less_eq_StreamMatchScore_def less_StreamMatchScore_def
  less_eq_HostnameScore_def less_HostnameScore_def
  less_eq_HttpRuleScore_def less_HttpRuleScore_def
  less_eq_GrpcRuleScore_def less_GrpcRuleScore_def
  less_eq_HttpCandidateScore_def less_HttpCandidateScore_def
  less_eq_GrpcCandidateScore_def less_GrpcCandidateScore_def
  less_eq_FastHostnameScore_def less_FastHostnameScore_def
  less_eq_FastHttpRuleScore_def less_FastHttpRuleScore_def
  less_eq_FastCandidateScore_def less_FastCandidateScore_def

end
