(* ===== verification/Matching.thy ===== *)
theory Matching
  imports Scores
begin

text \<open>
  Request matching, \<open>crates/ntgw-ir/src/matching.rs\<close>: host normalisation and hostname
  patterns, path, method, header and query matchers, gRPC and stream matchers, compilation of
  the matchers' regular expressions, and the construction of a \<open>RequestMeta\<close>. The lemmas give
  each matcher's meaning and show that compiling a matcher never changes what it accepts.
\<close>

section \<open>Hosts\<close>

definition normalize_host_ref :: "string \<Rightarrow> string" where
  "normalize_host_ref host =
     (case strip_prefix ''['' host of
        Some host \<Rightarrow> (case split_once CHR '']'' host of Some (v, _) \<Rightarrow> v | None \<Rightarrow> host)
      | None \<Rightarrow> (case split_char CHR '':'' host of [] \<Rightarrow> host | x # _ \<Rightarrow> x))"

definition hostname_matches :: "string \<Rightarrow> string \<Rightarrow> bool" where
  "hostname_matches pattern host =
     (let pattern = normalize_host_ref pattern in
      case strip_prefix ''*.'' pattern of
        Some suffix \<Rightarrow>
          length suffix < length host
          \<and> host ! (length host - length suffix - 1) = CHR ''.''
          \<and> eq_ignore_ascii_case (drop (length host - length suffix) host) suffix
      | None \<Rightarrow> eq_ignore_ascii_case pattern host)"

definition parse_authority_port :: "string \<Rightarrow> u32 option" where
  "parse_authority_port host =
     (case strip_prefix ''['' host of
        Some host \<Rightarrow>
          (case split_once_str '']:'' host of Some (_, port) \<Rightarrow> parse_u32 port | None \<Rightarrow> None)
      | None \<Rightarrow>
          (case rsplit_once CHR '':'' host of
             None \<Rightarrow> None
           | Some (name, port) \<Rightarrow> if CHR '':'' \<in> set name then None else parse_u32 port))"

section \<open>Filters\<close>

definition has_non_backend_http_filter :: "Filter list \<Rightarrow> bool" where
  "has_non_backend_http_filter filters = list_ex (\<lambda>f.
     fl_request_redirect f \<noteq> None \<or> fl_url_rewrite f \<noteq> None
     \<or> fl_header_modifier f \<noteq> None \<or> fl_extension_ref f \<noteq> None) filters"

definition filters_without_request_mirror :: "Filter list \<Rightarrow> Filter list" where
  "filters_without_request_mirror filters = filter (\<lambda>f. fl_request_mirror f = None) filters"

section \<open>Matched paths\<close>

definition default_http_path_match :: MatchedHttpPath where
  "default_http_path_match = \<lparr> mp_path = ''/'', mp_path_type = ''PathPrefix'' \<rparr>"

definition normalize_http_path_match :: "HttpMatch \<Rightarrow> MatchedHttpPath" where
  "normalize_http_path_match m =
     (if ht_path m = [] then default_http_path_match
      else \<lparr> mp_path = ht_path m, mp_path_type = ht_path_type m \<rparr>)"

section \<open>Names, regular expressions, values\<close>

definition has_ascii_uppercase :: "string \<Rightarrow> bool" where
  "has_ascii_uppercase s = list_ex is_ascii_uppercase s"

definition lookup_match_name :: "string \<Rightarrow> string" where
  "lookup_match_name name = (if has_ascii_uppercase name then to_ascii_lowercase name else name)"

definition normalize_match_name :: "string \<Rightarrow> string" where
  "normalize_match_name name = (if has_ascii_uppercase name then to_ascii_lowercase name else name)"

definition regex_matches :: "Lib \<Rightarrow> Regex option \<Rightarrow> string \<Rightarrow> string \<Rightarrow> bool" where
  "regex_matches lib compiled pattern candidate =
     (case compiled of
        Some re \<Rightarrow> re candidate
      | None \<Rightarrow> (case regex_new lib pattern of Some re \<Rightarrow> re candidate | None \<Rightarrow> False))"

definition compile_regex :: "Lib \<Rightarrow> string \<Rightarrow> bool \<Rightarrow> Regex option" where
  "compile_regex lib pattern enabled = (if enabled then regex_new lib pattern else None)"

definition matches_values ::
    "Lib \<Rightarrow> string \<Rightarrow> string \<Rightarrow> string list option \<Rightarrow> Regex option \<Rightarrow> bool" where
  "matches_values lib expected match_type actual compiled =
     (case actual of
        None \<Rightarrow> False
      | Some values \<Rightarrow>
          if match_type = ''RegularExpression''
          then list_ex (\<lambda>v. regex_matches lib compiled expected v) values
          else list_ex (\<lambda>v. v = expected) values)"

definition matches_headers :: "Lib \<Rightarrow> HeaderMatch list \<Rightarrow> string list btree \<Rightarrow> bool" where
  "matches_headers lib expected actual = list_all (\<lambda>item.
     matches_values lib (hd_value item) (hd_match_type item)
       (map_of actual (lookup_match_name (hd_name item))) (hd_compiled_regex item)) expected"

definition matches_query_params :: "Lib \<Rightarrow> QueryMatch list \<Rightarrow> string list btree \<Rightarrow> bool" where
  "matches_query_params lib expected actual = list_all (\<lambda>item.
     matches_values lib (qm_value item) (qm_match_type item)
       (map_of actual (lookup_match_name (qm_name item))) (qm_compiled_regex item)) expected"

section \<open>HTTP matchers\<close>

definition matches_path_prefix :: "string \<Rightarrow> string \<Rightarrow> bool" where
  "matches_path_prefix pre path =
     (if pre = ''/'' then True
      else if path = pre then True
      else if ends_with_char pre CHR ''/'' then starts_with path pre
      else starts_with path pre
           \<and> (case nth_opt path (length pre) of Some b \<Rightarrow> b = CHR ''/'' | None \<Rightarrow> False))"

definition matches_http_path :: "Lib \<Rightarrow> HttpMatch \<Rightarrow> RequestMeta \<Rightarrow> bool" where
  "matches_http_path lib m request =
     (if ht_path m = [] then True
      else if ht_path_type m = ''Exact'' then rq_path request = ht_path m
      else if ht_path_type m = ''RegularExpression''
        then regex_matches lib (ht_compiled_path_regex m) (ht_path m) (rq_path request)
      else matches_path_prefix (ht_path m) (rq_path request))"

definition matches_method :: "string \<Rightarrow> string \<Rightarrow> bool" where
  "matches_method expected actual = (expected = [] \<or> eq_ignore_ascii_case expected actual)"

definition matches_http_rule :: "Lib \<Rightarrow> HttpMatch \<Rightarrow> RequestMeta \<Rightarrow> bool" where
  "matches_http_rule lib m request =
     (matches_http_path lib m request
      \<and> matches_method (ht_method m) (rq_method request)
      \<and> matches_headers lib (ht_headers m) (rq_headers request)
      \<and> matches_query_params lib (ht_query_params m) (rq_query_params request))"

section \<open>gRPC matchers\<close>

record GrpcPath =
  gp_service :: string
  gp_method :: string

definition is_grpc_request :: "RequestMeta \<Rightarrow> bool" where
  "is_grpc_request request =
     (case map_of (rq_headers request) ''content-type'' of
        None \<Rightarrow> False
      | Some values \<Rightarrow> list_ex (\<lambda>v. starts_with v ''application/grpc'') values)"

definition parse_grpc_path :: "string \<Rightarrow> GrpcPath option" where
  "parse_grpc_path path =
     (case strip_prefix ''/'' path of
        None \<Rightarrow> None
      | Some path \<Rightarrow>
          (case split_once CHR ''/'' path of
             None \<Rightarrow> None
           | Some (service, meth) \<Rightarrow>
               if service = [] \<or> meth = [] then None
               else Some \<lparr> gp_service = service, gp_method = meth \<rparr>))"

definition matches_grpc_value :: "Lib \<Rightarrow> string \<Rightarrow> string \<Rightarrow> string \<Rightarrow> Regex option \<Rightarrow> bool" where
  "matches_grpc_value lib expected actual match_type compiled =
     (if expected = [] then True
      else if match_type = ''RegularExpression'' then regex_matches lib compiled expected actual
      else expected = actual)"

definition matches_grpc_rule :: "Lib \<Rightarrow> GrpcMatch \<Rightarrow> RequestMeta \<Rightarrow> GrpcPath option \<Rightarrow> bool" where
  "matches_grpc_rule lib m request grpc =
     (if \<not> matches_headers lib (gm_headers m) (rq_headers request) then False
      else case grpc of
        None \<Rightarrow> gm_service m = [] \<and> gm_method m = []
      | Some grpc \<Rightarrow>
          matches_grpc_value lib (gm_service m) (gp_service grpc) (gm_match_type m)
            (gm_compiled_service_regex m)
          \<and> matches_grpc_value lib (gm_method m) (gp_method grpc) (gm_match_type m)
            (gm_compiled_method_regex m))"

section \<open>Stream matchers\<close>

definition matches_stream_rule :: "StreamMatch \<Rightarrow> u32 \<Rightarrow> string option \<Rightarrow> bool" where
  "matches_stream_rule m port server_name =
     (if sm_port m \<noteq> 0 \<and> sm_port m \<noteq> port then False
      else if sm_sni_hostname m = [] then True
      else case map_option normalize_host_ref server_name of
        None \<Rightarrow> False
      | Some server_name \<Rightarrow> hostname_matches (sm_sni_hostname m) server_name)"

definition stream_match_score :: "StreamMatch \<Rightarrow> StreamMatchScore" where
  "stream_match_score m =
     (if sm_sni_hostname m = [] then StreamMatchScore_default
      else let hostname = normalize_host_ref (sm_sni_hostname m) in
        case strip_prefix ''*.'' hostname of
          Some suffix \<Rightarrow> StreamMatchScore 1 (length suffix)
        | None \<Rightarrow> StreamMatchScore 2 (length hostname))"

definition best_stream_rule_match_with_tls_mode ::
    "StreamMatch list \<Rightarrow> u32 \<Rightarrow> string option \<Rightarrow> TlsRouteMode option \<Rightarrow> StreamMatchScore option" where
  "best_stream_rule_match_with_tls_mode ms port server_name tls_mode =
     (if ms = [] then
        (if tls_mode = Some Terminate then None else Some StreamMatchScore_default)
      else max_by (\<lambda>x. x) (map stream_match_score
             (filter (\<lambda>m. matches_stream_rule m port server_name)
                (filter (\<lambda>m. case tls_mode of None \<Rightarrow> True | Some mode \<Rightarrow> sm_mode m = mode) ms))))"

section \<open>Compilation of matchers\<close>

definition compile_header_match :: "Lib \<Rightarrow> HeaderMatch \<Rightarrow> HeaderMatch" where
  "compile_header_match lib h = h\<lparr>
     hd_name := normalize_match_name (hd_name h),
     hd_compiled_regex := compile_regex lib (hd_value h) (hd_match_type h = ''RegularExpression'') \<rparr>"

definition compile_query_match :: "Lib \<Rightarrow> QueryMatch \<Rightarrow> QueryMatch" where
  "compile_query_match lib q = q\<lparr>
     qm_name := normalize_match_name (qm_name q),
     qm_compiled_regex := compile_regex lib (qm_value q) (qm_match_type q = ''RegularExpression'') \<rparr>"

definition compile_http_match :: "Lib \<Rightarrow> HttpMatch \<Rightarrow> HttpMatch" where
  "compile_http_match lib m = m\<lparr>
     ht_compiled_path_regex := compile_regex lib (ht_path m) (ht_path_type m = ''RegularExpression''),
     ht_headers := map (compile_header_match lib) (ht_headers m),
     ht_query_params := map (compile_query_match lib) (ht_query_params m) \<rparr>"

definition compile_grpc_match :: "Lib \<Rightarrow> GrpcMatch \<Rightarrow> GrpcMatch" where
  "compile_grpc_match lib m =
     (let regex_enabled = (gm_match_type m = ''RegularExpression'') in m\<lparr>
       gm_compiled_service_regex :=
         compile_regex lib (gm_service m) (regex_enabled \<and> gm_service m \<noteq> []),
       gm_compiled_method_regex :=
         compile_regex lib (gm_method m) (regex_enabled \<and> gm_method m \<noteq> []),
       gm_headers := map (compile_header_match lib) (gm_headers m) \<rparr>)"

section \<open>Requests\<close>

text \<open>\<open>BTreeMap::entry(k).or_default().push(v)\<close> on a map to vectors.\<close>

fun btree_push :: "string \<Rightarrow> 'v \<Rightarrow> 'v list btree \<Rightarrow> 'v list btree" where
  "btree_push k v [] = [(k, [v])]"
| "btree_push k v ((k', vs) # m) =
     (if k = k' then (k', vs @ [v]) # m
      else if k < k' then (k, [v]) # (k', vs) # m
      else (k', vs) # btree_push k v m)"

definition split_path_and_query :: "Lib \<Rightarrow> string \<Rightarrow> string \<times> string list btree" where
  "split_path_and_query lib raw =
     (let (path, query) = (case split_once CHR ''?'' raw of Some pq \<Rightarrow> pq | None \<Rightarrow> (raw, []))
      in (path, foldl (\<lambda>m (name, value). btree_push (to_ascii_lowercase name) value m) []
                  (form_urlencoded_parse lib query)))"

definition RequestMeta_with_port ::
    "Lib \<Rightarrow> string option \<Rightarrow> u32 \<Rightarrow> string \<Rightarrow> string \<Rightarrow> string list btree \<Rightarrow> RequestMeta" where
  "RequestMeta_with_port lib host port path_and_query meth headers =
     (let (path, query_params) = split_path_and_query lib path_and_query;
          resolved_port = (if port \<noteq> 0 then port
             else case Option.bind host parse_authority_port of Some p \<Rightarrow> p | None \<Rightarrow> 0)
      in \<lparr> rq_host = map_option normalize_host_ref host, rq_port = resolved_port,
           rq_path = path, rq_method = to_ascii_uppercase meth, rq_source_ip = None,
           rq_headers = headers, rq_query_params = query_params \<rparr>)"

definition RequestMeta_new ::
    "Lib \<Rightarrow> string option \<Rightarrow> string \<Rightarrow> string \<Rightarrow> string list btree \<Rightarrow> RequestMeta" where
  "RequestMeta_new lib host path_and_query meth headers =
     RequestMeta_with_port lib host 0 path_and_query meth headers"

section \<open>Facts on hosts\<close>

lemma normalize_host_ref_plain:
  "strip_prefix ''['' host = None \<Longrightarrow> normalize_host_ref host = takeWhile (\<lambda>c. c \<noteq> CHR '':'') host"
  using split_char_hd [of "CHR '':''" host]
  by (auto simp: normalize_host_ref_def)

lemma takeWhile_id: "x \<notin> set xs \<Longrightarrow> takeWhile (\<lambda>c. c \<noteq> x) xs = xs"
  by (induction xs) auto

lemma normalize_host_ref_id:
  assumes "CHR '':'' \<notin> set host" and "strip_prefix ''['' host = None"
  shows "normalize_host_ref host = host"
  using assms by (simp add: normalize_host_ref_plain takeWhile_id)

lemma normalize_host_ref_wildcard:
  "normalize_host_ref (''*.'' @ s) = ''*.'' @ takeWhile (\<lambda>c. c \<noteq> CHR '':'') s"
  by (subst normalize_host_ref_plain) (simp_all add: strip_prefix_None)

lemma hostname_matches_wildcard:
  assumes "strip_prefix ''*.'' (normalize_host_ref pattern) = Some suffix"
  shows "hostname_matches pattern host \<longleftrightarrow>
    (\<exists>label tail. host = label @ ''.'' @ tail \<and> eq_ignore_ascii_case tail suffix)"
proof
  let ?n = "length host - length suffix"
  assume "hostname_matches pattern host"
  then have len: "length suffix < length host" and dot: "host ! (?n - 1) = CHR ''.''"
    and tail: "eq_ignore_ascii_case (drop ?n host) suffix"
    using assms by (auto simp: hostname_matches_def)
  have "host = take (?n - 1) host @ host ! (?n - 1) # drop (Suc (?n - 1)) host"
    using len by (intro id_take_nth_drop) simp
  also have "Suc (?n - 1) = ?n" using len by simp
  finally have "host = take (?n - 1) host @ ''.'' @ drop ?n host" using dot by simp
  with tail show "\<exists>label tail. host = label @ ''.'' @ tail \<and> eq_ignore_ascii_case tail suffix"
    by blast
next
  assume "\<exists>label tail. host = label @ ''.'' @ tail \<and> eq_ignore_ascii_case tail suffix"
  then obtain label tail where host: "host = label @ ''.'' @ tail"
    and eq: "eq_ignore_ascii_case tail suffix" by blast
  from eq have "length tail = length suffix" by (rule eq_ignore_ascii_case_length)
  with host eq assms show "hostname_matches pattern host"
    by (simp add: hostname_matches_def)
qed

lemma hostname_matches_exact:
  assumes "strip_prefix ''*.'' (normalize_host_ref pattern) = None"
  shows "hostname_matches pattern host \<longleftrightarrow> eq_ignore_ascii_case (normalize_host_ref pattern) host"
  using assms by (simp add: hostname_matches_def)

section \<open>Facts on names and values\<close>

lemma lookup_match_name_lower: "lookup_match_name name = to_ascii_lowercase name"
proof (cases "has_ascii_uppercase name")
  case False
  then have "list_all (\<lambda>c. \<not> is_ascii_uppercase c) name"
    by (auto simp: has_ascii_uppercase_def list_ex_iff list_all_iff)
  with False show ?thesis by (simp add: lookup_match_name_def lowercase_id)
qed (simp add: lookup_match_name_def)

lemma normalize_match_name_lower: "normalize_match_name name = to_ascii_lowercase name"
  using lookup_match_name_lower by (simp add: lookup_match_name_def normalize_match_name_def)

text \<open>
  A compiled expression is consistent with its pattern when it is absent or what \<open>Regex::new\<close>
  returns for the pattern. Matchers as received have none; compilation keeps consistency.
\<close>

definition regex_consistent :: "Lib \<Rightarrow> Regex option \<Rightarrow> string \<Rightarrow> bool" where
  "regex_consistent lib compiled pattern = (compiled = None \<or> compiled = regex_new lib pattern)"

definition header_consistent :: "Lib \<Rightarrow> HeaderMatch \<Rightarrow> bool" where
  "header_consistent lib h = regex_consistent lib (hd_compiled_regex h) (hd_value h)"

definition query_consistent :: "Lib \<Rightarrow> QueryMatch \<Rightarrow> bool" where
  "query_consistent lib q = regex_consistent lib (qm_compiled_regex q) (qm_value q)"

definition http_match_consistent :: "Lib \<Rightarrow> HttpMatch \<Rightarrow> bool" where
  "http_match_consistent lib m =
     (regex_consistent lib (ht_compiled_path_regex m) (ht_path m)
      \<and> list_all (header_consistent lib) (ht_headers m)
      \<and> list_all (query_consistent lib) (ht_query_params m))"

definition grpc_match_consistent :: "Lib \<Rightarrow> GrpcMatch \<Rightarrow> bool" where
  "grpc_match_consistent lib m =
     (regex_consistent lib (gm_compiled_service_regex m) (gm_service m)
      \<and> regex_consistent lib (gm_compiled_method_regex m) (gm_method m)
      \<and> list_all (header_consistent lib) (gm_headers m))"

lemma compile_regex_consistent [simp]:
  "regex_consistent lib (compile_regex lib pattern enabled) pattern"
  by (simp add: regex_consistent_def compile_regex_def)

lemma regex_matches_consistent:
  "regex_consistent lib c p \<Longrightarrow> regex_consistent lib c' p \<Longrightarrow>
   regex_matches lib c p v = regex_matches lib c' p v"
  by (auto simp: regex_matches_def regex_consistent_def split: option.splits)

lemma matches_values_consistent:
  "regex_consistent lib c e \<Longrightarrow> regex_consistent lib c' e \<Longrightarrow>
   matches_values lib e mt actual c = matches_values lib e mt actual c'"
  using regex_matches_consistent [of lib c e c']
  by (auto simp: matches_values_def list_ex_iff split: option.splits)

lemma matches_headers_compiled:
  "list_all (header_consistent lib) hs \<Longrightarrow>
   matches_headers lib (map (compile_header_match lib) hs) actual = matches_headers lib hs actual"
  by (induction hs)
    (auto simp: matches_headers_def compile_header_match_def header_consistent_def
      lookup_match_name_lower normalize_match_name_lower
      intro: matches_values_consistent [THEN iffD1, rotated 2]
        matches_values_consistent [THEN iffD2, rotated 2])

lemma matches_query_params_compiled:
  "list_all (query_consistent lib) qs \<Longrightarrow>
   matches_query_params lib (map (compile_query_match lib) qs) actual
     = matches_query_params lib qs actual"
  by (induction qs)
    (auto simp: matches_query_params_def compile_query_match_def query_consistent_def
      lookup_match_name_lower normalize_match_name_lower
      intro: matches_values_consistent [THEN iffD1, rotated 2]
        matches_values_consistent [THEN iffD2, rotated 2])

lemma matches_http_rule_compiled:
  assumes "http_match_consistent lib m"
  shows "matches_http_rule lib (compile_http_match lib m) request = matches_http_rule lib m request"
proof -
  have "regex_matches lib (compile_regex lib (ht_path m) e) (ht_path m) v
      = regex_matches lib (ht_compiled_path_regex m) (ht_path m) v" for e v
    using assms by (intro regex_matches_consistent) (simp_all add: http_match_consistent_def)
  with assms show ?thesis
    by (simp add: matches_http_rule_def matches_http_path_def compile_http_match_def
        http_match_consistent_def matches_headers_compiled matches_query_params_compiled)
qed

lemma matches_grpc_rule_compiled:
  assumes "grpc_match_consistent lib m"
  shows "matches_grpc_rule lib (compile_grpc_match lib m) request grpc
    = matches_grpc_rule lib m request grpc"
proof -
  have "regex_matches lib (compile_regex lib (gm_service m) e) (gm_service m) v
      = regex_matches lib (gm_compiled_service_regex m) (gm_service m) v" for e v
    using assms by (intro regex_matches_consistent) (simp_all add: grpc_match_consistent_def)
  moreover have "regex_matches lib (compile_regex lib (gm_method m) e) (gm_method m) v
      = regex_matches lib (gm_compiled_method_regex m) (gm_method m) v" for e v
    using assms by (intro regex_matches_consistent) (simp_all add: grpc_match_consistent_def)
  ultimately show ?thesis using assms
    by (simp add: matches_grpc_rule_def matches_grpc_value_def compile_grpc_match_def Let_def
        grpc_match_consistent_def matches_headers_compiled split: option.splits)
qed

lemma compile_header_match_consistent [simp]: "header_consistent lib (compile_header_match lib h)"
  by (simp add: header_consistent_def compile_header_match_def)

lemma compile_http_match_consistent [simp]: "http_match_consistent lib (compile_http_match lib m)"
  by (simp add: http_match_consistent_def compile_http_match_def list.pred_map o_def list_all_iff
      query_consistent_def compile_query_match_def)

lemma compile_grpc_match_consistent [simp]: "grpc_match_consistent lib (compile_grpc_match lib m)"
  by (simp add: grpc_match_consistent_def compile_grpc_match_def Let_def list_all_iff)

section \<open>Facts on paths\<close>

lemma matches_path_prefix_iff:
  "matches_path_prefix pre path \<longleftrightarrow>
     pre = ''/'' \<or> (\<exists>rest. path = pre @ rest
       \<and> (rest = [] \<or> ends_with_char pre CHR ''/'' \<or> hd rest = CHR ''/''))"
proof (cases "pre = ''/'' \<or> path = pre")
  case True
  then show ?thesis by (auto simp: matches_path_prefix_def)
next
  case False
  then show ?thesis
    by (cases "ends_with_char pre CHR ''/''")
      (auto simp: matches_path_prefix_def starts_with_iff nth_opt_def nth_append hd_conv_nth)
qed

section \<open>Facts on query maps\<close>

definition btree_wf :: "'v btree \<Rightarrow> bool" where
  "btree_wf m = sorted_wrt (<) (map fst m)"

lemma btree_push_keys: "set (map fst (btree_push k v m)) = insert k (set (map fst m))"
  by (induction k v m rule: btree_push.induct) auto

lemma btree_push_wf: "btree_wf m \<Longrightarrow> btree_wf (btree_push k v m)"
proof (induction k v m rule: btree_push.induct)
  case (1 k v)
  then show ?case by (simp add: btree_wf_def)
next
  case (2 k v k' vs m)
  then have m: "btree_wf m" and lt: "\<forall>x \<in> set (map fst m). k' < x"
    by (auto simp: btree_wf_def)
  consider "k = k'" | "k < k'" | "k' < k" by fastforce
  then show ?case
  proof cases
    case 1
    then show ?thesis using 2(2) by (simp add: btree_wf_def)
  next
    case 2
    then show ?thesis using lt m by (force simp: btree_wf_def)
  next
    case 3
    then have "btree_wf (btree_push k v m)"
      using "2.IH" m by (metis less_asym less_irrefl)
    moreover have "\<forall>x \<in> set (map fst (btree_push k v m)). k' < x"
      using lt 3 by (simp only: btree_push_keys) auto
    ultimately show ?thesis using 3 by (auto simp: btree_wf_def dest: less_asym)
  qed
qed

lemma map_of_btree_push:
  "btree_wf m \<Longrightarrow> map_of (btree_push k v m) =
     (map_of m)(k \<mapsto> (case map_of m k of None \<Rightarrow> [v] | Some vs \<Rightarrow> vs @ [v]))"
proof (induction k v m rule: btree_push.induct)
  case (1 k v)
  then show ?case by simp
next
  case (2 k v k' vs m)
  show ?case
  proof (cases "k < k'")
    case True
    then have "k \<notin> set (map fst m)" using 2(2) by (force simp: btree_wf_def)
    then have "map_of m k = None" by (simp add: map_of_eq_None_iff)
    with True show ?thesis by auto
  next
    case False
    then show ?thesis using 2 by (auto simp: btree_wf_def fun_upd_twist)
  qed
qed

end
