(* ===== verification/Hostname_Index.thy ===== *)
theory Hostname_Index
  imports Scoring
begin

text \<open>
  The hostname index of routes: \<open>HostnameRouteIndex\<close> of \<open>crates/ntgw-ir/src/types.rs\<close> and its
  construction in \<open>snapshot/helpers.rs\<close>. Candidates are found by merging the index's ascending
  position lists (catch-all routes, the exact host, every parent domain of the host) one
  position at a time. The lemmas show that the merge terminates, visits every candidate once
  and in ascending order, and, through the locale \<open>candidate_source\<close>, that a visitor which
  passes over routes whose hostnames do not match cannot tell the index from a scan over all
  routes.
\<close>

record HostnameRouteIndex =
  hi_catch_all :: "nat list"
  hi_exact :: "string \<rightharpoonup> nat list"
  hi_wildcard_suffix :: "string \<rightharpoonup> nat list"

definition HostnameRouteIndex_default :: HostnameRouteIndex where
  "HostnameRouteIndex_default =
     \<lparr> hi_catch_all = [], hi_exact = Map.empty, hi_wildcard_suffix = Map.empty \<rparr>"

section \<open>Lookup\<close>

definition wildcard_hostname_suffixes :: "string \<Rightarrow> string list" where
  "wildcard_hostname_suffixes host =
     map (\<lambda>i. drop (Suc i) host) (filter (\<lambda>i. host ! i = CHR ''.'') [0..<length host])"

definition first_index_after :: "nat list \<Rightarrow> nat option \<Rightarrow> nat option" where
  "first_index_after indices prev =
     (let start = (case prev of None \<Rightarrow> 0 | Some l \<Rightarrow> partition_point (\<lambda>i. i \<le> l) indices)
      in nth_opt indices start)"

fun min_candidate_index :: "nat option \<Rightarrow> nat option \<Rightarrow> nat option" where
  "min_candidate_index (Some current) (Some candidate) = Some (min current candidate)"
| "min_candidate_index (Some current) None = Some current"
| "min_candidate_index None (Some candidate) = Some candidate"
| "min_candidate_index None None = None"

definition next_candidate_index_after_normalized ::
    "HostnameRouteIndex \<Rightarrow> string option \<Rightarrow> nat option \<Rightarrow> nat option" where
  "next_candidate_index_after_normalized idx request_host prev =
     (let nxt = first_index_after (hi_catch_all idx) prev in
      case request_host of
        None \<Rightarrow> nxt
      | Some host \<Rightarrow>
          (let host_ref = (if list_ex is_ascii_uppercase host then to_ascii_lowercase host else host);
               nxt = (case hi_exact idx host_ref of
                        None \<Rightarrow> nxt
                      | Some indices \<Rightarrow> min_candidate_index nxt (first_index_after indices prev))
           in foldl (\<lambda>nxt suffix.
                 case hi_wildcard_suffix idx suffix of
                   None \<Rightarrow> nxt
                 | Some indices \<Rightarrow> min_candidate_index nxt (first_index_after indices prev))
               nxt (wildcard_hostname_suffixes host_ref)))"

text \<open>The lists a lookup merges, and the candidates beyond the last visited one.\<close>

definition index_lists :: "HostnameRouteIndex \<Rightarrow> string option \<Rightarrow> nat list list" where
  "index_lists idx request_host =
     hi_catch_all idx #
     (case request_host of
        None \<Rightarrow> []
      | Some host \<Rightarrow>
          entry_list (hi_exact idx) (to_ascii_lowercase host) #
          map (entry_list (hi_wildcard_suffix idx))
            (wildcard_hostname_suffixes (to_ascii_lowercase host)))"

definition beyond :: "nat option \<Rightarrow> nat \<Rightarrow> bool" where
  "beyond prev i = (case prev of None \<Rightarrow> True | Some l \<Rightarrow> l < i)"

definition index_candidates :: "HostnameRouteIndex \<Rightarrow> string option \<Rightarrow> nat set" where
  "index_candidates idx request_host = \<Union> (set ` set (index_lists idx request_host))"

lemma finite_index_candidates [simp]: "finite (index_candidates idx h)"
  by (simp add: index_candidates_def)

lemma lower_guard: "(if list_ex is_ascii_uppercase h then to_ascii_lowercase h else h) = to_ascii_lowercase h"
proof (cases "list_ex is_ascii_uppercase h")
  case False
  then show ?thesis by (auto simp: list_ex_iff list_all_iff intro!: lowercase_id [symmetric])
qed simp

lemma min_candidate_index_None [simp]: "min_candidate_index None b = b"
  by (cases b) simp_all

lemma min_candidate_index_None2 [simp]: "min_candidate_index a None = a"
  by (cases a) simp_all

lemma first_index_after_Nil [simp]: "first_index_after [] prev = None"
  by (simp add: first_index_after_def Let_def)

lemma next_candidate_fold:
  "next_candidate_index_after_normalized idx host prev =
     foldl (\<lambda>nxt xs. min_candidate_index nxt (first_index_after xs prev)) None (index_lists idx host)"
proof -
  have step: "(case m k of None \<Rightarrow> nxt | Some indices \<Rightarrow>
        min_candidate_index nxt (first_index_after indices prev))
      = min_candidate_index nxt (first_index_after (entry_list m k) prev)" for m k nxt
    by (simp add: entry_list_def split: option.splits)
  have fold_map: "foldl (\<lambda>nxt xs. f nxt xs) a (map g ys) = foldl (\<lambda>nxt y. f nxt (g y)) a ys"
    for f :: "nat option \<Rightarrow> nat list \<Rightarrow> nat option" and a g and ys :: "string list"
    by (induction ys arbitrary: a) auto
  show ?thesis
    by (cases host)
      (simp_all add: next_candidate_index_after_normalized_def index_lists_def lower_guard step
        fold_map Let_def)
qed

lemma first_index_after_Some:
  "first_index_after xs prev = Some i \<Longrightarrow> i \<in> set xs \<and> beyond prev i"
proof (cases prev)
  case None
  assume "first_index_after xs prev = Some i"
  with None show ?thesis by (auto simp: first_index_after_def nth_opt_Some beyond_def)
next
  case (Some l)
  assume "first_index_after xs prev = Some i"
  with Some have "length (takeWhile (\<lambda>j. j \<le> l) xs) < length xs"
    and "xs ! length (takeWhile (\<lambda>j. j \<le> l) xs) = i"
    by (auto simp: first_index_after_def nth_opt_Some partition_point_def)
  then show ?thesis using nth_length_takeWhile [of "\<lambda>j. j \<le> l" xs] Some
    by (auto simp: beyond_def)
qed

lemma min_fold_cases:
  "foldl (\<lambda>nxt xs. min_candidate_index nxt (first_index_after xs prev)) acc xss = Some i \<Longrightarrow>
   acc = Some i \<or> (\<exists>xs \<in> set xss. first_index_after xs prev = Some i)"
proof (induction xss arbitrary: acc)
  case Nil
  then show ?case by simp
next
  case (Cons xs xss)
  from Cons.IH [OF Cons.prems [simplified]] show ?case
    by (cases acc; cases "first_index_after xs prev") (auto simp: min_def split: if_splits)
qed

lemma next_candidate_Some:
  assumes "next_candidate_index_after_normalized idx host prev = Some i"
  shows "i \<in> index_candidates idx host" and "beyond prev i"
proof -
  from assms obtain xs where "xs \<in> set (index_lists idx host)" "first_index_after xs prev = Some i"
    by (auto simp: next_candidate_fold dest: min_fold_cases)
  then show "i \<in> index_candidates idx host" and "beyond prev i"
    using first_index_after_Some by (auto simp: index_candidates_def)
qed

text \<open>
  The \<open>while let\<close> loop of \<open>visit_candidate_indices\<close>. It ends because every round visits a
  candidate beyond the last one, of which there are finitely many.
\<close>

function visit_candidate_from ::
    "HostnameRouteIndex \<Rightarrow> string option \<Rightarrow> (nat \<Rightarrow> 's \<Rightarrow> bool \<times> 's) \<Rightarrow> nat option \<Rightarrow> 's \<Rightarrow> bool \<times> 's"
where
  "visit_candidate_from idx host visit prev s =
     (case next_candidate_index_after_normalized idx host prev of
        None \<Rightarrow> (True, s)
      | Some index \<Rightarrow>
          (case visit index s of (go, s') \<Rightarrow>
             if \<not> go then (False, s') else visit_candidate_from idx host visit (Some index) s'))"
  by pat_completeness auto
termination
proof (relation "measure (\<lambda>(idx, host, visit, prev, s). card {i \<in> index_candidates idx host. beyond prev i})")
  fix idx host visit prev s index go s' assume
    "next_candidate_index_after_normalized idx host prev = Some index"
  then have i: "index \<in> index_candidates idx host" "beyond prev index"
    using next_candidate_Some by auto
  have "{i \<in> index_candidates idx host. beyond (Some index) i}
      \<subset> {i \<in> index_candidates idx host. beyond prev i}"
    using i by (auto simp: beyond_def split: option.splits)
  then show "((idx, host, visit, Some index, s'), idx, host, visit, prev, s)
      \<in> measure (\<lambda>(idx, host, visit, prev, s). card {i \<in> index_candidates idx host. beyond prev i})"
    by (simp add: psubset_card_mono)
qed simp

declare visit_candidate_from.simps [simp del]

definition visit_candidate_indices ::
    "HostnameRouteIndex \<Rightarrow> string option \<Rightarrow> (nat \<Rightarrow> 's \<Rightarrow> bool \<times> 's) \<Rightarrow> 's \<Rightarrow> bool \<times> 's" where
  "visit_candidate_indices idx request_host visit s =
     visit_candidate_from idx (map_option normalize_host_ref request_host) visit None s"

section \<open>Construction\<close>

definition index_hostname :: "nat \<Rightarrow> HostnameRouteIndex \<Rightarrow> string \<Rightarrow> HostnameRouteIndex" where
  "index_hostname route_index idx hostname =
     (let normalized = to_ascii_lowercase (normalize_host_ref hostname) in
      case strip_prefix ''*.'' normalized of
        Some suffix \<Rightarrow> idx\<lparr> hi_wildcard_suffix := entry_push suffix route_index (hi_wildcard_suffix idx) \<rparr>
      | None \<Rightarrow> idx\<lparr> hi_exact := entry_push normalized route_index (hi_exact idx) \<rparr>)"

definition index_route :: "HostnameRouteIndex \<Rightarrow> nat \<times> string list \<Rightarrow> HostnameRouteIndex" where
  "index_route idx = (\<lambda>(route_index, hostnames).
     if hostnames = [] then idx\<lparr> hi_catch_all := hi_catch_all idx @ [route_index] \<rparr>
     else foldl (index_hostname route_index) idx hostnames)"

definition build_hostname_route_index :: "string list list \<Rightarrow> HostnameRouteIndex" where
  "build_hostname_route_index route_hostnames =
     foldl index_route HostnameRouteIndex_default (enumerate 0 route_hostnames)"

definition build_http_route_hostname_index :: "HttpRoute list \<Rightarrow> HostnameRouteIndex" where
  "build_http_route_hostname_index routes = build_hostname_route_index (map hroute_hostnames routes)"

definition build_grpc_route_hostname_index :: "GrpcRoute list \<Rightarrow> HostnameRouteIndex" where
  "build_grpc_route_hostname_index routes = build_hostname_route_index (map groute_hostnames routes)"

section \<open>The merge visits the candidates in ascending order\<close>

definition index_sorted :: "HostnameRouteIndex \<Rightarrow> bool" where
  "index_sorted idx =
     (sorted (hi_catch_all idx) \<and> (\<forall>k. sorted (entry_list (hi_exact idx) k))
      \<and> (\<forall>k. sorted (entry_list (hi_wildcard_suffix idx) k)))"

lemma index_lists_sorted: "index_sorted idx \<Longrightarrow> xs \<in> set (index_lists idx h) \<Longrightarrow> sorted xs"
  by (auto simp: index_sorted_def index_lists_def split: option.splits)

lemma first_index_after_least:
  assumes "sorted xs" and "i \<in> set xs" and "beyond prev i"
  shows "\<exists>j \<le> i. first_index_after xs prev = Some j"
proof (cases prev)
  case None
  with assms show ?thesis by (cases xs) (auto simp: first_index_after_def)
next
  case (Some l)
  let ?n = "length (takeWhile (\<lambda>j. j \<le> l) xs)"
  from assms(2) obtain k where k: "k < length xs" "xs ! k = i" by (auto simp: in_set_conv_nth)
  have "\<not> k < ?n"
  proof
    assume "k < ?n"
    then have "takeWhile (\<lambda>j. j \<le> l) xs ! k \<le> l" using set_takeWhileD nth_mem by metis
    then have "xs ! k \<le> l" using \<open>k < ?n\<close> by (simp add: takeWhile_nth)
    with k assms(3) Some show False by (simp add: beyond_def)
  qed
  then have "?n < length xs" "xs ! ?n \<le> i" using k assms(1) by (auto simp: sorted_nth_mono)
  then show ?thesis by (simp add: Some first_index_after_def partition_point_def nth_opt_def)
qed

lemma min_fold_le:
  "(\<exists>b. acc = Some b \<and> b \<le> i) \<or> (\<exists>xs \<in> set xss. \<exists>j \<le> i. first_index_after xs prev = Some j) \<Longrightarrow>
   \<exists>j \<le> i. foldl (\<lambda>nxt xs. min_candidate_index nxt (first_index_after xs prev)) acc xss = Some j"
proof (induction xss arbitrary: acc)
  case Nil
  then show ?case by auto
next
  case (Cons xs xss)
  show ?case
    unfolding foldl.simps
  proof (rule Cons.IH)
    show "(\<exists>b. min_candidate_index acc (first_index_after xs prev) = Some b \<and> b \<le> i) \<or>
      (\<exists>xs \<in> set xss. \<exists>j \<le> i. first_index_after xs prev = Some j)"
      using Cons.prems
      by (cases acc; cases "first_index_after xs prev") (auto simp: min_le_iff_disj)
  qed
qed

lemma next_candidate_least:
  assumes "index_sorted idx" and "i \<in> index_candidates idx host" and "beyond prev i"
  shows "\<exists>j \<le> i. next_candidate_index_after_normalized idx host prev = Some j"
proof -
  from assms(2) obtain xs where xs: "xs \<in> set (index_lists idx host)" "i \<in> set xs"
    by (auto simp: index_candidates_def)
  with assms have "\<exists>j \<le> i. first_index_after xs prev = Some j"
    by (intro first_index_after_least) (auto intro: index_lists_sorted)
  with xs(1) show ?thesis unfolding next_candidate_fold by (intro min_fold_le) blast
qed

lemma next_candidate_Min:
  fixes idx host prev
  assumes "index_sorted idx"
  defines "A \<equiv> {i \<in> index_candidates idx host. beyond prev i}"
  shows "next_candidate_index_after_normalized idx host prev =
    (if A = {} then None else Some (Min (A)))"
proof (cases "next_candidate_index_after_normalized idx host prev")
  case None
  then have "A = {}" using next_candidate_least [OF assms(1)] by (fastforce simp: A_def)
  with None show ?thesis by simp
next
  case (Some i)
  then have i: "i \<in> A" using next_candidate_Some by (auto simp: A_def)
  have "i \<le> j" if "j \<in> A" for j
    using next_candidate_least [OF assms(1), of j host prev] that Some by (auto simp: A_def)
  with i have "Min (A) = i" by (intro Min_eqI) (auto simp: A_def)
  with i Some show ?thesis by auto
qed

lemma visit_candidate_from_list:
  "index_sorted idx \<Longrightarrow> visit_candidate_from idx host visit prev s =
    visit_while visit (sorted_list_of_set {i \<in> index_candidates idx host. beyond prev i}) s"
proof (induction idx host visit prev s rule: visit_candidate_from.induct)
  case (1 idx host visit prev s)
  let ?A = "{i \<in> index_candidates idx host. beyond prev i}"
  note nxt = next_candidate_Min [OF "1.prems", of host prev]
  show ?case
  proof (cases "?A = {}")
    case True
    then have "next_candidate_index_after_normalized idx host prev = None" using nxt by simp
    then show ?thesis
      unfolding visit_candidate_from.simps [of idx host visit prev s] True by simp
  next
    case False
    let ?m = "Min ?A"
    have n: "next_candidate_index_after_normalized idx host prev = Some ?m" using nxt False by simp
    have fin: "finite ?A" by simp
    have m: "?m \<in> ?A" using Min_in [OF fin False] .
    have list: "sorted_list_of_set ?A = ?m # sorted_list_of_set (?A - {?m})"
      using sorted_list_of_set_nonempty [OF fin False] .
    have rest: "?A - {?m} = {i \<in> index_candidates idx host. beyond (Some ?m) i}"
      (is "_ = ?B")
    proof
      show "?A - {?m} \<subseteq> ?B"
      proof
        fix i assume i: "i \<in> ?A - {?m}"
        then have "?m \<le> i" by (intro Min_le) auto
        with i have "?m < i" by (metis DiffD2 insertI1 order_le_imp_less_or_eq)
        with i show "i \<in> ?B" by (simp add: beyond_def [of "Some ?m"])
      qed
      show "?B \<subseteq> ?A - {?m}"
        using m by (auto simp: beyond_def split: option.splits)
    qed
    show ?thesis
    proof (cases "visit ?m s")
      case (Pair go s')
      have "visit_candidate_from idx host visit (Some ?m) s'
          = visit_while visit (sorted_list_of_set (?A - {?m})) s'" if go
        unfolding rest using "1.IH" [OF n Pair [symmetric]] that "1.prems" by simp
      then show ?thesis
        unfolding visit_candidate_from.simps [of idx host visit prev s] n list using Pair by simp
    qed
  qed
qed

lemma visit_candidate_indices_list:
  "index_sorted idx \<Longrightarrow> visit_candidate_indices idx host visit s =
    visit_while visit
      (sorted_list_of_set (index_candidates idx (map_option normalize_host_ref host))) s"
  by (simp add: visit_candidate_indices_def visit_candidate_from_list beyond_def)

section \<open>What a built index holds\<close>

definition exact_key :: "string \<Rightarrow> string option" where
  "exact_key hostname =
     (let n = to_ascii_lowercase (normalize_host_ref hostname)
      in if strip_prefix ''*.'' n = None then Some n else None)"

definition wildcard_key :: "string \<Rightarrow> string option" where
  "wildcard_key hostname = strip_prefix ''*.'' (to_ascii_lowercase (normalize_host_ref hostname))"

lemma index_hostname_fields:
  "hi_catch_all (index_hostname r idx h) = hi_catch_all idx"
  "entry_list (hi_exact (index_hostname r idx h)) k =
     entry_list (hi_exact idx) k @ (if exact_key h = Some k then [r] else [])"
  "entry_list (hi_wildcard_suffix (index_hostname r idx h)) k =
     entry_list (hi_wildcard_suffix idx) k @ (if wildcard_key h = Some k then [r] else [])"
  by (auto simp: index_hostname_def exact_key_def wildcard_key_def Let_def split: option.splits)

lemma index_hostnames_fields:
  "hi_catch_all (foldl (index_hostname r) idx hs) = hi_catch_all idx"
  "entry_list (hi_exact (foldl (index_hostname r) idx hs)) k =
     entry_list (hi_exact idx) k @ map (\<lambda>_. r) (filter (\<lambda>h. exact_key h = Some k) hs)"
  "entry_list (hi_wildcard_suffix (foldl (index_hostname r) idx hs)) k =
     entry_list (hi_wildcard_suffix idx) k @ map (\<lambda>_. r) (filter (\<lambda>h. wildcard_key h = Some k) hs)"
  by (induction hs arbitrary: idx) (auto simp: index_hostname_fields)

lemma index_routes_fields:
  "hi_catch_all (foldl index_route idx ps) =
     hi_catch_all idx @ concat (map (\<lambda>(i, hs). if hs = [] then [i] else []) ps)"
  "entry_list (hi_exact (foldl index_route idx ps)) k = entry_list (hi_exact idx) k
     @ concat (map (\<lambda>(i, hs). map (\<lambda>_. i) (filter (\<lambda>h. exact_key h = Some k) hs)) ps)"
  "entry_list (hi_wildcard_suffix (foldl index_route idx ps)) k = entry_list (hi_wildcard_suffix idx) k
     @ concat (map (\<lambda>(i, hs). map (\<lambda>_. i) (filter (\<lambda>h. wildcard_key h = Some k) hs)) ps)"
  by (induction ps arbitrary: idx) (auto simp: index_route_def index_hostnames_fields)

lemma sorted_concat_enumerate:
  assumes f: "\<And>i x j. j \<in> set (f i x) \<Longrightarrow> j = (i :: nat)"
  shows "sorted (concat (map (\<lambda>(i, x). f i x) (enumerate n xs)))"
proof (induction xs arbitrary: n)
  case Nil
  then show ?case by simp
next
  case (Cons x xs)
  let ?rest = "concat (map (\<lambda>(i, x). f i x) (enumerate (Suc n) xs))"
  have "replicate (length (f n x)) n = f n x" by (rule replicate_eqI [symmetric]) (auto dest: f)
  then have "sorted (f n x)" using sorted_replicate [of "length (f n x)" n] by (rule subst)
  moreover have "n \<le> j" if "j \<in> set ?rest" for j
  proof -
    from that obtain i y where "(i, y) \<in> set (enumerate (Suc n) xs)" "j \<in> set (f i y)" by auto
    then show ?thesis using f [of j i y] by (simp add: in_set_enumerate_eq)
  qed
  then have "\<forall>i \<in> set (f n x). \<forall>j \<in> set ?rest. i \<le> j" using f [of _ n x] by blast
  ultimately have "sorted (f n x @ ?rest)" using Cons.IH [of "Suc n"] unfolding sorted_append by blast
  then show ?case by simp
qed

lemma build_index_sorted: "index_sorted (build_hostname_route_index hs)"
  unfolding index_sorted_def build_hostname_route_index_def index_routes_fields
    HostnameRouteIndex_default_def HostnameRouteIndex.select_convs entry_list_empty append_Nil
  by (intro conjI allI sorted_concat_enumerate) (auto split: if_splits)

lemma concat_enumerate_mem:
  "i \<in> set (concat (map (\<lambda>(i, x). if P x then [i] else []) (enumerate 0 xs))) \<longleftrightarrow>
     i < length xs \<and> P (xs ! i)"
  "i \<in> set (concat (map (\<lambda>(i, x). map (\<lambda>_. i) (filter Q x)) (enumerate 0 ys))) \<longleftrightarrow>
     i < length ys \<and> (\<exists>y \<in> set (ys ! i). Q y)"
  by (force simp: in_set_enumerate_eq Bex_def split: if_splits)+

lemma build_index_members:
  "i \<in> set (hi_catch_all (build_hostname_route_index hs)) \<longleftrightarrow> i < length hs \<and> hs ! i = []"
  "i \<in> set (entry_list (hi_exact (build_hostname_route_index hs)) k) \<longleftrightarrow>
     i < length hs \<and> Some k \<in> exact_key ` set (hs ! i)"
  "i \<in> set (entry_list (hi_wildcard_suffix (build_hostname_route_index hs)) k) \<longleftrightarrow>
     i < length hs \<and> Some k \<in> wildcard_key ` set (hs ! i)"
  unfolding build_hostname_route_index_def index_routes_fields HostnameRouteIndex_default_def
    HostnameRouteIndex.select_convs entry_list_empty append_Nil concat_enumerate_mem
  by (auto intro: image_eqI [OF sym])

lemma index_candidates_bound:
  "i \<in> index_candidates (build_hostname_route_index hs) host \<Longrightarrow> i < length hs"
  by (auto simp: index_candidates_def index_lists_def build_index_members split: option.splits)

section \<open>Every matching route is a candidate\<close>

lemma wildcard_suffix_mem:
  "t \<in> set (wildcard_hostname_suffixes h) \<longleftrightarrow> (\<exists>l. h = l @ ''.'' @ t)"
proof
  assume "t \<in> set (wildcard_hostname_suffixes h)"
  then obtain i where "i < length h" "h ! i = CHR ''.''" "t = drop (Suc i) h"
    by (auto simp: wildcard_hostname_suffixes_def)
  then have "h = take i h @ ''.'' @ t" using id_take_nth_drop [of i h] by simp
  then show "\<exists>l. h = l @ ''.'' @ t" by blast
next
  assume "\<exists>l. h = l @ ''.'' @ t"
  then obtain l where "h = l @ ''.'' @ t" by blast
  then have "length l < length h" "h ! length l = CHR ''.''" "t = drop (Suc (length l)) h"
    by (auto simp: nth_append)
  then show "t \<in> set (wildcard_hostname_suffixes h)"
    unfolding wildcard_hostname_suffixes_def set_map set_filter by (intro image_eqI) auto
qed

lemma strip_wildcard_simps:
  "strip_prefix ''*.'' [] = None"
  "strip_prefix ''*.'' [a] = None"
  "strip_prefix ''*.'' (a # b # u) = (if a = CHR ''*'' \<and> b = CHR ''.'' then Some u else None)"
  by (simp_all add: strip_prefix_def starts_with_def)

lemma lowercase_strip_wildcard:
  "strip_prefix ''*.'' (to_ascii_lowercase s) = map_option to_ascii_lowercase (strip_prefix ''*.'' s)"
  by (cases s rule: remdups_adj.cases) (simp_all only: lowercase_simps strip_wildcard_simps ascii_lower_sep
      if_distrib [of "map_option to_ascii_lowercase"] option.map)

lemma hostname_score_key:
  assumes "hostname_match_score pattern host \<noteq> None"
  defines "h \<equiv> to_ascii_lowercase (normalize_host_ref host)"
  shows "exact_key pattern = Some h \<or> (\<exists>t \<in> set (wildcard_hostname_suffixes h). wildcard_key pattern = Some t)"
proof (cases "strip_prefix ''*.'' pattern")
  case None
  then have n: "normalize_host_ref pattern = normalize_host_ref host"
    using assms by (auto simp: hostname_match_score_def Let_def split: if_splits)
  show ?thesis
  proof (cases "strip_prefix ''*.'' h")
    case None
    then show ?thesis by (simp add: exact_key_def n h_def)
  next
    case (Some t)
    then have "wildcard_key pattern = Some t" by (simp add: wildcard_key_def n h_def)
    moreover have "t \<in> set (wildcard_hostname_suffixes h)"
      using Some unfolding wildcard_suffix_mem strip_prefix_Some by (intro exI [of _ "''*''"]) simp
    ultimately show ?thesis by blast
  qed
next
  case (Some suffix)
  then have p: "pattern = ''*.'' @ suffix" by (simp add: strip_prefix_Some)
  let ?suf = "takeWhile (\<lambda>c. c \<noteq> CHR '':'') suffix"
  have norm: "strip_prefix ''*.'' (normalize_host_ref pattern) = Some ?suf"
    unfolding p normalize_host_ref_wildcard by (simp add: strip_prefix_Some)
  have "hostname_matches pattern (normalize_host_ref host)"
    using assms Some by (auto simp: hostname_match_score_def Let_def split: if_splits)
  then obtain l t where lt: "normalize_host_ref host = l @ ''.'' @ t" "eq_ignore_ascii_case t ?suf"
    using hostname_matches_wildcard [OF norm] by blast
  then have "h = to_ascii_lowercase l @ ''.'' @ to_ascii_lowercase ?suf"
    by (simp add: h_def eq_ignore_ascii_case_def)
  then have "to_ascii_lowercase ?suf \<in> set (wildcard_hostname_suffixes h)"
    unfolding wildcard_suffix_mem by blast
  moreover have "wildcard_key pattern = Some (to_ascii_lowercase ?suf)"
    by (simp add: wildcard_key_def lowercase_strip_wildcard norm)
  ultimately show ?thesis by blast
qed

lemma matching_route_is_candidate:
  assumes "i < length hs" and "best_hostname_score (hs ! i) host \<noteq> None"
  shows "i \<in> index_candidates (build_hostname_route_index hs) (map_option normalize_host_ref host)"
proof (cases "hs ! i = []")
  case True
  with assms show ?thesis by (auto simp: index_candidates_def index_lists_def build_index_members)
next
  case False
  with assms(2) obtain ho where host: "host = Some ho" by (cases host) auto
  with assms(2) False obtain p where "p \<in> set (hs ! i)" "hostname_match_score p ho \<noteq> None"
    using best_hostname_score_Some_iff by blast
  from hostname_score_key [OF \<open>hostname_match_score p ho \<noteq> None\<close>]
  show ?thesis
  proof (elim disjE bexE)
    assume "exact_key p = Some (to_ascii_lowercase (normalize_host_ref ho))"
    with \<open>p \<in> set (hs ! i)\<close> assms(1)
    have "i \<in> set (entry_list (hi_exact (build_hostname_route_index hs))
        (to_ascii_lowercase (normalize_host_ref ho)))"
      unfolding build_index_members by (auto intro: image_eqI [OF sym])
    then show ?thesis by (simp add: host index_candidates_def index_lists_def)
  next
    fix t assume t: "t \<in> set (wildcard_hostname_suffixes (to_ascii_lowercase (normalize_host_ref ho)))"
      and "wildcard_key p = Some t"
    with \<open>p \<in> set (hs ! i)\<close> assms(1)
    have "i \<in> set (entry_list (hi_wildcard_suffix (build_hostname_route_index hs)) t)"
      unfolding build_index_members by (auto intro: image_eqI [OF sym])
    with t show ?thesis by (auto simp: host index_candidates_def index_lists_def)
  qed
qed

section \<open>Visiting the candidates\<close>

definition visit_hostname_route_candidate_indices ::
    "nat \<Rightarrow> HostnameRouteIndex \<Rightarrow> string option \<Rightarrow> bool \<Rightarrow> (nat \<Rightarrow> 's \<Rightarrow> bool \<times> 's) \<Rightarrow> 's \<Rightarrow> bool \<times> 's"
where
  "visit_hostname_route_candidate_indices route_count index request_host runtime_indexes_ready visit s =
     (if \<not> runtime_indexes_ready then visit_while visit [0..<route_count] s
      else visit_candidate_indices index request_host visit s)"

definition visit_hostname_route_candidates ::
    "'r list \<Rightarrow> HostnameRouteIndex \<Rightarrow> string option \<Rightarrow> bool \<Rightarrow> ('r \<Rightarrow> 's \<Rightarrow> bool \<times> 's) \<Rightarrow> 's \<Rightarrow> bool \<times> 's"
where
  "visit_hostname_route_candidates routes index request_host runtime_indexes_ready visit s =
     visit_hostname_route_candidate_indices (length routes) index request_host runtime_indexes_ready
       (\<lambda>route_index s. case nth_opt routes route_index of None \<Rightarrow> (True, s) | Some route \<Rightarrow> visit route s) s"

definition any_hostname_route_candidate ::
    "'r list \<Rightarrow> HostnameRouteIndex \<Rightarrow> string option \<Rightarrow> bool \<Rightarrow> ('r \<Rightarrow> bool) \<Rightarrow> bool" where
  "any_hostname_route_candidate routes index request_host runtime_indexes_ready predicate =
     (\<not> fst (visit_hostname_route_candidates routes index request_host runtime_indexes_ready
               (\<lambda>route s. (\<not> predicate route, s)) ()))"

text \<open>
  What route selection relies on: the routes are offered to the visitor in their order, each at
  most once, and none of the relevant ones is left out.
\<close>

locale candidate_source =
  fixes routes :: "'r list"
    and relevant :: "'r \<Rightarrow> bool"
    and visit_routes :: "('r \<Rightarrow> 's \<Rightarrow> bool \<times> 's) \<Rightarrow> 's \<Rightarrow> bool \<times> 's"
  assumes offers: "\<exists>P. (\<forall>i < length routes. relevant (routes ! i) \<longrightarrow> P i) \<and>
    (\<forall>v s. visit_routes v s =
       visit_while (\<lambda>i. v (routes ! i)) (filter P [0..<length routes]) s)"
begin

lemma visit_eq_scan:
  assumes "\<And>r s. r \<in> set routes \<Longrightarrow> \<not> relevant r \<Longrightarrow> v r s = (True, s)"
  shows "visit_routes v s = visit_while v routes s"
proof -
  from offers obtain P where P: "\<forall>i < length routes. relevant (routes ! i) \<longrightarrow> P i"
    and v: "\<forall>v s. visit_routes v s =
      visit_while (\<lambda>i. v (routes ! i)) (filter P [0..<length routes]) s" by blast
  have "visit_routes v s = visit_while (\<lambda>i. v (routes ! i)) [0..<length routes] s"
    unfolding v [rule_format] by (rule visit_while_filter) (use P assms in auto)
  also have "\<dots> = visit_while v (map ((!) routes) [0..<length routes]) s"
    by (simp add: visit_while_map)
  finally show ?thesis by (simp add: map_nth)
qed

lemma visit_any:
  assumes "\<And>r. r \<in> set routes \<Longrightarrow> p r \<Longrightarrow> relevant r"
  shows "fst (visit_routes (\<lambda>r s. (\<not> p r, s)) s) \<longleftrightarrow> (\<forall>r \<in> set routes. \<not> p r)"
proof -
  have "fst (visit_while (\<lambda>r s. (\<not> p r, s)) rs s) \<longleftrightarrow> (\<forall>r \<in> set rs. \<not> p r)" for rs
    by (induction rs) auto
  moreover have "visit_routes (\<lambda>r s. (\<not> p r, s)) s = visit_while (\<lambda>r s. (\<not> p r, s)) routes s"
    by (rule visit_eq_scan) (use assms in blast)
  ultimately show ?thesis by simp
qed

end

text \<open>The linear scan offers every route; the built index offers the candidates of the host.\<close>

lemma scan_offers:
  "visit_hostname_route_candidates routes index host False v s =
     visit_while (\<lambda>i. v (routes ! i)) (filter (\<lambda>_. True) [0..<length routes]) s"
proof -
  have "filter (\<lambda>_. True) [0..<length routes] = [0..<length routes]" by simp
  then show ?thesis
    unfolding visit_hostname_route_candidates_def visit_hostname_route_candidate_indices_def
    by (auto simp: nth_opt_def intro!: visit_while_cong)
qed

lemma sorted_list_of_candidates:
  "sorted_list_of_set (index_candidates (build_hostname_route_index hs) h) =
     filter (\<lambda>i. i \<in> index_candidates (build_hostname_route_index hs) h) [0..<length hs]"
proof (rule sorted_distinct_set_unique)
  show "sorted (filter (\<lambda>i. i \<in> index_candidates (build_hostname_route_index hs) h) [0..<length hs])"
    by (rule sorted_wrt_filter) simp
qed (auto intro: index_candidates_bound)

lemma index_offers:
  fixes hostnames :: "'r \<Rightarrow> string list"
  shows "visit_hostname_route_candidates routes
     (build_hostname_route_index (map hostnames routes)) host True v s =
   visit_while (\<lambda>i. v (routes ! i))
     (filter (\<lambda>i. i \<in> index_candidates (build_hostname_route_index (map hostnames routes))
        (map_option normalize_host_ref host)) [0..<length routes]) s"
  using sorted_list_of_candidates [of "map hostnames routes"]
  unfolding visit_hostname_route_candidates_def visit_hostname_route_candidate_indices_def
    visit_candidate_indices_list [OF build_index_sorted] length_map
  by (auto simp: nth_opt_def intro!: visit_while_cong)

interpretation hostname_scan: candidate_source routes "\<lambda>_. True"
    "visit_hostname_route_candidates routes index host False"
  for routes index host
  by (unfold_locales, intro exI [of _ "\<lambda>_. True"] conjI allI) (simp, rule scan_offers)

interpretation hostname_index: candidate_source routes
    "\<lambda>r. best_hostname_score (hostnames r) host \<noteq> None"
    "visit_hostname_route_candidates routes (build_hostname_route_index (map hostnames routes)) host True"
  for routes hostnames host
proof (unfold_locales, intro exI conjI allI impI)
  fix i assume "i < length routes" "best_hostname_score (hostnames (routes ! i)) host \<noteq> None"
  then show "i \<in> index_candidates (build_hostname_route_index (map hostnames routes))
        (map_option normalize_host_ref host)"
    by (intro matching_route_is_candidate) simp_all
qed (rule index_offers)

end
