(* ===== verification/Service_Index.thy ===== *)
theory Service_Index
  imports IR_Types
begin

text \<open>
  The lookup structures of \<open>crates/ntgw-ir/src/types.rs\<close> that name listeners and backends:
  \<open>RouteAttachmentListenerIndex\<close> (which listeners a route is attached to) and
  \<open>BackendServiceIndex\<close> (the backend cluster of a service reference), with the decimal port
  parser of \<open>snapshot/helpers.rs\<close> that derives a cluster's key from its name. The lemmas show
  that the attachment index answers exactly what a scan over the listeners' attachments
  answers, that the service index is a map from (namespace, name, port) to positions, and that
  the port parser accepts exactly the strings a port prints as.
\<close>

section \<open>Route attachments\<close>

record RouteAttachmentListenerIndex =
  rai_routes :: "string \<rightharpoonup> (string \<rightharpoonup> nat list)"

definition attach_route ::
    "nat \<Rightarrow> (string \<rightharpoonup> (string \<rightharpoonup> nat list)) \<Rightarrow> string \<Rightarrow> (string \<rightharpoonup> (string \<rightharpoonup> nat list))" where
  "attach_route listener_index routes attached_route =
     (case split_once CHR ''/'' attached_route of
        None \<Rightarrow> routes
      | Some (namespace, name) \<Rightarrow>
          routes(namespace \<mapsto> entry_push name listener_index
            (case routes namespace of None \<Rightarrow> Map.empty | Some m \<Rightarrow> m)))"

definition from_listeners :: "Listener list \<Rightarrow> RouteAttachmentListenerIndex" where
  "from_listeners listeners =
     (let routes = foldl (\<lambda>routes (listener_index, listener).
            foldl (attach_route listener_index) routes (ls_attached_routes listener))
          Map.empty (enumerate 0 listeners)
      in \<lparr> rai_routes = (\<lambda>namespace. map_option (\<lambda>routes_by_name name.
             map_option (\<lambda>listener_indices. remdups_adj (sort listener_indices)) (routes_by_name name))
             (routes namespace)) \<rparr>)"

definition listeners_for_route ::
    "RouteAttachmentListenerIndex \<Rightarrow> string \<Rightarrow> string \<Rightarrow> nat list option" where
  "listeners_for_route idx namespace name =
     Option.bind (rai_routes idx namespace) (\<lambda>routes. routes name)"

text \<open>\<open>slice::binary_search(x).is_ok()\<close>.\<close>

function binary_search_between :: "nat list \<Rightarrow> nat \<Rightarrow> nat \<Rightarrow> nat \<Rightarrow> bool" where
  "binary_search_between xs x lo hi =
     (if hi \<le> lo then False
      else let mid = lo + (hi - lo) div 2 in
           if xs ! mid = x then True
           else if xs ! mid < x then binary_search_between xs x (Suc mid) hi
           else binary_search_between xs x lo mid)"
  by pat_completeness auto
termination by (relation "measure (\<lambda>(xs, x, lo, hi). hi - lo)") auto

declare binary_search_between.simps [simp del]

definition binary_search_is_ok :: "nat list \<Rightarrow> nat \<Rightarrow> bool" where
  "binary_search_is_ok xs x = binary_search_between xs x 0 (length xs)"

definition contains_listener ::
    "RouteAttachmentListenerIndex \<Rightarrow> string \<Rightarrow> string \<Rightarrow> nat \<Rightarrow> bool" where
  "contains_listener idx namespace name listener_index =
     (case listeners_for_route idx namespace name of
        None \<Rightarrow> False
      | Some listeners \<Rightarrow> binary_search_is_ok listeners listener_index)"

definition route_attachment_matches :: "string \<Rightarrow> string \<Rightarrow> string \<Rightarrow> bool" where
  "route_attachment_matches attached route_namespace route_name =
     (case split_once CHR ''/'' attached of
        None \<Rightarrow> False
      | Some (namespace, name) \<Rightarrow> namespace = route_namespace \<and> name = route_name)"

lemma binary_search_between_iff:
  "sorted xs \<Longrightarrow> hi \<le> length xs \<Longrightarrow>
   binary_search_between xs x lo hi \<longleftrightarrow> (\<exists>i. lo \<le> i \<and> i < hi \<and> xs ! i = x)"
proof (induction xs x lo hi rule: binary_search_between.induct)
  case (1 xs x lo hi)
  show ?case
  proof (cases "hi \<le> lo")
    case True
    then show ?thesis by (subst binary_search_between.simps) simp
  next
    case False
    define mid where "mid = lo + (hi - lo) div 2"
    have mid: "lo \<le> mid" "mid < hi" using False unfolding mid_def by linarith+
    have mono: "xs ! i \<le> xs ! j" if "i \<le> j" "j < hi" for i j
      using sorted_nth_mono [OF "1.prems"(1), of i j] that "1.prems"(2) by simp
    consider "xs ! mid = x" | "xs ! mid < x" | "x < xs ! mid" by linarith
    then show ?thesis
    proof cases
      case 1
      then show ?thesis using False mid
        by (subst binary_search_between.simps) (auto simp: Let_def mid_def [symmetric])
    next
      case 2
      have "(Suc mid \<le> i \<and> i < hi \<and> xs ! i = x) \<longleftrightarrow> (lo \<le> i \<and> i < hi \<and> xs ! i = x)" for i
        using mono [of i mid] mid 2 by (cases "i \<le> mid") auto
      then show ?thesis using 2 False "1.IH"(1) [OF False mid_def] "1.prems"
        by (subst binary_search_between.simps) (simp add: Let_def mid_def [symmetric])
    next
      case 3
      have "(lo \<le> i \<and> i < mid \<and> xs ! i = x) \<longleftrightarrow> (lo \<le> i \<and> i < hi \<and> xs ! i = x)" for i
        using mono [of mid i] mid 3 by (cases "i < mid") auto
      then show ?thesis using 3 False mid "1.IH"(2) [OF False mid_def] "1.prems"
        by (subst binary_search_between.simps) (simp add: Let_def mid_def [symmetric])
    qed
  qed
qed

lemma binary_search_is_ok_iff: "sorted xs \<Longrightarrow> binary_search_is_ok xs x \<longleftrightarrow> x \<in> set xs"
  by (auto simp: binary_search_is_ok_def binary_search_between_iff in_set_conv_nth)

text \<open>The listeners collected under a route, before sorting.\<close>

definition attached_list :: "(string \<rightharpoonup> (string \<rightharpoonup> nat list)) \<Rightarrow> string \<Rightarrow> string \<Rightarrow> nat list" where
  "attached_list routes ns n = (case routes ns of None \<Rightarrow> [] | Some m \<Rightarrow> entry_list m n)"

lemma attached_list_attach:
  "set (attached_list (attach_route i routes a) ns n) =
     set (attached_list routes ns n) \<union> (if route_attachment_matches a ns n then {i} else {})"
  by (auto simp: attached_list_def attach_route_def route_attachment_matches_def entry_list_push
      split: option.splits if_splits)

lemma attached_list_attach_all:
  "set (attached_list (foldl (attach_route i) routes as) ns n) =
     set (attached_list routes ns n) \<union> {j. j = i \<and> (\<exists>a \<in> set as. route_attachment_matches a ns n)}"
  by (induction as arbitrary: routes) (auto simp: attached_list_attach)

lemma attached_list_listeners:
  "set (attached_list (foldl (\<lambda>routes (i, l). foldl (attach_route i) routes (ls_attached_routes l))
       routes ps) ns n) =
     set (attached_list routes ns n) \<union>
     {i. \<exists>l. (i, l) \<in> set ps \<and> (\<exists>a \<in> set (ls_attached_routes l). route_attachment_matches a ns n)}"
  by (induction ps arbitrary: routes) (auto simp: attached_list_attach_all)

lemma contains_listener_iff:
  "contains_listener (from_listeners listeners) ns n i \<longleftrightarrow>
     i < length listeners \<and>
     (\<exists>a \<in> set (ls_attached_routes (listeners ! i)). route_attachment_matches a ns n)"
proof -
  let ?routes = "foldl (\<lambda>routes (i, l). foldl (attach_route i) routes (ls_attached_routes l))
          Map.empty (enumerate 0 listeners)"
  have "contains_listener (from_listeners listeners) ns n i \<longleftrightarrow> i \<in> set (attached_list ?routes ns n)"
    by (auto simp: contains_listener_def listeners_for_route_def from_listeners_def Let_def
        binary_search_is_ok_iff attached_list_def entry_list_def sorted_remdups_adj
        split: option.splits bind_splits)
  also have "\<dots> \<longleftrightarrow> (\<exists>l. (i, l) \<in> set (enumerate 0 listeners) \<and>
      (\<exists>a \<in> set (ls_attached_routes l). route_attachment_matches a ns n))"
    unfolding attached_list_listeners by (simp add: attached_list_def)
  finally show ?thesis by (auto simp: in_set_enumerate_eq)
qed

section \<open>Backend services\<close>

record BackendServiceEntry =
  bse_namespace :: string
  bse_port :: u32
  bse_index :: nat

datatype BackendServiceBucket = Single BackendServiceEntry | Many "BackendServiceEntry list"

record BackendServiceIndex =
  bsi_services :: "string \<rightharpoonup> BackendServiceBucket"

definition BackendServiceIndex_empty :: BackendServiceIndex where
  "BackendServiceIndex_empty = \<lparr> bsi_services = Map.empty \<rparr>"

definition entry_matches :: "BackendServiceEntry \<Rightarrow> string \<Rightarrow> u32 \<Rightarrow> bool" where
  "entry_matches entry namespace port = (bse_namespace entry = namespace \<and> bse_port entry = port)"

text \<open>\<open>iter_mut().find(..)\<close> with an update of the element found; \<open>None\<close> when there is none.\<close>

fun update_first :: "('a \<Rightarrow> bool) \<Rightarrow> ('a \<Rightarrow> 'a) \<Rightarrow> 'a list \<Rightarrow> 'a list option" where
  "update_first P f [] = None"
| "update_first P f (x # xs) = (if P x then Some (f x # xs) else map_option ((#) x) (update_first P f xs))"

fun bucket_insert :: "BackendServiceBucket \<Rightarrow> BackendServiceEntry \<Rightarrow> BackendServiceBucket" where
  "bucket_insert (Single existing) entry =
     (if entry_matches existing (bse_namespace entry) (bse_port entry)
      then Single (existing\<lparr> bse_index := bse_index entry \<rparr>)
      else Many [existing, entry])"
| "bucket_insert (Many entries) entry =
     (case update_first (\<lambda>item. entry_matches item (bse_namespace entry) (bse_port entry))
             (\<lambda>existing. existing\<lparr> bse_index := bse_index entry \<rparr>) entries of
        Some entries' \<Rightarrow> Many entries'
      | None \<Rightarrow> Many (entries @ [entry]))"

fun bucket_index_for :: "BackendServiceBucket \<Rightarrow> string \<Rightarrow> u32 \<Rightarrow> nat option" where
  "bucket_index_for (Single entry) namespace port =
     (if entry_matches entry namespace port then Some (bse_index entry) else None)"
| "bucket_index_for (Many entries) namespace port =
     map_option bse_index (find (\<lambda>entry. entry_matches entry namespace port) entries)"

text \<open>The early return of the loop in \<open>unique_namespace\<close> is the outer \<open>None\<close>.\<close>

fun unique_namespace_loop :: "string option \<Rightarrow> BackendServiceEntry list \<Rightarrow> string option" where
  "unique_namespace_loop namespace [] = namespace"
| "unique_namespace_loop namespace (entry # entries) =
     (case namespace of
        Some current \<Rightarrow>
          if current \<noteq> bse_namespace entry then None else unique_namespace_loop namespace entries
      | None \<Rightarrow> unique_namespace_loop (Some (bse_namespace entry)) entries)"

fun bucket_unique_namespace :: "BackendServiceBucket \<Rightarrow> u32 \<Rightarrow> string option" where
  "bucket_unique_namespace (Single entry) port =
     (if bse_port entry = port then Some (bse_namespace entry) else None)"
| "bucket_unique_namespace (Many entries) port =
     unique_namespace_loop None (filter (\<lambda>entry. bse_port entry = port) entries)"

definition service_insert ::
    "BackendServiceIndex \<Rightarrow> string \<Rightarrow> string \<Rightarrow> u32 \<Rightarrow> nat \<Rightarrow> BackendServiceIndex" where
  "service_insert idx namespace name port index =
     (let entry = \<lparr> bse_namespace = namespace, bse_port = port, bse_index = index \<rparr> in
      case bsi_services idx name of
        None \<Rightarrow> idx\<lparr> bsi_services := (bsi_services idx)(name \<mapsto> Single entry) \<rparr>
      | Some bucket \<Rightarrow> idx\<lparr> bsi_services := (bsi_services idx)(name \<mapsto> bucket_insert bucket entry) \<rparr>)"

definition service_index_for :: "BackendServiceIndex \<Rightarrow> string \<Rightarrow> string \<Rightarrow> u32 \<Rightarrow> nat option" where
  "service_index_for idx namespace name port =
     Option.bind (bsi_services idx name) (\<lambda>bucket. bucket_index_for bucket namespace port)"

definition service_unique_namespace :: "BackendServiceIndex \<Rightarrow> string \<Rightarrow> u32 \<Rightarrow> string option" where
  "service_unique_namespace idx name port =
     Option.bind (bsi_services idx name) (\<lambda>bucket. bucket_unique_namespace bucket port)"

text \<open>
  What a snapshot relies on when it resolves service references: a map from keys to positions,
  filled by inserts of which the latest counts, and the question whether a (name, port) is
  defined in one namespace only.
\<close>

locale service_index =
  fixes empty :: 'i
    and insert_at :: "'i \<Rightarrow> string \<Rightarrow> string \<Rightarrow> u32 \<Rightarrow> nat \<Rightarrow> 'i"
    and lookup :: "'i \<Rightarrow> string \<Rightarrow> string \<Rightarrow> u32 \<Rightarrow> nat option"
    and unique_ns :: "'i \<Rightarrow> string \<Rightarrow> u32 \<Rightarrow> string option"
  assumes lookup_empty: "lookup empty ns n p = None"
    and lookup_insert: "lookup (insert_at idx ns n p i) ns' n' p' =
      (if ns' = ns \<and> n' = n \<and> p' = p then Some i else lookup idx ns' n' p')"
    and unique_iff: "unique_ns idx n p = Some ns \<longleftrightarrow> {ns'. lookup idx ns' n p \<noteq> None} = {ns}"
begin

lemma lookup_fold:
  "lookup (foldl (\<lambda>idx ((ns, n, p), i). insert_at idx ns n p i) idx kvs) ns n p =
     (case map_of (rev kvs) (ns, n, p) of Some i \<Rightarrow> Some i | None \<Rightarrow> lookup idx ns n p)"
  by (induction kvs arbitrary: idx)
    (auto simp: lookup_insert map_add_def split: option.splits)

lemma lookup_filled:
  assumes "distinct (map fst kvs)"
  shows "lookup (foldl (\<lambda>idx ((ns, n, p), i). insert_at idx ns n p i) empty kvs) ns n p =
     map_of kvs (ns, n, p)"
proof -
  have "map_of (rev kvs) = map_of kvs"
    using assms by (metis distinct_rev map_of_eq_Some_iff map_of_inject_set rev_map set_rev)
  then show ?thesis by (simp add: lookup_fold lookup_empty split: option.splits)
qed

lemma unique_filled:
  "unique_ns (foldl (\<lambda>idx ((ns, n, p), i). insert_at idx ns n p i) empty kvs) n p = Some ns \<longleftrightarrow>
     {ns'. \<exists>i. ((ns', n, p), i) \<in> set kvs} = {ns}"
proof -
  let ?idx = "foldl (\<lambda>idx ((ns, n, p), i). insert_at idx ns n p i) empty kvs"
  have "lookup ?idx ns' n p \<noteq> None \<longleftrightarrow> (\<exists>i. ((ns', n, p), i) \<in> set kvs)" for ns'
  proof -
    have "lookup ?idx ns' n p \<noteq> None \<longleftrightarrow> (ns', n, p) \<in> fst ` set (rev kvs)"
      unfolding lookup_fold lookup_empty using map_of_eq_None_iff [of "rev kvs" "(ns', n, p)"]
      by (cases "map_of (rev kvs) (ns', n, p)") simp_all
    also have "\<dots> \<longleftrightarrow> (\<exists>i. ((ns', n, p), i) \<in> set kvs)" by (auto intro: rev_image_eqI)
    finally show ?thesis .
  qed
  then show ?thesis unfolding unique_iff by (simp only:)
qed

end

lemma update_first_index_for:
  "update_first (\<lambda>item. entry_matches item ns p) (\<lambda>e. e\<lparr> bse_index := i \<rparr>) es = Some es' \<Longrightarrow>
   bucket_index_for (Many es') ns' p' =
     (if ns' = ns \<and> p' = p then Some i else bucket_index_for (Many es) ns' p')"
proof (induction es arbitrary: es')
  case Nil
  then show ?case by simp
next
  case (Cons e es)
  then show ?case by (cases "entry_matches e ns p") (auto simp: entry_matches_def)
qed

lemma update_first_None:
  "update_first (\<lambda>item. entry_matches item ns p) f es = None \<Longrightarrow>
   bucket_index_for (Many es) ns p = None"
  by (induction es) (auto split: if_splits)

lemma bucket_index_for_snoc:
  "bucket_index_for (Many (es @ [e])) ns p =
     (case bucket_index_for (Many es) ns p of Some i \<Rightarrow> Some i
      | None \<Rightarrow> if entry_matches e ns p then Some (bse_index e) else None)"
  by (induction es) (auto split: option.splits)

lemma bucket_index_for_insert:
  "bucket_index_for (bucket_insert b \<lparr> bse_namespace = ns, bse_port = p, bse_index = i \<rparr>) ns' p' =
     (if ns' = ns \<and> p' = p then Some i else bucket_index_for b ns' p')"
proof (cases b)
  case (Single e)
  then show ?thesis by (auto simp: entry_matches_def)
next
  case (Many es)
  let ?u = "update_first (\<lambda>item. entry_matches item ns p) (\<lambda>e. e\<lparr> bse_index := i \<rparr>) es"
  show ?thesis
  proof (cases ?u)
    case None
    then have b: "bucket_insert b \<lparr> bse_namespace = ns, bse_port = p, bse_index = i \<rparr> =
        Many (es @ [\<lparr> bse_namespace = ns, bse_port = p, bse_index = i \<rparr>])" using Many by simp
    show ?thesis
      using update_first_None [OF None] Many unfolding b bucket_index_for_snoc
      by (auto simp: entry_matches_def split: option.splits)
  next
    case (Some es')
    then have "bucket_insert b \<lparr> bse_namespace = ns, bse_port = p, bse_index = i \<rparr> = Many es'"
      using Many by simp
    with Many show ?thesis by (simp only: update_first_index_for [OF Some])
  qed
qed

lemma bucket_index_for_dom:
  "bucket_index_for (Many es) ns p \<noteq> None \<longleftrightarrow> (\<exists>e \<in> set es. entry_matches e ns p)"
  using find_None_iff [of "\<lambda>e. entry_matches e ns p" es] by auto

lemma unique_namespace_loop_iff:
  "unique_namespace_loop acc es = Some ns \<longleftrightarrow> set_option acc \<union> bse_namespace ` set es = {ns}"
proof (induction es arbitrary: acc)
  case Nil
  then show ?case by (cases acc) auto
next
  case (Cons e es)
  then show ?case by (cases acc) auto
qed

lemma bucket_unique_namespace_iff:
  "bucket_unique_namespace b p = Some ns \<longleftrightarrow> {ns'. bucket_index_for b ns' p \<noteq> None} = {ns}"
proof (cases b)
  case (Single e)
  then show ?thesis by (auto simp: entry_matches_def)
next
  case (Many es)
  have "{ns'. bucket_index_for b ns' p \<noteq> None} = bse_namespace ` set (filter (\<lambda>e. bse_port e = p) es)"
    unfolding Many bucket_index_for_dom by (auto simp: entry_matches_def)
  then show ?thesis by (simp add: Many unique_namespace_loop_iff)
qed

interpretation backend_services: service_index BackendServiceIndex_empty service_insert
    service_index_for service_unique_namespace
proof unfold_locales
  show "service_index_for BackendServiceIndex_empty ns n p = None" for ns n p
    by (simp add: service_index_for_def BackendServiceIndex_empty_def)
  show "service_index_for (service_insert idx ns n p i) ns' n' p' =
      (if ns' = ns \<and> n' = n \<and> p' = p then Some i else service_index_for idx ns' n' p')"
    for idx ns n p i ns' n' p'
    by (cases "bsi_services idx n")
      (auto simp: service_index_for_def service_insert_def bucket_index_for_insert entry_matches_def)
  show "service_unique_namespace idx n p = Some ns \<longleftrightarrow> {ns'. service_index_for idx ns' n p \<noteq> None} = {ns}"
    for idx n p ns
    by (cases "bsi_services idx n")
      (auto simp: service_unique_namespace_def service_index_for_def bucket_unique_namespace_iff)
qed

section \<open>Cluster names and decimal ports\<close>

function decimal_digit_count :: "u32 \<Rightarrow> nat" where
  "decimal_digit_count value = (if value < 10 then 1 else Suc (decimal_digit_count (value div 10)))"
  by pat_completeness auto
termination
proof (relation "measure unat")
  fix v :: u32 assume "\<not> v < 10"
  then have "unat v div 10 < unat v" by (simp add: word_less_nat_alt)
  then show "(v div 10, v) \<in> measure unat" by (simp add: unat_div)
qed simp

declare decimal_digit_count.simps [simp del]

fun parse_decimal_digits :: "u32 \<Rightarrow> string \<Rightarrow> u32 option" where
  "parse_decimal_digits parsed [] = Some parsed"
| "parse_decimal_digits parsed (digit # rest) =
     (if \<not> is_ascii_digit digit then None
      else case Option.bind (checked_mul parsed 10)
                  (\<lambda>value. checked_add value (of_nat (digit_value digit))) of
             None \<Rightarrow> None
           | Some nxt \<Rightarrow> parse_decimal_digits nxt rest)"

definition parse_decimal_port :: "string \<Rightarrow> u32 option" where
  "parse_decimal_port port =
     (if port = [] then None
      else case parse_decimal_digits 0 port of
             None \<Rightarrow> None
           | Some parsed \<Rightarrow> if length port = decimal_digit_count parsed then Some parsed else None)"

definition port_matches_decimal :: "string \<Rightarrow> u32 \<Rightarrow> bool" where
  "port_matches_decimal port expected =
     (case parse_decimal_port port of None \<Rightarrow> False | Some parsed \<Rightarrow> parsed = expected)"

definition backend_cluster_name_matches_ref :: "string \<Rightarrow> string \<Rightarrow> u32 \<Rightarrow> bool" where
  "backend_cluster_name_matches_ref cluster_name name port =
     (case rsplit_once CHR '':'' cluster_name of
        None \<Rightarrow> False
      | Some (cluster_name, cluster_port) \<Rightarrow>
          cluster_name = name \<and> port_matches_decimal cluster_port port)"

definition backend_cluster_matches_ref :: "BackendCluster \<Rightarrow> string \<Rightarrow> string \<Rightarrow> u32 \<Rightarrow> bool" where
  "backend_cluster_matches_ref cluster namespace name port =
     (bc_namespace cluster = namespace
      \<and> backend_cluster_name_matches_ref (bc_name cluster) name port)"

definition backend_cluster_service_key :: "string \<Rightarrow> (string \<times> u32) option" where
  "backend_cluster_service_key cluster_name =
     (case rsplit_once CHR '':'' cluster_name of
        None \<Rightarrow> None
      | Some (name, port_text) \<Rightarrow>
          (case parse_decimal_port port_text of None \<Rightarrow> None | Some port \<Rightarrow> Some (name, port)))"

definition backend_cluster_name :: "BackendCluster \<Rightarrow> string" where
  "backend_cluster_name cluster = bc_namespace cluster @ ''/'' @ bc_name cluster"

lemma decimal_digit_count_show: "decimal_digit_count w = length (show_nat (unat w))"
proof (induction w rule: decimal_digit_count.induct)
  case (1 v)
  show ?case
  proof (cases "v < 10")
    case True
    then show ?thesis
      by (subst decimal_digit_count.simps, subst show_nat.simps) (simp add: word_less_nat_alt)
  next
    case False
    then have "\<not> unat v < 10" by (simp add: word_less_nat_alt)
    then show ?thesis using 1 [OF False] False
      by (subst decimal_digit_count.simps, subst show_nat.simps) (simp add: unat_div)
  qed
qed

lemma unat_of_nat_u32: "n < 2 ^ 32 \<Longrightarrow> unat (of_nat n :: u32) = n"
  by (simp add: unat_of_nat take_bit_nat_eq_self)

lemma unat_mul_add:
  fixes w a b :: u32
  assumes "unat w * unat a + unat b < 2 ^ 32"
  shows "unat (w * a + b) = unat w * unat a + unat b"
proof -
  have "unat (w * a) = unat w * unat a" using assms by (intro unat_mult_no_overflow) simp
  then show ?thesis using assms by (subst unat_add_no_overflow) simp_all
qed

lemma checked_mul_add:
  fixes w a b :: u32
  assumes "n = unat w * unat a + unat b"
  shows "Option.bind (checked_mul w a) (\<lambda>v. checked_add v b) =
    (if n < 2 ^ 32 then Some (w * a + b) else None)"
proof (cases "unat w * unat a < 2 ^ 32")
  case True
  then have "unat (w * a) = unat w * unat a" by (intro unat_mult_no_overflow) simp
  with True assms show ?thesis by (simp add: checked_mul_def checked_add_def)
next
  case False
  with assms show ?thesis by (simp add: checked_mul_def)
qed

lemma parse_decimal_digits_Some:
  "parse_decimal_digits w s = Some p \<longleftrightarrow>
     list_all is_ascii_digit s \<and> decimal_value (unat w) s < 2 ^ 32 \<and> p = of_nat (decimal_value (unat w) s)"
proof (induction s arbitrary: w)
  case Nil
  have "unat w < 2 ^ LENGTH(32)" by (rule unsigned_less)
  then show ?case by auto
next
  case (Cons c s)
  show ?case
  proof (cases "is_ascii_digit c")
    case False
    then show ?thesis by simp
  next
    case digit: True
    let ?n = "unat w * 10 + digit_value c"
    have d: "unat (of_nat (digit_value c) :: u32) = digit_value c"
      using digit_value_less [OF digit] by (intro unat_of_nat_u32) simp
    have step: "Option.bind (checked_mul w 10) (\<lambda>v. checked_add v (of_nat (digit_value c))) =
        (if ?n < 2 ^ 32 then Some (w * 10 + of_nat (digit_value c)) else None)"
      by (rule checked_mul_add) (simp_all add: d)
    show ?thesis
    proof (cases "?n < 2 ^ 32")
      case True
      have "unat (w * 10 + of_nat (digit_value c)) = ?n"
        using unat_mul_add [of w 10 "of_nat (digit_value c)"] True by (simp add: d)
      then show ?thesis using digit True by (simp add: Cons.IH step)
    next
      case False
      moreover have "\<not> decimal_value ?n s < 2 ^ 32"
        using decimal_value_mono_prefix [of ?n s] False by linarith
      ultimately show ?thesis using digit by (simp add: step)
    qed
  qed
qed

lemma parse_decimal_port_Some: "parse_decimal_port s = Some p \<longleftrightarrow> s = show_u32 p"
proof
  assume "parse_decimal_port s = Some p"
  then have s: "s \<noteq> []" and d: "parse_decimal_digits 0 s = Some p"
    and len: "length s = decimal_digit_count p"
    by (auto simp: parse_decimal_port_def split: if_splits option.splits)
  then have p: "list_all is_ascii_digit s" "decimal_value 0 s < 2 ^ 32" "p = of_nat (decimal_value 0 s)"
    by (simp_all add: parse_decimal_digits_Some)
  then have u: "unat p = decimal_value 0 s" by (simp add: unat_of_nat take_bit_nat_eq_self)
  then have "length s = length (show_nat (decimal_value 0 s))"
    using len by (simp add: decimal_digit_count_show)
  with p(1) s u show "s = show_u32 p" unfolding show_u32_def by (metis show_nat_canonical)
next
  assume s: "s = show_u32 p"
  have "unat p < 2 ^ LENGTH(32)" by (rule unsigned_less)
  then have "parse_decimal_digits 0 s = Some p"
    by (simp add: s parse_decimal_digits_Some show_u32_def show_nat_digits decimal_value_show_nat)
  then show "parse_decimal_port s = Some p"
    by (simp add: parse_decimal_port_def s decimal_digit_count_show show_u32_def)
qed

lemma service_key_iff_matches_ref:
  "backend_cluster_service_key c = Some (n, p) \<longleftrightarrow> backend_cluster_name_matches_ref c n p"
  by (auto simp: backend_cluster_service_key_def backend_cluster_name_matches_ref_def
      port_matches_decimal_def split: option.splits prod.splits)

lemma service_key_Some:
  "backend_cluster_service_key c = Some (n, p) \<longleftrightarrow> c = n @ '':'' @ show_u32 p"
proof -
  have "backend_cluster_service_key c = Some (n, p) \<longleftrightarrow>
      (\<exists>t. rsplit_once CHR '':'' c = Some (n, t) \<and> parse_decimal_port t = Some p)"
    by (auto simp: backend_cluster_service_key_def split: option.splits prod.splits)
  then show ?thesis by (auto simp: parse_decimal_port_Some rsplit_once_Some)
qed

end
