(* ===== verification/Endpoint_Runtime.thy ===== *)
theory Endpoint_Runtime
  imports Service_Index
begin

text \<open>
  The health state kept per endpoint: \<open>EndpointRuntimeState\<close> of \<open>crates/ntgw-ir/src/lib.rs\<close> and
  the sharded \<open>EndpointRuntimeStore\<close> of \<open>endpoint_runtime.rs\<close> with its recovery latency
  histogram. \<open>Instant::now()\<close> is the argument \<open>now\<close>, the hash of \<open>DefaultHasher\<close> is the field
  \<open>default_hash\<close> of the library record. The lemmas show the ejection state machine, that the
  32 hashed shards together with the counter of tracked states implement one total map from
  endpoints to states in which untouched endpoints are in the default state, and that the
  histogram counts the observed latencies.
\<close>

section \<open>The state of one endpoint\<close>

definition PASSIVE_EJECTION_CONSECUTIVE_FAILURES :: u32 where
  "PASSIVE_EJECTION_CONSECUTIVE_FAILURES = 3"

definition PASSIVE_EJECTION_COOLDOWN :: Duration where
  "PASSIVE_EJECTION_COOLDOWN = 30 * 1000000000"

record EndpointRuntimeKey =
  ek_backend_name :: string
  ek_address :: string
  ek_port :: u32

definition EndpointRuntimeKey_new :: "string \<Rightarrow> BackendEndpoint \<Rightarrow> EndpointRuntimeKey" where
  "EndpointRuntimeKey_new backend_name endpoint =
     \<lparr> ek_backend_name = backend_name, ek_address = ep_address endpoint, ek_port = ep_port endpoint \<rparr>"

record EndpointRuntimeState =
  es_consecutive_failures :: u32
  es_ejected_until :: "Instant option"
  es_recovery_started_at :: "Instant option"
  es_active_consecutive_failures :: u32
  es_active_unhealthy :: bool

definition EndpointRuntimeState_default :: EndpointRuntimeState where
  "EndpointRuntimeState_default =
     \<lparr> es_consecutive_failures = 0, es_ejected_until = None, es_recovery_started_at = None,
       es_active_consecutive_failures = 0, es_active_unhealthy = False \<rparr>"

definition is_default_state :: "EndpointRuntimeState \<Rightarrow> bool" where
  "is_default_state st =
     (es_consecutive_failures st = 0 \<and> es_ejected_until st = None \<and> es_recovery_started_at st = None
      \<and> es_active_consecutive_failures st = 0 \<and> \<not> es_active_unhealthy st)"

definition is_ejected_at :: "EndpointRuntimeState \<Rightarrow> Instant \<Rightarrow> bool" where
  "is_ejected_at st now = (case es_ejected_until st of None \<Rightarrow> False | Some until \<Rightarrow> until > now)"

definition ejection_expired_at :: "EndpointRuntimeState \<Rightarrow> Instant \<Rightarrow> bool" where
  "ejection_expired_at st now = (case es_ejected_until st of None \<Rightarrow> False | Some until \<Rightarrow> until \<le> now)"

definition get_or_insert :: "'a option \<Rightarrow> 'a \<Rightarrow> 'a option" where
  "get_or_insert x v = (case x of None \<Rightarrow> Some v | Some y \<Rightarrow> Some y)"

definition state_record_failure :: "EndpointRuntimeState \<Rightarrow> Instant \<Rightarrow> EndpointRuntimeState" where
  "state_record_failure st now =
     (let st = (if ejection_expired_at st now then EndpointRuntimeState_default else st);
          was_ejected = is_ejected_at st now;
          st = st\<lparr> es_consecutive_failures := saturating_add (es_consecutive_failures st) 1 \<rparr>
      in if es_consecutive_failures st \<ge> PASSIVE_EJECTION_CONSECUTIVE_FAILURES then
           (let st = (if \<not> was_ejected
                then st\<lparr> es_recovery_started_at := get_or_insert (es_recovery_started_at st) now \<rparr>
                else st)
            in st\<lparr> es_ejected_until := Some (now + PASSIVE_EJECTION_COOLDOWN) \<rparr>)
         else st)"

definition recovery_latency_ms :: "EndpointRuntimeState \<Rightarrow> Instant \<Rightarrow> u64 option" where
  "recovery_latency_ms st now =
     map_option (\<lambda>started. of_nat (min ((now - started) div 1000000) (unat (- 1 :: u64))))
       (es_recovery_started_at st)"

definition state_record_success ::
    "EndpointRuntimeState \<Rightarrow> Instant \<Rightarrow> EndpointRuntimeState \<times> u64 option" where
  "state_record_success st now = (EndpointRuntimeState_default, recovery_latency_ms st now)"

definition state_record_active_probe_failure ::
    "EndpointRuntimeState \<Rightarrow> u32 \<Rightarrow> Instant \<Rightarrow> EndpointRuntimeState" where
  "state_record_active_probe_failure st unhealthy_threshold now =
     (let threshold = max unhealthy_threshold 1;
          was_unhealthy = es_active_unhealthy st;
          st = st\<lparr> es_active_consecutive_failures :=
                   saturating_add (es_active_consecutive_failures st) 1 \<rparr>
      in if es_active_consecutive_failures st \<ge> threshold then
           (let st = (if \<not> was_unhealthy
                then st\<lparr> es_recovery_started_at := get_or_insert (es_recovery_started_at st) now \<rparr>
                else st)
            in st\<lparr> es_active_unhealthy := True \<rparr>)
         else st)"

definition is_active_unhealthy :: "EndpointRuntimeState \<Rightarrow> bool" where
  "is_active_unhealthy st = es_active_unhealthy st"

definition state_record_active_probe_success ::
    "EndpointRuntimeState \<Rightarrow> Instant \<Rightarrow> EndpointRuntimeState \<times> u64 option" where
  "state_record_active_probe_success st now =
     (EndpointRuntimeState_default, recovery_latency_ms st now)"

lemma is_default_state_iff [simp]: "is_default_state st \<longleftrightarrow> st = EndpointRuntimeState_default"
  by (cases st) (auto simp: is_default_state_def EndpointRuntimeState_default_def)

lemma default_state_healthy [simp]:
  "\<not> is_ejected_at EndpointRuntimeState_default now"
  "\<not> ejection_expired_at EndpointRuntimeState_default now"
  "\<not> is_active_unhealthy EndpointRuntimeState_default"
  by (simp_all add: is_ejected_at_def ejection_expired_at_def is_active_unhealthy_def
      EndpointRuntimeState_default_def)

section \<open>Recovery latency histogram\<close>

definition ENDPOINT_RECOVERY_LATENCY_MS_BUCKET_BOUNDS :: "u64 list" where
  "ENDPOINT_RECOVERY_LATENCY_MS_BUCKET_BOUNDS =
     [50, 100, 250, 500, 1000, 2500, 5000, 10000, 30000, 60000]"

definition ENDPOINT_RECOVERY_LATENCY_MS_BUCKET_COUNT :: nat where
  "ENDPOINT_RECOVERY_LATENCY_MS_BUCKET_COUNT = length ENDPOINT_RECOVERY_LATENCY_MS_BUCKET_BOUNDS + 1"

record EndpointRuntimeHistogramBucket =
  hb_le :: string
  hb_cumulative_count :: u64

record EndpointRecoveryLatencyStats =
  rl_buckets :: "u64 list"
  rl_sum :: u64
  rl_count :: u64

definition EndpointRecoveryLatencyStats_default :: EndpointRecoveryLatencyStats where
  "EndpointRecoveryLatencyStats_default =
     \<lparr> rl_buckets = replicate ENDPOINT_RECOVERY_LATENCY_MS_BUCKET_COUNT 0, rl_sum = 0, rl_count = 0 \<rparr>"

fun position :: "('a \<Rightarrow> bool) \<Rightarrow> 'a list \<Rightarrow> nat option" where
  "position P [] = None"
| "position P (x # xs) = (if P x then Some 0 else map_option Suc (position P xs))"

definition endpoint_recovery_latency_ms_bucket_index :: "u64 \<Rightarrow> nat" where
  "endpoint_recovery_latency_ms_bucket_index latency_ms =
     (case position (\<lambda>bound. latency_ms \<le> bound) ENDPOINT_RECOVERY_LATENCY_MS_BUCKET_BOUNDS of
        Some i \<Rightarrow> i
      | None \<Rightarrow> length ENDPOINT_RECOVERY_LATENCY_MS_BUCKET_BOUNDS)"

definition observe :: "EndpointRecoveryLatencyStats \<Rightarrow> u64 \<Rightarrow> EndpointRecoveryLatencyStats" where
  "observe stats latency_ms =
     (let index = endpoint_recovery_latency_ms_bucket_index latency_ms
      in stats\<lparr> rl_buckets := (rl_buckets stats)[index := saturating_add (rl_buckets stats ! index) 1],
               rl_sum := saturating_add (rl_sum stats) latency_ms,
               rl_count := saturating_add (rl_count stats) 1 \<rparr>)"

fun bucket_rows ::
    "u64 \<Rightarrow> (nat \<times> u64) list \<Rightarrow> u64 list \<Rightarrow> u64 \<times> EndpointRuntimeHistogramBucket list" where
  "bucket_rows cumulative_count [] buckets = (cumulative_count, [])"
| "bucket_rows cumulative_count ((index, bound) # rest) buckets =
     (let cumulative_count = saturating_add cumulative_count (buckets ! index);
          row = \<lparr> hb_le = show_nat (unat bound), hb_cumulative_count = cumulative_count \<rparr>
      in case bucket_rows cumulative_count rest buckets of (c, rows) \<Rightarrow> (c, row # rows))"

definition bucket_snapshot :: "EndpointRecoveryLatencyStats \<Rightarrow> EndpointRuntimeHistogramBucket list" where
  "bucket_snapshot stats =
     (case bucket_rows 0 (enumerate 0 ENDPOINT_RECOVERY_LATENCY_MS_BUCKET_BOUNDS) (rl_buckets stats) of
        (cumulative_count, rows) \<Rightarrow>
          rows @ [\<lparr> hb_le = ''+Inf'',
                    hb_cumulative_count = saturating_add cumulative_count
                      (rl_buckets stats ! (ENDPOINT_RECOVERY_LATENCY_MS_BUCKET_COUNT - 1)) \<rparr>])"

section \<open>The store\<close>

definition ENDPOINT_RUNTIME_SHARD_COUNT :: nat where
  "ENDPOINT_RUNTIME_SHARD_COUNT = 32"

type_synonym shard = "(EndpointRuntimeKey \<times> EndpointRuntimeState) list"

record EndpointRuntimeStore =
  er_shards :: "shard list"
  er_recovery_latency :: EndpointRecoveryLatencyStats
  er_tracked_states :: u64

definition EndpointRuntimeStore_default :: EndpointRuntimeStore where
  "EndpointRuntimeStore_default =
     \<lparr> er_shards = replicate ENDPOINT_RUNTIME_SHARD_COUNT [],
       er_recovery_latency = EndpointRecoveryLatencyStats_default, er_tracked_states = 0 \<rparr>"

definition shard_index :: "Lib \<Rightarrow> EndpointRuntimeKey \<Rightarrow> nat" where
  "shard_index lib key =
     unat (default_hash lib (ek_backend_name key, ek_address key, ek_port key))
       mod ENDPOINT_RUNTIME_SHARD_COUNT"

definition get_cloned ::
    "Lib \<Rightarrow> EndpointRuntimeStore \<Rightarrow> EndpointRuntimeKey \<Rightarrow> EndpointRuntimeState option" where
  "get_cloned lib store key = map_of (er_shards store ! shard_index lib key) key"

definition has_tracked_states :: "EndpointRuntimeStore \<Rightarrow> bool" where
  "has_tracked_states store = (er_tracked_states store \<noteq> 0)"

definition observe_recovered :: "EndpointRuntimeStore \<Rightarrow> u64 option \<Rightarrow> EndpointRuntimeStore" where
  "observe_recovered store recovered_latency_ms =
     (case recovered_latency_ms of
        None \<Rightarrow> store
      | Some latency_ms \<Rightarrow>
          store\<lparr> er_recovery_latency := observe (er_recovery_latency store) latency_ms \<rparr>)"

definition inner_record_success ::
    "Lib \<Rightarrow> EndpointRuntimeStore \<Rightarrow> EndpointRuntimeKey \<Rightarrow> Instant \<Rightarrow> EndpointRuntimeStore" where
  "inner_record_success lib store key now =
     (if er_tracked_states store = 0 then store
      else let i = shard_index lib key; states = er_shards store ! i in
        case map_of states key of
          None \<Rightarrow> store
        | Some state \<Rightarrow>
            (case state_record_success state now of (state, recovered_latency_ms) \<Rightarrow>
               let states = AList.update key state states;
                   store = (if is_default_state state
                     then store\<lparr> er_shards := (er_shards store)[i := AList.delete key states],
                                 er_tracked_states := er_tracked_states store - 1 \<rparr>
                     else store\<lparr> er_shards := (er_shards store)[i := states] \<rparr>)
               in observe_recovered store recovered_latency_ms))"

definition inner_update ::
    "Lib \<Rightarrow> EndpointRuntimeStore \<Rightarrow> EndpointRuntimeKey \<Rightarrow>
     (EndpointRuntimeState \<Rightarrow> EndpointRuntimeState \<times> u64 option) \<Rightarrow> EndpointRuntimeStore" where
  "inner_update lib store key update =
     (let i = shard_index lib key; states = er_shards store ! i;
          existed = (map_of states key \<noteq> None);
          state = (case map_of states key of None \<Rightarrow> EndpointRuntimeState_default | Some s \<Rightarrow> s)
      in case update state of (state, recovered_latency_ms) \<Rightarrow>
        let states = AList.update key state states;
            store = (if is_default_state state
              then store\<lparr> er_shards := (er_shards store)[i := AList.delete key states],
                          er_tracked_states :=
                            (if existed then er_tracked_states store - 1 else er_tracked_states store) \<rparr>
              else store\<lparr> er_shards := (er_shards store)[i := states],
                          er_tracked_states :=
                            (if existed then er_tracked_states store else er_tracked_states store + 1) \<rparr>)
        in observe_recovered store recovered_latency_ms)"

definition handle_record_failure ::
    "Lib \<Rightarrow> EndpointRuntimeStore \<Rightarrow> EndpointRuntimeKey \<Rightarrow> Instant \<Rightarrow> EndpointRuntimeStore" where
  "handle_record_failure lib store key now =
     inner_update lib store key (\<lambda>state. (state_record_failure state now, None))"

definition handle_record_success ::
    "Lib \<Rightarrow> EndpointRuntimeStore \<Rightarrow> EndpointRuntimeKey \<Rightarrow> Instant \<Rightarrow> EndpointRuntimeStore" where
  "handle_record_success lib store key now = inner_record_success lib store key now"

definition handle_for_backend :: "string \<Rightarrow> BackendEndpoint \<Rightarrow> EndpointRuntimeKey" where
  "handle_for_backend backend_name endpoint = EndpointRuntimeKey_new backend_name endpoint"

definition record_failure_at ::
    "Lib \<Rightarrow> EndpointRuntimeStore \<Rightarrow> string \<Rightarrow> BackendEndpoint \<Rightarrow> Instant \<Rightarrow> EndpointRuntimeStore" where
  "record_failure_at lib store backend_name endpoint now =
     inner_update lib store (EndpointRuntimeKey_new backend_name endpoint)
       (\<lambda>state. (state_record_failure state now, None))"

definition record_success ::
    "Lib \<Rightarrow> EndpointRuntimeStore \<Rightarrow> string \<Rightarrow> BackendEndpoint \<Rightarrow> Instant \<Rightarrow> EndpointRuntimeStore" where
  "record_success lib store backend_name endpoint now =
     inner_record_success lib store (EndpointRuntimeKey_new backend_name endpoint) now"

definition record_active_probe_failure ::
    "Lib \<Rightarrow> EndpointRuntimeStore \<Rightarrow> string \<Rightarrow> BackendEndpoint \<Rightarrow> u32 \<Rightarrow> Instant \<Rightarrow> EndpointRuntimeStore" where
  "record_active_probe_failure lib store backend_name endpoint unhealthy_threshold now =
     inner_update lib store (EndpointRuntimeKey_new backend_name endpoint)
       (\<lambda>state. (state_record_active_probe_failure state unhealthy_threshold now, None))"

definition record_active_probe_success ::
    "Lib \<Rightarrow> EndpointRuntimeStore \<Rightarrow> string \<Rightarrow> BackendEndpoint \<Rightarrow> Instant \<Rightarrow> EndpointRuntimeStore" where
  "record_active_probe_success lib store backend_name endpoint now =
     inner_update lib store (EndpointRuntimeKey_new backend_name endpoint)
       (\<lambda>state. state_record_active_probe_success state now)"

definition insert_state ::
    "Lib \<Rightarrow> EndpointRuntimeStore \<Rightarrow> EndpointRuntimeKey \<times> EndpointRuntimeState \<Rightarrow> EndpointRuntimeStore" where
  "insert_state lib store = (\<lambda>(key, state).
     store\<lparr> er_shards := (er_shards store)
              [shard_index lib key := AList.update key state (er_shards store ! shard_index lib key)],
            er_tracked_states := er_tracked_states store + 1 \<rparr>)"

definition from_map_and_recovery_stats ::
    "Lib \<Rightarrow> shard \<Rightarrow> EndpointRecoveryLatencyStats \<Rightarrow> EndpointRuntimeStore" where
  "from_map_and_recovery_stats lib states recovery_latency =
     foldl (insert_state lib)
       (EndpointRuntimeStore_default\<lparr> er_recovery_latency := recovery_latency \<rparr>) states"

definition snapshot_map :: "EndpointRuntimeStore \<Rightarrow> shard" where
  "snapshot_map store =
     foldl (\<lambda>out shard. foldl (\<lambda>out (key, state). AList.update key state out) out shard) [] (er_shards store)"

definition store_clone :: "Lib \<Rightarrow> EndpointRuntimeStore \<Rightarrow> EndpointRuntimeStore" where
  "store_clone lib store = from_map_and_recovery_stats lib (snapshot_map store) (er_recovery_latency store)"

definition inherit_endpoint ::
    "Lib \<Rightarrow> EndpointRuntimeStore \<Rightarrow> string \<Rightarrow> shard \<Rightarrow> BackendEndpoint \<Rightarrow> shard" where
  "inherit_endpoint lib store backend_name nxt endpoint =
     (let key = EndpointRuntimeKey_new backend_name endpoint in
      case get_cloned lib store key of
        None \<Rightarrow> nxt
      | Some state \<Rightarrow> if is_default_state state then nxt else AList.update key state nxt)"

definition inherit_for_backends ::
    "Lib \<Rightarrow> EndpointRuntimeStore \<Rightarrow> BackendCluster list \<Rightarrow> EndpointRuntimeStore" where
  "inherit_for_backends lib store backends =
     from_map_and_recovery_stats lib
       (foldl (\<lambda>nxt cluster.
            foldl (inherit_endpoint lib store (bc_namespace cluster @ ''/'' @ bc_name cluster)) nxt
              (bc_endpoints cluster)) [] backends)
       (er_recovery_latency store)"

record EndpointRuntimeSnapshot =
  rs_tracked_endpoints :: nat
  rs_passive_ejected_current :: nat
  rs_active_unhealthy_current :: nat
  rs_recovery_latency_ms_buckets :: "EndpointRuntimeHistogramBucket list"
  rs_recovery_latency_ms_sum :: u64
  rs_recovery_latency_ms_count :: u64

definition runtime_snapshot :: "EndpointRuntimeStore \<Rightarrow> Instant \<Rightarrow> EndpointRuntimeSnapshot" where
  "runtime_snapshot store now =
     (let step = (\<lambda>(tracked, ejected, unhealthy) states.
            (tracked + length states,
             ejected + length (filter (\<lambda>state. is_ejected_at state now) (map snd states)),
             unhealthy + length (filter is_active_unhealthy (map snd states))));
          stats = er_recovery_latency store
      in case foldl step (0, 0, 0) (er_shards store) of (tracked, ejected, unhealthy) \<Rightarrow>
        \<lparr> rs_tracked_endpoints = tracked, rs_passive_ejected_current = ejected,
          rs_active_unhealthy_current = unhealthy,
          rs_recovery_latency_ms_buckets = bucket_snapshot stats,
          rs_recovery_latency_ms_sum = rl_sum stats, rs_recovery_latency_ms_count = rl_count stats \<rparr>)"

section \<open>The ejection state machine\<close>

text \<open>
  A state is consistent when an endpoint has been ejected only after enough failures and a
  recovery is being timed exactly while the endpoint is ejected or actively unhealthy.
\<close>

definition state_wf :: "EndpointRuntimeState \<Rightarrow> bool" where
  "state_wf st =
     ((es_ejected_until st \<noteq> None \<longleftrightarrow>
         es_consecutive_failures st \<ge> PASSIVE_EJECTION_CONSECUTIVE_FAILURES)
      \<and> (es_recovery_started_at st \<noteq> None \<longleftrightarrow> es_ejected_until st \<noteq> None \<or> es_active_unhealthy st))"

lemma state_wf_default: "state_wf EndpointRuntimeState_default"
  by (simp add: state_wf_def EndpointRuntimeState_default_def PASSIVE_EJECTION_CONSECUTIVE_FAILURES_def)

lemma state_wf_record_failure:
  assumes "state_wf st" shows "state_wf (state_record_failure st now)"
proof -
  define st0 where "st0 = (if ejection_expired_at st now then EndpointRuntimeState_default else st)"
  have wf: "state_wf st0" using assms state_wf_default by (simp add: st0_def)
  have live: "es_ejected_until st0 \<noteq> None \<Longrightarrow> is_ejected_at st0 now"
    by (auto simp: st0_def ejection_expired_at_def is_ejected_at_def EndpointRuntimeState_default_def
        split: if_splits option.splits)
  have ge: "es_consecutive_failures st0 \<le> saturating_add (es_consecutive_failures st0) 1"
    by (rule saturating_add_ge)
  show ?thesis
    using wf live ge
    unfolding state_record_failure_def st0_def [symmetric] Let_def state_wf_def
    by (auto simp: get_or_insert_def is_ejected_at_def split: option.splits)
qed

lemma state_wf_active_probe_failure:
  "state_wf st \<Longrightarrow> state_wf (state_record_active_probe_failure st threshold now)"
  unfolding state_record_active_probe_failure_def Let_def state_wf_def
  by (auto simp: get_or_insert_def split: option.splits)

text \<open>Failures below the threshold count up; the third in a row ejects for the cooldown.\<close>

lemma record_failure_counts:
  assumes "\<not> ejection_expired_at st now" and "es_consecutive_failures st < 2"
  shows "state_record_failure st now =
    st\<lparr> es_consecutive_failures := es_consecutive_failures st + 1 \<rparr>"
proof -
  have lt: "unat (es_consecutive_failures st) < 2" using assms(2) by (simp add: word_less_nat_alt)
  then have "unat (es_consecutive_failures st + 1) = unat (es_consecutive_failures st) + 1"
    by (subst unat_add_no_overflow) simp_all
  moreover from this lt have "saturating_add (es_consecutive_failures st) 1 = es_consecutive_failures st + 1"
    by (simp add: saturating_add_def)
  ultimately show ?thesis
    using assms(1) lt
    by (simp add: state_record_failure_def PASSIVE_EJECTION_CONSECUTIVE_FAILURES_def word_le_nat_alt)
qed

lemma record_failure_ejects:
  assumes "es_consecutive_failures st \<ge> 2" and "\<not> ejection_expired_at st now"
  shows "es_ejected_until (state_record_failure st now) = Some (now + PASSIVE_EJECTION_COOLDOWN)"
proof -
  have "2 \<le> unat (es_consecutive_failures st)" using assms(1) by (simp add: word_le_nat_alt)
  then have "(3 :: u32) \<le> saturating_add (es_consecutive_failures st) 1"
    by (simp add: word_le_nat_alt unat_saturating_add)
  then show ?thesis
    using assms(2) by (simp add: state_record_failure_def PASSIVE_EJECTION_CONSECUTIVE_FAILURES_def Let_def)
qed

section \<open>Histogram counts\<close>

text \<open>How many of the observed latencies fall into each bucket.\<close>

definition bucket_counts :: "u64 list \<Rightarrow> nat list" where
  "bucket_counts ls = map (\<lambda>i. length (filter (\<lambda>l. endpoint_recovery_latency_ms_bucket_index l = i) ls))
     [0..<ENDPOINT_RECOVERY_LATENCY_MS_BUCKET_COUNT]"

lemma bucket_index_bound:
  "endpoint_recovery_latency_ms_bucket_index l < ENDPOINT_RECOVERY_LATENCY_MS_BUCKET_COUNT"
proof -
  have "position P xs = Some i \<Longrightarrow> i < length xs" for P :: "u64 \<Rightarrow> bool" and xs i
    by (induction xs arbitrary: i) (auto split: if_splits)
  then show ?thesis
    by (fastforce simp: endpoint_recovery_latency_ms_bucket_index_def
        ENDPOINT_RECOVERY_LATENCY_MS_BUCKET_COUNT_def split: option.splits)
qed

lemma unat_saturating_Suc: "unat (c :: u64) < 2 ^ 64 - 1 \<Longrightarrow> unat (saturating_add c 1) = Suc (unat c)"
  by (simp add: unat_saturating_add)

lemma observe_all:
  assumes "length ls < 2 ^ 64"
  shows "map unat (rl_buckets (foldl observe EndpointRecoveryLatencyStats_default ls)) = bucket_counts ls
    \<and> unat (rl_count (foldl observe EndpointRecoveryLatencyStats_default ls)) = length ls"
  using assms
proof (induction ls rule: rev_induct)
  case Nil
  show ?case
    by (simp add: bucket_counts_def EndpointRecoveryLatencyStats_default_def map_replicate_const)
next
  case (snoc l ls)
  let ?st = "foldl observe EndpointRecoveryLatencyStats_default ls"
  let ?i = "endpoint_recovery_latency_ms_bucket_index l"
  have IH: "map unat (rl_buckets ?st) = bucket_counts ls" "unat (rl_count ?st) = length ls"
    using snoc by simp_all
  have len: "length (rl_buckets ?st) = ENDPOINT_RECOVERY_LATENCY_MS_BUCKET_COUNT"
    using arg_cong [OF IH(1), of length] by (simp add: bucket_counts_def)
  have at: "unat (rl_buckets ?st ! i) = bucket_counts ls ! i" if "i < ENDPOINT_RECOVERY_LATENCY_MS_BUCKET_COUNT" for i
    using IH(1) len that by (metis nth_map)
  have "bucket_counts ls ! ?i \<le> length ls"
    using bucket_index_bound [of l] by (simp add: bucket_counts_def)
  then have inc: "unat (saturating_add (rl_buckets ?st ! ?i) 1) = Suc (bucket_counts ls ! ?i)"
    using snoc.prems at [OF bucket_index_bound] by (subst unat_saturating_Suc) simp_all
  have cnt: "unat (saturating_add (rl_count ?st) 1) = Suc (length ls)"
    using snoc.prems IH(2) by (subst unat_saturating_Suc) simp_all
  have "map unat ((rl_buckets ?st)[?i := saturating_add (rl_buckets ?st ! ?i) 1]) = bucket_counts (ls @ [l])"
    unfolding map_update inc IH(1)
    by (rule nth_equalityI) (auto simp: bucket_counts_def nth_list_update)
  with cnt show ?case by (simp add: observe_def [of ?st l] Let_def)
qed

lemma bucket_rows_counts:
  assumes "bucket_rows c (enumerate n bs) buckets = (c', rows)"
    and "unat c + (\<Sum>i = n..<n + length bs. unat (buckets ! i)) < 2 ^ 64"
  shows "map (\<lambda>r. unat (hb_cumulative_count r)) rows =
      map (\<lambda>j. unat c + (\<Sum>i = n..<n + Suc j. unat (buckets ! i))) [0..<length bs]
    \<and> unat c' = unat c + (\<Sum>i = n..<n + length bs. unat (buckets ! i))"
  using assms
proof (induction bs arbitrary: c n rows)
  case Nil
  then show ?case by simp
next
  case (Cons b bs)
  let ?c = "saturating_add c (buckets ! n)"
  obtain rows' where r: "bucket_rows ?c (enumerate (Suc n) bs) buckets = (c', rows')"
    and rows: "rows = \<lparr> hb_le = show_nat (unat b), hb_cumulative_count = ?c \<rparr> # rows'"
    using Cons.prems(1) by (auto simp: Let_def split: prod.splits)
  have split: "(\<Sum>i = n..<Suc (n + k). unat (buckets ! i)) =
      unat (buckets ! n) + (\<Sum>i = Suc n..<Suc n + k. unat (buckets ! i))" for k
    by (simp add: sum.atLeast_Suc_lessThan)
  have total: "unat c + (unat (buckets ! n) + (\<Sum>i = Suc n..<Suc n + length bs. unat (buckets ! i))) < 2 ^ 64"
    using Cons.prems(2) split [of "length bs"] by simp
  then have uc: "unat ?c = unat c + unat (buckets ! n)" by (simp add: unat_saturating_add)
  have IH: "map (\<lambda>r. unat (hb_cumulative_count r)) rows' =
      map (\<lambda>j. unat ?c + (\<Sum>i = Suc n..<Suc n + Suc j. unat (buckets ! i))) [0..<length bs]"
    "unat c' = unat ?c + (\<Sum>i = Suc n..<Suc n + length bs. unat (buckets ! i))"
    using Cons.IH [OF r] total by (simp_all add: uc)
  show ?case
    unfolding rows using IH split
    by (simp add: uc upt_conv_Cons map_Suc_upt [symmetric] del: upt_Suc sum.op_ivl_Suc)
qed

lemma sum_bucket_counts:
  "j \<le> ENDPOINT_RECOVERY_LATENCY_MS_BUCKET_COUNT \<Longrightarrow>
   (\<Sum>i = 0..<j. bucket_counts ls ! i) =
     length (filter (\<lambda>l. endpoint_recovery_latency_ms_bucket_index l < j) ls)"
proof (induction j)
  case 0
  then show ?case by simp
next
  case (Suc j)
  have "length (filter (\<lambda>l. f l < Suc j) ls) =
      length (filter (\<lambda>l. f l < j) ls) + length (filter (\<lambda>l. f l = j) ls)" for f :: "u64 \<Rightarrow> nat"
    by (induction ls) auto
  with Suc show ?case by (simp add: bucket_counts_def)
qed

lemma position_le_iff:
  "sorted bs \<Longrightarrow> j < length bs \<Longrightarrow>
   (case position (\<lambda>b. l \<le> b) bs of Some i \<Rightarrow> i | None \<Rightarrow> length bs) \<le> j \<longleftrightarrow> l \<le> bs ! j"
proof (induction bs arbitrary: j)
  case Nil
  then show ?case by simp
next
  case (Cons b bs)
  show ?case
  proof (cases "l \<le> b")
    case True
    then have "l \<le> (b # bs) ! j"
      using Cons.prems sorted_nth_mono [of "b # bs" 0 j] by (metis le0 nth_Cons_0 order_trans)
    with True show ?thesis by simp
  next
    case False
    show ?thesis
    proof (cases j)
      case 0
      with False show ?thesis by (simp split: option.splits)
    next
      case (Suc k)
      with Cons.IH [of k] Cons.prems False show ?thesis by (simp split: option.splits)
    qed
  qed
qed

lemma bucket_index_le_iff:
  assumes "j < length ENDPOINT_RECOVERY_LATENCY_MS_BUCKET_BOUNDS"
  shows "endpoint_recovery_latency_ms_bucket_index l < Suc j \<longleftrightarrow>
    l \<le> ENDPOINT_RECOVERY_LATENCY_MS_BUCKET_BOUNDS ! j"
proof -
  have "sorted ENDPOINT_RECOVERY_LATENCY_MS_BUCKET_BOUNDS"
    by (simp add: ENDPOINT_RECOVERY_LATENCY_MS_BUCKET_BOUNDS_def)
  from position_le_iff [OF this assms] show ?thesis
    by (simp add: endpoint_recovery_latency_ms_bucket_index_def less_Suc_eq_le)
qed

lemma bucket_snapshot_counts:
  assumes "length ls < 2 ^ 64"
  defines "stats \<equiv> foldl observe EndpointRecoveryLatencyStats_default ls"
  shows "map (\<lambda>r. unat (hb_cumulative_count r)) (bucket_snapshot stats) =
    map (\<lambda>bound. length (filter (\<lambda>l. l \<le> bound) ls)) ENDPOINT_RECOVERY_LATENCY_MS_BUCKET_BOUNDS
    @ [length ls]"
proof -
  let ?B = ENDPOINT_RECOVERY_LATENCY_MS_BUCKET_BOUNDS and ?n = ENDPOINT_RECOVERY_LATENCY_MS_BUCKET_COUNT
  have at: "map unat (rl_buckets stats) = bucket_counts ls" using observe_all [OF assms(1)] by (simp add: stats_def)
  have len: "length (rl_buckets stats) = ?n" using arg_cong [OF at, of length] by (simp add: bucket_counts_def)
  have n: "?n = Suc (length ?B)" by (simp add: ENDPOINT_RECOVERY_LATENCY_MS_BUCKET_COUNT_def)
  have sum: "(\<Sum>i = 0..<j. unat (rl_buckets stats ! i)) =
      length (filter (\<lambda>l. endpoint_recovery_latency_ms_bucket_index l < j) ls)" if "j \<le> ?n" for j
  proof -
    have "unat (rl_buckets stats ! i) = bucket_counts ls ! i" if "i < j" for i
      using at len that \<open>j \<le> ?n\<close> by (metis nth_map order_less_le_trans)
    then show ?thesis using sum_bucket_counts [OF that] by simp
  qed
  obtain c' rows where r: "bucket_rows 0 (enumerate 0 ?B) (rl_buckets stats) = (c', rows)"
    by (cases "bucket_rows 0 (enumerate 0 ?B) (rl_buckets stats)")
  have small: "length (filter P ls) < 2 ^ 64" for P
    using length_filter_le [of P ls] assms(1) by (rule order_le_less_trans)
  have rows: "map (\<lambda>r. unat (hb_cumulative_count r)) rows =
      map (\<lambda>j. (\<Sum>i = 0..<Suc j. unat (rl_buckets stats ! i))) [0..<length ?B]"
    and c': "unat c' = (\<Sum>i = 0..<length ?B. unat (rl_buckets stats ! i))"
    using bucket_rows_counts [OF r] sum [of "length ?B"] small n by simp_all
  have "unat c' + unat (rl_buckets stats ! length ?B) = (\<Sum>i = 0..<?n. unat (rl_buckets stats ! i))"
    by (simp add: c' n)
  also have "\<dots> = length ls" using sum [of ?n] bucket_index_bound by (simp add: filter_True)
  finally have last_row: "unat (saturating_add c' (rl_buckets stats ! length ?B)) = length ls"
    using assms(1) by (simp add: unat_saturating_add)
  have "map (\<lambda>j. (\<Sum>i = 0..<Suc j. unat (rl_buckets stats ! i))) [0..<length ?B] =
      map (\<lambda>j. length (filter (\<lambda>l. l \<le> ?B ! j) ls)) [0..<length ?B]"
    by (rule map_cong [OF refl]) (simp only: sum n bucket_index_le_iff atLeastLessThan_iff set_upt Suc_le_mono less_imp_le)
  also have "\<dots> = map (\<lambda>bound. length (filter (\<lambda>l. l \<le> bound) ls)) ?B"
    by (rule nth_equalityI) simp_all
  finally show ?thesis using rows last_row by (simp add: bucket_snapshot_def r n)
qed

section \<open>The store as one map\<close>

definition shard_wf :: "Lib \<Rightarrow> nat \<Rightarrow> shard \<Rightarrow> bool" where
  "shard_wf lib i states =
     (distinct (map fst states) \<and>
      (\<forall>(key, state) \<in> set states. shard_index lib key = i \<and> state \<noteq> EndpointRuntimeState_default))"

definition tracked_entries :: "EndpointRuntimeStore \<Rightarrow> nat" where
  "tracked_entries store = sum_list (map length (er_shards store))"

definition store_inv :: "Lib \<Rightarrow> EndpointRuntimeStore \<Rightarrow> bool" where
  "store_inv lib store =
     (length (er_shards store) = ENDPOINT_RUNTIME_SHARD_COUNT
      \<and> (\<forall>i < ENDPOINT_RUNTIME_SHARD_COUNT. shard_wf lib i (er_shards store ! i))
      \<and> er_tracked_states store = of_nat (tracked_entries store))"

text \<open>The state an endpoint is in: the default one unless the store tracks another.\<close>

definition state_of :: "Lib \<Rightarrow> EndpointRuntimeStore \<Rightarrow> EndpointRuntimeKey \<Rightarrow> EndpointRuntimeState" where
  "state_of lib store key =
     (case get_cloned lib store key of None \<Rightarrow> EndpointRuntimeState_default | Some s \<Rightarrow> s)"

text \<open>
  What selection relies on: the store is a total map from endpoints to states, an update
  changes the state of one endpoint, and a store that reports no tracked states has every
  endpoint in the default state.
\<close>

locale endpoint_states =
  fixes inv :: "'st \<Rightarrow> bool"
    and state_at :: "'st \<Rightarrow> 'k \<Rightarrow> 's"
    and update_at :: "'st \<Rightarrow> 'k \<Rightarrow> ('s \<Rightarrow> 's \<times> u64 option) \<Rightarrow> 'st"
    and tracked :: "'st \<Rightarrow> bool"
    and dflt :: 's
    and entries :: "'st \<Rightarrow> nat"
  assumes inv_update: "inv st \<Longrightarrow> inv (update_at st k f)"
    and state_update: "inv st \<Longrightarrow> state_at (update_at st k f) = (state_at st)(k := fst (f (state_at st k)))"
    and untracked: "inv st \<Longrightarrow> entries st < 2 ^ 64 \<Longrightarrow> \<not> tracked st \<Longrightarrow> state_at st k = dflt"
begin

lemma inv_updates: "inv st \<Longrightarrow> inv (foldl (\<lambda>st (k, f). update_at st k f) st us)"
  by (induction us arbitrary: st) (auto simp: inv_update)

lemma state_updates:
  "inv st \<Longrightarrow> state_at (foldl (\<lambda>st (k, f). update_at st k f) st us) k =
     foldl (\<lambda>s (k', f). if k' = k then fst (f s) else s) (state_at st k) us"
  by (induction us arbitrary: st) (auto simp: inv_update state_update)

lemma state_all_updates:
  "inv st \<Longrightarrow> P (state_at st k) \<Longrightarrow> (\<And>s f. P s \<Longrightarrow> f \<in> snd ` set us \<Longrightarrow> P (fst (f s))) \<Longrightarrow>
   P (state_at (foldl (\<lambda>st (k, f). update_at st k f) st us) k)"
proof (induction us arbitrary: st)
  case Nil
  then show ?case by simp
next
  case (Cons u us)
  obtain k' f where u: "u = (k', f)" by (cases u)
  have "P (state_at (update_at st k' f) k)"
    using Cons.prems(1,2) Cons.prems(3) [of "state_at st k" f] u by (auto simp: state_update)
  then show ?case using Cons.IH [of "update_at st k' f"] Cons.prems u by (simp add: inv_update)
qed

lemma guard_is_redundant:
  "inv st \<Longrightarrow> entries st < 2 ^ 64 \<Longrightarrow> (tracked st \<and> P (state_at st k)) \<longleftrightarrow> P (state_at st k)"
  if "\<not> P dflt"
  using that untracked by metis

end

lemma shard_index_bound [simp]: "shard_index lib key < ENDPOINT_RUNTIME_SHARD_COUNT"
  by (simp add: shard_index_def ENDPOINT_RUNTIME_SHARD_COUNT_def)

lemma store_fields_observe [simp]:
  "er_shards (observe_recovered store r) = er_shards store"
  "er_tracked_states (observe_recovered store r) = er_tracked_states store"
  by (simp_all add: observe_recovered_def split: option.splits)

lemma tracked_entries_update:
  assumes "i < length (er_shards store)" and "er_shards store' = (er_shards store)[i := states]"
  shows "tracked_entries store' + length (er_shards store ! i) = tracked_entries store + length states"
proof -
  have "length (er_shards store ! i) \<le> tracked_entries store"
    unfolding tracked_entries_def using assms(1) by (intro member_le_sum_list) auto
  then show ?thesis
    using assms by (simp add: tracked_entries_def map_update sum_list_update)
qed

lemma store_inv_update:
  assumes "store_inv lib store" and "i < ENDPOINT_RUNTIME_SHARD_COUNT"
    and "er_shards store' = (er_shards store)[i := states]" and "shard_wf lib i states"
    and "er_tracked_states store' + of_nat (length (er_shards store ! i)) =
      er_tracked_states store + of_nat (length states)"
  shows "store_inv lib store'"
proof -
  have i: "i < length (er_shards store)" using assms(1,2) by (simp add: store_inv_def)
  have "(of_nat (tracked_entries store') :: u64) + of_nat (length (er_shards store ! i)) =
      of_nat (tracked_entries store) + of_nat (length states)"
    using arg_cong [OF tracked_entries_update [OF i assms(3)], of "of_nat :: nat \<Rightarrow> u64"] by simp
  then have "er_tracked_states store' = of_nat (tracked_entries store')"
    using assms(1,5) by (simp add: store_inv_def) (metis add_right_cancel)
  then show ?thesis
    using assms i by (auto simp: store_inv_def nth_list_update)
qed

lemma get_cloned_update:
  assumes "store_inv lib store" and "er_shards store' = (er_shards store)[shard_index lib key := states]"
    and "\<And>key'. key' \<noteq> key \<Longrightarrow> map_of states key' = map_of (er_shards store ! shard_index lib key) key'"
  shows "get_cloned lib store' = (get_cloned lib store)(key := map_of states key)"
proof
  fix key'
  have "shard_index lib key < length (er_shards store)" using assms(1) by (simp add: store_inv_def)
  with assms(2,3) show "get_cloned lib store' key' = ((get_cloned lib store)(key := map_of states key)) key'"
    by (cases "shard_index lib key' = shard_index lib key")
      (auto simp: get_cloned_def nth_list_update)
qed

lemma shard_wf_map_of:
  "shard_wf lib i states \<longleftrightarrow> distinct (map fst states) \<and>
     (\<forall>k s. map_of states k = Some s \<longrightarrow> shard_index lib k = i \<and> s \<noteq> EndpointRuntimeState_default)"
proof (cases "distinct (map fst states)")
  case True
  then show ?thesis by (auto simp: shard_wf_def map_of_eq_Some_iff [OF True] split: prod.splits)
qed (simp add: shard_wf_def)

lemma shard_wf_delete: "shard_wf lib i states \<Longrightarrow> shard_wf lib i (AList.delete key states)"
  by (auto simp: shard_wf_map_of AList.distinct_delete AList.delete_conv' split: if_splits)

lemma shard_wf_put:
  "shard_wf lib (shard_index lib key) states \<Longrightarrow> state \<noteq> EndpointRuntimeState_default \<Longrightarrow>
   shard_wf lib (shard_index lib key) (AList.update key state states)"
  by (auto simp: shard_wf_map_of AList.distinct_update AList.update_conv' split: if_splits)

lemma length_alist_update:
  "length (AList.update k v al) = (if map_of al k = None then Suc (length al) else length al)"
  by (induction al) auto

lemma length_alist_delete:
  "distinct (map fst al) \<Longrightarrow> length (AList.delete k al) + (if map_of al k = None then 0 else 1) = length al"
  by (induction al) auto

lemma store_inv_shard:
  "store_inv lib store \<Longrightarrow> shard_wf lib (shard_index lib key) (er_shards store ! shard_index lib key)"
  by (simp add: store_inv_def)

lemma state_of_cases:
  assumes "store_inv lib store"
  shows "get_cloned lib store key =
    (if state_of lib store key = EndpointRuntimeState_default then None else Some (state_of lib store key))"
proof -
  have "get_cloned lib store key \<noteq> Some EndpointRuntimeState_default"
    using store_inv_shard [OF assms, of key] unfolding shard_wf_map_of get_cloned_def by blast
  then show ?thesis by (cases "get_cloned lib store key") (auto simp: state_of_def)
qed

lemma inner_update_props:
  assumes inv: "store_inv lib store"
  shows "store_inv lib (inner_update lib store key f)"
    and "state_of lib (inner_update lib store key f) =
      (state_of lib store)(key := fst (f (state_of lib store key)))"
proof -
  let ?i = "shard_index lib key"
  let ?states = "er_shards store ! ?i"
  obtain s r where f: "f (state_of lib store key) = (s, r)" by (cases "f (state_of lib store key)")
  note wf = store_inv_shard [OF inv, of key]
  then have dist: "distinct (map fst ?states)" by (simp add: shard_wf_def)
  define states where "states = (if s = EndpointRuntimeState_default then AList.delete key ?states
    else AList.update key s ?states)"
  let ?st = "inner_update lib store key f"
  have len: "(of_nat (length ?states) :: u64) = of_nat (length (AList.delete key ?states)) +
      (if map_of ?states key = None then 0 else 1)"
    using arg_cong [OF length_alist_delete [OF dist, of key], of "of_nat :: nat \<Rightarrow> u64"]
    by (auto split: if_splits)
  have st: "er_shards ?st = (er_shards store)[?i := states]"
    "er_tracked_states ?st + of_nat (length ?states) = er_tracked_states store + of_nat (length states)"
    using f len
    by (auto simp: inner_update_def state_of_def get_cloned_def states_def Let_def
        AList.delete_update_same length_alist_update split: option.splits)
  have wf': "shard_wf lib ?i states"
    using wf by (auto simp: states_def intro: shard_wf_delete shard_wf_put)
  show "store_inv lib ?st" by (rule store_inv_update [OF inv shard_index_bound st(1) wf' st(2)])
  have "get_cloned lib ?st = (get_cloned lib store)(key := map_of states key)"
    by (rule get_cloned_update [OF inv st(1)]) (simp add: states_def AList.update_conv')
  moreover have "map_of states key = (if s = EndpointRuntimeState_default then None else Some s)"
    by (simp add: states_def AList.update_conv' AList.delete_conv')
  ultimately show "state_of lib ?st = (state_of lib store)(key := fst (f (state_of lib store key)))"
    by (intro ext) (simp add: f, simp add: state_of_def)
qed

lemma untracked_default:
  assumes "store_inv lib store" and "tracked_entries store < 2 ^ 64" and "\<not> has_tracked_states store"
  shows "state_of lib store key = EndpointRuntimeState_default"
proof -
  have "(of_nat (tracked_entries store) :: u64) = 0"
    using assms by (simp add: store_inv_def has_tracked_states_def)
  then have "unat (of_nat (tracked_entries store) :: u64) = 0" by simp
  then have "tracked_entries store = 0"
    using assms(2) by (simp add: unat_of_nat take_bit_nat_eq_self)
  moreover have "shard_index lib key < length (er_shards store)"
    using assms(1) by (simp add: store_inv_def)
  ultimately have "er_shards store ! shard_index lib key = []"
    by (simp add: tracked_entries_def)
  then show ?thesis by (simp add: state_of_def get_cloned_def)
qed

interpretation endpoint_store: endpoint_states "store_inv lib" "state_of lib" "inner_update lib"
    has_tracked_states EndpointRuntimeState_default tracked_entries
  for lib
  by unfold_locales (simp_all add: inner_update_props untracked_default)

text \<open>Recording a success puts the endpoint in the default state, with or without the shortcuts.\<close>

lemma inner_record_success_eq:
  assumes "store_inv lib store" and "tracked_entries store < 2 ^ 64"
    and "get_cloned lib store key \<noteq> None"
  shows "inner_record_success lib store key now =
    inner_update lib store key (\<lambda>state. state_record_success state now)"
proof -
  from assms(3) obtain s where s: "map_of (er_shards store ! shard_index lib key) key = Some s"
    by (auto simp: get_cloned_def)
  have "state_of lib store key \<noteq> EndpointRuntimeState_default"
    using state_of_cases [OF assms(1), of key] assms(3) by metis
  then have "er_tracked_states store \<noteq> 0"
    using untracked_default [OF assms(1,2)] by (auto simp: has_tracked_states_def)
  with s show ?thesis
    by (simp add: inner_record_success_def inner_update_def state_record_success_def Let_def)
qed

lemma inner_record_success_props:
  assumes "store_inv lib store" and "tracked_entries store < 2 ^ 64"
  shows "store_inv lib (inner_record_success lib store key now)"
    and "state_of lib (inner_record_success lib store key now) =
      (state_of lib store)(key := EndpointRuntimeState_default)"
proof -
  have "store_inv lib (inner_record_success lib store key now) \<and>
    state_of lib (inner_record_success lib store key now) =
      (state_of lib store)(key := EndpointRuntimeState_default)"
  proof (cases "get_cloned lib store key")
    case None
    then have "inner_record_success lib store key now = store"
      and "state_of lib store key = EndpointRuntimeState_default"
      by (simp_all add: inner_record_success_def get_cloned_def state_of_def)
    then show ?thesis using assms(1) by (simp add: fun_upd_idem)
  next
    case (Some s)
    then have "get_cloned lib store key \<noteq> None" by simp
    from inner_record_success_eq [OF assms this] show ?thesis
      using inner_update_props [OF assms(1)] by (simp add: state_record_success_def)
  qed
  then show "store_inv lib (inner_record_success lib store key now)"
    and "state_of lib (inner_record_success lib store key now) =
      (state_of lib store)(key := EndpointRuntimeState_default)" by simp_all
qed

section \<open>Rebuilding a store\<close>

lemma store_default_props:
  "store_inv lib (EndpointRuntimeStore_default\<lparr> er_recovery_latency := r \<rparr>)"
  "state_of lib (EndpointRuntimeStore_default\<lparr> er_recovery_latency := r \<rparr>) key = EndpointRuntimeState_default"
proof -
  show "store_inv lib (EndpointRuntimeStore_default\<lparr> er_recovery_latency := r \<rparr>)"
    by (simp add: store_inv_def EndpointRuntimeStore_default_def tracked_entries_def shard_wf_def
        sum_list_replicate)
  show "state_of lib (EndpointRuntimeStore_default\<lparr> er_recovery_latency := r \<rparr>) key = EndpointRuntimeState_default"
    by (simp add: state_of_def get_cloned_def EndpointRuntimeStore_default_def)
qed

lemma insert_state_eq:
  assumes "get_cloned lib store key = None" and "state \<noteq> EndpointRuntimeState_default"
  shows "insert_state lib store (key, state) = inner_update lib store key (\<lambda>_. (state, None))"
  using assms by (simp add: insert_state_def inner_update_def get_cloned_def observe_recovered_def Let_def)

lemma from_map_props:
  fixes lib states r
  assumes "distinct (map fst states)" and "EndpointRuntimeState_default \<notin> snd ` set states"
  defines "store \<equiv> from_map_and_recovery_stats lib states r"
  shows "store_inv lib store \<and> er_recovery_latency store = r \<and>
    (\<forall>key. state_of lib store key =
      (case map_of states key of None \<Rightarrow> EndpointRuntimeState_default | Some s \<Rightarrow> s))"
  unfolding store_def using assms(1,2)
proof (induction states rule: rev_induct)
  case Nil
  then show ?case
    using store_default_props by (simp add: from_map_and_recovery_stats_def)
next
  case (snoc p states)
  obtain k s where p: "p = (k, s)" by (cases p)
  let ?st = "from_map_and_recovery_stats lib states r"
  have IH: "store_inv lib ?st" "er_recovery_latency ?st = r"
    "\<And>key. state_of lib ?st key = (case map_of states key of None \<Rightarrow> EndpointRuntimeState_default | Some s \<Rightarrow> s)"
    using snoc by auto
  have k: "map_of states k = None" using snoc.prems(1) by (simp add: p map_of_eq_None_iff)
  have s: "s \<noteq> EndpointRuntimeState_default" using snoc.prems(2) by (auto simp: p)
  have "get_cloned lib ?st k = None" using state_of_cases [OF IH(1), of k] IH(3) [of k] k by simp
  then have ins: "from_map_and_recovery_stats lib (states @ [p]) r = inner_update lib ?st k (\<lambda>_. (s, None))"
    using insert_state_eq [OF _ s] by (simp add: from_map_and_recovery_stats_def p)
  have "er_recovery_latency (inner_update lib ?st k (\<lambda>_. (s, None))) = r"
    using IH(2) by (simp add: inner_update_def observe_recovered_def Let_def)
  moreover have "map_of (states @ [p]) key = (if key = k then Some s else map_of states key)" for key
    using k by (auto simp: p map_add_def split: option.splits)
  ultimately show ?case
    unfolding ins using inner_update_props [OF IH(1)] IH(3) by simp
qed

lemma foldl_update_map:
  "map_of (foldl (\<lambda>out (key, state). AList.update key state out) out ps) k =
     (case map_of (rev ps) k of None \<Rightarrow> map_of out k | Some s \<Rightarrow> Some s)"
  "distinct (map fst out) \<Longrightarrow>
     distinct (map fst (foldl (\<lambda>out (key, state). AList.update key state out) out ps))"
  by (induction ps arbitrary: out)
    (auto simp: AList.update_conv' AList.distinct_update map_add_def split: option.splits)

lemma map_of_rev_distinct: "distinct (map fst ps) \<Longrightarrow> map_of (rev ps) = map_of ps"
  by (intro ext) (metis (no_types, lifting) distinct_rev map_of_eq_Some_iff not_Some_eq rev_map set_rev)

lemma snapshot_map_props:
  assumes "store_inv lib store"
  shows "map_of (snapshot_map store) key = get_cloned lib store key"
    and "distinct (map fst (snapshot_map store))"
proof -
  let ?step = "\<lambda>out shard. foldl (\<lambda>out (key, state). AList.update key state out) out shard"
  have len: "length (er_shards store) = ENDPOINT_RUNTIME_SHARD_COUNT"
    and wf: "\<And>i. i < ENDPOINT_RUNTIME_SHARD_COUNT \<Longrightarrow> shard_wf lib i (er_shards store ! i)"
    using assms by (simp_all add: store_inv_def)
  have "n \<le> ENDPOINT_RUNTIME_SHARD_COUNT \<Longrightarrow>
      map_of (foldl ?step [] (take n (er_shards store))) key =
        (if shard_index lib key < n then map_of (er_shards store ! shard_index lib key) key else None)" for n
  proof (induction n)
    case (Suc n)
    have "shard_wf lib n (er_shards store ! n)" using wf Suc.prems by simp
    then have "map_of (rev (er_shards store ! n)) = map_of (er_shards store ! n)"
      and "shard_index lib key \<noteq> n \<Longrightarrow> map_of (er_shards store ! n) key = None"
      by (auto simp: shard_wf_map_of map_of_rev_distinct intro: ccontr)
    then show ?case
      using Suc len by (auto simp: take_Suc_conv_app_nth foldl_update_map less_Suc_eq split: option.splits)
  qed simp
  from this [OF order_refl] show "map_of (snapshot_map store) key = get_cloned lib store key"
    by (simp add: snapshot_map_def get_cloned_def len)
  have "distinct (map fst (foldl ?step out shs))" if "distinct (map fst out)" for out shs
    using that by (induction shs arbitrary: out) (simp_all add: foldl_update_map(2))
  then show "distinct (map fst (snapshot_map store))" unfolding snapshot_map_def by (metis distinct.simps(1) list.map(1))
qed

lemma store_clone_props:
  assumes "store_inv lib store"
  shows "store_inv lib (store_clone lib store)" and "state_of lib (store_clone lib store) = state_of lib store"
    and "er_recovery_latency (store_clone lib store) = er_recovery_latency store"
proof -
  note m = snapshot_map_props [OF assms]
  have "EndpointRuntimeState_default \<notin> snd ` set (snapshot_map store)"
  proof
    assume "EndpointRuntimeState_default \<in> snd ` set (snapshot_map store)"
    then obtain k where "map_of (snapshot_map store) k = Some EndpointRuntimeState_default"
      using m(2) by fastforce
    then show False using m(1) [of k] state_of_cases [OF assms, of k] by (simp split: if_splits)
  qed
  from from_map_props [OF m(2) this, of lib "er_recovery_latency store"]
  show "store_inv lib (store_clone lib store)" "state_of lib (store_clone lib store) = state_of lib store"
    "er_recovery_latency (store_clone lib store) = er_recovery_latency store"
    by (auto simp: store_clone_def m(1) state_of_def)
qed

definition backend_keys :: "BackendCluster list \<Rightarrow> EndpointRuntimeKey list" where
  "backend_keys backends =
     concat (map (\<lambda>cluster. map (EndpointRuntimeKey_new (bc_namespace cluster @ ''/'' @ bc_name cluster))
       (bc_endpoints cluster)) backends)"

text \<open>The nested loops of \<open>inherit_for_backends\<close> as one loop over the endpoints' keys.\<close>

definition inherit_key :: "Lib \<Rightarrow> EndpointRuntimeStore \<Rightarrow> shard \<Rightarrow> EndpointRuntimeKey \<Rightarrow> shard" where
  "inherit_key lib store nxt key =
     (case get_cloned lib store key of
        None \<Rightarrow> nxt
      | Some state \<Rightarrow> if is_default_state state then nxt else AList.update key state nxt)"

lemma inherit_loop:
  "foldl (\<lambda>nxt cluster.
       foldl (inherit_endpoint lib store (bc_namespace cluster @ ''/'' @ bc_name cluster)) nxt
         (bc_endpoints cluster)) nxt backends = foldl (inherit_key lib store) nxt (backend_keys backends)"
proof -
  have "foldl (inherit_endpoint lib store b) nxt eps =
      foldl (inherit_key lib store) nxt (map (EndpointRuntimeKey_new b) eps)" for b nxt eps
    by (induction eps arbitrary: nxt) (simp_all add: inherit_endpoint_def inherit_key_def Let_def)
  then show ?thesis by (induction backends arbitrary: nxt) (simp_all add: backend_keys_def)
qed

lemma inherit_key_props:
  assumes "store_inv lib store"
  shows "map_of (foldl (inherit_key lib store) nxt keys) k =
      (if k \<in> set keys \<and> get_cloned lib store k \<noteq> None then get_cloned lib store k else map_of nxt k)"
    and "distinct (map fst nxt) \<Longrightarrow> distinct (map fst (foldl (inherit_key lib store) nxt keys))"
proof -
  have "inherit_key lib store nxt key = (case get_cloned lib store key of None \<Rightarrow> nxt
      | Some state \<Rightarrow> AList.update key state nxt)" for nxt key
    using state_of_cases [OF assms, of key] by (auto simp: inherit_key_def split: option.splits if_splits)
  note step = this
  show "map_of (foldl (inherit_key lib store) nxt keys) k =
      (if k \<in> set keys \<and> get_cloned lib store k \<noteq> None then get_cloned lib store k else map_of nxt k)"
    by (induction keys arbitrary: nxt) (auto simp: step AList.update_conv' split: option.splits)
  show "distinct (map fst nxt) \<Longrightarrow> distinct (map fst (foldl (inherit_key lib store) nxt keys))"
    by (induction keys arbitrary: nxt) (auto simp: step AList.distinct_update split: option.splits)
qed

lemma inherit_for_backends_props:
  assumes "store_inv lib store"
  shows "store_inv lib (inherit_for_backends lib store backends)"
    and "state_of lib (inherit_for_backends lib store backends) key =
      (if key \<in> set (backend_keys backends) then state_of lib store key else EndpointRuntimeState_default)"
    and "er_recovery_latency (inherit_for_backends lib store backends) = er_recovery_latency store"
proof -
  let ?m = "foldl (inherit_key lib store) [] (backend_keys backends)"
  have dist: "distinct (map fst ?m)" by (rule inherit_key_props [OF assms]) simp
  have m: "map_of ?m k = (if k \<in> set (backend_keys backends) then get_cloned lib store k else None)" for k
    unfolding inherit_key_props [OF assms] by simp
  have "EndpointRuntimeState_default \<notin> snd ` set ?m"
  proof
    assume "EndpointRuntimeState_default \<in> snd ` set ?m"
    then obtain k where "map_of ?m k = Some EndpointRuntimeState_default" using dist by fastforce
    then show False using m [of k] state_of_cases [OF assms, of k] by (simp split: if_splits)
  qed
  from from_map_props [OF dist this, of lib "er_recovery_latency store"]
  show "store_inv lib (inherit_for_backends lib store backends)"
    "state_of lib (inherit_for_backends lib store backends) key =
      (if key \<in> set (backend_keys backends) then state_of lib store key else EndpointRuntimeState_default)"
    "er_recovery_latency (inherit_for_backends lib store backends) = er_recovery_latency store"
    unfolding inherit_for_backends_def inherit_loop by (auto simp: m state_of_def)
qed

section \<open>The metrics snapshot\<close>

lemma shard_count:
  assumes "shard_wf lib i states" and "\<not> Q EndpointRuntimeState_default"
  shows "length (filter Q (map snd states)) = card {k. \<exists>s. map_of states k = Some s \<and> Q s}"
proof -
  have dist: "distinct (map fst states)" using assms(1) by (simp add: shard_wf_def)
  have "{k. \<exists>s. map_of states k = Some s \<and> Q s} = fst ` set (filter (\<lambda>p. Q (snd p)) states)"
    using dist by (force simp: map_of_eq_Some_iff)
  moreover from distinct_card [OF distinct_map_filter [OF dist], of "\<lambda>p. Q (snd p)"]
  have "card (fst ` set (filter (\<lambda>p. Q (snd p)) states)) = length (filter (\<lambda>p. Q (snd p)) states)" by simp
  moreover have "length (filter Q (map snd states)) = length (filter (\<lambda>p. Q (snd p)) states)"
    by (simp add: filter_map comp_def)
  ultimately show ?thesis by simp
qed

lemma store_count:
  assumes inv: "store_inv lib store" and Q: "\<not> Q EndpointRuntimeState_default"
  shows "sum_list (map (\<lambda>states. length (filter Q (map snd states))) (er_shards store)) =
    card {k. Q (state_of lib store k)}"
proof -
  let ?S = "\<lambda>i. {k. \<exists>s. map_of (er_shards store ! i) k = Some s \<and> Q s}"
  have wf: "\<And>i. i < ENDPOINT_RUNTIME_SHARD_COUNT \<Longrightarrow> shard_wf lib i (er_shards store ! i)"
    and len: "length (er_shards store) = ENDPOINT_RUNTIME_SHARD_COUNT"
    using inv by (simp_all add: store_inv_def)
  have fin: "finite (?S i)" for i
    by (rule finite_subset [OF _ finite_dom_map_of]) (auto simp: dom_def)
  have idx: "shard_index lib k = i" if "k \<in> ?S i" "i < ENDPOINT_RUNTIME_SHARD_COUNT" for k i
    using that wf [OF that(2)] by (auto simp: shard_wf_map_of)
  have "{k. Q (state_of lib store k)} = (\<Union>i < ENDPOINT_RUNTIME_SHARD_COUNT. ?S i)"
  proof (intro set_eqI iffI)
    fix k assume "k \<in> {k. Q (state_of lib store k)}"
    then have "k \<in> ?S (shard_index lib k)"
      using Q by (auto simp: state_of_def get_cloned_def split: option.splits)
    then show "k \<in> (\<Union>i < ENDPOINT_RUNTIME_SHARD_COUNT. ?S i)" by auto
  next
    fix k assume "k \<in> (\<Union>i < ENDPOINT_RUNTIME_SHARD_COUNT. ?S i)"
    then obtain i where i: "i < ENDPOINT_RUNTIME_SHARD_COUNT" "k \<in> ?S i" by auto
    then have "k \<in> ?S (shard_index lib k)" using idx by simp
    then show "k \<in> {k. Q (state_of lib store k)}" by (auto simp: state_of_def get_cloned_def)
  qed
  moreover have "card (\<Union>i < ENDPOINT_RUNTIME_SHARD_COUNT. ?S i) = (\<Sum>i < ENDPOINT_RUNTIME_SHARD_COUNT. card (?S i))"
    using fin idx by (intro card_UN_disjoint) (auto, metis idx mem_Collect_eq)
  moreover have "(\<Sum>i < ENDPOINT_RUNTIME_SHARD_COUNT. card (?S i)) =
      (\<Sum>i < ENDPOINT_RUNTIME_SHARD_COUNT. length (filter Q (map snd (er_shards store ! i))))"
    using shard_count [of lib _ _ Q, OF wf Q] by simp
  ultimately show ?thesis by (simp add: sum_list_sum_nth len atLeast0LessThan)
qed

lemma runtime_snapshot_fold:
  "runtime_snapshot store now =
    \<lparr> rs_tracked_endpoints = tracked_entries store,
      rs_passive_ejected_current =
        sum_list (map (\<lambda>states. length (filter (\<lambda>s. is_ejected_at s now) (map snd states))) (er_shards store)),
      rs_active_unhealthy_current =
        sum_list (map (\<lambda>states. length (filter is_active_unhealthy (map snd states))) (er_shards store)),
      rs_recovery_latency_ms_buckets = bucket_snapshot (er_recovery_latency store),
      rs_recovery_latency_ms_sum = rl_sum (er_recovery_latency store),
      rs_recovery_latency_ms_count = rl_count (er_recovery_latency store) \<rparr>"
proof -
  have "foldl (\<lambda>(t, e, u) states. (t + length states,
        e + length (filter (\<lambda>s. is_ejected_at s now) (map snd states)),
        u + length (filter is_active_unhealthy (map snd states)))) (t0, e0, u0) shs =
      (t0 + sum_list (map length shs),
       e0 + sum_list (map (\<lambda>states. length (filter (\<lambda>s. is_ejected_at s now) (map snd states))) shs),
       u0 + sum_list (map (\<lambda>states. length (filter is_active_unhealthy (map snd states))) shs))"
    for t0 e0 u0 and shs :: "shard list"
    by (induction shs arbitrary: t0 e0 u0) auto
  from this [of 0 0 0 "er_shards store"] show ?thesis
    unfolding runtime_snapshot_def tracked_entries_def by (simp add: Let_def)
qed

lemma tracked_entries_card:
  assumes "store_inv lib store"
  shows "tracked_entries store = card {k. state_of lib store k \<noteq> EndpointRuntimeState_default}"
proof -
  have "filter (\<lambda>s. s \<noteq> EndpointRuntimeState_default) (map snd states) = map snd states"
    if "states \<in> set (er_shards store)" for states
  proof -
    from that assms obtain i where "shard_wf lib i states"
      by (auto simp: store_inv_def in_set_conv_nth)
    then show ?thesis by (auto simp: filter_id_conv shard_wf_def)
  qed
  then have "map (\<lambda>states. length (filter (\<lambda>s. s \<noteq> EndpointRuntimeState_default) (map snd states))) (er_shards store)
      = map length (er_shards store)" by (intro map_cong) simp_all
  with store_count [OF assms, of "\<lambda>s. s \<noteq> EndpointRuntimeState_default"] show ?thesis
    unfolding tracked_entries_def by (simp only: simp_thms)
qed

end
