(* ===== verification/Load_Balancing.thy ===== *)
theory Load_Balancing
  imports IR_Types
begin

unbundle bit_operations_syntax

text \<open>
  Weighted choice and hashing: the free functions of
  \<open>crates/ntgw-ir/src/snapshot/backend_resolution/mod.rs\<close>, the rendezvous hashes and the hash key
  of \<open>snapshot/helpers.rs\<close>, and the ticket counters \<open>SelectionState\<close> of \<open>lib.rs\<close>. Floating point
  scores are real numbers here. The lemmas show that the stride is coprime to the total weight,
  and that over one period of tickets every target occurs once, so that every backend gets exactly
  its weight.
\<close>

section \<open>Tickets and the clock\<close>

record SelectionState =
  ss_backend_cursor :: u64
  ss_endpoint_cursor :: u64
  ss_mirror_cursor :: u64

text \<open>
  The selection state is shared by every snapshot, like the clock; both are the world that a
  selection runs in. The \<open>n\<close>-th call of \<open>Instant::now()\<close> returns \<open>w_clock n\<close>.
\<close>

record World =
  w_selection :: SelectionState
  w_clock :: "nat \<Rightarrow> Instant"
  w_reads :: nat

definition instant_now :: "World \<Rightarrow> Instant \<times> World" where
  "instant_now w = (w_clock w (w_reads w), w\<lparr> w_reads := Suc (w_reads w) \<rparr>)"

definition next_backend_ticket :: "World \<Rightarrow> u64 \<times> World" where
  "next_backend_ticket w =
     (ss_backend_cursor (w_selection w),
      w\<lparr> w_selection := (w_selection w)\<lparr> ss_backend_cursor := ss_backend_cursor (w_selection w) + 1 \<rparr> \<rparr>)"

definition next_endpoint_ticket :: "World \<Rightarrow> u64 \<times> World" where
  "next_endpoint_ticket w =
     (ss_endpoint_cursor (w_selection w),
      w\<lparr> w_selection := (w_selection w)\<lparr> ss_endpoint_cursor := ss_endpoint_cursor (w_selection w) + 1 \<rparr> \<rparr>)"

definition next_mirror_ticket :: "World \<Rightarrow> u64 \<times> World" where
  "next_mirror_ticket w =
     (ss_mirror_cursor (w_selection w),
      w\<lparr> w_selection := (w_selection w)\<lparr> ss_mirror_cursor := ss_mirror_cursor (w_selection w) + 1 \<rparr> \<rparr>)"

section \<open>Weighted spread\<close>

function gcd_loop :: "u64 \<Rightarrow> u64 \<Rightarrow> u64" where
  "gcd_loop left right = (if right = 0 then left else gcd_loop right (left mod right))"
  by pat_completeness auto
termination
proof (relation "measure (\<lambda>(l, r). unat r)")
  fix l r :: u64 assume "r \<noteq> 0"
  then have "unat l mod unat r < unat r" by (simp add: unat_gt_0)
  then show "((r, l mod r), l, r) \<in> measure (\<lambda>(l, r). unat r)" by (simp add: unat_mod_distrib)
qed simp

declare gcd_loop.simps [simp del]

definition spread_weighted_stride :: "u64 \<Rightarrow> u64" where
  "spread_weighted_stride total_weight =
     (if total_weight \<le> 1 then 1
      else
        let ideal = of_nat ((unat total_weight * 618033988749895 + 1000000000000000 div 2)
                      div 1000000000000000) :: u64;
            ideal = min (max ideal 1) (total_weight - 1)
        in case find_map (\<lambda>n. let delta = of_nat n in
                 case checked_sub ideal delta of
                   Some candidate \<Rightarrow>
                     if candidate > 0 \<and> gcd_loop candidate total_weight = 1 then Some candidate
                     else (case checked_add ideal delta of
                             Some candidate \<Rightarrow>
                               if candidate < total_weight \<and> gcd_loop candidate total_weight = 1
                               then Some candidate else None
                           | None \<Rightarrow> None)
                 | None \<Rightarrow>
                     (case checked_add ideal delta of
                        Some candidate \<Rightarrow>
                          if candidate < total_weight \<and> gcd_loop candidate total_weight = 1
                          then Some candidate else None
                      | None \<Rightarrow> None))
               [0..<unat total_weight] of
             Some candidate \<Rightarrow> candidate
           | None \<Rightarrow> 1)"

definition spread_weighted_target :: "u64 \<Rightarrow> u64 \<Rightarrow> u64" where
  "spread_weighted_target ticket total_weight =
     (if total_weight \<le> 1 then 0
      else (ticket * spread_weighted_stride total_weight) mod total_weight)"

section \<open>Candidates\<close>

definition BACKEND_REF_META_VALID :: string where
  "BACKEND_REF_META_VALID = ''nantian.dev/backend-ref-valid''"

definition backend_ref_is_routable :: "BackendRef \<Rightarrow> bool" where
  "backend_ref_is_routable backend_ref =
     (if map_of (br_metadata backend_ref) BACKEND_REF_META_VALID = Some ''false'' then False
      else (br_group backend_ref, br_kind backend_ref) \<in>
        {([], []), ([], ''Service''), (''multicluster.x-k8s.io'', ''ServiceImport'')})"

record BackendCandidateVisit =
  cv_candidate_count :: nat
  cv_total_weight :: u64
  cv_saw_invalid_refs :: bool
  cv_saw_unhealthy_backend :: bool
  cv_effective_load_balancing :: "LoadBalancingPolicy option"
  cv_load_balancing_mismatch :: bool

definition BackendCandidateVisit_default :: BackendCandidateVisit where
  "BackendCandidateVisit_default =
     \<lparr> cv_candidate_count = 0, cv_total_weight = 0, cv_saw_invalid_refs = False,
       cv_saw_unhealthy_backend = False, cv_effective_load_balancing = None,
       cv_load_balancing_mismatch = False \<rparr>"

definition observe_candidate ::
    "BackendCandidateVisit \<Rightarrow> BackendRef \<Rightarrow> LoadBalancingPolicy option \<Rightarrow> BackendCandidateVisit" where
  "observe_candidate visit backend_ref load_balancing =
     (let visit = visit\<lparr> cv_candidate_count := cv_candidate_count visit + 1,
                         cv_total_weight := cv_total_weight visit + ucast (br_weight backend_ref) \<rparr>
      in if cv_load_balancing_mismatch visit then visit
         else case load_balancing of
           None \<Rightarrow> visit\<lparr> cv_effective_load_balancing := None, cv_load_balancing_mismatch := True \<rparr>
         | Some load_balancing \<Rightarrow>
             (case cv_effective_load_balancing visit of
                Some current \<Rightarrow>
                  if current \<noteq> load_balancing
                  then visit\<lparr> cv_effective_load_balancing := None, cv_load_balancing_mismatch := True \<rparr>
                  else visit
              | None \<Rightarrow> visit\<lparr> cv_effective_load_balancing := Some load_balancing \<rparr>))"

definition visit_error :: "BackendCandidateVisit \<Rightarrow> BackendSelectionError option" where
  "visit_error visit =
     (if cv_saw_unhealthy_backend visit then Some NoHealthyBackends
      else if cv_saw_invalid_refs visit then Some InvalidBackendRefs
      else None)"

section \<open>Mirroring\<close>

definition should_mirror :: "RequestMirrorFilter \<Rightarrow> World \<Rightarrow> bool \<times> World" where
  "should_mirror mirror w =
     (case (case rm_fraction mirror of
              Some fraction \<Rightarrow> (fr_numerator fraction, max (fr_denominator fraction) 1)
            | None \<Rightarrow> (case rm_percent mirror of Some p \<Rightarrow> p | None \<Rightarrow> 100, 100)) of
        (numerator, denominator) \<Rightarrow>
          if numerator = 0 then (False, w)
          else if numerator \<ge> denominator then (True, w)
          else case next_mirror_ticket w of (ticket, w) \<Rightarrow>
            (ticket mod ucast denominator < ucast numerator, w))"

section \<open>Hash keys\<close>

definition request_header_value :: "RequestMeta \<Rightarrow> string \<Rightarrow> string option" where
  "request_header_value request header_name =
     (if header_name = [] then None
      else case Option.bind (map_of (rq_headers request) header_name) (\<lambda>values. nth_opt values 0) of
             Some v \<Rightarrow> Some v
           | None \<Rightarrow>
               Option.bind (find (\<lambda>(name, _). eq_ignore_ascii_case name header_name) (rq_headers request))
                 (\<lambda>(_, values). nth_opt values 0))"

definition consistent_hash_key :: "LoadBalancingPolicy \<Rightarrow> RequestMeta \<Rightarrow> string option" where
  "consistent_hash_key policy request =
     (case lb_consistent_hash policy of
        None \<Rightarrow> None
      | Some hash \<Rightarrow>
          if ch_key_type hash = ''SourceIP'' then rq_source_ip request
          else if ch_key_type hash = ''Header'' then request_header_value request (ch_header_name hash)
          else if ch_key_type hash = ''Hostname'' then rq_host request
          else None)"

definition RENDEZVOUS_HASH_OFFSET_BASIS :: u64 where
  "RENDEZVOUS_HASH_OFFSET_BASIS = 0xcbf29ce484222325"

definition RENDEZVOUS_HASH_PRIME :: u64 where
  "RENDEZVOUS_HASH_PRIME = 0x100000001b3"

definition hash_rendezvous_part :: "u64 \<Rightarrow> string \<Rightarrow> u64" where
  "hash_rendezvous_part hash bytes =
     (let hash = foldl (\<lambda>hash byte. (hash XOR of_char byte) * RENDEZVOUS_HASH_PRIME) hash bytes
      in (hash XOR 0) * RENDEZVOUS_HASH_PRIME)"

function u32_digits :: "u32 \<Rightarrow> string \<Rightarrow> string" where
  "u32_digits value digits =
     (let digits = digit_char (unat (value mod 10)) # digits; value = value div 10
      in if value = 0 then digits else u32_digits value digits)"
  by pat_completeness auto
termination
proof (relation "measure (\<lambda>(v, _). unat v)")
  fix v v' :: u32 and ds ds'
  assume "v' = v div 10" "v' \<noteq> 0"
  moreover from this(2) have "0 < unat v'" by (simp add: unat_gt_0)
  ultimately have "0 < unat v div 10" and "unat v' = unat v div 10" by (simp_all add: unat_div)
  then show "((v', ds'), v, ds) \<in> measure (\<lambda>(v, _). unat v)" by simp
qed simp

declare u32_digits.simps [simp del]

definition hash_rendezvous_u32_part :: "u64 \<Rightarrow> u32 \<Rightarrow> u64" where
  "hash_rendezvous_u32_part hash value = hash_rendezvous_part hash (u32_digits value [])"

definition rendezvous_hash :: "string list \<Rightarrow> u64" where
  "rendezvous_hash parts = foldl hash_rendezvous_part RENDEZVOUS_HASH_OFFSET_BASIS parts"

definition rendezvous_hash_endpoint :: "string \<Rightarrow> string \<Rightarrow> BackendEndpoint \<Rightarrow> u64" where
  "rendezvous_hash_endpoint hash_key backend_name endpoint =
     (let hash = RENDEZVOUS_HASH_OFFSET_BASIS;
          hash = hash_rendezvous_part hash hash_key;
          hash = hash_rendezvous_part hash backend_name;
          hash = hash_rendezvous_part hash (ep_address endpoint)
      in hash_rendezvous_u32_part hash (ep_port endpoint))"

definition hash_unit_interval :: "string list \<Rightarrow> real" where
  "hash_unit_interval parts =
     (real (unat (rendezvous_hash parts)) + 1) / (real (unat (- 1 :: u64)) + 2)"

definition weighted_rendezvous_score :: "string \<Rightarrow> string \<Rightarrow> real \<Rightarrow> real" where
  "weighted_rendezvous_score hash_key backend_name weight =
     (let unit = hash_unit_interval [hash_key, backend_name] in weight / (- ln unit))"

section \<open>The stride\<close>

lemma gcd_loop_gcd: "unat (gcd_loop l r) = gcd (unat l) (unat r)"
proof (induction l r rule: gcd_loop.induct)
  case (1 l r)
  show ?case
  proof (cases "r = 0")
    case True
    then show ?thesis by (subst gcd_loop.simps) simp
  next
    case False
    then have "unat (gcd_loop l r) = gcd (unat r) (unat l mod unat r)"
      using 1 [OF False] by (subst gcd_loop.simps) (simp add: unat_mod_distrib)
    then show ?thesis by (metis gcd_red_nat)
  qed
qed

lemma gcd_loop_1: "gcd_loop l r = 1 \<longleftrightarrow> coprime (unat l) (unat r)"
  by (simp add: coprime_iff_gcd_eq_1 gcd_loop_gcd [symmetric] word_unat_eq_iff)

lemma find_map_Some_in: "find_map f xs = Some y \<Longrightarrow> \<exists>x \<in> set xs. f x = Some y"
  by (induction xs) (auto split: option.splits)

lemma find_map_not_None: "x \<in> set xs \<Longrightarrow> f x \<noteq> None \<Longrightarrow> find_map f xs \<noteq> None"
  by (induction xs) (auto split: option.splits)

lemma stride_props:
  assumes "1 < tot"
  shows "0 < spread_weighted_stride tot" and "spread_weighted_stride tot < tot"
    and "coprime (unat (spread_weighted_stride tot)) (unat tot)"
proof -
  define ideal :: u64 where "ideal = min (max (of_nat ((unat tot * 618033988749895 + 1000000000000000 div 2)
      div 1000000000000000)) 1) (tot - 1)"
  define f where "f = (\<lambda>n. let delta = of_nat n :: u64 in
    case checked_sub ideal delta of
      Some candidate \<Rightarrow>
        if candidate > 0 \<and> gcd_loop candidate tot = 1 then Some candidate
        else (case checked_add ideal delta of
                Some candidate \<Rightarrow>
                  if candidate < tot \<and> gcd_loop candidate tot = 1 then Some candidate else None
              | None \<Rightarrow> None)
    | None \<Rightarrow>
        (case checked_add ideal delta of
           Some candidate \<Rightarrow>
             if candidate < tot \<and> gcd_loop candidate tot = 1 then Some candidate else None
         | None \<Rightarrow> None))"
  have t: "1 < unat tot" using assms by (simp add: word_less_nat_alt)
  have ut: "unat (tot - 1) = unat tot - 1"
    using t by (simp add: unat_sub word_le_nat_alt)
  have ideal: "1 \<le> unat ideal" "unat ideal < unat tot"
    using t ut by (auto simp: ideal_def min_def max_def word_le_nat_alt)
  have good: "0 < c \<and> c < tot \<and> coprime (unat c) (unat tot)" if F: "f n = Some c" for n c
  proof -
    consider "checked_sub ideal (of_nat n) = Some c" "0 < c" "gcd_loop c tot = 1"
      | "checked_add ideal (of_nat n) = Some c" "c < tot" "gcd_loop c tot = 1"
      using F by (auto simp: f_def Let_def split: option.splits if_splits)
    then show ?thesis
    proof cases
      case 1
      then have "c = ideal - of_nat n" "of_nat n \<le> ideal" by (auto simp: checked_sub_def split: if_splits)
      then have "unat c \<le> unat ideal" by (simp add: unat_sub)
      with 1 ideal show ?thesis by (simp add: gcd_loop_1 word_less_nat_alt)
    next
      case 2
      then have "unat c = unat ideal + unat (of_nat n :: u64)" by (simp add: unat_add_no_overflow)
      with 2 ideal show ?thesis by (simp add: gcd_loop_1 word_less_nat_alt)
    qed
  qed
  have "f (unat ideal - 1) = Some 1"
  proof -
    have "(of_nat (unat ideal - 1) :: u64) = ideal - 1"
      using ideal(1) by (simp add: of_nat_diff)
    moreover have "ideal - 1 \<le> ideal" using ideal(1) by (simp add: word_le_nat_alt unat_sub)
    ultimately show ?thesis
      by (simp add: f_def checked_sub_def gcd_loop_1)
  qed
  then have "find_map f [0..<unat tot] \<noteq> None"
    using ideal by (intro find_map_not_None [of "unat ideal - 1"]) auto
  then obtain c where c: "find_map f [0..<unat tot] = Some c" by blast
  have "spread_weighted_stride tot = (case find_map f [0..<unat tot] of Some c \<Rightarrow> c | None \<Rightarrow> 1)"
    unfolding spread_weighted_stride_def f_def ideal_def Let_def
    by (subst if_not_P) (use assms in \<open>auto simp: not_le\<close>)
  then have "spread_weighted_stride tot = c" by (simp add: c)
  with good find_map_Some_in [OF c] show "0 < spread_weighted_stride tot"
    "spread_weighted_stride tot < tot" "coprime (unat (spread_weighted_stride tot)) (unat tot)"
    by auto
qed

lemma spread_target_bound: "0 < tot \<Longrightarrow> spread_weighted_target ticket tot < tot"
proof -
  assume "0 < tot"
  then have "0 < unat tot" by (simp add: word_less_nat_alt)
  then show ?thesis by (auto simp: spread_weighted_target_def word_less_nat_alt unat_mod_distrib)
qed

text \<open>Without a wrap-around of the product the targets of one period are a permutation.\<close>

lemma spread_target_unat:
  assumes "1 < tot" and "k < unat tot" and "(unat t0 + unat tot) * unat tot \<le> 2 ^ 64"
  shows "unat (spread_weighted_target (t0 + of_nat k) tot) =
    ((unat t0 + k) * unat (spread_weighted_stride tot)) mod unat tot"
proof -
  let ?s = "spread_weighted_stride tot"
  have W: "1 < unat tot" "unat ?s < unat tot"
    using assms(1) stride_props(2) [OF assms(1)] by (simp_all add: word_less_nat_alt)
  have "(unat t0 + k) * unat ?s \<le> (unat t0 + k) * unat tot" using W by simp
  also have "\<dots> < (unat t0 + unat tot) * unat tot" using assms(2) W by simp
  finally have prod: "(unat t0 + k) * unat ?s < 2 ^ 64" using assms(3) by linarith
  have "unat t0 + k < (unat t0 + unat tot) * 1" using assms(2) by simp
  also have "\<dots> \<le> (unat t0 + unat tot) * unat tot" using W by (intro mult_le_mono) simp_all
  finally have "unat t0 + k < 2 ^ 64" using assms(3) by linarith
  moreover from this have "unat (of_nat k :: u64) = k" by (simp add: unat_of_nat take_bit_nat_eq_self)
  ultimately have t: "unat (t0 + of_nat k) = unat t0 + k" by (simp add: unat_add_no_overflow)
  then have "unat ((t0 + of_nat k) * ?s) = (unat t0 + k) * unat ?s"
    using prod by (simp add: unat_mult_no_overflow)
  then show ?thesis
    using assms(1) by (simp add: spread_weighted_target_def unat_mod_distrib not_le [symmetric])
qed

lemma mult_mod_cancel:
  fixes W s :: nat
  assumes "coprime s W" and "k \<le> k'" and "k' < W" and "((t + k) * s) mod W = ((t + k') * s) mod W"
  shows "k = k'"
proof -
  have "W dvd (t + k') * s - (t + k) * s"
    using assms(2,4) mod_eq_dvd_iff_nat [of "(t + k) * s" "(t + k') * s" W] by simp
  also have "(t + k') * s - (t + k) * s = (k' - k) * s" by (simp add: diff_mult_distrib [symmetric])
  finally have "W dvd k' - k" using assms(1) by (simp add: coprime_commute coprime_dvd_mult_left_iff)
  then show ?thesis using assms(2,3) by (auto dest: dvd_imp_le)
qed

lemma spread_target_permutation:
  assumes "0 < tot" and "(unat t0 + unat tot) * unat tot \<le> 2 ^ 64"
  shows "bij_betw (\<lambda>k. unat (spread_weighted_target (t0 + of_nat k) tot)) {0..<unat tot} {0..<unat tot}"
proof (cases "1 < tot")
  case True
  let ?f = "\<lambda>k. unat (spread_weighted_target (t0 + of_nat k) tot)"
  have f: "?f k = ((unat t0 + k) * unat (spread_weighted_stride tot)) mod unat tot" if "k < unat tot" for k
    by (rule spread_target_unat [OF True that assms(2)])
  have le: "k = k'" if "k \<le> k'" "k' < unat tot" "?f k = ?f k'" for k k'
    using that f mult_mod_cancel [OF stride_props(3) [OF True] that(1,2)] by simp
  have inj: "inj_on ?f {0..<unat tot}"
  proof (rule inj_onI)
    fix k k' assume "k \<in> {0..<unat tot}" "k' \<in> {0..<unat tot}" "?f k = ?f k'"
    then show "k = k'" using le [of k k'] le [of k' k] by (cases "k \<le> k'") auto
  qed
  moreover have "?f ` {0..<unat tot} \<subseteq> {0..<unat tot}"
    using spread_target_bound [OF assms(1)] by (auto simp: word_less_nat_alt)
  ultimately show ?thesis by (simp add: bij_betw_def endo_inj_surj)
next
  case False
  then have "tot = 1" using assms(1) by (simp add: word_less_nat_alt word_unat_eq_iff)
  then show ?thesis by (simp add: spread_weighted_target_def bij_betw_def)
qed

section \<open>Weighted picks\<close>

text \<open>The candidate whose weight interval contains the target.\<close>

fun weighted_pick :: "nat list \<Rightarrow> nat \<Rightarrow> nat option" where
  "weighted_pick [] target = None"
| "weighted_pick (w # ws) target =
     (if target < w then Some 0 else map_option Suc (weighted_pick ws (target - w)))"

lemma weighted_pick_exists: "target < sum_list ws \<Longrightarrow> \<exists>i < length ws. weighted_pick ws target = Some i"
proof (induction ws arbitrary: target)
  case Nil
  then show ?case by simp
next
  case (Cons w ws)
  show ?case
  proof (cases "target < w")
    case False
    then have "target - w < sum_list ws" using Cons.prems by simp
    from Cons.IH [OF this] False show ?thesis by auto
  qed simp
qed

lemma weighted_pick_positive: "weighted_pick ws target = Some i \<Longrightarrow> i < length ws \<and> 0 < ws ! i"
  by (induction ws arbitrary: target i) (auto split: if_splits)

lemma weighted_pick_card:
  "i < length ws \<Longrightarrow> card {t. t < sum_list ws \<and> weighted_pick ws t = Some i} = ws ! i"
proof (induction ws arbitrary: i)
  case Nil
  then show ?case by simp
next
  case (Cons w ws)
  show ?case
  proof (cases i)
    case 0
    then have "{t. t < sum_list (w # ws) \<and> weighted_pick (w # ws) t = Some i} = {0..<w}"
      by (auto split: if_splits)
    then show ?thesis using 0 by simp
  next
    case (Suc j)
    let ?A = "{t. t < sum_list ws \<and> weighted_pick ws t = Some j}"
    have "{t. t < sum_list (w # ws) \<and> weighted_pick (w # ws) t = Some i} = (\<lambda>t. t + w) ` ?A"
    proof (intro set_eqI iffI)
      fix t assume "t \<in> {t. t < sum_list (w # ws) \<and> weighted_pick (w # ws) t = Some i}"
      then have "w \<le> t" "t - w \<in> ?A" using Suc by (auto split: if_splits)
      then show "t \<in> (\<lambda>t. t + w) ` ?A" by (intro image_eqI [of _ _ "t - w"]) simp_all
    qed (use Suc in auto)
    moreover have "inj_on (\<lambda>t. t + w) ?A" by (simp add: inj_on_def)
    ultimately show ?thesis using Cons.IH [of j] Cons.prems Suc by (simp add: card_image)
  qed
qed

text \<open>Over one period of tickets candidate \<open>i\<close> is picked exactly as often as its weight says.\<close>

lemma weighted_fair:
  assumes "0 < tot" and "unat tot = sum_list ws" and "i < length ws"
    and "(unat t0 + unat tot) * unat tot \<le> 2 ^ 64"
  shows "card {k. k < unat tot \<and>
    weighted_pick ws (unat (spread_weighted_target (t0 + of_nat k) tot)) = Some i} = ws ! i"
proof -
  let ?f = "\<lambda>k. unat (spread_weighted_target (t0 + of_nat k) tot)"
  have bij: "bij_betw ?f {0..<unat tot} {0..<unat tot}"
    by (rule spread_target_permutation [OF assms(1,4)])
  let ?K = "{k. k < unat tot \<and> weighted_pick ws (?f k) = Some i}"
  have "?f ` ?K = {t. t < sum_list ws \<and> weighted_pick ws t = Some i}"
  proof (intro set_eqI iffI)
    fix t assume "t \<in> ?f ` ?K"
    then show "t \<in> {t. t < sum_list ws \<and> weighted_pick ws t = Some i}"
      using spread_target_bound [OF assms(1)] assms(2) by (auto simp: word_less_nat_alt)
  next
    fix t assume t: "t \<in> {t. t < sum_list ws \<and> weighted_pick ws t = Some i}"
    then have "t \<in> ?f ` {0..<unat tot}" using bij_betw_imp_surj_on [OF bij] assms(2) by simp
    with t show "t \<in> ?f ` ?K" by auto
  qed
  moreover have "inj_on ?f ?K"
    using bij_betw_imp_inj_on [OF bij] by (rule inj_on_subset) auto
  ultimately have "card ?K = card {t. t < sum_list ws \<and> weighted_pick ws t = Some i}"
    using card_image by fastforce
  then show ?thesis using weighted_pick_card [OF assms(3)] by simp
qed

section \<open>Decimal digits\<close>

lemma u32_digits_show: "u32_digits v ds = show_u32 v @ ds"
proof (induction v ds rule: u32_digits.induct)
  case (1 v ds)
  have u: "unat (v div 10) = unat v div 10" "unat (v mod 10) = unat v mod 10"
    by (simp_all add: unat_div unat_mod_distrib)
  show ?case
  proof (cases "v div 10 = 0")
    case True
    then have "unat v < 10" using u(1) by (metis div_eq_0_iff unat_0 zero_neq_numeral)
    then show ?thesis using True u by (subst u32_digits.simps, simp add: show_u32_def, subst show_nat.simps) simp
  next
    case False
    then have "\<not> unat v < 10" using u(1) by (metis div_less unat_eq_zero)
    then have "show_u32 v = show_u32 (v div 10) @ [digit_char (unat v mod 10)]"
      by (simp add: show_u32_def u(1), subst show_nat.simps) simp
    then show ?thesis using 1 [OF refl refl False] False u by (subst u32_digits.simps) simp
  qed
qed

end
