(* ===== verification/Runtime_Id.thy ===== *)
theory Runtime_Id
  imports Endpoint_Runtime
begin

unbundle bit_operations_syntax

text \<open>
  Runtime identifiers, \<open>crates/ntgw-ir/src/runtime_id.rs\<close>: stable hashes that name listeners,
  routes, rules, backends and endpoints, their textual form, and the index of a snapshot. The
  index is built from the lists of the snapshot it is given. The lemmas show that the textual
  form parses back, that an identifier never is zero, and that the index knows exactly the
  resources it was built from and never resolves an identifier to a resource with another one.
\<close>

section \<open>Identifiers\<close>

datatype RuntimeId = RuntimeId (as_u64: u64)

definition parse_hex :: "string \<Rightarrow> RuntimeId option" where
  "parse_hex value =
     (let value = trim value in
      if length value \<noteq> 16 \<or> \<not> list_all is_ascii_hexdigit value then None
      else let parsed = of_nat (hex_value 0 value) :: u64 in
           if parsed \<noteq> 0 then Some (RuntimeId parsed) else None)"

definition show_runtime_id :: "RuntimeId \<Rightarrow> string" where
  "show_runtime_id i = show_hex 16 (unat (as_u64 i))"

definition FNV_OFFSET_BASIS :: u64 where
  "FNV_OFFSET_BASIS = 0xcbf29ce484222325"

definition FNV_PRIME :: u64 where
  "FNV_PRIME = 0x100000001b3"

definition write_bytes :: "u64 \<Rightarrow> u64 list \<Rightarrow> u64" where
  "write_bytes hash bytes = foldl (\<lambda>hash byte. (hash XOR byte) * FNV_PRIME) hash bytes"

definition to_le_bytes :: "u64 \<Rightarrow> u64 list" where
  "to_le_bytes v = map (\<lambda>i. of_nat (unat v div 256 ^ i mod 256)) [0..<8]"

definition stable_runtime_id :: "string list \<Rightarrow> RuntimeId" where
  "stable_runtime_id parts =
     (let hash = foldl (\<lambda>hash part.
            let hash = write_bytes hash (to_le_bytes (of_nat (length part)))
            in write_bytes hash (map of_char part)) FNV_OFFSET_BASIS parts
      in RuntimeId (max hash 1))"

section \<open>The index\<close>

datatype RuntimeResourceRef =
    RefListener string
  | RefHttpRoute string string
  | RefGrpcRoute string string
  | RefStreamRoute string string string
  | RefHttpRule string string nat
  | RefGrpcRule string string nat
  | RefStreamRule string string string nat
  | RefBackend string
  | RefEndpoint string string u32

record SelectedBackendRuntimeIds =
  ri_listener :: "RuntimeId option"
  ri_route :: "RuntimeId option"
  ri_rule :: "RuntimeId option"
  ri_backend :: "RuntimeId option"
  ri_endpoint :: "RuntimeId option"

definition SelectedBackendRuntimeIds_default :: SelectedBackendRuntimeIds where
  "SelectedBackendRuntimeIds_default =
     \<lparr> ri_listener = None, ri_route = None, ri_rule = None, ri_backend = None, ri_endpoint = None \<rparr>"

record RuntimeIdIndex =
  rx_listeners :: "string \<rightharpoonup> RuntimeId"
  rx_http_routes :: "string \<rightharpoonup> RuntimeId"
  rx_grpc_routes :: "string \<rightharpoonup> RuntimeId"
  rx_stream_routes :: "string \<rightharpoonup> RuntimeId"
  rx_http_rules :: "string \<rightharpoonup> RuntimeId"
  rx_grpc_rules :: "string \<rightharpoonup> RuntimeId"
  rx_stream_rules :: "string \<rightharpoonup> RuntimeId"
  rx_backends :: "string \<rightharpoonup> RuntimeId"
  rx_endpoints :: "EndpointRuntimeKey \<rightharpoonup> RuntimeId"
  rx_resource_refs :: "RuntimeId \<rightharpoonup> RuntimeResourceRef"

definition RuntimeIdIndex_default :: RuntimeIdIndex where
  "RuntimeIdIndex_default =
     \<lparr> rx_listeners = Map.empty, rx_http_routes = Map.empty, rx_grpc_routes = Map.empty,
       rx_stream_routes = Map.empty, rx_http_rules = Map.empty, rx_grpc_rules = Map.empty,
       rx_stream_rules = Map.empty, rx_backends = Map.empty, rx_endpoints = Map.empty,
       rx_resource_refs = Map.empty \<rparr>"

definition namespaced_key :: "string \<Rightarrow> string \<Rightarrow> string" where
  "namespaced_key namespace name = namespace @ ''/'' @ name"

definition canonical_stream_route_kind :: "string \<Rightarrow> string" where
  "canonical_stream_route_kind kind =
     (if kind \<in> {''ROUTE_KIND_TCP'', ''TCP'', ''TCPRoute''} then ''TCPRoute''
      else if kind \<in> {''ROUTE_KIND_UDP'', ''UDP'', ''UDPRoute''} then ''UDPRoute''
      else if kind \<in> {''ROUTE_KIND_TLS'', ''TLS'', ''TLSRoute''} then ''TLSRoute''
      else kind)"

definition stream_route_key :: "string \<Rightarrow> string \<Rightarrow> string \<Rightarrow> string" where
  "stream_route_key kind namespace name =
     canonical_stream_route_kind kind @ ''/'' @ namespace @ ''/'' @ name"

definition rule_key :: "string \<Rightarrow> nat \<Rightarrow> string" where
  "rule_key route_key rule_index = route_key @ ''#rule-'' @ show_nat rule_index"

definition rid_listener :: "RuntimeIdIndex \<Rightarrow> string \<Rightarrow> RuntimeId option" where
  "rid_listener idx listener_name = rx_listeners idx listener_name"

definition rid_http_route :: "RuntimeIdIndex \<Rightarrow> string \<Rightarrow> string \<Rightarrow> RuntimeId option" where
  "rid_http_route idx namespace name = rx_http_routes idx (namespaced_key namespace name)"

definition rid_grpc_route :: "RuntimeIdIndex \<Rightarrow> string \<Rightarrow> string \<Rightarrow> RuntimeId option" where
  "rid_grpc_route idx namespace name = rx_grpc_routes idx (namespaced_key namespace name)"

definition rid_stream_route :: "RuntimeIdIndex \<Rightarrow> string \<Rightarrow> string \<Rightarrow> string \<Rightarrow> RuntimeId option" where
  "rid_stream_route idx kind namespace name =
     rx_stream_routes idx (stream_route_key kind namespace name)"

definition rid_http_rule :: "RuntimeIdIndex \<Rightarrow> string \<Rightarrow> string \<Rightarrow> nat \<Rightarrow> RuntimeId option" where
  "rid_http_rule idx namespace name rule_index =
     rx_http_rules idx (rule_key (namespaced_key namespace name) rule_index)"

definition rid_grpc_rule :: "RuntimeIdIndex \<Rightarrow> string \<Rightarrow> string \<Rightarrow> nat \<Rightarrow> RuntimeId option" where
  "rid_grpc_rule idx namespace name rule_index =
     rx_grpc_rules idx (rule_key (namespaced_key namespace name) rule_index)"

definition rid_stream_rule ::
    "RuntimeIdIndex \<Rightarrow> string \<Rightarrow> string \<Rightarrow> string \<Rightarrow> nat \<Rightarrow> RuntimeId option" where
  "rid_stream_rule idx kind namespace name rule_index =
     rx_stream_rules idx (rule_key (stream_route_key kind namespace name) rule_index)"

definition rid_backend :: "RuntimeIdIndex \<Rightarrow> string \<Rightarrow> RuntimeId option" where
  "rid_backend idx backend_name = rx_backends idx backend_name"

definition rid_endpoint :: "RuntimeIdIndex \<Rightarrow> string \<Rightarrow> BackendEndpoint \<Rightarrow> RuntimeId option" where
  "rid_endpoint idx backend_name endpoint =
     rx_endpoints idx (EndpointRuntimeKey_new backend_name endpoint)"

definition resource_ref :: "RuntimeIdIndex \<Rightarrow> RuntimeId \<Rightarrow> RuntimeResourceRef option" where
  "resource_ref idx runtime_id = rx_resource_refs idx runtime_id"

section \<open>Construction\<close>

text \<open>An identifier that is taken keeps its first resource.\<close>

definition insert_resource_ref ::
    "RuntimeIdIndex \<Rightarrow> RuntimeId \<Rightarrow> RuntimeResourceRef \<Rightarrow> RuntimeIdIndex" where
  "insert_resource_ref idx runtime_id r =
     (case rx_resource_refs idx runtime_id of
        None \<Rightarrow> idx\<lparr> rx_resource_refs := (rx_resource_refs idx)(runtime_id \<mapsto> r) \<rparr>
      | Some _ \<Rightarrow> idx)"

definition index_listener :: "RuntimeIdIndex \<Rightarrow> Listener \<Rightarrow> RuntimeIdIndex" where
  "index_listener idx listener =
     (let runtime_id = stable_runtime_id [''listener'', ls_name listener];
          idx = idx\<lparr> rx_listeners := (rx_listeners idx)(ls_name listener \<mapsto> runtime_id) \<rparr>
      in insert_resource_ref idx runtime_id (RefListener (ls_name listener)))"

definition index_http_rule :: "string \<Rightarrow> string \<Rightarrow> RuntimeIdIndex \<Rightarrow> nat \<Rightarrow> RuntimeIdIndex" where
  "index_http_rule namespace name idx rule_index =
     (let runtime_id = stable_runtime_id [''http-rule'', namespace, name, show_nat rule_index];
          idx = idx\<lparr> rx_http_rules := (rx_http_rules idx)
                  (rule_key (namespaced_key namespace name) rule_index \<mapsto> runtime_id) \<rparr>
      in insert_resource_ref idx runtime_id (RefHttpRule namespace name rule_index))"

definition index_http_route :: "RuntimeIdIndex \<Rightarrow> HttpRoute \<Rightarrow> RuntimeIdIndex" where
  "index_http_route idx route =
     (let namespace = hroute_namespace route; name = hroute_name route;
          runtime_id = stable_runtime_id [''http-route'', namespace, name];
          idx = idx\<lparr> rx_http_routes := (rx_http_routes idx)(namespaced_key namespace name \<mapsto> runtime_id) \<rparr>;
          idx = insert_resource_ref idx runtime_id (RefHttpRoute namespace name)
      in foldl (index_http_rule namespace name) idx [0..<length (hroute_rules route)])"

definition index_grpc_rule :: "string \<Rightarrow> string \<Rightarrow> RuntimeIdIndex \<Rightarrow> nat \<Rightarrow> RuntimeIdIndex" where
  "index_grpc_rule namespace name idx rule_index =
     (let runtime_id = stable_runtime_id [''grpc-rule'', namespace, name, show_nat rule_index];
          idx = idx\<lparr> rx_grpc_rules := (rx_grpc_rules idx)
                  (rule_key (namespaced_key namespace name) rule_index \<mapsto> runtime_id) \<rparr>
      in insert_resource_ref idx runtime_id (RefGrpcRule namespace name rule_index))"

definition index_grpc_route :: "RuntimeIdIndex \<Rightarrow> GrpcRoute \<Rightarrow> RuntimeIdIndex" where
  "index_grpc_route idx route =
     (let namespace = groute_namespace route; name = groute_name route;
          runtime_id = stable_runtime_id [''grpc-route'', namespace, name];
          idx = idx\<lparr> rx_grpc_routes := (rx_grpc_routes idx)(namespaced_key namespace name \<mapsto> runtime_id) \<rparr>;
          idx = insert_resource_ref idx runtime_id (RefGrpcRoute namespace name)
      in foldl (index_grpc_rule namespace name) idx [0..<length (groute_rules route)])"

definition index_stream_rule ::
    "string \<Rightarrow> string \<Rightarrow> string \<Rightarrow> RuntimeIdIndex \<Rightarrow> nat \<Rightarrow> RuntimeIdIndex" where
  "index_stream_rule kind namespace name idx rule_index =
     (let runtime_id = stable_runtime_id [''stream-rule'', kind, namespace, name, show_nat rule_index];
          idx = idx\<lparr> rx_stream_rules := (rx_stream_rules idx)
                  (rule_key (stream_route_key kind namespace name) rule_index \<mapsto> runtime_id) \<rparr>
      in insert_resource_ref idx runtime_id
           (RefStreamRule (canonical_stream_route_kind kind) namespace name rule_index))"

definition index_stream_route :: "RuntimeIdIndex \<Rightarrow> StreamRoute \<Rightarrow> RuntimeIdIndex" where
  "index_stream_route idx route =
     (let kind = sroute_kind route; namespace = sroute_namespace route; name = sroute_name route;
          runtime_id = stable_runtime_id [''stream-route'', kind, namespace, name];
          idx = idx\<lparr> rx_stream_routes := (rx_stream_routes idx)
                  (stream_route_key kind namespace name \<mapsto> runtime_id) \<rparr>;
          idx = insert_resource_ref idx runtime_id
                  (RefStreamRoute (canonical_stream_route_kind kind) namespace name)
      in foldl (index_stream_rule kind namespace name) idx [0..<length (sroute_rules route)])"

definition index_endpoint :: "string \<Rightarrow> RuntimeIdIndex \<Rightarrow> BackendEndpoint \<Rightarrow> RuntimeIdIndex" where
  "index_endpoint backend_name idx endpoint =
     (let runtime_id = stable_runtime_id
            [''endpoint'', backend_name, ep_address endpoint, show_u32 (ep_port endpoint)];
          idx = idx\<lparr> rx_endpoints := (rx_endpoints idx)
                  (EndpointRuntimeKey_new backend_name endpoint \<mapsto> runtime_id) \<rparr>
      in insert_resource_ref idx runtime_id
           (RefEndpoint backend_name (ep_address endpoint) (ep_port endpoint)))"

definition index_backend :: "RuntimeIdIndex \<Rightarrow> BackendCluster \<Rightarrow> RuntimeIdIndex" where
  "index_backend idx backend =
     (let backend_name = namespaced_key (bc_namespace backend) (bc_name backend);
          runtime_id = stable_runtime_id [''backend'', backend_name];
          idx = idx\<lparr> rx_backends := (rx_backends idx)(backend_name \<mapsto> runtime_id) \<rparr>;
          idx = insert_resource_ref idx runtime_id (RefBackend backend_name)
      in foldl (index_endpoint backend_name) idx (bc_endpoints backend))"

definition runtime_ids_from ::
    "Listener list \<Rightarrow> HttpRoute list \<Rightarrow> GrpcRoute list \<Rightarrow> StreamRoute list \<Rightarrow> BackendCluster list \<Rightarrow>
     RuntimeIdIndex" where
  "runtime_ids_from listeners http_routes grpc_routes stream_routes backends =
     (let idx = foldl index_listener RuntimeIdIndex_default listeners;
          idx = foldl index_http_route idx http_routes;
          idx = foldl index_grpc_route idx grpc_routes;
          idx = foldl index_stream_route idx stream_routes
      in foldl index_backend idx backends)"

fun runtime_id_key :: "RouteKind \<Rightarrow> string" where
  "runtime_id_key Http = ''http-route''"
| "runtime_id_key Grpc = ''grpc-route''"
| "runtime_id_key Tcp = ''TCPRoute''"
| "runtime_id_key Udp = ''UDPRoute''"
| "runtime_id_key Tls = ''TLSRoute''"

definition route_kind_runtime_id :: "RuntimeIdIndex \<Rightarrow> SelectedBackend \<Rightarrow> RuntimeId option" where
  "route_kind_runtime_id idx selected =
     (case sb_route_kind selected of
        Http \<Rightarrow> rid_http_route idx (sb_route_namespace selected) (sb_route_name selected)
      | Grpc \<Rightarrow> rid_grpc_route idx (sb_route_namespace selected) (sb_route_name selected)
      | kind \<Rightarrow> rid_stream_route idx (runtime_id_key kind) (sb_route_namespace selected) (sb_route_name selected))"

definition rule_kind_runtime_id :: "RuntimeIdIndex \<Rightarrow> SelectedBackend \<Rightarrow> RuntimeId option" where
  "rule_kind_runtime_id idx selected =
     (case sb_rule_index selected of
        None \<Rightarrow> None
      | Some rule_index \<Rightarrow>
          (case sb_route_kind selected of
             Http \<Rightarrow> rid_http_rule idx (sb_route_namespace selected) (sb_route_name selected) rule_index
           | Grpc \<Rightarrow> rid_grpc_rule idx (sb_route_namespace selected) (sb_route_name selected) rule_index
           | kind \<Rightarrow> rid_stream_rule idx (runtime_id_key kind) (sb_route_namespace selected)
                      (sb_route_name selected) rule_index))"

definition rid_selected_backend :: "RuntimeIdIndex \<Rightarrow> SelectedBackend \<Rightarrow> SelectedBackendRuntimeIds" where
  "rid_selected_backend idx selected =
     \<lparr> ri_listener = rid_listener idx (sb_listener_name selected),
       ri_route = route_kind_runtime_id idx selected,
       ri_rule = rule_kind_runtime_id idx selected,
       ri_backend = rid_backend idx (sb_backend_name selected),
       ri_endpoint = rid_endpoint idx (sb_backend_name selected) (sb_backend selected) \<rparr>"

section \<open>Facts\<close>

lemma stable_runtime_id_nonzero: "as_u64 (stable_runtime_id parts) \<noteq> 0"
proof -
  have "max h (1 :: u64) \<noteq> 0" for h by (auto simp: max_def)
  then show ?thesis by (simp add: stable_runtime_id_def Let_def)
qed

lemma parse_show_hex: "as_u64 i \<noteq> 0 \<Longrightarrow> parse_hex (show_runtime_id i) = Some i"
proof -
  assume nz: "as_u64 i \<noteq> 0"
  have "unat (as_u64 i) < 2 ^ LENGTH(64)" by (rule unsigned_less)
  then have "unat (as_u64 i) mod 16 ^ 16 = unat (as_u64 i)" by simp
  then have "(of_nat (hex_value 0 (show_hex 16 (unat (as_u64 i)))) :: u64) = as_u64 i"
    by (simp only: hex_value_show) simp
  with nz show ?thesis
    by (simp add: parse_hex_def show_runtime_id_def trim_graphic show_hex_props Let_def)
qed

text \<open>The resource an identifier stands for has that identifier.\<close>

fun ref_has_id :: "RuntimeResourceRef \<Rightarrow> RuntimeId \<Rightarrow> bool" where
  "ref_has_id (RefListener n) i = (i = stable_runtime_id [''listener'', n])"
| "ref_has_id (RefHttpRoute ns n) i = (i = stable_runtime_id [''http-route'', ns, n])"
| "ref_has_id (RefGrpcRoute ns n) i = (i = stable_runtime_id [''grpc-route'', ns, n])"
| "ref_has_id (RefStreamRoute k ns n) i =
     (\<exists>kind. canonical_stream_route_kind kind = k \<and> i = stable_runtime_id [''stream-route'', kind, ns, n])"
| "ref_has_id (RefHttpRule ns n r) i = (i = stable_runtime_id [''http-rule'', ns, n, show_nat r])"
| "ref_has_id (RefGrpcRule ns n r) i = (i = stable_runtime_id [''grpc-rule'', ns, n, show_nat r])"
| "ref_has_id (RefStreamRule k ns n r) i =
     (\<exists>kind. canonical_stream_route_kind kind = k
        \<and> i = stable_runtime_id [''stream-rule'', kind, ns, n, show_nat r])"
| "ref_has_id (RefBackend b) i = (i = stable_runtime_id [''backend'', b])"
| "ref_has_id (RefEndpoint b a p) i = (i = stable_runtime_id [''endpoint'', b, a, show_u32 p])"

definition refs_sound :: "RuntimeIdIndex \<Rightarrow> bool" where
  "refs_sound idx = (\<forall>i r. rx_resource_refs idx i = Some r \<longrightarrow> ref_has_id r i)"

lemma refs_sound_insert:
  "refs_sound idx \<Longrightarrow> ref_has_id r i \<Longrightarrow> refs_sound (insert_resource_ref idx i r)"
  by (auto simp: refs_sound_def insert_resource_ref_def split: option.splits)

lemma refs_sound_frame [simp]:
  "refs_sound (idx\<lparr> rx_listeners := m \<rparr>) = refs_sound idx"
  "refs_sound (idx\<lparr> rx_http_routes := m \<rparr>) = refs_sound idx"
  "refs_sound (idx\<lparr> rx_grpc_routes := m \<rparr>) = refs_sound idx"
  "refs_sound (idx\<lparr> rx_stream_routes := m \<rparr>) = refs_sound idx"
  "refs_sound (idx\<lparr> rx_http_rules := m \<rparr>) = refs_sound idx"
  "refs_sound (idx\<lparr> rx_grpc_rules := m \<rparr>) = refs_sound idx"
  "refs_sound (idx\<lparr> rx_stream_rules := m \<rparr>) = refs_sound idx"
  "refs_sound (idx\<lparr> rx_backends := m \<rparr>) = refs_sound idx"
  "refs_sound (idx\<lparr> rx_endpoints := e \<rparr>) = refs_sound idx"
  by (simp_all add: refs_sound_def)

lemma foldl_invariant: "P a \<Longrightarrow> (\<And>a x. P a \<Longrightarrow> P (f a x)) \<Longrightarrow> P (foldl f a xs)"
  by (induction xs arbitrary: a) auto

lemmas index_step_defs = index_listener_def index_http_rule_def index_http_route_def
  index_grpc_rule_def index_grpc_route_def index_stream_rule_def index_stream_route_def
  index_endpoint_def index_backend_def

lemma refs_sound_steps:
  "refs_sound idx \<Longrightarrow> refs_sound (index_listener idx l)"
  "refs_sound idx \<Longrightarrow> refs_sound (index_http_rule ns n idx r)"
  "refs_sound idx \<Longrightarrow> refs_sound (index_grpc_rule ns n idx r)"
  "refs_sound idx \<Longrightarrow> refs_sound (index_stream_rule k ns n idx r)"
  "refs_sound idx \<Longrightarrow> refs_sound (index_endpoint b idx e)"
  by (auto simp: index_step_defs Let_def intro!: refs_sound_insert)

lemma refs_sound_nested:
  "refs_sound idx \<Longrightarrow> refs_sound (index_http_route idx h)"
  "refs_sound idx \<Longrightarrow> refs_sound (index_grpc_route idx g)"
  "refs_sound idx \<Longrightarrow> refs_sound (index_stream_route idx s)"
  "refs_sound idx \<Longrightarrow> refs_sound (index_backend idx b)"
  unfolding index_http_route_def index_grpc_route_def index_stream_route_def index_backend_def Let_def
  by (rule foldl_invariant [of refs_sound];
      force intro!: refs_sound_insert refs_sound_steps)+

lemma refs_sound_from: "refs_sound (runtime_ids_from ls hs gs ss bs)"
proof -
  have "refs_sound RuntimeIdIndex_default" by (simp add: refs_sound_def RuntimeIdIndex_default_def)
  then show ?thesis
    unfolding runtime_ids_from_def Let_def
    by (intro foldl_invariant [of refs_sound] refs_sound_steps refs_sound_nested)
qed

lemma foldl_frame: "(\<And>a x. g (f a x) = g a) \<Longrightarrow> g (foldl f a xs) = g a"
  by (induction xs arbitrary: a) auto

lemma insert_ref_frame [simp]:
  "rx_listeners (insert_resource_ref idx i r) = rx_listeners idx"
  "rx_backends (insert_resource_ref idx i r) = rx_backends idx"
  "rx_endpoints (insert_resource_ref idx i r) = rx_endpoints idx"
  by (simp_all add: insert_resource_ref_def split: option.splits)

lemma route_frames:
  "rx_listeners (index_http_route idx h) = rx_listeners idx"
  "rx_listeners (index_grpc_route idx g) = rx_listeners idx"
  "rx_listeners (index_stream_route idx s) = rx_listeners idx"
  "rx_listeners (index_backend idx b) = rx_listeners idx"
  "rx_backends (index_listener idx l) = rx_backends idx"
  "rx_backends (index_http_route idx h) = rx_backends idx"
  "rx_backends (index_grpc_route idx g) = rx_backends idx"
  "rx_backends (index_stream_route idx s) = rx_backends idx"
  "rx_endpoints (index_listener idx l) = rx_endpoints idx"
  "rx_endpoints (index_http_route idx h) = rx_endpoints idx"
  "rx_endpoints (index_grpc_route idx g) = rx_endpoints idx"
  "rx_endpoints (index_stream_route idx s) = rx_endpoints idx"
  unfolding index_step_defs Let_def
  by (simp_all add: foldl_frame [of rx_listeners] foldl_frame [of rx_backends] foldl_frame [of rx_endpoints])

lemma index_backend_backends:
  "rx_backends (index_backend idx b) = (rx_backends idx)
     (namespaced_key (bc_namespace b) (bc_name b) \<mapsto>
        stable_runtime_id [''backend'', namespaced_key (bc_namespace b) (bc_name b)])"
  unfolding index_backend_def index_endpoint_def Let_def by (simp add: foldl_frame [of rx_backends])

lemma foldl_map_upd:
  "(\<And>idx x. g (f idx x) = (g idx)(key x \<mapsto> val (key x))) \<Longrightarrow>
   g (foldl f idx xs) k = (if k \<in> key ` set xs then Some (val k) else g idx k)"
  by (induction xs arbitrary: idx) auto

lemma rid_listener_from:
  "rid_listener (runtime_ids_from ls hs gs ss bs) n =
     (if n \<in> ls_name ` set ls then Some (stable_runtime_id [''listener'', n]) else None)"
proof -
  have "rx_listeners (index_listener idx l) = (rx_listeners idx)
      (ls_name l \<mapsto> stable_runtime_id [''listener'', ls_name l])" for idx l
    by (simp add: index_listener_def Let_def)
  note step = foldl_map_upd [of rx_listeners index_listener ls_name "\<lambda>n. stable_runtime_id [''listener'', n]", OF this]
  show ?thesis
    by (simp add: rid_listener_def runtime_ids_from_def Let_def foldl_frame [of rx_listeners] route_frames
        step RuntimeIdIndex_default_def)
qed

lemma rid_backend_from:
  "rid_backend (runtime_ids_from ls hs gs ss bs) b =
     (if b \<in> (\<lambda>c. namespaced_key (bc_namespace c) (bc_name c)) ` set bs
      then Some (stable_runtime_id [''backend'', b]) else None)"
proof -
  note step = foldl_map_upd [of rx_backends index_backend "\<lambda>c. namespaced_key (bc_namespace c) (bc_name c)"
      "\<lambda>n. stable_runtime_id [''backend'', n]", OF index_backend_backends]
  show ?thesis
    by (simp add: rid_backend_def runtime_ids_from_def Let_def foldl_frame [of rx_backends] route_frames
        step RuntimeIdIndex_default_def)
qed

definition endpoint_id :: "EndpointRuntimeKey \<Rightarrow> RuntimeId" where
  "endpoint_id key = stable_runtime_id [''endpoint'', ek_backend_name key, ek_address key, show_u32 (ek_port key)]"

lemma index_backend_endpoints:
  "rx_endpoints (index_backend idx b) k =
     (if k \<in> set (backend_keys [b]) then Some (endpoint_id k) else rx_endpoints idx k)"
proof -
  have "rx_endpoints (index_endpoint n idx e) = (rx_endpoints idx)
      (EndpointRuntimeKey_new n e \<mapsto> endpoint_id (EndpointRuntimeKey_new n e))" for n idx e
    by (simp add: index_endpoint_def Let_def endpoint_id_def EndpointRuntimeKey_new_def)
  note step = foldl_map_upd [of rx_endpoints "index_endpoint n" "EndpointRuntimeKey_new n" endpoint_id for n, OF this]
  show ?thesis
    unfolding index_backend_def Let_def step by (simp add: backend_keys_def namespaced_key_def)
qed

lemma rid_endpoint_from:
  "rid_endpoint (runtime_ids_from ls hs gs ss bs) b e =
     (if EndpointRuntimeKey_new b e \<in> set (backend_keys bs)
      then Some (endpoint_id (EndpointRuntimeKey_new b e)) else None)"
proof -
  have "rx_endpoints (foldl index_backend idx bs) k =
      (if k \<in> set (backend_keys bs) then Some (endpoint_id k) else rx_endpoints idx k)" for idx k
    by (induction bs arbitrary: idx) (auto simp: index_backend_endpoints backend_keys_def)
  then show ?thesis
    by (simp add: rid_endpoint_def runtime_ids_from_def Let_def foldl_frame [of rx_endpoints] route_frames
        RuntimeIdIndex_default_def)
qed

end
