(* ===== verification/Snapshot_State.thy ===== *)
theory Snapshot_State
  imports Hostname_Index Service_Index Endpoint_Runtime Load_Balancing Runtime_Id
begin

text \<open>
  The snapshot of \<open>crates/ntgw-ir/src/types.rs\<close>, the compiled plans it carries, and the lookups of
  \<open>snapshot.rs\<close>, \<open>snapshot/helpers.rs\<close> and \<open>mesh.rs\<close> that go through its indexes or, when those
  have not been built, scan its lists. The shared ticket counters of the field
  \<open>selection_state\<close> are part of the world a selection runs in. The lemmas characterise the
  listener indexes by the listeners they were built from.
\<close>

section \<open>Compiled plans\<close>

record CompiledHttpFastEndpoint =
  cfe_endpoint :: BackendEndpoint
  cfe_runtime_id :: "RuntimeId option"

record CompiledHttpFastBackendRef =
  cfb_backend_index :: nat
  cfb_backend_name :: string
  cfb_weight :: u32
  cfb_backend_runtime_id :: "RuntimeId option"
  cfb_endpoints :: "CompiledHttpFastEndpoint list"

record CompiledHttpFastBackendSelection =
  cfs_endpoint :: BackendEndpoint
  cfs_backend_name :: string
  cfs_backend_runtime_id :: "RuntimeId option"
  cfs_endpoint_runtime_id :: "RuntimeId option"

record CompiledHttpFastMatch =
  cfm_path :: string
  cfm_path_type :: string
  cfm_method :: string
  cfm_compiled_path_regex :: "Regex option"
  cfm_matched_http_path :: MatchedHttpPath
  cfm_score :: FastHttpRuleScore

record CompiledHttpFastRule =
  cfu_rule_index :: nat
  cfu_matches :: "CompiledHttpFastMatch list"
  cfu_default_matched_http_path :: MatchedHttpPath
  cfu_runtime_ids :: SelectedBackendRuntimeIds
  cfu_backend_refs :: "CompiledHttpFastBackendRef list"

record CompiledHttpFastRoute =
  cfo_route_index :: nat
  cfo_route_name :: string
  cfo_route_namespace :: string
  cfo_route_annotations :: "string btree"
  cfo_eligible_rules :: "CompiledHttpFastRule list"

record CompiledHttpFastListener =
  cfl_name :: string
  cfl_protocol :: string
  cfl_runtime_id :: "RuntimeId option"
  cfl_has_backend_tls :: bool

record HttpFastPathPlan =
  hfp_listeners :: "CompiledHttpFastListener list"
  hfp_routes :: "CompiledHttpFastRoute list"
  hfp_route_plan_indices :: "nat option list"
  hfp_selection_safe :: bool

record CompiledStreamFastRule =
  csu_rule_index :: nat
  csu_backend_refs :: "CompiledHttpFastBackendRef list"

record CompiledStreamFastRoute =
  cso_rules :: "CompiledStreamFastRule list"

record StreamFastPathPlan =
  sfp_routes :: "CompiledStreamFastRoute option list"
  sfp_route_count :: nat
  sfp_eligible_rule_count :: nat
  sfp_compiled_backend_ref_count :: nat

section \<open>The snapshot\<close>

record Snapshot =
  sn_id :: string
  sn_listeners :: "Listener list"
  sn_http_routes :: "HttpRoute list"
  sn_grpc_routes :: "GrpcRoute list"
  sn_stream_routes :: "StreamRoute list"
  sn_backends :: "BackendCluster list"
  sn_backend_policies :: "BackendPolicy btree"
  sn_secrets :: "SecretMaterial list"
  sn_workloads :: "Workload list"
  sn_endpoint_runtime :: EndpointRuntimeStore
  sn_runtime_ids :: RuntimeIdIndex
  sn_backend_names :: "string list"
  sn_backend_index :: "string \<rightharpoonup> nat"
  sn_backend_service_index :: BackendServiceIndex
  sn_secret_index :: "string \<rightharpoonup> nat"
  sn_workload_namespace_index :: "string \<rightharpoonup> string"
  sn_runtime_indexes_ready :: bool
  sn_listener_name_index :: "string \<rightharpoonup> nat"
  sn_http_listener_indices :: "nat list"
  sn_grpc_listener_indices :: "nat list"
  sn_http_listener_port_index :: "u32 \<rightharpoonup> nat list"
  sn_grpc_listener_port_index :: "u32 \<rightharpoonup> nat list"
  sn_frontend_client_certificate_index :: "string \<rightharpoonup> FrontendClientCertificateRequirement"
  sn_service_frontend_index :: "string \<rightharpoonup> ServiceFrontendRef"
  sn_service_frontend_listener_port_index :: "u32 \<rightharpoonup> nat list"
  sn_service_frontend_attachment_index :: "string \<rightharpoonup> string set"
  sn_route_attachment_listener_index :: RouteAttachmentListenerIndex
  sn_http_route_hostname_index :: HostnameRouteIndex
  sn_grpc_route_hostname_index :: HostnameRouteIndex
  sn_stream_listener_route_index :: "string \<rightharpoonup> nat list"
  sn_request_materialization :: RequestMaterializationHints
  sn_http_fast_path :: HttpFastPathPlan
  sn_stream_fast_path :: StreamFastPathPlan

text \<open>Collecting an iterator of pairs into a \<open>HashMap\<close>: of equal keys the last one counts.\<close>

definition hash_collect :: "('k \<times> 'v) list \<Rightarrow> ('k \<rightharpoonup> 'v)" where
  "hash_collect kvs = map_of (rev kvs)"

section \<open>Mesh frontends\<close>

definition service_frontend :: "Listener \<Rightarrow> ServiceFrontendRef option" where
  "service_frontend listener =
     (let metadata = map_of (ls_metadata listener) in
      if metadata ''nantian.dev/frontend-kind'' \<noteq> Some ''Service'' then None
      else case metadata ''nantian.dev/frontend-namespace'' of None \<Rightarrow> None | Some namespace \<Rightarrow>
           case metadata ''nantian.dev/frontend-name'' of None \<Rightarrow> None | Some name \<Rightarrow>
           case metadata ''nantian.dev/frontend-port'' of None \<Rightarrow> None | Some port \<Rightarrow>
           case parse_u32 port of None \<Rightarrow> None | Some port \<Rightarrow>
             Some \<lparr> sf_namespace = namespace, sf_name = name, sf_port = port \<rparr>)"

definition is_service_parent :: "ParentRef \<Rightarrow> bool" where
  "is_service_parent parent_ref = (pr_group parent_ref = [] \<and> pr_kind parent_ref = ''Service'')"

definition service_frontend_for_listener :: "Snapshot \<Rightarrow> Listener \<Rightarrow> ServiceFrontendRef option" where
  "service_frontend_for_listener snapshot listener =
     (if sn_runtime_indexes_ready snapshot then sn_service_frontend_index snapshot (ls_name listener)
      else service_frontend listener)"

fun accepting_parent_loop :: "ServiceFrontendRef \<Rightarrow> string \<Rightarrow> ParentRef list \<Rightarrow> bool option" where
  "accepting_parent_loop frontend route_namespace [] = None"
| "accepting_parent_loop frontend route_namespace (parent_ref # rest) =
     (if \<not> is_service_parent parent_ref then accepting_parent_loop frontend route_namespace rest
      else let parent_namespace =
             (if pr_namespace parent_ref = [] then route_namespace else pr_namespace parent_ref)
           in if parent_namespace \<noteq> sf_namespace frontend \<or> pr_name parent_ref \<noteq> sf_name frontend
                 \<or> (pr_port parent_ref \<noteq> 0 \<and> pr_port parent_ref \<noteq> sf_port frontend)
              then accepting_parent_loop frontend route_namespace rest
              else Some True)"

definition route_accepts_service_frontend ::
    "Snapshot \<Rightarrow> ParentRef list \<Rightarrow> string \<Rightarrow> Listener \<Rightarrow> bool" where
  "route_accepts_service_frontend snapshot parent_refs route_namespace listener =
     (case service_frontend_for_listener snapshot listener of
        None \<Rightarrow> True
      | Some frontend \<Rightarrow>
          (case accepting_parent_loop frontend route_namespace parent_refs of
             Some accepted \<Rightarrow> accepted
           | None \<Rightarrow> True))"

section \<open>Lookups\<close>

definition backend_policy :: "Snapshot \<Rightarrow> string \<Rightarrow> BackendPolicy option" where
  "backend_policy snapshot backend_name = map_of (sn_backend_policies snapshot) backend_name"

definition backend_cluster_by_name :: "Snapshot \<Rightarrow> string \<Rightarrow> BackendCluster option" where
  "backend_cluster_by_name snapshot backend_name =
     (case (if sn_runtime_indexes_ready snapshot
            then Option.bind (sn_backend_index snapshot backend_name) (nth_opt (sn_backends snapshot))
            else None) of
        Some cluster \<Rightarrow> Some cluster
      | None \<Rightarrow>
          (case split_once CHR ''/'' backend_name of
             None \<Rightarrow> None
           | Some (namespace, name) \<Rightarrow>
               find (\<lambda>cluster. bc_namespace cluster = namespace \<and> bc_name cluster = name)
                 (sn_backends snapshot)))"

definition backend_protocol :: "Snapshot \<Rightarrow> string \<Rightarrow> string option" where
  "backend_protocol snapshot backend_name =
     map_option bc_protocol (backend_cluster_by_name snapshot backend_name)"

definition secret_material :: "Snapshot \<Rightarrow> string \<Rightarrow> string \<Rightarrow> SecretMaterial option" where
  "secret_material snapshot namespace name =
     (case (if sn_runtime_indexes_ready snapshot
            then Option.bind (sn_secret_index snapshot (namespace @ ''/'' @ name)) (nth_opt (sn_secrets snapshot))
            else None) of
        Some secret \<Rightarrow> Some secret
      | None \<Rightarrow> find (\<lambda>secret. se_namespace secret = namespace \<and> se_name secret = name) (sn_secrets snapshot))"

definition listener_by_name :: "Snapshot \<Rightarrow> string \<Rightarrow> Listener option" where
  "listener_by_name snapshot listener_name =
     (if sn_runtime_indexes_ready snapshot
      then Option.bind (sn_listener_name_index snapshot listener_name) (nth_opt (sn_listeners snapshot))
      else find (\<lambda>listener. ls_name listener = listener_name) (sn_listeners snapshot))"

definition frontend_client_certificate_requirement ::
    "Snapshot \<Rightarrow> string \<Rightarrow> FrontendClientCertificateRequirement" where
  "frontend_client_certificate_requirement snapshot listener_name =
     (if listener_name = [] then CertNone
      else case sn_frontend_client_certificate_index snapshot listener_name of
             None \<Rightarrow> CertNone
           | Some requirement \<Rightarrow> requirement)"

definition listener_requires_frontend_client_certificate_close :: "Snapshot \<Rightarrow> string \<Rightarrow> bool \<Rightarrow> bool" where
  "listener_requires_frontend_client_certificate_close snapshot listener_name client_certificate_present =
     closes_connection_without_valid_client_certificate
       (frontend_client_certificate_requirement snapshot listener_name) client_certificate_present"

text \<open>The early return of the loop is the outer \<open>None\<close>.\<close>

fun unique_cluster_namespace :: "string \<Rightarrow> u32 \<Rightarrow> string option \<Rightarrow> BackendCluster list \<Rightarrow> string option" where
  "unique_cluster_namespace name port matched [] = matched"
| "unique_cluster_namespace name port matched (cluster # rest) =
     (case backend_cluster_service_key (bc_name cluster) of
        None \<Rightarrow> unique_cluster_namespace name port matched rest
      | Some (cluster_name, cluster_port) \<Rightarrow>
          if cluster_name \<noteq> name \<or> cluster_port \<noteq> port
          then unique_cluster_namespace name port matched rest
          else (case matched of
                  Some namespace \<Rightarrow>
                    if namespace \<noteq> bc_namespace cluster then None
                    else unique_cluster_namespace name port matched rest
                | None \<Rightarrow> unique_cluster_namespace name port (Some (bc_namespace cluster)) rest))"

definition unique_backend_namespace_for_service :: "Snapshot \<Rightarrow> string \<Rightarrow> u32 \<Rightarrow> string option" where
  "unique_backend_namespace_for_service snapshot name port =
     unique_cluster_namespace name port None (sn_backends snapshot)"

definition backend_namespace_for_service :: "Snapshot \<Rightarrow> string \<Rightarrow> u32 \<Rightarrow> string option" where
  "backend_namespace_for_service snapshot name port =
     (if name = [] then None
      else if sn_runtime_indexes_ready snapshot
      then service_unique_namespace (sn_backend_service_index snapshot) name port
      else unique_backend_namespace_for_service snapshot name port)"

definition backend_cluster_for_service_index ::
    "Snapshot \<Rightarrow> string \<Rightarrow> string \<Rightarrow> u32 \<Rightarrow> (nat \<times> BackendCluster) option" where
  "backend_cluster_for_service_index snapshot namespace name port =
     (if sn_runtime_indexes_ready snapshot
      then (case service_index_for (sn_backend_service_index snapshot) namespace name port of
              None \<Rightarrow> None
            | Some index \<Rightarrow> map_option (Pair index) (nth_opt (sn_backends snapshot) index))
      else find (\<lambda>(_, cluster). backend_cluster_matches_ref cluster namespace name port)
             (enumerate 0 (sn_backends snapshot)))"

definition backend_cluster_for_service ::
    "Snapshot \<Rightarrow> string \<Rightarrow> string \<Rightarrow> u32 \<Rightarrow> BackendCluster option" where
  "backend_cluster_for_service snapshot namespace name port =
     map_option snd (backend_cluster_for_service_index snapshot namespace name port)"

definition backend_name_for_index :: "Snapshot \<Rightarrow> nat \<Rightarrow> BackendCluster \<Rightarrow> string" where
  "backend_name_for_index snapshot index cluster =
     (case (if sn_runtime_indexes_ready snapshot then nth_opt (sn_backend_names snapshot) index else None) of
        Some backend_name \<Rightarrow> backend_name
      | None \<Rightarrow> backend_cluster_name cluster)"

definition source_namespace :: "Snapshot \<Rightarrow> RequestMeta \<Rightarrow> string option" where
  "source_namespace snapshot request =
     (case rq_source_ip request of
        None \<Rightarrow> None
      | Some source_ip \<Rightarrow>
          (case (if sn_runtime_indexes_ready snapshot then sn_workload_namespace_index snapshot source_ip
                 else None) of
             Some namespace \<Rightarrow> Some namespace
           | None \<Rightarrow>
               map_option wl_namespace (find (\<lambda>workload. wl_ip workload = source_ip) (sn_workloads snapshot))))"

definition has_l7_routes :: "Snapshot \<Rightarrow> bool" where
  "has_l7_routes snapshot = (sn_http_routes snapshot \<noteq> [] \<or> sn_grpc_routes snapshot \<noteq> [])"

definition service_frontend_has_attached_routes :: "Snapshot \<Rightarrow> ServiceFrontendRef \<Rightarrow> bool" where
  "service_frontend_has_attached_routes snapshot frontend =
     (if sn_runtime_indexes_ready snapshot
      then (case sn_service_frontend_attachment_index snapshot (sf_namespace frontend) of
              None \<Rightarrow> False
            | Some names \<Rightarrow> sf_name frontend \<in> names)
      else list_ex (\<lambda>listener. ls_attached_routes listener \<noteq> [] \<and>
             (case service_frontend_for_listener snapshot listener of
                None \<Rightarrow> False
              | Some candidate \<Rightarrow>
                  sf_namespace candidate = sf_namespace frontend \<and> sf_name candidate = sf_name frontend))
             (sn_listeners snapshot))"

definition listener_runtime_id :: "Snapshot \<Rightarrow> string \<Rightarrow> RuntimeId option" where
  "listener_runtime_id snapshot listener_name = rid_listener (sn_runtime_ids snapshot) listener_name"

definition http_route_runtime_id :: "Snapshot \<Rightarrow> string \<Rightarrow> string \<Rightarrow> RuntimeId option" where
  "http_route_runtime_id snapshot namespace name = rid_http_route (sn_runtime_ids snapshot) namespace name"

definition grpc_route_runtime_id :: "Snapshot \<Rightarrow> string \<Rightarrow> string \<Rightarrow> RuntimeId option" where
  "grpc_route_runtime_id snapshot namespace name = rid_grpc_route (sn_runtime_ids snapshot) namespace name"

definition stream_route_runtime_id :: "Snapshot \<Rightarrow> string \<Rightarrow> string \<Rightarrow> string \<Rightarrow> RuntimeId option" where
  "stream_route_runtime_id snapshot kind namespace name =
     rid_stream_route (sn_runtime_ids snapshot) kind namespace name"

definition http_rule_runtime_id :: "Snapshot \<Rightarrow> string \<Rightarrow> string \<Rightarrow> nat \<Rightarrow> RuntimeId option" where
  "http_rule_runtime_id snapshot namespace name rule_index =
     rid_http_rule (sn_runtime_ids snapshot) namespace name rule_index"

definition grpc_rule_runtime_id :: "Snapshot \<Rightarrow> string \<Rightarrow> string \<Rightarrow> nat \<Rightarrow> RuntimeId option" where
  "grpc_rule_runtime_id snapshot namespace name rule_index =
     rid_grpc_rule (sn_runtime_ids snapshot) namespace name rule_index"

definition stream_rule_runtime_id :: "Snapshot \<Rightarrow> string \<Rightarrow> string \<Rightarrow> string \<Rightarrow> nat \<Rightarrow> RuntimeId option" where
  "stream_rule_runtime_id snapshot kind namespace name rule_index =
     rid_stream_rule (sn_runtime_ids snapshot) kind namespace name rule_index"

definition backend_runtime_id :: "Snapshot \<Rightarrow> string \<Rightarrow> RuntimeId option" where
  "backend_runtime_id snapshot backend_name = rid_backend (sn_runtime_ids snapshot) backend_name"

definition endpoint_runtime_id :: "Snapshot \<Rightarrow> string \<Rightarrow> BackendEndpoint \<Rightarrow> RuntimeId option" where
  "endpoint_runtime_id snapshot backend_name endpoint =
     rid_endpoint (sn_runtime_ids snapshot) backend_name endpoint"

definition selected_backend_runtime_ids :: "Snapshot \<Rightarrow> SelectedBackend \<Rightarrow> SelectedBackendRuntimeIds" where
  "selected_backend_runtime_ids snapshot selected = rid_selected_backend (sn_runtime_ids snapshot) selected"

definition runtime_resource_ref :: "Snapshot \<Rightarrow> RuntimeId \<Rightarrow> RuntimeResourceRef option" where
  "runtime_resource_ref snapshot runtime_id = resource_ref (sn_runtime_ids snapshot) runtime_id"

end
