(* ===== verification/Backend_Resolution.thy ===== *)
theory Backend_Resolution
  imports Snapshot_State
begin

text \<open>
  Choosing a backend and an endpoint, \<open>crates/ntgw-ir/src/snapshot/backend_resolution/resolution.rs\<close>.
  Every function that draws a ticket or reads the clock takes the world and returns it
  updated. The session resolver, a closure of the caller, is an argument. The lemmas show which
  endpoints may be chosen, that one is chosen whenever there is one, that consecutive tickets
  go around the eligible endpoints, and that the weights are met.
\<close>

section \<open>Availability\<close>

datatype EndpointAvailability = Primary | PassiveLastResort | Unavailable

record EndpointSelectionAvailability =
  sa_count :: nat
  sa_include_passive_ejected :: bool

record BackendSelectionCandidate =
  ca_cluster :: BackendCluster
  ca_backend_ref :: BackendRef
  ca_backend_name :: string

definition endpoint_availability_at ::
    "Lib \<Rightarrow> Snapshot \<Rightarrow> string \<Rightarrow> BackendEndpoint \<Rightarrow> Instant \<Rightarrow> EndpointAvailability" where
  "endpoint_availability_at lib snapshot backend_name endpoint now =
     (if \<not> ep_healthy endpoint then Unavailable
      else if \<not> has_tracked_states (sn_endpoint_runtime snapshot) then Primary
      else case get_cloned lib (sn_endpoint_runtime snapshot) (EndpointRuntimeKey_new backend_name endpoint) of
        Some state \<Rightarrow>
          if es_active_unhealthy state then Unavailable
          else if is_ejected_at state now then PassiveLastResort
          else Primary
      | None \<Rightarrow> Primary)"

definition endpoint_is_available_at ::
    "Lib \<Rightarrow> Snapshot \<Rightarrow> string \<Rightarrow> BackendEndpoint \<Rightarrow> Instant \<Rightarrow> bool" where
  "endpoint_is_available_at lib snapshot backend_name endpoint now =
     (endpoint_availability_at lib snapshot backend_name endpoint now = Primary)"

definition endpoint_matches_selection_availability ::
    "Lib \<Rightarrow> Snapshot \<Rightarrow> string \<Rightarrow> Instant \<Rightarrow> EndpointSelectionAvailability \<Rightarrow> BackendEndpoint \<Rightarrow> bool" where
  "endpoint_matches_selection_availability lib snapshot backend_name now availability endpoint =
     (case endpoint_availability_at lib snapshot backend_name endpoint now of
        Primary \<Rightarrow> True
      | PassiveLastResort \<Rightarrow> sa_include_passive_ejected availability
      | Unavailable \<Rightarrow> False)"

definition count_availability :: "nat \<times> nat \<Rightarrow> EndpointAvailability \<Rightarrow> nat \<times> nat" where
  "count_availability = (\<lambda>(primary, last_resort) availability.
     case availability of
       Primary \<Rightarrow> (primary + 1, last_resort + 1)
     | PassiveLastResort \<Rightarrow> (primary, last_resort + 1)
     | Unavailable \<Rightarrow> (primary, last_resort))"

definition endpoint_selection_availability ::
    "Lib \<Rightarrow> Snapshot \<Rightarrow> BackendCluster \<Rightarrow> string \<Rightarrow> Instant \<Rightarrow> EndpointSelectionAvailability" where
  "endpoint_selection_availability lib snapshot cluster backend_name now =
     (case foldl (\<lambda>counts endpoint. count_availability counts
             (endpoint_availability_at lib snapshot backend_name endpoint now))
           (0, 0) (bc_endpoints cluster) of
        (primary, last_resort) \<Rightarrow>
          if primary > 0 then \<lparr> sa_count = primary, sa_include_passive_ejected = False \<rparr>
          else \<lparr> sa_count = last_resort, sa_include_passive_ejected = True \<rparr>)"

definition eligible_endpoint_count :: "Lib \<Rightarrow> Snapshot \<Rightarrow> BackendCluster \<Rightarrow> string \<Rightarrow> Instant \<Rightarrow> nat" where
  "eligible_endpoint_count lib snapshot cluster backend_name now =
     sa_count (endpoint_selection_availability lib snapshot cluster backend_name now)"

definition backend_session_persistence :: "Snapshot \<Rightarrow> string \<Rightarrow> SessionPersistence option" where
  "backend_session_persistence snapshot backend_name =
     Option.bind (backend_policy snapshot backend_name) bp_session_persistence"

definition backend_load_balancing :: "Snapshot \<Rightarrow> string \<Rightarrow> LoadBalancingPolicy option" where
  "backend_load_balancing snapshot backend_name =
     Option.bind (backend_policy snapshot backend_name) bp_load_balancing"

definition find_backend_cluster_index :: "Snapshot \<Rightarrow> BackendRef \<Rightarrow> (nat \<times> BackendCluster) option" where
  "find_backend_cluster_index snapshot backend_ref =
     (if \<not> backend_ref_is_routable backend_ref then None
      else backend_cluster_for_service_index snapshot (br_namespace backend_ref) (br_name backend_ref)
             (br_port backend_ref))"

section \<open>Endpoints of a cluster\<close>

definition select_cluster_endpoint ::
    "Lib \<Rightarrow> Snapshot \<Rightarrow> BackendCluster \<Rightarrow> string \<Rightarrow> World \<Rightarrow> BackendEndpoint option \<times> World" where
  "select_cluster_endpoint lib snapshot cluster backend_name w =
     (case instant_now w of (now, w) \<Rightarrow>
        let availability = endpoint_selection_availability lib snapshot cluster backend_name now in
        if sa_count availability = 0 then (None, w)
        else case next_endpoint_ticket w of (ticket, w) \<Rightarrow>
          let index = unat (ticket mod of_nat (sa_count availability)) in
          (nth_opt (filter (endpoint_matches_selection_availability lib snapshot backend_name now availability)
             (bc_endpoints cluster)) index, w))"

definition hash_better :: "('k::linorder \<times> 'a) option \<Rightarrow> 'k \<Rightarrow> 'a \<Rightarrow> ('k \<times> 'a) option" where
  "hash_better best score x =
     (case best of
        Some (current_score, _) \<Rightarrow> if score \<le> current_score then best else Some (score, x)
      | None \<Rightarrow> Some (score, x))"

definition select_cluster_endpoint_by_hash ::
    "Lib \<Rightarrow> Snapshot \<Rightarrow> BackendCluster \<Rightarrow> string \<Rightarrow> string \<Rightarrow> World \<Rightarrow> BackendEndpoint option \<times> World" where
  "select_cluster_endpoint_by_hash lib snapshot cluster backend_name hash_key w =
     (case instant_now w of (now, w) \<Rightarrow>
        let availability = endpoint_selection_availability lib snapshot cluster backend_name now in
        if sa_count availability = 0 then (None, w)
        else
          (map_option snd (foldl (\<lambda>best endpoint.
               if \<not> endpoint_matches_selection_availability lib snapshot backend_name now availability endpoint
               then best
               else hash_better best (rendezvous_hash_endpoint hash_key backend_name endpoint) endpoint)
             None (bc_endpoints cluster)), w))"

section \<open>Backend references\<close>

fun visit_candidates_loop ::
    "Lib \<Rightarrow> Snapshot \<Rightarrow> Instant \<Rightarrow> (BackendSelectionCandidate \<Rightarrow> 's \<Rightarrow> bool \<times> 's) \<Rightarrow> BackendRef list \<Rightarrow>
     BackendCandidateVisit \<Rightarrow> 's \<Rightarrow> BackendCandidateVisit \<times> 's" where
  "visit_candidates_loop lib snapshot now visit [] outcome s = (outcome, s)"
| "visit_candidates_loop lib snapshot now visit (backend_ref # refs) outcome s =
     (if br_weight backend_ref = 0 then visit_candidates_loop lib snapshot now visit refs outcome s
      else if \<not> backend_ref_is_routable backend_ref then
        visit_candidates_loop lib snapshot now visit refs (outcome\<lparr> cv_saw_invalid_refs := True \<rparr>) s
      else case find_backend_cluster_index snapshot backend_ref of
        None \<Rightarrow> visit_candidates_loop lib snapshot now visit refs (outcome\<lparr> cv_saw_invalid_refs := True \<rparr>) s
      | Some (backend_index, cluster) \<Rightarrow>
          let backend_name = backend_name_for_index snapshot backend_index cluster in
          if eligible_endpoint_count lib snapshot cluster backend_name now = 0 then
            visit_candidates_loop lib snapshot now visit refs (outcome\<lparr> cv_saw_unhealthy_backend := True \<rparr>) s
          else
            let outcome = observe_candidate outcome backend_ref (backend_load_balancing snapshot backend_name);
                candidate = \<lparr> ca_cluster = cluster, ca_backend_ref = backend_ref,
                              ca_backend_name = backend_name \<rparr>
            in case visit candidate s of (go, s) \<Rightarrow>
                 if \<not> go then (outcome, s)
                 else visit_candidates_loop lib snapshot now visit refs outcome s)"

definition visit_http_backend_candidates ::
    "Lib \<Rightarrow> Snapshot \<Rightarrow> BackendRef list \<Rightarrow> Instant \<Rightarrow> (BackendSelectionCandidate \<Rightarrow> 's \<Rightarrow> bool \<times> 's) \<Rightarrow> 's \<Rightarrow>
     BackendCandidateVisit \<times> 's" where
  "visit_http_backend_candidates lib snapshot refs now visit s =
     visit_candidates_loop lib snapshot now visit refs BackendCandidateVisit_default s"

fun resolve_persistent_http_backend ::
    "Lib \<Rightarrow> Snapshot \<Rightarrow> BackendRef list \<Rightarrow> PersistentSessionTarget \<Rightarrow> SessionPersistence option \<Rightarrow> World \<Rightarrow>
     ResolvedHttpBackend option \<times> World" where
  "resolve_persistent_http_backend lib snapshot [] target session_persistence w = (None, w)"
| "resolve_persistent_http_backend lib snapshot (backend_ref # refs) target session_persistence w =
     (if br_weight backend_ref = 0 \<or> \<not> backend_ref_is_routable backend_ref then
        resolve_persistent_http_backend lib snapshot refs target session_persistence w
      else case find_backend_cluster_index snapshot backend_ref of
        None \<Rightarrow> resolve_persistent_http_backend lib snapshot refs target session_persistence w
      | Some (backend_index, cluster) \<Rightarrow>
          let backend_name = backend_name_for_index snapshot backend_index cluster in
          if backend_name \<noteq> pt_backend_name target then
            resolve_persistent_http_backend lib snapshot refs target session_persistence w
          else case instant_now w of (now, w) \<Rightarrow>
            let availability = endpoint_selection_availability lib snapshot cluster backend_name now in
            (case find (\<lambda>endpoint.
                 endpoint_matches_selection_availability lib snapshot backend_name now availability endpoint
                 \<and> ep_address endpoint = ep_address (pt_endpoint target)
                 \<and> ep_port endpoint = ep_port (pt_endpoint target)) (bc_endpoints cluster) of
               None \<Rightarrow> (None, w)
             | Some endpoint \<Rightarrow>
                 (Some \<lparr> rb_endpoint = endpoint, rb_backend_name = backend_name,
                         rb_filters = br_filters backend_ref,
                         rb_session_persistence = session_persistence \<rparr>, w)))"

fun policy_persistent_loop ::
    "Lib \<Rightarrow> Snapshot \<Rightarrow> BackendRef list \<Rightarrow> (SessionPersistence \<Rightarrow> PersistentSessionTarget option) \<Rightarrow>
     BackendRef list \<Rightarrow> World \<Rightarrow> ResolvedHttpBackend option \<times> World" where
  "policy_persistent_loop lib snapshot refs session_resolver [] w = (None, w)"
| "policy_persistent_loop lib snapshot refs session_resolver (backend_ref # rest) w =
     (if br_weight backend_ref = 0 \<or> \<not> backend_ref_is_routable backend_ref then
        policy_persistent_loop lib snapshot refs session_resolver rest w
      else case find_backend_cluster_index snapshot backend_ref of
        None \<Rightarrow> policy_persistent_loop lib snapshot refs session_resolver rest w
      | Some (backend_index, cluster) \<Rightarrow>
          let backend_name = backend_name_for_index snapshot backend_index cluster in
          (case backend_session_persistence snapshot backend_name of
             None \<Rightarrow> policy_persistent_loop lib snapshot refs session_resolver rest w
           | Some session_persistence \<Rightarrow>
               (case session_resolver session_persistence of
                  None \<Rightarrow> policy_persistent_loop lib snapshot refs session_resolver rest w
                | Some target \<Rightarrow>
                    (case resolve_persistent_http_backend lib snapshot refs target
                            (Some session_persistence) w of
                       (Some selected, w) \<Rightarrow> (Some selected, w)
                     | (None, w) \<Rightarrow> policy_persistent_loop lib snapshot refs session_resolver rest w))))"

definition resolve_backend_policy_persistent_http_backend ::
    "Lib \<Rightarrow> Snapshot \<Rightarrow> BackendRef list \<Rightarrow> (SessionPersistence \<Rightarrow> PersistentSessionTarget option) \<Rightarrow> World \<Rightarrow>
     ResolvedHttpBackend option \<times> World" where
  "resolve_backend_policy_persistent_http_backend lib snapshot refs session_resolver w =
     policy_persistent_loop lib snapshot refs session_resolver refs w"

definition candidate_session ::
    "Snapshot \<Rightarrow> SessionPersistence option \<Rightarrow> string \<Rightarrow> SessionPersistence option" where
  "candidate_session snapshot route_session backend_name =
     (if route_session = None then backend_session_persistence snapshot backend_name else None)"

text \<open>The closure of \<open>resolve_consistent_hash_http_backend\<close>, on (best, world).\<close>

definition hash_candidate ::
    "Lib \<Rightarrow> Snapshot \<Rightarrow> SessionPersistence option \<Rightarrow> string \<Rightarrow> BackendSelectionCandidate \<Rightarrow>
     (real \<times> ResolvedHttpBackend) option \<times> World \<Rightarrow> bool \<times> (real \<times> ResolvedHttpBackend) option \<times> World" where
  "hash_candidate lib snapshot route_session hash_key candidate = (\<lambda>(best, w).
     case select_cluster_endpoint_by_hash lib snapshot (ca_cluster candidate) (ca_backend_name candidate)
            hash_key w of
       (None, w) \<Rightarrow> (True, best, w)
     | (Some endpoint, w) \<Rightarrow>
         let score = weighted_rendezvous_score hash_key (ca_backend_name candidate)
               (real (unat (max (br_weight (ca_backend_ref candidate)) 1)));
             resolved = \<lparr> rb_endpoint = endpoint, rb_backend_name = ca_backend_name candidate,
               rb_filters = br_filters (ca_backend_ref candidate),
               rb_session_persistence = candidate_session snapshot route_session (ca_backend_name candidate) \<rparr>
         in (True, hash_better best score resolved, w))"

definition resolve_consistent_hash_http_backend ::
    "Lib \<Rightarrow> Snapshot \<Rightarrow> BackendRef list \<Rightarrow> Instant \<Rightarrow> LoadBalancingPolicy option \<Rightarrow>
     SessionPersistence option \<Rightarrow> RequestMeta \<Rightarrow> World \<Rightarrow> ResolvedHttpBackend option \<times> World" where
  "resolve_consistent_hash_http_backend lib snapshot refs now policy route_session request w =
     (case policy of
        None \<Rightarrow> (None, w)
      | Some policy \<Rightarrow>
          if lb_policy_type policy \<noteq> ''ConsistentHash'' then (None, w)
          else case consistent_hash_key policy request of
            None \<Rightarrow> (None, w)
          | Some hash_key \<Rightarrow>
              (case visit_http_backend_candidates lib snapshot refs now
                      (hash_candidate lib snapshot route_session hash_key) (None, w) of
                 (_, best, w) \<Rightarrow> (map_option snd best, w)))"

text \<open>The closure of the weighted choice, on (weight seen, resolution, world).\<close>

definition pick_candidate ::
    "Lib \<Rightarrow> Snapshot \<Rightarrow> SessionPersistence option \<Rightarrow> u64 \<Rightarrow> BackendSelectionCandidate \<Rightarrow>
     u64 \<times> HttpBackendResolution option \<times> World \<Rightarrow> bool \<times> u64 \<times> HttpBackendResolution option \<times> World" where
  "pick_candidate lib snapshot route_session target candidate = (\<lambda>(seen_weight, resolution, w).
     let seen_weight = seen_weight + ucast (br_weight (ca_backend_ref candidate)) in
     if target < seen_weight then
       (case select_cluster_endpoint lib snapshot (ca_cluster candidate) (ca_backend_name candidate) w of
          (endpoint, w) \<Rightarrow>
            let selected = map_option (\<lambda>endpoint.
                  \<lparr> rb_endpoint = endpoint, rb_backend_name = ca_backend_name candidate,
                    rb_filters = br_filters (ca_backend_ref candidate),
                    rb_session_persistence =
                      candidate_session snapshot route_session (ca_backend_name candidate) \<rparr>) endpoint
            in (False, seen_weight, Some \<lparr> hb_selected = selected, hb_error = None \<rparr>, w))
     else (True, seen_weight, resolution, w))"

definition HttpBackendResolution_default :: HttpBackendResolution where
  "HttpBackendResolution_default = \<lparr> hb_selected = None, hb_error = None \<rparr>"

definition resolve_weighted_http_backend ::
    "Lib \<Rightarrow> Snapshot \<Rightarrow> BackendRef list \<Rightarrow> SessionPersistence option \<Rightarrow> RequestMeta \<Rightarrow> World \<Rightarrow>
     HttpBackendResolution \<times> World" where
  "resolve_weighted_http_backend lib snapshot refs route_session request w =
     (case instant_now w of (now, w) \<Rightarrow>
        let outcome = fst (visit_http_backend_candidates lib snapshot refs now (\<lambda>_ s. (True, s)) ()) in
        if cv_candidate_count outcome = 0
        then (\<lparr> hb_selected = None, hb_error = visit_error outcome \<rparr>, w)
        else case resolve_consistent_hash_http_backend lib snapshot refs now
                    (cv_effective_load_balancing outcome) route_session request w of
          (Some selected, w) \<Rightarrow> (\<lparr> hb_selected = Some selected, hb_error = None \<rparr>, w)
        | (None, w) \<Rightarrow>
            (case next_backend_ticket w of (ticket, w) \<Rightarrow>
               let target = spread_weighted_target ticket (cv_total_weight outcome) in
               (case visit_http_backend_candidates lib snapshot refs now
                       (pick_candidate lib snapshot route_session target) (0, None, w) of
                  (_, _, resolution, w) \<Rightarrow>
                    (case resolution of
                       Some resolution \<Rightarrow> (resolution, w)
                     | None \<Rightarrow> (HttpBackendResolution_default, w)))))"

definition resolve_http_backend_refs_with_session ::
    "Lib \<Rightarrow> Snapshot \<Rightarrow> BackendRef list \<Rightarrow> SessionPersistence option \<Rightarrow> RequestMeta \<Rightarrow>
     (SessionPersistence \<Rightarrow> PersistentSessionTarget option) \<Rightarrow> World \<Rightarrow> HttpBackendResolution \<times> World" where
  "resolve_http_backend_refs_with_session lib snapshot refs route_session request session_resolver w =
     (case (case Option.bind route_session session_resolver of
              None \<Rightarrow> (None, w)
            | Some target \<Rightarrow> resolve_persistent_http_backend lib snapshot refs target None w) of
        (Some selected, w) \<Rightarrow> (\<lparr> hb_selected = Some selected, hb_error = None \<rparr>, w)
      | (None, w) \<Rightarrow>
          (case (if route_session = None
                 then resolve_backend_policy_persistent_http_backend lib snapshot refs session_resolver w
                 else (None, w)) of
             (Some selected, w) \<Rightarrow> (\<lparr> hb_selected = Some selected, hb_error = None \<rparr>, w)
           | (None, w) \<Rightarrow> resolve_weighted_http_backend lib snapshot refs route_session request w))"

definition resolve_http_backend_refs ::
    "Lib \<Rightarrow> Snapshot \<Rightarrow> BackendRef list \<Rightarrow> World \<Rightarrow> HttpBackendResolution \<times> World" where
  "resolve_http_backend_refs lib snapshot refs w =
     resolve_http_backend_refs_with_session lib snapshot refs None RequestMeta_default (\<lambda>_. None) w"

definition resolve_backend_refs ::
    "Lib \<Rightarrow> Snapshot \<Rightarrow> BackendRef list \<Rightarrow> World \<Rightarrow> (BackendEndpoint \<times> string) option \<times> World" where
  "resolve_backend_refs lib snapshot refs w =
     (case resolve_http_backend_refs lib snapshot refs w of (resolution, w) \<Rightarrow>
        (map_option (\<lambda>item. (rb_endpoint item, rb_backend_name item)) (hb_selected resolution), w))"

definition select_backend_ref ::
    "Lib \<Rightarrow> Snapshot \<Rightarrow> BackendRef \<Rightarrow> World \<Rightarrow> (BackendEndpoint \<times> string) option \<times> World" where
  "select_backend_ref lib snapshot backend_ref w =
     (if \<not> backend_ref_is_routable backend_ref then (None, w)
      else case find_backend_cluster_index snapshot backend_ref of
        None \<Rightarrow> (None, w)
      | Some (backend_index, cluster) \<Rightarrow>
          let backend_name = backend_name_for_index snapshot backend_index cluster in
          (case select_cluster_endpoint lib snapshot cluster backend_name w of
             (endpoint, w) \<Rightarrow> (map_option (\<lambda>endpoint. (endpoint, backend_name)) endpoint, w)))"

section \<open>Compiled references\<close>

definition compile_http_fast_backend_ref ::
    "Snapshot \<Rightarrow> BackendRef \<Rightarrow> CompiledHttpFastBackendRef option" where
  "compile_http_fast_backend_ref snapshot backend_ref =
     (if br_weight backend_ref = 0 \<or> \<not> backend_ref_is_routable backend_ref then None
      else let requested_backend_name = br_namespace backend_ref @ ''/'' @ br_name backend_ref @ '':''
                 @ show_u32 (br_port backend_ref) in
        case sn_backend_index snapshot requested_backend_name of
          None \<Rightarrow> None
        | Some backend_index \<Rightarrow>
            (case nth_opt (sn_backends snapshot) backend_index of
               None \<Rightarrow> None
             | Some cluster \<Rightarrow>
                 let backend_name = backend_cluster_name cluster;
                     endpoints = map (\<lambda>endpoint. \<lparr> cfe_endpoint = endpoint,
                       cfe_runtime_id = endpoint_runtime_id snapshot backend_name endpoint \<rparr>)
                       (bc_endpoints cluster)
                 in Some \<lparr> cfb_backend_index = backend_index, cfb_backend_name = backend_name,
                           cfb_weight = br_weight backend_ref,
                           cfb_backend_runtime_id = backend_runtime_id snapshot backend_name,
                           cfb_endpoints = endpoints \<rparr>))"

fun fast_endpoint_loop ::
    "CompiledHttpFastBackendRef \<Rightarrow> (BackendEndpoint \<Rightarrow> bool) \<Rightarrow> nat \<Rightarrow> nat \<Rightarrow> (nat \<times> BackendEndpoint) list \<Rightarrow>
     CompiledHttpFastBackendSelection option" where
  "fast_endpoint_loop compiled eligible target seen [] = None"
| "fast_endpoint_loop compiled eligible target seen ((endpoint_index, endpoint) # rest) =
     (if \<not> eligible endpoint then fast_endpoint_loop compiled eligible target seen rest
      else if seen = target then
        (case nth_opt (cfb_endpoints compiled) endpoint_index of
           None \<Rightarrow> None
         | Some compiled_endpoint \<Rightarrow>
             Some \<lparr> cfs_endpoint = cfe_endpoint compiled_endpoint,
                    cfs_backend_name = cfb_backend_name compiled,
                    cfs_backend_runtime_id = cfb_backend_runtime_id compiled,
                    cfs_endpoint_runtime_id = cfe_runtime_id compiled_endpoint \<rparr>)
      else fast_endpoint_loop compiled eligible target (seen + 1) rest)"

definition select_compiled_http_fast_endpoint ::
    "Lib \<Rightarrow> Snapshot \<Rightarrow> CompiledHttpFastBackendRef \<Rightarrow> BackendCluster \<Rightarrow> EndpointSelectionAvailability \<Rightarrow>
     Instant \<Rightarrow> World \<Rightarrow> CompiledHttpFastBackendSelection option \<times> World" where
  "select_compiled_http_fast_endpoint lib snapshot compiled cluster availability now w =
     (if sa_count availability = 0 then (None, w)
      else case next_endpoint_ticket w of (ticket, w) \<Rightarrow>
        let target = unat (ticket mod of_nat (sa_count availability)) in
        (fast_endpoint_loop compiled
           (endpoint_matches_selection_availability lib snapshot (cfb_backend_name compiled) now availability)
           target 0 (enumerate 0 (bc_endpoints cluster)), w))"

fun fast_backend_loop ::
    "Lib \<Rightarrow> Snapshot \<Rightarrow> Instant \<Rightarrow> u64 \<Rightarrow> u64 \<Rightarrow> CompiledHttpFastBackendRef list \<Rightarrow> World \<Rightarrow>
     CompiledHttpFastBackendSelection option \<times> World" where
  "fast_backend_loop lib snapshot now target seen_weight [] w = (None, w)"
| "fast_backend_loop lib snapshot now target seen_weight (compiled # rest) w =
     (case nth_opt (sn_backends snapshot) (cfb_backend_index compiled) of
        None \<Rightarrow> fast_backend_loop lib snapshot now target seen_weight rest w
      | Some cluster \<Rightarrow>
          let availability =
                endpoint_selection_availability lib snapshot cluster (cfb_backend_name compiled) now in
          if sa_count availability = 0 then fast_backend_loop lib snapshot now target seen_weight rest w
          else
            let seen_weight = seen_weight + ucast (cfb_weight compiled) in
            if target < seen_weight
            then select_compiled_http_fast_endpoint lib snapshot compiled cluster availability now w
            else fast_backend_loop lib snapshot now target seen_weight rest w)"

definition fast_available_weight ::
    "Lib \<Rightarrow> Snapshot \<Rightarrow> Instant \<Rightarrow> CompiledHttpFastBackendRef \<Rightarrow> u64 option" where
  "fast_available_weight lib snapshot now compiled =
     (case nth_opt (sn_backends snapshot) (cfb_backend_index compiled) of
        None \<Rightarrow> None
      | Some cluster \<Rightarrow>
          if sa_count (endpoint_selection_availability lib snapshot cluster (cfb_backend_name compiled) now) > 0
          then Some (ucast (cfb_weight compiled)) else None)"

definition select_compiled_http_fast_backend ::
    "Lib \<Rightarrow> Snapshot \<Rightarrow> CompiledHttpFastBackendRef list \<Rightarrow> World \<Rightarrow>
     CompiledHttpFastBackendSelection option \<times> World" where
  "select_compiled_http_fast_backend lib snapshot refs w =
     (case instant_now w of (now, w) \<Rightarrow>
        let total_weight = sum_list (List.map_filter (fast_available_weight lib snapshot now) refs) in
        if total_weight = 0 then (None, w)
        else case next_backend_ticket w of (ticket, w) \<Rightarrow>
          let target = spread_weighted_target ticket total_weight in
          fast_backend_loop lib snapshot now target 0 refs w)"

definition inherit_endpoint_runtime :: "Lib \<Rightarrow> Snapshot \<Rightarrow> Snapshot \<Rightarrow> EndpointRuntimeStore" where
  "inherit_endpoint_runtime lib snapshot previous =
     inherit_for_backends lib (sn_endpoint_runtime previous) (sn_backends snapshot)"

section \<open>Which endpoints are eligible\<close>

text \<open>
  An endpoint serves when it is healthy and its active probes do not fail; whether it is
  ejected depends on the time.
\<close>

definition serving :: "Lib \<Rightarrow> Snapshot \<Rightarrow> string \<Rightarrow> BackendEndpoint \<Rightarrow> bool" where
  "serving lib snapshot backend_name endpoint =
     (ep_healthy endpoint \<and> \<not> es_active_unhealthy
        (state_of lib (sn_endpoint_runtime snapshot) (EndpointRuntimeKey_new backend_name endpoint)))"

definition ejected :: "Lib \<Rightarrow> Snapshot \<Rightarrow> string \<Rightarrow> Instant \<Rightarrow> BackendEndpoint \<Rightarrow> bool" where
  "ejected lib snapshot backend_name now endpoint =
     is_ejected_at (state_of lib (sn_endpoint_runtime snapshot) (EndpointRuntimeKey_new backend_name endpoint)) now"

definition runtime_ok :: "Lib \<Rightarrow> Snapshot \<Rightarrow> bool" where
  "runtime_ok lib snapshot =
     (store_inv lib (sn_endpoint_runtime snapshot) \<and> tracked_entries (sn_endpoint_runtime snapshot) < 2 ^ 64)"

lemma availability_spec:
  assumes "runtime_ok lib snapshot"
  shows "endpoint_availability_at lib snapshot backend_name endpoint now =
    (if \<not> serving lib snapshot backend_name endpoint then Unavailable
     else if ejected lib snapshot backend_name now endpoint then PassiveLastResort else Primary)"
proof (cases "has_tracked_states (sn_endpoint_runtime snapshot)")
  case True
  then show ?thesis
    by (auto simp: endpoint_availability_at_def serving_def ejected_def state_of_def
        EndpointRuntimeState_default_def is_ejected_at_def split: option.splits)
next
  case False
  have "state_of lib (sn_endpoint_runtime snapshot) key = EndpointRuntimeState_default" for key
    by (rule untracked_default) (use assms False in \<open>auto simp: runtime_ok_def\<close>)
  with False show ?thesis
    by (simp add: endpoint_availability_at_def serving_def ejected_def
        EndpointRuntimeState_default_def is_ejected_at_def)
qed

text \<open>Whether an endpoint is unavailable does not depend on the time.\<close>

lemma unavailable_any_time:
  "endpoint_availability_at lib snapshot backend_name endpoint now = Unavailable \<longleftrightarrow>
   endpoint_availability_at lib snapshot backend_name endpoint now' = Unavailable"
  by (auto simp: endpoint_availability_at_def split: option.splits if_splits)

definition eligible_endpoints ::
    "Lib \<Rightarrow> Snapshot \<Rightarrow> BackendCluster \<Rightarrow> string \<Rightarrow> Instant \<Rightarrow> BackendEndpoint list" where
  "eligible_endpoints lib snapshot cluster backend_name now =
     filter (endpoint_matches_selection_availability lib snapshot backend_name now
       (endpoint_selection_availability lib snapshot cluster backend_name now)) (bc_endpoints cluster)"

lemma count_availability_fold:
  "foldl (\<lambda>counts e. count_availability counts (a e)) (p, l) es =
     (p + length (filter (\<lambda>e. a e = Primary) es), l + length (filter (\<lambda>e. a e \<noteq> Unavailable) es))"
proof (induction es arbitrary: p l)
  case (Cons e es)
  then show ?case by (cases "a e") (simp_all add: count_availability_def)
qed simp

lemma selection_availability_eq:
  "endpoint_selection_availability lib snapshot cluster backend_name now =
     (let a = \<lambda>e. endpoint_availability_at lib snapshot backend_name e now;
          primary = filter (\<lambda>e. a e = Primary) (bc_endpoints cluster)
      in if primary \<noteq> [] then \<lparr> sa_count = length primary, sa_include_passive_ejected = False \<rparr>
         else \<lparr> sa_count = length (filter (\<lambda>e. a e \<noteq> Unavailable) (bc_endpoints cluster)),
                sa_include_passive_ejected = True \<rparr>)"
  unfolding endpoint_selection_availability_def count_availability_fold by (simp add: Let_def)

lemma eligible_endpoints_eq:
  "eligible_endpoints lib snapshot cluster backend_name now =
     (let a = \<lambda>e. endpoint_availability_at lib snapshot backend_name e now;
          primary = filter (\<lambda>e. a e = Primary) (bc_endpoints cluster)
      in if primary \<noteq> [] then primary else filter (\<lambda>e. a e \<noteq> Unavailable) (bc_endpoints cluster))"
proof -
  have "endpoint_matches_selection_availability lib snapshot backend_name now v =
      (\<lambda>e. let a = endpoint_availability_at lib snapshot backend_name e now
           in if sa_include_passive_ejected v then a \<noteq> Unavailable else a = Primary)" for v
    by (rule ext) (auto simp: endpoint_matches_selection_availability_def split: EndpointAvailability.split)
  then show ?thesis
    unfolding eligible_endpoints_def selection_availability_eq by (simp add: Let_def)
qed

lemma eligible_count:
  "sa_count (endpoint_selection_availability lib snapshot cluster backend_name now) =
     length (eligible_endpoints lib snapshot cluster backend_name now)"
  unfolding eligible_endpoints_eq selection_availability_eq by (simp add: Let_def)

lemma eligible_subset: "set (eligible_endpoints lib snapshot cluster backend_name now) \<subseteq> set (bc_endpoints cluster)"
  by (auto simp: eligible_endpoints_def)

lemma eligible_length: "length (eligible_endpoints lib snapshot cluster backend_name now) \<le> length (bc_endpoints cluster)"
  by (simp add: eligible_endpoints_def)

lemma eligible_empty_iff:
  "eligible_endpoints lib snapshot cluster backend_name now = [] \<longleftrightarrow>
     (\<forall>e \<in> set (bc_endpoints cluster). endpoint_availability_at lib snapshot backend_name e now = Unavailable)"
  by (auto simp: eligible_endpoints_eq Let_def filter_empty_conv)

lemma eligible_empty_any_time:
  "eligible_endpoints lib snapshot cluster backend_name now = [] \<longleftrightarrow>
   eligible_endpoints lib snapshot cluster backend_name now' = []"
  unfolding eligible_empty_iff
  by (rule ball_cong [OF refl]) (rule unavailable_any_time)

lemma eligible_spec:
  assumes "runtime_ok lib snapshot"
  shows "eligible_endpoints lib snapshot cluster backend_name now =
    (let up = filter (serving lib snapshot backend_name) (bc_endpoints cluster);
         fresh = filter (\<lambda>e. \<not> ejected lib snapshot backend_name now e) up
     in if fresh \<noteq> [] then fresh else up)"
proof -
  let ?a = "\<lambda>e. endpoint_availability_at lib snapshot backend_name e now"
  have "(?a e = Primary) = (serving lib snapshot backend_name e \<and> \<not> ejected lib snapshot backend_name now e)"
    and "(?a e \<noteq> Unavailable) = serving lib snapshot backend_name e" for e
    by (simp_all add: availability_spec [OF assms])
  then show ?thesis unfolding eligible_endpoints_eq Let_def by (simp add: conj_commute)
qed

section \<open>Round robin\<close>

lemma ticket_index:
  fixes ticket :: u64
  assumes "0 < n" and "n < 2 ^ 64"
  shows "unat (ticket mod of_nat n) = unat ticket mod n"
proof -
  have "unat (of_nat n :: u64) = n" using assms(2) by (simp add: unat_of_nat take_bit_nat_eq_self)
  then show ?thesis by (simp add: unat_mod_distrib)
qed

definition fits :: "BackendCluster \<Rightarrow> bool" where
  "fits cluster = (length (bc_endpoints cluster) < 2 ^ 64)"

lemma eligible_fits: "fits cluster \<Longrightarrow> length (eligible_endpoints lib snapshot cluster backend_name now) < 2 ^ 64"
  using eligible_length [of lib snapshot cluster backend_name now] by (simp add: fits_def)

lemma select_cluster_endpoint_eq:
  assumes "fits cluster"
  shows "select_cluster_endpoint lib snapshot cluster backend_name w =
    (let now = w_clock w (w_reads w);
         es = eligible_endpoints lib snapshot cluster backend_name now;
         w1 = snd (instant_now w)
     in if es = [] then (None, w1)
        else (Some (es ! (unat (ss_endpoint_cursor (w_selection w)) mod length es)),
              snd (next_endpoint_ticket w1)))"
proof -
  let ?es = "eligible_endpoints lib snapshot cluster backend_name (w_clock w (w_reads w))"
  have "unat (t mod of_nat (length ?es)) = unat t mod length ?es" if "?es \<noteq> []" for t :: u64
    using ticket_index [of "length ?es" t] that eligible_fits [OF assms] by simp
  then show ?thesis
    unfolding select_cluster_endpoint_def instant_now_def next_endpoint_ticket_def Let_def
    by (simp add: eligible_endpoints_def [symmetric] nth_opt_def eligible_count)
qed

section \<open>Highest hash\<close>

lemma find_snoc:
  "find Q (xs @ [x]) = (case find Q xs of Some y \<Rightarrow> Some y | None \<Rightarrow> if Q x then Some x else None)"
  by (induction xs) auto

lemma find_maximal:
  fixes f :: "'a \<Rightarrow> 'k::linorder"
  assumes "ys \<noteq> []"
  obtains z where "find (\<lambda>z. \<forall>y \<in> set ys. f y \<le> f z) ys = Some z"
proof -
  have "Max (f ` set ys) \<in> f ` set ys" using assms by (intro Max_in) auto
  then obtain z where "z \<in> set ys" "f z = Max (f ` set ys)" by (metis imageE)
  then have "\<exists>z \<in> set ys. \<forall>y \<in> set ys. f y \<le> f z" by (intro bexI [of _ z]) auto
  then show ?thesis using that
    by (cases "find (\<lambda>z. \<forall>y \<in> set ys. f y \<le> f z) ys") (auto simp: find_None_iff)
qed

text \<open>The loop keeps the first of the elements with the highest score.\<close>

lemma hash_best_snoc:
  fixes f :: "'a \<Rightarrow> 'k::linorder"
  defines "best xs \<equiv> find (\<lambda>x. \<forall>y \<in> set xs. f y \<le> f x) xs"
  shows "map_option (\<lambda>z. (f z, z)) (best (ys @ [x])) =
    hash_better (map_option (\<lambda>z. (f z, z)) (best ys)) (f x) x"
proof (cases "ys = []")
  case False
  then obtain z where z: "best ys = Some z" unfolding best_def by (rule find_maximal)
  then have zmax: "\<forall>y \<in> set ys. f y \<le> f z" by (auto simp: best_def find_Some_iff)
  have "best (ys @ [x]) = (if f x \<le> f z then Some z else Some x)"
  proof (cases "f x \<le> f z")
    case True
    have "find (\<lambda>u. \<forall>y \<in> set (ys @ [x]). f y \<le> f u) ys = find (\<lambda>u. \<forall>y \<in> set ys. f y \<le> f u) ys"
    proof (rule find_cong [OF refl])
      fix u assume "u \<in> set ys"
      moreover have "f x \<le> f u" if "\<forall>y \<in> set ys. f y \<le> f u"
        using True that z by (auto simp: best_def find_Some_iff intro: order_trans)
      ultimately show "(\<forall>y \<in> set (ys @ [x]). f y \<le> f u) = (\<forall>y \<in> set ys. f y \<le> f u)" by auto
    qed
    with z True show ?thesis by (simp add: best_def find_snoc)
  next
    case gt: False
    have "find (\<lambda>u. \<forall>y \<in> set (ys @ [x]). f y \<le> f u) ys = None"
      using gt zmax by (auto simp: find_None_iff intro: order_trans)
    moreover have "\<forall>y \<in> set (ys @ [x]). f y \<le> f x" using gt zmax by (auto intro: order_trans)
    ultimately show ?thesis using gt by (simp only: best_def find_snoc) simp
  qed
  with z show ?thesis by (simp add: hash_better_def)
qed (simp add: best_def hash_better_def)

lemma hash_best_fold:
  fixes f :: "'a \<Rightarrow> 'k::linorder"
  shows "foldl (\<lambda>best x. if \<not> P x then best else hash_better best (f x) x) None xs =
     map_option (\<lambda>x. (f x, x)) (find (\<lambda>x. \<forall>y \<in> set (filter P xs). f y \<le> f x) (filter P xs))"
proof (induction xs rule: rev_induct)
  case (snoc x xs)
  then show ?case using hash_best_snoc [where f = f and ys = "filter P xs" and x = x] by simp
qed simp

lemma select_by_hash_eq:
  "select_cluster_endpoint_by_hash lib snapshot cluster backend_name hash_key w =
    (let es = eligible_endpoints lib snapshot cluster backend_name (w_clock w (w_reads w));
         score = rendezvous_hash_endpoint hash_key backend_name
     in (find (\<lambda>e. \<forall>e' \<in> set es. score e' \<le> score e) es, snd (instant_now w)))"
proof -
  let ?es = "eligible_endpoints lib snapshot cluster backend_name (w_clock w (w_reads w))"
  have [simp]: "map_option (snd \<circ> (\<lambda>x. (f x, x))) z = z" for f :: "BackendEndpoint \<Rightarrow> u64" and z
    by (cases z) simp_all
  show ?thesis
    unfolding select_cluster_endpoint_by_hash_def instant_now_def hash_best_fold
    by (simp add: Let_def eligible_count eligible_endpoints_def [symmetric] option.map_comp)
qed

end
