(* ===== verification/Backend_Choice.thy ===== *)
theory Backend_Choice
  imports Backend_Resolution
begin

text \<open>
  What the resolution of a list of backend references promises. The references with a servable
  cluster are the candidates; every visit of \<open>visit_http_backend_candidates\<close> goes over them in
  order. The lemmas show that the resolution returns a servable endpoint of a candidate,
  that it fails only when there is none and with which error, that over one period of tickets
  every candidate is chosen as often as its weight says, and that the consistent hash takes the
  candidate with the highest score.
\<close>

section \<open>Candidates\<close>

definition ref_candidate :: "Lib \<Rightarrow> Snapshot \<Rightarrow> Instant \<Rightarrow> BackendRef \<Rightarrow> BackendSelectionCandidate option" where
  "ref_candidate lib snapshot now backend_ref =
     (if br_weight backend_ref = 0 then None
      else case find_backend_cluster_index snapshot backend_ref of
        None \<Rightarrow> None
      | Some (index, cluster) \<Rightarrow>
          let name = backend_name_for_index snapshot index cluster in
          if eligible_endpoints lib snapshot cluster name now = [] then None
          else Some \<lparr> ca_cluster = cluster, ca_backend_ref = backend_ref, ca_backend_name = name \<rparr>)"

definition candidates :: "Lib \<Rightarrow> Snapshot \<Rightarrow> Instant \<Rightarrow> BackendRef list \<Rightarrow> BackendSelectionCandidate list" where
  "candidates lib snapshot now refs = List.map_filter (ref_candidate lib snapshot now) refs"

lemma candidates_simps [simp]:
  "candidates lib snapshot now [] = []"
  "candidates lib snapshot now (r # rs) =
     (case ref_candidate lib snapshot now r of None \<Rightarrow> [] | Some c \<Rightarrow> [c]) @ candidates lib snapshot now rs"
  by (simp_all add: candidates_def map_filter_simps split: option.split)

lemma ref_candidate_any_time: "ref_candidate lib snapshot now r = ref_candidate lib snapshot now' r"
  using eligible_empty_any_time [of lib snapshot _ _ now now']
  by (auto simp: ref_candidate_def Let_def split: option.split)

lemma candidates_any_time: "candidates lib snapshot now refs = candidates lib snapshot now' refs"
proof -
  have "ref_candidate lib snapshot now = ref_candidate lib snapshot now'"
    by (rule ext) (rule ref_candidate_any_time)
  then show ?thesis by (simp add: candidates_def)
qed

text \<open>What the references that are no candidates are.\<close>

definition invalid_ref :: "Snapshot \<Rightarrow> BackendRef \<Rightarrow> bool" where
  "invalid_ref snapshot r = (br_weight r \<noteq> 0 \<and> find_backend_cluster_index snapshot r = None)"

definition unhealthy_ref :: "Lib \<Rightarrow> Snapshot \<Rightarrow> Instant \<Rightarrow> BackendRef \<Rightarrow> bool" where
  "unhealthy_ref lib snapshot now r =
     (br_weight r \<noteq> 0 \<and> find_backend_cluster_index snapshot r \<noteq> None \<and> ref_candidate lib snapshot now r = None)"

lemma unroutable_no_cluster: "\<not> backend_ref_is_routable r \<Longrightarrow> find_backend_cluster_index snapshot r = None"
  by (simp add: find_backend_cluster_index_def)

definition mark_ref :: "Lib \<Rightarrow> Snapshot \<Rightarrow> Instant \<Rightarrow> BackendCandidateVisit \<Rightarrow> BackendRef \<Rightarrow> BackendCandidateVisit" where
  "mark_ref lib snapshot now v r =
     (case ref_candidate lib snapshot now r of
        Some c \<Rightarrow> observe_candidate v r (backend_load_balancing snapshot (ca_backend_name c))
      | None \<Rightarrow> if invalid_ref snapshot r then v\<lparr> cv_saw_invalid_refs := True \<rparr>
          else if unhealthy_ref lib snapshot now r then v\<lparr> cv_saw_unhealthy_backend := True \<rparr> else v)"

lemma visit_candidates_step:
  "visit_candidates_loop lib snapshot now visit (r # rs) v s =
     (case ref_candidate lib snapshot now r of
        None \<Rightarrow> visit_candidates_loop lib snapshot now visit rs (mark_ref lib snapshot now v r) s
      | Some c \<Rightarrow> (case visit c s of (go, s') \<Rightarrow>
          if go then visit_candidates_loop lib snapshot now visit rs (mark_ref lib snapshot now v r) s'
          else (mark_ref lib snapshot now v r, s')))"
proof (cases "br_weight r = 0")
  case True
  then show ?thesis
    by (simp add: ref_candidate_def mark_ref_def invalid_ref_def unhealthy_ref_def)
next
  case False
  show ?thesis
  proof (cases "find_backend_cluster_index snapshot r")
    case None
    with False show ?thesis
      by (simp add: ref_candidate_def mark_ref_def invalid_ref_def unhealthy_ref_def)
  next
    case (Some p)
    then have "backend_ref_is_routable r" using unroutable_no_cluster by fastforce
    with False Some show ?thesis
      by (cases p) (simp add: ref_candidate_def mark_ref_def invalid_ref_def unhealthy_ref_def Let_def
          eligible_endpoint_count_def eligible_count split: prod.split)
  qed
qed

declare visit_candidates_loop.simps(2) [simp del]

text \<open>The state of the closure is that of a visit of the candidates in order.\<close>

lemma visit_candidates_state:
  "snd (visit_candidates_loop lib snapshot now visit refs v s) =
     snd (visit_while visit (candidates lib snapshot now refs) s)"
  by (induction refs arbitrary: v s)
    (auto simp: visit_candidates_step split: option.splits prod.splits)

lemma visit_candidates_outcome:
  "fst (visit_candidates_loop lib snapshot now (\<lambda>_ s. (True, s)) refs v s) =
     foldl (mark_ref lib snapshot now) v refs"
  by (induction refs arbitrary: v s) (auto simp: visit_candidates_step split: option.splits)

section \<open>The outcome of a full visit\<close>

definition weight_of :: "BackendSelectionCandidate \<Rightarrow> nat" where
  "weight_of c = unat (br_weight (ca_backend_ref c))"

lemma mark_ref_fields:
  "cv_candidate_count (mark_ref lib snapshot now v r) =
     cv_candidate_count v + length (candidates lib snapshot now [r])"
  "cv_total_weight (mark_ref lib snapshot now v r) =
     cv_total_weight v + of_nat (sum_list (map weight_of (candidates lib snapshot now [r])))"
  "cv_saw_invalid_refs (mark_ref lib snapshot now v r) \<longleftrightarrow> cv_saw_invalid_refs v \<or> invalid_ref snapshot r"
  "cv_saw_unhealthy_backend (mark_ref lib snapshot now v r) \<longleftrightarrow>
     cv_saw_unhealthy_backend v \<or> unhealthy_ref lib snapshot now r"
proof -
  have [simp]: "cv_candidate_count (observe_candidate v r lb) = cv_candidate_count v + 1"
    "cv_total_weight (observe_candidate v r lb) = cv_total_weight v + ucast (br_weight r)"
    "cv_saw_invalid_refs (observe_candidate v r lb) = cv_saw_invalid_refs v"
    "cv_saw_unhealthy_backend (observe_candidate v r lb) = cv_saw_unhealthy_backend v" for lb
    by (auto simp: observe_candidate_def Let_def split: option.split)
  have w: "weight_of c = unat (br_weight r)" if "ref_candidate lib snapshot now r = Some c" for c
    using that by (auto simp: ref_candidate_def weight_of_def Let_def split: if_splits option.splits)
  have ok: "\<not> invalid_ref snapshot r" if "ref_candidate lib snapshot now r = Some c" for c
    using that by (auto simp: ref_candidate_def invalid_ref_def split: if_splits option.splits)
  have u: "(ucast x :: u64) = of_nat (unat x)" for x :: u32
    by (simp add: unat_u64_of_u32 [symmetric] del: unat_u64_of_u32)
  show "cv_candidate_count (mark_ref lib snapshot now v r) =
     cv_candidate_count v + length (candidates lib snapshot now [r])"
    by (simp add: mark_ref_def split: option.split)
  show "cv_total_weight (mark_ref lib snapshot now v r) =
     cv_total_weight v + of_nat (sum_list (map weight_of (candidates lib snapshot now [r])))"
    using w u by (simp add: mark_ref_def split: option.split)
  show "cv_saw_invalid_refs (mark_ref lib snapshot now v r) \<longleftrightarrow> cv_saw_invalid_refs v \<or> invalid_ref snapshot r"
    using ok by (auto simp: mark_ref_def split: option.split)
  show "cv_saw_unhealthy_backend (mark_ref lib snapshot now v r) \<longleftrightarrow>
     cv_saw_unhealthy_backend v \<or> unhealthy_ref lib snapshot now r"
    by (auto simp: mark_ref_def unhealthy_ref_def invalid_ref_def split: option.split)
qed

lemma mark_refs_fields:
  "cv_candidate_count (foldl (mark_ref lib snapshot now) v refs) =
     cv_candidate_count v + length (candidates lib snapshot now refs)"
  "cv_total_weight (foldl (mark_ref lib snapshot now) v refs) =
     cv_total_weight v + of_nat (sum_list (map weight_of (candidates lib snapshot now refs)))"
  "cv_saw_invalid_refs (foldl (mark_ref lib snapshot now) v refs) \<longleftrightarrow>
     cv_saw_invalid_refs v \<or> (\<exists>r \<in> set refs. invalid_ref snapshot r)"
  "cv_saw_unhealthy_backend (foldl (mark_ref lib snapshot now) v refs) \<longleftrightarrow>
     cv_saw_unhealthy_backend v \<or> (\<exists>r \<in> set refs. unhealthy_ref lib snapshot now r)"
  by (induction refs arbitrary: v) (simp_all add: mark_ref_fields)

section \<open>Weighted choice\<close>

definition resolved_as ::
    "Snapshot \<Rightarrow> SessionPersistence option \<Rightarrow> BackendSelectionCandidate \<Rightarrow> BackendEndpoint \<Rightarrow> ResolvedHttpBackend" where
  "resolved_as snapshot route_session c endpoint =
     \<lparr> rb_endpoint = endpoint, rb_backend_name = ca_backend_name c,
       rb_filters = br_filters (ca_backend_ref c),
       rb_session_persistence = candidate_session snapshot route_session (ca_backend_name c) \<rparr>"

definition pick_result ::
    "Lib \<Rightarrow> Snapshot \<Rightarrow> SessionPersistence option \<Rightarrow> World \<Rightarrow> BackendSelectionCandidate \<Rightarrow>
     HttpBackendResolution option \<times> World" where
  "pick_result lib snapshot route_session w c =
     (case select_cluster_endpoint lib snapshot (ca_cluster c) (ca_backend_name c) w of (endpoint, w) \<Rightarrow>
        (Some \<lparr> hb_selected = map_option (resolved_as snapshot route_session c) endpoint, hb_error = None \<rparr>, w))"

lemma pick_candidate_eq:
  "pick_candidate lib snapshot route_session target c (seen, res, w) =
     (let seen = seen + ucast (br_weight (ca_backend_ref c)) in
      if target < seen then (False, seen, pick_result lib snapshot route_session w c)
      else (True, seen, res, w))"
  by (simp add: pick_candidate_def pick_result_def resolved_as_def [abs_def] Let_def split: prod.split)

lemma pick_visit:
  assumes "unat seen \<le> unat target" and "unat seen + sum_list (map weight_of cs) < 2 ^ 64"
  shows "snd (snd (visit_while (pick_candidate lib snapshot route_session target) cs (seen, res, w))) =
    (case weighted_pick (map weight_of cs) (unat target - unat seen) of
       None \<Rightarrow> (res, w)
     | Some i \<Rightarrow> pick_result lib snapshot route_session w (cs ! i))"
  using assms
proof (induction cs arbitrary: seen)
  case (Cons c cs)
  let ?seen = "seen + ucast (br_weight (ca_backend_ref c))"
  have u: "unat ?seen = unat seen + weight_of c"
    using Cons.prems(2) by (simp add: weight_of_def unat_add_no_overflow unat_u64_of_u32)
  show ?case
  proof (cases "target < ?seen")
    case True
    then have "unat target - unat seen < weight_of c" using Cons.prems(1) u by (simp add: word_less_nat_alt)
    then show ?thesis using True by (simp add: pick_candidate_eq Let_def)
  next
    case False
    then have le: "unat ?seen \<le> unat target" by (simp add: word_less_nat_alt not_less)
    have "unat ?seen + sum_list (map weight_of cs) < 2 ^ 64" using Cons.prems(2) u by simp
    note IH = Cons.IH [OF le this]
    have "\<not> unat target - unat seen < weight_of c" "unat target - unat ?seen = unat target - unat seen - weight_of c"
      using le u by simp_all
    then show ?thesis using False IH by (simp add: pick_candidate_eq Let_def split: option.split)
  qed
qed simp

lemma candidatesD:
  assumes "c \<in> set (candidates lib snapshot now refs)"
  shows "ca_backend_ref c \<in> set refs" and "br_weight (ca_backend_ref c) \<noteq> 0"
    and "\<exists>index. find_backend_cluster_index snapshot (ca_backend_ref c) = Some (index, ca_cluster c)
      \<and> ca_backend_name c = backend_name_for_index snapshot index (ca_cluster c)"
    and "eligible_endpoints lib snapshot (ca_cluster c) (ca_backend_name c) now' \<noteq> []"
proof -
  from assms obtain r where r: "r \<in> set refs" "ref_candidate lib snapshot now r = Some c"
    by (auto simp: candidates_def map_filter_def split: if_splits)
  then have "ref_candidate lib snapshot now' r = Some c" using ref_candidate_any_time by metis
  with r show "ca_backend_ref c \<in> set refs" "br_weight (ca_backend_ref c) \<noteq> 0"
    "\<exists>index. find_backend_cluster_index snapshot (ca_backend_ref c) = Some (index, ca_cluster c)
      \<and> ca_backend_name c = backend_name_for_index snapshot index (ca_cluster c)"
    "eligible_endpoints lib snapshot (ca_cluster c) (ca_backend_name c) now' \<noteq> []"
    by (auto simp: ref_candidate_def Let_def split: if_splits option.splits)
qed

lemma candidates_mem_iff:
  "c \<in> set (candidates lib snapshot now refs) \<longleftrightarrow> (\<exists>r \<in> set refs. ref_candidate lib snapshot now r = Some c)"
  by (force simp: candidates_def map_filter_def split: if_splits)

text \<open>Reading the clusters of a snapshot: all of them fit the machine's word.\<close>

definition clusters_fit :: "Snapshot \<Rightarrow> bool" where
  "clusters_fit snapshot = (\<forall>b \<in> set (sn_backends snapshot). fits b)"

lemma found_cluster_in:
  "find_backend_cluster_index snapshot r = Some (index, cluster) \<Longrightarrow> cluster \<in> set (sn_backends snapshot)"
  by (auto simp: find_backend_cluster_index_def backend_cluster_for_service_index_def nth_opt_def
      find_Some_iff nth_enumerate_eq split: if_splits option.splits)

lemma candidate_fits:
  "clusters_fit snapshot \<Longrightarrow> c \<in> set (candidates lib snapshot now refs) \<Longrightarrow> fits (ca_cluster c)"
  using candidatesD(3) found_cluster_in unfolding clusters_fit_def by metis

text \<open>A candidate always yields an eligible endpoint.\<close>

lemma pick_result_endpoint:
  assumes "fits (ca_cluster c)" and "eligible_endpoints lib snapshot (ca_cluster c) (ca_backend_name c)
    (w_clock w (w_reads w)) \<noteq> []"
  shows "\<exists>e \<in> set (eligible_endpoints lib snapshot (ca_cluster c) (ca_backend_name c) (w_clock w (w_reads w))).
    fst (pick_result lib snapshot route_session w c) =
      Some \<lparr> hb_selected = Some (resolved_as snapshot route_session c e), hb_error = None \<rparr>"
proof -
  let ?es = "eligible_endpoints lib snapshot (ca_cluster c) (ca_backend_name c) (w_clock w (w_reads w))"
  let ?e = "?es ! (unat (ss_endpoint_cursor (w_selection w)) mod length ?es)"
  have "?e \<in> set ?es" using assms(2) by simp
  moreover have "fst (pick_result lib snapshot route_session w c) =
      Some \<lparr> hb_selected = Some (resolved_as snapshot route_session c ?e), hb_error = None \<rparr>"
    using assms(2) by (simp add: pick_result_def select_cluster_endpoint_eq [OF assms(1)] Let_def)
  ultimately show ?thesis by blast
qed

section \<open>Consistent hashing\<close>

definition endpoint_by_hash ::
    "Lib \<Rightarrow> Snapshot \<Rightarrow> BackendSelectionCandidate \<Rightarrow> string \<Rightarrow> Instant \<Rightarrow> BackendEndpoint option" where
  "endpoint_by_hash lib snapshot c hash_key now =
     (let es = eligible_endpoints lib snapshot (ca_cluster c) (ca_backend_name c) now;
          score = rendezvous_hash_endpoint hash_key (ca_backend_name c)
      in find (\<lambda>e. \<forall>e' \<in> set es. score e' \<le> score e) es)"

definition hash_score :: "string \<Rightarrow> BackendSelectionCandidate \<Rightarrow> real" where
  "hash_score hash_key c =
     weighted_rendezvous_score hash_key (ca_backend_name c) (real (unat (max (br_weight (ca_backend_ref c)) 1)))"

definition best_by_hash :: "string \<Rightarrow> BackendSelectionCandidate list \<Rightarrow> BackendSelectionCandidate option" where
  "best_by_hash hash_key cs = find (\<lambda>c. \<forall>c' \<in> set cs. hash_score hash_key c' \<le> hash_score hash_key c) cs"

lemma endpoint_by_hash_exists:
  assumes "eligible_endpoints lib snapshot (ca_cluster c) (ca_backend_name c) now \<noteq> []"
  obtains e where "endpoint_by_hash lib snapshot c hash_key now = Some e"
    and "e \<in> set (eligible_endpoints lib snapshot (ca_cluster c) (ca_backend_name c) now)"
proof -
  obtain e where "endpoint_by_hash lib snapshot c hash_key now = Some e"
    unfolding endpoint_by_hash_def Let_def by (rule find_maximal [OF assms])
  moreover from this have "e \<in> set (eligible_endpoints lib snapshot (ca_cluster c) (ca_backend_name c) now)"
    by (auto simp: endpoint_by_hash_def Let_def find_Some_iff)
  ultimately show ?thesis by (rule that)
qed

lemma hash_candidate_eq:
  assumes "endpoint_by_hash lib snapshot c hash_key (w_clock w (w_reads w)) = Some e"
  shows "hash_candidate lib snapshot route_session hash_key c (best, w) =
    (True, hash_better best (hash_score hash_key c) (resolved_as snapshot route_session c e), snd (instant_now w))"
  using assms
  by (simp add: hash_candidate_def select_by_hash_eq endpoint_by_hash_def Let_def hash_score_def resolved_as_def)

text \<open>
  The visit reads the clock once per candidate and keeps the first candidate of the highest
  score, with the endpoint its own reading of the clock gave.
\<close>

lemma hash_visit:
  assumes "\<And>c now. c \<in> set cs \<Longrightarrow> eligible_endpoints lib snapshot (ca_cluster c) (ca_backend_name c) now \<noteq> []"
  shows "\<exists>best. visit_while (hash_candidate lib snapshot route_session hash_key) cs (None, w) =
      (True, best, w\<lparr> w_reads := w_reads w + length cs \<rparr>)
    \<and> (case best_by_hash hash_key cs of
        None \<Rightarrow> best = None
      | Some c \<Rightarrow> \<exists>n e. w_reads w \<le> n \<and> endpoint_by_hash lib snapshot c hash_key (w_clock w n) = Some e
          \<and> best = Some (hash_score hash_key c, resolved_as snapshot route_session c e))"
  using assms
proof (induction cs rule: rev_induct)
  case (snoc c cs)
  let ?w = "w\<lparr> w_reads := w_reads w + length cs \<rparr>"
  obtain best where v: "visit_while (hash_candidate lib snapshot route_session hash_key) cs (None, w) = (True, best, ?w)"
    and b: "case best_by_hash hash_key cs of None \<Rightarrow> best = None
      | Some c \<Rightarrow> \<exists>n e. w_reads w \<le> n \<and> endpoint_by_hash lib snapshot c hash_key (w_clock w n) = Some e
          \<and> best = Some (hash_score hash_key c, resolved_as snapshot route_session c e)"
    using snoc by auto
  obtain e where e: "endpoint_by_hash lib snapshot c hash_key (w_clock ?w (w_reads ?w)) = Some e"
    using endpoint_by_hash_exists snoc.prems [of c] by (metis list.set_intros(1) set_append Un_iff)
  have "visit_while (hash_candidate lib snapshot route_session hash_key) (cs @ [c]) (None, w) =
      (True, hash_better best (hash_score hash_key c) (resolved_as snapshot route_session c e),
       w\<lparr> w_reads := w_reads w + length (cs @ [c]) \<rparr>)"
    using v by (simp add: visit_while_append hash_candidate_eq [OF e] instant_now_def)
  moreover have m: "map_option (\<lambda>z. (hash_score hash_key z, z)) (best_by_hash hash_key (cs @ [c])) =
      hash_better (map_option (\<lambda>z. (hash_score hash_key z, z)) (best_by_hash hash_key cs)) (hash_score hash_key c) c"
    unfolding best_by_hash_def by (rule hash_best_snoc)
  have "case best_by_hash hash_key (cs @ [c]) of None \<Rightarrow> False
      | Some z \<Rightarrow> \<exists>n e'. w_reads w \<le> n \<and> endpoint_by_hash lib snapshot z hash_key (w_clock w n) = Some e'
          \<and> hash_better best (hash_score hash_key c) (resolved_as snapshot route_session c e) =
            Some (hash_score hash_key z, resolved_as snapshot route_session z e')"
  proof (cases "best_by_hash hash_key cs")
    case None
    then have "best_by_hash hash_key (cs @ [c]) = Some c" using m by (simp add: hash_better_def)
    then show ?thesis using None b e by (auto simp: hash_better_def intro!: exI [of _ "w_reads w + length cs"])
  next
    case (Some z)
    then have "best_by_hash hash_key (cs @ [c]) = (if hash_score hash_key c \<le> hash_score hash_key z then Some z else Some c)"
      using m by (auto simp: hash_better_def split: if_splits)
    then show ?thesis using Some b e
      by (auto simp: hash_better_def intro: exI [of _ "w_reads w + length cs"])
  qed
  ultimately show ?case by (auto split: option.splits)
qed (simp add: best_by_hash_def)

section \<open>Safety\<close>

text \<open>
  What a resolution may return: an eligible endpoint, at some reading of the clock, of the
  cluster of a reference with a positive weight.
\<close>

definition servable ::
    "Lib \<Rightarrow> Snapshot \<Rightarrow> BackendRef list \<Rightarrow> World \<Rightarrow> string \<Rightarrow> BackendEndpoint \<Rightarrow> Filter list \<Rightarrow> bool" where
  "servable lib snapshot refs w name endpoint filters \<longleftrightarrow>
     (\<exists>r \<in> set refs. br_weight r \<noteq> 0 \<and> br_filters r = filters \<and>
        (\<exists>index cluster. find_backend_cluster_index snapshot r = Some (index, cluster)
           \<and> name = backend_name_for_index snapshot index cluster
           \<and> (\<exists>n. w_reads w \<le> n \<and>
                endpoint \<in> set (eligible_endpoints lib snapshot cluster name (w_clock w n)))))"

definition same_clock :: "World \<Rightarrow> World \<Rightarrow> bool" where
  "same_clock w w' \<longleftrightarrow> w_clock w' = w_clock w \<and> w_reads w \<le> w_reads w'"

lemma same_clock_refl [simp]: "same_clock w w" by (simp add: same_clock_def)

lemma same_clock_trans: "same_clock w w' \<Longrightarrow> same_clock w' w'' \<Longrightarrow> same_clock w w''"
  by (simp add: same_clock_def)

lemma same_clock_steps [simp]:
  "same_clock w (snd (instant_now w))" "same_clock w (snd (next_backend_ticket w))"
  "same_clock w (snd (next_endpoint_ticket w))" "same_clock w (snd (next_mirror_ticket w))"
  by (simp_all add: same_clock_def instant_now_def next_backend_ticket_def next_endpoint_ticket_def next_mirror_ticket_def)

lemma servable_mono: "same_clock w w' \<Longrightarrow> servable lib snapshot refs w' name e fs \<Longrightarrow> servable lib snapshot refs w name e fs"
  unfolding servable_def same_clock_def by (metis order_trans)

definition sound_choice :: "Lib \<Rightarrow> Snapshot \<Rightarrow> BackendRef list \<Rightarrow> World \<Rightarrow> ResolvedHttpBackend option \<Rightarrow> bool" where
  "sound_choice lib snapshot refs w selected \<longleftrightarrow>
     (\<forall>b. selected = Some b \<longrightarrow> servable lib snapshot refs w (rb_backend_name b) (rb_endpoint b) (rb_filters b))"

lemma sound_choice_mono:
  "same_clock w w' \<Longrightarrow> sound_choice lib snapshot refs w' b \<Longrightarrow> sound_choice lib snapshot refs w b"
  unfolding sound_choice_def using servable_mono by blast

lemma sound_choice_None [simp]: "sound_choice lib snapshot refs w None" by (simp add: sound_choice_def)

lemma persistent_sound:
  "sound_choice lib snapshot refs w (fst (resolve_persistent_http_backend lib snapshot refs target sp w))
   \<and> same_clock w (snd (resolve_persistent_http_backend lib snapshot refs target sp w))"
proof (induction refs)
  case (Cons r rs)
  have up: "sound_choice lib snapshot rs w b \<Longrightarrow> sound_choice lib snapshot (r # rs) w b" for b
    unfolding sound_choice_def servable_def by auto
  show ?case
    using Cons up
    by (auto simp: Let_def instant_now_def same_clock_def sound_choice_def servable_def eligible_endpoints_def
        find_Some_iff split: option.splits if_splits)
qed simp

lemma policy_loop_sound:
  "sound_choice lib snapshot refs w (fst (policy_persistent_loop lib snapshot refs resolver rs w))
   \<and> same_clock w (snd (policy_persistent_loop lib snapshot refs resolver rs w))"
proof (induction rs arbitrary: w)
  case (Cons r rs)
  have step: "sound_choice lib snapshot refs w (fst res) \<and> same_clock w (snd res)"
    if "res = (case resolve_persistent_http_backend lib snapshot refs target sp w of
          (Some selected, w) \<Rightarrow> (Some selected, w)
        | (None, w) \<Rightarrow> policy_persistent_loop lib snapshot refs resolver rs w)" for res target sp
  proof -
    obtain b w' where r: "resolve_persistent_http_backend lib snapshot refs target sp w = (b, w')" by fastforce
    then have b: "sound_choice lib snapshot refs w b" "same_clock w w'"
      using persistent_sound [of lib snapshot refs w target sp] by simp_all
    show ?thesis
    proof (cases b)
      case None
      then show ?thesis using that r b Cons.IH [of w'] sound_choice_mono same_clock_trans by fastforce
    qed (use that r b in simp)
  qed
  show ?case
    using Cons.IH [of w] step [OF refl] by (auto simp: Let_def split: option.split)
qed simp

lemma candidate_servable:
  assumes "c \<in> set (candidates lib snapshot now refs)" and "w_reads w \<le> n"
    and "e \<in> set (eligible_endpoints lib snapshot (ca_cluster c) (ca_backend_name c) (w_clock w n))"
  shows "servable lib snapshot refs w (rb_backend_name (resolved_as snapshot rs c e))
    (rb_endpoint (resolved_as snapshot rs c e)) (rb_filters (resolved_as snapshot rs c e))"
  unfolding servable_def resolved_as_def
  using candidatesD(1-3) [OF assms(1)] assms(2,3) by auto

lemma candidate_sound:
  assumes "c \<in> set (candidates lib snapshot now refs)" and "w_reads w \<le> n"
    and "e \<in> set (eligible_endpoints lib snapshot (ca_cluster c) (ca_backend_name c) (w_clock w n))"
  shows "sound_choice lib snapshot refs w (Some (resolved_as snapshot rs c e))"
  unfolding sound_choice_def using candidate_servable [OF assms] by blast

text \<open>The consistent hash, where its key is known, chooses a candidate if there is one.\<close>

definition hash_key_for :: "LoadBalancingPolicy option \<Rightarrow> RequestMeta \<Rightarrow> string option" where
  "hash_key_for policy request =
     (case policy of
        None \<Rightarrow> None
      | Some p \<Rightarrow> if lb_policy_type p = ''ConsistentHash'' then consistent_hash_key p request else None)"

lemma consistent_hash_choice:
  "case hash_key_for policy request of
     None \<Rightarrow> resolve_consistent_hash_http_backend lib snapshot refs now policy route_session request w = (None, w)
   | Some hash_key \<Rightarrow>
       (case best_by_hash hash_key (candidates lib snapshot now refs) of
          None \<Rightarrow> candidates lib snapshot now refs = []
            \<and> fst (resolve_consistent_hash_http_backend lib snapshot refs now policy route_session request w) = None
        | Some c \<Rightarrow> \<exists>n e. w_reads w \<le> n \<and> endpoint_by_hash lib snapshot c hash_key (w_clock w n) = Some e
            \<and> fst (resolve_consistent_hash_http_backend lib snapshot refs now policy route_session request w) =
              Some (resolved_as snapshot route_session c e))
       \<and> same_clock w (snd (resolve_consistent_hash_http_backend lib snapshot refs now policy route_session request w))"
proof (cases "hash_key_for policy request")
  case None
  then show ?thesis
    by (auto simp: hash_key_for_def resolve_consistent_hash_http_backend_def split: option.splits if_splits)
next
  case (Some key)
  let ?cs = "candidates lib snapshot now refs"
  obtain best where v: "visit_while (hash_candidate lib snapshot route_session key) ?cs (None, w) =
      (True, best, w\<lparr> w_reads := w_reads w + length ?cs \<rparr>)"
    and b: "case best_by_hash key ?cs of None \<Rightarrow> best = None
      | Some c \<Rightarrow> \<exists>n e. w_reads w \<le> n \<and> endpoint_by_hash lib snapshot c key (w_clock w n) = Some e
          \<and> best = Some (hash_score key c, resolved_as snapshot route_session c e)"
    using hash_visit [of ?cs lib snapshot route_session key w] candidatesD(4) by blast
  have "resolve_consistent_hash_http_backend lib snapshot refs now policy route_session request w =
      (map_option snd best, w\<lparr> w_reads := w_reads w + length ?cs \<rparr>)"
    using Some visit_candidates_state [of lib snapshot now "hash_candidate lib snapshot route_session key" refs
        BackendCandidateVisit_default "(None, w)"]
    by (auto simp: hash_key_for_def resolve_consistent_hash_http_backend_def visit_http_backend_candidates_def v
        split: option.splits if_splits prod.splits)
  moreover have "?cs = []" if "best_by_hash key ?cs = None"
    using that find_maximal [of ?cs "hash_score key"] by (fastforce simp: best_by_hash_def)
  ultimately show ?thesis using Some b by (fastforce simp: same_clock_def split: option.split)
qed

section \<open>The resolution\<close>

definition weights_fit :: "BackendRef list \<Rightarrow> bool" where
  "weights_fit refs = (sum_list (map (\<lambda>r. unat (br_weight r)) refs) < 2 ^ 64)"

lemma candidates_weight:
  "sum_list (map weight_of (candidates lib snapshot now refs)) \<le> sum_list (map (\<lambda>r. unat (br_weight r)) refs)"
proof (induction refs)
  case (Cons r rs)
  have "weight_of c = unat (br_weight r)" if "ref_candidate lib snapshot now r = Some c" for c
    using that by (auto simp: ref_candidate_def weight_of_def Let_def split: if_splits option.splits)
  with Cons show ?case by (auto split: option.split)
qed simp

definition total_weight_of :: "BackendSelectionCandidate list \<Rightarrow> u64" where
  "total_weight_of cs = of_nat (sum_list (map weight_of cs))"

lemma total_weight_unat:
  "weights_fit refs \<Longrightarrow>
    unat (total_weight_of (candidates lib snapshot now refs)) = sum_list (map weight_of (candidates lib snapshot now refs))"
  using candidates_weight [of lib snapshot now refs]
  by (simp add: total_weight_of_def weights_fit_def unat_of_nat take_bit_nat_eq_self)

definition chosen_candidate ::
    "Lib \<Rightarrow> Snapshot \<Rightarrow> BackendRef list \<Rightarrow> u64 \<Rightarrow> BackendSelectionCandidate option" where
  "chosen_candidate lib snapshot refs ticket =
     (let cs = candidates lib snapshot 0 refs
      in map_option (\<lambda>i. cs ! i) (weighted_pick (map weight_of cs) (unat (spread_weighted_target ticket (total_weight_of cs)))))"

lemma candidate_weight_pos: "c \<in> set (candidates lib snapshot now refs) \<Longrightarrow> 0 < weight_of c"
  using candidatesD(2) by (simp add: weight_of_def unat_gt_0)

lemma chosen_candidate_exists:
  assumes "weights_fit refs" and "candidates lib snapshot now refs \<noteq> []"
  obtains c where "chosen_candidate lib snapshot refs ticket = Some c" and "c \<in> set (candidates lib snapshot now refs)"
proof -
  let ?cs = "candidates lib snapshot now refs"
  have cs: "candidates lib snapshot 0 refs = ?cs" by (rule candidates_any_time)
  have "0 < sum_list (map weight_of ?cs)"
    using assms(2) candidate_weight_pos [of "hd ?cs" lib snapshot now refs] by (cases ?cs) auto
  then have "0 < total_weight_of ?cs" using total_weight_unat [OF assms(1), of lib snapshot now]
    by (simp add: word_less_nat_alt)
  then have "unat (spread_weighted_target ticket (total_weight_of ?cs)) < sum_list (map weight_of ?cs)"
    using spread_target_bound [of "total_weight_of ?cs" ticket] total_weight_unat [OF assms(1), of lib snapshot now]
    by (simp add: word_less_nat_alt)
  from weighted_pick_exists [OF this] show ?thesis
    using that by (auto simp: chosen_candidate_def cs Let_def)
qed

lemma weighted_outcome:
  fixes lib snapshot refs now
  defines "v \<equiv> fst (visit_http_backend_candidates lib snapshot refs now (\<lambda>_ s. (True, s)) ())"
  shows "cv_candidate_count v = length (candidates lib snapshot now refs)"
    and "cv_total_weight v = total_weight_of (candidates lib snapshot now refs)"
    and "visit_error v =
      (if \<exists>r \<in> set refs. unhealthy_ref lib snapshot now r then Some NoHealthyBackends
       else if \<exists>r \<in> set refs. invalid_ref snapshot r then Some InvalidBackendRefs else None)"
  by (simp_all add: v_def visit_http_backend_candidates_def visit_candidates_outcome mark_refs_fields
      BackendCandidateVisit_default_def total_weight_of_def visit_error_def)

definition effective_policy :: "Lib \<Rightarrow> Snapshot \<Rightarrow> Instant \<Rightarrow> BackendRef list \<Rightarrow> LoadBalancingPolicy option" where
  "effective_policy lib snapshot now refs =
     cv_effective_load_balancing (fst (visit_http_backend_candidates lib snapshot refs now (\<lambda>_ s. (True, s)) ()))"

lemma weighted_no_candidates:
  assumes "candidates lib snapshot now refs = []"
  shows "fst (resolve_weighted_http_backend lib snapshot refs route_session request w) =
    \<lparr> hb_selected = None, hb_error =
      (if \<exists>r \<in> set refs. unhealthy_ref lib snapshot (w_clock w (w_reads w)) r then Some NoHealthyBackends
       else if \<exists>r \<in> set refs. invalid_ref snapshot r then Some InvalidBackendRefs else None) \<rparr>"
proof -
  have "candidates lib snapshot (w_clock w (w_reads w)) refs = []" using assms candidates_any_time by metis
  then show ?thesis
    by (simp add: resolve_weighted_http_backend_def instant_now_def weighted_outcome)
qed

text \<open>With candidates and no hash key the ticket decides.\<close>

lemma weighted_by_ticket:
  assumes "weights_fit refs" and "candidates lib snapshot now refs \<noteq> []"
    and "hash_key_for (effective_policy lib snapshot (w_clock w (w_reads w)) refs) request = None"
    and "chosen_candidate lib snapshot refs (ss_backend_cursor (w_selection w)) = Some c"
  shows "\<exists>w'. same_clock w w' \<and> w_reads w' = Suc (w_reads w) \<and>
      w_selection w' = (w_selection w)\<lparr> ss_backend_cursor := ss_backend_cursor (w_selection w) + 1 \<rparr> \<and>
      resolve_weighted_http_backend lib snapshot refs route_session request w =
        map_prod the id (pick_result lib snapshot route_session w' c)"
proof -
  let ?now = "w_clock w (w_reads w)" and ?w1 = "snd (instant_now w)"
  let ?w2 = "snd (next_backend_ticket ?w1)"
  let ?cs = "candidates lib snapshot ?now refs"
  let ?t = "spread_weighted_target (ss_backend_cursor (w_selection w)) (total_weight_of ?cs)"
  have cs: "?cs \<noteq> []" "candidates lib snapshot 0 refs = ?cs" using assms(2) candidates_any_time by metis+
  have hash: "resolve_consistent_hash_http_backend lib snapshot refs ?now
      (effective_policy lib snapshot ?now refs) route_session request ?w1 = (None, ?w1)"
    using consistent_hash_choice [where policy = "effective_policy lib snapshot ?now refs" and request = request
        and lib = lib and snapshot = snapshot and refs = refs and now = ?now and route_session = route_session
        and w = ?w1] assms(3) by simp
  have "sum_list (map weight_of ?cs) < 2 ^ 64"
    using candidates_weight [of lib snapshot ?now refs] assms(1) by (simp add: weights_fit_def)
  then have "snd (snd (visit_while (pick_candidate lib snapshot route_session ?t) ?cs (0, None, ?w2))) =
      pick_result lib snapshot route_session ?w2 c"
    using pick_visit [of 0 ?t ?cs lib snapshot route_session None ?w2] assms(4) cs(2)
    by (auto simp: chosen_candidate_def Let_def split: option.splits)
  then have pick: "snd (snd (visit_http_backend_candidates lib snapshot refs ?now
      (pick_candidate lib snapshot route_session ?t) (0, None, ?w2))) = pick_result lib snapshot route_session ?w2 c"
    unfolding visit_http_backend_candidates_def visit_candidates_state by simp
  obtain p w3 where some: "pick_result lib snapshot route_session ?w2 c = (Some p, w3)"
    by (cases "select_cluster_endpoint lib snapshot (ca_cluster c) (ca_backend_name c) ?w2")
      (simp add: pick_result_def)
  have "resolve_weighted_http_backend lib snapshot refs route_session request w =
      map_prod the id (pick_result lib snapshot route_session ?w2 c)"
    using cs(1) hash pick some
    by (auto simp: resolve_weighted_http_backend_def instant_now_def weighted_outcome effective_policy_def
        next_backend_ticket_def Let_def split: prod.splits option.splits)
  then show ?thesis
    by (intro exI [of _ ?w2]) (auto simp: same_clock_def instant_now_def next_backend_ticket_def)
qed

lemma weighted_result:
  assumes fit: "clusters_fit snapshot" "weights_fit refs" and ne: "candidates lib snapshot now refs \<noteq> []"
  shows "\<exists>c \<in> set (candidates lib snapshot now refs). \<exists>n e. w_reads w \<le> n \<and>
    e \<in> set (eligible_endpoints lib snapshot (ca_cluster c) (ca_backend_name c) (w_clock w n)) \<and>
    fst (resolve_weighted_http_backend lib snapshot refs route_session request w) =
      \<lparr> hb_selected = Some (resolved_as snapshot route_session c e), hb_error = None \<rparr>"
proof -
  let ?now = "w_clock w (w_reads w)" and ?w1 = "snd (instant_now w)"
  let ?policy = "effective_policy lib snapshot ?now refs"
  have cs: "candidates lib snapshot ?now refs = candidates lib snapshot now refs" by (rule candidates_any_time)
  show ?thesis
  proof (cases "hash_key_for ?policy request")
    case None
    obtain c where c: "chosen_candidate lib snapshot refs (ss_backend_cursor (w_selection w)) = Some c"
      "c \<in> set (candidates lib snapshot now refs)"
      by (rule chosen_candidate_exists [OF fit(2) ne])
    obtain w' where w': "same_clock w w'" "resolve_weighted_http_backend lib snapshot refs route_session request w =
        map_prod the id (pick_result lib snapshot route_session w' c)"
      using weighted_by_ticket [OF fit(2) ne None c(1)] by blast
    obtain e where "e \<in> set (eligible_endpoints lib snapshot (ca_cluster c) (ca_backend_name c) (w_clock w' (w_reads w')))"
      "fst (pick_result lib snapshot route_session w' c) =
        Some \<lparr> hb_selected = Some (resolved_as snapshot route_session c e), hb_error = None \<rparr>"
      using pick_result_endpoint [OF candidate_fits [OF fit(1) c(2)] candidatesD(4) [OF c(2)]] by blast
    then show ?thesis using c(2) w' by (intro bexI [of _ c] exI [of _ "w_reads w'"] exI [of _ e])
        (auto simp: same_clock_def)
  next
    case (Some key)
    obtain c where c: "best_by_hash key (candidates lib snapshot ?now refs) = Some c"
      unfolding best_by_hash_def by (rule find_maximal [of "candidates lib snapshot ?now refs"]) (use ne cs in auto)
    obtain n e where e: "w_reads ?w1 \<le> n" "endpoint_by_hash lib snapshot c key (w_clock ?w1 n) = Some e"
      "fst (resolve_consistent_hash_http_backend lib snapshot refs ?now ?policy route_session request ?w1) =
        Some (resolved_as snapshot route_session c e)"
      using consistent_hash_choice [where policy = ?policy and request = request and lib = lib
          and snapshot = snapshot and refs = refs and now = ?now and route_session = route_session and w = ?w1]
        Some c by auto
    have "c \<in> set (candidates lib snapshot now refs)" using c cs by (auto simp: best_by_hash_def find_Some_iff)
    moreover have "e \<in> set (eligible_endpoints lib snapshot (ca_cluster c) (ca_backend_name c) (w_clock w n))"
      using e(2) by (auto simp: endpoint_by_hash_def Let_def find_Some_iff instant_now_def)
    moreover have "fst (resolve_weighted_http_backend lib snapshot refs route_session request w) =
        \<lparr> hb_selected = Some (resolved_as snapshot route_session c e), hb_error = None \<rparr>"
      using e(3) ne cs
      by (auto simp: resolve_weighted_http_backend_def instant_now_def weighted_outcome effective_policy_def
          Let_def split: prod.splits option.splits)
    ultimately show ?thesis using e(1) by (auto simp: instant_now_def intro!: bexI [of _ c] exI [of _ n])
  qed
qed

text \<open>A resolution is a sound session hit, or the weighted choice.\<close>

lemma resolve_cases:
  fixes lib snapshot refs route_session request resolver w
  defines "res \<equiv> resolve_http_backend_refs_with_session lib snapshot refs route_session request resolver w"
  obtains (session) b where "fst res = \<lparr> hb_selected = Some b, hb_error = None \<rparr>"
      "sound_choice lib snapshot refs w (Some b)" "same_clock w (snd res)"
    | (weighted) w' where "same_clock w w'"
      "res = resolve_weighted_http_backend lib snapshot refs route_session request w'"
proof -
  let ?p1 = "case Option.bind route_session resolver of None \<Rightarrow> (None, w)
    | Some target \<Rightarrow> resolve_persistent_http_backend lib snapshot refs target None w"
  obtain b1 w1 where p1: "?p1 = (b1, w1)" by (cases ?p1)
  have s1: "sound_choice lib snapshot refs w b1" "same_clock w w1"
    using p1 persistent_sound [of lib snapshot refs w _ None] by (auto split: option.splits) (metis fst_conv snd_conv)+
  show ?thesis
  proof (cases b1)
    case (Some b)
    then show ?thesis using session [of b] s1 p1 by (simp add: res_def resolve_http_backend_refs_with_session_def)
  next
    case None
    let ?p2 = "if route_session = None
      then resolve_backend_policy_persistent_http_backend lib snapshot refs resolver w1 else (None, w1)"
    obtain b2 w2 where p2: "?p2 = (b2, w2)" by (cases ?p2)
    have s2: "sound_choice lib snapshot refs w1 b2" "same_clock w1 w2"
      using p2 policy_loop_sound [of lib snapshot refs w1 resolver refs]
      by (auto simp: resolve_backend_policy_persistent_http_backend_def split: if_splits)
    show ?thesis
    proof (cases b2)
      case b: (Some b)
      then have "sound_choice lib snapshot refs w (Some b)" using s2 s1(2) sound_choice_mono by blast
      then show ?thesis using session [of b] same_clock_trans [OF s1(2) s2(2)] b None p1 p2
        by (simp add: res_def resolve_http_backend_refs_with_session_def)
    next
      case b: None
      then show ?thesis using weighted [of w2] same_clock_trans [OF s1(2) s2(2)] None p1 p2
        by (simp add: res_def resolve_http_backend_refs_with_session_def)
    qed
  qed
qed

lemma servable_candidate: "servable lib snapshot refs w name e fs \<Longrightarrow> candidates lib snapshot now refs \<noteq> []"
proof -
  assume "servable lib snapshot refs w name e fs"
  then obtain r index cluster n where r: "r \<in> set refs" "br_weight r \<noteq> 0"
    "find_backend_cluster_index snapshot r = Some (index, cluster)"
    "e \<in> set (eligible_endpoints lib snapshot cluster (backend_name_for_index snapshot index cluster) (w_clock w n))"
    unfolding servable_def by blast
  then have "eligible_endpoints lib snapshot cluster (backend_name_for_index snapshot index cluster) now \<noteq> []"
    using eligible_empty_any_time by (metis empty_iff empty_set)
  with r have "\<exists>c. ref_candidate lib snapshot now r = Some c" by (simp add: ref_candidate_def Let_def)
  with r(1) show ?thesis using candidates_mem_iff by (metis empty_iff empty_set)
qed

lemma resolve_sound:
  assumes "clusters_fit snapshot" and "weights_fit refs"
  shows "sound_choice lib snapshot refs w
    (hb_selected (fst (resolve_http_backend_refs_with_session lib snapshot refs route_session request resolver w)))"
proof (cases rule: resolve_cases [of lib snapshot refs route_session request resolver w])
  case (weighted w')
  show ?thesis
  proof (cases "candidates lib snapshot 0 refs = []")
    case True
    then show ?thesis using weighted weighted_no_candidates [of lib snapshot 0 refs] by simp
  next
    case False
    obtain c n e where "c \<in> set (candidates lib snapshot 0 refs)" "w_reads w' \<le> n"
      "e \<in> set (eligible_endpoints lib snapshot (ca_cluster c) (ca_backend_name c) (w_clock w' n))"
      "fst (resolve_weighted_http_backend lib snapshot refs route_session request w') =
        \<lparr> hb_selected = Some (resolved_as snapshot route_session c e), hb_error = None \<rparr>"
      using weighted_result [OF assms False] by blast
    then show ?thesis using weighted candidate_sound sound_choice_mono by fastforce
  qed
qed simp

lemma resolve_none_iff:
  assumes "clusters_fit snapshot" and "weights_fit refs"
  shows "hb_selected (fst (resolve_http_backend_refs_with_session lib snapshot refs route_session request resolver w)) = None
    \<longleftrightarrow> candidates lib snapshot now refs = []"
proof (cases rule: resolve_cases [of lib snapshot refs route_session request resolver w])
  case (session b)
  then show ?thesis using servable_candidate by (simp add: sound_choice_def)
next
  case (weighted w')
  show ?thesis
  proof (cases "candidates lib snapshot now refs = []")
    case True
    then show ?thesis using weighted weighted_no_candidates [OF True] by simp
  next
    case False
    then show ?thesis
      using weighted weighted_result [OF assms False, of w' route_session request] by auto
  qed
qed

lemma unhealthy_any_time: "unhealthy_ref lib snapshot now r = unhealthy_ref lib snapshot now' r"
  unfolding unhealthy_ref_def using ref_candidate_any_time by metis

lemma resolve_error:
  assumes "candidates lib snapshot now refs = []"
  shows "hb_error (fst (resolve_http_backend_refs_with_session lib snapshot refs route_session request resolver w)) =
    (if \<exists>r \<in> set refs. unhealthy_ref lib snapshot now r then Some NoHealthyBackends
     else if \<exists>r \<in> set refs. invalid_ref snapshot r then Some InvalidBackendRefs else None)"
proof (cases rule: resolve_cases [of lib snapshot refs route_session request resolver w])
  case (session b)
  then show ?thesis using servable_candidate assms by (simp add: sound_choice_def)
next
  case (weighted w')
  then show ?thesis using weighted_no_candidates [OF assms]
      unhealthy_any_time [of lib snapshot "w_clock w' (w_reads w')" _ now] by simp
qed

section \<open>Fairness\<close>

lemma pick_sum:
  assumes "0 < tot" and "unat tot = sum_list (map f cs)" and "(unat t0 + unat tot) * unat tot \<le> 2 ^ 64"
  shows "card {k. k < unat tot \<and> (\<exists>i. weighted_pick (map f cs) (unat (spread_weighted_target (t0 + of_nat k) tot)) = Some i
    \<and> P (cs ! i))} = sum_list (map f (filter P cs))"
proof -
  let ?pick = "\<lambda>k. weighted_pick (map f cs) (unat (spread_weighted_target (t0 + of_nat k) tot))"
  let ?A = "\<lambda>i. {k. k < unat tot \<and> ?pick k = Some i}"
  let ?I = "{i \<in> {0..<length cs}. P (cs ! i)}"
  have "{k. k < unat tot \<and> (\<exists>i. ?pick k = Some i \<and> P (cs ! i))} = (\<Union>i \<in> ?I. ?A i)"
    using weighted_pick_positive [of "map f cs"] by fastforce
  also have "card \<dots> = (\<Sum>i \<in> ?I. card (?A i))" by (rule card_UN_disjoint) auto
  also have "\<dots> = (\<Sum>i \<in> ?I. f (cs ! i))"
    using weighted_fair [OF assms(1,2) _ assms(3)] by (intro sum.cong) auto
  also have "\<dots> = (\<Sum>i = 0..<length cs. if P (cs ! i) then f (cs ! i) else 0)"
    by (rule sum.inter_filter) simp
  also have "\<dots> = sum_list (map (\<lambda>c. if P c then f c else 0) cs)" by (simp add: sum_list_sum_nth)
  finally show ?thesis by (simp add: sum_list_map_filter')
qed

lemma no_session_resolution:
  "resolve_http_backend_refs_with_session lib snapshot refs route_session request (\<lambda>_. None) w =
     resolve_weighted_http_backend lib snapshot refs route_session request w"
proof -
  have "policy_persistent_loop lib snapshot refs (\<lambda>_. None) rs w = (None, w)" for rs
    by (induction rs) (auto simp: Let_def split: option.split)
  then show ?thesis
    by (cases route_session)
      (simp_all add: resolve_http_backend_refs_with_session_def resolve_backend_policy_persistent_http_backend_def)
qed

lemma resolution_by_ticket:
  assumes "clusters_fit snapshot" and "weights_fit refs" and "candidates lib snapshot now refs \<noteq> []"
    and "\<And>t. hash_key_for (effective_policy lib snapshot t refs) request = None"
  shows "\<exists>c. chosen_candidate lib snapshot refs (ss_backend_cursor (w_selection w)) = Some c \<and>
    map_option rb_backend_name (hb_selected (fst (resolve_http_backend_refs_with_session lib snapshot refs
      route_session request (\<lambda>_. None) w))) = Some (ca_backend_name c)"
proof -
  obtain c where c: "chosen_candidate lib snapshot refs (ss_backend_cursor (w_selection w)) = Some c"
    "c \<in> set (candidates lib snapshot now refs)"
    by (rule chosen_candidate_exists [OF assms(2,3)])
  obtain w' where w': "resolve_weighted_http_backend lib snapshot refs route_session request w =
      map_prod the id (pick_result lib snapshot route_session w' c)"
    using weighted_by_ticket [OF assms(2,3) assms(4) c(1)] by blast
  obtain e where "fst (pick_result lib snapshot route_session w' c) =
      Some \<lparr> hb_selected = Some (resolved_as snapshot route_session c e), hb_error = None \<rparr>"
    using pick_result_endpoint [OF candidate_fits [OF assms(1) c(2)] candidatesD(4) [OF c(2)]] by blast
  then show ?thesis using c(1) w' by (simp add: no_session_resolution resolved_as_def)
qed

lemma weights_respected:
  fixes ws :: "nat \<Rightarrow> World" and t0 :: u64 and lib snapshot refs route_session request
  defines "resolve k \<equiv> resolve_http_backend_refs_with_session lib snapshot refs route_session request (\<lambda>_. None) (ws k)"
  assumes fit: "clusters_fit snapshot" "weights_fit refs"
    and hash: "\<And>t. hash_key_for (effective_policy lib snapshot t refs) request = None"
    and tickets: "\<And>k. ss_backend_cursor (w_selection (ws k)) = t0 + of_nat k"
    and period: "W = sum_list (map weight_of (candidates lib snapshot now refs))"
    and range: "(unat t0 + W) * W \<le> 2 ^ 64"
  shows "card {k. k < W \<and> map_option rb_backend_name (hb_selected (fst (resolve k))) = Some name} =
    sum_list (map weight_of (filter (\<lambda>c. ca_backend_name c = name) (candidates lib snapshot now refs)))"
proof (cases "candidates lib snapshot now refs = []")
  case False
  let ?cs = "candidates lib snapshot now refs"
  let ?tot = "total_weight_of ?cs"
  have cs: "candidates lib snapshot 0 refs = ?cs" by (rule candidates_any_time)
  have W: "unat ?tot = W" using total_weight_unat [OF fit(2), of lib snapshot now] period by simp
  have "0 < W" using False candidate_weight_pos [of "hd ?cs" lib snapshot now refs] period by (cases ?cs) auto
  then have tot: "0 < ?tot" using W by (simp add: word_less_nat_alt)
  have "map_option rb_backend_name (hb_selected (fst (resolve k))) = Some name \<longleftrightarrow>
      (\<exists>i. weighted_pick (map weight_of ?cs) (unat (spread_weighted_target (t0 + of_nat k) ?tot)) = Some i
        \<and> ca_backend_name (?cs ! i) = name)" for k
    using resolution_by_ticket [OF fit False hash, of "ws k" route_session] tickets [of k]
    by (auto simp: resolve_def chosen_candidate_def cs Let_def)
  then show ?thesis
    using pick_sum [OF tot, of weight_of ?cs t0 "\<lambda>c. ca_backend_name c = name"] W period range by simp
qed (use period in simp)

end
