(* ===== verification/Listener_Index.thy ===== *)
theory Listener_Index
  imports Snapshot_State
begin

text \<open>
  The listener indexes of a snapshot, \<open>rebuild_listener_indexes\<close> of
  \<open>crates/ntgw-ir/src/snapshot.rs\<close>, and the listeners a request may have arrived on, the first half
  of \<open>http_selection/candidates.rs\<close>. The lemmas say which listeners each index holds, that going
  through an index visits the same listeners as the scan, and that the listeners kept for a
  request are exactly those with the greatest hostname score.
\<close>

section \<open>Listener kinds\<close>

definition is_http_listener :: "string \<Rightarrow> bool" where
  "is_http_listener protocol =
     (protocol \<in> {''LISTENER_PROTOCOL_HTTP'', ''LISTENER_PROTOCOL_HTTPS'', ''LISTENER_PROTOCOL_HTTP3'',
                  ''HTTP'', ''HTTPS'', ''HTTP3''})"

definition is_grpc_listener :: "string \<Rightarrow> bool" where
  "is_grpc_listener protocol =
     (protocol \<in> {''LISTENER_PROTOCOL_GRPC'', ''LISTENER_PROTOCOL_HTTP'', ''LISTENER_PROTOCOL_HTTPS'',
                  ''GRPC'', ''HTTP'', ''HTTPS''})"

definition is_https_listener :: "string \<Rightarrow> bool" where
  "is_https_listener protocol = (protocol \<in> {''LISTENER_PROTOCOL_HTTPS'', ''HTTPS''})"

definition route_kind_for_listener :: "string \<Rightarrow> RouteKind option" where
  "route_kind_for_listener protocol =
     (if protocol \<in> {''LISTENER_PROTOCOL_TCP'', ''TCP''} then Some Tcp
      else if protocol \<in> {''LISTENER_PROTOCOL_UDP'', ''UDP''} then Some Udp
      else if protocol \<in> {''LISTENER_PROTOCOL_TLS'', ''LISTENER_PROTOCOL_TLS_PASSTHROUGH'', ''TLS'',
                          ''TLS_PASSTHROUGH''} then Some Tls
      else None)"

datatype ListenerKind = KindHttp | KindGrpc

fun matches_listener_kind :: "Listener \<Rightarrow> ListenerKind \<Rightarrow> bool" where
  "matches_listener_kind listener KindHttp = is_http_listener (ls_protocol listener)"
| "matches_listener_kind listener KindGrpc = is_grpc_listener (ls_protocol listener)"

definition listener_frontend_client_certificate_requirement ::
    "Listener \<Rightarrow> FrontendClientCertificateRequirement" where
  "listener_frontend_client_certificate_requirement listener =
     (case Option.bind (ls_tls listener) tl_frontend_validation of
        None \<Rightarrow> CertNone
      | Some validation \<Rightarrow>
          if trim (fv_mode validation) = ''RejectClientCertificate'' then CertReject
          else if trim (fv_mode validation) = ''AllowInsecureFallback'' then CertNone
          else if fv_ca_pems validation \<noteq> [] then CertRequire
          else CertNone)"

section \<open>Building the indexes\<close>

definition or_insert :: "'k \<Rightarrow> 'v \<Rightarrow> ('k \<rightharpoonup> 'v) \<Rightarrow> ('k \<rightharpoonup> 'v)" where
  "or_insert k v m = (case m k of None \<Rightarrow> m(k \<mapsto> v) | Some _ \<Rightarrow> m)"

definition index_frontend :: "nat \<Rightarrow> Listener \<Rightarrow> Snapshot \<Rightarrow> Snapshot" where
  "index_frontend index listener snapshot =
     (case service_frontend listener of
        None \<Rightarrow> snapshot
      | Some frontend \<Rightarrow>
          let snapshot = snapshot\<lparr> sn_service_frontend_listener_port_index :=
                entry_push (ls_port listener) index (sn_service_frontend_listener_port_index snapshot) \<rparr>;
              snapshot = (if ls_attached_routes listener \<noteq> []
                then snapshot\<lparr> sn_service_frontend_attachment_index :=
                  (sn_service_frontend_attachment_index snapshot)(sf_namespace frontend \<mapsto>
                    insert (sf_name frontend)
                      (case sn_service_frontend_attachment_index snapshot (sf_namespace frontend) of
                         None \<Rightarrow> {} | Some names \<Rightarrow> names)) \<rparr>
                else snapshot)
          in snapshot\<lparr> sn_service_frontend_index :=
               (sn_service_frontend_index snapshot)(ls_name listener \<mapsto> frontend) \<rparr>)"

definition index_certificate :: "Listener \<Rightarrow> Snapshot \<Rightarrow> Snapshot" where
  "index_certificate listener snapshot =
     (let requirement = listener_frontend_client_certificate_requirement listener in
      if requirement \<noteq> CertNone
      then snapshot\<lparr> sn_frontend_client_certificate_index :=
             (sn_frontend_client_certificate_index snapshot)(ls_name listener \<mapsto> requirement) \<rparr>
      else snapshot)"

definition index_http_listener :: "nat \<Rightarrow> Listener \<Rightarrow> Snapshot \<Rightarrow> Snapshot" where
  "index_http_listener index listener snapshot =
     (if is_http_listener (ls_protocol listener)
      then snapshot\<lparr> sn_http_listener_indices := sn_http_listener_indices snapshot @ [index],
                     sn_http_listener_port_index :=
                       entry_push (ls_port listener) index (sn_http_listener_port_index snapshot) \<rparr>
      else snapshot)"

definition index_grpc_listener :: "nat \<Rightarrow> Listener \<Rightarrow> Snapshot \<Rightarrow> Snapshot" where
  "index_grpc_listener index listener snapshot =
     (if is_grpc_listener (ls_protocol listener)
      then snapshot\<lparr> sn_grpc_listener_indices := sn_grpc_listener_indices snapshot @ [index],
                     sn_grpc_listener_port_index :=
                       entry_push (ls_port listener) index (sn_grpc_listener_port_index snapshot) \<rparr>
      else snapshot)"

definition rebuild_listener_step :: "Snapshot \<Rightarrow> nat \<times> Listener \<Rightarrow> Snapshot" where
  "rebuild_listener_step snapshot = (\<lambda>(index, listener).
     let snapshot = snapshot\<lparr> sn_listener_name_index :=
           or_insert (ls_name listener) index (sn_listener_name_index snapshot) \<rparr>;
         snapshot = index_frontend index listener snapshot;
         snapshot = index_certificate listener snapshot;
         snapshot = index_http_listener index listener snapshot
     in index_grpc_listener index listener snapshot)"

definition clear_listener_indexes :: "Snapshot \<Rightarrow> Snapshot" where
  "clear_listener_indexes snapshot = snapshot
     \<lparr> sn_listener_name_index := Map.empty, sn_http_listener_indices := [],
       sn_grpc_listener_indices := [], sn_http_listener_port_index := Map.empty,
       sn_grpc_listener_port_index := Map.empty, sn_frontend_client_certificate_index := Map.empty,
       sn_service_frontend_index := Map.empty, sn_service_frontend_listener_port_index := Map.empty,
       sn_service_frontend_attachment_index := Map.empty \<rparr>"

definition rebuild_listener_indexes :: "Snapshot \<Rightarrow> Snapshot" where
  "rebuild_listener_indexes snapshot =
     foldl rebuild_listener_step (clear_listener_indexes snapshot) (enumerate 0 (sn_listeners snapshot))"

section \<open>Candidate listeners\<close>

record MatchedListener =
  ml_listener_index :: nat
  ml_listener :: Listener
  ml_host_score :: HostnameScore

record CandidateListeners =
  cl_listeners :: "MatchedListener list"
  cl_enforce_attachments :: bool

definition candidate_listener_indices :: "Snapshot \<Rightarrow> u32 \<Rightarrow> ListenerKind \<Rightarrow> nat list" where
  "candidate_listener_indices snapshot request_port kind =
     (case kind of
        KindHttp \<Rightarrow>
          if request_port = 0 then sn_http_listener_indices snapshot
          else (case sn_http_listener_port_index snapshot request_port of None \<Rightarrow> [] | Some v \<Rightarrow> v)
      | KindGrpc \<Rightarrow>
          if request_port = 0 then sn_grpc_listener_indices snapshot
          else (case sn_grpc_listener_port_index snapshot request_port of None \<Rightarrow> [] | Some v \<Rightarrow> v))"

definition visit_candidate_listeners ::
    "Snapshot \<Rightarrow> u32 \<Rightarrow> ListenerKind \<Rightarrow> (nat \<Rightarrow> Listener \<Rightarrow> 's \<Rightarrow> 's) \<Rightarrow> 's \<Rightarrow> 's" where
  "visit_candidate_listeners snapshot request_port kind visit s =
     (if \<not> sn_runtime_indexes_ready snapshot then
        foldl (\<lambda>s (index, listener).
            if \<not> matches_listener_kind listener kind then s
            else if request_port \<noteq> 0 \<and> ls_port listener \<noteq> request_port then s
            else visit index listener s)
          s (enumerate 0 (sn_listeners snapshot))
      else
        foldl (\<lambda>s (index, listener). visit index listener s) s
          (List.map_filter (\<lambda>index. map_option (Pair index) (nth_opt (sn_listeners snapshot) index))
             (candidate_listener_indices snapshot request_port kind)))"

text \<open>The closure of \<open>matched_listeners\<close>, on (candidate seen, best score, listeners kept).\<close>

definition match_listener ::
    "string option \<Rightarrow> nat \<Rightarrow> Listener \<Rightarrow> bool \<times> HostnameScore option \<times> MatchedListener list \<Rightarrow>
     bool \<times> HostnameScore option \<times> MatchedListener list" where
  "match_listener request_host listener_index listener = (\<lambda>(_, best_score, listeners).
     case listener_hostname_score listener request_host of
       None \<Rightarrow> (True, best_score, listeners)
     | Some host_score \<Rightarrow>
         let matched = \<lparr> ml_listener_index = listener_index, ml_listener = listener,
                         ml_host_score = host_score \<rparr> in
         (case best_score of
            Some score \<Rightarrow>
              if host_score < score then (True, best_score, listeners)
              else if host_score = score then (True, best_score, listeners @ [matched])
              else (True, Some host_score, [matched])
          | None \<Rightarrow> (True, Some host_score, [matched])))"

definition matched_listeners ::
    "Snapshot \<Rightarrow> string option \<Rightarrow> u32 \<Rightarrow> ListenerKind \<Rightarrow> CandidateListeners" where
  "matched_listeners snapshot request_host request_port kind =
     (case visit_candidate_listeners snapshot request_port kind (match_listener request_host) (False, None, []) of
        (saw_candidate_listener, _, listeners) \<Rightarrow>
          if \<not> saw_candidate_listener
          then \<lparr> cl_listeners = listeners, cl_enforce_attachments = False \<rparr>
          else \<lparr> cl_listeners = listeners, cl_enforce_attachments = True \<rparr>)"

text \<open>The closure of \<open>best_https_listener_names\<close>, on (best score, names kept).\<close>

definition match_https_listener ::
    "string option \<Rightarrow> nat \<Rightarrow> Listener \<Rightarrow> HostnameScore option \<times> string set \<Rightarrow> HostnameScore option \<times> string set"
where
  "match_https_listener request_host index listener = (\<lambda>(best_score, listeners).
     if \<not> is_https_listener (ls_protocol listener) then (best_score, listeners)
     else case listener_hostname_score listener request_host of
       None \<Rightarrow> (best_score, listeners)
     | Some host_score \<Rightarrow>
         (case best_score of
            Some score \<Rightarrow>
              if host_score < score then (best_score, listeners)
              else if host_score = score then (best_score, insert (ls_name listener) listeners)
              else (Some host_score, {ls_name listener})
          | None \<Rightarrow> (Some host_score, {ls_name listener})))"

definition best_https_listener_names :: "Snapshot \<Rightarrow> string option \<Rightarrow> u32 \<Rightarrow> string set" where
  "best_https_listener_names snapshot request_host request_port =
     snd (visit_candidate_listeners snapshot request_port KindHttp (match_https_listener request_host) (None, {}))"

definition https_request_is_misdirected :: "Snapshot \<Rightarrow> RequestMeta \<Rightarrow> string option \<Rightarrow> bool" where
  "https_request_is_misdirected snapshot request server_name =
     (case map_option normalize_host_ref server_name of
        None \<Rightarrow> False
      | Some server_name \<Rightarrow>
          if server_name = [] then False
          else if rq_port request = 0 then False
          else let sni_listeners = best_https_listener_names snapshot (Some server_name) (rq_port request) in
            if sni_listeners = {} then False
            else let host_listeners = best_https_listener_names snapshot (rq_host request) (rq_port request) in
              if host_listeners = {} then False
              else sni_listeners \<inter> host_listeners = {})"

definition route_listener_match ::
    "Snapshot \<Rightarrow> CandidateListeners \<Rightarrow> string \<Rightarrow> string \<Rightarrow> MatchedListener option" where
  "route_listener_match snapshot listeners route_namespace route_name =
     (if \<not> cl_enforce_attachments listeners then None
      else if sn_runtime_indexes_ready snapshot then
        max_by ml_host_score
          (filter (\<lambda>listener. contains_listener (sn_route_attachment_listener_index snapshot)
               route_namespace route_name (ml_listener_index listener)) (cl_listeners listeners))
      else
        max_by ml_host_score
          (filter (\<lambda>listener. list_ex (\<lambda>attached. route_attachment_matches attached route_namespace route_name)
               (ls_attached_routes (ml_listener listener))) (cl_listeners listeners)))"

definition matches_service_frontend_listener :: "Snapshot \<Rightarrow> RequestMeta \<Rightarrow> ListenerKind \<Rightarrow> bool" where
  "matches_service_frontend_listener snapshot request listener_kind =
     list_ex (\<lambda>listener_match. service_frontend_for_listener snapshot (ml_listener listener_match) \<noteq> None)
       (cl_listeners (matched_listeners snapshot (rq_host request) (rq_port request) listener_kind))"

definition matches_service_frontend_http_listener :: "Snapshot \<Rightarrow> RequestMeta \<Rightarrow> bool" where
  "matches_service_frontend_http_listener snapshot request =
     matches_service_frontend_listener snapshot request KindHttp"

definition matches_service_frontend_grpc_listener :: "Snapshot \<Rightarrow> RequestMeta \<Rightarrow> bool" where
  "matches_service_frontend_grpc_listener snapshot request =
     matches_service_frontend_listener snapshot request KindGrpc"

definition has_service_frontend_route_candidate ::
    "Snapshot \<Rightarrow> RequestMeta \<Rightarrow> ListenerKind \<Rightarrow> 'r list \<Rightarrow> HostnameRouteIndex \<Rightarrow>
     ('r \<Rightarrow> string \<times> string \<times> ParentRef list) \<Rightarrow> bool" where
  "has_service_frontend_route_candidate snapshot request listener_kind routes route_index route_meta =
     (let listeners = matched_listeners snapshot (rq_host request) (rq_port request) listener_kind in
      if \<not> cl_enforce_attachments listeners then False
      else list_ex (\<lambda>listener_match.
        service_frontend_for_listener snapshot (ml_listener listener_match) \<noteq> None
        \<and> any_hostname_route_candidate routes route_index (rq_host request)
            (sn_runtime_indexes_ready snapshot)
            (\<lambda>route. case route_meta route of (route_namespace, route_name, parent_refs) \<Rightarrow>
               (case route_listener_match snapshot listeners route_namespace route_name of
                  None \<Rightarrow> False
                | Some matched_listener \<Rightarrow>
                    ml_listener_index matched_listener = ml_listener_index listener_match)
               \<and> route_accepts_service_frontend snapshot parent_refs route_namespace
                    (ml_listener listener_match)))
        (cl_listeners listeners))"

definition has_service_frontend_http_route_candidate :: "Snapshot \<Rightarrow> RequestMeta \<Rightarrow> bool" where
  "has_service_frontend_http_route_candidate snapshot request =
     has_service_frontend_route_candidate snapshot request KindHttp (sn_http_routes snapshot)
       (sn_http_route_hostname_index snapshot)
       (\<lambda>route. (hroute_namespace route, hroute_name route, hroute_parent_refs route))"

definition has_service_frontend_grpc_route_candidate :: "Snapshot \<Rightarrow> RequestMeta \<Rightarrow> bool" where
  "has_service_frontend_grpc_route_candidate snapshot request =
     has_service_frontend_route_candidate snapshot request KindGrpc (sn_grpc_routes snapshot)
       (sn_grpc_route_hostname_index snapshot)
       (\<lambda>route. (groute_namespace route, groute_name route, groute_parent_refs route))"

section \<open>What the indexes hold\<close>

text \<open>The positions of the listeners with a property, ascending.\<close>

definition positions :: "('a \<Rightarrow> bool) \<Rightarrow> 'a list \<Rightarrow> nat list" where
  "positions P xs = filter (\<lambda>i. P (xs ! i)) [0..<length xs]"

lemma positions_Nil [simp]: "positions P [] = []"
  by (simp add: positions_def)

lemma positions_snoc [simp]:
  "positions P (xs @ [x]) = positions P xs @ (if P x then [length xs] else [])"
proof -
  have "filter (\<lambda>i. P ((xs @ [x]) ! i)) [0..<length xs] = filter (\<lambda>i. P (xs ! i)) [0..<length xs]"
    by (rule filter_cong) (auto simp: nth_append)
  then show ?thesis by (simp add: positions_def)
qed

lemma positions_enumerate:
  "List.map_filter (\<lambda>i. map_option (Pair i) (nth_opt xs i)) (positions P xs) =
     filter (\<lambda>(_, x). P x) (enumerate 0 xs)"
proof -
  have "map (\<lambda>i. (i, xs ! i)) (positions P xs) = filter (\<lambda>(_, x). P x) (enumerate 0 xs)"
  proof (induction xs rule: rev_induct)
    case (snoc x xs)
    have "map (\<lambda>i. (i, (xs @ [x]) ! i)) (positions P xs) = map (\<lambda>i. (i, xs ! i)) (positions P xs)"
      by (rule map_cong [OF refl]) (auto simp: positions_def nth_append)
    then show ?case using snoc by (simp add: enumerate_append_eq)
  qed simp
  moreover have "List.map_filter (\<lambda>i. map_option (Pair i) (nth_opt xs i)) is = map (\<lambda>i. (i, xs ! i)) is"
    if "\<forall>i \<in> set is. i < length xs" for "is"
    using that by (induction "is") (auto simp: List.map_filter_simps nth_opt_def)
  ultimately show ?thesis by (simp add: positions_def)
qed

lemmas listener_step_defs = rebuild_listener_step_def index_frontend_def index_certificate_def
  index_http_listener_def index_grpc_listener_def Let_def

text \<open>What no step of the rebuild touches.\<close>

lemma rebuild_step_frame:
  "sn_listeners (rebuild_listener_step s p) = sn_listeners s"
  "sn_http_routes (rebuild_listener_step s p) = sn_http_routes s"
  "sn_grpc_routes (rebuild_listener_step s p) = sn_grpc_routes s"
  "sn_stream_routes (rebuild_listener_step s p) = sn_stream_routes s"
  "sn_backends (rebuild_listener_step s p) = sn_backends s"
  "sn_backend_policies (rebuild_listener_step s p) = sn_backend_policies s"
  "sn_secrets (rebuild_listener_step s p) = sn_secrets s"
  "sn_workloads (rebuild_listener_step s p) = sn_workloads s"
  "sn_endpoint_runtime (rebuild_listener_step s p) = sn_endpoint_runtime s"
  "sn_runtime_ids (rebuild_listener_step s p) = sn_runtime_ids s"
  "sn_backend_names (rebuild_listener_step s p) = sn_backend_names s"
  "sn_backend_index (rebuild_listener_step s p) = sn_backend_index s"
  "sn_backend_service_index (rebuild_listener_step s p) = sn_backend_service_index s"
  "sn_secret_index (rebuild_listener_step s p) = sn_secret_index s"
  "sn_workload_namespace_index (rebuild_listener_step s p) = sn_workload_namespace_index s"
  "sn_runtime_indexes_ready (rebuild_listener_step s p) = sn_runtime_indexes_ready s"
  by (simp_all add: listener_step_defs split: prod.splits option.splits)

lemma rebuild_step_fields:
  "sn_listener_name_index (rebuild_listener_step s (i, l)) = or_insert (ls_name l) i (sn_listener_name_index s)"
  "sn_http_listener_indices (rebuild_listener_step s (i, l)) =
     sn_http_listener_indices s @ (if is_http_listener (ls_protocol l) then [i] else [])"
  "sn_grpc_listener_indices (rebuild_listener_step s (i, l)) =
     sn_grpc_listener_indices s @ (if is_grpc_listener (ls_protocol l) then [i] else [])"
  "entry_list (sn_http_listener_port_index (rebuild_listener_step s (i, l))) p =
     entry_list (sn_http_listener_port_index s) p
     @ (if is_http_listener (ls_protocol l) \<and> ls_port l = p then [i] else [])"
  "entry_list (sn_grpc_listener_port_index (rebuild_listener_step s (i, l))) p =
     entry_list (sn_grpc_listener_port_index s) p
     @ (if is_grpc_listener (ls_protocol l) \<and> ls_port l = p then [i] else [])"
  "sn_service_frontend_index (rebuild_listener_step s (i, l)) =
     (case service_frontend l of None \<Rightarrow> sn_service_frontend_index s
      | Some f \<Rightarrow> (sn_service_frontend_index s)(ls_name l \<mapsto> f))"
  "entry_list (sn_service_frontend_listener_port_index (rebuild_listener_step s (i, l))) p =
     entry_list (sn_service_frontend_listener_port_index s) p
     @ (if service_frontend l \<noteq> None \<and> ls_port l = p then [i] else [])"
  "sn_frontend_client_certificate_index (rebuild_listener_step s (i, l)) =
     (if listener_frontend_client_certificate_requirement l = CertNone
      then sn_frontend_client_certificate_index s
      else (sn_frontend_client_certificate_index s)
             (ls_name l \<mapsto> listener_frontend_client_certificate_requirement l))"
  by (auto simp: listener_step_defs split: option.splits)

definition attached_names :: "Snapshot \<Rightarrow> string \<Rightarrow> string set" where
  "attached_names s ns = (case sn_service_frontend_attachment_index s ns of None \<Rightarrow> {} | Some names \<Rightarrow> names)"

lemma rebuild_step_attached:
  "attached_names (rebuild_listener_step s (i, l)) ns =
     attached_names s ns \<union>
     {n. \<exists>f. service_frontend l = Some f \<and> ls_attached_routes l \<noteq> [] \<and> sf_namespace f = ns \<and> sf_name f = n}"
  by (auto simp: attached_names_def listener_step_defs split: option.splits if_splits)

lemma rebuild_frame [simp]:
  "sn_listeners (rebuild_listener_indexes s) = sn_listeners s"
  "sn_http_routes (rebuild_listener_indexes s) = sn_http_routes s"
  "sn_grpc_routes (rebuild_listener_indexes s) = sn_grpc_routes s"
  "sn_stream_routes (rebuild_listener_indexes s) = sn_stream_routes s"
  "sn_backends (rebuild_listener_indexes s) = sn_backends s"
  "sn_backend_policies (rebuild_listener_indexes s) = sn_backend_policies s"
  "sn_secrets (rebuild_listener_indexes s) = sn_secrets s"
  "sn_workloads (rebuild_listener_indexes s) = sn_workloads s"
  "sn_endpoint_runtime (rebuild_listener_indexes s) = sn_endpoint_runtime s"
  "sn_runtime_ids (rebuild_listener_indexes s) = sn_runtime_ids s"
  "sn_backend_names (rebuild_listener_indexes s) = sn_backend_names s"
  "sn_backend_index (rebuild_listener_indexes s) = sn_backend_index s"
  "sn_backend_service_index (rebuild_listener_indexes s) = sn_backend_service_index s"
  "sn_secret_index (rebuild_listener_indexes s) = sn_secret_index s"
  "sn_workload_namespace_index (rebuild_listener_indexes s) = sn_workload_namespace_index s"
  "sn_runtime_indexes_ready (rebuild_listener_indexes s) = sn_runtime_indexes_ready s"
  unfolding rebuild_listener_indexes_def
  by (simp_all only: rebuild_step_frame foldl_frame [of sn_listeners] foldl_frame [of sn_http_routes]
      foldl_frame [of sn_grpc_routes] foldl_frame [of sn_stream_routes] foldl_frame [of sn_backends]
      foldl_frame [of sn_backend_policies] foldl_frame [of sn_secrets] foldl_frame [of sn_workloads]
      foldl_frame [of sn_endpoint_runtime] foldl_frame [of sn_runtime_ids] foldl_frame [of sn_backend_names]
      foldl_frame [of sn_backend_index] foldl_frame [of sn_backend_service_index]
      foldl_frame [of sn_secret_index] foldl_frame [of sn_workload_namespace_index]
      foldl_frame [of sn_runtime_indexes_ready])
    (simp_all add: clear_listener_indexes_def)

lemma or_insert_first: "or_insert k v (map_of kvs) = map_of (kvs @ [(k, v)])"
  by (rule ext) (simp add: or_insert_def map_add_def split: option.splits)

lemma rebuild_fold_fields:
  fixes s0 ls
  defines "s \<equiv> foldl rebuild_listener_step (clear_listener_indexes s0) (enumerate 0 ls)"
  shows "sn_listener_name_index s = map_of (map (\<lambda>(i, l). (ls_name l, i)) (enumerate 0 ls))"
    and "sn_http_listener_indices s = positions (\<lambda>l. is_http_listener (ls_protocol l)) ls"
    and "sn_grpc_listener_indices s = positions (\<lambda>l. is_grpc_listener (ls_protocol l)) ls"
    and "entry_list (sn_http_listener_port_index s) p =
      positions (\<lambda>l. is_http_listener (ls_protocol l) \<and> ls_port l = p) ls"
    and "entry_list (sn_grpc_listener_port_index s) p =
      positions (\<lambda>l. is_grpc_listener (ls_protocol l) \<and> ls_port l = p) ls"
    and "entry_list (sn_service_frontend_listener_port_index s) p =
      positions (\<lambda>l. service_frontend l \<noteq> None \<and> ls_port l = p) ls"
    and "attached_names s ns = {n. \<exists>l \<in> set ls. \<exists>f. service_frontend l = Some f
      \<and> ls_attached_routes l \<noteq> [] \<and> sf_namespace f = ns \<and> sf_name f = n}"
  unfolding s_def
proof (induction ls rule: rev_induct)
  case (snoc l ls)
  { case 1 show ?case using snoc(1) by (simp add: enumerate_append_eq rebuild_step_fields or_insert_first) }
  { case 2 show ?case using snoc(2) by (simp add: enumerate_append_eq rebuild_step_fields) }
  { case 3 show ?case using snoc(3) by (simp add: enumerate_append_eq rebuild_step_fields) }
  { case 4 show ?case using snoc(4) by (simp add: enumerate_append_eq rebuild_step_fields) }
  { case 5 show ?case using snoc(5) by (simp add: enumerate_append_eq rebuild_step_fields) }
  { case 6 show ?case using snoc(6) by (simp add: enumerate_append_eq rebuild_step_fields) }
  { case 7 show ?case using snoc(7) by (auto simp: enumerate_append_eq rebuild_step_attached) }
qed (simp_all add: clear_listener_indexes_def attached_names_def)

lemma rebuild_fold_by_name:
  fixes s0 ls
  defines "s \<equiv> foldl rebuild_listener_step (clear_listener_indexes s0) (enumerate 0 ls)"
  assumes "distinct (map ls_name ls)"
  shows "sn_service_frontend_index s n =
      Option.bind (find (\<lambda>l. ls_name l = n) ls) service_frontend"
    and "sn_frontend_client_certificate_index s n =
      Option.bind (find (\<lambda>l. ls_name l = n) ls) (\<lambda>l.
        if listener_frontend_client_certificate_requirement l = CertNone then None
        else Some (listener_frontend_client_certificate_requirement l))"
proof -
  have find_snoc: "find P (xs @ [x]) = (case find P xs of None \<Rightarrow> if P x then Some x else None | Some y \<Rightarrow> Some y)"
    for P and xs :: "Listener list" and x by (induction xs) auto
  have fresh: "find (\<lambda>l'. ls_name l' = ls_name l) ls = None" if "distinct (map ls_name (ls @ [l]))" for l ls
    using that unfolding find_None_iff by (auto intro: rev_image_eqI)
  show "sn_service_frontend_index s n = Option.bind (find (\<lambda>l. ls_name l = n) ls) service_frontend"
    unfolding s_def using assms(2)
  proof (induction ls rule: rev_induct)
    case (snoc l ls)
    then show ?case using fresh [OF snoc.prems]
      by (cases "service_frontend l")
        (auto simp: enumerate_append_eq rebuild_step_fields find_snoc split: option.splits)
  qed (simp add: clear_listener_indexes_def)
  show "sn_frontend_client_certificate_index s n =
      Option.bind (find (\<lambda>l. ls_name l = n) ls) (\<lambda>l.
        if listener_frontend_client_certificate_requirement l = CertNone then None
        else Some (listener_frontend_client_certificate_requirement l))"
    unfolding s_def using assms(2)
  proof (induction ls rule: rev_induct)
    case (snoc l ls)
    then show ?case using fresh [OF snoc.prems]
      by (auto simp: enumerate_append_eq rebuild_step_fields find_snoc split: option.splits)
  qed (simp add: clear_listener_indexes_def)
qed

text \<open>A snapshot whose listener indexes are those of its listeners.\<close>

definition listener_indexed :: "Snapshot \<Rightarrow> bool" where
  "listener_indexed s =
     (\<exists>s0. let r = foldl rebuild_listener_step (clear_listener_indexes s0) (enumerate 0 (sn_listeners s)) in
        sn_listener_name_index s = sn_listener_name_index r
        \<and> sn_http_listener_indices s = sn_http_listener_indices r
        \<and> sn_grpc_listener_indices s = sn_grpc_listener_indices r
        \<and> sn_http_listener_port_index s = sn_http_listener_port_index r
        \<and> sn_grpc_listener_port_index s = sn_grpc_listener_port_index r
        \<and> sn_frontend_client_certificate_index s = sn_frontend_client_certificate_index r
        \<and> sn_service_frontend_index s = sn_service_frontend_index r
        \<and> sn_service_frontend_listener_port_index s = sn_service_frontend_listener_port_index r
        \<and> sn_service_frontend_attachment_index s = sn_service_frontend_attachment_index r)"

lemma listener_indexed_rebuild: "listener_indexed (rebuild_listener_indexes s)"
  unfolding listener_indexed_def Let_def rebuild_frame
  by (rule exI [of _ s]) (simp add: rebuild_listener_indexes_def)

lemma listener_indexed_fields:
  assumes "listener_indexed s"
  shows "sn_listener_name_index s = map_of (map (\<lambda>(i, l). (ls_name l, i)) (enumerate 0 (sn_listeners s)))"
    and "sn_http_listener_indices s = positions (\<lambda>l. is_http_listener (ls_protocol l)) (sn_listeners s)"
    and "sn_grpc_listener_indices s = positions (\<lambda>l. is_grpc_listener (ls_protocol l)) (sn_listeners s)"
    and "entry_list (sn_http_listener_port_index s) p =
      positions (\<lambda>l. is_http_listener (ls_protocol l) \<and> ls_port l = p) (sn_listeners s)"
    and "entry_list (sn_grpc_listener_port_index s) p =
      positions (\<lambda>l. is_grpc_listener (ls_protocol l) \<and> ls_port l = p) (sn_listeners s)"
    and "entry_list (sn_service_frontend_listener_port_index s) p =
      positions (\<lambda>l. service_frontend l \<noteq> None \<and> ls_port l = p) (sn_listeners s)"
    and "attached_names s ns = {n. \<exists>l \<in> set (sn_listeners s). \<exists>f. service_frontend l = Some f
      \<and> ls_attached_routes l \<noteq> [] \<and> sf_namespace f = ns \<and> sf_name f = n}"
proof -
  from assms obtain s0 where
    r: "sn_listener_name_index s = sn_listener_name_index r"
      "sn_http_listener_indices s = sn_http_listener_indices r"
      "sn_grpc_listener_indices s = sn_grpc_listener_indices r"
      "sn_http_listener_port_index s = sn_http_listener_port_index r"
      "sn_grpc_listener_port_index s = sn_grpc_listener_port_index r"
      "sn_service_frontend_listener_port_index s = sn_service_frontend_listener_port_index r"
      "attached_names s = attached_names r"
    if "r = foldl rebuild_listener_step (clear_listener_indexes s0) (enumerate 0 (sn_listeners s))" for r
    unfolding listener_indexed_def Let_def attached_names_def by auto
  note r = r [OF refl] and f = rebuild_fold_fields [of s0 "sn_listeners s"]
  show "sn_listener_name_index s = map_of (map (\<lambda>(i, l). (ls_name l, i)) (enumerate 0 (sn_listeners s)))"
    "sn_http_listener_indices s = positions (\<lambda>l. is_http_listener (ls_protocol l)) (sn_listeners s)"
    "sn_grpc_listener_indices s = positions (\<lambda>l. is_grpc_listener (ls_protocol l)) (sn_listeners s)"
    "entry_list (sn_http_listener_port_index s) p =
      positions (\<lambda>l. is_http_listener (ls_protocol l) \<and> ls_port l = p) (sn_listeners s)"
    "entry_list (sn_grpc_listener_port_index s) p =
      positions (\<lambda>l. is_grpc_listener (ls_protocol l) \<and> ls_port l = p) (sn_listeners s)"
    "entry_list (sn_service_frontend_listener_port_index s) p =
      positions (\<lambda>l. service_frontend l \<noteq> None \<and> ls_port l = p) (sn_listeners s)"
    "attached_names s ns = {n. \<exists>l \<in> set (sn_listeners s). \<exists>f. service_frontend l = Some f
      \<and> ls_attached_routes l \<noteq> [] \<and> sf_namespace f = ns \<and> sf_name f = n}"
    by (simp_all only: r f)
qed

lemma listener_indexed_by_name:
  assumes "listener_indexed s" and "distinct (map ls_name (sn_listeners s))"
  shows "sn_service_frontend_index s n =
      Option.bind (find (\<lambda>l. ls_name l = n) (sn_listeners s)) service_frontend"
    and "sn_frontend_client_certificate_index s n =
      Option.bind (find (\<lambda>l. ls_name l = n) (sn_listeners s)) (\<lambda>l.
        if listener_frontend_client_certificate_requirement l = CertNone then None
        else Some (listener_frontend_client_certificate_requirement l))"
  using assms(1) unfolding listener_indexed_def Let_def
  by (auto simp only: rebuild_fold_by_name [OF assms(2)])

lemma find_by_name:
  "distinct (map f xs) \<Longrightarrow> x \<in> set xs \<Longrightarrow> find (\<lambda>y. f y = f x) xs = Some x"
  by (induction xs) (auto simp: rev_image_eqI)

lemma service_frontend_for_listener_eq:
  assumes "listener_indexed s" and "distinct (map ls_name (sn_listeners s))" and "l \<in> set (sn_listeners s)"
  shows "service_frontend_for_listener s l = service_frontend l"
  by (simp add: service_frontend_for_listener_def listener_indexed_by_name [OF assms(1,2)]
      find_by_name [OF assms(2,3)])

section \<open>Visiting candidate listeners\<close>

definition candidate_listeners :: "Snapshot \<Rightarrow> u32 \<Rightarrow> ListenerKind \<Rightarrow> (nat \<times> Listener) list" where
  "candidate_listeners s port kind =
     filter (\<lambda>(_, l). matches_listener_kind l kind \<and> (port = 0 \<or> ls_port l = port))
       (enumerate 0 (sn_listeners s))"

lemma candidate_listener_indices_eq:
  assumes "listener_indexed s"
  shows "candidate_listener_indices s port kind =
    positions (\<lambda>l. matches_listener_kind l kind \<and> (port = 0 \<or> ls_port l = port)) (sn_listeners s)"
  using listener_indexed_fields(2,3) [OF assms] listener_indexed_fields(4,5) [OF assms, of port]
  by (cases kind) (auto simp: candidate_listener_indices_def entry_list_def positions_def)

lemma foldl_filter:
  "foldl (\<lambda>s x. if P x then f s x else s) s xs = foldl f s (filter P xs)"
  by (induction xs arbitrary: s) auto

lemma visit_candidate_listeners_eq:
  assumes "sn_runtime_indexes_ready s \<Longrightarrow> listener_indexed s"
  shows "visit_candidate_listeners s port kind visit a =
    foldl (\<lambda>a (i, l). visit i l a) a (candidate_listeners s port kind)"
proof (cases "sn_runtime_indexes_ready s")
  case True
  then show ?thesis
    by (simp add: visit_candidate_listeners_def candidate_listener_indices_eq [OF assms]
        positions_enumerate candidate_listeners_def)
next
  case False
  have "(\<lambda>a (i, l). if \<not> matches_listener_kind l kind then a
        else if port \<noteq> 0 \<and> ls_port l \<noteq> port then a else visit i l a) =
      (\<lambda>a p. if (case p of (_, l) \<Rightarrow> matches_listener_kind l kind \<and> (port = 0 \<or> ls_port l = port))
        then (case p of (i, l) \<Rightarrow> visit i l a) else a)"
    by (auto simp: fun_eq_iff)
  with False show ?thesis
    by (simp add: visit_candidate_listeners_def candidate_listeners_def foldl_filter)
qed

section \<open>The listeners with the greatest score\<close>

lemma max_by_from_snoc:
  "max_by_from f a (xs @ [x]) = (if f x < f (max_by_from f a xs) then max_by_from f a xs else x)"
  by (induction xs arbitrary: a) auto

lemma max_by_snoc:
  "max_by f (xs @ [x]) =
     (case max_by f xs of None \<Rightarrow> Some x | Some y \<Rightarrow> Some (if f x < f y then y else x))"
  by (cases xs) (auto simp: max_by_def max_by_from_snoc)

definition listener_scores :: "string option \<Rightarrow> (nat \<times> Listener) list \<Rightarrow> HostnameScore list" where
  "listener_scores host cands = List.map_filter (\<lambda>(_, l). listener_hostname_score l host) cands"

definition kept_listeners ::
    "string option \<Rightarrow> HostnameScore option \<Rightarrow> (nat \<times> Listener) list \<Rightarrow> MatchedListener list" where
  "kept_listeners host best cands = List.map_filter (\<lambda>(i, l).
     case listener_hostname_score l host of
       None \<Rightarrow> None
     | Some sc \<Rightarrow> if best = Some sc
         then Some \<lparr> ml_listener_index = i, ml_listener = l, ml_host_score = sc \<rparr> else None) cands"

lemma map_filter_append: "List.map_filter f (xs @ ys) = List.map_filter f xs @ List.map_filter f ys"
  by (simp add: List.map_filter_def)

lemma kept_above: "(\<And>sc. sc \<in> set (listener_scores host cands) \<Longrightarrow> sc < b) \<Longrightarrow> kept_listeners host (Some b) cands = []"
proof -
  assume lt: "\<And>sc. sc \<in> set (listener_scores host cands) \<Longrightarrow> sc < b"
  have "b \<notin> set (listener_scores host cands)" using lt [of b] by blast
  then have "set (kept_listeners host (Some b) cands) = {}"
    by (auto simp: kept_listeners_def listener_scores_def set_map_filter split: option.splits if_splits)
  then show ?thesis by simp
qed

lemma match_listener_fold:
  "foldl (\<lambda>a (i, l). match_listener host i l a) (False, None, []) cands =
     (cands \<noteq> [], max_by (\<lambda>x. x) (listener_scores host cands),
      kept_listeners host (max_by (\<lambda>x. x) (listener_scores host cands)) cands)"
proof (induction cands rule: rev_induct)
  case Nil
  then show ?case by (simp add: listener_scores_def kept_listeners_def List.map_filter_simps max_by_def)
next
  case (snoc c cands)
  obtain i l where c: "c = (i, l)" by (cases c)
  let ?b = "max_by (\<lambda>x. x) (listener_scores host cands)"
  show ?case
  proof (cases "listener_hostname_score l host")
    case None
    then have "listener_scores host (cands @ [c]) = listener_scores host cands"
      "\<And>b. kept_listeners host b (cands @ [c]) = kept_listeners host b cands"
      by (simp_all add: c listener_scores_def kept_listeners_def map_filter_append List.map_filter_simps)
    with None show ?thesis by (simp add: snoc c match_listener_def [of host i l])
  next
    case (Some sc)
    then have scores: "listener_scores host (cands @ [c]) = listener_scores host cands @ [sc]"
      and kept: "\<And>b. kept_listeners host b (cands @ [c]) = kept_listeners host b cands @
        (if b = Some sc then [\<lparr> ml_listener_index = i, ml_listener = l, ml_host_score = sc \<rparr>] else [])"
      by (simp_all add: c listener_scores_def kept_listeners_def map_filter_append List.map_filter_simps)
    note scores = scores [unfolded c] and kept = kept [unfolded c]
    have above: "kept_listeners host (Some sc) cands = []" if "\<And>b. ?b = Some b \<Longrightarrow> b < sc"
    proof (rule kept_above)
      fix x assume x: "x \<in> set (listener_scores host cands)"
      then obtain b where b: "?b = Some b" using max_by_nonempty by (metis empty_iff empty_set)
      from max_by_SomeD(2) [OF b x] that [OF b] show "x < sc" by simp
    qed
    show ?thesis
    proof (cases ?b)
      case None
      with above Some show ?thesis
        by (simp add: snoc c match_listener_def [of host i l] scores kept Let_def) (simp add: max_by_def)
    next
      case b: (Some b)
      consider "sc < b" | "sc = b" | "b < sc" by (rule linorder_cases)
      then show ?thesis
        by cases (use b above Some in \<open>auto simp: snoc c match_listener_def [of host i l] scores kept max_by_snoc Let_def\<close>)
    qed
  qed
qed

lemma matched_listeners_eq:
  assumes "sn_runtime_indexes_ready s \<Longrightarrow> listener_indexed s"
  shows "matched_listeners s host port kind =
    \<lparr> cl_listeners = kept_listeners host
        (max_by (\<lambda>x. x) (listener_scores host (candidate_listeners s port kind)))
        (candidate_listeners s port kind),
      cl_enforce_attachments = (candidate_listeners s port kind \<noteq> []) \<rparr>"
  by (simp add: matched_listeners_def visit_candidate_listeners_eq [OF assms] match_listener_fold)

end
