(* ===== verification/Http_Fast_Path.thy ===== *)
theory Http_Fast_Path
  imports Backend_Choice Listener_Index
begin

text \<open>
  The compiled fast path, \<open>crates/ntgw-ir/src/http_fast_path.rs\<close>: the plan built with the runtime
  indexes and the selection that runs on it. A closure that returns \<open>None\<close> gives up the fast
  path, and the caller falls back to the full selection; here it returns \<open>False\<close>.
\<close>

section \<open>Compiling rules\<close>

definition http_match_is_fast_path_eligible :: "HttpMatch \<Rightarrow> bool" where
  "http_match_is_fast_path_eligible matcher = (ht_headers matcher = [] \<and> ht_query_params matcher = [])"

definition backend_ref_is_fast_path_eligible :: "BackendRef \<Rightarrow> Snapshot \<Rightarrow> bool" where
  "backend_ref_is_fast_path_eligible backend_ref snapshot =
     (if br_filters backend_ref \<noteq> [] then False
      else
        let backend_name = br_namespace backend_ref @ ''/'' @ br_name backend_ref @ '':''
              @ show_u32 (br_port backend_ref) in
        case backend_policy snapshot backend_name of
          None \<Rightarrow> True
        | Some policy \<Rightarrow> bp_session_persistence policy = None
            \<and> (case bp_load_balancing policy of
                 None \<Rightarrow> True
               | Some load_balancing \<Rightarrow> lb_policy_type load_balancing \<noteq> ''ConsistentHash''))"

definition http_rule_is_fast_path_selection_safe :: "HttpRule \<Rightarrow> Snapshot \<Rightarrow> bool" where
  "http_rule_is_fast_path_selection_safe rule snapshot =
     (hr_timeouts rule = None \<and> hr_retry rule = None \<and> hr_session_persistence rule = None
      \<and> hr_filters rule = [] \<and> list_all http_match_is_fast_path_eligible (hr_matches rule)
      \<and> list_all (\<lambda>backend_ref. backend_ref_is_fast_path_eligible backend_ref snapshot)
          (filter (\<lambda>backend_ref. br_weight backend_ref > 0) (hr_backend_refs rule)))"

definition http_rule_has_selectable_backend :: "HttpRule \<Rightarrow> bool" where
  "http_rule_has_selectable_backend rule =
     list_ex (\<lambda>backend_ref. br_weight backend_ref > 0) (hr_backend_refs rule)"

definition fast_http_path_rank :: "string \<Rightarrow> nat" where
  "fast_http_path_rank path_type =
     (if path_type = ''Exact'' then 3 else if path_type = ''RegularExpression'' then 2 else 1)"

definition compile_http_fast_match :: "HttpMatch \<Rightarrow> CompiledHttpFastMatch" where
  "compile_http_fast_match matcher =
     (let matched_http_path = normalize_http_path_match matcher in
      \<lparr> cfm_path = ht_path matcher, cfm_path_type = ht_path_type matcher, cfm_method = ht_method matcher,
        cfm_compiled_path_regex = ht_compiled_path_regex matcher,
        cfm_matched_http_path = matched_http_path,
        cfm_score = FastHttpRuleScore (fast_http_path_rank (mp_path_type matched_http_path))
          (length (mp_path matched_http_path)) (ht_method matcher \<noteq> []) \<rparr>)"

definition compile_http_fast_matches :: "HttpRule \<Rightarrow> CompiledHttpFastMatch list" where
  "compile_http_fast_matches rule = map compile_http_fast_match (hr_matches rule)"

fun collect_options :: "'a option list \<Rightarrow> 'a list option" where
  "collect_options [] = Some []"
| "collect_options (None # xs) = None"
| "collect_options (Some x # xs) = map_option (Cons x) (collect_options xs)"

definition compile_http_fast_backend_refs ::
    "HttpRule \<Rightarrow> Snapshot \<Rightarrow> CompiledHttpFastBackendRef list option" where
  "compile_http_fast_backend_refs rule snapshot =
     (case collect_options (map (compile_http_fast_backend_ref snapshot)
             (filter (\<lambda>backend_ref. br_weight backend_ref > 0) (hr_backend_refs rule))) of
        None \<Rightarrow> None
      | Some compiled \<Rightarrow> if compiled \<noteq> [] then Some compiled else None)"

text \<open>One step of the \<open>filter_map\<close> over the rules of a route, with the captured flag.\<close>

definition compile_http_fast_rule ::
    "Snapshot \<Rightarrow> HttpRoute \<Rightarrow> bool \<times> CompiledHttpFastRule list \<Rightarrow> nat \<times> HttpRule \<Rightarrow>
     bool \<times> CompiledHttpFastRule list" where
  "compile_http_fast_rule snapshot route = (\<lambda>(selection_safe, rules) (rule_index, rule).
     if \<not> http_rule_is_fast_path_selection_safe rule snapshot then (False, rules)
     else case compile_http_fast_backend_refs rule snapshot of
       None \<Rightarrow> (selection_safe \<and> \<not> http_rule_has_selectable_backend rule, rules)
     | Some backend_refs \<Rightarrow> (selection_safe, rules @
         [\<lparr> cfu_rule_index = rule_index, cfu_matches = compile_http_fast_matches rule,
            cfu_default_matched_http_path = default_http_path_match,
            cfu_runtime_ids = SelectedBackendRuntimeIds_default
              \<lparr> ri_route := http_route_runtime_id snapshot (hroute_namespace route) (hroute_name route),
                ri_rule := http_rule_runtime_id snapshot (hroute_namespace route) (hroute_name route)
                  rule_index \<rparr>,
            cfu_backend_refs = backend_refs \<rparr>]))"

definition compile_http_fast_route ::
    "Snapshot \<Rightarrow> bool \<times> CompiledHttpFastRoute list \<times> nat option list \<Rightarrow> nat \<times> HttpRoute \<Rightarrow>
     bool \<times> CompiledHttpFastRoute list \<times> nat option list" where
  "compile_http_fast_route snapshot = (\<lambda>(selection_safe, routes, plan_indices) (route_index, route).
     case foldl (compile_http_fast_rule snapshot route) (selection_safe, [])
            (enumerate 0 (hroute_rules route)) of
       (selection_safe, eligible_rules) \<Rightarrow>
         if eligible_rules = [] then (selection_safe, routes, plan_indices)
         else (selection_safe,
           routes @ [\<lparr> cfo_route_index = route_index, cfo_route_name = hroute_name route,
             cfo_route_namespace = hroute_namespace route,
             cfo_route_annotations = hroute_annotations route,
             cfo_eligible_rules = eligible_rules \<rparr>],
           plan_indices[route_index := Some (length routes)]))"

definition compile_http_fast_listener :: "Snapshot \<Rightarrow> Listener \<Rightarrow> CompiledHttpFastListener" where
  "compile_http_fast_listener snapshot listener =
     \<lparr> cfl_name = ls_name listener, cfl_protocol = ls_protocol listener,
       cfl_runtime_id = listener_runtime_id snapshot (ls_name listener),
       cfl_has_backend_tls = (ls_backend_tls listener \<noteq> None) \<rparr>"

definition http_fast_path_build :: "Snapshot \<Rightarrow> HttpFastPathPlan" where
  "http_fast_path_build snapshot =
     (case foldl (compile_http_fast_route snapshot)
             (True, [], replicate (length (sn_http_routes snapshot)) None)
             (enumerate 0 (sn_http_routes snapshot)) of
        (selection_safe, routes, plan_indices) \<Rightarrow>
          \<lparr> hfp_listeners = map (compile_http_fast_listener snapshot) (sn_listeners snapshot),
            hfp_routes = routes, hfp_route_plan_indices = plan_indices,
            hfp_selection_safe = selection_safe \<rparr>)"

definition http_fast_route_count :: "HttpFastPathPlan \<Rightarrow> nat" where
  "http_fast_route_count plan = length (hfp_routes plan)"

definition http_fast_eligible_rule_count :: "HttpFastPathPlan \<Rightarrow> nat" where
  "http_fast_eligible_rule_count plan =
     sum_list (map (\<lambda>route. length (cfo_eligible_rules route)) (hfp_routes plan))"

definition http_fast_compiled_backend_ref_count :: "HttpFastPathPlan \<Rightarrow> nat" where
  "http_fast_compiled_backend_ref_count plan =
     sum_list (map (\<lambda>rule. length (cfu_backend_refs rule)) (concat (map cfo_eligible_rules (hfp_routes plan))))"

section \<open>Matching on the plan\<close>

record HttpFastPathRequest =
  fq_host :: "string option"
  fq_port :: u32
  fq_path :: string
  fq_method :: string
  fq_is_grpc :: bool

record CompiledSelectedHttpBackend =
  cs_route_kind :: RouteKind
  cs_route_name :: string
  cs_route_namespace :: string
  cs_rule_index :: "nat option"
  cs_route_annotations :: "string btree"
  cs_listener_name :: string
  cs_listener_protocol :: string
  cs_backend :: BackendEndpoint
  cs_backend_name :: string
  cs_matched_http_path :: MatchedHttpPath
  cs_runtime_ids :: SelectedBackendRuntimeIds

definition request_path_without_query :: "string \<Rightarrow> string" where
  "request_path_without_query path =
     (case map_option fst (split_once CHR ''?'' path) of Some path \<Rightarrow> path | None \<Rightarrow> path)"

definition fast_matches_path_prefix :: "string \<Rightarrow> string \<Rightarrow> bool" where
  "fast_matches_path_prefix pre path =
     (if pre = ''/'' \<or> path = pre then True
      else if ends_with_char pre CHR ''/'' then starts_with path pre
      else starts_with path pre
           \<and> (case nth_opt path (length pre) of Some item \<Rightarrow> item = CHR ''/'' | None \<Rightarrow> False))"

definition fast_matches_http_path :: "CompiledHttpFastMatch \<Rightarrow> string \<Rightarrow> bool" where
  "fast_matches_http_path matcher request_path =
     (if cfm_path matcher = [] then True
      else if cfm_path_type matcher = ''Exact'' then request_path = cfm_path matcher
      else if cfm_path_type matcher = ''RegularExpression''
        then (case cfm_compiled_path_regex matcher of None \<Rightarrow> False | Some regex \<Rightarrow> regex request_path)
      else fast_matches_path_prefix (cfm_path matcher) request_path)"

definition fast_matches_http_rule :: "CompiledHttpFastMatch \<Rightarrow> string \<Rightarrow> string \<Rightarrow> bool" where
  "fast_matches_http_rule matcher request_path request_method =
     (fast_matches_http_path matcher request_path
      \<and> (cfm_method matcher = [] \<or> eq_ignore_ascii_case (cfm_method matcher) request_method))"

definition fast_best_http_rule_match ::
    "CompiledHttpFastRule \<Rightarrow> string \<Rightarrow> string \<Rightarrow> (MatchedHttpPath \<times> FastHttpRuleScore) option" where
  "fast_best_http_rule_match rule request_path request_method =
     (if cfu_matches rule = [] then Some (cfu_default_matched_http_path rule, FastHttpRuleScore_default)
      else max_by snd (map (\<lambda>matcher. (cfm_matched_http_path matcher, cfm_score matcher))
             (filter (\<lambda>matcher. fast_matches_http_rule matcher request_path request_method) (cfu_matches rule))))"

definition fast_hostname_score :: "string \<Rightarrow> string \<Rightarrow> FastHostnameScore option" where
  "fast_hostname_score pattern request_host =
     (let request_host = normalize_host_ref request_host in
      case strip_prefix ''*.'' pattern of
        Some suffix \<Rightarrow>
          (let suffix = normalize_host_ref suffix in
           if hostname_matches pattern request_host
           then Some (FastHostnameScore 1 (length suffix)) else None)
      | None \<Rightarrow>
          (let normalized = normalize_host_ref pattern in
           if normalized = request_host then Some (FastHostnameScore 2 (length normalized)) else None))"

definition fast_best_hostname_score :: "string list \<Rightarrow> string option \<Rightarrow> FastHostnameScore option" where
  "fast_best_hostname_score hostnames request_host =
     (if hostnames = [] then Some FastHostnameScore_default
      else case request_host of
        None \<Rightarrow> None
      | Some request_host \<Rightarrow>
          max_by (\<lambda>x. x) (List.map_filter (\<lambda>hostname. fast_hostname_score hostname request_host) hostnames))"

section \<open>Listeners\<close>

record FastMatchedListener =
  fm_listener_index :: nat
  fm_host_score :: FastHostnameScore

record FastCandidateListeners =
  fc_first :: "FastMatchedListener option"
  fc_additional :: "FastMatchedListener list"
  fc_enforce_attachments :: bool

definition FastCandidateListeners_default :: FastCandidateListeners where
  "FastCandidateListeners_default = \<lparr> fc_first = None, fc_additional = [], fc_enforce_attachments = False \<rparr>"

definition clear_matches :: "FastCandidateListeners \<Rightarrow> FastCandidateListeners" where
  "clear_matches listeners = listeners\<lparr> fc_first := None, fc_additional := [] \<rparr>"

definition push_match :: "FastMatchedListener \<Rightarrow> FastCandidateListeners \<Rightarrow> FastCandidateListeners" where
  "push_match matched listeners =
     (if fc_first listeners \<noteq> None
      then listeners\<lparr> fc_additional := fc_additional listeners @ [matched] \<rparr>
      else listeners\<lparr> fc_first := Some matched \<rparr>)"

definition iter_matches :: "FastCandidateListeners \<Rightarrow> FastMatchedListener list" where
  "iter_matches listeners =
     (case fc_first listeners of None \<Rightarrow> [] | Some m \<Rightarrow> [m]) @ fc_additional listeners"

definition visit_fast_candidate_listeners ::
    "Snapshot \<Rightarrow> u32 \<Rightarrow> (nat \<Rightarrow> Listener \<Rightarrow> 's \<Rightarrow> 's) \<Rightarrow> 's \<Rightarrow> 's" where
  "visit_fast_candidate_listeners snapshot request_port visit s =
     (if \<not> sn_runtime_indexes_ready snapshot \<or> request_port = 0 then
        foldl (\<lambda>s (listener_index, listener).
            if is_http_listener (ls_protocol listener) \<and> (request_port = 0 \<or> ls_port listener = request_port)
            then visit listener_index listener s else s)
          s (enumerate 0 (sn_listeners snapshot))
      else case sn_http_listener_port_index snapshot request_port of
        None \<Rightarrow> s
      | Some indices \<Rightarrow>
          foldl (\<lambda>s listener_index. case nth_opt (sn_listeners snapshot) listener_index of
              None \<Rightarrow> s
            | Some listener \<Rightarrow> visit listener_index listener s) s indices)"

definition fast_match_listener ::
    "string option \<Rightarrow> nat \<Rightarrow> Listener \<Rightarrow> bool \<times> FastHostnameScore option \<times> FastCandidateListeners \<Rightarrow>
     bool \<times> FastHostnameScore option \<times> FastCandidateListeners" where
  "fast_match_listener request_host listener_index listener = (\<lambda>(_, best_score, listeners).
     case fast_best_hostname_score (ls_hostnames listener) request_host of
       None \<Rightarrow> (True, best_score, listeners)
     | Some host_score \<Rightarrow>
         let matched = \<lparr> fm_listener_index = listener_index, fm_host_score = host_score \<rparr>;
             start = (True, Some host_score, push_match matched (clear_matches listeners))
         in (case best_score of
               None \<Rightarrow> start
             | Some score \<Rightarrow>
                 if host_score < score then (True, best_score, listeners)
                 else if host_score = score then (True, best_score, push_match matched listeners)
                 else start))"

definition fast_matched_listeners :: "Snapshot \<Rightarrow> string option \<Rightarrow> u32 \<Rightarrow> FastCandidateListeners" where
  "fast_matched_listeners snapshot request_host request_port =
     (case visit_fast_candidate_listeners snapshot request_port (fast_match_listener request_host)
             (False, None, FastCandidateListeners_default) of
        (saw_candidate_listener, _, listeners) \<Rightarrow>
          listeners\<lparr> fc_enforce_attachments := saw_candidate_listener \<rparr>)"

definition attached_route_matches :: "string \<Rightarrow> string \<Rightarrow> string \<Rightarrow> bool" where
  "attached_route_matches attached route_namespace route_name =
     (case split_once CHR ''/'' attached of
        None \<Rightarrow> False
      | Some (namespace, name) \<Rightarrow> namespace = route_namespace \<and> name = route_name)"

definition fast_route_listener_match ::
    "Snapshot \<Rightarrow> FastCandidateListeners \<Rightarrow> string \<Rightarrow> string \<Rightarrow> FastMatchedListener option" where
  "fast_route_listener_match snapshot listeners route_namespace route_name =
     (if \<not> fc_enforce_attachments listeners then None
      else if sn_runtime_indexes_ready snapshot then
        (case listeners_for_route (sn_route_attachment_listener_index snapshot) route_namespace route_name of
           None \<Rightarrow> None
         | Some attached_listener_indices \<Rightarrow>
             max_by fm_host_score (filter (\<lambda>listener_match.
               binary_search_is_ok attached_listener_indices (fm_listener_index listener_match))
               (iter_matches listeners)))
      else
        max_by fm_host_score (filter (\<lambda>listener_match.
          case nth_opt (sn_listeners snapshot) (fm_listener_index listener_match) of
            None \<Rightarrow> False
          | Some listener \<Rightarrow> list_ex (\<lambda>attached. attached_route_matches attached route_namespace route_name)
              (ls_attached_routes listener))
          (iter_matches listeners)))"

section \<open>Selection\<close>

definition visit_candidate_routes ::
    "HttpFastPathPlan \<Rightarrow> Snapshot \<Rightarrow> string option \<Rightarrow> (CompiledHttpFastRoute \<Rightarrow> 's \<Rightarrow> bool \<times> 's) \<Rightarrow> 's \<Rightarrow>
     bool \<times> 's" where
  "visit_candidate_routes plan snapshot request_host visit s =
     (if \<not> sn_runtime_indexes_ready snapshot then visit_while visit (hfp_routes plan) s
      else
        snd (visit_candidate_indices (sn_http_route_hostname_index snapshot) request_host
          (\<lambda>route_index (completed, s).
             case Option.bind (nth_opt (hfp_route_plan_indices plan) route_index) (\<lambda>i. i) of
               None \<Rightarrow> (True, completed, s)
             | Some route_plan_index \<Rightarrow>
                 (case nth_opt (hfp_routes plan) route_plan_index of
                    None \<Rightarrow> (True, completed, s)
                  | Some compiled_route \<Rightarrow> (case visit compiled_route s of (go, s) \<Rightarrow> (go, go, s))))
          (True, s)))"

record FastCandidate =
  fk_route_name :: string
  fk_route_namespace :: string
  fk_rule_index :: nat
  fk_route_annotations :: "string btree"
  fk_listener_name :: string
  fk_listener_protocol :: string
  fk_matched_http_path :: MatchedHttpPath
  fk_selected :: CompiledHttpFastBackendSelection
  fk_runtime_ids :: SelectedBackendRuntimeIds
  fk_score :: FastCandidateScore

definition fast_candidate ::
    "CompiledHttpFastRoute \<Rightarrow> CompiledHttpFastRule \<Rightarrow> CompiledHttpFastListener option \<Rightarrow> MatchedHttpPath \<Rightarrow>
     CompiledHttpFastBackendSelection \<Rightarrow> FastCandidateScore \<Rightarrow> FastCandidate" where
  "fast_candidate compiled_route compiled_rule listener_info matched_http_path selected score =
     \<lparr> fk_route_name = cfo_route_name compiled_route,
       fk_route_namespace = cfo_route_namespace compiled_route,
       fk_rule_index = cfu_rule_index compiled_rule,
       fk_route_annotations = cfo_route_annotations compiled_route,
       fk_listener_name = (case listener_info of None \<Rightarrow> [] | Some listener \<Rightarrow> cfl_name listener),
       fk_listener_protocol = (case listener_info of None \<Rightarrow> [] | Some listener \<Rightarrow> cfl_protocol listener),
       fk_matched_http_path = matched_http_path, fk_selected = selected,
       fk_runtime_ids = \<lparr> ri_listener = Option.bind listener_info cfl_runtime_id,
         ri_route = ri_route (cfu_runtime_ids compiled_rule), ri_rule = ri_rule (cfu_runtime_ids compiled_rule),
         ri_backend = cfs_backend_runtime_id selected, ri_endpoint = cfs_endpoint_runtime_id selected \<rparr>,
       fk_score = score \<rparr>"

definition consider_fast_rule ::
    "Lib \<Rightarrow> HttpFastPathPlan \<Rightarrow> Snapshot \<Rightarrow> string \<Rightarrow> string \<Rightarrow> CompiledHttpFastRoute \<Rightarrow>
     FastMatchedListener option \<Rightarrow> FastHostnameScore \<Rightarrow> CompiledHttpFastRule \<Rightarrow>
     FastCandidate option \<times> World \<Rightarrow> bool \<times> FastCandidate option \<times> World" where
  "consider_fast_rule lib plan snapshot request_path request_method compiled_route listener_match
     route_host_score compiled_rule = (\<lambda>(best, w).
     case fast_best_http_rule_match compiled_rule request_path request_method of
       None \<Rightarrow> (True, best, w)
     | Some (matched_http_path, rule_score) \<Rightarrow>
         let score = FastCandidateScore
               (case listener_match of None \<Rightarrow> FastHostnameScore_default | Some item \<Rightarrow> fm_host_score item)
               route_host_score rule_score;
             listener_slot = map_option (\<lambda>item. nth_opt (hfp_listeners plan) (fm_listener_index item)) listener_match
         in if (case best of None \<Rightarrow> False | Some current \<Rightarrow> score \<le> fk_score current) then (True, best, w)
            else if listener_slot = Some None then (False, best, w)
            else
              let listener_info = Option.bind listener_slot (\<lambda>slot. slot) in
              if (case listener_info of None \<Rightarrow> False | Some listener \<Rightarrow> cfl_has_backend_tls listener)
              then (False, best, w)
              else case select_compiled_http_fast_backend lib snapshot (cfu_backend_refs compiled_rule) w of
                (None, w) \<Rightarrow> (False, best, w)
              | (Some selected, w) \<Rightarrow>
                  (True, Some (fast_candidate compiled_route compiled_rule listener_info matched_http_path
                     selected score), w))"

definition consider_fast_route ::
    "Lib \<Rightarrow> HttpFastPathPlan \<Rightarrow> Snapshot \<Rightarrow> string option \<Rightarrow> string \<Rightarrow> string \<Rightarrow> FastCandidateListeners \<Rightarrow>
     CompiledHttpFastRoute \<Rightarrow> FastCandidate option \<times> World \<Rightarrow> bool \<times> FastCandidate option \<times> World" where
  "consider_fast_route lib plan snapshot request_host request_path request_method listeners compiled_route st =
     (case nth_opt (sn_http_routes snapshot) (cfo_route_index compiled_route) of
        None \<Rightarrow> (False, st)
      | Some route \<Rightarrow>
          let listener_match =
                fast_route_listener_match snapshot listeners (hroute_namespace route) (hroute_name route);
              listener = map_option (\<lambda>item. nth_opt (sn_listeners snapshot) (fm_listener_index item)) listener_match
          in if fc_enforce_attachments listeners \<and> listener_match = None then (True, st)
             else if listener = Some None then (False, st)
             else if (case Option.bind listener (\<lambda>slot. slot) of None \<Rightarrow> False
                      | Some listener \<Rightarrow> \<not> route_accepts_service_frontend snapshot (hroute_parent_refs route)
                          (hroute_namespace route) listener) then (True, st)
             else case fast_best_hostname_score (hroute_hostnames route) request_host of
               None \<Rightarrow> (True, st)
             | Some route_host_score \<Rightarrow>
                 visit_while (consider_fast_rule lib plan snapshot request_path request_method compiled_route
                   listener_match route_host_score) (cfo_eligible_rules compiled_route) st)"

definition compiled_selection :: "FastCandidate \<Rightarrow> CompiledSelectedHttpBackend" where
  "compiled_selection candidate =
     \<lparr> cs_route_kind = Http, cs_route_name = fk_route_name candidate,
       cs_route_namespace = fk_route_namespace candidate, cs_rule_index = Some (fk_rule_index candidate),
       cs_route_annotations = fk_route_annotations candidate,
       cs_listener_name = fk_listener_name candidate, cs_listener_protocol = fk_listener_protocol candidate,
       cs_backend = cfs_endpoint (fk_selected candidate),
       cs_backend_name = cfs_backend_name (fk_selected candidate),
       cs_matched_http_path = fk_matched_http_path candidate,
       cs_runtime_ids = fk_runtime_ids candidate \<rparr>"

definition http_fast_path_select ::
    "Lib \<Rightarrow> HttpFastPathPlan \<Rightarrow> Snapshot \<Rightarrow> HttpFastPathRequest \<Rightarrow> World \<Rightarrow>
     CompiledSelectedHttpBackend option \<times> World" where
  "http_fast_path_select lib plan snapshot request w =
     (if \<not> hfp_selection_safe plan \<or> fq_is_grpc request
         \<or> requires_full_headers (sn_request_materialization snapshot)
         \<or> mh_source_ip (sn_request_materialization snapshot) then (None, w)
      else
        let request_path = request_path_without_query (fq_path request);
            request_host = map_option normalize_host_ref (fq_host request);
            listeners = fast_matched_listeners snapshot request_host (fq_port request)
        in case visit_candidate_routes plan snapshot request_host
                  (consider_fast_route lib plan snapshot request_host request_path (fq_method request) listeners)
                  (None, w) of
             (completed, best, w) \<Rightarrow> (if completed then map_option compiled_selection best else None, w))"

definition select_http_fast_path ::
    "Lib \<Rightarrow> Snapshot \<Rightarrow> HttpFastPathRequest \<Rightarrow> World \<Rightarrow> CompiledSelectedHttpBackend option \<times> World" where
  "select_http_fast_path lib snapshot request w =
     http_fast_path_select lib (sn_http_fast_path snapshot) snapshot request w"

end
