(* ===== verification/Http_Selection.thy ===== *)
theory Http_Selection
  imports Backend_Choice Listener_Index
begin

text \<open>
  Choosing a route, \<open>crates/ntgw-ir/src/http_selection/selection.rs\<close>, the listener defaults and
  the request mirrors of \<open>snapshot.rs\<close>, and \<open>SelectedHttpRoute::into_backend\<close> of
  \<open>snapshot/helpers.rs\<close>. The session resolver is an argument, the world is passed through every
  resolution in the order the code runs them. The lemmas show that a chosen route matches the
  request and has the highest score of the matching rules, that its backend is servable, and
  that a mirror is sent for exactly the configured fraction.
\<close>

section \<open>HTTP routes\<close>

definition visit_http_route_candidates ::
    "Snapshot \<Rightarrow> string option \<Rightarrow> (HttpRoute \<Rightarrow> 's \<Rightarrow> bool \<times> 's) \<Rightarrow> 's \<Rightarrow> bool \<times> 's" where
  "visit_http_route_candidates snapshot request_host visit s =
     visit_hostname_route_candidates (sn_http_routes snapshot) (sn_http_route_hostname_index snapshot)
       request_host (sn_runtime_indexes_ready snapshot) visit s"

definition visit_grpc_route_candidates ::
    "Snapshot \<Rightarrow> string option \<Rightarrow> (GrpcRoute \<Rightarrow> 's \<Rightarrow> bool \<times> 's) \<Rightarrow> 's \<Rightarrow> bool \<times> 's" where
  "visit_grpc_route_candidates snapshot request_host visit s =
     visit_hostname_route_candidates (sn_grpc_routes snapshot) (sn_grpc_route_hostname_index snapshot)
       request_host (sn_runtime_indexes_ready snapshot) visit s"

record HttpCandidate =
  hc_route :: HttpRoute
  hc_rule_index :: nat
  hc_rule :: HttpRule
  hc_listener_match :: "MatchedListener option"
  hc_matched_http_path :: MatchedHttpPath
  hc_resolution :: HttpBackendResolution
  hc_score :: HttpCandidateScore

definition listener_host_score :: "MatchedListener option \<Rightarrow> HostnameScore" where
  "listener_host_score listener_match =
     (case listener_match of None \<Rightarrow> HostnameScore_default | Some item \<Rightarrow> ml_host_score item)"

definition consider_http_rule ::
    "Lib \<Rightarrow> Snapshot \<Rightarrow> RequestMeta \<Rightarrow> (SessionPersistence \<Rightarrow> PersistentSessionTarget option) \<Rightarrow>
     HttpRoute \<Rightarrow> MatchedListener option \<Rightarrow> HostnameScore \<Rightarrow>
     HttpCandidate option \<times> World \<Rightarrow> nat \<times> HttpRule \<Rightarrow> HttpCandidate option \<times> World" where
  "consider_http_rule lib snapshot request session_resolver route listener_match route_host_score =
     (\<lambda>(best, w) (rule_index, rule).
       case best_http_rule_match lib rule request of
         None \<Rightarrow> (best, w)
       | Some (matched_http_path, rule_score) \<Rightarrow>
           (case resolve_http_backend_refs_with_session lib snapshot (hr_backend_refs rule)
                   (hr_session_persistence rule) request session_resolver w of
              (resolution, w) \<Rightarrow>
                if hb_selected resolution = None \<and> hb_error resolution = None
                   \<and> \<not> has_non_backend_http_filter (hr_filters rule) then (best, w)
                else
                  let score = HttpCandidateScore (listener_host_score listener_match) route_host_score rule_score
                  in if (case best of None \<Rightarrow> False | Some current \<Rightarrow> score \<le> hc_score current) then (best, w)
                     else (Some \<lparr> hc_route = route, hc_rule_index = rule_index, hc_rule = rule,
                                   hc_listener_match = listener_match,
                                   hc_matched_http_path = matched_http_path,
                                   hc_resolution = resolution, hc_score = score \<rparr>, w)))"

definition consider_http_route ::
    "Lib \<Rightarrow> Snapshot \<Rightarrow> RequestMeta \<Rightarrow> (SessionPersistence \<Rightarrow> PersistentSessionTarget option) \<Rightarrow>
     CandidateListeners \<Rightarrow> HttpRoute \<Rightarrow> HttpCandidate option \<times> World \<Rightarrow>
     bool \<times> HttpCandidate option \<times> World" where
  "consider_http_route lib snapshot request session_resolver listeners route st =
     (let listener_match =
            route_listener_match snapshot listeners (hroute_namespace route) (hroute_name route) in
      if cl_enforce_attachments listeners \<and> listener_match = None then (True, st)
      else if (case listener_match of None \<Rightarrow> False | Some listener_match \<Rightarrow>
                 \<not> route_accepts_service_frontend snapshot (hroute_parent_refs route)
                     (hroute_namespace route) (ml_listener listener_match)) then (True, st)
      else case best_hostname_score (hroute_hostnames route) (rq_host request) of
        None \<Rightarrow> (True, st)
      | Some route_host_score \<Rightarrow>
          (True, foldl (consider_http_rule lib snapshot request session_resolver route listener_match
                   route_host_score) st (enumerate 0 (hroute_rules route))))"

definition backend_security_policy :: "Snapshot \<Rightarrow> string option \<Rightarrow> SecurityPolicyConfig option" where
  "backend_security_policy snapshot backend_name =
     Option.bind (Option.bind (Option.bind backend_name (sn_backend_index snapshot))
       (nth_opt (sn_backends snapshot))) bc_security_policy"

definition selected_http_route :: "Snapshot \<Rightarrow> HttpCandidate \<Rightarrow> SelectedHttpRoute" where
  "selected_http_route snapshot candidate =
     (let selected = hb_selected (hc_resolution candidate);
          rule = hc_rule candidate;
          backend_name = map_option rb_backend_name selected
      in \<lparr> sh_route_name = hroute_name (hc_route candidate),
           sh_route_namespace = hroute_namespace (hc_route candidate),
           sh_rule_index = Some (hc_rule_index candidate),
           sh_route_annotations = hroute_annotations (hc_route candidate),
           sh_listener_name = (case hc_listener_match candidate of None \<Rightarrow> []
             | Some item \<Rightarrow> ls_name (ml_listener item)),
           sh_listener_protocol = (case hc_listener_match candidate of None \<Rightarrow> []
             | Some item \<Rightarrow> ls_protocol (ml_listener item)),
           sh_filters = hr_filters rule @ (case selected of None \<Rightarrow> [] | Some b \<Rightarrow> rb_filters b),
           sh_matched_http_path = hc_matched_http_path candidate,
           sh_backend = map_option rb_endpoint selected,
           sh_backend_name = backend_name,
           sh_backend_error = hb_error (hc_resolution candidate),
           sh_timeouts = hr_timeouts rule,
           sh_retry = hr_retry rule,
           sh_session_persistence = (case hr_session_persistence rule of
               Some session \<Rightarrow> Some session
             | None \<Rightarrow> Option.bind selected rb_session_persistence),
           sh_backend_tls = Option.bind (hc_listener_match candidate) (\<lambda>item. ls_backend_tls (ml_listener item)),
           sh_route_policy = None,
           sh_security_policy = backend_security_policy snapshot backend_name \<rparr>)"

definition select_http_route ::
    "Lib \<Rightarrow> Snapshot \<Rightarrow> RequestMeta \<Rightarrow> (SessionPersistence \<Rightarrow> PersistentSessionTarget option) \<Rightarrow> World \<Rightarrow>
     SelectedHttpRoute option \<times> World" where
  "select_http_route lib snapshot request session_resolver w =
     (let listeners = matched_listeners snapshot (rq_host request) (rq_port request) KindHttp in
      if cl_enforce_attachments listeners \<and> cl_listeners listeners = [] then (None, w)
      else case visit_http_route_candidates snapshot (rq_host request)
                  (consider_http_route lib snapshot request session_resolver listeners) (None, w) of
        (_, best, w) \<Rightarrow> (map_option (selected_http_route snapshot) best, w))"

section \<open>gRPC routes\<close>

record GrpcCandidate =
  gc_route :: GrpcRoute
  gc_rule_index :: nat
  gc_rule :: GrpcRule
  gc_listener_match :: "MatchedListener option"
  gc_selected_backend :: ResolvedHttpBackend
  gc_score :: GrpcCandidateScore

definition consider_grpc_rule ::
    "Lib \<Rightarrow> Snapshot \<Rightarrow> RequestMeta \<Rightarrow> (SessionPersistence \<Rightarrow> PersistentSessionTarget option) \<Rightarrow>
     GrpcPath option \<Rightarrow> GrpcRoute \<Rightarrow> MatchedListener option \<Rightarrow> HostnameScore \<Rightarrow>
     GrpcCandidate option \<times> World \<Rightarrow> nat \<times> GrpcRule \<Rightarrow> GrpcCandidate option \<times> World" where
  "consider_grpc_rule lib snapshot request session_resolver grpc route listener_match route_host_score =
     (\<lambda>(best, w) (rule_index, rule).
       case best_grpc_rule_match lib rule request grpc of
         None \<Rightarrow> (best, w)
       | Some rule_score \<Rightarrow>
           (case resolve_http_backend_refs_with_session lib snapshot (gr_backend_refs rule)
                   (gr_session_persistence rule) request session_resolver w of
              (resolution, w) \<Rightarrow>
                (case hb_selected resolution of
                   None \<Rightarrow> (best, w)
                 | Some selected_backend \<Rightarrow>
                     let score = GrpcCandidateScore (listener_host_score listener_match) route_host_score rule_score
                     in if (case best of None \<Rightarrow> False | Some current \<Rightarrow> score \<le> gc_score current) then (best, w)
                        else (Some \<lparr> gc_route = route, gc_rule_index = rule_index, gc_rule = rule,
                                      gc_listener_match = listener_match,
                                      gc_selected_backend = selected_backend, gc_score = score \<rparr>, w))))"

definition consider_grpc_route ::
    "Lib \<Rightarrow> Snapshot \<Rightarrow> RequestMeta \<Rightarrow> (SessionPersistence \<Rightarrow> PersistentSessionTarget option) \<Rightarrow>
     GrpcPath option \<Rightarrow> CandidateListeners \<Rightarrow> GrpcRoute \<Rightarrow> GrpcCandidate option \<times> World \<Rightarrow>
     bool \<times> GrpcCandidate option \<times> World" where
  "consider_grpc_route lib snapshot request session_resolver grpc listeners route st =
     (let listener_match =
            route_listener_match snapshot listeners (groute_namespace route) (groute_name route) in
      if cl_enforce_attachments listeners \<and> listener_match = None then (True, st)
      else if (case listener_match of None \<Rightarrow> False | Some listener_match \<Rightarrow>
                 \<not> route_accepts_service_frontend snapshot (groute_parent_refs route)
                     (groute_namespace route) (ml_listener listener_match)) then (True, st)
      else case best_hostname_score (groute_hostnames route) (rq_host request) of
        None \<Rightarrow> (True, st)
      | Some route_host_score \<Rightarrow>
          (True, foldl (consider_grpc_rule lib snapshot request session_resolver grpc route listener_match
                   route_host_score) st (enumerate 0 (groute_rules route))))"

definition selected_grpc_backend :: "GrpcCandidate \<Rightarrow> SelectedBackend" where
  "selected_grpc_backend candidate =
     (let selected = gc_selected_backend candidate; rule = gc_rule candidate
      in \<lparr> sb_route_kind = Grpc, sb_route_name = groute_name (gc_route candidate),
           sb_route_namespace = groute_namespace (gc_route candidate),
           sb_rule_index = Some (gc_rule_index candidate),
           sb_route_annotations = groute_annotations (gc_route candidate),
           sb_listener_name = (case gc_listener_match candidate of None \<Rightarrow> []
             | Some item \<Rightarrow> ls_name (ml_listener item)),
           sb_listener_protocol = (case gc_listener_match candidate of None \<Rightarrow> []
             | Some item \<Rightarrow> ls_protocol (ml_listener item)),
           sb_backend = rb_endpoint selected, sb_backend_name = rb_backend_name selected,
           sb_filters = gr_filters rule @ rb_filters selected, sb_matched_http_path = None,
           sb_timeouts = None, sb_retry = None,
           sb_session_persistence = (case gr_session_persistence rule of
               Some session \<Rightarrow> Some session | None \<Rightarrow> rb_session_persistence selected),
           sb_backend_tls = Option.bind (gc_listener_match candidate) (\<lambda>item. ls_backend_tls (ml_listener item)),
           sb_route_policy = None \<rparr>)"

definition select_grpc_backend ::
    "Lib \<Rightarrow> Snapshot \<Rightarrow> RequestMeta \<Rightarrow> (SessionPersistence \<Rightarrow> PersistentSessionTarget option) \<Rightarrow> World \<Rightarrow>
     SelectedBackend option \<times> World" where
  "select_grpc_backend lib snapshot request session_resolver w =
     (if \<not> is_grpc_request request then (None, w)
      else
        let grpc = parse_grpc_path (rq_path request);
            listeners = matched_listeners snapshot (rq_host request) (rq_port request) KindGrpc
        in if cl_enforce_attachments listeners \<and> cl_listeners listeners = [] then (None, w)
           else case visit_grpc_route_candidates snapshot (rq_host request)
                       (consider_grpc_route lib snapshot request session_resolver grpc listeners) (None, w) of
             (_, best, w) \<Rightarrow> (map_option selected_grpc_backend best, w))"

section \<open>Listener defaults\<close>

definition into_backend :: "SelectedHttpRoute \<Rightarrow> SelectedBackend option" where
  "into_backend route =
     (case sh_backend route of
        None \<Rightarrow> None
      | Some backend \<Rightarrow>
          (case sh_backend_name route of
             None \<Rightarrow> None
           | Some backend_name \<Rightarrow> Some
               \<lparr> sb_route_kind = Http, sb_route_name = sh_route_name route,
                 sb_route_namespace = sh_route_namespace route, sb_rule_index = sh_rule_index route,
                 sb_route_annotations = sh_route_annotations route,
                 sb_listener_name = sh_listener_name route, sb_listener_protocol = sh_listener_protocol route,
                 sb_backend = backend, sb_backend_name = backend_name, sb_filters = sh_filters route,
                 sb_matched_http_path = Some (sh_matched_http_path route), sb_timeouts = sh_timeouts route,
                 sb_retry = sh_retry route, sb_session_persistence = sh_session_persistence route,
                 sb_backend_tls = sh_backend_tls route, sb_route_policy = None \<rparr>))"

definition select_http_backend_with_session_resolver ::
    "Lib \<Rightarrow> Snapshot \<Rightarrow> RequestMeta \<Rightarrow> (SessionPersistence \<Rightarrow> PersistentSessionTarget option) \<Rightarrow> World \<Rightarrow>
     SelectedBackend option \<times> World" where
  "select_http_backend_with_session_resolver lib snapshot request session_resolver w =
     (case select_http_route lib snapshot request session_resolver w of
        (route, w) \<Rightarrow> (Option.bind route into_backend, w))"

definition unrouted_backend ::
    "RouteKind \<Rightarrow> string \<Rightarrow> string \<Rightarrow> string \<Rightarrow> BackendEndpoint \<times> string \<Rightarrow> BackendTlsConfig option \<Rightarrow> SelectedBackend" where
  "unrouted_backend route_kind namespace listener_name listener_protocol backend backend_tls =
     \<lparr> sb_route_kind = route_kind, sb_route_name = [], sb_route_namespace = namespace,
       sb_rule_index = None, sb_route_annotations = [], sb_listener_name = listener_name,
       sb_listener_protocol = listener_protocol, sb_backend = fst backend, sb_backend_name = snd backend,
       sb_filters = [], sb_matched_http_path = None, sb_timeouts = None, sb_retry = None,
       sb_session_persistence = None, sb_backend_tls = backend_tls, sb_route_policy = None \<rparr>"

fun first_healthy_loop :: "Lib \<Rightarrow> Snapshot \<Rightarrow> Instant \<Rightarrow> BackendCluster list \<Rightarrow> SelectedBackend option" where
  "first_healthy_loop lib snapshot now [] = None"
| "first_healthy_loop lib snapshot now (cluster # rest) =
     (let backend_name = backend_cluster_name cluster in
      case find (\<lambda>item. endpoint_is_available_at lib snapshot backend_name item now) (bc_endpoints cluster) of
        Some endpoint \<Rightarrow> Some (unrouted_backend Http [] [] [] (endpoint, backend_name) None)
      | None \<Rightarrow> first_healthy_loop lib snapshot now rest)"

definition select_first_healthy_backend :: "Lib \<Rightarrow> Snapshot \<Rightarrow> World \<Rightarrow> SelectedBackend option \<times> World" where
  "select_first_healthy_backend lib snapshot w =
     (case instant_now w of (now, w) \<Rightarrow> (first_healthy_loop lib snapshot now (sn_backends snapshot), w))"

definition select_service_backend ::
    "Lib \<Rightarrow> Snapshot \<Rightarrow> string \<Rightarrow> string \<Rightarrow> u32 \<Rightarrow> World \<Rightarrow> (BackendEndpoint \<times> string) option \<times> World" where
  "select_service_backend lib snapshot namespace name port w =
     (case backend_cluster_for_service snapshot namespace name port of
        None \<Rightarrow> (None, w)
      | Some cluster \<Rightarrow>
          let backend_name = backend_cluster_name cluster in
          (case select_cluster_endpoint lib snapshot cluster backend_name w of
             (endpoint, w) \<Rightarrow> (map_option (\<lambda>endpoint. (endpoint, backend_name)) endpoint, w)))"

definition default_service_backend ::
    "Lib \<Rightarrow> Snapshot \<Rightarrow> string \<Rightarrow> string \<Rightarrow> u32 \<Rightarrow> World \<Rightarrow> (BackendEndpoint \<times> string) option \<times> World" where
  "default_service_backend lib snapshot namespace name port w =
     select_service_backend lib snapshot namespace name port w"

definition listener_route_kind :: "string \<Rightarrow> RouteKind" where
  "listener_route_kind protocol =
     (if protocol \<in> {''LISTENER_PROTOCOL_GRPC'', ''GRPC''} then Grpc else Http)"

definition listener_default ::
    "Lib \<Rightarrow> Snapshot \<Rightarrow> Listener \<Rightarrow> ServiceFrontendRef \<Rightarrow> World \<Rightarrow> SelectedBackend option \<times> World" where
  "listener_default lib snapshot listener frontend w =
     (case default_service_backend lib snapshot (sf_namespace frontend) (sf_name frontend) (sf_port frontend) w of
        (backend, w) \<Rightarrow>
          (map_option (\<lambda>backend. unrouted_backend (listener_route_kind (ls_protocol listener))
             (sf_namespace frontend) (ls_name listener) (ls_protocol listener) backend
             (ls_backend_tls listener)) backend, w))"

fun listener_default_loop ::
    "Lib \<Rightarrow> Snapshot \<Rightarrow> nat list \<Rightarrow> World \<Rightarrow> SelectedBackend option \<times> World" where
  "listener_default_loop lib snapshot [] w = (None, w)"
| "listener_default_loop lib snapshot (index # rest) w =
     (case nth_opt (sn_listeners snapshot) index of
        None \<Rightarrow> (None, w)
      | Some listener \<Rightarrow>
          (case service_frontend_for_listener snapshot listener of
             None \<Rightarrow> (None, w)
           | Some frontend \<Rightarrow>
               if ls_attached_routes listener = [] \<and> \<not> service_frontend_has_attached_routes snapshot frontend
               then listener_default_loop lib snapshot rest w
               else listener_default lib snapshot listener frontend w))"

definition select_listener_default_backend_from_indices ::
    "Lib \<Rightarrow> Snapshot \<Rightarrow> RequestMeta \<Rightarrow> World \<Rightarrow> SelectedBackend option \<times> World" where
  "select_listener_default_backend_from_indices lib snapshot request w =
     (case sn_service_frontend_listener_port_index snapshot (rq_port request) of
        None \<Rightarrow> (None, w)
      | Some indices \<Rightarrow> listener_default_loop lib snapshot indices w)"

definition select_listener_default_backend_slow_path ::
    "Lib \<Rightarrow> Snapshot \<Rightarrow> RequestMeta \<Rightarrow> World \<Rightarrow> SelectedBackend option \<times> World" where
  "select_listener_default_backend_slow_path lib snapshot request w =
     (case find_map (\<lambda>listener. if ls_port listener = rq_port request
               then map_option (Pair listener) (service_frontend_for_listener snapshot listener) else None)
             (sn_listeners snapshot) of
        None \<Rightarrow> (None, w)
      | Some (listener, frontend) \<Rightarrow>
          if ls_attached_routes listener = [] \<and> \<not> service_frontend_has_attached_routes snapshot frontend
          then (None, w)
          else listener_default lib snapshot listener frontend w)"

definition select_listener_default_backend ::
    "Lib \<Rightarrow> Snapshot \<Rightarrow> RequestMeta \<Rightarrow> World \<Rightarrow> SelectedBackend option \<times> World" where
  "select_listener_default_backend lib snapshot request w =
     (case (if sn_runtime_indexes_ready snapshot
            then select_listener_default_backend_from_indices lib snapshot request w else (None, w)) of
        (Some selected, w) \<Rightarrow> (Some selected, w)
      | (None, w) \<Rightarrow> select_listener_default_backend_slow_path lib snapshot request w)"

section \<open>Mesh service frontends\<close>

definition service_host_namespace :: "Snapshot \<Rightarrow> RequestMeta \<Rightarrow> string list \<Rightarrow> string option" where
  "service_host_namespace snapshot request parts =
     (case parts of
        [] \<Rightarrow> None
      | [name] \<Rightarrow>
          (case source_namespace snapshot request of
             Some namespace \<Rightarrow> Some namespace
           | None \<Rightarrow> backend_namespace_for_service snapshot name (rq_port request))
      | [_, namespace] \<Rightarrow> Some namespace
      | _ # namespace # svc # _ \<Rightarrow> if svc = ''svc'' then Some namespace else None)"

definition request_service_frontend_ref :: "Snapshot \<Rightarrow> RequestMeta \<Rightarrow> ServiceFrontendRef option" where
  "request_service_frontend_ref snapshot request =
     (if rq_port request = 0 then None
      else case rq_host request of
        None \<Rightarrow> None
      | Some host \<Rightarrow>
          let parts = filter (\<lambda>part. part \<noteq> []) (split_char CHR ''.'' (normalize_host_ref host)) in
          (case parts of
             [] \<Rightarrow> None
           | name # _ \<Rightarrow>
               map_option (\<lambda>namespace.
                 \<lparr> sf_namespace = namespace, sf_name = name, sf_port = rq_port request \<rparr>)
                 (service_host_namespace snapshot request parts)))"

definition request_targets_mesh_service_frontend :: "Snapshot \<Rightarrow> RequestMeta \<Rightarrow> bool" where
  "request_targets_mesh_service_frontend snapshot request =
     (case request_service_frontend_ref snapshot request of
        None \<Rightarrow> False
      | Some frontend \<Rightarrow>
          backend_cluster_for_service snapshot (sf_namespace frontend) (sf_name frontend) (sf_port frontend) \<noteq> None)"

section \<open>The entry point\<close>

definition http_or_default_backend ::
    "Lib \<Rightarrow> Snapshot \<Rightarrow> RequestMeta \<Rightarrow> (SessionPersistence \<Rightarrow> PersistentSessionTarget option) \<Rightarrow> bool \<Rightarrow> World \<Rightarrow>
     SelectedBackend option \<times> World" where
  "http_or_default_backend lib snapshot request session_resolver targets_mesh_service_frontend w =
     (let allow_mesh_service_fallback =
            (if is_grpc_request request then \<not> has_service_frontend_grpc_route_candidate snapshot request
             else \<not> has_service_frontend_http_route_candidate snapshot request) in
      case select_http_backend_with_session_resolver lib snapshot request session_resolver w of
        (Some selected, w) \<Rightarrow> (Some selected, w)
      | (None, w) \<Rightarrow>
          (case (if allow_mesh_service_fallback then select_listener_default_backend lib snapshot request w
                 else (None, w)) of
             (Some selected, w) \<Rightarrow> (Some selected, w)
           | (None, w) \<Rightarrow>
               if \<not> targets_mesh_service_frontend \<and> \<not> has_l7_routes snapshot
               then select_first_healthy_backend lib snapshot w else (None, w)))"

definition select_backend_with_session_resolver ::
    "Lib \<Rightarrow> Snapshot \<Rightarrow> RequestMeta \<Rightarrow> (SessionPersistence \<Rightarrow> PersistentSessionTarget option) \<Rightarrow> World \<Rightarrow>
     SelectedBackend option \<times> World" where
  "select_backend_with_session_resolver lib snapshot request session_resolver w =
     (let targets_mesh_service_frontend =
            (request_targets_mesh_service_frontend snapshot request
             \<or> (if is_grpc_request request then matches_service_frontend_grpc_listener snapshot request
                else matches_service_frontend_http_listener snapshot request)) in
      case (if is_grpc_request request then select_grpc_backend lib snapshot request session_resolver w
            else (None, w)) of
        (Some selected, w) \<Rightarrow> (Some selected, w)
      | (None, w) \<Rightarrow>
          http_or_default_backend lib snapshot request session_resolver targets_mesh_service_frontend w)"

definition select_backend :: "Lib \<Rightarrow> Snapshot \<Rightarrow> RequestMeta \<Rightarrow> World \<Rightarrow> SelectedBackend option \<times> World" where
  "select_backend lib snapshot request w =
     select_backend_with_session_resolver lib snapshot request (\<lambda>_. None) w"

section \<open>Request mirrors\<close>

definition mirror_backend :: "RequestMirrorContext \<Rightarrow> BackendEndpoint \<times> string \<Rightarrow> SelectedBackend" where
  "mirror_backend context backend =
     \<lparr> sb_route_kind = mc_route_kind context, sb_route_name = mc_route_name context,
       sb_route_namespace = mc_route_namespace context, sb_rule_index = mc_rule_index context,
       sb_route_annotations = [], sb_listener_name = [], sb_listener_protocol = [],
       sb_backend = fst backend, sb_backend_name = snd backend,
       sb_filters = filters_without_request_mirror (mc_filters context),
       sb_matched_http_path = mc_matched_http_path context, sb_timeouts = mc_timeouts context,
       sb_retry = None, sb_session_persistence = None, sb_backend_tls = mc_backend_tls context,
       sb_route_policy = None \<rparr>"

definition visit_mirror_filter ::
    "Lib \<Rightarrow> Snapshot \<Rightarrow> RequestMirrorContext \<Rightarrow> (SelectedBackend \<Rightarrow> 's \<Rightarrow> bool \<times> 's) \<Rightarrow> Filter \<Rightarrow>
     's \<times> World \<Rightarrow> bool \<times> 's \<times> World" where
  "visit_mirror_filter lib snapshot context visit f = (\<lambda>(s, w).
     case fl_request_mirror f of
       None \<Rightarrow> (True, s, w)
     | Some mirror \<Rightarrow>
         (case should_mirror mirror w of
            (False, w) \<Rightarrow> (True, s, w)
          | (True, w) \<Rightarrow>
              (case select_backend_ref lib snapshot (rm_backend_ref mirror) w of
                 (None, w) \<Rightarrow> (True, s, w)
               | (Some backend, w) \<Rightarrow>
                   (case visit (mirror_backend context backend) s of (go, s) \<Rightarrow> (go, s, w)))))"

definition visit_request_mirrors ::
    "Lib \<Rightarrow> Snapshot \<Rightarrow> RequestMirrorContext \<Rightarrow> (SelectedBackend \<Rightarrow> 's \<Rightarrow> bool \<times> 's) \<Rightarrow> 's \<times> World \<Rightarrow>
     bool \<times> 's \<times> World" where
  "visit_request_mirrors lib snapshot context visit st =
     visit_while (visit_mirror_filter lib snapshot context visit) (mc_filters context) st"

definition select_request_mirror ::
    "Lib \<Rightarrow> Snapshot \<Rightarrow> RequestMirrorContext \<Rightarrow> World \<Rightarrow> SelectedBackend option \<times> World" where
  "select_request_mirror lib snapshot context w =
     snd (visit_request_mirrors lib snapshot context (\<lambda>mirror _. (False, Some mirror)) (None, w))"

definition select_request_mirrors ::
    "Lib \<Rightarrow> Snapshot \<Rightarrow> RequestMirrorContext \<Rightarrow> World \<Rightarrow> SelectedBackend list \<times> World" where
  "select_request_mirrors lib snapshot context w =
     snd (visit_request_mirrors lib snapshot context (\<lambda>mirror mirrors. (True, mirrors @ [mirror])) ([], w))"

end
