(* ===== verification/Stream_Selection.thy ===== *)
theory Stream_Selection
  imports Http_Selection
begin

text \<open>
  Choosing the backend of a TCP, UDP or TLS connection: the stream part of
  \<open>crates/ntgw-ir/src/snapshot.rs\<close> and the compiled plan of \<open>stream_fast_path.rs\<close>. On a snapshot with its
  indexes the plan decides, otherwise the routes are scanned.
\<close>

section \<open>The plan\<close>

definition compile_stream_fast_rule :: "Snapshot \<Rightarrow> nat \<times> StreamRule \<Rightarrow> CompiledStreamFastRule option" where
  "compile_stream_fast_rule snapshot = (\<lambda>(rule_index, rule).
     let backend_refs = List.map_filter (compile_http_fast_backend_ref snapshot) (sr_backend_refs rule)
     in if backend_refs \<noteq> [] then Some \<lparr> csu_rule_index = rule_index, csu_backend_refs = backend_refs \<rparr>
        else None)"

definition compile_stream_fast_route ::
    "Snapshot \<Rightarrow> StreamFastPathPlan \<Rightarrow> nat \<times> StreamRoute \<Rightarrow> StreamFastPathPlan" where
  "compile_stream_fast_route snapshot plan = (\<lambda>(route_index, route).
     let rules = List.map_filter (compile_stream_fast_rule snapshot) (enumerate 0 (sroute_rules route))
     in if rules = [] then plan
        else plan
          \<lparr> sfp_route_count := sfp_route_count plan + 1,
            sfp_eligible_rule_count := sfp_eligible_rule_count plan + length rules,
            sfp_compiled_backend_ref_count := sfp_compiled_backend_ref_count plan
              + sum_list (map (\<lambda>rule. length (csu_backend_refs rule)) rules),
            sfp_routes := (sfp_routes plan)[route_index := Some \<lparr> cso_rules = rules \<rparr>] \<rparr>)"

definition stream_fast_path_build :: "Snapshot \<Rightarrow> StreamFastPathPlan" where
  "stream_fast_path_build snapshot =
     foldl (compile_stream_fast_route snapshot)
       \<lparr> sfp_routes = replicate (length (sn_stream_routes snapshot)) None, sfp_route_count = 0,
         sfp_eligible_rule_count = 0, sfp_compiled_backend_ref_count = 0 \<rparr>
       (enumerate 0 (sn_stream_routes snapshot))"

definition stream_route_kind :: "StreamRoute \<Rightarrow> RouteKind option" where
  "stream_route_kind route =
     (if sroute_kind route \<in> {''ROUTE_KIND_TCP'', ''TCPRoute'', ''TCP''} then Some Tcp
      else if sroute_kind route \<in> {''ROUTE_KIND_UDP'', ''UDPRoute'', ''UDP''} then Some Udp
      else if sroute_kind route \<in> {''ROUTE_KIND_TLS'', ''TLSRoute'', ''TLS''} then Some Tls
      else None)"

definition route_kind_from_name :: "string \<Rightarrow> RouteKind option" where
  "route_kind_from_name kind =
     (if kind \<in> {''ROUTE_KIND_TCP'', ''TCP''} then Some Tcp
      else if kind \<in> {''ROUTE_KIND_UDP'', ''UDP''} then Some Udp
      else if kind \<in> {''ROUTE_KIND_TLS'', ''TLS''} then Some Tls
      else if kind \<in> {''ROUTE_KIND_HTTP'', ''HTTP''} then Some Http
      else if kind \<in> {''ROUTE_KIND_GRPC'', ''GRPC''} then Some Grpc
      else None)"

record StreamFastCandidate =
  fs_route_index :: nat
  fs_rule_index :: nat
  fs_endpoint :: BackendEndpoint
  fs_backend_name :: string
  fs_score :: StreamMatchScore

definition consider_stream_fast_rule ::
    "Lib \<Rightarrow> Snapshot \<Rightarrow> Listener \<Rightarrow> string option \<Rightarrow> TlsRouteMode option \<Rightarrow> nat \<Rightarrow> StreamRoute \<Rightarrow>
     CompiledStreamFastRule \<Rightarrow> StreamFastCandidate option \<times> World \<Rightarrow> bool \<times> StreamFastCandidate option \<times> World" where
  "consider_stream_fast_rule lib snapshot listener server_name tls_mode route_index route compiled_rule =
     (\<lambda>(best, w).
       case nth_opt (sroute_rules route) (csu_rule_index compiled_rule) of
         None \<Rightarrow> (False, best, w)
       | Some rule \<Rightarrow>
           (case best_stream_rule_match_with_tls_mode (sr_matches rule) (ls_port listener) server_name tls_mode of
              None \<Rightarrow> (True, best, w)
            | Some score \<Rightarrow>
                if (case best of None \<Rightarrow> False | Some candidate \<Rightarrow> score \<le> fs_score candidate) then (True, best, w)
                else case select_compiled_http_fast_backend lib snapshot (csu_backend_refs compiled_rule) w of
                  (None, w) \<Rightarrow> (True, best, w)
                | (Some selected, w) \<Rightarrow>
                    (True, Some \<lparr> fs_route_index = route_index, fs_rule_index = csu_rule_index compiled_rule,
                       fs_endpoint = cfs_endpoint selected, fs_backend_name = cfs_backend_name selected,
                       fs_score = score \<rparr>, w)))"

definition consider_stream_fast_route ::
    "Lib \<Rightarrow> StreamFastPathPlan \<Rightarrow> Snapshot \<Rightarrow> Listener \<Rightarrow> RouteKind \<Rightarrow> string option \<Rightarrow> TlsRouteMode option \<Rightarrow>
     nat \<Rightarrow> StreamFastCandidate option \<times> World \<Rightarrow> bool \<times> StreamFastCandidate option \<times> World" where
  "consider_stream_fast_route lib plan snapshot listener expected_kind server_name tls_mode route_index st =
     (case nth_opt (sn_stream_routes snapshot) route_index of
        None \<Rightarrow> (False, st)
      | Some route \<Rightarrow>
          if stream_route_kind route \<noteq> Some expected_kind then (True, st)
          else case Option.bind (nth_opt (sfp_routes plan) route_index) (\<lambda>r. r) of
            None \<Rightarrow> (True, st)
          | Some compiled_route \<Rightarrow>
              visit_while (consider_stream_fast_rule lib snapshot listener server_name tls_mode route_index route)
                (cso_rules compiled_route) st)"

definition stream_backend ::
    "RouteKind \<Rightarrow> StreamRoute \<Rightarrow> nat \<Rightarrow> Listener \<Rightarrow> BackendEndpoint \<Rightarrow> string \<Rightarrow> SelectedBackend" where
  "stream_backend expected_kind route rule_index listener endpoint backend_name =
     \<lparr> sb_route_kind = expected_kind, sb_route_name = sroute_name route,
       sb_route_namespace = sroute_namespace route, sb_rule_index = Some rule_index,
       sb_route_annotations = sroute_annotations route, sb_listener_name = ls_name listener,
       sb_listener_protocol = ls_protocol listener, sb_backend = endpoint, sb_backend_name = backend_name,
       sb_filters = [], sb_matched_http_path = None, sb_timeouts = None, sb_retry = None,
       sb_session_persistence = None, sb_backend_tls = None, sb_route_policy = None \<rparr>"

definition stream_fast_path_select ::
    "Lib \<Rightarrow> StreamFastPathPlan \<Rightarrow> Snapshot \<Rightarrow> Listener \<Rightarrow> RouteKind \<Rightarrow> string option \<Rightarrow> TlsRouteMode option \<Rightarrow>
     World \<Rightarrow> SelectedBackend option \<times> World" where
  "stream_fast_path_select lib plan snapshot listener expected_kind server_name tls_mode w =
     (case sn_stream_listener_route_index snapshot (ls_name listener) of
        None \<Rightarrow> (None, w)
      | Some route_indices \<Rightarrow>
          (case visit_while (consider_stream_fast_route lib plan snapshot listener expected_kind server_name tls_mode)
                  route_indices (None, w) of
             (completed, best, w) \<Rightarrow>
               (if \<not> completed then None
                else Option.bind best (\<lambda>candidate.
                  map_option (\<lambda>route. stream_backend expected_kind route (fs_rule_index candidate) listener
                      (fs_endpoint candidate) (fs_backend_name candidate))
                    (nth_opt (sn_stream_routes snapshot) (fs_route_index candidate))), w)))"

section \<open>The scan\<close>

definition listener_attaches_route :: "Listener \<Rightarrow> StreamRoute \<Rightarrow> bool" where
  "listener_attaches_route listener route =
     (let route_name = sroute_namespace route @ ''/'' @ sroute_name route
      in list_ex (\<lambda>item. item = route_name) (ls_attached_routes listener))"

definition build_stream_route_name_index :: "StreamRoute list \<Rightarrow> string \<rightharpoonup> nat list" where
  "build_stream_route_name_index routes =
     foldl (\<lambda>route_index (index, route).
         entry_push (sroute_namespace route @ ''/'' @ sroute_name route) index route_index)
       Map.empty (enumerate 0 routes)"

definition build_stream_listener_route_index ::
    "Listener list \<Rightarrow> StreamRoute list \<Rightarrow> string \<rightharpoonup> nat list" where
  "build_stream_listener_route_index listeners routes =
     (let route_index = build_stream_route_name_index routes in
      foldl (\<lambda>listener_index listener.
          let attached = concat (map (\<lambda>route_name.
                case route_index route_name of None \<Rightarrow> [] | Some indices \<Rightarrow> indices) (ls_attached_routes listener))
          in if attached \<noteq> [] then listener_index(ls_name listener \<mapsto> attached) else listener_index)
        Map.empty listeners)"

definition visit_stream_route_candidates ::
    "Snapshot \<Rightarrow> Listener \<Rightarrow> RouteKind \<Rightarrow> (StreamRoute \<Rightarrow> 's \<Rightarrow> bool \<times> 's) \<Rightarrow> 's \<Rightarrow> bool \<times> 's" where
  "visit_stream_route_candidates snapshot listener expected_kind visit s =
     (if sn_runtime_indexes_ready snapshot then
        (case sn_stream_listener_route_index snapshot (ls_name listener) of
           None \<Rightarrow> (True, s)
         | Some indices \<Rightarrow>
             visit_while (\<lambda>index s. case nth_opt (sn_stream_routes snapshot) index of
                 None \<Rightarrow> (True, s)
               | Some route \<Rightarrow> if route_kind_from_name (sroute_kind route) = Some expected_kind then visit route s
                   else (True, s)) indices s)
      else
        visit_while (\<lambda>route s.
            if route_kind_from_name (sroute_kind route) = Some expected_kind \<and> listener_attaches_route listener route
            then visit route s else (True, s)) (sn_stream_routes snapshot) s)"

definition consider_stream_rule ::
    "Lib \<Rightarrow> Snapshot \<Rightarrow> Listener \<Rightarrow> RouteKind \<Rightarrow> string option \<Rightarrow> TlsRouteMode option \<Rightarrow> StreamRoute \<Rightarrow>
     (SelectedBackend \<times> StreamMatchScore) option \<times> World \<Rightarrow> nat \<times> StreamRule \<Rightarrow>
     (SelectedBackend \<times> StreamMatchScore) option \<times> World" where
  "consider_stream_rule lib snapshot listener expected_kind server_name tls_mode route =
     (\<lambda>(best, w) (rule_index, rule).
       case best_stream_rule_match_with_tls_mode (sr_matches rule) (ls_port listener) server_name tls_mode of
         None \<Rightarrow> (best, w)
       | Some score \<Rightarrow>
           if (case best of None \<Rightarrow> False | Some (_, current_score) \<Rightarrow> score \<le> current_score) then (best, w)
           else case resolve_backend_refs lib snapshot (sr_backend_refs rule) w of
             (None, w) \<Rightarrow> (best, w)
           | (Some selected, w) \<Rightarrow>
               (Some (stream_backend expected_kind route rule_index listener (fst selected) (snd selected), score), w))"

definition default_stream_backend :: "Lib \<Rightarrow> Snapshot \<Rightarrow> Listener \<Rightarrow> World \<Rightarrow> SelectedBackend option \<times> World" where
  "default_stream_backend lib snapshot listener w =
     (case service_frontend_for_listener snapshot listener of
        None \<Rightarrow> (None, w)
      | Some frontend \<Rightarrow>
          (case route_kind_for_listener (ls_protocol listener) of
             None \<Rightarrow> (None, w)
           | Some route_kind \<Rightarrow>
               (case default_service_backend lib snapshot (sf_namespace frontend) (sf_name frontend)
                       (sf_port frontend) w of
                  (backend, w) \<Rightarrow>
                    (map_option (\<lambda>backend. unrouted_backend route_kind (sf_namespace frontend) (ls_name listener)
                       (ls_protocol listener) backend None) backend, w))))"

definition select_stream_backend_for_listener ::
    "Lib \<Rightarrow> Snapshot \<Rightarrow> Listener \<Rightarrow> RouteKind \<Rightarrow> string option \<Rightarrow> TlsRouteMode option \<Rightarrow> bool \<Rightarrow> World \<Rightarrow>
     SelectedBackend option \<times> World" where
  "select_stream_backend_for_listener lib snapshot listener expected_kind server_name tls_mode
     allow_default_backend w =
     (if route_kind_for_listener (ls_protocol listener) \<noteq> Some expected_kind then (None, w)
      else case
        (if sn_runtime_indexes_ready snapshot
         then stream_fast_path_select lib (sn_stream_fast_path snapshot) snapshot listener expected_kind
                server_name tls_mode w
         else case visit_stream_route_candidates snapshot listener expected_kind
                     (\<lambda>route st. (True, foldl (consider_stream_rule lib snapshot listener expected_kind
                        server_name tls_mode route) st (enumerate 0 (sroute_rules route)))) (None, w) of
                (_, best, w) \<Rightarrow> (map_option fst best, w)) of
        (Some selected, w) \<Rightarrow> (Some selected, w)
      | (None, w) \<Rightarrow> if allow_default_backend then default_stream_backend lib snapshot listener w else (None, w))"

section \<open>Entry points\<close>

definition select_stream_backend ::
    "Lib \<Rightarrow> Snapshot \<Rightarrow> string \<Rightarrow> string option \<Rightarrow> World \<Rightarrow> SelectedBackend option \<times> World" where
  "select_stream_backend lib snapshot listener_name server_name w =
     (case listener_by_name snapshot listener_name of
        None \<Rightarrow> (None, w)
      | Some listener \<Rightarrow>
          (case stream_listener_server_name_score listener server_name of
             None \<Rightarrow> (None, w)
           | Some _ \<Rightarrow>
               (case route_kind_for_listener (ls_protocol listener) of
                  None \<Rightarrow> (None, w)
                | Some expected_kind \<Rightarrow>
                    select_stream_backend_for_listener lib snapshot listener expected_kind server_name None True w)))"

definition select_tls_stream_backend ::
    "Lib \<Rightarrow> Snapshot \<Rightarrow> string \<Rightarrow> string option \<Rightarrow> TlsRouteMode \<Rightarrow> World \<Rightarrow> SelectedBackend option \<times> World" where
  "select_tls_stream_backend lib snapshot listener_name server_name mode w =
     (case listener_by_name snapshot listener_name of
        None \<Rightarrow> (None, w)
      | Some listener \<Rightarrow>
          (case stream_listener_server_name_score listener server_name of
             None \<Rightarrow> (None, w)
           | Some _ \<Rightarrow>
               (case route_kind_for_listener (ls_protocol listener) of
                  None \<Rightarrow> (None, w)
                | Some expected_kind \<Rightarrow>
                    if expected_kind \<noteq> Tls then (None, w)
                    else select_stream_backend_for_listener lib snapshot listener expected_kind server_name
                           (Some mode) False w)))"

definition best_stream_listener_score :: "Snapshot \<Rightarrow> string list \<Rightarrow> string option \<Rightarrow> StreamMatchScore option" where
  "best_stream_listener_score snapshot listener_names server_name =
     foldl (\<lambda>best_score listener_name.
         case Option.bind (listener_by_name snapshot listener_name)
                (\<lambda>listener. stream_listener_server_name_score listener server_name) of
           None \<Rightarrow> best_score
         | Some score \<Rightarrow>
             if (case best_score of None \<Rightarrow> True | Some current \<Rightarrow> score > current) then Some score else best_score)
       None listener_names"

definition visit_best_stream_listeners ::
    "Snapshot \<Rightarrow> string list \<Rightarrow> string option \<Rightarrow> (Listener \<Rightarrow> 's \<Rightarrow> bool \<times> 's) \<Rightarrow> 's \<Rightarrow> bool \<times> 's" where
  "visit_best_stream_listeners snapshot listener_names server_name visit s =
     (case best_stream_listener_score snapshot listener_names server_name of
        None \<Rightarrow> (True, s)
      | Some best_score \<Rightarrow>
          visit_while (\<lambda>listener_name s.
              case listener_by_name snapshot listener_name of
                None \<Rightarrow> (True, s)
              | Some listener \<Rightarrow>
                  if stream_listener_server_name_score listener server_name = Some best_score
                  then visit listener s else (True, s)) listener_names s)"

definition select_stream_backend_from_listener_set ::
    "Lib \<Rightarrow> Snapshot \<Rightarrow> string list \<Rightarrow> string option \<Rightarrow> World \<Rightarrow> SelectedBackend option \<times> World" where
  "select_stream_backend_from_listener_set lib snapshot listener_names server_name w =
     snd (visit_best_stream_listeners snapshot listener_names server_name
       (\<lambda>listener (selected, w).
          case route_kind_for_listener (ls_protocol listener) of
            None \<Rightarrow> (True, selected, w)
          | Some expected_kind \<Rightarrow>
              (case select_stream_backend_for_listener lib snapshot listener expected_kind server_name None True w of
                 (Some candidate, w) \<Rightarrow> (False, Some candidate, w)
               | (None, w) \<Rightarrow> (True, selected, w)))
       (None, w))"

end
