(* ===== verification/Snapshot_Rebuild.thy ===== *)
theory Snapshot_Rebuild
  imports Http_Fast_Path Stream_Selection
begin

text \<open>
  Making a snapshot ready: \<open>rebuild_runtime_indexes\<close> of \<open>crates/ntgw-ir/src/snapshot.rs\<close> in the order
  of the code, the inheritance of runtime state from the previous snapshot, and the operations
  that record what happened to an endpoint. The selection cursors are shared by all
  snapshots, so inheriting them keeps the world as it is.
\<close>

definition compile_matchers :: "Lib \<Rightarrow> Snapshot \<Rightarrow> Snapshot" where
  "compile_matchers lib snapshot = snapshot
     \<lparr> sn_http_routes := map (\<lambda>route. route\<lparr> hroute_rules := map (\<lambda>rule.
           rule\<lparr> hr_matches := map (compile_http_match lib) (hr_matches rule) \<rparr>) (hroute_rules route) \<rparr>)
         (sn_http_routes snapshot),
       sn_grpc_routes := map (\<lambda>route. route\<lparr> groute_rules := map (\<lambda>rule.
           rule\<lparr> gr_matches := map (compile_grpc_match lib) (gr_matches rule) \<rparr>) (groute_rules route) \<rparr>)
         (sn_grpc_routes snapshot) \<rparr>"

definition build_backend_service_index :: "BackendCluster list \<Rightarrow> BackendServiceIndex" where
  "build_backend_service_index backends =
     foldl (\<lambda>service_index (index, cluster).
         case backend_cluster_service_key (bc_name cluster) of
           None \<Rightarrow> service_index
         | Some (name, port) \<Rightarrow> service_insert service_index (bc_namespace cluster) name port index)
       BackendServiceIndex_empty (enumerate 0 backends)"

definition is_header_hash :: "string \<Rightarrow> BackendPolicy \<Rightarrow> bool" where
  "is_header_hash key_type policy =
     (case bp_load_balancing policy of
        None \<Rightarrow> False
      | Some load_balancing \<Rightarrow> lb_policy_type load_balancing = ''ConsistentHash''
          \<and> (case lb_consistent_hash load_balancing of None \<Rightarrow> False | Some hash \<Rightarrow> ch_key_type hash = key_type))"

definition build_request_materialization_hints :: "Snapshot \<Rightarrow> RequestMaterializationHints" where
  "build_request_materialization_hints snapshot =
     (let policies = map snd (sn_backend_policies snapshot);
          http_route_headers = list_ex (\<lambda>route. list_ex (\<lambda>rule. list_ex (\<lambda>matcher. ht_headers matcher \<noteq> [])
            (hr_matches rule)) (hroute_rules route)) (sn_http_routes snapshot);
          grpc_route_headers = list_ex (\<lambda>route. list_ex (\<lambda>rule. list_ex (\<lambda>matcher. gm_headers matcher \<noteq> [])
            (gr_matches rule)) (groute_rules route)) (sn_grpc_routes snapshot);
          route_session_headers =
            (list_ex (\<lambda>route. list_ex (\<lambda>rule. hr_session_persistence rule \<noteq> None) (hroute_rules route))
               (sn_http_routes snapshot)
             \<or> list_ex (\<lambda>route. list_ex (\<lambda>rule. gr_session_persistence rule \<noteq> None) (groute_rules route))
               (sn_grpc_routes snapshot));
          policy_session_headers = list_ex (\<lambda>policy. bp_session_persistence policy \<noteq> None) policies
      in \<lparr> mh_http_route_headers = http_route_headers, mh_grpc_route_headers = grpc_route_headers,
           mh_session_headers = (route_session_headers \<or> policy_session_headers),
           mh_backend_hash_headers = list_ex (is_header_hash ''Header'') policies,
           mh_source_ip = (list_ex (is_header_hash ''SourceIP'') policies \<or> sn_workloads snapshot \<noteq> []) \<rparr>)"

definition rebuild_backend_indexes :: "Snapshot \<Rightarrow> Snapshot" where
  "rebuild_backend_indexes snapshot =
     (let backend_names = map backend_cluster_name (sn_backends snapshot) in snapshot
      \<lparr> sn_backend_names := backend_names,
        sn_backend_index := hash_collect (map (\<lambda>(index, backend_name). (backend_name, index))
          (enumerate 0 backend_names)),
        sn_backend_service_index := build_backend_service_index (sn_backends snapshot),
        sn_secret_index := hash_collect (map (\<lambda>(index, secret).
          (se_namespace secret @ ''/'' @ se_name secret, index)) (enumerate 0 (sn_secrets snapshot))),
        sn_workload_namespace_index := hash_collect (map (\<lambda>workload.
          (wl_ip workload, wl_namespace workload)) (sn_workloads snapshot)) \<rparr>)"

definition rebuild_runtime_ids :: "Snapshot \<Rightarrow> Snapshot" where
  "rebuild_runtime_ids snapshot = snapshot\<lparr> sn_runtime_ids :=
     runtime_ids_from (sn_listeners snapshot) (sn_http_routes snapshot) (sn_grpc_routes snapshot)
       (sn_stream_routes snapshot) (sn_backends snapshot) \<rparr>"

definition rebuild_route_indexes :: "Snapshot \<Rightarrow> Snapshot" where
  "rebuild_route_indexes snapshot = snapshot
     \<lparr> sn_http_route_hostname_index := build_http_route_hostname_index (sn_http_routes snapshot),
       sn_grpc_route_hostname_index := build_grpc_route_hostname_index (sn_grpc_routes snapshot),
       sn_route_attachment_listener_index := from_listeners (sn_listeners snapshot) \<rparr>"

definition rebuild_plans :: "Snapshot \<Rightarrow> Snapshot" where
  "rebuild_plans snapshot =
     (let snapshot = snapshot\<lparr> sn_request_materialization := build_request_materialization_hints snapshot \<rparr>;
          snapshot = snapshot\<lparr> sn_http_fast_path := http_fast_path_build snapshot \<rparr>;
          snapshot = snapshot\<lparr> sn_stream_listener_route_index :=
            build_stream_listener_route_index (sn_listeners snapshot) (sn_stream_routes snapshot) \<rparr>;
          snapshot = snapshot\<lparr> sn_stream_fast_path := stream_fast_path_build snapshot \<rparr>
      in snapshot\<lparr> sn_runtime_indexes_ready := True \<rparr>)"

definition rebuild_runtime_indexes :: "Lib \<Rightarrow> Snapshot \<Rightarrow> Snapshot" where
  "rebuild_runtime_indexes lib snapshot =
     rebuild_plans (rebuild_route_indexes (rebuild_listener_indexes
       (rebuild_runtime_ids (rebuild_backend_indexes (compile_matchers lib snapshot)))))"

section \<open>Runtime state\<close>

definition inherit_runtime_state_values_from :: "Lib \<Rightarrow> Snapshot \<Rightarrow> Snapshot \<Rightarrow> Snapshot" where
  "inherit_runtime_state_values_from lib snapshot previous =
     snapshot\<lparr> sn_endpoint_runtime := inherit_endpoint_runtime lib snapshot previous \<rparr>"

definition inherit_runtime_state_from :: "Lib \<Rightarrow> Snapshot \<Rightarrow> Snapshot \<Rightarrow> Snapshot" where
  "inherit_runtime_state_from lib snapshot previous =
     rebuild_runtime_indexes lib (inherit_runtime_state_values_from lib snapshot previous)"

definition record_endpoint_failure_at :: "Lib \<Rightarrow> Snapshot \<Rightarrow> SelectedBackend \<Rightarrow> Instant \<Rightarrow> Snapshot" where
  "record_endpoint_failure_at lib snapshot selected now =
     snapshot\<lparr> sn_endpoint_runtime :=
       record_failure_at lib (sn_endpoint_runtime snapshot) (sb_backend_name selected) (sb_backend selected) now \<rparr>"

definition record_endpoint_failure :: "Lib \<Rightarrow> Snapshot \<Rightarrow> SelectedBackend \<Rightarrow> World \<Rightarrow> Snapshot \<times> World" where
  "record_endpoint_failure lib snapshot selected w =
     (case instant_now w of (now, w) \<Rightarrow> (record_endpoint_failure_at lib snapshot selected now, w))"

text \<open>The operations below read the clock inside the store; the reading is the argument \<open>now\<close>.\<close>

definition record_endpoint_success :: "Lib \<Rightarrow> Snapshot \<Rightarrow> SelectedBackend \<Rightarrow> Instant \<Rightarrow> Snapshot" where
  "record_endpoint_success lib snapshot selected now =
     snapshot\<lparr> sn_endpoint_runtime :=
       record_success lib (sn_endpoint_runtime snapshot) (sb_backend_name selected) (sb_backend selected) now \<rparr>"

definition record_endpoint_active_probe_failure ::
    "Lib \<Rightarrow> Snapshot \<Rightarrow> string \<Rightarrow> BackendEndpoint \<Rightarrow> u32 \<Rightarrow> Instant \<Rightarrow> Snapshot" where
  "record_endpoint_active_probe_failure lib snapshot backend_name endpoint unhealthy_threshold now =
     snapshot\<lparr> sn_endpoint_runtime := record_active_probe_failure lib (sn_endpoint_runtime snapshot)
       backend_name endpoint unhealthy_threshold now \<rparr>"

definition record_endpoint_active_probe_success ::
    "Lib \<Rightarrow> Snapshot \<Rightarrow> string \<Rightarrow> BackendEndpoint \<Rightarrow> Instant \<Rightarrow> Snapshot" where
  "record_endpoint_active_probe_success lib snapshot backend_name endpoint now =
     snapshot\<lparr> sn_endpoint_runtime := record_active_probe_success lib (sn_endpoint_runtime snapshot)
       backend_name endpoint now \<rparr>"

definition endpoint_runtime_handle_for_backend :: "Snapshot \<Rightarrow> string \<Rightarrow> BackendEndpoint \<Rightarrow> EndpointRuntimeKey" where
  "endpoint_runtime_handle_for_backend snapshot backend_name endpoint = handle_for_backend backend_name endpoint"

definition endpoint_runtime_snapshot :: "Snapshot \<Rightarrow> World \<Rightarrow> EndpointRuntimeSnapshot \<times> World" where
  "endpoint_runtime_snapshot snapshot w =
     (case instant_now w of (now, w) \<Rightarrow> (runtime_snapshot (sn_endpoint_runtime snapshot) now, w))"

end
