(* ===== verification/Http_Spec.thy ===== *)
theory Http_Spec
  imports Snapshot_Rebuild
begin

text \<open>
  What the route selection computes. The entries of a request are the (route, rule) pairs that
  match it and have something to answer with, in the order of the tables; they do not depend on
  tickets or the clock. \<open>select_http_route\<close> answers with the first entry of the highest score, and
  resolves a backend of that entry's rule. The same holds of \<open>select_grpc_backend\<close>.
\<close>

section \<open>The first of the greatest\<close>

definition first_max :: "('a \<Rightarrow> 'k::linorder) \<Rightarrow> 'a list \<Rightarrow> 'a option" where
  "first_max f xs = find (\<lambda>x. \<forall>y \<in> set xs. f y \<le> f x) xs"

definition keep_better :: "('a \<Rightarrow> 'k::linorder) \<Rightarrow> 'a option \<Rightarrow> 'a \<Rightarrow> 'a option" where
  "keep_better f best x =
     (if (case best of None \<Rightarrow> False | Some b \<Rightarrow> f x \<le> f b) then best else Some x)"

lemma keep_better_snoc: "first_max f (xs @ [x]) = keep_better f (first_max f xs) x"
  using hash_best_snoc [of f xs x]
  by (cases "first_max f xs"; cases "first_max f (xs @ [x])")
    (auto simp: first_max_def keep_better_def hash_better_def split: if_splits)

lemma foldl_keep_better: "foldl (keep_better f) None xs = first_max f xs"
  by (induction xs rule: rev_induct) (simp_all add: keep_better_snoc, simp add: first_max_def)

lemma first_maxD:
  assumes "first_max f xs = Some x"
  shows "x \<in> set xs" and "\<forall>y \<in> set xs. f y \<le> f x"
  using assms by (auto simp: first_max_def find_Some_iff)

lemma first_max_None [simp]: "first_max f xs = None \<longleftrightarrow> xs = []"
proof
  assume "first_max f xs = None"
  then show "xs = []" using find_maximal [of xs f] by (fastforce simp: first_max_def)
qed (simp add: first_max_def)

lemma first_max_map:
  assumes "\<And>x y. x \<in> set xs \<Longrightarrow> y \<in> set xs \<Longrightarrow> f x \<le> f y \<longleftrightarrow> g (h x) \<le> g (h y)"
  shows "first_max g (map h xs) = map_option h (first_max f xs)"
proof -
  have "find Q (map h xs) = map_option h (find (\<lambda>x. Q (h x)) xs)" for Q
    by (induction xs) auto
  moreover have "find (\<lambda>x. \<forall>y \<in> set (map h xs). g y \<le> g (h x)) xs = find (\<lambda>x. \<forall>y \<in> set xs. f y \<le> f x) xs"
    using assms by (intro find_cong [OF refl]) auto
  ultimately show ?thesis by (simp add: first_max_def)
qed

section \<open>Clocks only move forward\<close>

lemma select_endpoint_clock: "same_clock w (snd (select_cluster_endpoint lib snapshot cluster name w))"
  by (auto simp: select_cluster_endpoint_def instant_now_def next_endpoint_ticket_def same_clock_def Let_def)

lemma pick_clock:
  "same_clock w0 (snd (snd s)) \<Longrightarrow> same_clock w0 (snd (snd (snd (pick_candidate lib snapshot rs target c s))))"
proof -
  assume a: "same_clock w0 (snd (snd s))"
  obtain seen res w where s: "s = (seen, res, w)" by (cases s)
  have "same_clock w (snd (pick_result lib snapshot rs w c))"
    using select_endpoint_clock [of w lib snapshot "ca_cluster c" "ca_backend_name c"]
    by (cases "select_cluster_endpoint lib snapshot (ca_cluster c) (ca_backend_name c) w") (simp add: pick_result_def)
  with a s show ?thesis using same_clock_trans by (auto simp: pick_candidate_eq Let_def)
qed

lemma resolve_weighted_clock: "same_clock w (snd (resolve_weighted_http_backend lib snapshot refs rs request w))"
proof -
  let ?now = "w_clock w (w_reads w)"
  obtain w1 where now: "instant_now w = (?now, w1)" by (simp add: instant_now_def)
  let ?hash = "resolve_consistent_hash_http_backend lib snapshot refs ?now
    (cv_effective_load_balancing (fst (visit_http_backend_candidates lib snapshot refs ?now (\<lambda>_ s. (True, s)) ())))
    rs request w1"
  have h: "same_clock w1 (snd ?hash)"
    using consistent_hash_choice [where lib = lib and snapshot = snapshot and refs = refs and now = ?now
        and policy = "cv_effective_load_balancing (fst (visit_http_backend_candidates lib snapshot refs ?now (\<lambda>_ s. (True, s)) ()))"
        and route_session = rs and request = request and w = w1]
    by (auto split: option.splits)
  have p: "same_clock w0 (snd (snd (snd (visit_http_backend_candidates lib snapshot refs ?now
      (pick_candidate lib snapshot rs target) (0, None, w0)))))" for target w0
    unfolding visit_http_backend_candidates_def visit_candidates_state
    by (rule visit_while_invariant [where I = "\<lambda>s. same_clock w0 (snd (snd s))"]) (simp_all add: pick_clock)
  have w1: "same_clock w w1" using same_clock_steps(1) [of w] now by simp
  obtain b w2 where hw: "?hash = (b, w2)" by fastforce
  with h have w2: "same_clock w w2" using same_clock_trans [OF w1] by simp
  show ?thesis
  proof (cases b)
    case (Some x)
    with hw w1 w2 show ?thesis
      unfolding resolve_weighted_http_backend_def now Let_def prod.case by simp
  next
    case None
    let ?out = "fst (visit_http_backend_candidates lib snapshot refs ?now (\<lambda>_ s. (True, s)) ())"
    obtain tk w3 where ticket: "next_backend_ticket w2 = (tk, w3)" by fastforce
    let ?t = "spread_weighted_target tk (cv_total_weight ?out)"
    obtain v s r w4 where v: "visit_http_backend_candidates lib snapshot refs ?now
        (pick_candidate lib snapshot rs ?t) (0, None, w3) = (v, s, r, w4)"
      by (rule prod_cases4)
    have "same_clock w2 w3" using same_clock_steps(2) [of w2] ticket by simp
    moreover have "same_clock w3 w4" using p [of w3 ?t] v by simp
    ultimately have w4: "same_clock w w4" using same_clock_trans [OF w2] same_clock_trans by blast
    have "resolve_weighted_http_backend lib snapshot refs rs request w =
        (if cv_candidate_count ?out = 0 then (\<lparr> hb_selected = None, hb_error = visit_error ?out \<rparr>, w1)
         else (case r of Some resolution \<Rightarrow> (resolution, w4) | None \<Rightarrow> (HttpBackendResolution_default, w4)))"
      unfolding resolve_weighted_http_backend_def now Let_def prod.case hw None option.case ticket v by simp
    with w1 w4 show ?thesis by (simp split: option.split)
  qed
qed

lemma resolve_clock:
  "same_clock w (snd (resolve_http_backend_refs_with_session lib snapshot refs route_session request resolver w))"
proof (cases rule: resolve_cases [of lib snapshot refs route_session request resolver w])
  case (weighted w')
  then show ?thesis using resolve_weighted_clock [of w'] same_clock_trans by metis
qed

section \<open>HTTP entries\<close>

record HttpEntry =
  he_route :: HttpRoute
  he_rule_index :: nat
  he_rule :: HttpRule
  he_listener_match :: "MatchedListener option"
  he_path :: MatchedHttpPath
  he_score :: HttpCandidateScore

text \<open>A rule answers with a backend, with a backend error, or with a filter of its own.\<close>

definition rule_answers :: "HttpRule \<Rightarrow> bool" where
  "rule_answers rule =
     (list_ex (\<lambda>r. br_weight r \<noteq> 0) (hr_backend_refs rule) \<or> has_non_backend_http_filter (hr_filters rule))"

definition http_rule_entry ::
    "Lib \<Rightarrow> RequestMeta \<Rightarrow> HttpRoute \<Rightarrow> MatchedListener option \<Rightarrow> HostnameScore \<Rightarrow> nat \<times> HttpRule \<Rightarrow> HttpEntry option" where
  "http_rule_entry lib request route listener_match route_host = (\<lambda>(rule_index, rule).
     case best_http_rule_match lib rule request of
       None \<Rightarrow> None
     | Some (path, rule_score) \<Rightarrow>
         if rule_answers rule then Some \<lparr> he_route = route, he_rule_index = rule_index, he_rule = rule,
           he_listener_match = listener_match, he_path = path,
           he_score = HttpCandidateScore (listener_host_score listener_match) route_host rule_score \<rparr>
         else None)"

definition http_route_entries ::
    "Lib \<Rightarrow> Snapshot \<Rightarrow> RequestMeta \<Rightarrow> CandidateListeners \<Rightarrow> HttpRoute \<Rightarrow> HttpEntry list" where
  "http_route_entries lib snapshot request listeners route =
     (let listener_match = route_listener_match snapshot listeners (hroute_namespace route) (hroute_name route) in
      if cl_enforce_attachments listeners \<and> listener_match = None then []
      else if (case listener_match of None \<Rightarrow> False | Some m \<Rightarrow>
                 \<not> route_accepts_service_frontend snapshot (hroute_parent_refs route) (hroute_namespace route)
                     (ml_listener m)) then []
      else case best_hostname_score (hroute_hostnames route) (rq_host request) of
        None \<Rightarrow> []
      | Some route_host \<Rightarrow>
          List.map_filter (http_rule_entry lib request route listener_match route_host) (enumerate 0 (hroute_rules route)))"

definition http_entries :: "Lib \<Rightarrow> Snapshot \<Rightarrow> RequestMeta \<Rightarrow> HttpEntry list" where
  "http_entries lib snapshot request =
     concat (map (http_route_entries lib snapshot request
       (matched_listeners snapshot (rq_host request) (rq_port request) KindHttp)) (sn_http_routes snapshot))"

definition refs_fit :: "HttpRule list \<Rightarrow> bool" where
  "refs_fit rules = (\<forall>rule \<in> set rules. weights_fit (hr_backend_refs rule))"

definition http_fits :: "Snapshot \<Rightarrow> bool" where
  "http_fits snapshot = (clusters_fit snapshot \<and> (\<forall>route \<in> set (sn_http_routes snapshot). refs_fit (hroute_rules route)))"

text \<open>A resolution without a backend and without an error: no reference has a weight.\<close>

lemma resolution_silent_iff:
  fixes lib snapshot refs route_session request resolver w
  defines "res \<equiv> fst (resolve_http_backend_refs_with_session lib snapshot refs route_session request resolver w)"
  assumes "clusters_fit snapshot" and "weights_fit refs"
  shows "hb_selected res = None \<and> hb_error res = None \<longleftrightarrow> \<not> list_ex (\<lambda>r. br_weight r \<noteq> 0) refs"
proof (cases "candidates lib snapshot 0 refs = []")
  case False
  then have c: "hd (candidates lib snapshot 0 refs) \<in> set (candidates lib snapshot 0 refs)" by simp
  have "list_ex (\<lambda>r. br_weight r \<noteq> 0) refs" unfolding list_ex_iff
    using candidatesD(1,2) [OF c] by (rule bexI [rotated])
  then show ?thesis using False resolve_none_iff [OF assms(2,3), where now = 0] by (simp add: res_def)
next
  case True
  have none: "ref_candidate lib snapshot 0 r = None" if "r \<in> set refs" for r
    using True that candidates_mem_iff [of _ lib snapshot 0 refs] by (cases "ref_candidate lib snapshot 0 r") auto
  have "hb_selected res = None" using True resolve_none_iff [OF assms(2,3), where now = 0] by (simp add: res_def)
  moreover have "(unhealthy_ref lib snapshot 0 r \<or> invalid_ref snapshot r) = (br_weight r \<noteq> 0)" if "r \<in> set refs" for r
    using none [OF that] by (auto simp: unhealthy_ref_def invalid_ref_def)
  then have "hb_error res = None \<longleftrightarrow> \<not> (\<exists>r \<in> set refs. br_weight r \<noteq> 0)"
    unfolding res_def resolve_error [OF True] by (auto split: if_splits)
  ultimately show ?thesis by (simp add: list_ex_iff)
qed

definition entry_of :: "HttpCandidate \<Rightarrow> HttpEntry" where
  "entry_of c = \<lparr> he_route = hc_route c, he_rule_index = hc_rule_index c, he_rule = hc_rule c,
     he_listener_match = hc_listener_match c, he_path = hc_matched_http_path c, he_score = hc_score c \<rparr>"

text \<open>The candidate of an entry, its backend resolved in the world \<open>w\<close>.\<close>

definition entry_candidate ::
    "Lib \<Rightarrow> Snapshot \<Rightarrow> RequestMeta \<Rightarrow> (SessionPersistence \<Rightarrow> PersistentSessionTarget option) \<Rightarrow> World \<Rightarrow> HttpEntry \<Rightarrow>
     HttpCandidate" where
  "entry_candidate lib snapshot request resolver w e =
     \<lparr> hc_route = he_route e, hc_rule_index = he_rule_index e, hc_rule = he_rule e,
       hc_listener_match = he_listener_match e, hc_matched_http_path = he_path e,
       hc_resolution = fst (resolve_http_backend_refs_with_session lib snapshot (hr_backend_refs (he_rule e))
         (hr_session_persistence (he_rule e)) request resolver w),
       hc_score = he_score e \<rparr>"

definition resolved_in ::
    "Lib \<Rightarrow> Snapshot \<Rightarrow> RequestMeta \<Rightarrow> (SessionPersistence \<Rightarrow> PersistentSessionTarget option) \<Rightarrow> World \<Rightarrow>
     HttpCandidate option \<times> World \<Rightarrow> bool" where
  "resolved_in lib snapshot request resolver w0 st \<longleftrightarrow> same_clock w0 (snd st) \<and>
     (\<forall>c. fst st = Some c \<longrightarrow> (\<exists>w. same_clock w0 w \<and> c = entry_candidate lib snapshot request resolver w (entry_of c)))"

lemma consider_rule_entry:
  assumes "clusters_fit snapshot" and "weights_fit (hr_backend_refs (snd p))"
  shows "map_option entry_of (fst (consider_http_rule lib snapshot request resolver route lm rh st p)) =
      foldl (keep_better he_score) (map_option entry_of (fst st))
        (List.map_filter (http_rule_entry lib request route lm rh) [p])"
    and "resolved_in lib snapshot request resolver w0 st \<Longrightarrow>
      resolved_in lib snapshot request resolver w0 (consider_http_rule lib snapshot request resolver route lm rh st p)"
proof -
  obtain best w where st: "st = (best, w)" by fastforce
  obtain i rule where p: "p = (i, rule)" by fastforce
  obtain res w' where r: "resolve_http_backend_refs_with_session lib snapshot (hr_backend_refs rule)
      (hr_session_persistence rule) request resolver w = (res, w')" by fastforce
  have silent: "(hb_selected res = None \<and> hb_error res = None) = (\<not> list_ex (\<lambda>r. br_weight r \<noteq> 0) (hr_backend_refs rule))"
    using resolution_silent_iff [OF assms(1), of "hr_backend_refs rule" lib "hr_session_persistence rule" request resolver w]
      assms(2) p r by simp
  then have keep: "(hb_selected res = None \<and> hb_error res = None \<and> \<not> has_non_backend_http_filter (hr_filters rule))
      = (\<not> rule_answers rule)" by (auto simp: rule_answers_def)
  show "map_option entry_of (fst (consider_http_rule lib snapshot request resolver route lm rh st p)) =
      foldl (keep_better he_score) (map_option entry_of (fst st))
        (List.map_filter (http_rule_entry lib request route lm rh) [p])"
    by (cases best) (auto simp: st p consider_http_rule_def http_rule_entry_def map_filter_simps keep_better_def r keep
        entry_of_def Let_def split: option.split)
  assume inv: "resolved_in lib snapshot request resolver w0 st"
  have "same_clock w w'" using resolve_clock [of w lib snapshot "hr_backend_refs rule" "hr_session_persistence rule" request resolver] r
    by simp
  then have w': "same_clock w0 w'" using inv same_clock_trans by (auto simp: resolved_in_def st)
  show "resolved_in lib snapshot request resolver w0 (consider_http_rule lib snapshot request resolver route lm rh st p)"
    using inv w' r
    by (auto simp: st p consider_http_rule_def resolved_in_def entry_of_def entry_candidate_def Let_def
        split: option.split intro!: exI [of _ w])
qed

section \<open>The visit of the routes\<close>

lemma consider_rules_entries:
  assumes "clusters_fit snapshot" and "\<forall>p \<in> set ps. weights_fit (hr_backend_refs (snd p))"
  shows "map_option entry_of (fst (foldl (consider_http_rule lib snapshot request resolver route lm rh) st ps)) =
      foldl (keep_better he_score) (map_option entry_of (fst st)) (List.map_filter (http_rule_entry lib request route lm rh) ps)"
    and "resolved_in lib snapshot request resolver w0 st \<Longrightarrow> resolved_in lib snapshot request resolver w0
      (foldl (consider_http_rule lib snapshot request resolver route lm rh) st ps)"
proof -
  have cons: "List.map_filter f (x # xs) = List.map_filter f [x] @ List.map_filter f xs" for f :: "nat \<times> HttpRule \<Rightarrow> HttpEntry option" and x xs
    by (simp add: map_filter_simps split: option.split)
  show "map_option entry_of (fst (foldl (consider_http_rule lib snapshot request resolver route lm rh) st ps)) =
      foldl (keep_better he_score) (map_option entry_of (fst st)) (List.map_filter (http_rule_entry lib request route lm rh) ps)"
    using assms(2)
  proof (induction ps arbitrary: st)
    case (Cons p ps)
    then show ?case
      using consider_rule_entry(1) [OF assms(1), of p] by (subst cons) simp
  qed (simp add: map_filter_simps)
  show "resolved_in lib snapshot request resolver w0 st \<Longrightarrow> resolved_in lib snapshot request resolver w0
      (foldl (consider_http_rule lib snapshot request resolver route lm rh) st ps)"
    using assms(2)
  proof (induction ps arbitrary: st)
    case (Cons p ps)
    then show ?case using consider_rule_entry(2) [OF assms(1), of p] by simp
  qed simp
qed

lemma consider_route_entries:
  assumes "clusters_fit snapshot" and "refs_fit (hroute_rules route)"
  shows "fst (consider_http_route lib snapshot request resolver listeners route st)"
    and "map_option entry_of (fst (snd (consider_http_route lib snapshot request resolver listeners route st))) =
      foldl (keep_better he_score) (map_option entry_of (fst st)) (http_route_entries lib snapshot request listeners route)"
    and "resolved_in lib snapshot request resolver w0 st \<Longrightarrow> resolved_in lib snapshot request resolver w0
      (snd (consider_http_route lib snapshot request resolver listeners route st))"
proof -
  have fit: "\<forall>p \<in> set (enumerate 0 (hroute_rules route)). weights_fit (hr_backend_refs (snd p))"
    using assms(2) by (auto simp: refs_fit_def in_set_enumerate_eq)
  note rules = consider_rules_entries [OF assms(1) fit]
  show "fst (consider_http_route lib snapshot request resolver listeners route st)"
    by (simp add: consider_http_route_def Let_def split: option.split)
  show "map_option entry_of (fst (snd (consider_http_route lib snapshot request resolver listeners route st))) =
      foldl (keep_better he_score) (map_option entry_of (fst st)) (http_route_entries lib snapshot request listeners route)"
    using rules(1) by (auto simp: consider_http_route_def http_route_entries_def Let_def split: option.split)
  show "resolved_in lib snapshot request resolver w0 st \<Longrightarrow> resolved_in lib snapshot request resolver w0
      (snd (consider_http_route lib snapshot request resolver listeners route st))"
    using rules(2) by (auto simp: consider_http_route_def Let_def split: option.split)
qed

text \<open>The hostname index, where it is used, is the one of the routes.\<close>

definition http_hosts_indexed :: "Snapshot \<Rightarrow> bool" where
  "http_hosts_indexed snapshot \<longleftrightarrow> (sn_runtime_indexes_ready snapshot \<longrightarrow>
     sn_http_route_hostname_index snapshot = build_hostname_route_index (map hroute_hostnames (sn_http_routes snapshot)))"

lemma visit_http_routes_eq:
  assumes "http_hosts_indexed snapshot"
    and "\<And>route s. route \<in> set (sn_http_routes snapshot) \<Longrightarrow>
      best_hostname_score (hroute_hostnames route) host = None \<Longrightarrow> v route s = (True, s)"
  shows "visit_http_route_candidates snapshot host v s = visit_while v (sn_http_routes snapshot) s"
proof (cases "sn_runtime_indexes_ready snapshot")
  case True
  then have "sn_http_route_hostname_index snapshot =
      build_hostname_route_index (map hroute_hostnames (sn_http_routes snapshot))"
    using assms(1) by (simp add: http_hosts_indexed_def)
  then show ?thesis
    using True hostname_index.visit_eq_scan [of "sn_http_routes snapshot" hroute_hostnames host v s] assms(2)
    by (simp add: visit_http_route_candidates_def)
next
  case False
  then show ?thesis
    using hostname_scan.visit_eq_scan [of "sn_http_routes snapshot" v _ host s]
    by (simp add: visit_http_route_candidates_def)
qed

lemma consider_skips_host:
  "best_hostname_score (hroute_hostnames route) (rq_host request) = None \<Longrightarrow>
   consider_http_route lib snapshot request resolver listeners route st = (True, st)"
  by (simp add: consider_http_route_def Let_def)

lemma visit_routes_entries:
  assumes "clusters_fit snapshot" and "\<forall>route \<in> set routes. refs_fit (hroute_rules route)"
    and "resolved_in lib snapshot request resolver w0 st"
  shows "map_option entry_of (fst (snd (visit_while (consider_http_route lib snapshot request resolver listeners) routes st))) =
      foldl (keep_better he_score) (map_option entry_of (fst st))
        (concat (map (http_route_entries lib snapshot request listeners) routes))
    \<and> resolved_in lib snapshot request resolver w0
        (snd (visit_while (consider_http_route lib snapshot request resolver listeners) routes st))"
  using assms(2,3)
proof (induction routes arbitrary: st)
  case (Cons route routes)
  obtain st' where st': "consider_http_route lib snapshot request resolver listeners route st = (True, st')"
    using consider_route_entries(1) [OF assms(1), of route] Cons.prems(1) by (metis list.set_intros(1) prod.collapse)
  have fit: "refs_fit (hroute_rules route)" "\<forall>route \<in> set routes. refs_fit (hroute_rules route)"
    using Cons.prems(1) by simp_all
  note step = consider_route_entries(2,3) [OF assms(1) fit(1), where st = st and lib = lib and request = request
      and resolver = resolver and listeners = listeners]
  have "resolved_in lib snapshot request resolver w0 st'" using step(2) [OF Cons.prems(2)] st' by simp
  from Cons.IH [OF fit(2) this] show ?case using step(1) st' by simp
qed simp

text \<open>The selection is the first entry of the highest score.\<close>

lemma select_http_route_entries:
  assumes "http_fits snapshot" and "http_hosts_indexed snapshot"
  shows "case first_max he_score (http_entries lib snapshot request) of
      None \<Rightarrow> fst (select_http_route lib snapshot request resolver w) = None
    | Some e \<Rightarrow> \<exists>w'. same_clock w w' \<and> fst (select_http_route lib snapshot request resolver w) =
        Some (selected_http_route snapshot (entry_candidate lib snapshot request resolver w' e))"
proof -
  let ?ls = "matched_listeners snapshot (rq_host request) (rq_port request) KindHttp"
  let ?visit = "visit_while (consider_http_route lib snapshot request resolver ?ls) (sn_http_routes snapshot) (None, w)"
  have fit: "clusters_fit snapshot" "\<forall>route \<in> set (sn_http_routes snapshot). refs_fit (hroute_rules route)"
    using assms(1) by (simp_all add: http_fits_def)
  have "resolved_in lib snapshot request resolver w (None, w)" by (simp add: resolved_in_def)
  from visit_routes_entries [OF fit this, of ?ls]
  have v: "map_option entry_of (fst (snd ?visit)) = first_max he_score (http_entries lib snapshot request)"
    "resolved_in lib snapshot request resolver w (snd ?visit)"
    by (simp_all add: foldl_keep_better http_entries_def)
  have visit: "visit_http_route_candidates snapshot (rq_host request)
      (consider_http_route lib snapshot request resolver ?ls) (None, w) = ?visit"
    by (rule visit_http_routes_eq [OF assms(2)]) (simp add: consider_skips_host)
  show ?thesis
  proof (cases "cl_enforce_attachments ?ls \<and> cl_listeners ?ls = []")
    case True
    then have "route_listener_match snapshot ?ls ns n = None" for ns n
      by (simp add: route_listener_match_def max_by_None)
    with True have "http_entries lib snapshot request = []"
      by (simp add: http_entries_def http_route_entries_def Let_def)
    with True show ?thesis by (simp add: select_http_route_def Let_def first_max_def)
  next
    case False
    obtain b best w' where vw: "?visit = (b, best, w')" by (rule prod_cases3)
    with False visit have sel: "fst (select_http_route lib snapshot request resolver w) = map_option (selected_http_route snapshot) best"
      by (auto simp add: select_http_route_def Let_def)
    show ?thesis
    proof (cases best)
      case (Some c)
      then obtain w'' where "same_clock w w''" "c = entry_candidate lib snapshot request resolver w'' (entry_of c)"
        using v(2) vw by (auto simp: resolved_in_def)
      moreover have "first_max he_score (http_entries lib snapshot request) = Some (entry_of c)" using v(1) vw Some by simp
      ultimately show ?thesis using sel Some by auto
    qed (use sel v(1) vw in simp)
  qed
qed

end
