(* ===== verification/Index_Equivalence.thy ===== *)
theory Index_Equivalence
  imports Http_Spec
begin

text \<open>
  The runtime indexes do not change what is selected. \<open>unindexed\<close> is a snapshot whose indexes are
  switched off, so that every lookup scans its table; on a snapshot with its indexes built, distinct
  listener names and distinct backends, every lookup and with it the selection of HTTP and gRPC
  routes gives the same answer, draws the same tickets and reads the clock the same number of times.
\<close>

section \<open>Switching the indexes off\<close>

definition unindexed :: "Snapshot \<Rightarrow> Snapshot" where
  "unindexed s = s\<lparr> sn_runtime_indexes_ready := False \<rparr>"

lemma unindexed_fields [simp]:
  "sn_runtime_indexes_ready (unindexed s) = False"
  "sn_listeners (unindexed s) = sn_listeners s"
  "sn_http_routes (unindexed s) = sn_http_routes s"
  "sn_grpc_routes (unindexed s) = sn_grpc_routes s"
  "sn_stream_routes (unindexed s) = sn_stream_routes s"
  "sn_backends (unindexed s) = sn_backends s"
  "sn_backend_policies (unindexed s) = sn_backend_policies s"
  "sn_workloads (unindexed s) = sn_workloads s"
  "sn_secrets (unindexed s) = sn_secrets s"
  "sn_endpoint_runtime (unindexed s) = sn_endpoint_runtime s"
  "sn_backend_index (unindexed s) = sn_backend_index s"
  by (simp_all add: unindexed_def)

definition services_indexed :: "Snapshot \<Rightarrow> bool" where
  "services_indexed s \<longleftrightarrow>
     sn_backend_names s = map backend_cluster_name (sn_backends s)
     \<and> sn_backend_service_index s = build_backend_service_index (sn_backends s)"

definition runtime_indexed :: "Snapshot \<Rightarrow> bool" where
  "runtime_indexed s \<longleftrightarrow> sn_runtime_indexes_ready s \<and> listener_indexed s \<and> services_indexed s
     \<and> sn_http_route_hostname_index s = build_http_route_hostname_index (sn_http_routes s)
     \<and> sn_grpc_route_hostname_index s = build_grpc_route_hostname_index (sn_grpc_routes s)
     \<and> sn_route_attachment_listener_index s = from_listeners (sn_listeners s)
     \<and> sn_workload_namespace_index s =
         hash_collect (map (\<lambda>workload. (wl_ip workload, wl_namespace workload)) (sn_workloads s))"

definition distinct_names :: "Snapshot \<Rightarrow> bool" where
  "distinct_names s \<longleftrightarrow> distinct (map ls_name (sn_listeners s))
     \<and> distinct (map (\<lambda>b. (bc_namespace b, bc_name b)) (sn_backends s))"

section \<open>Services\<close>

definition service_key_of :: "BackendCluster \<Rightarrow> (string \<times> string \<times> u32) option" where
  "service_key_of c = map_option (\<lambda>(n, p). (bc_namespace c, n, p)) (backend_cluster_service_key (bc_name c))"

definition service_kvs :: "(nat \<times> BackendCluster) list \<Rightarrow> ((string \<times> string \<times> u32) \<times> nat) list" where
  "service_kvs xs = List.map_filter (\<lambda>(i, c). map_option (\<lambda>k. (k, i)) (service_key_of c)) xs"

lemma matches_ref_key: "backend_cluster_matches_ref c ns n p \<longleftrightarrow> service_key_of c = Some (ns, n, p)"
  by (auto simp: backend_cluster_matches_ref_def service_key_of_def service_key_iff_matches_ref [symmetric])

lemma service_key_of_inj:
  "service_key_of c = Some k \<Longrightarrow> service_key_of c' = Some k \<Longrightarrow>
   (bc_namespace c, bc_name c) = (bc_namespace c', bc_name c')"
  by (auto simp: service_key_of_def service_key_Some)

lemma build_service_index_eq:
  "build_backend_service_index bs =
     foldl (\<lambda>idx ((ns, n, p), i). service_insert idx ns n p i) BackendServiceIndex_empty (service_kvs (enumerate 0 bs))"
proof -
  have "foldl (\<lambda>idx (i, c). case backend_cluster_service_key (bc_name c) of None \<Rightarrow> idx
          | Some (n, p) \<Rightarrow> service_insert idx (bc_namespace c) n p i) idx xs =
      foldl (\<lambda>idx ((ns, n, p), i). service_insert idx ns n p i) idx (service_kvs xs)" for idx xs
    by (induction xs arbitrary: idx)
      (auto simp: service_kvs_def service_key_of_def List.map_filter_simps split: option.splits)
  then show ?thesis by (simp add: build_backend_service_index_def)
qed

lemma service_kvs_lookup:
  "map_of (service_kvs xs) k = map_option fst (find (\<lambda>(i, c). service_key_of c = Some k) xs)"
  by (induction xs) (auto simp: service_kvs_def List.map_filter_simps split: option.splits)

lemma service_kvs_distinct:
  "distinct (map (\<lambda>(i, c). (bc_namespace c, bc_name c)) xs) \<Longrightarrow> distinct (map fst (service_kvs xs))"
proof (induction xs)
  case (Cons x xs)
  obtain i c where x: "x = (i, c)" by fastforce
  have "k \<notin> fst ` set (service_kvs xs)" if "service_key_of c = Some k" for k
  proof
    assume "k \<in> fst ` set (service_kvs xs)"
    then obtain j c' where "(j, c') \<in> set xs" "service_key_of c' = Some k"
      by (auto simp: service_kvs_def set_map_filter)
    then show False using service_key_of_inj [OF that] Cons.prems by (force simp: x)
  qed
  moreover have "distinct (map fst (service_kvs xs))" using Cons by (simp add: x)
  moreover have "service_kvs (x # xs) = (case service_key_of c of None \<Rightarrow> [] | Some k \<Rightarrow> [(k, i)]) @ service_kvs xs"
    by (simp add: x service_kvs_def List.map_filter_simps split: option.split)
  ultimately show ?case by (auto split: option.split)
qed (simp add: service_kvs_def List.map_filter_simps)

lemma find_enumerate_SomeD:
  "find (\<lambda>(i, c). P c) (enumerate 0 xs) = Some (i, c) \<Longrightarrow> i < length xs \<and> xs ! i = c"
  by (auto simp: find_Some_iff nth_enumerate_eq)

lemma service_lookup_eq:
  assumes "runtime_indexed s" and "distinct_names s"
  shows "backend_cluster_for_service_index s ns n p = backend_cluster_for_service_index (unindexed s) ns n p"
proof -
  let ?xs = "enumerate 0 (sn_backends s)"
  have "map (\<lambda>(i, c). (bc_namespace c, bc_name c)) ?xs = map (\<lambda>b. (bc_namespace b, bc_name b)) (sn_backends s)"
    by (rule nth_equalityI) (simp_all add: nth_enumerate_eq)
  then have d: "distinct (map fst (service_kvs ?xs))"
    using assms(2) service_kvs_distinct [of ?xs] by (simp add: distinct_names_def)
  have ready: "sn_runtime_indexes_ready s" "sn_backend_service_index s = build_backend_service_index (sn_backends s)"
    using assms(1) by (simp_all add: runtime_indexed_def services_indexed_def)
  let ?found = "find (\<lambda>(i, c). service_key_of c = Some (ns, n, p)) ?xs"
  have "service_index_for (sn_backend_service_index s) ns n p = map_option fst ?found"
    unfolding ready(2) build_service_index_eq backend_services.lookup_filled [OF d] service_kvs_lookup ..
  moreover have "nth_opt (sn_backends s) i = Some c" if "?found = Some (i, c)" for i c
    using find_enumerate_SomeD [OF that] by (simp add: nth_opt_def)
  ultimately show ?thesis
    using ready(1) by (auto simp: backend_cluster_for_service_index_def matches_ref_key split: option.split)
qed

lemma found_name_eq:
  assumes "runtime_indexed s" and "backend_cluster_for_service_index (unindexed s) ns n p = Some (i, c)"
  shows "backend_name_for_index s i c = backend_cluster_name c"
    and "backend_name_for_index (unindexed s) i c = backend_cluster_name c"
proof -
  have "i < length (sn_backends s) \<and> sn_backends s ! i = c"
    using assms(2) find_enumerate_SomeD by (simp add: backend_cluster_for_service_index_def)
  then show "backend_name_for_index s i c = backend_cluster_name c"
    using assms(1) by (simp add: backend_name_for_index_def runtime_indexed_def services_indexed_def nth_opt_def)
qed (simp add: backend_name_for_index_def)

lemma found_cluster_eq:
  assumes "runtime_indexed s" and "distinct_names s"
  shows "find_backend_cluster_index s r = find_backend_cluster_index (unindexed s) r"
    and "find_backend_cluster_index (unindexed s) r = Some (i, c) \<Longrightarrow>
      backend_name_for_index s i c = backend_name_for_index (unindexed s) i c"
  using service_lookup_eq [OF assms] found_name_eq [OF assms(1)]
  by (auto simp: find_backend_cluster_index_def split: if_splits)

section \<open>Backends\<close>

lemma availability_unindexed [simp]:
  "endpoint_availability_at lib (unindexed s) name e now = endpoint_availability_at lib s name e now"
  by (simp add: endpoint_availability_at_def)

lemma selection_availability_unindexed [simp]:
  "endpoint_selection_availability lib (unindexed s) c name now = endpoint_selection_availability lib s c name now"
  "endpoint_matches_selection_availability lib (unindexed s) name now v = endpoint_matches_selection_availability lib s name now v"
  by (simp_all add: endpoint_selection_availability_def endpoint_matches_selection_availability_def fun_eq_iff)

lemma policies_unindexed [simp]:
  "backend_policy (unindexed s) name = backend_policy s name"
  "backend_session_persistence (unindexed s) name = backend_session_persistence s name"
  "backend_load_balancing (unindexed s) name = backend_load_balancing s name"
  "candidate_session (unindexed s) route_session name = candidate_session s route_session name"
  by (simp_all add: backend_policy_def backend_session_persistence_def backend_load_balancing_def candidate_session_def)

lemma endpoint_choice_unindexed [simp]:
  "select_cluster_endpoint lib (unindexed s) c name w = select_cluster_endpoint lib s c name w"
  "select_cluster_endpoint_by_hash lib (unindexed s) c name key w = select_cluster_endpoint_by_hash lib s c name key w"
  "eligible_endpoint_count lib (unindexed s) c name now = eligible_endpoint_count lib s c name now"
  unfolding select_cluster_endpoint_def select_cluster_endpoint_by_hash_def eligible_endpoint_count_def
    selection_availability_unindexed by (rule refl)+

lemma closures_unindexed [simp]:
  "hash_candidate lib (unindexed s) route_session key = hash_candidate lib s route_session key"
  "pick_candidate lib (unindexed s) route_session target = pick_candidate lib s route_session target"
  unfolding hash_candidate_def pick_candidate_def endpoint_choice_unindexed policies_unindexed by (rule refl)+

lemma visit_loop_unindexed:
  assumes "runtime_indexed s" and "distinct_names s"
  shows "visit_candidates_loop lib s now visit refs v a = visit_candidates_loop lib (unindexed s) now visit refs v a"
proof (induction refs arbitrary: v a)
  case (Cons r rs)
  then show ?case
    by (auto simp: visit_candidates_loop.simps(2) found_cluster_eq [OF assms] Let_def split: option.split prod.split)
qed simp

lemma persistent_unindexed:
  assumes "runtime_indexed s" and "distinct_names s"
  shows "resolve_persistent_http_backend lib s refs target sp w =
    resolve_persistent_http_backend lib (unindexed s) refs target sp w"
proof (induction refs)
  case (Cons r rs)
  then show ?case by (auto simp: found_cluster_eq [OF assms] Let_def split: option.split prod.split)
qed simp

lemma policy_loop_unindexed:
  assumes "runtime_indexed s" and "distinct_names s"
  shows "policy_persistent_loop lib s refs resolver rs w = policy_persistent_loop lib (unindexed s) refs resolver rs w"
proof (induction rs arbitrary: w)
  case (Cons r rs)
  then show ?case
    by (auto simp: found_cluster_eq [OF assms] persistent_unindexed [OF assms] Let_def split: option.split prod.split)
qed simp

lemma resolve_unindexed:
  assumes "runtime_indexed s" and "distinct_names s"
  shows "resolve_http_backend_refs_with_session lib s refs route_session request resolver w =
    resolve_http_backend_refs_with_session lib (unindexed s) refs route_session request resolver w"
  unfolding resolve_http_backend_refs_with_session_def resolve_backend_policy_persistent_http_backend_def
    resolve_weighted_http_backend_def resolve_consistent_hash_http_backend_def visit_http_backend_candidates_def
    persistent_unindexed [OF assms] policy_loop_unindexed [OF assms] visit_loop_unindexed [OF assms]
    closures_unindexed by (rule refl)

section \<open>Listeners\<close>

lemma matched_listeners_unindexed:
  "runtime_indexed s \<Longrightarrow> matched_listeners s host port kind = matched_listeners (unindexed s) host port kind"
  using matched_listeners_eq [of s host port kind] matched_listeners_eq [of "unindexed s" host port kind]
  by (simp add: runtime_indexed_def candidate_listeners_def)

lemma matched_listener_in_table:
  assumes "runtime_indexed s" and "m \<in> set (cl_listeners (matched_listeners s host port kind))"
  shows "ml_listener_index m < length (sn_listeners s) \<and> sn_listeners s ! ml_listener_index m = ml_listener m"
  using assms
  by (auto simp: matched_listeners_eq runtime_indexed_def kept_listeners_def candidate_listeners_def set_map_filter
      in_set_enumerate_eq split: option.splits if_splits)

lemma route_listener_unindexed:
  assumes "runtime_indexed s"
  shows "route_listener_match s (matched_listeners s host port kind) ns n =
    route_listener_match (unindexed s) (matched_listeners s host port kind) ns n"
proof -
  let ?ls = "cl_listeners (matched_listeners s host port kind)"
  have "filter (\<lambda>m. contains_listener (from_listeners (sn_listeners s)) ns n (ml_listener_index m)) ?ls =
      filter (\<lambda>m. list_ex (\<lambda>a. route_attachment_matches a ns n) (ls_attached_routes (ml_listener m))) ?ls"
    using matched_listener_in_table [OF assms]
    by (intro filter_cong [OF refl]) (simp add: contains_listener_iff list_ex_iff)
  then show ?thesis using assms by (simp add: route_listener_match_def runtime_indexed_def)
qed

lemma accepts_any_parent [simp]: "route_accepts_service_frontend s parents ns l"
proof -
  have "accepting_parent_loop f ns ps \<noteq> Some False" for f ps
    by (induction f ns ps rule: accepting_parent_loop.induct) (simp_all add: Let_def)
  then show ?thesis by (auto simp: route_accepts_service_frontend_def split: option.split) metis
qed

section \<open>Routes\<close>

lemma select_http_route_unindexed:
  assumes "runtime_indexed s" and "distinct_names s"
  shows "select_http_route lib s request resolver w = select_http_route lib (unindexed s) request resolver w"
proof -
  let ?ls = "matched_listeners s (rq_host request) (rq_port request) KindHttp"
  have rule: "consider_http_rule lib s request resolver route lm rh = consider_http_rule lib (unindexed s) request resolver route lm rh"
    for route lm rh
    unfolding consider_http_rule_def resolve_unindexed [OF assms] by (rule refl)
  have route: "consider_http_route lib s request resolver ?ls route st =
      consider_http_route lib (unindexed s) request resolver ?ls route st" for route st
    unfolding consider_http_route_def route_listener_unindexed [OF assms(1)] rule accepts_any_parent [THEN eqTrueI]
    by (rule refl)
  have visit: "visit_http_route_candidates s (rq_host request) (consider_http_route lib s request resolver ?ls) st =
      visit_http_route_candidates (unindexed s) (rq_host request) (consider_http_route lib (unindexed s) request resolver ?ls) st" for st
  proof -
    have "visit_http_route_candidates s (rq_host request) (consider_http_route lib s request resolver ?ls) st =
        visit_while (consider_http_route lib s request resolver ?ls) (sn_http_routes s) st"
      using assms(1) by (intro visit_http_routes_eq)
        (simp_all add: http_hosts_indexed_def runtime_indexed_def build_http_route_hostname_index_def consider_skips_host)
    also have "\<dots> = visit_while (consider_http_route lib (unindexed s) request resolver ?ls) (sn_http_routes s) st"
      by (rule visit_while_cong) (simp add: route)
    also have "\<dots> = visit_http_route_candidates (unindexed s) (rq_host request)
        (consider_http_route lib (unindexed s) request resolver ?ls) st"
      using visit_http_routes_eq [of "unindexed s" "rq_host request" "consider_http_route lib (unindexed s) request resolver ?ls" st]
      by (simp add: http_hosts_indexed_def consider_skips_host)
    finally show ?thesis .
  qed
  have "selected_http_route s = selected_http_route (unindexed s)"
    by (simp add: fun_eq_iff selected_http_route_def backend_security_policy_def)
  then show ?thesis
    unfolding select_http_route_def matched_listeners_unindexed [OF assms(1), symmetric] Let_def visit by simp
qed

lemma visit_grpc_routes_eq:
  assumes "sn_runtime_indexes_ready snapshot \<Longrightarrow>
      sn_grpc_route_hostname_index snapshot = build_hostname_route_index (map groute_hostnames (sn_grpc_routes snapshot))"
    and "\<And>route s. route \<in> set (sn_grpc_routes snapshot) \<Longrightarrow>
      best_hostname_score (groute_hostnames route) host = None \<Longrightarrow> v route s = (True, s)"
  shows "visit_grpc_route_candidates snapshot host v s = visit_while v (sn_grpc_routes snapshot) s"
proof (cases "sn_runtime_indexes_ready snapshot")
  case True
  then show ?thesis
    using assms hostname_index.visit_eq_scan [of "sn_grpc_routes snapshot" groute_hostnames host v s]
    by (simp add: visit_grpc_route_candidates_def)
next
  case False
  then show ?thesis
    using hostname_scan.visit_eq_scan [of "sn_grpc_routes snapshot" v _ host s]
    by (simp add: visit_grpc_route_candidates_def)
qed

lemma consider_grpc_skips_host:
  "best_hostname_score (groute_hostnames route) (rq_host request) = None \<Longrightarrow>
   consider_grpc_route lib snapshot request resolver grpc listeners route st = (True, st)"
  by (simp add: consider_grpc_route_def Let_def)

lemma select_grpc_backend_unindexed:
  assumes "runtime_indexed s" and "distinct_names s"
  shows "select_grpc_backend lib s request resolver w = select_grpc_backend lib (unindexed s) request resolver w"
proof -
  let ?ls = "matched_listeners s (rq_host request) (rq_port request) KindGrpc"
  let ?grpc = "parse_grpc_path (rq_path request)"
  have rule: "consider_grpc_rule lib s request resolver grpc route lm rh =
      consider_grpc_rule lib (unindexed s) request resolver grpc route lm rh" for grpc route lm rh
    unfolding consider_grpc_rule_def resolve_unindexed [OF assms] by (rule refl)
  have route: "consider_grpc_route lib s request resolver ?grpc ?ls route st =
      consider_grpc_route lib (unindexed s) request resolver ?grpc ?ls route st" for route st
    unfolding consider_grpc_route_def route_listener_unindexed [OF assms(1)] rule accepts_any_parent [THEN eqTrueI]
    by (rule refl)
  have "visit_grpc_route_candidates s (rq_host request) (consider_grpc_route lib s request resolver ?grpc ?ls) st =
      visit_while (consider_grpc_route lib s request resolver ?grpc ?ls) (sn_grpc_routes s) st" for st
    using assms(1) by (intro visit_grpc_routes_eq)
      (simp_all add: runtime_indexed_def build_grpc_route_hostname_index_def consider_grpc_skips_host)
  moreover have "visit_while (consider_grpc_route lib s request resolver ?grpc ?ls) (sn_grpc_routes s) st =
      visit_while (consider_grpc_route lib (unindexed s) request resolver ?grpc ?ls) (sn_grpc_routes s) st" for st
    by (rule visit_while_cong) (simp add: route)
  moreover have "visit_grpc_route_candidates (unindexed s) (rq_host request)
      (consider_grpc_route lib (unindexed s) request resolver ?grpc ?ls) st =
      visit_while (consider_grpc_route lib (unindexed s) request resolver ?grpc ?ls) (sn_grpc_routes s) st" for st
    using visit_grpc_routes_eq [of "unindexed s" "rq_host request"
        "consider_grpc_route lib (unindexed s) request resolver ?grpc ?ls" st]
    by (simp add: consider_grpc_skips_host)
  ultimately show ?thesis
    unfolding select_grpc_backend_def matched_listeners_unindexed [OF assms(1), symmetric] Let_def by simp
qed

section \<open>The rebuild\<close>

text \<open>The fields that the lookups read after a rebuild.\<close>

lemma rebuild_plans_fields [simp]:
  "sn_runtime_indexes_ready (rebuild_plans s)"
  "sn_listeners (rebuild_plans s) = sn_listeners s"
  "sn_http_routes (rebuild_plans s) = sn_http_routes s"
  "sn_grpc_routes (rebuild_plans s) = sn_grpc_routes s"
  "sn_backends (rebuild_plans s) = sn_backends s"
  "sn_backend_names (rebuild_plans s) = sn_backend_names s"
  "sn_backend_index (rebuild_plans s) = sn_backend_index s"
  "sn_backend_service_index (rebuild_plans s) = sn_backend_service_index s"
  "sn_workloads (rebuild_plans s) = sn_workloads s"
  "sn_workload_namespace_index (rebuild_plans s) = sn_workload_namespace_index s"
  "sn_http_route_hostname_index (rebuild_plans s) = sn_http_route_hostname_index s"
  "sn_grpc_route_hostname_index (rebuild_plans s) = sn_grpc_route_hostname_index s"
  "sn_route_attachment_listener_index (rebuild_plans s) = sn_route_attachment_listener_index s"
  "sn_endpoint_runtime (rebuild_plans s) = sn_endpoint_runtime s"
  "sn_backend_policies (rebuild_plans s) = sn_backend_policies s"
  by (simp_all add: rebuild_plans_def Let_def)

lemma listener_indexed_frame:
  "listener_indexed s \<Longrightarrow> listener_indexed (rebuild_plans (rebuild_route_indexes s))"
  by (simp add: listener_indexed_def rebuild_plans_def rebuild_route_indexes_def Let_def)

lemma rebuild_indexed: "runtime_indexed (rebuild_runtime_indexes lib s)"
proof -
  let ?r = "rebuild_listener_indexes (rebuild_runtime_ids (rebuild_backend_indexes (compile_matchers lib s)))"
  have "listener_indexed (rebuild_plans (rebuild_route_indexes ?r))"
    by (rule listener_indexed_frame) (rule listener_indexed_rebuild)
  then show ?thesis
    by (simp add: runtime_indexed_def services_indexed_def rebuild_runtime_indexes_def rebuild_route_indexes_def
        rebuild_runtime_ids_def rebuild_backend_indexes_def Let_def)
qed

lemma rebuild_tables:
  "sn_listeners (rebuild_runtime_indexes lib s) = sn_listeners s"
  "sn_backends (rebuild_runtime_indexes lib s) = sn_backends s"
  by (simp_all add: rebuild_runtime_indexes_def rebuild_route_indexes_def rebuild_runtime_ids_def
      rebuild_backend_indexes_def compile_matchers_def Let_def)

lemma rebuild_distinct: "distinct_names (rebuild_runtime_indexes lib s) \<longleftrightarrow> distinct_names s"
  by (simp add: distinct_names_def rebuild_tables)

end
