(* ===== verification/Fast_Path_Agreement.thy ===== *)
theory Fast_Path_Agreement
  imports Index_Equivalence
begin

text \<open>
  The compiled fast path answers as the full selection would. Whenever it answers, the full
  selection chooses the same listener, route, rule and matched path and has a backend; the endpoint
  the fast path returns is an eligible endpoint of a reference of that rule. Only the ticket, and so
  the endpoint among the eligible ones, may differ.
\<close>

section \<open>Scores\<close>

fun fast_host :: "HostnameScore \<Rightarrow> FastHostnameScore" where
  "fast_host (HostnameScore r l) = FastHostnameScore r l"

fun fast_rule :: "HttpRuleScore \<Rightarrow> FastHttpRuleScore" where
  "fast_rule (HttpRuleScore r l m h q) = FastHttpRuleScore r l m"

fun fast_score :: "HttpCandidateScore \<Rightarrow> FastCandidateScore" where
  "fast_score (HttpCandidateScore lh rh rs) = FastCandidateScore (fast_host lh) (fast_host rh) (fast_rule rs)"

fun plain_rule :: "HttpRuleScore \<Rightarrow> bool" where
  "plain_rule (HttpRuleScore r l m h q) \<longleftrightarrow> h = 0 \<and> q = 0"

lemma fast_host_order [simp]:
  "fast_host a \<le> fast_host b \<longleftrightarrow> a \<le> b" "fast_host a < fast_host b \<longleftrightarrow> a < b" "fast_host a = fast_host b \<longleftrightarrow> a = b"
  by (cases a; cases b; simp add: less_eq_FastHostnameScore_def less_FastHostnameScore_def
      less_eq_HostnameScore_def less_HostnameScore_def)+

lemma fast_rule_order:
  assumes "plain_rule a" and "plain_rule b"
  shows "fast_rule a \<le> fast_rule b \<longleftrightarrow> a \<le> b" and "fast_rule a < fast_rule b \<longleftrightarrow> a < b"
    and "fast_rule a = fast_rule b \<longleftrightarrow> a = b"
  using assms
  by (cases a; cases b; auto simp: less_eq_FastHttpRuleScore_def less_FastHttpRuleScore_def
      less_eq_HttpRuleScore_def less_HttpRuleScore_def less_prod_def less_eq_prod_def)+

lemma fast_score_order:
  assumes "plain_rule (hcs_rule a)" and "plain_rule (hcs_rule b)"
  shows "fast_score a \<le> fast_score b \<longleftrightarrow> a \<le> b"
  using assms fast_rule_order
  by (cases a; cases b) (auto simp: less_eq_FastCandidateScore_def less_eq_HttpCandidateScore_def
      less_prod_def less_eq_prod_def less_le)

lemma max_by_map:
  assumes "\<And>x y. x \<in> set xs \<Longrightarrow> y \<in> set xs \<Longrightarrow> g (h x) < g (h y) \<longleftrightarrow> f x < f y"
  shows "max_by g (map h xs) = map_option h (max_by f xs)"
proof -
  have from_map: "max_by_from g (h a) (map h ys) = h (max_by_from f a ys)" if "insert a (set ys) \<subseteq> set xs" for a ys
    using that
  proof (induction ys arbitrary: a)
    case (Cons y ys)
    have "insert (if f y < f a then a else y) (set ys) \<subseteq> set xs" using Cons.prems by auto
    from Cons.IH [OF this] show ?case using assms [of y a] Cons.prems by auto
  qed simp
  show ?thesis
  proof (cases xs)
    case (Cons a ys)
    then show ?thesis using from_map [of a ys] by (simp add: max_by_def)
  qed (simp add: max_by_def)
qed

section \<open>Hostnames and rules\<close>

lemma fast_hostname_score_eq: "fast_hostname_score p h = map_option fast_host (hostname_match_score p h)"
  by (simp add: fast_hostname_score_def hostname_match_score_def Let_def split: option.split)

lemma map_filter_map_option: "List.map_filter (\<lambda>x. map_option h (f x)) xs = map h (List.map_filter f xs)"
  by (induction xs) (simp_all add: List.map_filter_simps split: option.split)

lemma fast_best_hostname_eq: "fast_best_hostname_score hs host = map_option fast_host (best_hostname_score hs host)"
  by (cases host) (simp_all add: fast_best_hostname_score_def best_hostname_score_def fast_hostname_score_eq
      map_filter_map_option max_by_map FastHostnameScore_default_def HostnameScore_default_def)

definition regex_compiled :: "Lib \<Rightarrow> HttpMatch \<Rightarrow> bool" where
  "regex_compiled lib m \<longleftrightarrow> (ht_path_type m = ''RegularExpression'' \<longrightarrow> ht_compiled_path_regex m = regex_new lib (ht_path m))"

definition same_request :: "HttpFastPathRequest \<Rightarrow> RequestMeta \<Rightarrow> bool" where
  "same_request fq rq \<longleftrightarrow> rq_host rq = map_option normalize_host_ref (fq_host fq) \<and> rq_port rq = fq_port fq
     \<and> rq_path rq = request_path_without_query (fq_path fq)
     \<and> to_ascii_lowercase (rq_method rq) = to_ascii_lowercase (fq_method fq)"

lemma fast_matches_eq:
  assumes "same_request fq rq" and "regex_compiled lib m" and "http_match_is_fast_path_eligible m"
  shows "fast_matches_http_rule (compile_http_fast_match m) (request_path_without_query (fq_path fq)) (fq_method fq) =
    matches_http_rule lib m rq"
proof -
  have "fast_matches_http_path (compile_http_fast_match m) (rq_path rq) = matches_http_path lib m rq"
    using assms(2) by (auto simp: fast_matches_http_path_def matches_http_path_def compile_http_fast_match_def Let_def
        regex_compiled_def regex_matches_def fast_matches_path_prefix_def matches_path_prefix_def split: option.split)
  moreover have "eq_ignore_ascii_case e (fq_method fq) = eq_ignore_ascii_case e (rq_method rq)" for e
    using assms(1) by (simp add: same_request_def eq_ignore_ascii_case_def)
  ultimately show ?thesis
    using assms(1,3) by (simp add: fast_matches_http_rule_def matches_http_rule_def matches_method_def same_request_def
        compile_http_fast_match_def Let_def http_match_is_fast_path_eligible_def matches_headers_def matches_query_params_def)
qed

lemma http_rule_score_plain: "http_match_is_fast_path_eligible m \<Longrightarrow> plain_rule (snd (http_rule_score m))"
  by (simp add: http_rule_score_def http_match_is_fast_path_eligible_def Let_def)

lemma fast_rank_eq: "fast_http_path_rank = http_path_rank"
  by (simp add: fun_eq_iff fast_http_path_rank_def http_path_rank_def)

lemma fast_rule_score_eq:
  "(cfm_matched_http_path (compile_http_fast_match m), cfm_score (compile_http_fast_match m)) =
     map_prod id fast_rule (http_rule_score m)"
  by (simp add: compile_http_fast_match_def http_rule_score_def Let_def fast_rank_eq)

lemma fast_rule_match_eq:
  assumes "same_request fq rq" and "\<forall>m \<in> set (hr_matches rule). regex_compiled lib m"
    and "list_all http_match_is_fast_path_eligible (hr_matches rule)"
    and "cfu_matches cr = compile_http_fast_matches rule" and "cfu_default_matched_http_path cr = default_http_path_match"
  shows "fast_best_http_rule_match cr (request_path_without_query (fq_path fq)) (fq_method fq) =
    map_option (map_prod id fast_rule) (best_http_rule_match lib rule rq)"
proof (cases "hr_matches rule = []")
  case True
  then show ?thesis
    using assms(4,5) by (simp add: fast_best_http_rule_match_def best_http_rule_match_def compile_http_fast_matches_def
        FastHttpRuleScore_default_def HttpRuleScore_default_def)
next
  case False
  let ?ms = "filter (\<lambda>m. matches_http_rule lib m rq) (hr_matches rule)"
  have el: "http_match_is_fast_path_eligible m" if "m \<in> set (hr_matches rule)" for m
    using assms(3) that by (simp add: list_all_iff)
  have "filter (\<lambda>c. fast_matches_http_rule c (request_path_without_query (fq_path fq)) (fq_method fq))
      (map compile_http_fast_match (hr_matches rule)) = map compile_http_fast_match ?ms"
  proof -
    have "fast_matches_http_rule (compile_http_fast_match m) (request_path_without_query (fq_path fq)) (fq_method fq) =
        matches_http_rule lib m rq" if "m \<in> set (hr_matches rule)" for m
      using fast_matches_eq [OF assms(1), of lib m] assms(2) el [OF that] that by simp
    then show ?thesis by (simp add: filter_map comp_def cong: filter_cong)
  qed
  then have "fast_best_http_rule_match cr (request_path_without_query (fq_path fq)) (fq_method fq) =
      max_by snd (map (map_prod id fast_rule) (map http_rule_score ?ms))"
    using False assms(4) by (simp add: fast_best_http_rule_match_def compile_http_fast_matches_def comp_def fast_rule_score_eq)
  also have "\<dots> = map_option (map_prod id fast_rule) (max_by snd (map http_rule_score ?ms))"
    using fast_rule_order(2) http_rule_score_plain el by (intro max_by_map) auto
  finally show ?thesis using False by (simp add: best_http_rule_match_def)
qed

lemma best_rule_plain:
  assumes "list_all http_match_is_fast_path_eligible (hr_matches rule)"
    and "best_http_rule_match lib rule rq = Some (p, sc)"
  shows "plain_rule sc"
proof (cases "hr_matches rule = []")
  case False
  then have "(p, sc) \<in> set (map http_rule_score (filter (\<lambda>m. matches_http_rule lib m rq) (hr_matches rule)))"
    using assms(2) max_by_SomeD(1) by (fastforce simp: best_http_rule_match_def)
  then obtain m where "m \<in> set (hr_matches rule)" "(p, sc) = http_rule_score m" by auto
  then show ?thesis using assms(1) http_rule_score_plain [of m] by (metis list_all_iff snd_conv)
qed (use assms(2) in \<open>auto simp: best_http_rule_match_def HttpRuleScore_default_def\<close>)

section \<open>Listeners\<close>

definition fast_listener :: "MatchedListener \<Rightarrow> FastMatchedListener" where
  "fast_listener m = \<lparr> fm_listener_index = ml_listener_index m, fm_host_score = fast_host (ml_host_score m) \<rparr>"

definition fc_ok :: "FastCandidateListeners \<Rightarrow> bool" where
  "fc_ok l \<longleftrightarrow> (fc_first l = None \<longrightarrow> fc_additional l = [])"

lemma iter_matches_simps:
  "iter_matches (clear_matches l) = []" "fc_ok (clear_matches l)"
  "fc_ok l \<Longrightarrow> iter_matches (push_match m l) = iter_matches l @ [m]" "fc_ok (push_match m l)"
  "iter_matches FastCandidateListeners_default = []" "fc_ok FastCandidateListeners_default"
  by (auto simp: iter_matches_def clear_matches_def push_match_def FastCandidateListeners_default_def fc_ok_def
      split: option.split)

definition same_listeners ::
    "bool \<times> HostnameScore option \<times> MatchedListener list \<Rightarrow> bool \<times> FastHostnameScore option \<times> FastCandidateListeners \<Rightarrow> bool" where
  "same_listeners = (\<lambda>(b, best, ls) (b', best', fl).
     b' = b \<and> best' = map_option fast_host best \<and> fc_ok fl \<and> iter_matches fl = map fast_listener ls)"

lemma same_listeners_step:
  "same_listeners a a' \<Longrightarrow> same_listeners (match_listener host i l a) (fast_match_listener host i l a')"
proof -
  assume a: "same_listeners a a'"
  obtain b best ls b' best' fl where ab: "a = (b, best, ls)" "a' = (b', best', fl)" by (metis prod_cases3)
  show ?thesis
  proof (cases "best_hostname_score (ls_hostnames l) host")
    case None
    with a show ?thesis
      by (simp add: ab same_listeners_def match_listener_def fast_match_listener_def listener_hostname_score_eq
          fast_best_hostname_eq)
  next
    case (Some sc)
    with a show ?thesis
      by (cases best) (auto simp: ab same_listeners_def match_listener_def fast_match_listener_def
          listener_hostname_score_eq fast_best_hostname_eq Let_def iter_matches_simps fast_listener_def)
  qed
qed

lemma visit_fast_listeners_eq:
  assumes "runtime_indexed s"
  shows "visit_fast_candidate_listeners s port visit a =
    foldl (\<lambda>a (i, l). visit i l a) a (candidate_listeners s port KindHttp)"
proof (cases "port = 0")
  case True
  have "(\<lambda>a (i, l). if is_http_listener (ls_protocol l) \<and> (port = 0 \<or> ls_port l = port) then visit i l a else a) =
      (\<lambda>a p. if (case p of (_, l) \<Rightarrow> matches_listener_kind l KindHttp \<and> (port = 0 \<or> ls_port l = port))
        then (case p of (i, l) \<Rightarrow> visit i l a) else a)"
    by (auto simp: fun_eq_iff)
  then show ?thesis using True
    by (simp add: visit_fast_candidate_listeners_def candidate_listeners_def foldl_filter del: matches_listener_kind.simps)
next
  case False
  have "visit_candidate_listeners s port KindHttp visit a = foldl (\<lambda>a (i, l). visit i l a) a (candidate_listeners s port KindHttp)"
    using assms by (intro visit_candidate_listeners_eq) (simp add: runtime_indexed_def)
  moreover have "foldl (\<lambda>s i. case nth_opt ls i of None \<Rightarrow> s | Some l \<Rightarrow> visit i l s) a is =
      foldl (\<lambda>s (i, l). visit i l s) a (List.map_filter (\<lambda>i. map_option (Pair i) (nth_opt ls i)) is)" for ls "is" a
    by (induction "is" arbitrary: a) (simp_all add: List.map_filter_simps split: option.split)
  then have "visit_fast_candidate_listeners s port visit a = visit_candidate_listeners s port KindHttp visit a"
    using assms False
    by (simp add: visit_fast_candidate_listeners_def visit_candidate_listeners_def candidate_listener_indices_def
        runtime_indexed_def split: option.split)
  ultimately show ?thesis by simp
qed

lemma fast_listeners_eq:
  assumes "runtime_indexed s"
  shows "iter_matches (fast_matched_listeners s host port) = map fast_listener (cl_listeners (matched_listeners s host port KindHttp))"
    and "fc_enforce_attachments (fast_matched_listeners s host port) = cl_enforce_attachments (matched_listeners s host port KindHttp)"
proof -
  let ?cs = "candidate_listeners s port KindHttp"
  have fold: "same_listeners (foldl (\<lambda>a (i, l). match_listener host i l a) a cs) (foldl (\<lambda>a (i, l). fast_match_listener host i l a) a' cs)"
    if "same_listeners a a'" for a a' cs
    using that
  proof (induction cs arbitrary: a a')
    case (Cons c cs)
    then show ?case using same_listeners_step [OF Cons.prems] by (cases c) simp
  qed simp
  have "same_listeners (False, None, []) (False, None, FastCandidateListeners_default)"
    by (simp add: same_listeners_def iter_matches_simps)
  note rel = fold [OF this, of ?cs]
  have slow: "visit_candidate_listeners s port KindHttp (match_listener host) (False, None, []) =
      foldl (\<lambda>a (i, l). match_listener host i l a) (False, None, []) ?cs"
    using assms by (intro visit_candidate_listeners_eq) (simp add: runtime_indexed_def)
  obtain b best ls where m: "foldl (\<lambda>a (i, l). match_listener host i l a) (False, None, []) ?cs = (b, best, ls)"
    by (rule prod_cases3)
  obtain b' best' fl where f: "foldl (\<lambda>a (i, l). fast_match_listener host i l a) (False, None, FastCandidateListeners_default) ?cs = (b', best', fl)"
    by (rule prod_cases3)
  have "iter_matches (fl\<lparr> fc_enforce_attachments := b' \<rparr>) = iter_matches fl" by (simp add: iter_matches_def)
  then show "iter_matches (fast_matched_listeners s host port) = map fast_listener (cl_listeners (matched_listeners s host port KindHttp))"
    and "fc_enforce_attachments (fast_matched_listeners s host port) = cl_enforce_attachments (matched_listeners s host port KindHttp)"
    using rel by (simp_all add: fast_matched_listeners_def visit_fast_listeners_eq [OF assms] matched_listeners_def slow m f same_listeners_def)
qed

lemma fast_route_listener_eq:
  assumes "runtime_indexed s"
  shows "fast_route_listener_match s (fast_matched_listeners s host port) ns n =
    map_option fast_listener (route_listener_match s (matched_listeners s host port KindHttp) ns n)"
proof (cases "cl_enforce_attachments (matched_listeners s host port KindHttp)")
  case True
  let ?ls = "cl_listeners (matched_listeners s host port KindHttp)" and ?idx = "sn_route_attachment_listener_index s"
  have map: "max_by fm_host_score (map fast_listener ms) = map_option fast_listener (max_by ml_host_score ms)" for ms
    by (rule max_by_map) (simp add: fast_listener_def)
  show ?thesis
  proof (cases "listeners_for_route ?idx ns n")
    case None
    then have "filter (\<lambda>m. contains_listener ?idx ns n (ml_listener_index m)) ?ls = []"
      by (simp add: contains_listener_def)
    with None True show ?thesis
      using assms by (simp add: fast_route_listener_match_def route_listener_match_def fast_listeners_eq [OF assms]
          runtime_indexed_def)
  next
    case (Some attached)
    then have "filter (\<lambda>fm. binary_search_is_ok attached (fm_listener_index fm)) (map fast_listener ?ls) =
        map fast_listener (filter (\<lambda>m. contains_listener ?idx ns n (ml_listener_index m)) ?ls)"
      by (simp add: contains_listener_def filter_map comp_def fast_listener_def)
    with Some True show ?thesis
      using assms map by (simp add: fast_route_listener_match_def route_listener_match_def fast_listeners_eq [OF assms]
          runtime_indexed_def)
  qed
qed (simp add: fast_route_listener_match_def route_listener_match_def fast_listeners_eq [OF assms])

section \<open>Backends\<close>

text \<open>
  The plan finds a backend by its full name, the full selection by namespace, service and port. They
  agree because a namespace holds no slash.
\<close>

definition namespaces_plain :: "Snapshot \<Rightarrow> bool" where
  "namespaces_plain s \<longleftrightarrow> (\<forall>c \<in> set (sn_backends s). CHR ''/'' \<notin> set (bc_namespace c))
     \<and> (\<forall>route \<in> set (sn_http_routes s). \<forall>rule \<in> set (hroute_rules route). \<forall>r \<in> set (hr_backend_refs rule).
          CHR ''/'' \<notin> set (br_namespace r))"

definition names_indexed :: "Snapshot \<Rightarrow> bool" where
  "names_indexed s \<longleftrightarrow> sn_backend_index s =
     hash_collect (map (\<lambda>(index, backend_name). (backend_name, index)) (enumerate 0 (map backend_cluster_name (sn_backends s))))"

lemma split_at_slash: "CHR ''/'' \<notin> set a \<Longrightarrow> CHR ''/'' \<notin> set b \<Longrightarrow> a @ ''/'' @ x = b @ ''/'' @ y \<Longrightarrow> a = b \<and> x = y"
proof (induction a arbitrary: b)
  case Nil then show ?case by (cases b) auto
next
  case (Cons c a) then show ?case by (cases b) auto
qed

lemma hash_collect_in: "hash_collect kvs k = Some v \<Longrightarrow> (k, v) \<in> set kvs"
  by (auto simp: hash_collect_def dest!: map_of_SomeD)

lemma enumerate_swap: "(k, i) \<in> set (map (\<lambda>(i, x). (x, i)) (enumerate 0 xs)) \<Longrightarrow> i < length xs \<and> xs ! i = k"
  by (auto simp: in_set_enumerate_eq)

lemma unique_find:
  assumes "distinct (map f xs)" and "i < length xs" and "P (xs ! i)" and "\<And>x y. P x \<Longrightarrow> P y \<Longrightarrow> f x = f y"
  shows "find (\<lambda>(i, c). P c) (enumerate 0 xs) = Some (i, xs ! i)"
proof -
  have "\<not> P (xs ! j)" if "j < i" for j
  proof
    assume "P (xs ! j)"
    from assms(4) [OF this assms(3)] show False
      using that assms(2) nth_eq_iff_index_eq [OF assms(1), of j i] by simp
  qed
  then show ?thesis unfolding find_Some_iff
    using assms(2,3) by (intro exI [of _ i] conjI allI impI) (simp_all add: nth_enumerate_eq)
qed

lemma fast_ref_cluster:
  assumes "runtime_indexed s" and "distinct_names s" and "names_indexed s"
    and "\<forall>c \<in> set (sn_backends s). CHR ''/'' \<notin> set (bc_namespace c)" and "CHR ''/'' \<notin> set (br_namespace r)"
    and "compile_http_fast_backend_ref s r = Some cr"
  obtains c where "find_backend_cluster_index s r = Some (cfb_backend_index cr, c)"
    and "nth_opt (sn_backends s) (cfb_backend_index cr) = Some c"
    and "cfb_backend_name cr = backend_name_for_index s (cfb_backend_index cr) c"
    and "map cfe_endpoint (cfb_endpoints cr) = bc_endpoints c" and "br_weight r \<noteq> 0"
proof -
  let ?name = "br_namespace r @ ''/'' @ br_name r @ '':'' @ show_u32 (br_port r)" and ?i = "cfb_backend_index cr"
  obtain c where c: "backend_ref_is_routable r" "br_weight r \<noteq> 0" "sn_backend_index s ?name = Some ?i"
    "nth_opt (sn_backends s) ?i = Some c" "cfb_backend_name cr = backend_cluster_name c"
    "map cfe_endpoint (cfb_endpoints cr) = bc_endpoints c"
    using assms(6) by (auto simp: compile_http_fast_backend_ref_def Let_def comp_def split: if_splits option.splits)
  have i: "?i < length (sn_backends s)" "sn_backends s ! ?i = c" using c(4) by (auto simp: nth_opt_def split: if_splits)
  have "(?name, ?i) \<in> set (map (\<lambda>(index, backend_name). (backend_name, index)) (enumerate 0 (map backend_cluster_name (sn_backends s))))"
    using c(3) unfolding assms(3) [unfolded names_indexed_def] by (rule hash_collect_in)
  from enumerate_swap [OF this] have "backend_cluster_name c = ?name" using i by simp
  moreover have "CHR ''/'' \<notin> set (bc_namespace c)" using assms(4) i nth_mem by blast
  ultimately have "bc_namespace c = br_namespace r \<and> bc_name c = br_name r @ '':'' @ show_u32 (br_port r)"
    using assms(5) split_at_slash unfolding backend_cluster_name_def by blast
  then have m: "backend_cluster_matches_ref c (br_namespace r) (br_name r) (br_port r)"
    by (simp add: matches_ref_key service_key_of_def service_key_Some)
  have "find (\<lambda>(_, c). backend_cluster_matches_ref c (br_namespace r) (br_name r) (br_port r)) (enumerate 0 (sn_backends s)) =
      Some (?i, sn_backends s ! ?i)"
  proof (rule unique_find [where f = "\<lambda>b. (bc_namespace b, bc_name b)"])
    show "distinct (map (\<lambda>b. (bc_namespace b, bc_name b)) (sn_backends s))" using assms(2) by (simp add: distinct_names_def)
  qed (use i m service_key_of_inj in \<open>unfold matches_ref_key, blast+\<close>)
  then have f: "backend_cluster_for_service_index (unindexed s) (br_namespace r) (br_name r) (br_port r) = Some (?i, c)"
    using i by (simp add: backend_cluster_for_service_index_def)
  have found: "find_backend_cluster_index s r = Some (?i, c)"
    using f c(1) service_lookup_eq [OF assms(1,2)] by (simp add: find_backend_cluster_index_def)
  have "cfb_backend_name cr = backend_name_for_index s ?i c" using c(5) found_name_eq(1) [OF assms(1) f] by simp
  from that [OF found c(4) this c(6,2)] show ?thesis .
qed

lemma fast_endpoint_loop_sound:
  "fast_endpoint_loop compiled eligible target seen xs = Some sel \<Longrightarrow>
   \<exists>i e ce. (i, e) \<in> set xs \<and> eligible e \<and> nth_opt (cfb_endpoints compiled) i = Some ce
     \<and> cfs_endpoint sel = cfe_endpoint ce \<and> cfs_backend_name sel = cfb_backend_name compiled"
  by (induction compiled eligible target seen xs rule: fast_endpoint_loop.induct)
    (fastforce split: if_splits option.splits)+

lemma fast_endpoint_sound:
  assumes "select_compiled_http_fast_endpoint lib s compiled c v now w = (Some sel, w')"
    and "v = endpoint_selection_availability lib s c (cfb_backend_name compiled) now"
    and "map cfe_endpoint (cfb_endpoints compiled) = bc_endpoints c"
  shows "cfs_endpoint sel \<in> set (eligible_endpoints lib s c (cfb_backend_name compiled) now)"
    and "cfs_backend_name sel = cfb_backend_name compiled"
proof -
  obtain i e ce where x: "(i, e) \<in> set (enumerate 0 (bc_endpoints c))"
    "endpoint_matches_selection_availability lib s (cfb_backend_name compiled) now v e"
    "nth_opt (cfb_endpoints compiled) i = Some ce" "cfs_endpoint sel = cfe_endpoint ce"
    "cfs_backend_name sel = cfb_backend_name compiled"
    using assms(1) fast_endpoint_loop_sound
    by (fastforce simp: select_compiled_http_fast_endpoint_def Let_def split: if_splits prod.splits)
  have "bc_endpoints c ! i = e" "i < length (bc_endpoints c)" using x(1) by (auto simp: in_set_enumerate_eq)
  then have "cfe_endpoint ce = e" using x(3) assms(3) nth_map [of i "cfb_endpoints compiled" cfe_endpoint]
    by (simp add: nth_opt_def split: if_splits)
  moreover have "e \<in> set (bc_endpoints c)" using x(1) by (auto simp: in_set_enumerate_eq)
  ultimately show "cfs_endpoint sel \<in> set (eligible_endpoints lib s c (cfb_backend_name compiled) now)"
    "cfs_backend_name sel = cfb_backend_name compiled"
    using x assms(2) by (simp_all add: eligible_endpoints_def)
qed

lemma fast_backend_loop_sound:
  assumes "fast_backend_loop lib s now target seen refs w = (Some sel, w')"
    and "\<forall>cr \<in> set refs. \<forall>c. nth_opt (sn_backends s) (cfb_backend_index cr) = Some c \<longrightarrow> map cfe_endpoint (cfb_endpoints cr) = bc_endpoints c"
  shows "\<exists>cr \<in> set refs. \<exists>c. nth_opt (sn_backends s) (cfb_backend_index cr) = Some c
    \<and> cfs_endpoint sel \<in> set (eligible_endpoints lib s c (cfb_backend_name cr) now) \<and> cfs_backend_name sel = cfb_backend_name cr"
  using assms
proof (induction refs arbitrary: seen)
  case (Cons cr refs)
  have rest: ?case if "fast_backend_loop lib s now target seen' refs w = (Some sel, w')" for seen'
    using Cons.IH [OF that] Cons.prems(2) by auto
  show ?case
  proof (cases "nth_opt (sn_backends s) (cfb_backend_index cr)")
    case None
    then show ?thesis using Cons.prems(1) rest by simp
  next
    case (Some c)
    let ?v = "endpoint_selection_availability lib s c (cfb_backend_name cr) now"
    consider "select_compiled_http_fast_endpoint lib s cr c ?v now w = (Some sel, w')"
      | seen' where "fast_backend_loop lib s now target seen' refs w = (Some sel, w')"
      using Cons.prems(1) Some by (auto simp: Let_def split: if_splits)
    then show ?thesis
      using fast_endpoint_sound [of lib s cr c ?v now w sel w'] Some Cons.prems(2) rest by cases auto
  qed
qed simp

lemma collect_options_Some: "collect_options xs = Some ys \<longleftrightarrow> xs = map Some ys"
  by (induction xs arbitrary: ys rule: collect_options.induct) (auto simp: Cons_eq_map_conv)

lemma fast_select_clock: "same_clock w (snd (select_compiled_http_fast_backend lib s refs w))"
proof -
  have loop: "same_clock w (snd (fast_backend_loop lib s now target seen refs w))" for now target seen w
    by (induction refs arbitrary: seen)
      (auto simp: Let_def select_compiled_http_fast_endpoint_def same_clock_def next_endpoint_ticket_def split: option.split)
  show ?thesis
    using loop same_clock_trans [of w]
    by (auto simp: select_compiled_http_fast_backend_def Let_def instant_now_def next_backend_ticket_def same_clock_def
        intro: le_trans [OF _ loop [unfolded same_clock_def, THEN conjunct2]])
qed

lemma fast_select_servable:
  assumes "runtime_indexed s" and "distinct_names s" and "names_indexed s"
    and "\<forall>c \<in> set (sn_backends s). CHR ''/'' \<notin> set (bc_namespace c)"
    and "\<forall>r \<in> set (hr_backend_refs rule). CHR ''/'' \<notin> set (br_namespace r)"
    and "http_rule_is_fast_path_selection_safe rule s" and "compile_http_fast_backend_refs rule s = Some crs"
    and "select_compiled_http_fast_backend lib s crs w = (Some sel, w')"
  shows "servable lib s (hr_backend_refs rule) w (cfs_backend_name sel) (cfs_endpoint sel) []"
proof -
  let ?refs = "filter (\<lambda>r. br_weight r > 0) (hr_backend_refs rule)"
  have crs: "map (compile_http_fast_backend_ref s) ?refs = map Some crs"
    using assms(7) by (auto simp: compile_http_fast_backend_refs_def collect_options_Some split: option.splits if_splits)
  have ref: "\<exists>r \<in> set ?refs. compile_http_fast_backend_ref s r = Some cr" if "cr \<in> set crs" for cr
  proof -
    have "Some cr \<in> set (map (compile_http_fast_backend_ref s) ?refs)" using that by (simp add: crs)
    then show ?thesis by force
  qed
  note cluster = fast_ref_cluster [OF assms(1-4)]
  have ends: "\<forall>cr \<in> set crs. \<forall>c. nth_opt (sn_backends s) (cfb_backend_index cr) = Some c \<longrightarrow> map cfe_endpoint (cfb_endpoints cr) = bc_endpoints c"
  proof (intro ballI allI impI)
    fix cr c assume cr: "cr \<in> set crs" "nth_opt (sn_backends s) (cfb_backend_index cr) = Some c"
    then obtain r where r: "r \<in> set (hr_backend_refs rule)" "compile_http_fast_backend_ref s r = Some cr" using ref by auto
    show "map cfe_endpoint (cfb_endpoints cr) = bc_endpoints c"
      using cluster [OF assms(5) [rule_format, OF r(1)] r(2)] cr(2) by (metis option.inject)
  qed
  obtain now where now: "now = w_clock w (w_reads w)" by simp
  obtain target seen w1 where "fast_backend_loop lib s now target seen crs w1 = (Some sel, w')"
    using assms(8) by (auto simp: select_compiled_http_fast_backend_def instant_now_def now Let_def split: if_splits prod.splits)
  from fast_backend_loop_sound [OF this ends] obtain cr c where cr: "cr \<in> set crs"
    "nth_opt (sn_backends s) (cfb_backend_index cr) = Some c" "cfs_backend_name sel = cfb_backend_name cr"
    "cfs_endpoint sel \<in> set (eligible_endpoints lib s c (cfb_backend_name cr) now)" by auto
  from ref [OF cr(1)] obtain r where r: "r \<in> set (hr_backend_refs rule)" "br_weight r > 0"
    "compile_http_fast_backend_ref s r = Some cr" by auto
  obtain c' where c': "find_backend_cluster_index s r = Some (cfb_backend_index cr, c')"
    "nth_opt (sn_backends s) (cfb_backend_index cr) = Some c'"
    "cfb_backend_name cr = backend_name_for_index s (cfb_backend_index cr) c'" "br_weight r \<noteq> 0"
    using cluster [OF assms(5) [rule_format, OF r(1)] r(3)] by metis
  have "br_filters r = []"
    using assms(6) r(1,2) by (auto simp: http_rule_is_fast_path_selection_safe_def backend_ref_is_fast_path_eligible_def
        list_all_iff split: if_splits)
  moreover have "c' = c" using c'(2) cr(2) by simp
  ultimately show ?thesis
    unfolding servable_def using r(1) c' cr(3,4) now by (metis le_refl)
qed

section \<open>The compiled plan\<close>

definition fast_rule_of :: "Snapshot \<Rightarrow> HttpRoute \<Rightarrow> nat \<times> HttpRule \<Rightarrow> CompiledHttpFastRule option" where
  "fast_rule_of s route = (\<lambda>(i, rule).
     if \<not> http_rule_is_fast_path_selection_safe rule s then None
     else map_option (\<lambda>refs. \<lparr> cfu_rule_index = i, cfu_matches = compile_http_fast_matches rule,
            cfu_default_matched_http_path = default_http_path_match,
            cfu_runtime_ids = SelectedBackendRuntimeIds_default
              \<lparr> ri_route := http_route_runtime_id s (hroute_namespace route) (hroute_name route),
                ri_rule := http_rule_runtime_id s (hroute_namespace route) (hroute_name route) i \<rparr>,
            cfu_backend_refs = refs \<rparr>) (compile_http_fast_backend_refs rule s))"

definition fast_rules_of :: "Snapshot \<Rightarrow> HttpRoute \<Rightarrow> CompiledHttpFastRule list" where
  "fast_rules_of s route = List.map_filter (fast_rule_of s route) (enumerate 0 (hroute_rules route))"

definition fast_route_of :: "Snapshot \<Rightarrow> nat \<Rightarrow> HttpRoute \<Rightarrow> CompiledHttpFastRoute" where
  "fast_route_of s i route = \<lparr> cfo_route_index = i, cfo_route_name = hroute_name route,
     cfo_route_namespace = hroute_namespace route, cfo_route_annotations = hroute_annotations route,
     cfo_eligible_rules = fast_rules_of s route \<rparr>"

text \<open>A rule the fast path can leave out: it is compiled, or no reference of it has a weight.\<close>

definition rule_covered :: "Snapshot \<Rightarrow> HttpRule \<Rightarrow> bool" where
  "rule_covered s rule \<longleftrightarrow> http_rule_is_fast_path_selection_safe rule s
     \<and> (compile_http_fast_backend_refs rule s = None \<longrightarrow> \<not> http_rule_has_selectable_backend rule)"

lemma compile_rules_fold:
  "foldl (compile_http_fast_rule s route) (safe, rules) ps =
     (safe \<and> (\<forall>p \<in> set ps. rule_covered s (snd p)), rules @ List.map_filter (fast_rule_of s route) ps)"
proof (induction ps arbitrary: safe rules)
  case (Cons p ps)
  obtain i rule where "p = (i, rule)" by fastforce
  with Cons show ?case
    by (auto simp: compile_http_fast_rule_def fast_rule_of_def rule_covered_def List.map_filter_simps split: option.split)
qed (simp add: List.map_filter_simps)

lemma compile_route_step:
  "compile_http_fast_route s (safe, routes, idx) (i, route) =
     (safe \<and> (\<forall>rule \<in> set (hroute_rules route). rule_covered s rule),
      if fast_rules_of s route = [] then (routes, idx)
      else (routes @ [fast_route_of s i route], idx[i := Some (length routes)]))"
proof -
  have "(\<forall>p \<in> set (enumerate 0 (hroute_rules route)). rule_covered s (snd p)) \<longleftrightarrow> (\<forall>rule \<in> set (hroute_rules route). rule_covered s rule)"
    by (metis (no_types, lifting) imageE image_eqI set_map map_snd_enumerate)
  then show ?thesis
    by (simp add: compile_http_fast_route_def compile_rules_fold fast_rules_of_def [symmetric] fast_route_of_def)
qed

definition planned :: "HttpFastPathPlan \<Rightarrow> nat \<Rightarrow> CompiledHttpFastRoute option" where
  "planned plan i = Option.bind (Option.bind (nth_opt (hfp_route_plan_indices plan) i) (\<lambda>j. j)) (nth_opt (hfp_routes plan))"

definition plan_describes ::
    "Snapshot \<Rightarrow> HttpRoute list \<Rightarrow> nat \<Rightarrow> bool \<times> CompiledHttpFastRoute list \<times> nat option list \<Rightarrow> bool" where
  "plan_describes s rs n = (\<lambda>(safe, routes, idx). length idx = n
     \<and> safe = (\<forall>route \<in> set rs. \<forall>rule \<in> set (hroute_rules route). rule_covered s rule)
     \<and> (\<forall>i < length rs. Option.bind (idx ! i) (nth_opt routes) =
          (if fast_rules_of s (rs ! i) = [] then None else Some (fast_route_of s i (rs ! i))))
     \<and> (\<forall>i < n. length rs \<le> i \<longrightarrow> idx ! i = None)
     \<and> (\<forall>i < n. \<forall>j. idx ! i = Some j \<longrightarrow> j < length routes))"

lemma plan_describes_step:
  assumes "plan_describes s rs n st" and "length rs < n"
  shows "plan_describes s (rs @ [r]) n (compile_http_fast_route s st (length rs, r))"
proof -
  obtain safe routes idx where st: "st = (safe, routes, idx)" by (rule prod_cases3)
  note d = assms(1) [unfolded plan_describes_def st prod.case]
  have len: "length idx = n" using d by simp
  have old: "Option.bind (idx ! i) (nth_opt routes) =
      (if fast_rules_of s (rs ! i) = [] then None else Some (fast_route_of s i (rs ! i)))" if "i < length rs" for i
    using d that by blast
  have free: "idx ! i = None" if "i < n" "length rs \<le> i" for i using d that by blast
  have bound: "j < length routes" if "idx ! i = Some j" "i < n" for i j using d that by blast
  have keep: "Option.bind (idx ! i) (nth_opt (routes @ xs)) = Option.bind (idx ! i) (nth_opt routes)" if "i < n" for i xs
  proof (cases "idx ! i")
    case (Some j)
    then show ?thesis using bound [OF Some that] by (simp add: nth_opt_def nth_append)
  qed simp
  show ?thesis
  proof (cases "fast_rules_of s r = []")
    case True
    then show ?thesis using d assms(2) free [of "length rs"]
      by (auto simp: plan_describes_def st compile_route_step nth_append less_Suc_eq)
  next
    case False
    have "Option.bind ((idx[length rs := Some (length routes)]) ! i) (nth_opt (routes @ [fast_route_of s (length rs) r])) =
        (if fast_rules_of s ((rs @ [r]) ! i) = [] then None else Some (fast_route_of s i ((rs @ [r]) ! i)))"
      if "i < Suc (length rs)" for i
      using that assms(2) len False old [of i] keep [of i] by (cases "i = length rs") (simp_all add: nth_append nth_opt_def)
    moreover have "j < Suc (length routes)" if "idx[length rs := Some (length routes)] ! i = Some j" "i < n" for i j
      using that bound [of i j] len by (cases "i = length rs") simp_all
    moreover have "idx[length rs := Some (length routes)] ! i = None" if "i < n" "Suc (length rs) \<le> i" for i
      using that free by simp
    ultimately show ?thesis using False len d by (auto simp: plan_describes_def st compile_route_step)
  qed
qed

lemma plan_describes_fold:
  "length rs \<le> n \<Longrightarrow>
   plan_describes s rs n (foldl (compile_http_fast_route s) (True, [], replicate n None) (enumerate 0 rs))"
proof (induction rs rule: rev_induct)
  case (snoc r rs)
  then show ?case using plan_describes_step [of s rs n _ r] by (simp add: enumerate_append_eq)
qed (simp add: plan_describes_def)

lemma built_plan:
  fixes s defines "plan \<equiv> http_fast_path_build s"
  shows "hfp_listeners plan = map (compile_http_fast_listener s) (sn_listeners s)"
    and "hfp_selection_safe plan \<longleftrightarrow> (\<forall>route \<in> set (sn_http_routes s). \<forall>rule \<in> set (hroute_rules route). rule_covered s rule)"
    and "i < length (sn_http_routes s) \<Longrightarrow> planned plan i =
      (if fast_rules_of s (sn_http_routes s ! i) = [] then None else Some (fast_route_of s i (sn_http_routes s ! i)))"
  using plan_describes_fold [of "sn_http_routes s" "length (sn_http_routes s)" s]
  by (auto simp: plan_def http_fast_path_build_def plan_describes_def planned_def nth_opt_def split: prod.splits)

section \<open>The same choice\<close>

definition fast_ready :: "Lib \<Rightarrow> Snapshot \<Rightarrow> bool" where
  "fast_ready lib s \<longleftrightarrow> runtime_indexed s \<and> distinct_names s \<and> names_indexed s \<and> namespaces_plain s
     \<and> (\<forall>route \<in> set (sn_http_routes s). \<forall>rule \<in> set (hroute_rules route). \<forall>m \<in> set (hr_matches rule). regex_compiled lib m)"

definition matched_name :: "MatchedListener option \<Rightarrow> string" where
  "matched_name m = (case m of None \<Rightarrow> [] | Some m \<Rightarrow> ls_name (ml_listener m))"

definition matched_protocol :: "MatchedListener option \<Rightarrow> string" where
  "matched_protocol m = (case m of None \<Rightarrow> [] | Some m \<Rightarrow> ls_protocol (ml_listener m))"

definition agree :: "Lib \<Rightarrow> Snapshot \<Rightarrow> World \<Rightarrow> FastCandidate \<Rightarrow> HttpEntry \<Rightarrow> bool" where
  "agree lib s w k e \<longleftrightarrow> fk_route_name k = hroute_name (he_route e) \<and> fk_route_namespace k = hroute_namespace (he_route e)
     \<and> fk_route_annotations k = hroute_annotations (he_route e) \<and> fk_rule_index k = he_rule_index e
     \<and> fk_listener_name k = matched_name (he_listener_match e) \<and> fk_listener_protocol k = matched_protocol (he_listener_match e)
     \<and> fk_matched_http_path k = he_path e \<and> fk_score k = fast_score (he_score e) \<and> plain_rule (hcs_rule (he_score e))
     \<and> servable lib s (hr_backend_refs (he_rule e)) w (cfs_backend_name (fk_selected k)) (cfs_endpoint (fk_selected k)) []"

definition agree_state :: "Lib \<Rightarrow> Snapshot \<Rightarrow> World \<Rightarrow> FastCandidate option \<times> World \<Rightarrow> HttpEntry option \<Rightarrow> bool" where
  "agree_state lib s w st b \<longleftrightarrow> rel_option (agree lib s w) (fst st) b \<and> same_clock w (snd st)"

lemma compiled_rule_matches:
  assumes "fast_rule_of s route (i, rule) = Some cr"
  shows "cfu_matches cr = compile_http_fast_matches rule" and "cfu_default_matched_http_path cr = default_http_path_match"
    and "cfu_rule_index cr = i" and "http_rule_is_fast_path_selection_safe rule s"
    and "compile_http_fast_backend_refs rule s = Some (cfu_backend_refs cr)"
  using assms by (auto simp: fast_rule_of_def split: if_splits)

lemma compiled_rule_answers:
  "compile_http_fast_backend_refs rule s = Some crs \<Longrightarrow> rule_answers rule"
proof -
  assume "compile_http_fast_backend_refs rule s = Some crs"
  then have "filter (\<lambda>r. br_weight r > 0) (hr_backend_refs rule) \<noteq> []"
    by (auto simp: compile_http_fast_backend_refs_def)
  then show ?thesis by (auto simp: rule_answers_def list_ex_iff filter_empty_conv word_gt_0)
qed

lemma uncovered_silent:
  assumes "rule_covered s rule" and "fast_rule_of s route (i, rule) = None"
  shows "http_rule_entry lib rq route lm rh (i, rule) = None"
proof -
  have "\<not> rule_answers rule"
    using assms by (auto simp: rule_covered_def fast_rule_of_def rule_answers_def http_rule_has_selectable_backend_def
        http_rule_is_fast_path_selection_safe_def has_non_backend_http_filter_def list_ex_iff word_gt_0 split: if_splits)
  then show ?thesis by (auto simp: http_rule_entry_def split: option.split)
qed

text \<open>The listener of a matched listener, in the snapshot and in the plan.\<close>

definition listener_known :: "Snapshot \<Rightarrow> MatchedListener option \<Rightarrow> bool" where
  "listener_known s lm \<longleftrightarrow> (\<forall>m. lm = Some m \<longrightarrow> nth_opt (sn_listeners s) (ml_listener_index m) = Some (ml_listener m))"

lemma route_listener_known:
  assumes "runtime_indexed s"
  shows "listener_known s (route_listener_match s (matched_listeners s host port kind) ns n)"
proof -
  have "m \<in> set (cl_listeners (matched_listeners s host port kind))"
    if "route_listener_match s (matched_listeners s host port kind) ns n = Some m" for m
    using that max_by_SomeD(1) by (fastforce simp: route_listener_match_def split: if_splits)
  then show ?thesis using matched_listener_in_table [OF assms] by (auto simp: listener_known_def nth_opt_def)
qed

lemma agree_compare:
  assumes "rel_option (agree lib s w) k b" and "plain_rule (hcs_rule sc)"
  shows "(case k of None \<Rightarrow> False | Some k \<Rightarrow> fast_score sc \<le> fk_score k) = (case b of None \<Rightarrow> False | Some e \<Rightarrow> sc \<le> he_score e)"
  using assms by (cases k; cases b) (auto simp: agree_def fast_score_order)

lemma fast_listener_slot:
  assumes "listener_known s lm" and "hfp_listeners plan = map (compile_http_fast_listener s) (sn_listeners s)"
  shows "map_option (\<lambda>item. nth_opt (hfp_listeners plan) (fm_listener_index item)) (map_option fast_listener lm) =
    map_option (\<lambda>m. Some (compile_http_fast_listener s (ml_listener m))) lm"
  using assms by (cases lm) (auto simp: listener_known_def fast_listener_def nth_opt_def split: if_splits)

lemma fast_rule_step:
  assumes ready: "fast_ready lib s" and mem: "route \<in> set (sn_http_routes s)" "rule \<in> set (hroute_rules route)"
    and req: "same_request fq rq" and cr: "fast_rule_of s route (i, rule) = Some cr" and lm: "listener_known s lm"
    and plan: "hfp_listeners plan = map (compile_http_fast_listener s) (sn_listeners s)"
    and st: "agree_state lib s w0 st b"
    and go: "consider_fast_rule lib plan s (request_path_without_query (fq_path fq)) (fq_method fq) (fast_route_of s j route)
      (map_option fast_listener lm) (fast_host rh) cr st = (True, st')"
  shows "agree_state lib s w0 st' (foldl (keep_better he_score) b (List.map_filter (http_rule_entry lib rq route lm rh) [(i, rule)]))"
proof -
  obtain best w where bw: "st = (best, w)" by fastforce
  have el: "list_all http_match_is_fast_path_eligible (hr_matches rule)"
    using compiled_rule_matches(4) [OF cr] by (simp add: http_rule_is_fast_path_selection_safe_def)
  have rx: "\<forall>m \<in> set (hr_matches rule). regex_compiled lib m" using ready mem by (auto simp: fast_ready_def)
  note match = fast_rule_match_eq [OF req rx el compiled_rule_matches(1,2) [OF cr]]
  show ?thesis
  proof (cases "best_http_rule_match lib rule rq")
    case None
    then show ?thesis using go st match by (simp add: bw consider_fast_rule_def http_rule_entry_def List.map_filter_simps)
  next
    case (Some psc)
    obtain path sc where psc: "psc = (path, sc)" by fastforce
    define score where "score = HttpCandidateScore (listener_host_score lm) rh sc"
    define e where "e = \<lparr> he_route = route, he_rule_index = i, he_rule = rule, he_listener_match = lm, he_path = path, he_score = score \<rparr>"
    have entry: "List.map_filter (http_rule_entry lib rq route lm rh) [(i, rule)] = [e]"
      using Some psc compiled_rule_answers [OF compiled_rule_matches(5) [OF cr]]
      by (simp add: http_rule_entry_def List.map_filter_simps e_def score_def)
    have plain: "plain_rule (hcs_rule score)" using best_rule_plain [OF el] Some psc by (simp add: score_def)
    have fast: "FastCandidateScore (case map_option fast_listener lm of None \<Rightarrow> FastHostnameScore_default | Some item \<Rightarrow> fm_host_score item)
        (fast_host rh) (fast_rule sc) = fast_score score"
      by (simp add: score_def listener_host_score_def fast_listener_def HostnameScore_default_def FastHostnameScore_default_def
          split: option.split)
    have cmp: "(case best of None \<Rightarrow> False | Some k \<Rightarrow> fast_score score \<le> fk_score k) = (case b of None \<Rightarrow> False | Some e \<Rightarrow> score \<le> he_score e)"
      using st plain agree_compare by (auto simp: agree_state_def bw)
    note run = go [unfolded bw consider_fast_rule_def prod.case match Some psc option.map map_prod_simp id_apply option.case Let_def fast
        fast_listener_slot [OF lm plan] cmp]
    show ?thesis
    proof (cases "case b of None \<Rightarrow> False | Some e \<Rightarrow> score \<le> he_score e")
      case True
      then have "keep_better he_score b e = b" by (auto simp: keep_better_def e_def split: option.splits)
      then show ?thesis using run st True unfolding entry by (simp add: bw)
    next
      case False
      then obtain sel w' where sel: "select_compiled_http_fast_backend lib s (cfu_backend_refs cr) w = (Some sel, w')"
        "st' = (Some (fast_candidate (fast_route_of s j route) cr (map_option (\<lambda>m. compile_http_fast_listener s (ml_listener m)) lm) path sel
          (fast_score score)), w')"
        using run by (cases lm) (auto split: if_splits option.splits prod.splits)
      have c: "same_clock w0 w" "same_clock w w'"
        using st sel(1) fast_select_clock [of w lib s "cfu_backend_refs cr"] by (simp_all add: agree_state_def bw)
      have "servable lib s (hr_backend_refs rule) w (cfs_backend_name sel) (cfs_endpoint sel) []"
        using ready mem by (intro fast_select_servable [OF _ _ _ _ _ compiled_rule_matches(4,5) [OF cr] sel(1)])
          (auto simp: fast_ready_def namespaces_plain_def)
      moreover have "keep_better he_score b e = Some e"
        using False by (cases b) (simp_all add: keep_better_def e_def)
      ultimately show ?thesis
        using plain compiled_rule_matches(3) [OF cr] servable_mono [OF c(1)] same_clock_trans [OF c] unfolding entry
        by (cases lm) (simp_all add: e_def agree_state_def sel(2) agree_def fast_candidate_def fast_route_of_def
            matched_name_def matched_protocol_def compile_http_fast_listener_def)
    qed
  qed
qed

lemma visit_map_filter:
  assumes "\<And>p st st' b. p \<in> set ps \<Longrightarrow> R st b \<Longrightarrow>
      (case f p of None \<Rightarrow> (True, st) | Some c \<Rightarrow> v c st) = (True, st') \<Longrightarrow> R st' (foldl g b (List.map_filter h [p]))"
    and "R st b" and "visit_while v (List.map_filter f ps) st = (True, st')"
  shows "R st' (foldl g b (List.map_filter h ps))"
  using assms
proof (induction ps arbitrary: st b)
  case (Cons p ps)
  have cons: "List.map_filter h (p # ps) = List.map_filter h [p] @ List.map_filter h ps"
    by (simp add: List.map_filter_simps split: option.split)
  obtain st1 where st1: "(case f p of None \<Rightarrow> (True, st) | Some c \<Rightarrow> v c st) = (True, st1)"
    "visit_while v (List.map_filter f ps) st1 = (True, st')"
    using Cons.prems(3) by (auto simp: List.map_filter_simps split: option.splits prod.splits if_splits)
  have "R st1 (foldl g b (List.map_filter h [p]))" using Cons.prems(1) [OF _ Cons.prems(2) st1(1)] by simp
  from Cons.IH [OF Cons.prems(1) this st1(2)] show ?case unfolding cons by simp
qed (simp add: List.map_filter_simps)

lemma consider_fast_route_eq:
  fixes s rq route
  defines "ls \<equiv> matched_listeners s (rq_host rq) (rq_port rq) KindHttp"
  defines "lm \<equiv> route_listener_match s ls (hroute_namespace route) (hroute_name route)"
  assumes ri: "runtime_indexed s" and i: "i < length (sn_http_routes s)" "route = sn_http_routes s ! i"
  shows "consider_fast_route lib plan s (rq_host rq) path method (fast_matched_listeners s (rq_host rq) (rq_port rq))
      (fast_route_of s i route) st =
    (if cl_enforce_attachments ls \<and> lm = None then (True, st)
     else case best_hostname_score (hroute_hostnames route) (rq_host rq) of
       None \<Rightarrow> (True, st)
     | Some rh \<Rightarrow> visit_while (consider_fast_rule lib plan s path method (fast_route_of s i route) (map_option fast_listener lm)
         (fast_host rh)) (fast_rules_of s route) st)"
proof -
  have known: "listener_known s lm" unfolding lm_def ls_def by (rule route_listener_known [OF ri])
  have fl: "fast_route_listener_match s (fast_matched_listeners s (rq_host rq) (rq_port rq)) (hroute_namespace route) (hroute_name route) =
      map_option fast_listener lm" unfolding lm_def ls_def by (rule fast_route_listener_eq [OF ri])
  have slot: "(map_option (\<lambda>item. nth_opt (sn_listeners s) (fm_listener_index item)) (map_option fast_listener lm) = Some None) = False"
    using known by (cases lm) (auto simp: listener_known_def fast_listener_def)
  have nth: "nth_opt (sn_http_routes s) (cfo_route_index (fast_route_of s i route)) = Some route"
    using i by (simp add: fast_route_of_def nth_opt_def)
  have rules: "cfo_eligible_rules (fast_route_of s i route) = fast_rules_of s route" by (simp add: fast_route_of_def)
  have accepts: "(case x of None \<Rightarrow> False | Some l \<Rightarrow> \<not> route_accepts_service_frontend s (hroute_parent_refs route) (hroute_namespace route) l) = False" for x
    by (simp split: option.split)
  show ?thesis
    unfolding consider_fast_route_def nth option.case Let_def fl slot accepts if_False rules fast_best_hostname_eq
      fast_listeners_eq(2) [OF ri] ls_def [symmetric]
    by (simp split: option.split)
qed

lemma fast_route_step:
  assumes ready: "fast_ready lib s" and i: "i < length (sn_http_routes s)" "route = sn_http_routes s ! i"
    and cov: "\<forall>rule \<in> set (hroute_rules route). rule_covered s rule"
    and req: "same_request fq rq" and plan: "hfp_listeners plan = map (compile_http_fast_listener s) (sn_listeners s)"
    and st: "agree_state lib s w0 st b"
    and go: "consider_fast_route lib plan s (rq_host rq) (request_path_without_query (fq_path fq)) (fq_method fq)
      (fast_matched_listeners s (rq_host rq) (rq_port rq)) (fast_route_of s i route) st = (True, st')"
  shows "agree_state lib s w0 st' (foldl (keep_better he_score) b
    (http_route_entries lib s rq (matched_listeners s (rq_host rq) (rq_port rq) KindHttp) route))"
proof -
  let ?ls = "matched_listeners s (rq_host rq) (rq_port rq) KindHttp"
  define lm where "lm = route_listener_match s ?ls (hroute_namespace route) (hroute_name route)"
  have ri: "runtime_indexed s" using ready by (simp add: fast_ready_def)
  have known: "listener_known s lm" unfolding lm_def by (rule route_listener_known [OF ri])
  note run = go [unfolded consider_fast_route_eq [OF ri i] lm_def [symmetric]]
  show ?thesis
  proof (cases "cl_enforce_attachments ?ls \<and> lm = None \<or> best_hostname_score (hroute_hostnames route) (rq_host rq) = None")
    case True
    then have "http_route_entries lib s rq ?ls route = []" by (auto simp: http_route_entries_def lm_def Let_def)
    moreover have "st' = st" using True run by (auto split: if_splits)
    ultimately show ?thesis using st by simp
  next
    case False
    then obtain rh where rh: "best_hostname_score (hroute_hostnames route) (rq_host rq) = Some rh" by auto
    have entries: "http_route_entries lib s rq ?ls route =
        List.map_filter (http_rule_entry lib rq route lm rh) (enumerate 0 (hroute_rules route))"
      using False rh by (auto simp: http_route_entries_def lm_def [symmetric] Let_def split: option.split)
    have visit: "visit_while (consider_fast_rule lib plan s (request_path_without_query (fq_path fq)) (fq_method fq)
        (fast_route_of s i route) (map_option fast_listener lm) (fast_host rh))
        (List.map_filter (fast_rule_of s route) (enumerate 0 (hroute_rules route))) st = (True, st')"
      using run False rh by (auto simp: fast_rules_of_def split: if_splits)
    show ?thesis unfolding entries
    proof (rule visit_map_filter [where R = "agree_state lib s w0", OF _ st visit])
      fix p st st' b
      assume p: "p \<in> set (enumerate 0 (hroute_rules route))" and st: "agree_state lib s w0 st b"
        and go: "(case fast_rule_of s route p of None \<Rightarrow> (True, st) | Some c \<Rightarrow> consider_fast_rule lib plan s
          (request_path_without_query (fq_path fq)) (fq_method fq) (fast_route_of s i route) (map_option fast_listener lm) (fast_host rh) c st) =
          (True, st')"
      obtain j rule where jr: "p = (j, rule)" by fastforce
      have rule: "rule \<in> set (hroute_rules route)" using p jr by (auto simp: in_set_enumerate_eq)
      show "agree_state lib s w0 st' (foldl (keep_better he_score) b (List.map_filter (http_rule_entry lib rq route lm rh) [p]))"
      proof (cases "fast_rule_of s route (j, rule)")
        case None
        then have "List.map_filter (http_rule_entry lib rq route lm rh) [p] = []"
          using uncovered_silent [of s rule route j] cov rule jr by (simp add: List.map_filter_simps)
        then show ?thesis using go None jr st by simp
      next
        case (Some cr)
        have "route \<in> set (sn_http_routes s)" using i by simp
        from fast_rule_step [OF ready this rule req Some known plan st] go Some show ?thesis by (simp add: jr)
      qed
    qed
  qed
qed

text \<open>A route the plan leaves out has no entry.\<close>

lemma unplanned_silent:
  assumes "fast_rules_of s route = []" and "\<forall>rule \<in> set (hroute_rules route). rule_covered s rule"
  shows "http_route_entries lib s rq ls route = []"
proof -
  have none: "fast_rule_of s route p = None" if "p \<in> set (enumerate 0 (hroute_rules route))" for p
    using assms(1) that by (auto simp: fast_rules_of_def map_filter_def filter_empty_conv)
  have "http_rule_entry lib rq route lm rh p = None" if "p \<in> set (enumerate 0 (hroute_rules route))" for lm rh p
  proof -
    have "snd p \<in> set (hroute_rules route)" using that nth_mem by (fastforce simp: in_set_enumerate_eq)
    then show ?thesis using uncovered_silent [of s "snd p" route "fst p"] none [OF that] assms(2) by simp
  qed
  then have "List.map_filter (http_rule_entry lib rq route lm rh) (enumerate 0 (hroute_rules route)) = []" for lm rh
    by (auto simp: map_filter_def filter_empty_conv)
  then show ?thesis by (auto simp: http_route_entries_def Let_def split: option.split)
qed

lemma visit_completed:
  "snd (visit_while (\<lambda>i (completed, s). case f i of None \<Rightarrow> (True, completed, s)
      | Some c \<Rightarrow> (case v c s of (go, s) \<Rightarrow> (go, go, s))) xs (True, s)) =
   visit_while (\<lambda>i s. case f i of None \<Rightarrow> (True, s) | Some c \<Rightarrow> v c s) xs s"
  by (induction xs arbitrary: s) (auto split: option.split prod.split)

lemma planned_case:
  "(case Option.bind (nth_opt (hfp_route_plan_indices plan) i) (\<lambda>i. i) of None \<Rightarrow> a
    | Some j \<Rightarrow> (case nth_opt (hfp_routes plan) j of None \<Rightarrow> a | Some c \<Rightarrow> g c)) =
   (case planned plan i of None \<Rightarrow> a | Some c \<Rightarrow> g c)"
  by (cases "nth_opt (hfp_route_plan_indices plan) i") (simp_all add: planned_def split: option.split)

lemma planned_outside: "length (hfp_route_plan_indices plan) \<le> i \<Longrightarrow> planned plan i = None"
  by (simp add: planned_def nth_opt_def)

text \<open>The index offers the compiled routes in the order of the routes.\<close>

lemma visit_candidate_routes_eq:
  fixes s plan host v
  defines "step \<equiv> \<lambda>i st. case planned plan i of None \<Rightarrow> (True, st) | Some cr \<Rightarrow> v cr st"
  assumes "runtime_indexed s" and "length (hfp_route_plan_indices plan) = length (sn_http_routes s)"
    and "\<And>i st. i < length (sn_http_routes s) \<Longrightarrow>
      best_hostname_score (hroute_hostnames (sn_http_routes s ! i)) host = None \<Longrightarrow> step i st = (True, st)"
  shows "visit_candidate_routes plan s host v st = visit_while step [0..<length (sn_http_routes s)] st"
proof -
  let ?rs = "enumerate 0 (sn_http_routes s)"
  let ?idx = "build_hostname_route_index (map hroute_hostnames (sn_http_routes s))"
  have names: "map (hroute_hostnames \<circ> snd) ?rs = map hroute_hostnames (sn_http_routes s)"
    by (metis map_map map_snd_enumerate)
  have outside: "step i st = (True, st)" if "length (sn_http_routes s) \<le> i" for i st
    using that assms(3) by (simp add: step_def planned_outside)
  have "visit_candidate_routes plan s host v st = visit_candidate_indices ?idx host step st"
    using assms(2) visit_completed [where f = "planned plan" and v = v]
    by (simp add: visit_candidate_routes_def runtime_indexed_def build_http_route_hostname_index_def planned_case
        visit_candidate_indices_list [OF build_index_sorted] step_def)
  also have "\<dots> = visit_hostname_route_candidates ?rs (build_hostname_route_index (map (hroute_hostnames \<circ> snd) ?rs)) host True
      (\<lambda>(i, r). step i) st"
  proof -
    have "(\<lambda>i st. case nth_opt ?rs i of None \<Rightarrow> (True, st) | Some r \<Rightarrow> (\<lambda>(i, r). step i) r st) = step"
      using outside by (auto simp: fun_eq_iff nth_opt_def nth_enumerate_eq)
    then show ?thesis unfolding names by (simp add: visit_hostname_route_candidates_def visit_hostname_route_candidate_indices_def)
  qed
  also have "\<dots> = visit_while (\<lambda>(i, r). step i) ?rs st"
  proof (rule hostname_index.visit_eq_scan)
    fix r st assume "r \<in> set ?rs" "\<not> best_hostname_score ((hroute_hostnames \<circ> snd) r) host \<noteq> None"
    moreover obtain i route where "r = (i, route)" by fastforce
    ultimately show "(\<lambda>(i, r). step i) r st = (True, st)" using assms(4) by (auto simp: in_set_enumerate_eq)
  qed
  also have "\<dots> = visit_while step [0..<length (sn_http_routes s)] st"
    using visit_while_map [of step fst ?rs st] by (simp add: map_fst_enumerate case_prod_beta')
  finally show ?thesis .
qed

text \<open>A resolution with a candidate has a backend and no error.\<close>

lemma resolve_with_candidate:
  assumes "clusters_fit s" and "weights_fit refs" and "candidates lib s now refs \<noteq> []"
  shows "hb_selected (fst (resolve_http_backend_refs_with_session lib s refs session rq resolver w)) \<noteq> None
    \<and> hb_error (fst (resolve_http_backend_refs_with_session lib s refs session rq resolver w)) = None"
proof (cases rule: resolve_cases [of lib s refs session rq resolver w])
  case (weighted w')
  then show ?thesis using weighted_result [OF assms, where w = w' and route_session = session and request = rq] by auto
qed simp

lemma fast_visit_agrees:
  fixes s fq rq lib
  defines "plan \<equiv> http_fast_path_build s"
  defines "v \<equiv> consider_fast_route lib plan s (rq_host rq) (request_path_without_query (fq_path fq)) (fq_method fq)
      (fast_matched_listeners s (rq_host rq) (rq_port rq))"
  assumes ready: "fast_ready lib s" and safe: "hfp_selection_safe plan" and req: "same_request fq rq"
    and go: "visit_candidate_routes plan s (rq_host rq) v (None, w) = (True, best, w')"
  shows "rel_option (agree lib s w) best (first_max he_score (http_entries lib s rq))"
proof -
  let ?rs = "sn_http_routes s"
  let ?step = "\<lambda>i st. case planned plan i of None \<Rightarrow> (True, st) | Some cr \<Rightarrow> v cr st"
  let ?entries = "http_route_entries lib s rq (matched_listeners s (rq_host rq) (rq_port rq) KindHttp)"
  have cov: "\<forall>rule \<in> set (hroute_rules (?rs ! i)). rule_covered s rule" if "i < length ?rs" for i
    using safe that by (auto simp: plan_def built_plan(2))
  have plan: "planned plan i = (if fast_rules_of s (?rs ! i) = [] then None else Some (fast_route_of s i (?rs ! i)))"
    if "i < length ?rs" for i unfolding plan_def by (rule built_plan(3) [OF that])
  have skip: "?step i st = (True, st)" if "i < length ?rs" "best_hostname_score (hroute_hostnames (?rs ! i)) (rq_host rq) = None" for i st
    using that plan [OF that(1)] ready
    by (simp add: v_def fast_ready_def consider_fast_route_eq [OF _ that(1) refl])
  have len: "length (hfp_route_plan_indices plan) = length ?rs"
    using plan_describes_fold [of ?rs "length ?rs" s]
    by (auto simp: plan_def http_fast_path_build_def plan_describes_def split: prod.splits)
  have visit: "visit_while ?step [0..<length ?rs] (None, w) = (True, best, w')"
    using visit_candidate_routes_eq [OF _ len skip] ready go by (simp add: fast_ready_def)
  have run: "agree_state lib s w st' (foldl (keep_better he_score) b (concat (map (\<lambda>i. ?entries (?rs ! i)) is)))"
    if "agree_state lib s w st b" "visit_while ?step is st = (True, st')" "\<forall>i \<in> set is. i < length ?rs" for st st' b "is"
    using that
  proof (induction "is" arbitrary: st b)
    case (Cons i "is")
    obtain st1 where st1: "?step i st = (True, st1)" "visit_while ?step is st1 = (True, st')"
      using Cons.prems(2) by (auto split: prod.splits if_splits)
    have i: "i < length ?rs" using Cons.prems(3) by simp
    have "agree_state lib s w st1 (foldl (keep_better he_score) b (?entries (?rs ! i)))"
    proof (cases "fast_rules_of s (?rs ! i) = []")
      case True
      then have "?entries (?rs ! i) = []" by (rule unplanned_silent [OF _ cov [OF i]])
      then show ?thesis using True st1(1) plan [OF i] Cons.prems(1) by simp
    next
      case False
      then have "v (fast_route_of s i (?rs ! i)) st = (True, st1)" using st1(1) plan [OF i] by simp
      then show ?thesis
        using fast_route_step [OF ready i refl cov [OF i] req built_plan(1) Cons.prems(1), of st1]
        by (simp add: v_def plan_def)
    qed
    from Cons.IH [OF this st1(2)] Cons.prems(3) show ?case by simp
  qed simp
  have "agree_state lib s w (None, w) None" by (simp add: agree_state_def)
  moreover have "map (\<lambda>i. ?entries (?rs ! i)) [0..<length ?rs] = map ?entries ?rs" by (rule nth_equalityI) simp_all
  ultimately show ?thesis
    using run [OF _ visit] by (simp add: agree_state_def foldl_keep_better http_entries_def)
qed

lemma entry_rule:
  assumes "e \<in> set (http_entries lib s rq)"
  shows "\<exists>route \<in> set (sn_http_routes s). he_rule e \<in> set (hroute_rules route)"
proof -
  obtain route where route: "route \<in> set (sn_http_routes s)"
    "e \<in> set (http_route_entries lib s rq (matched_listeners s (rq_host rq) (rq_port rq) KindHttp) route)"
    using assms by (auto simp: http_entries_def)
  obtain p lm rh where p: "p \<in> set (enumerate 0 (hroute_rules route))" "http_rule_entry lib rq route lm rh p = Some e"
    using route(2) by (auto simp: http_route_entries_def Let_def set_map_filter split: if_splits option.splits)
  then have "he_rule e = snd p" by (auto simp: http_rule_entry_def split: prod.splits option.splits if_splits)
  moreover have "snd p \<in> set (hroute_rules route)" using p(1) nth_mem by (fastforce simp: in_set_enumerate_eq)
  ultimately show ?thesis using route(1) by auto
qed

lemma fast_path_agrees:
  assumes ready: "fast_ready lib s" and fits: "http_fits s" and plan: "sn_http_fast_path s = http_fast_path_build s"
    and req: "same_request fq rq" and sel: "fst (select_http_fast_path lib s fq w) = Some c"
  shows "\<exists>r. fst (select_http_route lib s rq resolver w2) = Some r
    \<and> sh_route_name r = cs_route_name c \<and> sh_route_namespace r = cs_route_namespace c
    \<and> sh_rule_index r = cs_rule_index c \<and> sh_route_annotations r = cs_route_annotations c
    \<and> sh_listener_name r = cs_listener_name c \<and> sh_listener_protocol r = cs_listener_protocol c
    \<and> sh_matched_http_path r = cs_matched_http_path c
    \<and> sh_backend r \<noteq> None \<and> sh_backend_error r = None"
    and "\<exists>e. first_max he_score (http_entries lib s rq) = Some e
      \<and> servable lib s (hr_backend_refs (he_rule e)) w (cs_backend_name c) (cs_backend c) []"
proof -
  let ?plan = "http_fast_path_build s"
  have host: "map_option normalize_host_ref (fq_host fq) = rq_host rq" "fq_port fq = rq_port rq"
    using req by (simp_all add: same_request_def)
  obtain completed best w' where v: "visit_candidate_routes ?plan s (rq_host rq) (consider_fast_route lib ?plan s (rq_host rq)
      (request_path_without_query (fq_path fq)) (fq_method fq) (fast_matched_listeners s (rq_host rq) (rq_port rq))) (None, w) =
      (completed, best, w')" by (rule prod_cases3)
  have "hfp_selection_safe ?plan" "completed" "map_option compiled_selection best = Some c"
    using sel v by (auto simp: select_http_fast_path_def http_fast_path_select_def plan host Let_def split: if_splits)
  moreover from this obtain k where k: "best = Some k" "c = compiled_selection k" by auto
  ultimately have "rel_option (agree lib s w) (Some k) (first_max he_score (http_entries lib s rq))"
    using fast_visit_agrees [OF ready _ req] v by simp
  then obtain e where e: "first_max he_score (http_entries lib s rq) = Some e" "agree lib s w k e"
    by (cases "first_max he_score (http_entries lib s rq)") auto
  then have serv: "servable lib s (hr_backend_refs (he_rule e)) w (cs_backend_name c) (cs_backend c) []"
    by (simp add: agree_def k compiled_selection_def)
  show "\<exists>e. first_max he_score (http_entries lib s rq) = Some e
      \<and> servable lib s (hr_backend_refs (he_rule e)) w (cs_backend_name c) (cs_backend c) []"
    by (intro exI conjI) (rule e(1), rule serv)
  have "e \<in> set (http_entries lib s rq)" using first_maxD(1) [OF e(1)] .
  then have "weights_fit (hr_backend_refs (he_rule e))"
    using fits entry_rule [of e lib s rq] by (auto simp: http_fits_def refs_fit_def)
  then have res: "hb_selected (fst (resolve_http_backend_refs_with_session lib s (hr_backend_refs (he_rule e))
        (hr_session_persistence (he_rule e)) rq resolver w3)) \<noteq> None
      \<and> hb_error (fst (resolve_http_backend_refs_with_session lib s (hr_backend_refs (he_rule e))
        (hr_session_persistence (he_rule e)) rq resolver w3)) = None" for w3
    using servable_candidate [OF serv, of 0] fits by (intro resolve_with_candidate) (simp_all add: http_fits_def)
  have "http_hosts_indexed s" using ready
    by (simp add: fast_ready_def runtime_indexed_def http_hosts_indexed_def build_http_route_hostname_index_def)
  from select_http_route_entries [OF fits this, of lib rq resolver w2] e(1) obtain w3 where
    "fst (select_http_route lib s rq resolver w2) = Some (selected_http_route s (entry_candidate lib s rq resolver w3 e))" by auto
  then show "\<exists>r. fst (select_http_route lib s rq resolver w2) = Some r
    \<and> sh_route_name r = cs_route_name c \<and> sh_route_namespace r = cs_route_namespace c
    \<and> sh_rule_index r = cs_rule_index c \<and> sh_route_annotations r = cs_route_annotations c
    \<and> sh_listener_name r = cs_listener_name c \<and> sh_listener_protocol r = cs_listener_protocol c
    \<and> sh_matched_http_path r = cs_matched_http_path c \<and> sh_backend r \<noteq> None \<and> sh_backend_error r = None"
    using res e(2) by (simp add: selected_http_route_def entry_candidate_def Let_def agree_def k compiled_selection_def
        matched_name_def matched_protocol_def)
qed

section \<open>Rebuilt snapshots\<close>

text \<open>The plan does not look at the plans and at the flag that are set after it.\<close>

lemma plan_frame:
  "http_fast_path_build (s\<lparr> sn_http_fast_path := p, sn_stream_listener_route_index := x, sn_stream_fast_path := q,
     sn_runtime_indexes_ready := b \<rparr>) = http_fast_path_build s"
proof -
  let ?s = "s\<lparr> sn_http_fast_path := p, sn_stream_listener_route_index := x, sn_stream_fast_path := q, sn_runtime_indexes_ready := b \<rparr>"
  have "compile_http_fast_backend_ref ?s = compile_http_fast_backend_ref s"
    by (simp add: fun_eq_iff compile_http_fast_backend_ref_def endpoint_runtime_id_def backend_runtime_id_def Let_def
        split: option.split)
  moreover have "http_rule_is_fast_path_selection_safe rule ?s = http_rule_is_fast_path_selection_safe rule s" for rule
    by (simp add: http_rule_is_fast_path_selection_safe_def backend_ref_is_fast_path_eligible_def backend_policy_def)
  moreover from calculation have "compile_http_fast_backend_refs rule ?s = compile_http_fast_backend_refs rule s" for rule
    by (simp only: compile_http_fast_backend_refs_def)
  moreover have "http_route_runtime_id ?s = http_route_runtime_id s" "http_rule_runtime_id ?s = http_rule_runtime_id s"
    by (simp_all add: fun_eq_iff http_route_runtime_id_def http_rule_runtime_id_def)
  ultimately have "compile_http_fast_rule ?s r = compile_http_fast_rule s r" for r by (simp only: compile_http_fast_rule_def)
  then have "compile_http_fast_route ?s = compile_http_fast_route s" by (simp only: compile_http_fast_route_def)
  moreover have "compile_http_fast_listener ?s = compile_http_fast_listener s"
    by (simp add: fun_eq_iff compile_http_fast_listener_def listener_runtime_id_def)
  ultimately show ?thesis by (simp add: http_fast_path_build_def)
qed

lemma rebuild_plan: "sn_http_fast_path (rebuild_runtime_indexes lib s) = http_fast_path_build (rebuild_runtime_indexes lib s)"
  by (simp add: rebuild_runtime_indexes_def rebuild_plans_def Let_def plan_frame)

lemma rebuild_routes: "sn_http_routes (rebuild_runtime_indexes lib s) = sn_http_routes (compile_matchers lib s)"
  by (simp add: rebuild_runtime_indexes_def rebuild_route_indexes_def rebuild_runtime_ids_def rebuild_backend_indexes_def Let_def)

lemma rebuild_names_indexed: "names_indexed (rebuild_runtime_indexes lib s)"
  by (simp add: names_indexed_def rebuild_runtime_indexes_def rebuild_route_indexes_def rebuild_runtime_ids_def
      rebuild_backend_indexes_def Let_def)

lemma rebuild_fast_ready: "distinct_names s \<Longrightarrow> namespaces_plain s \<Longrightarrow> fast_ready lib (rebuild_runtime_indexes lib s)"
  by (auto simp: fast_ready_def rebuild_indexed rebuild_distinct rebuild_names_indexed namespaces_plain_def rebuild_tables
      rebuild_routes compile_matchers_def regex_compiled_def compile_http_match_def compile_regex_def)

lemma rebuild_fits: "http_fits (rebuild_runtime_indexes lib s) = http_fits s"
  by (simp add: http_fits_def clusters_fit_def rebuild_tables rebuild_routes compile_matchers_def refs_fit_def)

end
