(* ===== verification/Sample_Config.thy ===== *)
theory Sample_Config
  imports Fast_Path_Agreement
begin

text \<open>
  A small configuration that the properties are tried on: one HTTP listener on port 80 with the
  routes \<open>ns/shop\<close> (hostname \<open>shop.example\<close>, a rule for the prefix \<open>/api\<close> and one for everything) and
  \<open>ns/any\<close> (every host), and the services \<open>web\<close> with two endpoints and \<open>api\<close> with one.
\<close>

definition sample_lib :: Lib where
  "sample_lib = \<lparr> regex_new = (\<lambda>p. Some (\<lambda>v. v = p)), form_urlencoded_parse = (\<lambda>_. []),
     default_hash = (\<lambda>(b, a, p). ucast p + of_nat (length a)) \<rparr>"

definition sample_endpoint :: "string \<Rightarrow> BackendEndpoint" where
  "sample_endpoint a = \<lparr> ep_address = a, ep_port = 8080, ep_healthy = True \<rparr>"

definition sample_cluster :: "string \<Rightarrow> BackendEndpoint list \<Rightarrow> BackendCluster" where
  "sample_cluster name endpoints = \<lparr> bc_name = name, bc_namespace = ''ns'', bc_protocol = ''HTTP'',
     bc_endpoints = endpoints, bc_wasm_plugin = None, bc_ai_service = None, bc_token_policy = None,
     bc_circuit_breaker = None, bc_security_policy = None \<rparr>"

definition sample_ref :: "string \<Rightarrow> u32 \<Rightarrow> BackendRef" where
  "sample_ref name weight = BackendRef '''' ''Service'' ''ns'' name 80 weight [] []"

definition sample_match :: "string \<Rightarrow> HttpMatch" where
  "sample_match path = \<lparr> ht_path = path, ht_path_type = ''PathPrefix'', ht_method = [], ht_headers = [],
     ht_query_params = [], ht_compiled_path_regex = None \<rparr>"

definition sample_rule :: "string \<Rightarrow> BackendRef list \<Rightarrow> HttpRule" where
  "sample_rule path refs = \<lparr> hr_name = [], hr_matches = [sample_match path], hr_filters = [], hr_backend_refs = refs,
     hr_timeouts = None, hr_retry = None, hr_session_persistence = None \<rparr>"

definition sample_route :: "string \<Rightarrow> string list \<Rightarrow> HttpRule list \<Rightarrow> HttpRoute" where
  "sample_route name hostnames rules = \<lparr> hroute_name = name, hroute_namespace = ''ns'', hroute_hostnames = hostnames,
     hroute_parent_refs = [], hroute_rules = rules, hroute_labels = [], hroute_annotations = [] \<rparr>"

definition sample_listener :: Listener where
  "sample_listener = \<lparr> ls_name = ''web'', ls_address = ''0.0.0.0'', ls_addresses = [], ls_port = 80,
     ls_protocol = ''HTTP'', ls_hostnames = [], ls_attached_routes = [''ns/shop'', ''ns/any''], ls_tls = None,
     ls_backend_tls = None, ls_metadata = [] \<rparr>"

definition empty_snapshot :: Snapshot where
  "empty_snapshot = \<lparr> sn_id = [], sn_listeners = [], sn_http_routes = [], sn_grpc_routes = [], sn_stream_routes = [],
     sn_backends = [], sn_backend_policies = [], sn_secrets = [], sn_workloads = [],
     sn_endpoint_runtime = EndpointRuntimeStore_default, sn_runtime_ids = RuntimeIdIndex_default,
     sn_backend_names = [], sn_backend_index = Map.empty, sn_backend_service_index = BackendServiceIndex_empty,
     sn_secret_index = Map.empty, sn_workload_namespace_index = Map.empty, sn_runtime_indexes_ready = False,
     sn_listener_name_index = Map.empty, sn_http_listener_indices = [], sn_grpc_listener_indices = [],
     sn_http_listener_port_index = Map.empty, sn_grpc_listener_port_index = Map.empty,
     sn_frontend_client_certificate_index = Map.empty, sn_service_frontend_index = Map.empty,
     sn_service_frontend_listener_port_index = Map.empty, sn_service_frontend_attachment_index = Map.empty,
     sn_route_attachment_listener_index = from_listeners [], sn_http_route_hostname_index = HostnameRouteIndex_default,
     sn_grpc_route_hostname_index = HostnameRouteIndex_default, sn_stream_listener_route_index = Map.empty,
     sn_request_materialization = \<lparr> mh_http_route_headers = False, mh_grpc_route_headers = False,
       mh_session_headers = False, mh_backend_hash_headers = False, mh_source_ip = False \<rparr>,
     sn_http_fast_path = \<lparr> hfp_listeners = [], hfp_routes = [], hfp_route_plan_indices = [], hfp_selection_safe = False \<rparr>,
     sn_stream_fast_path = \<lparr> sfp_routes = [], sfp_route_count = 0, sfp_eligible_rule_count = 0,
       sfp_compiled_backend_ref_count = 0 \<rparr> \<rparr>"

definition sample_snapshot :: Snapshot where
  "sample_snapshot = empty_snapshot
     \<lparr> sn_listeners := [sample_listener],
       sn_http_routes := [sample_route ''shop'' [''shop.example'']
           [sample_rule ''/api'' [sample_ref ''api'' 1], sample_rule ''/'' [sample_ref ''web'' 3, sample_ref ''api'' 1]],
         sample_route ''any'' [] [sample_rule ''/'' [sample_ref ''web'' 1]]],
       sn_backends := [sample_cluster ''web:80'' [sample_endpoint ''10.0.0.1'', sample_endpoint ''10.0.0.2''],
         sample_cluster ''api:80'' [sample_endpoint ''10.0.0.3'']] \<rparr>"

definition sample_session :: SessionPersistence where
  "sample_session = \<lparr> sp_session_name = ''sid'', sp_session_type = ''Cookie'', sp_absolute_timeout = None,
     sp_idle_timeout = None, sp_cookie = None \<rparr>"

definition sample_world :: World where
  "sample_world = \<lparr> w_selection = \<lparr> ss_backend_cursor = 0, ss_endpoint_cursor = 0, ss_mirror_cursor = 0 \<rparr>,
     w_clock = (\<lambda>n. n), w_reads = 0 \<rparr>"

definition sample_request :: "string \<Rightarrow> string \<Rightarrow> RequestMeta" where
  "sample_request host path = RequestMeta_default\<lparr> rq_host := Some host, rq_port := 80, rq_path := path, rq_method := ''GET'' \<rparr>"

section \<open>A configuration for the fast path\<close>

definition fast_snapshot :: Snapshot where
  "fast_snapshot = empty_snapshot\<lparr> sn_http_routes := [sample_route ''any'' [] [sample_rule ''/'' [sample_ref ''web'' 1]]],
     sn_backends := [sample_cluster ''web:80'' [sample_endpoint ''10.0.0.1'']] \<rparr>"

definition fast_request :: HttpFastPathRequest where
  "fast_request = \<lparr> fq_host = Some ''shop.example'', fq_port = 80, fq_path = ''/x?q=1'', fq_method = ''GET'', fq_is_grpc = False \<rparr>"

definition fast_rebuilt :: Snapshot where
  "fast_rebuilt = rebuild_runtime_indexes sample_lib fast_snapshot"

lemmas sample_defs = sample_snapshot_def fast_snapshot_def empty_snapshot_def sample_listener_def sample_route_def
  sample_rule_def sample_ref_def sample_match_def sample_cluster_def sample_endpoint_def

lemma sample_weight [simp]: "br_weight (sample_ref n w) = w" by (simp add: sample_ref_def)

lemma show_u32_80: "show_u32 80 = ''80''" by code_simp

lemma fast_rebuilt_fields:
  "sn_http_routes fast_rebuilt = [sample_route ''any'' [] [sample_rule ''/'' [sample_ref ''web'' 1]]]"
  "sn_backends fast_rebuilt = [sample_cluster ''web:80'' [sample_endpoint ''10.0.0.1'']]"
  "sn_listeners fast_rebuilt = []" "sn_backend_policies fast_rebuilt = []"
  "sn_endpoint_runtime fast_rebuilt = EndpointRuntimeStore_default"
  "sn_backend_index fast_rebuilt = [''ns/web:80'' \<mapsto> 0]"
  "\<not> requires_full_headers (sn_request_materialization fast_rebuilt)"
  "\<not> mh_source_ip (sn_request_materialization fast_rebuilt)"
  by (simp_all add: fast_rebuilt_def rebuild_runtime_indexes_def rebuild_plans_def rebuild_route_indexes_def
      rebuild_runtime_ids_def rebuild_backend_indexes_def compile_matchers_def Let_def sample_defs compile_http_match_def
      compile_regex_def rebuild_listener_indexes_def clear_listener_indexes_def hash_collect_def backend_cluster_name_def
      requires_full_headers_def build_request_materialization_hints_def)

definition fast_sample_ref :: "RuntimeId option \<Rightarrow> RuntimeId option \<Rightarrow> CompiledHttpFastBackendRef" where
  "fast_sample_ref b e = \<lparr> cfb_backend_index = 0, cfb_backend_name = ''ns/web:80'', cfb_weight = 1,
     cfb_backend_runtime_id = b,
     cfb_endpoints = [\<lparr> cfe_endpoint = sample_endpoint ''10.0.0.1'', cfe_runtime_id = e \<rparr>] \<rparr>"

definition fast_sample_rule :: "SelectedBackendRuntimeIds \<Rightarrow> CompiledHttpFastBackendRef \<Rightarrow> CompiledHttpFastRule" where
  "fast_sample_rule ids r = \<lparr> cfu_rule_index = 0, cfu_matches = [compile_http_fast_match (sample_match ''/'')],
     cfu_default_matched_http_path = default_http_path_match, cfu_runtime_ids = ids, cfu_backend_refs = [r] \<rparr>"

lemma fast_sample_plan:
  "\<exists>ids b e. sn_http_fast_path fast_rebuilt = \<lparr> hfp_listeners = [],
     hfp_routes = [\<lparr> cfo_route_index = 0, cfo_route_name = ''any'', cfo_route_namespace = ''ns'', cfo_route_annotations = [],
       cfo_eligible_rules = [fast_sample_rule ids (fast_sample_ref b e)] \<rparr>],
     hfp_route_plan_indices = [Some 0], hfp_selection_safe = True \<rparr>"
  unfolding rebuild_plan [of sample_lib fast_snapshot, folded fast_rebuilt_def]
  by (simp add: http_fast_path_build_def compile_http_fast_route_def compile_http_fast_rule_def
      compile_http_fast_backend_refs_def fast_rebuilt_fields sample_route_def sample_rule_def sample_ref_def
      compile_http_fast_backend_ref_def show_u32_80 nth_opt_def backend_ref_is_routable_def sample_cluster_def Let_def
      http_rule_is_fast_path_selection_safe_def sample_match_def http_match_is_fast_path_eligible_def
      backend_ref_is_fast_path_eligible_def backend_policy_def backend_cluster_name_def compile_http_fast_matches_def
      fast_sample_rule_def fast_sample_ref_def)

lemma fast_sample_backend:
  "\<exists>sel w'. select_compiled_http_fast_backend sample_lib fast_rebuilt [fast_sample_ref b e] sample_world = (Some sel, w')"
proof -
  have "endpoint_availability_at sample_lib fast_rebuilt name (sample_endpoint a) now = Primary" for name a now
    by (simp add: endpoint_availability_at_def sample_endpoint_def fast_rebuilt_fields has_tracked_states_def
        EndpointRuntimeStore_default_def)
  then show ?thesis
    by (simp add: select_compiled_http_fast_backend_def instant_now_def next_backend_ticket_def fast_sample_ref_def
        fast_available_weight_def fast_rebuilt_fields nth_opt_def sample_cluster_def endpoint_selection_availability_def
        count_availability_def List.map_filter_simps spread_weighted_target_def Let_def select_compiled_http_fast_endpoint_def
        next_endpoint_ticket_def endpoint_matches_selection_availability_def)
qed

text \<open>The fast path answers on this configuration.\<close>

lemma fast_sample_selects:
  "\<exists>c. fst (select_http_fast_path sample_lib fast_rebuilt fast_request sample_world) = Some c \<and> cs_route_name c = ''any''"
proof -
  from fast_sample_plan obtain ids b e where p: "sn_http_fast_path fast_rebuilt = \<lparr> hfp_listeners = [],
     hfp_routes = [\<lparr> cfo_route_index = 0, cfo_route_name = ''any'', cfo_route_namespace = ''ns'', cfo_route_annotations = [],
       cfo_eligible_rules = [fast_sample_rule ids (fast_sample_ref b e)] \<rparr>],
     hfp_route_plan_indices = [Some 0], hfp_selection_safe = True \<rparr>" by blast
  obtain sel w' where sel: "select_compiled_http_fast_backend sample_lib fast_rebuilt [fast_sample_ref b e] sample_world = (Some sel, w')"
    using fast_sample_backend by blast
  have ri: "runtime_indexed fast_rebuilt" unfolding fast_rebuilt_def by (rule rebuild_indexed)
  have ml: "fast_matched_listeners fast_rebuilt h 80 = FastCandidateListeners_default" for h
    by (simp add: fast_matched_listeners_def visit_fast_listeners_eq [OF ri] candidate_listeners_def fast_rebuilt_fields
        FastCandidateListeners_default_def)
  have v: "visit_candidate_routes (sn_http_fast_path fast_rebuilt) fast_rebuilt h v st =
      v (hd (hfp_routes (sn_http_fast_path fast_rebuilt))) st" for h v st
    by (subst visit_candidate_routes_eq [OF ri])
      (simp_all add: p fast_rebuilt_fields sample_route_def best_hostname_score_def planned_def nth_opt_def split: prod.split)
  have path: "request_path_without_query ''/x?q=1'' = ''/x''" by code_simp
  have m: "fast_best_http_rule_match (fast_sample_rule ids r) ''/x'' ''GET'' =
      Some (cfm_matched_http_path (compile_http_fast_match (sample_match ''/'')), cfm_score (compile_http_fast_match (sample_match ''/'')))" for r
    by (simp add: fast_best_http_rule_match_def fast_sample_rule_def fast_matches_http_rule_def fast_matches_http_path_def
        fast_matches_path_prefix_def compile_http_fast_match_def sample_match_def Let_def max_by_def)
  have r: "consider_fast_rule sample_lib plan fast_rebuilt ''/x'' ''GET'' route None rh (fast_sample_rule ids (fast_sample_ref b e))
      (None, sample_world) = (True, Some (fast_candidate route (fast_sample_rule ids (fast_sample_ref b e)) None
        (cfm_matched_http_path (compile_http_fast_match (sample_match ''/''))) sel (FastCandidateScore FastHostnameScore_default rh
          (cfm_score (compile_http_fast_match (sample_match ''/''))))), w')" for plan route rh
    by (simp add: consider_fast_rule_def m Let_def) (simp add: fast_sample_rule_def sel)
  show ?thesis
    by (simp add: select_http_fast_path_def http_fast_path_select_def v fast_rebuilt_fields ml Let_def fast_request_def)
      (simp add: p consider_fast_route_def nth_opt_def fast_rebuilt_fields sample_route_def fast_route_listener_match_def
        FastCandidateListeners_default_def fast_best_hostname_score_def path r compiled_selection_def fast_candidate_def)
qed

section \<open>Facts of the sample\<close>

lemma sample_available [simp]:
  "endpoint_availability_at sample_lib sample_snapshot name (sample_endpoint a) now = Primary"
  by (simp add: endpoint_availability_at_def sample_snapshot_def empty_snapshot_def has_tracked_states_def
      EndpointRuntimeStore_default_def sample_endpoint_def)

lemma sample_eligible:
  "eligible_endpoints sample_lib sample_snapshot (sample_cluster n (map sample_endpoint as)) name now = map sample_endpoint as"
proof -
  have "endpoint_matches_selection_availability sample_lib sample_snapshot name now v (sample_endpoint a)" for v a
    by (simp add: endpoint_matches_selection_availability_def)
  then show ?thesis by (auto simp: eligible_endpoints_def sample_cluster_def intro: filter_True)
qed

lemma sample_find:
  "find_backend_cluster_index sample_snapshot (sample_ref ''web'' weight) =
     Some (0, sample_cluster ''web:80'' (map sample_endpoint [''10.0.0.1'', ''10.0.0.2'']))"
  "find_backend_cluster_index sample_snapshot (sample_ref ''api'' weight) =
     Some (1, sample_cluster ''api:80'' (map sample_endpoint [''10.0.0.3'']))"
proof -
  have "backend_cluster_service_key ''web:80'' = Some (''web'', 80)" "backend_cluster_service_key ''api:80'' = Some (''api'', 80)"
    by (simp_all add: service_key_Some show_u32_80)
  then show "find_backend_cluster_index sample_snapshot (sample_ref ''web'' weight) =
      Some (0, sample_cluster ''web:80'' (map sample_endpoint [''10.0.0.1'', ''10.0.0.2'']))"
    "find_backend_cluster_index sample_snapshot (sample_ref ''api'' weight) =
      Some (1, sample_cluster ''api:80'' (map sample_endpoint [''10.0.0.3'']))"
    by (simp_all add: find_backend_cluster_index_def sample_ref_def backend_ref_is_routable_def
        backend_cluster_for_service_index_def sample_snapshot_def empty_snapshot_def sample_cluster_def
        matches_ref_key service_key_of_def)
qed

lemma sample_name: "backend_name_for_index sample_snapshot i (sample_cluster n es) = ''ns/'' @ n"
  by (simp add: backend_name_for_index_def sample_snapshot_def empty_snapshot_def backend_cluster_name_def sample_cluster_def)

lemma sample_candidates:
  "weight \<noteq> 0 \<Longrightarrow> weight' \<noteq> 0 \<Longrightarrow>
   candidates sample_lib sample_snapshot now [sample_ref ''web'' weight, sample_ref ''api'' weight'] =
     [\<lparr> ca_cluster = sample_cluster ''web:80'' (map sample_endpoint [''10.0.0.1'', ''10.0.0.2'']),
        ca_backend_ref = sample_ref ''web'' weight, ca_backend_name = ''ns/web:80'' \<rparr>,
      \<lparr> ca_cluster = sample_cluster ''api:80'' (map sample_endpoint [''10.0.0.3'']),
        ca_backend_ref = sample_ref ''api'' weight', ca_backend_name = ''ns/api:80'' \<rparr>]"
  using sample_eligible [of "''web:80''" "[''10.0.0.1'', ''10.0.0.2'']"] sample_eligible [of "''api:80''" "[''10.0.0.3'']"]
  by (simp add: ref_candidate_def sample_find sample_name)

lemma sample_fits: "http_fits sample_snapshot" "clusters_fit sample_snapshot"
    "weights_fit [sample_ref n 3, sample_ref n' 1]"
  by (simp_all add: http_fits_def clusters_fit_def fits_def refs_fit_def weights_fit_def sample_defs)

lemma fast_sample_ok: "distinct_names fast_snapshot" "namespaces_plain fast_snapshot" "http_fits fast_snapshot"
  by (simp_all add: distinct_names_def namespaces_plain_def http_fits_def clusters_fit_def fits_def refs_fit_def
      weights_fit_def sample_defs)

lemma fast_sample_request: "same_request fast_request (sample_request ''shop.example'' ''/x'')"
proof -
  have "normalize_host_ref ''shop.example'' = ''shop.example''" "request_path_without_query ''/x?q=1'' = ''/x''" by code_simp+
  then show ?thesis by (simp add: same_request_def fast_request_def sample_request_def RequestMeta_default_def)
qed

end
