(* ===== verification/Balancing.thy ===== *)
theory Balancing
  imports Sample_Config
begin

text \<open>
  How requests spread over time: mirrored shares, the rotation over the endpoints of a backend,
  the stability of consistent hashing and of sessions. The definitions are those of
  \<open>Load_Balancing\<close> and \<open>Backend_Resolution\<close>; the properties are about sequences of selections.
\<close>

section \<open>Consecutive tickets\<close>

lemma mod_shift_inj:
  fixes t d :: nat
  shows "inj_on (\<lambda>k. (t + k) mod d) {0..<d}"
proof (rule inj_onI)
  fix k k' assume k: "k \<in> {0..<d}" "k' \<in> {0..<d}" and eq: "(t + k) mod d = (t + k') mod d"
  have "k = k'" if "k \<le> k'" "k' < d" "(t + k) mod d = (t + k') mod d" for k k'
    using mult_mod_cancel [of 1 d k k' t] that by simp
  note half = this
  show "k = k'"
  proof (cases "k \<le> k'")
    case True
    show ?thesis by (rule half [OF True _ eq]) (use k in simp)
  next
    case False
    have "k' = k" by (rule half [OF _ _ eq [symmetric]]) (use k False in simp_all)
    then show ?thesis by simp
  qed
qed

lemma mod_shift_bij:
  fixes t d :: nat
  shows "bij_betw (\<lambda>k. (t + k) mod d) {0..<d} {0..<d}"
proof -
  have "(\<lambda>k. (t + k) mod d) ` {0..<d} \<subseteq> {0..<d}" by auto
  then have "(\<lambda>k. (t + k) mod d) ` {0..<d} = {0..<d}"
    by (rule card_subset_eq [rotated]) (simp_all add: card_image mod_shift_inj)
  then show ?thesis using mod_shift_inj by (simp add: bij_betw_def)
qed

text \<open>A predicate on remainders holds as often over consecutive tickets as over the remainders.\<close>

lemma card_mod_shift:
  fixes t d :: nat
  shows "card {k. k < d \<and> P ((t + k) mod d)} = card {r. r < d \<and> P r}"
proof -
  let ?f = "\<lambda>k. (t + k) mod d"
  have "?f ` {k. k < d \<and> P (?f k)} = {r. r < d \<and> P r}"
  proof (intro equalityI subsetI)
    fix r assume "r \<in> {r. r < d \<and> P r}"
    moreover from this have "r \<in> ?f ` {0..<d}" using mod_shift_bij [of t d] by (simp add: bij_betw_def)
    ultimately show "r \<in> ?f ` {k. k < d \<and> P (?f k)}" by auto
  qed auto
  moreover have "inj_on ?f {k. k < d \<and> P (?f k)}" by (rule inj_on_subset [OF mod_shift_inj]) auto
  ultimately show ?thesis using card_image by fastforce
qed

lemma ticket_unat:
  assumes "k < n" and "unat (t :: u64) + n \<le> 2 ^ 64"
  shows "unat (t + of_nat k) = unat t + k"
proof -
  have "unat (of_nat k :: u64) = k" using assms by (simp add: unat_of_nat)
  then show ?thesis using assms unat_plus_simple [of t "of_nat k"] unat_add_lem [of t "of_nat k"] by simp
qed

section \<open>Mirrored shares\<close>

definition mirror_share :: "RequestMirrorFilter \<Rightarrow> u32 \<times> u32" where
  "mirror_share mirror = (case rm_fraction mirror of
       Some fraction \<Rightarrow> (fr_numerator fraction, max (fr_denominator fraction) 1)
     | None \<Rightarrow> (case rm_percent mirror of Some p \<Rightarrow> p | None \<Rightarrow> 100, 100))"

lemma should_mirror_eq:
  "fst (should_mirror mirror w) = (case mirror_share mirror of (n, d) \<Rightarrow>
     n \<noteq> 0 \<and> (d \<le> n \<or> unat (ss_mirror_cursor (w_selection w)) mod unat d < unat n))"
proof -
  have "(t mod ucast (d :: u32) < ucast (n :: u32)) = (unat t mod unat d < unat n)" for t :: u64 and d n
    by (simp add: word_less_nat_alt unat_mod_distrib unat_u64_of_u32)
  then show ?thesis
    by (auto simp: should_mirror_def mirror_share_def next_mirror_ticket_def split: prod.splits option.splits)
qed

text \<open>
  A mirror filter with the fraction \<open>n/d\<close> (or a percentage) copies exactly \<open>min n d\<close> of any \<open>d\<close>
  requests with consecutive mirror tickets.
\<close>

theorem mirror_share_exact:
  assumes "mirror_share mirror = (n, d)" and "unat t + unat d \<le> 2 ^ 64"
    and "\<And>k. ss_mirror_cursor (w_selection (ws k)) = t + of_nat k"
  shows "card {k. k < unat d \<and> fst (should_mirror mirror (ws k))} = min (unat n) (unat d)"
proof -
  have "{k. k < unat d \<and> fst (should_mirror mirror (ws k))} =
      {k. k < unat d \<and> n \<noteq> 0 \<and> (d \<le> n \<or> (unat t + k) mod unat d < unat n)}"
    by (rule Collect_cong) (simp add: should_mirror_eq assms ticket_unat [OF _ assms(2)] cong: conj_cong)
  also have "card \<dots> = card {r. r < unat d \<and> n \<noteq> 0 \<and> (d \<le> n \<or> r < unat n)}"
    by (rule card_mod_shift)
  also have "{r. r < unat d \<and> n \<noteq> 0 \<and> (d \<le> n \<or> r < unat n)} = {0..<min (unat n) (unat d)}"
  proof (cases "n = 0")
    case False
    then have "0 < unat n" by (simp add: unat_gt_0)
    then show ?thesis by (auto simp: word_le_nat_alt)
  qed simp
  finally show ?thesis by simp
qed

theorem mirror_share_exact_witness:
  "card {k. k < unat (100 :: u32) \<and> fst (should_mirror
      (RequestMirrorFilter (BackendRef '''' ''Service'' ''ns'' ''web'' 80 1 [] []) (Some 30) None)
      \<lparr> w_selection = \<lparr> ss_backend_cursor = 0, ss_endpoint_cursor = 0, ss_mirror_cursor = 7 + of_nat k \<rparr>,
        w_clock = (\<lambda>n. n), w_reads = 0 \<rparr>)} = 30"
  using mirror_share_exact [of "RequestMirrorFilter (BackendRef '''' ''Service'' ''ns'' ''web'' 80 1 [] []) (Some 30) None"
    30 100 7 "\<lambda>k. \<lparr> w_selection = \<lparr> ss_backend_cursor = 0, ss_endpoint_cursor = 0, ss_mirror_cursor = 7 + of_nat k \<rparr>,
      w_clock = (\<lambda>n. n), w_reads = 0 \<rparr>"]
  by (simp add: mirror_share_def)

section \<open>Rotation over endpoints\<close>

lemma card_nth_count: "card {r. r < length es \<and> es ! r = e} = count_list es e"
proof (induction es rule: rev_induct)
  case (snoc x xs)
  have "{r. r < length (xs @ [x]) \<and> (xs @ [x]) ! r = e} =
      {r. r < length xs \<and> xs ! r = e} \<union> (if x = e then {length xs} else {})"
    by (auto simp: nth_append less_Suc_eq)
  then show ?case using snoc by (auto simp: card_insert_if)
qed simp

text \<open>
  The endpoints of a backend take turns. Over as many selections with consecutive endpoint
  tickets as the backend has eligible endpoints, each of them is selected exactly as often as it
  is listed.
\<close>

theorem endpoints_take_turns:
  assumes "fits cluster" and "unat t + length es \<le> 2 ^ 64"
    and "\<And>k. ss_endpoint_cursor (w_selection (ws k)) = t + of_nat k"
    and "\<And>k. eligible_endpoints lib snapshot cluster backend_name (w_clock (ws k) (w_reads (ws k))) = es"
  shows "card {k. k < length es \<and> fst (select_cluster_endpoint lib snapshot cluster backend_name (ws k)) = Some e} =
    count_list es e"
proof -
  have "{k. k < length es \<and> fst (select_cluster_endpoint lib snapshot cluster backend_name (ws k)) = Some e} =
      {k. k < length es \<and> es ! ((unat t + k) mod length es) = e}"
    by (rule Collect_cong) (auto simp: select_cluster_endpoint_eq [OF assms(1)] Let_def assms(3,4) ticket_unat [OF _ assms(2)])
  also have "card \<dots> = card {r. r < length es \<and> es ! r = e}" by (rule card_mod_shift)
  finally show ?thesis by (simp add: card_nth_count)
qed

theorem endpoints_take_turns_witness:
  "card {k. k < 2 \<and> fst (select_cluster_endpoint sample_lib sample_snapshot
      (sample_cluster ''web:80'' (map sample_endpoint [''10.0.0.1'', ''10.0.0.2''])) ''ns/web:80''
      (sample_world\<lparr> w_selection := \<lparr> ss_backend_cursor = 0, ss_endpoint_cursor = 5 + of_nat k, ss_mirror_cursor = 0 \<rparr> \<rparr>)) =
      Some (sample_endpoint ''10.0.0.1'')} = 1"
proof -
  let ?c = "sample_cluster ''web:80'' (map sample_endpoint [''10.0.0.1'', ''10.0.0.2''])"
  let ?ws = "\<lambda>k. sample_world\<lparr> w_selection := \<lparr> ss_backend_cursor = 0, ss_endpoint_cursor = 5 + of_nat k, ss_mirror_cursor = 0 \<rparr> \<rparr>"
  have "card {k. k < length (map sample_endpoint [''10.0.0.1'', ''10.0.0.2'']) \<and>
      fst (select_cluster_endpoint sample_lib sample_snapshot ?c ''ns/web:80'' (?ws k)) = Some (sample_endpoint ''10.0.0.1'')} =
      count_list (map sample_endpoint [''10.0.0.1'', ''10.0.0.2'']) (sample_endpoint ''10.0.0.1'')"
  proof (rule endpoints_take_turns [where t = 5 and ws = ?ws])
    show "eligible_endpoints sample_lib sample_snapshot ?c ''ns/web:80'' (w_clock (?ws k) (w_reads (?ws k))) =
        map sample_endpoint [''10.0.0.1'', ''10.0.0.2'']" for k
      by (rule sample_eligible)
  qed (simp_all add: fits_def sample_cluster_def)
  then show ?thesis by (simp add: sample_endpoint_def numeral_2_eq_2)
qed

section \<open>Stability of hashing\<close>

lemma first_max_filter:
  assumes "first_max f xs = Some y" and "P y"
  shows "first_max f (filter P xs) = Some y"
  using assms
proof (induction xs rule: rev_induct)
  case (snoc x xs)
  show ?case
  proof (cases "first_max f xs")
    case None
    then have "xs = []" using first_max_None by metis
    then show ?thesis using snoc.prems by (simp add: first_max_def split: if_splits)
  next
    case (Some z)
    show ?thesis
    proof (cases "f x \<le> f z")
      case True
      then have "y = z" using snoc.prems(1) Some by (simp add: keep_better_snoc keep_better_def)
      then show ?thesis using snoc.IH [OF _ snoc.prems(2)] Some True by (simp add: keep_better_snoc keep_better_def)
    next
      case False
      then have y: "y = x" using snoc.prems(1) Some by (simp add: keep_better_snoc keep_better_def)
      have "f u < f x" if "u \<in> set xs" for u
        using first_maxD(2) [OF Some] False that by (meson le_less_trans not_le)
      then have "f a < f x" if "first_max f (filter P xs) = Some a" for a using first_maxD(1) [OF that] by simp
      then have "keep_better f (first_max f (filter P xs)) x = Some x"
        by (auto simp: keep_better_def not_le split: option.split)
      then show ?thesis using snoc.prems(2) by (simp add: y keep_better_snoc)
    qed
  qed
qed (simp add: first_max_def)

lemma hash_first_max:
  "fst (select_cluster_endpoint_by_hash lib snapshot cluster backend_name hash_key w) =
     first_max (rendezvous_hash_endpoint hash_key backend_name)
       (eligible_endpoints lib snapshot cluster backend_name (w_clock w (w_reads w)))"
  by (simp add: select_by_hash_eq Let_def first_max_def)

text \<open>
  C26. Consistent hashing disrupts as little as it can. When endpoints of a backend go away, become
  unhealthy or are ejected, every hash key whose endpoint is still eligible keeps it.
\<close>

theorem hash_minimal_disruption:
  assumes "fst (select_cluster_endpoint_by_hash lib snapshot cluster backend_name hash_key w) = Some e"
    and "eligible_endpoints lib snapshot' cluster' backend_name (w_clock w' (w_reads w')) =
      filter P (eligible_endpoints lib snapshot cluster backend_name (w_clock w (w_reads w)))" and "P e"
  shows "fst (select_cluster_endpoint_by_hash lib snapshot' cluster' backend_name hash_key w') = Some e"
  unfolding hash_first_max assms(2) using assms(1,3) unfolding hash_first_max by (rule first_max_filter)

theorem hash_minimal_disruption_witness:
  "\<exists>e. fst (select_cluster_endpoint_by_hash sample_lib sample_snapshot
        (sample_cluster ''web:80'' (map sample_endpoint [''10.0.0.1'', ''10.0.0.2''])) ''ns/web:80'' ''user-7'' sample_world) = Some (sample_endpoint e)
    \<and> fst (select_cluster_endpoint_by_hash sample_lib sample_snapshot
        (sample_cluster ''web:80'' (map sample_endpoint (filter (\<lambda>a. a = e) [''10.0.0.1'', ''10.0.0.2'']))) ''ns/web:80'' ''user-7'' sample_world) = Some (sample_endpoint e)"
proof -
  let ?es = "map sample_endpoint [''10.0.0.1'', ''10.0.0.2'']"
  obtain x where x: "first_max (rendezvous_hash_endpoint ''user-7'' ''ns/web:80'') ?es = Some x"
    using first_max_None [of "rendezvous_hash_endpoint ''user-7'' ''ns/web:80''" ?es] by fastforce
  then obtain e where e: "x = sample_endpoint e" "e \<in> {''10.0.0.1'', ''10.0.0.2''}" using first_maxD(1) [OF x] by auto
  have sel: "fst (select_cluster_endpoint_by_hash sample_lib sample_snapshot (sample_cluster ''web:80'' ?es) ''ns/web:80'' ''user-7'' sample_world) = Some (sample_endpoint e)"
    unfolding hash_first_max sample_eligible using x e(1) by simp
  have "eligible_endpoints sample_lib sample_snapshot (sample_cluster ''web:80'' (map sample_endpoint (filter (\<lambda>a. a = e) [''10.0.0.1'', ''10.0.0.2''])))
      ''ns/web:80'' now = filter (\<lambda>y. y = sample_endpoint e) (eligible_endpoints sample_lib sample_snapshot (sample_cluster ''web:80'' ?es) ''ns/web:80'' now)" for now
    unfolding sample_eligible by (simp add: sample_endpoint_def)
  from hash_minimal_disruption [OF sel this refl] sel show ?thesis by blast
qed

section \<open>Sessions\<close>

lemma persistent_sticks:
  assumes "\<exists>r \<in> set refs. br_weight r \<noteq> 0 \<and> (\<exists>i. find_backend_cluster_index s r = Some (i, cluster)
      \<and> backend_name_for_index s i cluster = pt_backend_name target)"
    and "\<And>r i c. r \<in> set refs \<Longrightarrow> br_weight r \<noteq> 0 \<Longrightarrow> find_backend_cluster_index s r = Some (i, c) \<Longrightarrow>
      backend_name_for_index s i c = pt_backend_name target \<Longrightarrow> c = cluster"
    and "\<exists>e \<in> set (eligible_endpoints lib s cluster (pt_backend_name target) (w_clock w (w_reads w))).
      ep_address e = ep_address (pt_endpoint target) \<and> ep_port e = ep_port (pt_endpoint target)"
  shows "\<exists>b. fst (resolve_persistent_http_backend lib s refs target sp w) = Some b
    \<and> rb_backend_name b = pt_backend_name target \<and> ep_address (rb_endpoint b) = ep_address (pt_endpoint target)
    \<and> ep_port (rb_endpoint b) = ep_port (pt_endpoint target)"
  using assms(1,2)
proof (induction refs)
  case (Cons r refs)
  let ?now = "w_clock w (w_reads w)" and ?name = "pt_backend_name target"
  let ?P = "\<lambda>e. endpoint_matches_selection_availability lib s ?name ?now (endpoint_selection_availability lib s cluster ?name ?now) e
      \<and> ep_address e = ep_address (pt_endpoint target) \<and> ep_port e = ep_port (pt_endpoint target)"
  show ?case
  proof (cases "br_weight r \<noteq> 0 \<and> (\<exists>i c. find_backend_cluster_index s r = Some (i, c) \<and> backend_name_for_index s i c = ?name)")
    case True
    then obtain i c where c: "br_weight r \<noteq> 0" "find_backend_cluster_index s r = Some (i, c)" "backend_name_for_index s i c = ?name"
      by blast
    then have "c = cluster" by (rule Cons.prems(2) [OF list.set_intros(1)])
    note r = c [unfolded this]
    then have "backend_ref_is_routable r" by (auto simp: find_backend_cluster_index_def split: if_splits)
    moreover obtain e where e: "find ?P (bc_endpoints cluster) = Some e"
    proof -
      have "find ?P (bc_endpoints cluster) \<noteq> None" using assms(3) by (auto simp: find_None_iff eligible_endpoints_def)
      then show ?thesis using that by blast
    qed
    moreover from e have "?P e" by (auto simp: find_Some_iff)
    ultimately show ?thesis using r by (simp add: instant_now_def Let_def)
  next
    case False
    have "\<exists>b. fst (resolve_persistent_http_backend lib s refs target sp w) = Some b
        \<and> rb_backend_name b = ?name \<and> ep_address (rb_endpoint b) = ep_address (pt_endpoint target)
        \<and> ep_port (rb_endpoint b) = ep_port (pt_endpoint target)"
    proof (rule Cons.IH)
      show "\<exists>r \<in> set refs. br_weight r \<noteq> 0 \<and> (\<exists>i. find_backend_cluster_index s r = Some (i, cluster)
          \<and> backend_name_for_index s i cluster = ?name)" using Cons.prems(1) False by (simp only: list.set bex_simps) blast
    qed (rule Cons.prems(2) [OF list.set_intros(2)])
    moreover have "resolve_persistent_http_backend lib s (r # refs) target sp w = resolve_persistent_http_backend lib s refs target sp w"
      using False by (cases "find_backend_cluster_index s r") (auto simp: Let_def)
    ultimately show ?thesis by simp
  qed
qed simp

text \<open>
  The backends have distinct full names, and the table of names, when it is built, agrees with them.
\<close>

definition backend_names_ok :: "Snapshot \<Rightarrow> bool" where
  "backend_names_ok s \<longleftrightarrow> distinct (map backend_cluster_name (sn_backends s))
     \<and> (sn_runtime_indexes_ready s \<longrightarrow> sn_backend_names s = map backend_cluster_name (sn_backends s))"

lemma found_cluster_at:
  "find_backend_cluster_index s r = Some (i, c) \<Longrightarrow> i < length (sn_backends s) \<and> sn_backends s ! i = c"
  by (auto simp: find_backend_cluster_index_def backend_cluster_for_service_index_def nth_opt_def
      find_Some_iff nth_enumerate_eq split: if_splits option.splits)

lemma found_cluster_name:
  assumes "backend_names_ok s" and "find_backend_cluster_index s r = Some (i, c)"
  shows "backend_name_for_index s i c = backend_cluster_name c"
  using assms found_cluster_at [OF assms(2)] by (auto simp: backend_names_ok_def backend_name_for_index_def nth_opt_def)

lemma found_cluster_unique:
  assumes "backend_names_ok s" and "find_backend_cluster_index s r = Some (i, c)" and "find_backend_cluster_index s r' = Some (i', c')"
    and "backend_cluster_name c = backend_cluster_name c'"
  shows "c = c'"
  using found_cluster_at [OF assms(2)] found_cluster_at [OF assms(3)] assms(1,4)
    nth_eq_iff_index_eq [of "map backend_cluster_name (sn_backends s)" i i'] by (auto simp: backend_names_ok_def)

text \<open>
  The sessions a request may have: the one of its route, or else those that the policies of the rule's backends
  ask for.
\<close>

definition policy_sessions :: "Snapshot \<Rightarrow> BackendRef list \<Rightarrow> SessionPersistence set" where
  "policy_sessions s refs = {session. \<exists>r \<in> set refs. \<exists>i c. br_weight r \<noteq> 0 \<and> find_backend_cluster_index s r = Some (i, c)
     \<and> backend_session_persistence s (backend_name_for_index s i c) = Some session}"

definition sessions_of :: "Snapshot \<Rightarrow> BackendRef list \<Rightarrow> SessionPersistence option \<Rightarrow> SessionPersistence set" where
  "sessions_of s refs route_session = (case route_session of Some session \<Rightarrow> {session} | None \<Rightarrow> policy_sessions s refs)"

definition went_to :: "PersistentSessionTarget \<Rightarrow> ResolvedHttpBackend \<Rightarrow> bool" where
  "went_to target b \<longleftrightarrow> rb_backend_name b = pt_backend_name target \<and> ep_address (rb_endpoint b) = ep_address (pt_endpoint target)
     \<and> ep_port (rb_endpoint b) = ep_port (pt_endpoint target)"

lemma policy_session_sticks:
  assumes "\<And>sp. \<exists>b. fst (resolve_persistent_http_backend lib s refs target sp w) = Some b \<and> went_to target b"
  shows "(\<forall>session \<in> policy_sessions s rest. resolver session \<in> {None, Some target}) \<Longrightarrow>
    (\<exists>session \<in> policy_sessions s rest. resolver session = Some target) \<Longrightarrow>
    \<exists>b. fst (policy_persistent_loop lib s refs resolver rest w) = Some b \<and> went_to target b"
proof (induction rest)
  case Nil
  then show ?case by (simp add: policy_sessions_def)
next
  case (Cons r rest)
  let ?here = "{session. \<exists>i c. br_weight r \<noteq> 0 \<and> find_backend_cluster_index s r = Some (i, c)
     \<and> backend_session_persistence s (backend_name_for_index s i c) = Some session}"
  have split: "policy_sessions s (r # rest) = ?here \<union> policy_sessions s rest" by (auto simp: policy_sessions_def)
  show ?case
  proof (cases "\<exists>session \<in> ?here. resolver session = Some target")
    case True
    then obtain session i c where h: "br_weight r \<noteq> 0" "find_backend_cluster_index s r = Some (i, c)"
      "backend_session_persistence s (backend_name_for_index s i c) = Some session" "resolver session = Some target" by auto
    then have "backend_ref_is_routable r" by (auto simp: find_backend_cluster_index_def split: if_splits)
    then show ?thesis using h assms [of "Some session"]
      by (cases "resolve_persistent_http_backend lib s refs target (Some session) w") (auto simp: Let_def)
  next
    case False
    then have none: "resolver session = None" if "session \<in> ?here" for session
      using Cons.prems(1) that unfolding split by auto
    have "policy_persistent_loop lib s refs resolver (r # rest) w = policy_persistent_loop lib s refs resolver rest w"
      using none by (auto simp: Let_def split: option.split)
    then show ?thesis using Cons.IH Cons.prems False unfolding split by auto
  qed
qed

text \<open>
  C25. A session sticks to its endpoint. When the session of the route, or without one a session that the policy of a backend of the
  rule asks for, names an endpoint (no session naming another one), and that endpoint is still eligible in the backend of
  that name, to which the rule refers with a weight, then this backend and endpoint are selected without an error,
  whatever the weights and the tickets say. The full names of the backends are distinct.
\<close>

theorem session_sticks:
  assumes "backend_names_ok s"
    and "\<exists>session \<in> sessions_of s refs route_session. resolver session = Some target"
    and "\<forall>session \<in> sessions_of s refs route_session. resolver session \<in> {None, Some target}"
    and "r \<in> set refs" and "br_weight r \<noteq> 0" and "find_backend_cluster_index s r = Some (i, cluster)"
    and "backend_cluster_name cluster = pt_backend_name target"
    and "e \<in> set (eligible_endpoints lib s cluster (pt_backend_name target) (w_clock w (w_reads w)))"
    and "ep_address e = ep_address (pt_endpoint target)" and "ep_port e = ep_port (pt_endpoint target)"
  shows "\<exists>b. fst (resolve_http_backend_refs_with_session lib s refs route_session request resolver w) = \<lparr> hb_selected = Some b, hb_error = None \<rparr>
    \<and> rb_backend_name b = pt_backend_name target \<and> ep_address (rb_endpoint b) = ep_address (pt_endpoint target)
    \<and> ep_port (rb_endpoint b) = ep_port (pt_endpoint target)"
proof -
  have sticks: "\<exists>b. fst (resolve_persistent_http_backend lib s refs target sp w) = Some b \<and> went_to target b" for sp
    unfolding went_to_def
  proof (rule persistent_sticks [where cluster = cluster])
    show "\<exists>r \<in> set refs. br_weight r \<noteq> 0 \<and> (\<exists>i. find_backend_cluster_index s r = Some (i, cluster)
        \<and> backend_name_for_index s i cluster = pt_backend_name target)"
      using assms(4-7) found_cluster_name [OF assms(1,6)] by auto
    show "c = cluster" if "find_backend_cluster_index s r' = Some (j, c)" "backend_name_for_index s j c = pt_backend_name target" for r' j c
      using found_cluster_unique [OF assms(1) that(1) assms(6)] found_cluster_name [OF assms(1) that(1)] that(2) assms(7) by simp
  qed (use assms(8-10) in auto)
  have "\<exists>b. fst (resolve_http_backend_refs_with_session lib s refs route_session request resolver w) =
      \<lparr> hb_selected = Some b, hb_error = None \<rparr> \<and> went_to target b"
  proof (cases route_session)
    case None
    have "\<exists>b. fst (policy_persistent_loop lib s refs resolver refs w) = Some b \<and> went_to target b"
      by (rule policy_session_sticks [OF sticks]) (use assms(2,3) None in \<open>simp_all add: sessions_of_def\<close>)
    then show ?thesis unfolding None by (cases "policy_persistent_loop lib s refs resolver refs w")
      (auto simp: resolve_http_backend_refs_with_session_def resolve_backend_policy_persistent_http_backend_def)
  next
    case (Some session)
    then have "resolver session = Some target" using assms(2) by (simp add: sessions_of_def)
    then show ?thesis unfolding Some using sticks [of None] by (cases "resolve_persistent_http_backend lib s refs target None w")
      (auto simp: resolve_http_backend_refs_with_session_def)
  qed
  then show ?thesis by (simp add: went_to_def)
qed

theorem session_sticks_witness:
  "\<exists>b. fst (resolve_http_backend_refs_with_session sample_lib sample_snapshot [sample_ref ''web'' 3, sample_ref ''api'' 1]
      (Some sample_session) RequestMeta_default (\<lambda>_. Some \<lparr> pt_backend_name = ''ns/web:80'', pt_endpoint = sample_endpoint ''10.0.0.2'' \<rparr>) sample_world) =
      \<lparr> hb_selected = Some b, hb_error = None \<rparr>
    \<and> rb_backend_name b = ''ns/web:80'' \<and> ep_address (rb_endpoint b) = ''10.0.0.2'' \<and> ep_port (rb_endpoint b) = 8080"
proof -
  let ?t = "\<lparr> pt_backend_name = ''ns/web:80'', pt_endpoint = sample_endpoint ''10.0.0.2'' \<rparr>"
  let ?c = "sample_cluster ''web:80'' (map sample_endpoint [''10.0.0.1'', ''10.0.0.2''])"
  have "\<exists>b. fst (resolve_http_backend_refs_with_session sample_lib sample_snapshot [sample_ref ''web'' 3, sample_ref ''api'' 1]
      (Some sample_session) RequestMeta_default (\<lambda>_. Some ?t) sample_world) = \<lparr> hb_selected = Some b, hb_error = None \<rparr>
    \<and> rb_backend_name b = pt_backend_name ?t \<and> ep_address (rb_endpoint b) = ep_address (pt_endpoint ?t)
    \<and> ep_port (rb_endpoint b) = ep_port (pt_endpoint ?t)"
  proof (rule session_sticks [where r = "sample_ref ''web'' 3" and e = "sample_endpoint ''10.0.0.2''" and cluster = ?c and i = 0])
    show "backend_names_ok sample_snapshot" by (simp add: backend_names_ok_def sample_defs backend_cluster_name_def)
    show "find_backend_cluster_index sample_snapshot (sample_ref ''web'' 3) = Some (0, ?c)" by (rule sample_find(1))
    show "backend_cluster_name ?c = pt_backend_name ?t" by (simp add: backend_cluster_name_def sample_cluster_def)
    show "sample_endpoint ''10.0.0.2'' \<in> set (eligible_endpoints sample_lib sample_snapshot ?c (pt_backend_name ?t) (w_clock sample_world (w_reads sample_world)))"
      unfolding sample_eligible by simp
  qed (simp_all add: sessions_of_def)
  then show ?thesis by (simp add: sample_endpoint_def)
qed

section \<open>The choice of a backend\<close>

lemma sample_has_candidate: "candidates sample_lib sample_snapshot 0 [sample_ref ''web'' 3, sample_ref ''api'' 1] \<noteq> []"
  by (subst sample_candidates) simp_all

lemma has_candidate_iff:
  "candidates lib snapshot now refs \<noteq> [] \<longleftrightarrow> (\<exists>r \<in> set refs. ref_candidate lib snapshot now r \<noteq> None)"
  by (simp add: candidates_def map_filter_def filter_empty_conv)

lemma ref_candidate_iff:
  "ref_candidate lib snapshot now r \<noteq> None \<longleftrightarrow> br_weight r \<noteq> 0 \<and> (\<exists>i c. find_backend_cluster_index snapshot r = Some (i, c)
     \<and> eligible_endpoints lib snapshot c (backend_name_for_index snapshot i c) now \<noteq> [])"
  by (auto simp: ref_candidate_def Let_def split: option.split)

text \<open>
  C5. A selected backend is always servable. It is an endpoint of the backend that a reference of
  the rule with a weight names, and at a time read during the selection the endpoint was eligible:
  healthy, not failing its active probes, and not ejected unless all such endpoints were ejected.
\<close>

theorem backend_choice_sound:
  assumes "clusters_fit snapshot" and "weights_fit refs"
    and "hb_selected (fst (resolve_http_backend_refs_with_session lib snapshot refs route_session request resolver w)) = Some b"
  shows "servable lib snapshot refs w (rb_backend_name b) (rb_endpoint b) (rb_filters b)"
  using resolve_sound [OF assms(1,2)] assms(3) by (auto simp: sound_choice_def)

theorem backend_choice_sound_witness:
  "\<exists>b. hb_selected (fst (resolve_http_backend_refs_with_session sample_lib sample_snapshot [sample_ref ''web'' 3, sample_ref ''api'' 1]
      None RequestMeta_default (\<lambda>_. None) sample_world)) = Some b
    \<and> servable sample_lib sample_snapshot [sample_ref ''web'' 3, sample_ref ''api'' 1] sample_world (rb_backend_name b) (rb_endpoint b) (rb_filters b)"
proof -
  obtain b where b: "hb_selected (fst (resolve_http_backend_refs_with_session sample_lib sample_snapshot [sample_ref ''web'' 3, sample_ref ''api'' 1]
      None RequestMeta_default (\<lambda>_. None) sample_world)) = Some b"
    using resolve_with_candidate [OF sample_fits(2,3) sample_has_candidate] by blast
  from backend_choice_sound [OF sample_fits(2,3) b] b show ?thesis by blast
qed

lemma resolve_selected_no_error:
  assumes "clusters_fit snapshot" and "weights_fit refs"
    and "hb_selected (fst (resolve_http_backend_refs_with_session lib snapshot refs route_session request resolver w)) \<noteq> None"
  shows "hb_error (fst (resolve_http_backend_refs_with_session lib snapshot refs route_session request resolver w)) = None"
proof (cases rule: resolve_cases [of lib snapshot refs route_session request resolver w])
  case (session b)
  then show ?thesis by simp
next
  case (weighted w')
  have "candidates lib snapshot 0 refs \<noteq> []" using assms(3) unfolding resolve_none_iff [OF assms(1,2), where now = 0] .
  from weighted_result [OF assms(1,2) this, of w' route_session request] show ?thesis using weighted by auto
qed

text \<open>
  C6. A backend is selected whenever there is one to select: the resolution returns a backend if and
  only if some reference with a weight names a backend with an eligible endpoint, and together with a backend it never
  returns an error. In particular it never comes back empty because of the clock, the tickets, a stale session or a hash.
\<close>

theorem backend_choice_live:
  assumes "clusters_fit snapshot" and "weights_fit refs"
  shows "(hb_selected (fst (resolve_http_backend_refs_with_session lib snapshot refs route_session request resolver w)) \<noteq> None \<longleftrightarrow>
      (\<exists>r \<in> set refs. br_weight r \<noteq> 0 \<and> (\<exists>i c. find_backend_cluster_index snapshot r = Some (i, c)
         \<and> eligible_endpoints lib snapshot c (backend_name_for_index snapshot i c) now \<noteq> [])))
    \<and> (hb_selected (fst (resolve_http_backend_refs_with_session lib snapshot refs route_session request resolver w)) \<noteq> None \<longrightarrow>
      hb_error (fst (resolve_http_backend_refs_with_session lib snapshot refs route_session request resolver w)) = None)"
proof
  show "hb_selected (fst (resolve_http_backend_refs_with_session lib snapshot refs route_session request resolver w)) \<noteq> None \<longleftrightarrow>
    (\<exists>r \<in> set refs. br_weight r \<noteq> 0 \<and> (\<exists>i c. find_backend_cluster_index snapshot r = Some (i, c)
       \<and> eligible_endpoints lib snapshot c (backend_name_for_index snapshot i c) now \<noteq> []))"
    using resolve_none_iff [OF assms, where now = now] has_candidate_iff [of lib snapshot now refs] ref_candidate_iff [of lib snapshot now]
    by metis
qed (rule impI, rule resolve_selected_no_error [OF assms])

theorem backend_choice_live_witness:
  "\<exists>b. fst (resolve_http_backend_refs_with_session sample_lib sample_snapshot [sample_ref ''web'' 3, sample_ref ''api'' 1]
      None RequestMeta_default (\<lambda>_. None) sample_world) = \<lparr> hb_selected = Some b, hb_error = None \<rparr>"
proof -
  let ?r = "fst (resolve_http_backend_refs_with_session sample_lib sample_snapshot [sample_ref ''web'' 3, sample_ref ''api'' 1]
      None RequestMeta_default (\<lambda>_. None) sample_world)"
  note live = backend_choice_live [OF sample_fits(2,3), where now = 0]
  have "hb_selected ?r \<noteq> None" unfolding conjunct1 [OF live]
    unfolding ref_candidate_iff [symmetric] has_candidate_iff [symmetric] by (rule sample_has_candidate)
  moreover from this have "hb_error ?r = None" by (rule mp [OF conjunct2 [OF live]])
  ultimately show ?thesis by (cases ?r) auto
qed

text \<open>
  C27. When no backend can be selected the error tells why: \<open>NoHealthyBackends\<close> (answered with 503)
  if some weighted reference resolves to a backend, \<open>InvalidBackendRefs\<close> (answered with 500) if
  weighted references exist but none resolves, and no error if nothing has a weight.
\<close>

theorem backend_error_classified:
  assumes "candidates lib snapshot now refs = []"
  shows "hb_error (fst (resolve_http_backend_refs_with_session lib snapshot refs route_session request resolver w)) =
    (if \<exists>r \<in> set refs. br_weight r \<noteq> 0 \<and> find_backend_cluster_index snapshot r \<noteq> None then Some NoHealthyBackends
     else if \<exists>r \<in> set refs. br_weight r \<noteq> 0 then Some InvalidBackendRefs else None)"
proof -
  have "ref_candidate lib snapshot now r = None" if "r \<in> set refs" for r
    using assms candidates_mem_iff [of _ lib snapshot now refs] that by (cases "ref_candidate lib snapshot now r") auto
  then have "(\<exists>r \<in> set refs. unhealthy_ref lib snapshot now r) =
      (\<exists>r \<in> set refs. br_weight r \<noteq> 0 \<and> find_backend_cluster_index snapshot r \<noteq> None)"
    by (auto simp: unhealthy_ref_def)
  then show ?thesis unfolding resolve_error [OF assms] by (auto simp: invalid_ref_def)
qed

theorem backend_error_classified_witness:
  "hb_error (fst (resolve_http_backend_refs_with_session sample_lib empty_snapshot [sample_ref ''web'' 3]
      None RequestMeta_default (\<lambda>_. None) sample_world)) = Some InvalidBackendRefs"
proof -
  have f: "find_backend_cluster_index empty_snapshot (sample_ref ''web'' 3) = None"
    by (simp add: find_backend_cluster_index_def sample_ref_def backend_ref_is_routable_def
        backend_cluster_for_service_index_def empty_snapshot_def)
  then have "candidates sample_lib empty_snapshot 0 [sample_ref ''web'' 3] = []" by (simp add: ref_candidate_def)
  from backend_error_classified [OF this] f show ?thesis by simp
qed

text \<open>
  C7. Weights are met exactly. Without sessions and hashing, over as many resolutions with
  consecutive backend tickets as the candidates weigh together, each backend is chosen as often as
  its references weigh.
\<close>

theorem backend_weights_met:
  assumes "clusters_fit snapshot" and "weights_fit refs"
    and "\<And>t. hash_key_for (effective_policy lib snapshot t refs) request = None"
    and "\<And>k. ss_backend_cursor (w_selection (ws k)) = t + of_nat k"
    and "W = sum_list (map weight_of (candidates lib snapshot now refs))" and "(unat t + W) * W \<le> 2 ^ 64"
  shows "card {k. k < W \<and> map_option rb_backend_name (hb_selected (fst
      (resolve_http_backend_refs_with_session lib snapshot refs route_session request (\<lambda>_. None) (ws k)))) = Some name} =
    sum_list (map weight_of (filter (\<lambda>c. ca_backend_name c = name) (candidates lib snapshot now refs)))"
  by (rule weights_respected [OF assms(1,2) _ _ assms(5,6)]) (rule assms(3), rule assms(4))

lemma no_policies_no_hash:
  assumes "sn_backend_policies snapshot = []"
  shows "hash_key_for (effective_policy lib snapshot t refs) request = None"
proof -
  have lb: "backend_load_balancing snapshot name = None" for name
    using assms by (simp add: backend_load_balancing_def backend_policy_def)
  have "cv_effective_load_balancing v = None \<Longrightarrow>
      cv_effective_load_balancing (foldl (mark_ref lib snapshot t) v refs) = None" for v
  proof (induction refs arbitrary: v)
    case (Cons r refs)
    have "cv_effective_load_balancing (mark_ref lib snapshot t v r) = None"
      using Cons.prems by (auto simp: mark_ref_def lb observe_candidate_def Let_def split: option.split)
    then show ?case using Cons.IH by simp
  qed simp
  then show ?thesis
    by (simp add: effective_policy_def visit_http_backend_candidates_def visit_candidates_outcome hash_key_for_def
        BackendCandidateVisit_default_def)
qed

theorem backend_weights_met_witness:
  "card {k. k < 4 \<and> map_option rb_backend_name (hb_selected (fst (resolve_http_backend_refs_with_session sample_lib sample_snapshot
      [sample_ref ''web'' 3, sample_ref ''api'' 1] None RequestMeta_default (\<lambda>_. None)
      (sample_world\<lparr> w_selection := \<lparr> ss_backend_cursor = 9 + of_nat k, ss_endpoint_cursor = 0, ss_mirror_cursor = 0 \<rparr> \<rparr>)))) =
    Some ''ns/web:80''} = 3"
proof -
  let ?ws = "\<lambda>k. sample_world\<lparr> w_selection := \<lparr> ss_backend_cursor = 9 + of_nat k, ss_endpoint_cursor = 0, ss_mirror_cursor = 0 \<rparr> \<rparr>"
  let ?refs = "[sample_ref ''web'' 3, sample_ref ''api'' 1]"
  let ?cs = "candidates sample_lib sample_snapshot 0 ?refs"
  have m: "map weight_of ?cs = [3, 1]" by (subst sample_candidates) (simp_all add: weight_of_def)
  have w: "sum_list (map weight_of (filter (\<lambda>c. ca_backend_name c = ''ns/web:80'') ?cs)) = 3"
    by (subst sample_candidates) (simp_all add: weight_of_def)
  have "card {k. k < 4 \<and> map_option rb_backend_name (hb_selected (fst (resolve_http_backend_refs_with_session sample_lib sample_snapshot
      ?refs None RequestMeta_default (\<lambda>_. None) (?ws k)))) = Some ''ns/web:80''} =
      sum_list (map weight_of (filter (\<lambda>c. ca_backend_name c = ''ns/web:80'') ?cs))"
    by (rule backend_weights_met [where t = 9 and ws = ?ws, OF sample_fits(2,3) no_policies_no_hash], unfold m)
      (simp_all add: sample_snapshot_def empty_snapshot_def)
  then show ?thesis unfolding w .
qed

end
