(* ===== verification/Shadowed_Weights.thy ===== *)
theory Shadowed_Weights
  imports Balancing
begin

text \<open>
  A defect of the HTTP selection. \<open>select_http_route\<close> resolves the
  backends of every rule that matches before it compares the scores, and every resolution draws a
  backend ticket. A rule that always wins against exactly one other matching rule therefore sees
  every second ticket only, and a backend whose share lies on the other tickets gets no traffic. It is shown for a rule with
  the weights three and one, on a snapshot with built indexes, against a losing rule with any references.
\<close>

section \<open>Tickets a selection draws\<close>

lemma pick_cursor:
  "ss_backend_cursor (w_selection (snd (pick_result lib s session w c))) = ss_backend_cursor (w_selection w)"
  by (auto simp: pick_result_def select_cluster_endpoint_def instant_now_def next_endpoint_ticket_def Let_def split: prod.splits)

lemma ticket_drawn:
  assumes "weights_fit refs" and "candidates lib s now refs \<noteq> []" and "sn_backend_policies s = []" and "clusters_fit s"
  obtains c where "chosen_candidate lib s refs (ss_backend_cursor (w_selection w)) = Some c"
    and "map_option rb_backend_name (hb_selected (fst (resolve_http_backend_refs_with_session lib s refs session request (\<lambda>_. None) w))) = Some (ca_backend_name c)"
    and "ss_backend_cursor (w_selection (snd (resolve_http_backend_refs_with_session lib s refs session request (\<lambda>_. None) w))) =
      ss_backend_cursor (w_selection w) + 1"
proof -
  note hash = no_policies_no_hash [OF assms(3)]
  obtain c where c: "chosen_candidate lib s refs (ss_backend_cursor (w_selection w)) = Some c"
    "map_option rb_backend_name (hb_selected (fst (resolve_http_backend_refs_with_session lib s refs session request (\<lambda>_. None) w))) = Some (ca_backend_name c)"
    using resolution_by_ticket [OF assms(4,1,2) hash, of w] by blast
  obtain w' where "w_selection w' = (w_selection w)\<lparr> ss_backend_cursor := ss_backend_cursor (w_selection w) + 1 \<rparr>"
      "resolve_weighted_http_backend lib s refs session request w = map_prod the id (pick_result lib s session w' c)"
    using weighted_by_ticket [OF assms(1,2) hash c(1)] by blast
  then have "ss_backend_cursor (w_selection (snd (resolve_http_backend_refs_with_session lib s refs session request (\<lambda>_. None) w))) =
      ss_backend_cursor (w_selection w) + 1"
    by (simp add: no_session_resolution pick_cursor)
  from that [OF c this] show ?thesis .
qed

text \<open>Candidates depend on the tables of backends and of endpoint states only, as long as no index is used.\<close>

lemma candidates_same_tables:
  assumes "\<not> sn_runtime_indexes_ready s" and "\<not> sn_runtime_indexes_ready s'"
    and "sn_backends s = sn_backends s'" and "sn_endpoint_runtime s = sn_endpoint_runtime s'"
  shows "candidates lib s now refs = candidates lib s' now refs"
proof -
  have a: "endpoint_availability_at lib s = endpoint_availability_at lib s'"
    by (intro ext) (simp add: endpoint_availability_at_def assms(4))
  have e: "eligible_endpoints lib s = eligible_endpoints lib s'"
    unfolding fun_eq_iff eligible_endpoints_def endpoint_matches_selection_availability_def endpoint_selection_availability_def a by simp
  have f: "find_backend_cluster_index s r = find_backend_cluster_index s' r" "backend_name_for_index s i c = backend_name_for_index s' i c" for r i c
    using assms by (simp_all add: find_backend_cluster_index_def backend_cluster_for_service_index_def backend_name_for_index_def)
  have "ref_candidate lib s now = ref_candidate lib s' now" unfolding fun_eq_iff ref_candidate_def e f by simp
  then show ?thesis by (simp add: candidates_def)
qed

lemma even_target: "even (unat t) \<Longrightarrow> even (unat (spread_weighted_target t 4))"
proof -
  assume e: "even (unat t)"
  have "unat (t * s mod 4) = (unat t * unat s) mod 2 ^ 64 mod 4" for s
    by (simp add: unat_mod_distrib unat_word_ariths)
  moreover have "even ((unat t * n) mod 2 ^ 64 mod 4)" for n
    using e by (simp add: mod_mod_cancel even_even_mod_4_iff [symmetric])
  ultimately show ?thesis by (simp add: spread_weighted_target_def)
qed

lemma even_picks_web:
  assumes "even (unat t)"
  shows "map_option ca_backend_name (chosen_candidate sample_lib sample_snapshot [sample_ref ''web'' 3, sample_ref ''api'' 1] t) = Some ''ns/web:80''"
proof -
  let ?u = "unat (spread_weighted_target t 4)"
  have "spread_weighted_target t 4 < 4" by (rule spread_target_bound) simp
  then have "?u < 4" by (simp add: word_less_nat_alt)
  then have "?u = 0 \<or> ?u = 2" using even_target [OF assms] by presburger
  then have "weighted_pick [3, 1] ?u = Some 0" by auto
  then show ?thesis
    unfolding chosen_candidate_def Let_def by (subst (1 2 3) sample_candidates) (simp_all add: total_weight_of_def weight_of_def)
qed

section \<open>A configuration with a shadowed rule\<close>

text \<open>
  The route \<open>shop\<close> has the host of the request and one rule, of weights three and one. The route \<open>any\<close> matches every
  request too, with a rule of references that are given, and loses.
\<close>

definition shadow_snapshot :: "BackendRef list \<Rightarrow> Snapshot" where
  "shadow_snapshot refs = sample_snapshot\<lparr> sn_http_routes :=
     [sample_route ''shop'' [''shop.example''] [sample_rule ''/'' [sample_ref ''web'' 3, sample_ref ''api'' 1]],
      sample_route ''any'' [] [sample_rule ''/'' refs]] \<rparr>"

definition shop_request :: RequestMeta where
  "shop_request = sample_request ''shop.example'' ''/''"

definition web_match :: MatchedListener where
  "web_match = \<lparr> ml_listener_index = 0, ml_listener = sample_listener, ml_host_score = HostnameScore_default \<rparr>"

text \<open>The tables of this configuration, in a snapshot that is searched without indexes.\<close>

definition shadow_tables :: "BackendRef list \<Rightarrow> Snapshot \<Rightarrow> bool" where
  "shadow_tables refs s \<longleftrightarrow> \<not> sn_runtime_indexes_ready s \<and> sn_listeners s = [sample_listener]
     \<and> sn_http_routes s = sn_http_routes (shadow_snapshot refs) \<and> sn_backends s = sn_backends sample_snapshot
     \<and> sn_backend_policies s = [] \<and> sn_endpoint_runtime s = sn_endpoint_runtime sample_snapshot"

lemma shadow_rebuilt: "shadow_tables refs (unindexed (rebuild_runtime_indexes sample_lib (shadow_snapshot refs)))"
proof -
  have "compile_http_match sample_lib (sample_match p) = sample_match p" for p
    by (simp add: compile_http_match_def sample_match_def compile_regex_def)
  then have "sn_http_routes (compile_matchers sample_lib (shadow_snapshot refs)) = sn_http_routes (shadow_snapshot refs)"
    by (simp add: compile_matchers_def shadow_snapshot_def sample_route_def sample_rule_def)
  then show ?thesis
    by (simp add: shadow_tables_def rebuild_routes rebuild_tables)
      (simp add: shadow_snapshot_def sample_snapshot_def empty_snapshot_def rebuild_runtime_indexes_def rebuild_route_indexes_def
        rebuild_runtime_ids_def rebuild_backend_indexes_def compile_matchers_def Let_def)
qed

lemma shadow_candidates:
  "shadow_tables refs s \<Longrightarrow> candidates sample_lib s now rs = candidates sample_lib sample_snapshot now rs"
  by (rule candidates_same_tables) (simp_all add: shadow_tables_def sample_snapshot_def empty_snapshot_def)

lemma shadow_listeners:
  assumes "shadow_tables refs s"
  shows "matched_listeners s (Some ''shop.example'') 80 KindHttp = \<lparr> cl_listeners = [web_match], cl_enforce_attachments = True \<rparr>"
    and "route_listener_match s \<lparr> cl_listeners = [web_match], cl_enforce_attachments = True \<rparr> ''ns'' ''shop'' = Some web_match"
    and "route_listener_match s \<lparr> cl_listeners = [web_match], cl_enforce_attachments = True \<rparr> ''ns'' ''any'' = Some web_match"
proof -
  note s = assms [unfolded shadow_tables_def]
  show "matched_listeners s (Some ''shop.example'') 80 KindHttp = \<lparr> cl_listeners = [web_match], cl_enforce_attachments = True \<rparr>"
    by (subst matched_listeners_eq) (use s in \<open>simp_all add: candidate_listeners_def listener_scores_def kept_listeners_def sample_listener_def
      List.map_filter_simps best_hostname_score_def listener_hostname_score_eq max_by_def is_http_listener_def web_match_def\<close>)
  show "route_listener_match s \<lparr> cl_listeners = [web_match], cl_enforce_attachments = True \<rparr> ''ns'' ''shop'' = Some web_match"
    "route_listener_match s \<lparr> cl_listeners = [web_match], cl_enforce_attachments = True \<rparr> ''ns'' ''any'' = Some web_match"
    using s by (simp_all add: route_listener_match_def sample_listener_def max_by_def route_attachment_matches_def web_match_def)
qed

lemma root_rule_matches: "best_http_rule_match sample_lib (sample_rule ''/'' refs) shop_request = Some (http_rule_score (sample_match ''/''))"
  by (simp add: best_http_rule_match_def sample_rule_def sample_match_def shop_request_def sample_request_def RequestMeta_default_def matches_http_rule_def
    matches_http_path_def matches_path_prefix_def starts_with_def max_by_def matches_method_def matches_headers_def matches_query_params_def)

lemma shop_hosts: "best_hostname_score [''shop.example''] (Some ''shop.example'') = Some (HostnameScore 2 12)" "best_hostname_score [] (Some ''shop.example'') = Some HostnameScore_default"
  by code_simp+

section \<open>One selection\<close>

lemma shop_resolution:
  assumes s: "shadow_tables refs s" and e: "even (unat (ss_backend_cursor (w_selection w)))"
    and res: "resolve_http_backend_refs_with_session sample_lib s [sample_ref ''web'' 3, sample_ref ''api'' 1] None shop_request (\<lambda>_. None) w = (res, w1)"
  shows "map_option rb_backend_name (hb_selected res) = Some ''ns/web:80''" and "ss_backend_cursor (w_selection w1) = ss_backend_cursor (w_selection w) + 1"
proof -
  let ?refs = "[sample_ref ''web'' 3, sample_ref ''api'' 1]"
  note cs = shadow_candidates [OF s]
  have "candidates sample_lib s 0 ?refs \<noteq> []" unfolding cs by (rule sample_has_candidate)
  moreover have "sn_backend_policies s = []" "clusters_fit s" using s sample_fits(2) by (simp_all add: shadow_tables_def clusters_fit_def)
  ultimately obtain c where c: "chosen_candidate sample_lib s ?refs (ss_backend_cursor (w_selection w)) = Some c"
    "map_option rb_backend_name (hb_selected res) = Some (ca_backend_name c)" "ss_backend_cursor (w_selection w1) = ss_backend_cursor (w_selection w) + 1"
    using ticket_drawn [OF sample_fits(3), where w = w and session = None and request = shop_request and s = s] res by (metis fst_conv snd_conv)
  have "chosen_candidate sample_lib s ?refs t = chosen_candidate sample_lib sample_snapshot ?refs t" for t
    by (simp only: chosen_candidate_def cs)
  with even_picks_web [OF e] c show "map_option rb_backend_name (hb_selected res) = Some ''ns/web:80''"
    "ss_backend_cursor (w_selection w1) = ss_backend_cursor (w_selection w) + 1" by simp_all
qed

lemma shop_selection:
  assumes s: "shadow_tables refs s" and fit: "weights_fit refs" and ne: "candidates sample_lib sample_snapshot 0 refs \<noteq> []"
    and e: "even (unat (ss_backend_cursor (w_selection w)))"
  shows "\<exists>r w'. select_http_route sample_lib s shop_request (\<lambda>_. None) w = (Some r, w') \<and> sh_backend_name r = Some ''ns/web:80''
     \<and> sh_route_name r = ''shop'' \<and> ss_backend_cursor (w_selection w') = ss_backend_cursor (w_selection w) + 2"
proof -
  let ?refs = "[sample_ref ''web'' 3, sample_ref ''api'' 1]"
  have pol: "sn_backend_policies s = []" "clusters_fit s" using s sample_fits(2) by (simp_all add: shadow_tables_def clusters_fit_def)
  obtain res w1 where r1: "resolve_http_backend_refs_with_session sample_lib s ?refs None shop_request (\<lambda>_. None) w = (res, w1)" by fastforce
  note a = shop_resolution [OF s e r1]
  obtain res2 w2 where r2: "resolve_http_backend_refs_with_session sample_lib s refs None shop_request (\<lambda>_. None) w1 = (res2, w2)" by fastforce
  have "candidates sample_lib s 0 refs \<noteq> []" using ne by (simp add: shadow_candidates [OF s])
  then have b: "ss_backend_cursor (w_selection w2) = ss_backend_cursor (w_selection w1) + 1"
    using ticket_drawn [OF fit _ pol, where w = w1 and session = None and request = shop_request] r2 by (metis snd_conv)
  have q: "rq_host shop_request = Some ''shop.example''" "rq_port shop_request = 80" by (simp_all add: shop_request_def sample_request_def RequestMeta_default_def)
  have f: "hr_backend_refs (sample_rule p rs) = rs" "hr_session_persistence (sample_rule p rs) = None" "hr_filters (sample_rule p rs) = []" for p rs by (simp_all add: sample_rule_def)
  have rt: "sn_http_routes s = [sample_route ''shop'' [''shop.example''] [sample_rule ''/'' ?refs], sample_route ''any'' [] [sample_rule ''/'' refs]]"
    and n: "\<not> sn_runtime_indexes_ready s" using s by (simp_all add: shadow_tables_def shadow_snapshot_def)
  have fs: "hroute_name (sample_route n h rs) = n" "hroute_namespace (sample_route n h rs) = ''ns''" "hroute_hostnames (sample_route n h rs) = h" "hroute_rules (sample_route n h rs) = rs" for n h rs by (simp_all add: sample_route_def)
  have v: "visit_http_route_candidates s h v st = visit_while v (sn_http_routes s) st" for h v st
    using hostname_scan.visit_eq_scan [of "sn_http_routes s" v _ h st] by (simp add: visit_http_route_candidates_def n)
  obtain p sc where ps: "http_rule_score (sample_match ''/'') = (p, sc)" by fastforce
  obtain bk where bk: "hb_selected res = Some bk" "rb_backend_name bk = ''ns/web:80''" using a(1) by auto
  have less: "HttpCandidateScore l HostnameScore_default sc \<le> HttpCandidateScore l (HostnameScore 2 12) sc" for l
    by (simp add: less_eq_HttpCandidateScore_def less_eq_prod_def less_prod_def less_HostnameScore_def HostnameScore_default_def)
  show ?thesis
    by (simp add: select_http_route_def q shadow_listeners [OF s] v rt Let_def)
      (simp add: consider_http_route_def fs shadow_listeners [OF s] q shop_hosts Let_def consider_http_rule_def root_rule_matches f r1 r2 ps bk less selected_http_route_def a b)
qed

text \<open>
  C38. A rule that loses starves a backend of the rule that wins. The winning rule gives \<open>web\<close> three parts and \<open>api\<close> one.
  With one other matching rule, whatever references it has, as long as one of them can be served, and the indexes
  built, all requests from an even ticket on go to \<open>web\<close>: the rule that loses takes every second ticket.
\<close>

theorem shadowed_weight_starves:
  assumes "weights_fit refs" and "candidates sample_lib (shadow_snapshot refs) 0 refs \<noteq> []"
    and "even (unat (ss_backend_cursor (w_selection w)))"
  shows "\<exists>r. fst (select_http_route sample_lib (rebuild_runtime_indexes sample_lib (shadow_snapshot refs)) shop_request (\<lambda>_. None)
      (((\<lambda>w. snd (select_http_route sample_lib (rebuild_runtime_indexes sample_lib (shadow_snapshot refs)) shop_request (\<lambda>_. None) w)) ^^ k) w)) = Some r
    \<and> sh_route_name r = ''shop'' \<and> sh_backend_name r = Some ''ns/web:80''"
proof -
  let ?s = "rebuild_runtime_indexes sample_lib (shadow_snapshot refs)"
  have "distinct_names (shadow_snapshot refs)" by (simp add: distinct_names_def shadow_snapshot_def sample_defs)
  then have un: "select_http_route sample_lib ?s shop_request resolver w = select_http_route sample_lib (unindexed ?s) shop_request resolver w" for resolver w
    by (intro select_http_route_unindexed rebuild_indexed) (simp add: rebuild_distinct)
  have "candidates sample_lib (shadow_snapshot refs) 0 refs = candidates sample_lib sample_snapshot 0 refs"
    by (rule candidates_same_tables) (simp_all add: shadow_snapshot_def sample_snapshot_def empty_snapshot_def)
  then have ne: "candidates sample_lib sample_snapshot 0 refs \<noteq> []" using assms(2) by simp
  note one = shop_selection [OF shadow_rebuilt assms(1) ne, folded un]
  let ?f = "\<lambda>w. snd (select_http_route sample_lib ?s shop_request (\<lambda>_. None) w)"
  have "even (unat (ss_backend_cursor (w_selection ((?f ^^ k) w))))"
  proof (induction k)
    case (Suc k)
    from one [OF Suc] obtain w' where w': "?f ((?f ^^ k) w) = w'"
      "ss_backend_cursor (w_selection w') = ss_backend_cursor (w_selection ((?f ^^ k) w)) + 2" by auto
    have "even (unat (c + 2 :: u64))" if "even (unat c)" for c
      using that by (simp add: unat_word_ariths dvd_mod)
    with Suc w' show ?case by simp
  qed (simp add: assms(3))
  from one [OF this] show ?thesis by auto
qed

text \<open>A losing rule with the same weights.\<close>

theorem shadowed_weight_starves_witness:
  "\<forall>k. \<exists>r. fst (select_http_route sample_lib (rebuild_runtime_indexes sample_lib (shadow_snapshot [sample_ref ''web'' 3, sample_ref ''api'' 1])) shop_request (\<lambda>_. None)
      (((\<lambda>w. snd (select_http_route sample_lib (rebuild_runtime_indexes sample_lib (shadow_snapshot [sample_ref ''web'' 3, sample_ref ''api'' 1]))
          shop_request (\<lambda>_. None) w)) ^^ k) sample_world)) = Some r
    \<and> sh_route_name r = ''shop'' \<and> sh_backend_name r = Some ''ns/web:80''"
proof
  fix k
  let ?refs = "[sample_ref ''web'' 3, sample_ref ''api'' 1]"
  have "candidates sample_lib (shadow_snapshot ?refs) 0 ?refs = candidates sample_lib sample_snapshot 0 ?refs"
    by (rule candidates_same_tables) (simp_all add: shadow_snapshot_def sample_snapshot_def empty_snapshot_def)
  then have "candidates sample_lib (shadow_snapshot ?refs) 0 ?refs \<noteq> []" using sample_has_candidate by simp
  from shadowed_weight_starves [OF sample_fits(3) this, of sample_world k]
  show "\<exists>r. fst (select_http_route sample_lib (rebuild_runtime_indexes sample_lib (shadow_snapshot ?refs)) shop_request (\<lambda>_. None)
      (((\<lambda>w. snd (select_http_route sample_lib (rebuild_runtime_indexes sample_lib (shadow_snapshot ?refs)) shop_request (\<lambda>_. None) w)) ^^ k) sample_world)) = Some r
    \<and> sh_route_name r = ''shop'' \<and> sh_backend_name r = Some ''ns/web:80''" by (simp add: sample_world_def)
qed

end
