(* ===== verification/Routing_Properties.thy ===== *)
theory Routing_Properties
  imports Sample_Config
begin

text \<open>
  Properties of the parts the selections are made of: paths, hostnames, compiled matchers,
  listeners, attachments, service lookups and the spread of tickets.
\<close>

section \<open>Paths and hostnames\<close>

text \<open>
  A path prefix matches whole segments: \<open>/\<close> matches everything, and any other prefix matches a path
  that starts with it and goes on, if at all, at a slash.
\<close>

theorem path_prefix_matches_segments:
  "matches_path_prefix pre path \<longleftrightarrow> pre = ''/'' \<or> (\<exists>rest. path = pre @ rest
     \<and> (rest = [] \<or> ends_with_char pre CHR ''/'' \<or> hd rest = CHR ''/''))"
  by (rule matches_path_prefix_iff)

text \<open>
  A hostname pattern \<open>*.suffix\<close> matches the hosts that have at least a label, possibly several,
  before the suffix; any other pattern matches the same host only. Letter case does not matter.
\<close>

theorem hostname_pattern_matches:
  "hostname_matches pattern host \<longleftrightarrow> (case strip_prefix ''*.'' (normalize_host_ref pattern) of
     Some suffix \<Rightarrow> \<exists>label tail. host = label @ ''.'' @ tail \<and> eq_ignore_ascii_case tail suffix
   | None \<Rightarrow> eq_ignore_ascii_case (normalize_host_ref pattern) host)"
  by (cases "strip_prefix ''*.'' (normalize_host_ref pattern)") (simp_all add: hostname_matches_wildcard hostname_matches_exact)

text \<open>
  Compiling the matchers of a rule, which lower-cases header names and builds the regular
  expressions once, does not change what the rule matches.
\<close>

theorem compiled_match_same:
  assumes "http_match_consistent lib m"
  shows "matches_http_rule lib (compile_http_match lib m) request = matches_http_rule lib m request"
  by (rule matches_http_rule_compiled [OF assms])

theorem compiled_match_same_witness:
  "matches_http_rule sample_lib (compile_http_match sample_lib (sample_match ''/api'')) (sample_request ''h'' ''/api/x'') =
    matches_http_rule sample_lib (sample_match ''/api'') (sample_request ''h'' ''/api/x'')"
  by (rule compiled_match_same) (simp add: http_match_consistent_def sample_match_def regex_consistent_def)

text \<open>
  Exact hostnames are compared with their letter case when a route is scored, although matching
  and the hostname index ignore it: a listener or route for \<open>Shop.example\<close> does not serve the host
  \<open>shop.example\<close>, which its pattern matches.
\<close>

theorem exact_hostname_score_case_sensitive:
  "hostname_matches ''Shop.example'' ''shop.example'' \<and> best_hostname_score [''Shop.example''] (Some ''shop.example'') = None"
proof
  show "hostname_matches ''Shop.example'' ''shop.example''" by code_simp
  have "normalize_host_ref ''Shop.example'' = ''Shop.example''" by code_simp
  moreover have "normalize_host_ref ''shop.example'' = ''shop.example''" by code_simp
  moreover have "strip_prefix ''*.'' ''Shop.example'' = None" by code_simp
  ultimately show "best_hostname_score [''Shop.example''] (Some ''shop.example'') = None"
    by (simp add: best_hostname_score_def hostname_match_score_def map_filter_simps max_by_def)
qed

section \<open>Listeners and attachments\<close>

lemma max_by_id_iff: "max_by (\<lambda>x. x) xs = Some m \<longleftrightarrow> m \<in> set xs \<and> (\<forall>x \<in> set xs. x \<le> m)"
proof
  assume m: "max_by (\<lambda>x. x) xs = Some m"
  show "m \<in> set xs \<and> (\<forall>x \<in> set xs. x \<le> m)" using max_by_SomeD [OF m] by blast
next
  assume m: "m \<in> set xs \<and> (\<forall>x \<in> set xs. x \<le> m)"
  then have "xs \<noteq> []" by auto
  then obtain b where b: "max_by (\<lambda>x. x) xs = Some b" using max_by_nonempty by blast
  have "b = m" using m max_by_SomeD [OF b] by (intro antisym) auto
  then show "max_by (\<lambda>x. x) xs = Some m" using b by simp
qed

lemma listener_scores_iff:
  "sc \<in> set (listener_scores host cs) \<longleftrightarrow> (\<exists>c \<in> set cs. listener_hostname_score (snd c) host = Some sc)"
  unfolding listener_scores_def by (simp add: set_map_filter case_prod_unfold)

lemma kept_listeners_iff:
  "m \<in> set (kept_listeners host b cs) \<longleftrightarrow> (ml_listener_index m, ml_listener m) \<in> set cs
     \<and> listener_hostname_score (ml_listener m) host = Some (ml_host_score m) \<and> b = Some (ml_host_score m)"
proof (cases m)
  case (fields i l sc)
  then show ?thesis
    by (force simp: kept_listeners_def set_map_filter split: option.splits if_splits)
qed

lemma kept_best_iff:
  "m \<in> set (kept_listeners host (max_by (\<lambda>x. x) (listener_scores host cs)) cs) \<longleftrightarrow>
     (ml_listener_index m, ml_listener m) \<in> set cs \<and> listener_hostname_score (ml_listener m) host = Some (ml_host_score m)
     \<and> (\<forall>c \<in> set cs. \<forall>sc. listener_hostname_score (snd c) host = Some sc \<longrightarrow> sc \<le> ml_host_score m)"
  unfolding kept_listeners_iff max_by_id_iff Ball_def listener_scores_iff by (metis snd_conv)

text \<open>
  On a ready snapshot the listeners considered for a request are those of the right protocol and
  port whose hostnames match the host best: each of them has the highest score of all candidates,
  and no candidate with that score is left out.
\<close>

theorem matched_listeners_are_best:
  fixes lib s host port kind
  defines "r \<equiv> rebuild_runtime_indexes lib s"
  shows "m \<in> set (cl_listeners (matched_listeners r host port kind)) \<longleftrightarrow>
    (ml_listener_index m, ml_listener m) \<in> set (candidate_listeners r port kind)
    \<and> listener_hostname_score (ml_listener m) host = Some (ml_host_score m)
    \<and> (\<forall>c \<in> set (candidate_listeners r port kind). \<forall>sc. listener_hostname_score (snd c) host = Some sc \<longrightarrow> sc \<le> ml_host_score m)"
proof -
  have "sn_runtime_indexes_ready r \<Longrightarrow> listener_indexed r"
    using rebuild_indexed [of lib s] by (simp add: r_def runtime_indexed_def)
  from matched_listeners_eq [OF this, of host port kind] show ?thesis by (simp add: kept_best_iff)
qed

theorem matched_listeners_are_best_witness:
  "\<lparr> ml_listener_index = 0, ml_listener = sample_listener, ml_host_score = HostnameScore_default \<rparr>
     \<in> set (cl_listeners (matched_listeners (rebuild_runtime_indexes sample_lib sample_snapshot) (Some ''h'') 80 KindHttp))"
  unfolding matched_listeners_are_best
  by (simp add: candidate_listeners_def rebuild_tables sample_snapshot_def sample_listener_def listener_hostname_score_eq
      best_hostname_score_def is_http_listener_def)

text \<open>
  The attachment index answers exactly whether a listener lists a route: \<open>i\<close> is indexed for the
  route \<open>ns/n\<close> if and only if listener \<open>i\<close> has an attachment of that namespace and name.
\<close>

theorem attachment_index_exact:
  "contains_listener (from_listeners listeners) ns n i \<longleftrightarrow>
     i < length listeners \<and> (\<exists>a \<in> set (ls_attached_routes (listeners ! i)). route_attachment_matches a ns n)"
  by (rule contains_listener_iff)

text \<open>
  Every route is accepted by every service frontend: the check of the parent references never
  rejects, whatever the references are.
\<close>

theorem service_frontend_accepts_all:
  "route_accepts_service_frontend s parents ns l"
  by simp

section \<open>Services\<close>

text \<open>
  Port texts: the parser accepts exactly the decimal texts without leading zeros of the 32-bit
  numbers, and reads back what was printed.
\<close>

theorem port_text_roundtrip: "parse_decimal_port s = Some p \<longleftrightarrow> s = show_u32 p"
  by (rule parse_decimal_port_Some)

text \<open>
  On a ready snapshot with distinct backend names, looking a service up by namespace, name and
  port in the index returns the backend that a search of the table finds.
\<close>

theorem service_index_finds_backend:
  assumes "distinct_names s"
  shows "backend_cluster_for_service_index (rebuild_runtime_indexes lib s) ns n p =
    find (\<lambda>(_, c). bc_namespace c = ns \<and> bc_name c = n @ '':'' @ show_u32 p) (enumerate 0 (sn_backends s))"
proof -
  have "backend_cluster_matches_ref c ns n p \<longleftrightarrow> bc_namespace c = ns \<and> bc_name c = n @ '':'' @ show_u32 p" for c
    by (simp add: backend_cluster_matches_ref_def service_key_iff_matches_ref [symmetric] service_key_Some)
  then show ?thesis
    using service_lookup_eq [OF rebuild_indexed, of lib s] assms
    by (simp add: rebuild_distinct backend_cluster_for_service_index_def [of "unindexed _"] rebuild_tables)
qed

theorem service_index_finds_backend_witness:
  "map_option fst (backend_cluster_for_service_index (rebuild_runtime_indexes sample_lib sample_snapshot) ''ns'' ''api'' 80) = Some 1"
proof -
  have "distinct_names sample_snapshot" by (simp add: distinct_names_def sample_defs)
  from service_index_finds_backend [OF this, of sample_lib "''ns''" "''api''" 80] show ?thesis
    by (simp add: show_u32_80 sample_defs)
qed

section \<open>Tickets\<close>

text \<open>
  The spread of tickets is a permutation. Over one period, as many consecutive tickets as the
  total weight, every target below the total weight comes up exactly once, so nothing is skipped
  and nothing is counted twice; and a target is always below the total weight.
\<close>

theorem spread_targets_permute:
  assumes "0 < total_weight" and "(unat t + unat total_weight) * unat total_weight \<le> 2 ^ 64"
  shows "bij_betw (\<lambda>k. unat (spread_weighted_target (t + of_nat k) total_weight)) {0..<unat total_weight} {0..<unat total_weight}"
  by (rule spread_target_permutation [OF assms])

theorem spread_targets_permute_witness:
  "bij_betw (\<lambda>k. unat (spread_weighted_target (11 + of_nat k) 10)) {0..<unat (10 :: u64)} {0..<unat (10 :: u64)}"
  by (rule spread_targets_permute) (simp_all add: word_less_nat_alt)

text \<open>
  The Euclidean loop that looks for a stride ends and computes the greatest common divisor; a
  stride found with it is positive, below the total weight and coprime to it.
\<close>

theorem stride_coprime:
  assumes "1 < total_weight"
  shows "unat (gcd_loop a b) = gcd (unat a) (unat b) \<and> 0 < spread_weighted_stride total_weight
    \<and> spread_weighted_stride total_weight < total_weight \<and> coprime (unat (spread_weighted_stride total_weight)) (unat total_weight)"
  using stride_props [OF assms] by (simp add: gcd_loop_gcd)

theorem stride_coprime_witness:
  "coprime (unat (spread_weighted_stride 12)) (unat (12 :: u64))"
  using stride_coprime [of 12] by (simp add: word_less_nat_alt)

end
