(* ===== verification/Snapshot_Signal.thy ===== *)
theory Snapshot_Signal
  imports Prelude
begin

text \<open>
  The signal that announces new snapshots, \<open>SnapshotSignal\<close> of \<open>crates/ntgw-ir/src/lib.rs\<close>, as a step
  relation on interleaved threads. A call of \<open>notify_changed\<close> is four steps: the atomic increment
  of the generation, the store into the locked state, \<open>notify_all\<close> on the condition variable and the
  send on the watch channel. A call of \<open>wait_timeout\<close> looks at the state under the lock, sleeps while
  the state is not beyond what the caller observed, and looks again when it is woken; it also
  returns when it times out. Condition variables do not wake spuriously; the watch channel keeps
  its value when nobody is subscribed.
\<close>

section \<open>Threads and steps\<close>

datatype NotifierPc = NIdle | NFetched u64 | NStored u64 | NWoken u64

datatype WaiterPc = WIdle | WAwake u64 | WAsleep u64 | WDone u64 u64 bool

record SnapshotSignal =
  sg_generation :: u64
  sg_state :: u64
  sg_tx :: u64
  sg_receivers :: nat
  sg_notifiers :: "nat \<Rightarrow> NotifierPc"
  sg_waiters :: "nat \<Rightarrow> WaiterPc"

definition SnapshotSignal_default :: SnapshotSignal where
  "SnapshotSignal_default = \<lparr> sg_generation = 0, sg_state = 0, sg_tx = 0, sg_receivers = 0,
     sg_notifiers = (\<lambda>_. NIdle), sg_waiters = (\<lambda>_. WIdle) \<rparr>"

fun wake :: "WaiterPc \<Rightarrow> WaiterPc" where
  "wake (WAsleep observed) = WAwake observed"
| "wake pc = pc"

definition notify_fetch :: "nat \<Rightarrow> SnapshotSignal \<Rightarrow> SnapshotSignal" where
  "notify_fetch i s = s\<lparr> sg_generation := sg_generation s + 1,
     sg_notifiers := (sg_notifiers s)(i := NFetched (sg_generation s + 1)) \<rparr>"

definition notify_store :: "nat \<Rightarrow> u64 \<Rightarrow> SnapshotSignal \<Rightarrow> SnapshotSignal" where
  "notify_store i n s = s\<lparr> sg_state := n, sg_notifiers := (sg_notifiers s)(i := NStored n) \<rparr>"

definition notify_wake :: "nat \<Rightarrow> u64 \<Rightarrow> SnapshotSignal \<Rightarrow> SnapshotSignal" where
  "notify_wake i n s = s\<lparr> sg_notifiers := (sg_notifiers s)(i := NWoken n), sg_waiters := wake \<circ> sg_waiters s \<rparr>"

definition notify_send :: "nat \<Rightarrow> u64 \<Rightarrow> SnapshotSignal \<Rightarrow> SnapshotSignal" where
  "notify_send i n s = s\<lparr> sg_tx := (if sg_receivers s = 0 then sg_tx s else n),
     sg_notifiers := (sg_notifiers s)(i := NIdle) \<rparr>"

text \<open>One round of the loop of \<open>wait_timeout\<close>, under the lock.\<close>

definition wait_look :: "nat \<Rightarrow> u64 \<Rightarrow> SnapshotSignal \<Rightarrow> SnapshotSignal" where
  "wait_look j observed s = s\<lparr> sg_waiters := (sg_waiters s)
     (j := (if sg_state s \<le> observed then WAsleep observed else WDone observed (sg_state s) False)) \<rparr>"

inductive signal_step :: "SnapshotSignal \<Rightarrow> SnapshotSignal \<Rightarrow> bool" where
  fetch: "sg_notifiers s i = NIdle \<Longrightarrow> signal_step s (notify_fetch i s)"
| store: "sg_notifiers s i = NFetched n \<Longrightarrow> signal_step s (notify_store i n s)"
| wakes: "sg_notifiers s i = NStored n \<Longrightarrow> signal_step s (notify_wake i n s)"
| send: "sg_notifiers s i = NWoken n \<Longrightarrow> signal_step s (notify_send i n s)"
| subscribe: "signal_step s (s\<lparr> sg_receivers := sg_receivers s + 1 \<rparr>)"
| unsubscribe: "signal_step s (s\<lparr> sg_receivers := sg_receivers s - 1 \<rparr>)"
| enter: "sg_waiters s j = WIdle \<or> (\<exists>a b c. sg_waiters s j = WDone a b c) \<Longrightarrow>
    signal_step s (s\<lparr> sg_waiters := (sg_waiters s)(j := WAwake observed) \<rparr>)"
| look: "sg_waiters s j = WAwake observed \<Longrightarrow> signal_step s (wait_look j observed s)"
| timeout: "sg_waiters s j = WAsleep observed \<Longrightarrow>
    signal_step s (s\<lparr> sg_waiters := (sg_waiters s)(j := WDone observed (sg_state s) True) \<rparr>)"

inductive_cases signal_stepE: "signal_step s s'"

definition signal_reachable :: "SnapshotSignal \<Rightarrow> bool" where
  "signal_reachable = signal_step\<^sup>*\<^sup>* SnapshotSignal_default"

lemma signal_invariant:
  assumes "signal_reachable s" and "P SnapshotSignal_default" and "\<And>s s'. P s \<Longrightarrow> signal_step s s' \<Longrightarrow> P s'"
  shows "P s"
  using assms(1) unfolding signal_reachable_def by (induction rule: rtranclp_induct) (use assms(2,3) in auto)

lemmas signal_step_defs = notify_fetch_def notify_store_def notify_wake_def notify_send_def wait_look_def

section \<open>What waiting guarantees\<close>

definition has_stored :: "(nat \<Rightarrow> NotifierPc) \<Rightarrow> bool" where
  "has_stored f \<longleftrightarrow> (\<exists>i n. f i = NStored n)"

lemma has_stored_upd:
  "has_stored (f(i := NStored n))"
  "f i = NIdle \<Longrightarrow> has_stored (f(i := NFetched m)) = has_stored f"
  "f i = NWoken n \<Longrightarrow> has_stored (f(i := NIdle)) = has_stored f"
  unfolding has_stored_def by (metis NotifierPc.distinct fun_upd_apply)+

definition sleepers_justified :: "SnapshotSignal \<Rightarrow> bool" where
  "sleepers_justified s \<longleftrightarrow> (\<forall>j observed. sg_waiters s j = WAsleep observed \<longrightarrow>
     sg_state s \<le> observed \<or> has_stored (sg_notifiers s))"

lemma wake_asleep: "wake pc \<noteq> WAsleep observed"
  by (cases pc) simp_all

lemma sleepers_justified_step: "sleepers_justified s \<Longrightarrow> signal_step s s' \<Longrightarrow> sleepers_justified s'"
  by (erule signal_stepE)
    (auto simp: sleepers_justified_def signal_step_defs wake_asleep has_stored_upd split: if_splits)

definition answers_justified :: "SnapshotSignal \<Rightarrow> bool" where
  "answers_justified s \<longleftrightarrow> (\<forall>j observed v. sg_waiters s j = WDone observed v False \<longrightarrow> observed < v)"

lemma wake_done: "wake pc = WDone a b c \<longleftrightarrow> pc = WDone a b c"
  by (cases pc) simp_all

lemma answers_justified_step: "answers_justified s \<Longrightarrow> signal_step s s' \<Longrightarrow> answers_justified s'"
  by (erule signal_stepE) (auto simp: answers_justified_def signal_step_defs wake_done not_le split: if_splits)

text \<open>
  C23. No stored value is slept through. In every interleaving, a waiter that is asleep has observed a
  value at least as new as the state, unless a notifier that stored a newer one is about to wake
  it; and a waiter that returns without a time-out returns a value newer than the one it observed.
\<close>

theorem signal_wakes:
  assumes "signal_reachable s"
  shows "(sg_waiters s j = WAsleep observed \<longrightarrow> sg_state s \<le> observed \<or> (\<exists>i n. sg_notifiers s i = NStored n))
    \<and> (sg_waiters s j = WDone observed v False \<longrightarrow> observed < v)"
proof -
  have "sleepers_justified s" using assms _ sleepers_justified_step
    by (rule signal_invariant) (simp add: sleepers_justified_def SnapshotSignal_default_def)
  moreover have "answers_justified s" using assms _ answers_justified_step
    by (rule signal_invariant) (simp add: answers_justified_def SnapshotSignal_default_def)
  ultimately show ?thesis by (auto simp: sleepers_justified_def answers_justified_def has_stored_def)
qed

theorem signal_wakes_witness:
  "\<exists>s :: SnapshotSignal. sg_waiters s 0 = WAsleep 0 \<and> (sg_state s \<le> 0 \<or> (\<exists>i n. sg_notifiers s i = NStored n))"
proof -
  let ?s = "SnapshotSignal_default\<lparr> sg_waiters := (sg_waiters SnapshotSignal_default)(0 := WAwake 0) \<rparr>"
  have "signal_step SnapshotSignal_default ?s" by (rule enter) (simp add: SnapshotSignal_default_def)
  moreover have "signal_step ?s (wait_look 0 0 ?s)" by (rule look) simp
  ultimately have "signal_reachable (wait_look 0 0 ?s)"
    unfolding signal_reachable_def by (meson rtranclp.rtrancl_refl rtranclp.rtrancl_into_rtrancl)
  moreover have "sg_waiters (wait_look 0 0 ?s) 0 = WAsleep 0" by (simp add: wait_look_def SnapshotSignal_default_def)
  ultimately show ?thesis using signal_wakes [of "wait_look 0 0 ?s" 0 0] by (intro exI [of _ "wait_look 0 0 ?s"]) blast
qed

section \<open>Notifications that overlap\<close>

text \<open>
  C37. Overlapping notifications lose an update. Two threads can run \<open>notify_changed\<close> so that both
  calls complete, the generation is 2, the state is 1, and a waiter that has observed generation 1
  sleeps although generation 2 was announced and nobody will wake it.
\<close>

theorem overlapping_notifications_lose_wakeup:
  "\<exists>s. signal_reachable s \<and> (\<forall>i. sg_notifiers s i = NIdle) \<and> sg_generation s = 2 \<and> sg_state s = 1
     \<and> sg_waiters s 0 = WAsleep 1"
proof -
  let ?s0 = SnapshotSignal_default
  let ?s1 = "notify_fetch 0 ?s0"
  let ?s2 = "notify_fetch 1 ?s1"
  let ?s3 = "notify_send 1 2 (notify_wake 1 2 (notify_store 1 2 ?s2))"
  let ?s4 = "notify_send 0 1 (notify_wake 0 1 (notify_store 0 1 ?s3))"
  let ?s5 = "?s4\<lparr> sg_waiters := (sg_waiters ?s4)(0 := WAwake 1) \<rparr>"
  let ?s6 = "wait_look 0 1 ?s5"
  note defs = signal_step_defs SnapshotSignal_default_def
  have "signal_step ?s0 ?s1" by (rule fetch) (simp add: defs)
  moreover have "signal_step ?s1 ?s2" by (rule fetch) (simp add: defs)
  moreover have "signal_step ?s2 (notify_store 1 2 ?s2)" by (rule store) (simp add: defs)
  moreover have "signal_step (notify_store 1 2 ?s2) (notify_wake 1 2 (notify_store 1 2 ?s2))" by (rule wakes) (simp add: defs)
  moreover have "signal_step (notify_wake 1 2 (notify_store 1 2 ?s2)) ?s3" by (rule send) (simp add: defs)
  moreover have "signal_step ?s3 (notify_store 0 1 ?s3)" by (rule store) (simp add: defs)
  moreover have "signal_step (notify_store 0 1 ?s3) (notify_wake 0 1 (notify_store 0 1 ?s3))" by (rule wakes) (simp add: defs)
  moreover have "signal_step (notify_wake 0 1 (notify_store 0 1 ?s3)) ?s4" by (rule send) (simp add: defs)
  moreover have "signal_step ?s4 ?s5" by (rule enter) (simp add: defs)
  moreover have "signal_step ?s5 ?s6" by (rule look) simp
  ultimately have "signal_reachable ?s6"
    unfolding signal_reachable_def by (meson rtranclp.rtrancl_refl rtranclp.rtrancl_into_rtrancl)
  moreover have "(\<forall>i. sg_notifiers ?s6 i = NIdle) \<and> sg_generation ?s6 = 2 \<and> sg_state ?s6 = 1 \<and> sg_waiters ?s6 0 = WAsleep 1"
    by (simp add: defs)
  ultimately show ?thesis by blast
qed

section \<open>Notifications one at a time\<close>

text \<open>A step of a run in which a notification starts only when no other is under way.\<close>

definition serial_step :: "SnapshotSignal \<Rightarrow> SnapshotSignal \<Rightarrow> bool" where
  "serial_step s s' \<longleftrightarrow> signal_step s s' \<and>
     (sg_generation s' = sg_generation s \<or> (\<forall>i. sg_notifiers s i = NIdle))"

text \<open>Then at most one notifier is active, and it announces the current generation.\<close>

definition announces :: "u64 \<Rightarrow> u64 \<Rightarrow> NotifierPc \<Rightarrow> bool" where
  "announces generation state pc = (case pc of NIdle \<Rightarrow> state = generation | NFetched n \<Rightarrow> n = generation
     | NStored n \<Rightarrow> n = generation \<and> state = n | NWoken n \<Rightarrow> n = generation \<and> state = n)"

definition in_step :: "SnapshotSignal \<Rightarrow> bool" where
  "in_step s \<longleftrightarrow> (\<exists>i. announces (sg_generation s) (sg_state s) (sg_notifiers s i) \<and> (\<forall>k. k \<noteq> i \<longrightarrow> sg_notifiers s k = NIdle))"

lemma in_step_preserved:
  assumes "in_step s" and "serial_step s s'"
  shows "in_step s'"
proof -
  obtain i where i: "announces (sg_generation s) (sg_state s) (sg_notifiers s i)" "\<forall>k. k \<noteq> i \<longrightarrow> sg_notifiers s k = NIdle"
    using assms(1) by (auto simp: in_step_def)
  have only: "k = i" if "sg_notifiers s k \<noteq> NIdle" for k using i(2) that by blast
  have "signal_step s s'" using assms(2) by (simp add: serial_step_def)
  then show ?thesis
  proof cases
    case (fetch j)
    then have "\<forall>k. sg_notifiers s k = NIdle" using assms(2) by (auto simp: serial_step_def notify_fetch_def)
    then show ?thesis using fetch by (auto simp: in_step_def announces_def notify_fetch_def intro!: exI [of _ j])
  next
    case (store j n)
    then show ?thesis using i only [of j] by (auto simp: in_step_def announces_def notify_store_def intro!: exI [of _ j])
  next
    case (wakes j n)
    then show ?thesis using i only [of j] by (auto simp: in_step_def announces_def notify_wake_def intro!: exI [of _ j])
  next
    case (send j n)
    then show ?thesis using i only [of j] by (auto simp: in_step_def announces_def notify_send_def intro!: exI [of _ j])
  qed (use assms(1) in \<open>simp_all add: in_step_def wait_look_def\<close>)
qed

text \<open>
  C24. When notifications do not overlap nothing is lost: whenever no notification is under way, the
  state waiters compare with is the current generation.
\<close>

theorem serial_notifications_settle:
  assumes "serial_step\<^sup>*\<^sup>* SnapshotSignal_default s" and "\<forall>i. sg_notifiers s i = NIdle"
  shows "sg_state s = sg_generation s"
proof -
  have "in_step s" using assms(1)
  proof (induction rule: rtranclp_induct)
    case base
    show ?case by (simp add: in_step_def announces_def SnapshotSignal_default_def)
  qed (rule in_step_preserved)
  then show ?thesis using assms(2) by (auto simp: in_step_def announces_def)
qed

theorem serial_notifications_settle_witness:
  "\<exists>s :: SnapshotSignal. sg_generation s = 1 \<and> sg_state s = sg_generation s"
proof -
  let ?s1 = "notify_fetch 0 SnapshotSignal_default"
  let ?s2 = "notify_store 0 1 ?s1"
  let ?s3 = "notify_wake 0 1 ?s2"
  let ?s4 = "notify_send 0 1 ?s3"
  note defs = serial_step_def signal_step_defs SnapshotSignal_default_def
  have "serial_step SnapshotSignal_default ?s1" unfolding serial_step_def
    by (intro conjI disjI2 fetch) (simp_all add: SnapshotSignal_default_def)
  moreover have "serial_step ?s1 ?s2" unfolding serial_step_def by (intro conjI disjI1 store) (simp_all add: defs)
  moreover have "serial_step ?s2 ?s3" unfolding serial_step_def by (intro conjI disjI1 wakes) (simp_all add: defs)
  moreover have "serial_step ?s3 ?s4" unfolding serial_step_def by (intro conjI disjI1 send) (simp_all add: defs)
  ultimately have "serial_step\<^sup>*\<^sup>* SnapshotSignal_default ?s4"
    by (meson rtranclp.rtrancl_refl rtranclp.rtrancl_into_rtrancl)
  moreover have "\<forall>i. sg_notifiers ?s4 i = NIdle" "sg_generation ?s4 = 1" by (simp_all add: defs)
  ultimately show ?thesis using serial_notifications_settle [of ?s4] by (intro exI [of _ ?s4]) blast
qed

end
