(* ===== verification/Runtime_Refinement.thy ===== *)
theory Runtime_Refinement
  imports Runtime_Id
begin

text \<open>
  What the endpoint store promises: its specification is a total map from endpoints to health
  states and a list of observed recovery latencies, and every sequence of events that the proxy and the health checks
  record moves the sharded store as it moves the map. The ejection of an endpoint is then a statement about
  sequences of events. The theory also holds the properties of runtime identifiers.
\<close>

section \<open>Events\<close>

datatype EndpointEvent =
    Failed string BackendEndpoint Instant
  | Succeeded string BackendEndpoint Instant
  | ProbeFailed string BackendEndpoint u32 Instant
  | ProbeSucceeded string BackendEndpoint Instant

fun store_event :: "Lib \<Rightarrow> EndpointRuntimeStore \<Rightarrow> EndpointEvent \<Rightarrow> EndpointRuntimeStore" where
  "store_event lib store (Failed b e now) = record_failure_at lib store b e now"
| "store_event lib store (Succeeded b e now) = record_success lib store b e now"
| "store_event lib store (ProbeFailed b e threshold now) = record_active_probe_failure lib store b e threshold now"
| "store_event lib store (ProbeSucceeded b e now) = record_active_probe_success lib store b e now"

text \<open>The specification: one total map.\<close>

fun map_event :: "(EndpointRuntimeKey \<Rightarrow> EndpointRuntimeState) \<Rightarrow> EndpointEvent \<Rightarrow> EndpointRuntimeKey \<Rightarrow> EndpointRuntimeState" where
  "map_event m (Failed b e now) =
     (let k = EndpointRuntimeKey_new b e in m(k := state_record_failure (m k) now))"
| "map_event m (Succeeded b e now) = m(EndpointRuntimeKey_new b e := EndpointRuntimeState_default)"
| "map_event m (ProbeFailed b e threshold now) =
     (let k = EndpointRuntimeKey_new b e in m(k := state_record_active_probe_failure (m k) threshold now))"
| "map_event m (ProbeSucceeded b e now) = m(EndpointRuntimeKey_new b e := EndpointRuntimeState_default)"

lemma store_event_props:
  assumes "store_inv lib store" and "tracked_entries store < 2 ^ 64"
  shows "store_inv lib (store_event lib store ev)"
    and "state_of lib (store_event lib store ev) = map_event (state_of lib store) ev"
  using assms inner_update_props [OF assms(1)] inner_record_success_props [OF assms]
  by (cases ev; simp add: record_failure_at_def record_success_def record_active_probe_failure_def
      record_active_probe_success_def state_record_active_probe_success_def Let_def)+

fun event_key :: "EndpointEvent \<Rightarrow> EndpointRuntimeKey" where
  "event_key (Failed b e now) = EndpointRuntimeKey_new b e"
| "event_key (Succeeded b e now) = EndpointRuntimeKey_new b e"
| "event_key (ProbeFailed b e threshold now) = EndpointRuntimeKey_new b e"
| "event_key (ProbeSucceeded b e now) = EndpointRuntimeKey_new b e"

abbreviation untouched :: "EndpointRuntimeKey \<Rightarrow> EndpointRuntimeState" where
  "untouched \<equiv> \<lambda>_. EndpointRuntimeState_default"

lemma map_event_other: "k \<noteq> event_key ev \<Longrightarrow> map_event m ev k = m k"
  by (cases ev) (simp_all add: Let_def)

lemma touched_keys: "{k. foldl map_event untouched evs k \<noteq> EndpointRuntimeState_default} \<subseteq> event_key ` set evs"
proof (induction evs rule: rev_induct)
  case (snoc ev evs)
  then show ?case using map_event_other [of _ ev "foldl map_event untouched evs"] by fastforce
qed simp

lemma store_run:
  assumes "length evs < 2 ^ 64"
  shows "store_inv lib (foldl (store_event lib) EndpointRuntimeStore_default evs)
    \<and> state_of lib (foldl (store_event lib) EndpointRuntimeStore_default evs) = foldl map_event untouched evs"
  using assms
proof (induction evs rule: rev_induct)
  case Nil
  have "EndpointRuntimeStore_default\<lparr> er_recovery_latency := er_recovery_latency EndpointRuntimeStore_default \<rparr> = EndpointRuntimeStore_default"
    by simp
  then show ?case using store_default_props by (metis ext foldl_Nil)
next
  case (snoc ev evs)
  let ?st = "foldl (store_event lib) EndpointRuntimeStore_default evs"
  have IH: "store_inv lib ?st" "state_of lib ?st = foldl map_event untouched evs" using snoc by simp_all
  have "tracked_entries ?st \<le> card (event_key ` set evs)"
    unfolding tracked_entries_card [OF IH(1)] IH(2) by (rule card_mono [OF _ touched_keys]) simp
  also have "\<dots> \<le> length evs" using card_image_le card_length le_trans by (metis List.finite_set)
  finally have "tracked_entries ?st < 2 ^ 64" using snoc.prems by simp
  then show ?case using store_event_props [OF IH(1)] IH(2) by simp
qed

text \<open>
  C8. The sharded store with its counter and its shortcuts implements one total map. After any
  sequence of fewer than \<open>2^64\<close> failures, successes and probe results, reading an endpoint from
  the store gives the state that the same events give in a plain map in which every endpoint
  starts healthy, and the invariant of the store holds.
\<close>

theorem endpoint_store_refines_map:
  assumes "length evs < 2 ^ 64"
  shows "store_inv lib (foldl (store_event lib) EndpointRuntimeStore_default evs)
    \<and> state_of lib (foldl (store_event lib) EndpointRuntimeStore_default evs) = foldl map_event (\<lambda>_. EndpointRuntimeState_default) evs"
  by (rule store_run [OF assms])

theorem endpoint_store_refines_map_witness:
  "\<forall>k. state_of \<lparr> regex_new = (\<lambda>_. None), form_urlencoded_parse = (\<lambda>_. []), default_hash = (\<lambda>_. 5) \<rparr>
     (foldl (store_event \<lparr> regex_new = (\<lambda>_. None), form_urlencoded_parse = (\<lambda>_. []), default_hash = (\<lambda>_. 5) \<rparr>)
       EndpointRuntimeStore_default
       [Failed ''b'' \<lparr> ep_address = ''a'', ep_port = 1, ep_healthy = True \<rparr> 7, Succeeded ''b'' \<lparr> ep_address = ''a'', ep_port = 1, ep_healthy = True \<rparr> 8])
     k = EndpointRuntimeState_default"
  using endpoint_store_refines_map [of "[Failed ''b'' \<lparr> ep_address = ''a'', ep_port = 1, ep_healthy = True \<rparr> 7,
      Succeeded ''b'' \<lparr> ep_address = ''a'', ep_port = 1, ep_healthy = True \<rparr> 8]"
    "\<lparr> regex_new = (\<lambda>_. None), form_urlencoded_parse = (\<lambda>_. []), default_hash = (\<lambda>_. 5) \<rparr>"]
  by (simp add: Let_def)

text \<open>
  The metrics count endpoints. After any such sequence the runtime snapshot reports how many
  endpoints are not in the healthy default state, how many are passively ejected at the time of
  the snapshot, and how many fail their active probes.
\<close>

theorem runtime_metrics_count_endpoints:
  fixes lib evs now
  defines "snap \<equiv> runtime_snapshot (foldl (store_event lib) EndpointRuntimeStore_default evs) now"
    and "m \<equiv> foldl map_event (\<lambda>_. EndpointRuntimeState_default) evs"
  assumes "length evs < 2 ^ 64"
  shows "rs_tracked_endpoints snap = card {k. m k \<noteq> EndpointRuntimeState_default}
    \<and> rs_passive_ejected_current snap = card {k. is_ejected_at (m k) now}
    \<and> rs_active_unhealthy_current snap = card {k. is_active_unhealthy (m k)}"
  using store_run [OF assms(3), of lib] tracked_entries_card [of lib] store_count [of lib]
  by (simp add: snap_def m_def runtime_snapshot_fold)

theorem runtime_metrics_count_endpoints_witness:
  "rs_tracked_endpoints (runtime_snapshot (foldl (store_event \<lparr> regex_new = (\<lambda>_. None), form_urlencoded_parse = (\<lambda>_. []), default_hash = (\<lambda>_. 5) \<rparr>)
      EndpointRuntimeStore_default [Failed ''b'' \<lparr> ep_address = ''a'', ep_port = 1, ep_healthy = True \<rparr> 7]) 9) =
    card {k. foldl map_event (\<lambda>_. EndpointRuntimeState_default) [Failed ''b'' \<lparr> ep_address = ''a'', ep_port = 1, ep_healthy = True \<rparr> 7] k
      \<noteq> EndpointRuntimeState_default}"
  using runtime_metrics_count_endpoints [of "[Failed ''b'' \<lparr> ep_address = ''a'', ep_port = 1, ep_healthy = True \<rparr> 7]"
    "\<lparr> regex_new = (\<lambda>_. None), form_urlencoded_parse = (\<lambda>_. []), default_hash = (\<lambda>_. 5) \<rparr>" 9]
  by simp

section \<open>Ejection\<close>

lemma failure_counts:
  "saturating_add (0 :: u32) 1 = 1" "saturating_add (1 :: u32) 1 = 2" "saturating_add (2 :: u32) 1 = 3"
  "\<not> (3 :: u32) \<le> 1" "\<not> (3 :: u32) \<le> 2"
  by (simp_all add: saturating_add_def word_le_nat_alt)

text \<open>
  Passive ejection. Three failures in a row eject an endpoint for thirty seconds after the last
  one, fewer do not eject it, and one success, at any moment, makes it as good as new.
\<close>

theorem three_failures_eject:
  fixes b e t1 t2 t3
  defines "k \<equiv> EndpointRuntimeKey_new b e"
  shows "\<not> is_ejected_at (foldl map_event (\<lambda>_. EndpointRuntimeState_default) [Failed b e t1] k) now
    \<and> \<not> is_ejected_at (foldl map_event (\<lambda>_. EndpointRuntimeState_default) [Failed b e t1, Failed b e t2] k) now
    \<and> (is_ejected_at (foldl map_event (\<lambda>_. EndpointRuntimeState_default) [Failed b e t1, Failed b e t2, Failed b e t3] k) now
         \<longleftrightarrow> now < t3 + PASSIVE_EJECTION_COOLDOWN)
    \<and> foldl map_event m (evs @ [Succeeded b e t]) k = EndpointRuntimeState_default"
  by (simp add: failure_counts k_def state_record_failure_def Let_def is_ejected_at_def ejection_expired_at_def
        EndpointRuntimeState_default_def PASSIVE_EJECTION_CONSECUTIVE_FAILURES_def get_or_insert_def)

text \<open>
  A passive failure makes a probe verdict forgotten. An endpoint that fails its active probes and
  was ejected passively is no longer marked as failing its probes after one more passive failure
  that comes when the ejection has expired, although no probe succeeded in between.
\<close>

theorem expired_ejection_forgets_probe:
  fixes b e t
  defines "k \<equiv> EndpointRuntimeKey_new b e"
    and "evs \<equiv> [ProbeFailed b e 1 t, Failed b e t, Failed b e t, Failed b e t]"
  shows "is_active_unhealthy (foldl map_event (\<lambda>_. EndpointRuntimeState_default) evs k)
    \<and> \<not> is_active_unhealthy (foldl map_event (\<lambda>_. EndpointRuntimeState_default)
        (evs @ [Failed b e (t + PASSIVE_EJECTION_COOLDOWN)]) k)"
  by (simp add: failure_counts k_def evs_def state_record_failure_def state_record_active_probe_failure_def Let_def is_ejected_at_def
        ejection_expired_at_def is_active_unhealthy_def EndpointRuntimeState_default_def
      PASSIVE_EJECTION_CONSECUTIVE_FAILURES_def get_or_insert_def)

section \<open>Inheritance\<close>

text \<open>
  A new snapshot inherits exactly the endpoints it still has: their health states are kept, all
  other endpoints are healthy in it, and the recovery latencies are kept.
\<close>

theorem inherited_states:
  assumes "store_inv lib store"
  shows "store_inv lib (inherit_for_backends lib store backends)
    \<and> state_of lib (inherit_for_backends lib store backends) key =
      (if key \<in> set (backend_keys backends) then state_of lib store key else EndpointRuntimeState_default)
    \<and> er_recovery_latency (inherit_for_backends lib store backends) = er_recovery_latency store"
  using inherit_for_backends_props [OF assms] by simp

theorem inherited_states_witness:
  "state_of \<lparr> regex_new = (\<lambda>_. None), form_urlencoded_parse = (\<lambda>_. []), default_hash = (\<lambda>_. 5) \<rparr>
     (inherit_for_backends \<lparr> regex_new = (\<lambda>_. None), form_urlencoded_parse = (\<lambda>_. []), default_hash = (\<lambda>_. 5) \<rparr>
       (foldl (store_event \<lparr> regex_new = (\<lambda>_. None), form_urlencoded_parse = (\<lambda>_. []), default_hash = (\<lambda>_. 5) \<rparr>)
         EndpointRuntimeStore_default [Failed ''b'' \<lparr> ep_address = ''a'', ep_port = 1, ep_healthy = True \<rparr> 7]) [])
     (EndpointRuntimeKey_new ''b'' \<lparr> ep_address = ''a'', ep_port = 1, ep_healthy = True \<rparr>) = EndpointRuntimeState_default"
proof -
  let ?lib = "\<lparr> regex_new = (\<lambda>_. None), form_urlencoded_parse = (\<lambda>_. []), default_hash = (\<lambda>_. 5) \<rparr>"
  have "store_inv ?lib (foldl (store_event ?lib) EndpointRuntimeStore_default [Failed ''b'' \<lparr> ep_address = ''a'', ep_port = 1, ep_healthy = True \<rparr> 7])"
    using store_run [of "[Failed ''b'' \<lparr> ep_address = ''a'', ep_port = 1, ep_healthy = True \<rparr> 7]" ?lib] by simp
  from inherited_states [OF this, of "[]"] show ?thesis by (simp add: backend_keys_def)
qed

section \<open>Latencies\<close>

text \<open>
  The recovery histogram counts. After fewer than \<open>2^64\<close> observations the cumulative count of the
  bucket with bound \<open>b\<close> is the number of latencies of at most \<open>b\<close> milliseconds, and the last bucket
  counts all of them.
\<close>

theorem recovery_histogram_counts:
  assumes "length ls < 2 ^ 64"
  shows "map (\<lambda>r. unat (hb_cumulative_count r)) (bucket_snapshot (foldl observe EndpointRecoveryLatencyStats_default ls)) =
    map (\<lambda>bound. length (filter (\<lambda>l. l \<le> bound) ls)) ENDPOINT_RECOVERY_LATENCY_MS_BUCKET_BOUNDS @ [length ls]"
  by (rule bucket_snapshot_counts [OF assms])

theorem recovery_histogram_counts_witness:
  "map (\<lambda>r. unat (hb_cumulative_count r)) (bucket_snapshot (foldl observe EndpointRecoveryLatencyStats_default [40, 300, 70000])) =
    [1, 1, 1, 2, 2, 2, 2, 2, 2, 2, 3]"
  using recovery_histogram_counts [of "[40, 300, 70000]"] by (simp add: ENDPOINT_RECOVERY_LATENCY_MS_BUCKET_BOUNDS_def)

section \<open>Runtime identifiers\<close>

text \<open>
  Runtime identifiers survive printing: the sixteen hexadecimal digits of an identifier parse
  back to it, and identifiers made from names are never zero, so they always parse.
\<close>

theorem runtime_id_roundtrip:
  "parse_hex (show_runtime_id (stable_runtime_id parts)) = Some (stable_runtime_id parts)"
  by (rule parse_show_hex) (rule stable_runtime_id_nonzero)

text \<open>
  The index of runtime identifiers is sound and complete for listeners, backends and endpoints:
  a listed object has the identifier of its name, an unlisted one has none, and whatever the
  reverse table returns for an identifier has that identifier.
\<close>

theorem runtime_id_index_sound:
  fixes ls hs gs ss bs
  defines "idx \<equiv> runtime_ids_from ls hs gs ss bs"
  shows "rid_listener idx n = (if n \<in> ls_name ` set ls then Some (stable_runtime_id [''listener'', n]) else None)
    \<and> rid_backend idx b = (if b \<in> (\<lambda>c. namespaced_key (bc_namespace c) (bc_name c)) ` set bs
        then Some (stable_runtime_id [''backend'', b]) else None)
    \<and> rid_endpoint idx b e = (if EndpointRuntimeKey_new b e \<in> set (backend_keys bs)
        then Some (endpoint_id (EndpointRuntimeKey_new b e)) else None)
    \<and> (case rx_resource_refs idx i of None \<Rightarrow> True | Some r \<Rightarrow> ref_has_id r i)"
  using refs_sound_from [of ls hs gs ss bs]
  by (auto simp: idx_def rid_listener_from rid_backend_from rid_endpoint_from refs_sound_def split: option.split)

end
