(* ===== verification/Counters.thy ===== *)
theory Counters
  imports Rust_Str
begin

text \<open>
  What the limiters of \<open>crates/ntgw-observability\<close> share: saturating subtraction and multiplication,
  and the named counters, a \<open>BTreeMap\<close> from names to \<open>u64\<close>, that \<open>circuit_breaker.rs\<close>, \<open>rate_limit/stats.rs\<close>
  and \<open>overload/stats.rs\<close> each define. A named counter that falls to zero is removed.
\<close>

definition saturating_sub :: "'a::len word \<Rightarrow> 'a word \<Rightarrow> 'a word" where
  "saturating_sub a b = (if b \<le> a then a - b else 0)"

definition saturating_mul :: "'a::len word \<Rightarrow> 'a word \<Rightarrow> 'a word" where
  "saturating_mul a b = (if unat a * unat b < 2 ^ LENGTH('a) then a * b else - 1)"

lemma unat_saturating_sub: "unat (saturating_sub a b) = unat a - unat b"
  by (simp add: saturating_sub_def unat_sub word_le_nat_alt)

lemma unat_saturating_mul:
  "unat (saturating_mul a b) = min (unat a * unat b) (2 ^ LENGTH('a) - 1)"
  for a b :: "'a::len word"
proof (cases "unat a * unat b < 2 ^ LENGTH('a)")
  case True
  then have "unat a * unat b \<le> 2 ^ LENGTH('a) - 1" by linarith
  then show ?thesis using True by (simp add: saturating_mul_def unat_mult_no_overflow)
next
  case False
  then show ?thesis by (simp add: saturating_mul_def unat_max_word)
qed

lemma unat_min: "unat (min a b) = min (unat a) (unat b)" for a b :: "'a::len word"
  by (simp add: min_def word_le_nat_alt)

lemma unat_u64_lt: "unat (a :: u64) < 2 ^ 64"
  using unsigned_less [of a] by simp

primrec option_list :: "'a option \<Rightarrow> 'a list" where
  "option_list None = []"
| "option_list (Some x) = [x]"

section \<open>Named counters\<close>

type_synonym counters = "string \<rightharpoonup> u64"

definition increment_named :: "counters \<Rightarrow> string \<Rightarrow> counters" where
  "increment_named items key = items(key \<mapsto> (case items key of None \<Rightarrow> 0 | Some value \<Rightarrow> value) + 1)"

definition decrement_named :: "counters \<Rightarrow> string \<Rightarrow> counters" where
  "decrement_named items key =
     (case items key of
        None \<Rightarrow> items
      | Some value \<Rightarrow>
          let value = saturating_sub value 1
          in if value = 0 then items(key := None) else items(key \<mapsto> value))"

text \<open>The value of a counter, zero when it is not there.\<close>

definition named :: "counters \<Rightarrow> string \<Rightarrow> nat" where
  "named items key = (case items key of None \<Rightarrow> 0 | Some value \<Rightarrow> unat value)"

lemma named_empty [simp]: "named Map.empty key = 0"
  by (simp add: named_def)

lemma named_increment:
  "named items key < 2 ^ 64 - 1 \<Longrightarrow>
   named (increment_named items key) k = (if k = key then named items key + 1 else named items k)"
  by (auto simp: named_def increment_named_def unat_word_ariths split: option.splits)

lemma named_decrement:
  "named (decrement_named items key) k = (if k = key then named items key - 1 else named items k)"
  by (auto simp: named_def decrement_named_def unat_saturating_sub Let_def unat_eq_zero [symmetric] split: option.splits)

text \<open>No counter of the map is zero.\<close>

definition counters_wf :: "counters \<Rightarrow> bool" where
  "counters_wf items \<longleftrightarrow> (\<forall>key. items key \<noteq> Some 0)"

lemma counters_wf_empty [simp]: "counters_wf Map.empty"
  by (simp add: counters_wf_def)

lemma counters_wf_increment:
  "counters_wf items \<Longrightarrow> named items key < 2 ^ 64 - 1 \<Longrightarrow> counters_wf (increment_named items key)"
  using named_increment [of items key key] by (auto simp: counters_wf_def increment_named_def named_def split: if_splits)

lemma counters_wf_decrement: "counters_wf items \<Longrightarrow> counters_wf (decrement_named items key)"
  by (auto simp: counters_wf_def decrement_named_def Let_def split: option.splits)

text \<open>Taking back an increment restores the map.\<close>

lemma increment_decrement:
  assumes "counters_wf items" and "named items key < 2 ^ 64 - 1"
  shows "decrement_named (increment_named items key) key = items"
proof (cases "items key")
  case None
  then show ?thesis by (auto simp: increment_named_def decrement_named_def saturating_sub_def)
next
  case (Some v)
  have "v \<noteq> 0" using assms(1) Some by (auto simp: counters_wf_def)
  have "unat (v + 1) = unat v + 1" using assms(2) Some by (simp add: named_def unat_word_ariths)
  then have "(1 :: u64) \<le> v + 1" by (simp add: word_le_nat_alt)
  then show ?thesis using Some \<open>v \<noteq> 0\<close>
    by (auto simp: increment_named_def decrement_named_def saturating_sub_def fun_upd_idem)
qed

end
