(* ===== verification/Rate_Limit.thy ===== *)
theory Rate_Limit
  imports Counters
begin

text \<open>
  The token buckets and the HTTP rate limiter: \<open>crates/ntgw-observability/src/rate_limit.rs\<close> with
  \<open>rate_limit/bucket.rs\<close> and \<open>rate_limit/stats.rs\<close>. A bucket behind its \<open>Mutex\<close> is a value of the
  controller; each operation on it is atomic. An operation takes the readings of the clock it
  makes: \<open>clock 0\<close> is the time at its start, \<open>clock 1\<close> and \<open>clock 2\<close> are the times at which it creates
  the bucket of a listener and of a route. The lemmas show how many requests a bucket admits, that
  a rejected request costs no token, and when a bucket refills.
\<close>

section \<open>Buckets\<close>

definition RATE_LIMIT_TOKEN_SCALE :: u64 where
  "RATE_LIMIT_TOKEN_SCALE = 1000"

record ScopeOptions =
  so_requests_per_second :: u32
  so_burst :: u32

record RateLimitBucket =
  rb_available_milli_tokens :: u64
  rb_last_refill :: Instant

definition scope_enabled :: "ScopeOptions \<Rightarrow> bool" where
  "scope_enabled options \<longleftrightarrow> so_requests_per_second options > 0"

definition scope_burst :: "ScopeOptions \<Rightarrow> u32" where
  "scope_burst options = (if scope_enabled options then max (so_burst options) 1 else 0)"

definition scope_capacity :: "ScopeOptions \<Rightarrow> u64" where
  "scope_capacity options =
     (if \<not> scope_enabled options then 0 else ucast (scope_burst options) * RATE_LIMIT_TOKEN_SCALE)"

definition as_millis :: "Duration \<Rightarrow> nat" where
  "as_millis d = d div 1000000"

definition scope_refill :: "ScopeOptions \<Rightarrow> Duration \<Rightarrow> u64" where
  "scope_refill options elapsed =
     (if \<not> scope_enabled options then 0
      else let elapsed_millis = of_nat (min (as_millis elapsed) (2 ^ 64 - 1)) :: u64
           in saturating_mul (saturating_mul elapsed_millis (ucast (so_requests_per_second options)))
                RATE_LIMIT_TOKEN_SCALE div 1000)"

record RateLimitScopeSnapshot =
  rz_enabled :: bool
  rz_requests_per_second :: u32
  rz_burst :: u32
  rz_available_tokens :: u64
  rz_available_milli_tokens :: u64

definition scope_snapshot :: "ScopeOptions \<Rightarrow> u64 \<Rightarrow> RateLimitScopeSnapshot" where
  "scope_snapshot options available_milli_tokens =
     \<lparr> rz_enabled = scope_enabled options, rz_requests_per_second = so_requests_per_second options,
       rz_burst = scope_burst options,
       rz_available_tokens = available_milli_tokens div RATE_LIMIT_TOKEN_SCALE,
       rz_available_milli_tokens = available_milli_tokens \<rparr>"

definition new_bucket :: "ScopeOptions \<Rightarrow> Instant \<Rightarrow> RateLimitBucket" where
  "new_bucket options now =
     \<lparr> rb_available_milli_tokens = scope_capacity options, rb_last_refill = now \<rparr>"

definition refill_bucket :: "RateLimitBucket \<Rightarrow> ScopeOptions \<Rightarrow> Instant \<Rightarrow> RateLimitBucket" where
  "refill_bucket state options now =
     (if \<not> scope_enabled options
      then state\<lparr> rb_available_milli_tokens := 0, rb_last_refill := now \<rparr>
      else
        let refill = scope_refill options (now - rb_last_refill state);
            state = (if refill > 0
              then state\<lparr> rb_available_milli_tokens :=
                     min (saturating_add (rb_available_milli_tokens state) refill) (scope_capacity options) \<rparr>
              else state)
        in state\<lparr> rb_last_refill := now \<rparr>)"

definition try_consume_bucket ::
    "RateLimitBucket \<Rightarrow> ScopeOptions \<Rightarrow> Instant \<Rightarrow> bool \<times> RateLimitBucket" where
  "try_consume_bucket bucket options now =
     (let state = refill_bucket bucket options now
      in if rb_available_milli_tokens state < RATE_LIMIT_TOKEN_SCALE then (False, state)
         else (True, state\<lparr> rb_available_milli_tokens := rb_available_milli_tokens state - RATE_LIMIT_TOKEN_SCALE \<rparr>))"

definition refund_bucket :: "RateLimitBucket \<Rightarrow> ScopeOptions \<Rightarrow> Instant \<Rightarrow> RateLimitBucket" where
  "refund_bucket bucket options now =
     (let state = refill_bucket bucket options now
      in state\<lparr> rb_available_milli_tokens :=
           min (saturating_add (rb_available_milli_tokens state) RATE_LIMIT_TOKEN_SCALE) (scope_capacity options) \<rparr>)"

definition snapshot_bucket ::
    "RateLimitBucket \<Rightarrow> ScopeOptions \<Rightarrow> Instant \<Rightarrow> RateLimitScopeSnapshot \<times> RateLimitBucket" where
  "snapshot_bucket bucket options now =
     (let state = refill_bucket bucket options now
      in (scope_snapshot options (rb_available_milli_tokens state), state))"

section \<open>Buckets by name\<close>

record KeyedScopeController =
  ks_options :: ScopeOptions
  ks_buckets :: "string \<rightharpoonup> RateLimitBucket"

definition keyed_scope_new :: "u32 \<Rightarrow> u32 \<Rightarrow> KeyedScopeController" where
  "keyed_scope_new requests_per_second burst =
     \<lparr> ks_options = \<lparr> so_requests_per_second = requests_per_second, so_burst = burst \<rparr>, ks_buckets = Map.empty \<rparr>"

text \<open>The name under which the shared bucket is stored, if there is one, which is created on demand.\<close>

definition keyed_bucket ::
    "KeyedScopeController \<Rightarrow> string \<Rightarrow> Instant \<Rightarrow> string option \<times> KeyedScopeController" where
  "keyed_bucket c key created =
     (if \<not> scope_enabled (ks_options c) then (None, c)
      else let key = trim key in
        if key = [] then (None, c)
        else case ks_buckets c key of
          Some _ \<Rightarrow> (Some key, c)
        | None \<Rightarrow> (Some key, c\<lparr> ks_buckets := (ks_buckets c)(key \<mapsto> new_bucket (ks_options c) created) \<rparr>))"

text \<open>Consuming from, and refunding to, a bucket obtained this way.\<close>

definition keyed_consume ::
    "KeyedScopeController \<Rightarrow> string \<Rightarrow> Instant \<Rightarrow> bool \<times> KeyedScopeController" where
  "keyed_consume c key now =
     (case ks_buckets c key of
        None \<Rightarrow> (True, c)
      | Some bucket \<Rightarrow>
          (case try_consume_bucket bucket (ks_options c) now of
             (consumed, bucket) \<Rightarrow> (consumed, c\<lparr> ks_buckets := (ks_buckets c)(key \<mapsto> bucket) \<rparr>)))"

definition keyed_refund :: "KeyedScopeController \<Rightarrow> string option \<Rightarrow> Instant \<Rightarrow> KeyedScopeController" where
  "keyed_refund c key now =
     (case key of
        None \<Rightarrow> c
      | Some key \<Rightarrow>
          c\<lparr> ks_buckets := (ks_buckets c)(key := map_option (\<lambda>b. refund_bucket b (ks_options c) now) (ks_buckets c key)) \<rparr>)"

record NamedRateLimitScopeSnapshot =
  nz_enabled :: bool
  nz_requests_per_second :: u32
  nz_burst :: u32
  nz_available_tokens_by_name :: counters
  nz_available_milli_tokens_by_name :: counters

definition keyed_snapshot ::
    "KeyedScopeController \<Rightarrow> Instant \<Rightarrow> NamedRateLimitScopeSnapshot \<times> KeyedScopeController" where
  "keyed_snapshot c now =
     (let buckets = (\<lambda>name. map_option (\<lambda>b. refill_bucket b (ks_options c) now) (ks_buckets c name))
      in (\<lparr> nz_enabled = scope_enabled (ks_options c),
            nz_requests_per_second = so_requests_per_second (ks_options c),
            nz_burst = scope_burst (ks_options c),
            nz_available_tokens_by_name =
              (\<lambda>name. map_option (\<lambda>b. rb_available_milli_tokens b div RATE_LIMIT_TOKEN_SCALE) (buckets name)),
            nz_available_milli_tokens_by_name = (\<lambda>name. map_option rb_available_milli_tokens (buckets name)) \<rparr>,
          c\<lparr> ks_buckets := buckets \<rparr>))"

section \<open>Counting rejections\<close>

datatype HttpRateLimitRejection = RateGlobal | RateListener | RateRoute | RateBackend

record HttpRateLimitStats =
  rt_allowed_total :: u64
  rt_rejected_total :: u64
  rt_rejected_global_total :: u64
  rt_rejected_listener_total :: u64
  rt_rejected_route_total :: u64
  rt_rejected_backend_total :: u64
  rt_rejected_listener_by_name :: counters
  rt_rejected_route_by_name :: counters
  rt_rejected_backend_by_name :: counters

definition HttpRateLimitStats_default :: HttpRateLimitStats where
  "HttpRateLimitStats_default =
     \<lparr> rt_allowed_total = 0, rt_rejected_total = 0, rt_rejected_global_total = 0, rt_rejected_listener_total = 0,
       rt_rejected_route_total = 0, rt_rejected_backend_total = 0, rt_rejected_listener_by_name = Map.empty,
       rt_rejected_route_by_name = Map.empty, rt_rejected_backend_by_name = Map.empty \<rparr>"

definition stats_observe_allow :: "HttpRateLimitStats \<Rightarrow> HttpRateLimitStats" where
  "stats_observe_allow stats = stats\<lparr> rt_allowed_total := saturating_add (rt_allowed_total stats) 1 \<rparr>"

definition increment_key :: "counters \<Rightarrow> string option \<Rightarrow> counters" where
  "increment_key items key =
     (case key of None \<Rightarrow> items | Some key \<Rightarrow> if trim key \<noteq> [] then increment_named items key else items)"

definition stats_observe_reject ::
    "HttpRateLimitStats \<Rightarrow> HttpRateLimitRejection \<Rightarrow> string option \<Rightarrow> HttpRateLimitStats" where
  "stats_observe_reject stats rejection key =
     (let stats = stats\<lparr> rt_rejected_total := saturating_add (rt_rejected_total stats) 1 \<rparr> in
      case rejection of
        RateGlobal \<Rightarrow> stats\<lparr> rt_rejected_global_total := saturating_add (rt_rejected_global_total stats) 1 \<rparr>
      | RateListener \<Rightarrow>
          stats\<lparr> rt_rejected_listener_total := saturating_add (rt_rejected_listener_total stats) 1,
                 rt_rejected_listener_by_name := increment_key (rt_rejected_listener_by_name stats) key \<rparr>
      | RateRoute \<Rightarrow>
          stats\<lparr> rt_rejected_route_total := saturating_add (rt_rejected_route_total stats) 1,
                 rt_rejected_route_by_name := increment_key (rt_rejected_route_by_name stats) key \<rparr>
      | RateBackend \<Rightarrow>
          stats\<lparr> rt_rejected_backend_total := saturating_add (rt_rejected_backend_total stats) 1,
                 rt_rejected_backend_by_name := increment_key (rt_rejected_backend_by_name stats) key \<rparr>)"

section \<open>The controller\<close>

record HttpRateLimitOptions =
  ro_global_requests_per_second :: u32
  ro_global_burst :: u32
  ro_listener_requests_per_second :: u32
  ro_listener_burst :: u32
  ro_route_requests_per_second :: u32
  ro_route_burst :: u32
  ro_backend_requests_per_second :: u32
  ro_backend_burst :: u32

record HttpRateLimitController =
  rc_global_options :: ScopeOptions
  rc_global :: "RateLimitBucket option"
  rc_listener :: KeyedScopeController
  rc_route :: KeyedScopeController
  rc_backend :: KeyedScopeController
  rc_stats :: HttpRateLimitStats

definition rate_limit_new :: "HttpRateLimitOptions \<Rightarrow> Instant \<Rightarrow> HttpRateLimitController" where
  "rate_limit_new options created =
     (let global_options = \<lparr> so_requests_per_second = ro_global_requests_per_second options,
                             so_burst = ro_global_burst options \<rparr>
      in \<lparr> rc_global_options = global_options,
           rc_global = (if scope_enabled global_options then Some (new_bucket global_options created) else None),
           rc_listener = keyed_scope_new (ro_listener_requests_per_second options) (ro_listener_burst options),
           rc_route = keyed_scope_new (ro_route_requests_per_second options) (ro_route_burst options),
           rc_backend = keyed_scope_new (ro_backend_requests_per_second options) (ro_backend_burst options),
           rc_stats = HttpRateLimitStats_default \<rparr>)"

definition rate_observe_reject ::
    "HttpRateLimitRejection \<Rightarrow> string option \<Rightarrow> HttpRateLimitController \<Rightarrow> HttpRateLimitController" where
  "rate_observe_reject rejection key c = c\<lparr> rc_stats := stats_observe_reject (rc_stats c) rejection key \<rparr>"

definition rate_observe_allow :: "HttpRateLimitController \<Rightarrow> HttpRateLimitController" where
  "rate_observe_allow c =
     (if \<not> scope_enabled (rc_global_options c) \<and> \<not> scope_enabled (ks_options (rc_listener c))
         \<and> \<not> scope_enabled (ks_options (rc_route c)) \<and> \<not> scope_enabled (ks_options (rc_backend c))
      then c else c\<lparr> rc_stats := stats_observe_allow (rc_stats c) \<rparr>)"

definition global_consume :: "HttpRateLimitController \<Rightarrow> Instant \<Rightarrow> bool \<times> HttpRateLimitController" where
  "global_consume c now =
     (case rc_global c of
        None \<Rightarrow> (True, c)
      | Some bucket \<Rightarrow>
          (case try_consume_bucket bucket (rc_global_options c) now of
             (consumed, bucket) \<Rightarrow> (consumed, c\<lparr> rc_global := Some bucket \<rparr>)))"

definition global_refund :: "HttpRateLimitController \<Rightarrow> Instant \<Rightarrow> HttpRateLimitController" where
  "global_refund c now =
     c\<lparr> rc_global := map_option (\<lambda>b. refund_bucket b (rc_global_options c) now) (rc_global c) \<rparr>"

text \<open>One scope: the bucket is created on demand and a token taken from it.\<close>

definition scope_consume ::
    "KeyedScopeController \<Rightarrow> string \<Rightarrow> Instant \<Rightarrow> Instant \<Rightarrow> bool \<times> string option \<times> KeyedScopeController" where
  "scope_consume scope key now created =
     (case keyed_bucket scope key created of
        (None, scope) \<Rightarrow> (True, None, scope)
      | (Some name, scope) \<Rightarrow>
          (case keyed_consume scope name now of (consumed, scope) \<Rightarrow> (consumed, Some name, scope)))"

definition rate_try_acquire_listener ::
    "HttpRateLimitController \<Rightarrow> string \<Rightarrow> (nat \<Rightarrow> Instant) \<Rightarrow> (HttpRateLimitRejection + bool) \<times> HttpRateLimitController" where
  "rate_try_acquire_listener c listener clock =
     (let now = clock 0 in
      case global_consume c now of
        (False, c) \<Rightarrow> (Inl RateGlobal, rate_observe_reject RateGlobal None c)
      | (True, c) \<Rightarrow>
          (case scope_consume (rc_listener c) listener now (clock 1) of
             (False, _, scope) \<Rightarrow>
               (Inl RateListener, rate_observe_reject RateListener (Some listener)
                  (global_refund (c\<lparr> rc_listener := scope \<rparr>) now))
           | (True, bucket, scope) \<Rightarrow>
               (Inr (rc_global c \<noteq> None \<or> bucket \<noteq> None), c\<lparr> rc_listener := scope \<rparr>)))"

definition rate_try_acquire_route ::
    "HttpRateLimitController \<Rightarrow> string \<Rightarrow> (nat \<Rightarrow> Instant) \<Rightarrow> (HttpRateLimitRejection + bool) \<times> HttpRateLimitController" where
  "rate_try_acquire_route c route clock =
     (case scope_consume (rc_route c) route (clock 0) (clock 1) of
        (False, _, scope) \<Rightarrow> (Inl RateRoute, rate_observe_reject RateRoute (Some route) (c\<lparr> rc_route := scope \<rparr>))
      | (True, bucket, scope) \<Rightarrow> (Inr (bucket \<noteq> None), c\<lparr> rc_route := scope \<rparr>))"

definition rate_try_acquire_backend ::
    "HttpRateLimitController \<Rightarrow> string \<Rightarrow> (nat \<Rightarrow> Instant) \<Rightarrow> (HttpRateLimitRejection + bool) \<times> HttpRateLimitController" where
  "rate_try_acquire_backend c backend clock =
     (case scope_consume (rc_backend c) backend (clock 0) (clock 1) of
        (False, _, scope) \<Rightarrow>
          (Inl RateBackend, rate_observe_reject RateBackend (Some backend) (c\<lparr> rc_backend := scope \<rparr>))
      | (True, bucket, scope) \<Rightarrow> (Inr (bucket \<noteq> None), c\<lparr> rc_backend := scope \<rparr>))"

definition rate_try_acquire ::
    "HttpRateLimitController \<Rightarrow> string \<Rightarrow> string \<Rightarrow> (nat \<Rightarrow> Instant) \<Rightarrow>
     (HttpRateLimitRejection + bool) \<times> HttpRateLimitController" where
  "rate_try_acquire c listener route clock =
     (let now = clock 0 in
      case global_consume c now of
        (False, c) \<Rightarrow> (Inl RateGlobal, rate_observe_reject RateGlobal None c)
      | (True, c) \<Rightarrow>
          (case scope_consume (rc_listener c) listener now (clock 1) of
             (False, _, scope) \<Rightarrow>
               (Inl RateListener, rate_observe_reject RateListener (Some listener)
                  (global_refund (c\<lparr> rc_listener := scope \<rparr>) now))
           | (True, listener_bucket, scope) \<Rightarrow>
               let c = c\<lparr> rc_listener := scope \<rparr> in
               (case scope_consume (rc_route c) route now (clock 2) of
                  (False, _, scope) \<Rightarrow>
                    (Inl RateRoute, rate_observe_reject RateRoute (Some route)
                       (global_refund (c\<lparr> rc_route := scope,
                          rc_listener := keyed_refund (rc_listener c) listener_bucket now \<rparr>) now))
                | (True, route_bucket, scope) \<Rightarrow>
                    (Inr (rc_global c \<noteq> None \<or> listener_bucket \<noteq> None \<or> route_bucket \<noteq> None),
                     c\<lparr> rc_route := scope \<rparr>))))"

record HttpRateLimitSnapshot =
  rn_global :: RateLimitScopeSnapshot
  rn_listener :: NamedRateLimitScopeSnapshot
  rn_route :: NamedRateLimitScopeSnapshot
  rn_backend :: NamedRateLimitScopeSnapshot
  rn_allowed_total :: u64
  rn_rejected_total :: u64
  rn_rejected_global_total :: u64
  rn_rejected_listener_total :: u64
  rn_rejected_route_total :: u64
  rn_rejected_backend_total :: u64
  rn_rejected_listener_by_name :: counters
  rn_rejected_route_by_name :: counters
  rn_rejected_backend_by_name :: counters

definition rate_snapshot :: "HttpRateLimitController \<Rightarrow> Instant \<Rightarrow> HttpRateLimitSnapshot \<times> HttpRateLimitController" where
  "rate_snapshot c now =
     (let stats = rc_stats c in
      case (case rc_global c of
              None \<Rightarrow> (scope_snapshot (rc_global_options c) 0, None)
            | Some bucket \<Rightarrow> map_prod (\<lambda>g. g) Some (snapshot_bucket bucket (rc_global_options c) now)) of
        (global, bucket) \<Rightarrow>
          (case keyed_snapshot (rc_listener c) now of (listener, l) \<Rightarrow>
           case keyed_snapshot (rc_route c) now of (route, r) \<Rightarrow>
           case keyed_snapshot (rc_backend c) now of (backend, b) \<Rightarrow>
             (\<lparr> rn_global = global, rn_listener = listener, rn_route = route, rn_backend = backend,
                rn_allowed_total = rt_allowed_total stats, rn_rejected_total = rt_rejected_total stats,
                rn_rejected_global_total = rt_rejected_global_total stats,
                rn_rejected_listener_total = rt_rejected_listener_total stats,
                rn_rejected_route_total = rt_rejected_route_total stats,
                rn_rejected_backend_total = rt_rejected_backend_total stats,
                rn_rejected_listener_by_name = rt_rejected_listener_by_name stats,
                rn_rejected_route_by_name = rt_rejected_route_by_name stats,
                rn_rejected_backend_by_name = rt_rejected_backend_by_name stats \<rparr>,
              c\<lparr> rc_global := bucket, rc_listener := l, rc_route := r, rc_backend := b \<rparr>)))"

section \<open>One bucket\<close>

lemma unat_scale [simp]: "unat RATE_LIMIT_TOKEN_SCALE = 1000"
  by (simp add: RATE_LIMIT_TOKEN_SCALE_def)

lemma unat_u32_lt: "unat (a :: u32) < 2 ^ 32"
  using unsigned_less [of a] by simp

lemma unat_scope_capacity: "unat (scope_capacity options) = (if scope_enabled options then 1000 * unat (scope_burst options) else 0)"
proof -
  have "unat (scope_burst options) * 1000 < 2 ^ 64" using unat_u32_lt [of "scope_burst options"] by simp
  then show ?thesis by (simp add: scope_capacity_def unat_mult_no_overflow unat_u64_of_u32)
qed

lemma scope_burst_pos: "scope_enabled options \<Longrightarrow> 0 < unat (scope_burst options)"
  by (auto simp: scope_burst_def unat_gt_0 max_def)

lemma unat_scope_refill:
  "unat (scope_refill options d) =
     (if scope_enabled options
      then min (min (min (as_millis d) (2 ^ 64 - 1) * unat (so_requests_per_second options)) (2 ^ 64 - 1) * 1000) (2 ^ 64 - 1) div 1000
      else 0)"
proof -
  have "unat (of_nat (min (as_millis d) (2 ^ 64 - 1)) :: u64) = min (as_millis d) (2 ^ 64 - 1)"
    by (simp add: unsigned_of_nat take_bit_nat_eq_self)
  then show ?thesis
    by (simp add: scope_refill_def Let_def unat_div unat_saturating_mul unat_u64_of_u32)
qed

text \<open>Over \<open>n\<close> milliseconds at most \<open>n\<close> times the rate comes in, and nothing within a millisecond.\<close>

lemma scope_refill_le: "unat (scope_refill options d) \<le> as_millis d * unat (so_requests_per_second options)"
proof -
  let ?r = "unat (so_requests_per_second options)"
  have "min (min (min (as_millis d) (2 ^ 64 - 1) * ?r) (2 ^ 64 - 1) * 1000) (2 ^ 64 - 1) \<le> as_millis d * ?r * 1000"
    by (simp add: min.coboundedI1)
  then have "min (min (min (as_millis d) (2 ^ 64 - 1) * ?r) (2 ^ 64 - 1) * 1000) (2 ^ 64 - 1) div 1000 \<le> as_millis d * ?r * 1000 div 1000"
    by (rule div_le_mono)
  then show ?thesis by (simp only: unat_scope_refill) simp
qed

lemma scope_refill_within: "d < 1000000 \<Longrightarrow> scope_refill options d = 0"
  by (simp add: scope_refill_def as_millis_def saturating_mul_def)

lemma scope_refill_ge:
  assumes "scope_enabled options" and "n \<le> as_millis d" and "n * unat (so_requests_per_second options) \<le> (2 ^ 64 - 1) div 1000"
  shows "n * unat (so_requests_per_second options) \<le> unat (scope_refill options d)"
proof -
  let ?r = "unat (so_requests_per_second options)"
  have r: "0 < ?r" using assms(1) by (simp add: scope_enabled_def word_less_nat_alt)
  have small: "n * ?r \<le> 2 ^ 64 - 1" using assms(3) by (rule order_trans) simp
  have "n \<le> n * ?r" using r by simp
  then have n: "n \<le> 2 ^ 64 - 1" using small by (rule order_trans)
  have "n * ?r \<le> min (as_millis d) (2 ^ 64 - 1) * ?r" using assms(2) n by (intro mult_le_mono1) simp
  then have "n * ?r \<le> min (min (as_millis d) (2 ^ 64 - 1) * ?r) (2 ^ 64 - 1)" using small by simp
  then have "n * ?r * 1000 \<le> min (min (min (as_millis d) (2 ^ 64 - 1) * ?r) (2 ^ 64 - 1) * 1000) (2 ^ 64 - 1)"
    using assms(3) by simp
  then have "n * ?r * 1000 div 1000 \<le> min (min (min (as_millis d) (2 ^ 64 - 1) * ?r) (2 ^ 64 - 1) * 1000) (2 ^ 64 - 1) div 1000"
    by (rule div_le_mono)
  then show ?thesis using assms(1) by (simp only: unat_scope_refill) simp
qed

lemma refill_last [simp]: "rb_last_refill (refill_bucket b options now) = now"
  by (simp add: refill_bucket_def Let_def)

text \<open>A bucket never holds more than its capacity.\<close>

definition bucket_wf :: "ScopeOptions \<Rightarrow> RateLimitBucket \<Rightarrow> bool" where
  "bucket_wf options b \<longleftrightarrow> rb_available_milli_tokens b \<le> scope_capacity options"

lemma new_bucket_wf: "bucket_wf options (new_bucket options now)"
  by (simp add: bucket_wf_def new_bucket_def)

lemma refill_wf: "bucket_wf options b \<Longrightarrow> bucket_wf options (refill_bucket b options now)"
  by (simp add: bucket_wf_def refill_bucket_def Let_def)

lemma available_refill:
  assumes "scope_enabled options" and "bucket_wf options b"
  shows "unat (rb_available_milli_tokens (refill_bucket b options now)) =
    min (unat (rb_available_milli_tokens b) + unat (scope_refill options (now - rb_last_refill b))) (unat (scope_capacity options))"
proof -
  have cap: "unat (scope_capacity options) \<le> 2 ^ 64 - 1" using unat_u64_lt [of "scope_capacity options"] by simp
  have le: "unat (rb_available_milli_tokens b) \<le> unat (scope_capacity options)"
    using assms(2) by (simp add: bucket_wf_def word_le_nat_alt)
  show ?thesis
  proof (cases "scope_refill options (now - rb_last_refill b) = 0")
    case True
    then show ?thesis using assms le by (simp add: refill_bucket_def)
  next
    case False
    then have "0 < scope_refill options (now - rb_last_refill b)" by (simp add: word_gt_0)
    then show ?thesis using assms(1) cap by (simp add: refill_bucket_def unat_min unat_saturating_add)
  qed
qed

lemma consume_result:
  "try_consume_bucket b options now =
     (let r = refill_bucket b options now in
      if unat (rb_available_milli_tokens r) < 1000 then (False, r)
      else (True, r\<lparr> rb_available_milli_tokens := rb_available_milli_tokens r - RATE_LIMIT_TOKEN_SCALE \<rparr>))"
  by (simp add: try_consume_bucket_def word_less_nat_alt)

lemma consume_wf: "bucket_wf options b \<Longrightarrow> bucket_wf options (snd (try_consume_bucket b options now))"
  using refill_wf [of options b now]
  by (auto simp: consume_result Let_def bucket_wf_def word_le_nat_alt unat_sub)

lemma refund_wf: "bucket_wf options (refund_bucket b options now)"
  by (simp add: bucket_wf_def refund_bucket_def Let_def)

text \<open>Taking a token and giving it back at the same time is a refill.\<close>

lemma refill_again:
  assumes "bucket_wf options b" and "rb_last_refill b = now"
  shows "refill_bucket b options now = (if scope_enabled options then b else b\<lparr> rb_available_milli_tokens := 0 \<rparr>)"
  using assms scope_refill_within [of 0 options] by (simp add: refill_bucket_def)

lemma consume_refund:
  assumes "bucket_wf options b" and "try_consume_bucket b options now = (True, b')"
  shows "refund_bucket b' options now = refill_bucket b options now"
proof -
  let ?r = "refill_bucket b options now"
  have ge: "1000 \<le> unat (rb_available_milli_tokens ?r)" and b': "b' = ?r\<lparr> rb_available_milli_tokens := rb_available_milli_tokens ?r - RATE_LIMIT_TOKEN_SCALE \<rparr>"
    using assms(2) by (auto simp: consume_result Let_def split: if_splits)
  have en: "scope_enabled options" using ge by (auto simp: refill_bucket_def split: if_splits)
  have wf: "bucket_wf options ?r" "bucket_wf options b'"
    using refill_wf [OF assms(1)] consume_wf [OF assms(1), of now] assms(2) by simp_all
  have le: "RATE_LIMIT_TOKEN_SCALE \<le> rb_available_milli_tokens ?r" using ge by (simp add: word_le_nat_alt)
  have "unat (rb_available_milli_tokens ?r - RATE_LIMIT_TOKEN_SCALE) + 1000 = unat (rb_available_milli_tokens ?r)"
    using ge le by (simp add: unat_sub)
  then have "saturating_add (rb_available_milli_tokens ?r - RATE_LIMIT_TOKEN_SCALE) RATE_LIMIT_TOKEN_SCALE = rb_available_milli_tokens ?r"
    using unat_u64_lt [of "rb_available_milli_tokens ?r"] by (simp add: saturating_add_def)
  moreover have "refill_bucket b' options now = b'" using refill_again [OF wf(2)] en b' by simp
  ultimately show ?thesis using wf(1) by (simp add: refund_bucket_def b' bucket_wf_def min_def)
qed

section \<open>Histories of a bucket\<close>

text \<open>
  Whatever the threads do, a bucket sees a sequence of atomic operations: a request that takes a
  token, a token given back, a look that only refills.
\<close>

datatype BucketEvent = Consume Instant | Refund Instant | Look Instant

fun event_time :: "BucketEvent \<Rightarrow> Instant" where
  "event_time (Consume t) = t"
| "event_time (Refund t) = t"
| "event_time (Look t) = t"

fun refunds :: "BucketEvent list \<Rightarrow> nat" where
  "refunds [] = 0"
| "refunds (Refund t # es) = Suc (refunds es)"
| "refunds (_ # es) = refunds es"

text \<open>How many requests were admitted, and the bucket at the end.\<close>

fun bucket_run :: "ScopeOptions \<Rightarrow> RateLimitBucket \<Rightarrow> BucketEvent list \<Rightarrow> nat \<times> RateLimitBucket" where
  "bucket_run options b [] = (0, b)"
| "bucket_run options b (Consume t # es) =
     (case try_consume_bucket b options t of
        (consumed, b) \<Rightarrow> map_prod (\<lambda>n. of_bool consumed + n) (\<lambda>b. b) (bucket_run options b es))"
| "bucket_run options b (Refund t # es) = bucket_run options (refund_bucket b options t) es"
| "bucket_run options b (Look t # es) = bucket_run options (refill_bucket b options t) es"

lemma as_millis_split: "l \<le> t \<Longrightarrow> t \<le> e \<Longrightarrow> as_millis (t - l) + as_millis (e - t) \<le> as_millis (e - l)"
proof -
  assume "l \<le> t" "t \<le> e"
  then have "e - l = (t - l) + (e - t)" by simp
  then show ?thesis unfolding as_millis_def by (metis div_add1_eq le_add1)
qed

lemma bucket_run_step:
  assumes "scope_enabled options" and "bucket_wf options b"
  shows "unat (rb_available_milli_tokens (refill_bucket b options t))
    \<le> unat (rb_available_milli_tokens b) + as_millis (t - rb_last_refill b) * unat (so_requests_per_second options)"
  using scope_refill_le [of options "t - rb_last_refill b"] available_refill [OF assms, of t] by linarith

lemma refund_available:
  "unat (rb_available_milli_tokens (refund_bucket b options t)) \<le> unat (rb_available_milli_tokens (refill_bucket b options t)) + 1000"
  by (simp add: refund_bucket_def Let_def unat_min unat_saturating_add min.coboundedI1)

lemma refund_last [simp]: "rb_last_refill (refund_bucket b options now) = now"
  by (simp add: refund_bucket_def Let_def)

lemma consume_available:
  assumes "try_consume_bucket b options t = (consumed, b')"
  shows "1000 * of_bool consumed + unat (rb_available_milli_tokens b') = unat (rb_available_milli_tokens (refill_bucket b options t))"
    and "rb_last_refill b' = t"
  using assms by (auto simp: consume_result Let_def unat_sub word_le_nat_alt split: if_splits)

text \<open>
  The milliseconds a bucket is refilled for. A request reads the clock before it locks the bucket, so the times need not
  come in order; a step back in time refills nothing, and the way forward from there counts again.
\<close>

fun refill_millis :: "Instant \<Rightarrow> Instant list \<Rightarrow> nat" where
  "refill_millis l [] = 0"
| "refill_millis l (t # ts) = as_millis (t - l) + refill_millis t ts"

lemma refill_millis_sorted: "sorted (l # ts) \<Longrightarrow> refill_millis l ts \<le> as_millis (last (l # ts) - l)"
proof (induction ts arbitrary: l)
  case (Cons t ts)
  have "t \<le> last (t # ts)" using Cons.prems by (cases ts) auto
  then show ?case using Cons as_millis_split [of l t "last (t # ts)"] by force
qed simp

lemma bucket_run_bound:
  assumes "scope_enabled options"
  shows "bucket_wf options b \<Longrightarrow> bucket_run options b es = (n, b') \<Longrightarrow>
    1000 * n + unat (rb_available_milli_tokens b') \<le> unat (rb_available_milli_tokens b) + 1000 * refunds es
      + refill_millis (rb_last_refill b) (map event_time es) * unat (so_requests_per_second options)
    \<and> rb_last_refill b' = last (rb_last_refill b # map event_time es)"
proof (induction es arbitrary: b n)
  case Nil
  then show ?case by simp
next
  case (Cons e es)
  let ?r = "unat (so_requests_per_second options)"
  obtain c b1 n1 where b1: "bucket_wf options b1" "rb_last_refill b1 = event_time e" "bucket_run options b1 es = (n1, b')" "n = of_bool c + n1"
    "1000 * of_bool c + unat (rb_available_milli_tokens b1) + 1000 * refunds es
      \<le> unat (rb_available_milli_tokens (refill_bucket b options (event_time e))) + 1000 * refunds (e # es)"
  proof (cases e)
    case (Consume t)
    obtain c b1 where eq: "try_consume_bucket b options t = (c, b1)" by (cases "try_consume_bucket b options t")
    have "bucket_wf options b1" using consume_wf [OF Cons.prems(1), of t] eq by simp
    then show thesis using that [of b1 _ c] Cons.prems(2) eq consume_available [OF eq] Consume
      by (cases "bucket_run options b1 es") auto
  next
    case (Refund t)
    then show thesis using that [of "refund_bucket b options t" n False] Cons.prems(2) refund_wf refund_available [of b options t]
      by auto
  next
    case (Look t)
    then show thesis using that [of "refill_bucket b options t" n False] Cons.prems refill_wf by auto
  qed
  from Cons.IH [OF b1(1,3)] b1(4,5) bucket_run_step [OF assms Cons.prems(1), of "event_time e"]
  show ?case by (simp add: b1(2) add_mult_distrib)
qed

text \<open>
  C19. A token bucket admits no more than its burst and its rate allow. Over any sequence of atomic
  operations, the tokens of the admitted requests and the tokens left are at most the tokens at the start, the
  refunds, and the rate times the milliseconds the bucket is refilled for; when the times of the operations do not
  decrease, these are at most the milliseconds from the first to the last.
\<close>

theorem bucket_admission_bound:
  assumes "scope_enabled options" and "bucket_wf options b" and "bucket_run options b es = (n, b')"
  shows "1000 * n + unat (rb_available_milli_tokens b') \<le> unat (rb_available_milli_tokens b) + 1000 * refunds es
      + refill_millis (rb_last_refill b) (map event_time es) * unat (so_requests_per_second options)
    \<and> (sorted (rb_last_refill b # map event_time es) \<longrightarrow>
        1000 * n + unat (rb_available_milli_tokens b') \<le> unat (rb_available_milli_tokens b) + 1000 * refunds es
          + as_millis (rb_last_refill b' - rb_last_refill b) * unat (so_requests_per_second options))"
proof -
  let ?l = "rb_last_refill b" and ?ts = "map event_time es" and ?r = "unat (so_requests_per_second options)"
  note bound = bucket_run_bound [OF assms]
  have "refill_millis ?l ?ts * ?r \<le> as_millis (rb_last_refill b' - ?l) * ?r" if "sorted (?l # ?ts)"
    unfolding conjunct2 [OF bound] by (rule mult_le_mono1) (rule refill_millis_sorted [OF that])
  then show ?thesis using conjunct1 [OF bound] by linarith
qed

theorem bucket_admission_bound_witness:
  "\<exists>n b'. bucket_run \<lparr> so_requests_per_second = 10, so_burst = 2 \<rparr> (new_bucket \<lparr> so_requests_per_second = 10, so_burst = 2 \<rparr> 0)
      [Consume 5, Consume 6, Refund 7, Look 100000000, Consume 300000000] = (n, b')
    \<and> 1000 * n + unat (rb_available_milli_tokens b') \<le> 2000 + 1000 + 3000"
proof -
  let ?o = "\<lparr> so_requests_per_second = 10, so_burst = 2 \<rparr>"
  let ?es = "[Consume 5, Consume 6, Refund 7, Look 100000000, Consume 300000000]"
  have en: "scope_enabled ?o" by (simp add: scope_enabled_def)
  have srt: "sorted (rb_last_refill (new_bucket ?o 0) # map event_time ?es)" by (simp add: new_bucket_def)
  obtain n b' where run: "bucket_run ?o (new_bucket ?o 0) ?es = (n, b')" by (cases "bucket_run ?o (new_bucket ?o 0) ?es")
  have cap: "unat (scope_capacity ?o) = 2000" by (simp add: unat_scope_capacity en) (simp add: scope_burst_def en max_def word_le_nat_alt)
  have "rb_last_refill b' = 300000000" using run by (auto simp: consume_available(2) [OF surjective_pairing] case_prod_unfold)
  then show ?thesis using bucket_admission_bound [OF en new_bucket_wf run] srt run cap
    by (auto simp: new_bucket_def as_millis_def)
qed

text \<open>
  The bound by the time that passed needs the order. A request that read the clock before another one, but locks the
  bucket after it, moves the time of the last refill back, and the next refill pays for the same ten milliseconds
  again: three requests within ten milliseconds at one in ten milliseconds and a burst of one.
\<close>

lemma late_request_refills_twice:
  "fst (bucket_run \<lparr> so_requests_per_second = 100, so_burst = 1 \<rparr> (new_bucket \<lparr> so_requests_per_second = 100, so_burst = 1 \<rparr> 0)
     [Consume 0, Consume 10000000, Consume 0, Consume 10000000]) = 3"
proof -
  let ?o = "\<lparr> so_requests_per_second = 100, so_burst = 1 \<rparr>" and ?b = "\<lambda>n t. \<lparr> rb_available_milli_tokens = n, rb_last_refill = t \<rparr>"
  have en: "scope_enabled ?o" by (simp add: scope_enabled_def)
  have cap: "scope_capacity ?o = 1000" by (simp add: scope_capacity_def scope_burst_def en RATE_LIMIT_TOKEN_SCALE_def)
  have refill: "scope_refill ?o 0 = 0" "scope_refill ?o 10000000 = 1000"
    by (simp_all add: scope_refill_def en as_millis_def saturating_mul_def RATE_LIMIT_TOKEN_SCALE_def Let_def)
  have "try_consume_bucket (?b 1000 0) ?o 0 = (True, ?b 0 0)" "try_consume_bucket (?b 0 0) ?o 10000000 = (True, ?b 0 10000000)"
    "try_consume_bucket (?b 0 10000000) ?o 0 = (False, ?b 0 0)"
    by (simp_all add: try_consume_bucket_def refill_bucket_def en cap refill saturating_add_def RATE_LIMIT_TOKEN_SCALE_def Let_def)
  then show ?thesis by (simp add: new_bucket_def cap)
qed

section \<open>Refilling\<close>

text \<open>Each time is less than a millisecond after the one before.\<close>

fun quick :: "Instant \<Rightarrow> Instant list \<Rightarrow> bool" where
  "quick l [] \<longleftrightarrow> True"
| "quick l (t # ts) \<longleftrightarrow> t - l < 1000000 \<and> quick t ts"

lemma quick_run:
  assumes "scope_enabled options"
  shows "bucket_wf options b \<Longrightarrow> quick (rb_last_refill b) ts \<Longrightarrow>
    1000 * fst (bucket_run options b (map Consume ts)) \<le> unat (rb_available_milli_tokens b)"
proof (induction ts arbitrary: b)
  case Nil
  then show ?case by simp
next
  case (Cons t ts)
  obtain c b1 where eq: "try_consume_bucket b options t = (c, b1)" by (cases "try_consume_bucket b options t")
  have wf: "bucket_wf options b1" using consume_wf [OF Cons.prems(1), of t] eq by simp
  have "rb_available_milli_tokens (refill_bucket b options t) = rb_available_milli_tokens b"
    using Cons.prems(2) assms by (simp add: refill_bucket_def scope_refill_within)
  then show ?case using Cons.IH [OF wf] Cons.prems(2) consume_available [OF eq] eq by simp
qed

text \<open>
  C39. A busy bucket never refills. When every request comes less than a millisecond after the one
  before, the time that passes is rounded down to zero milliseconds each time and forgotten: no
  matter how long this goes on, only the tokens of the start are ever admitted.
\<close>

theorem busy_bucket_never_refills:
  assumes "scope_enabled options" and "bucket_wf options b" and "quick (rb_last_refill b) ts"
  shows "fst (bucket_run options b (map Consume ts)) \<le> unat (rb_available_milli_tokens b) div 1000"
  using quick_run [OF assms] by (simp add: less_eq_div_iff_mult_less_eq mult.commute)

lemma quick_steps: "quick (900000 * k) (map (\<lambda>i. 900000 * Suc i) [k..<m])"
proof (induction "m - k" arbitrary: k)
  case 0
  then show ?case by simp
next
  case (Suc n)
  then have "quick (900000 * Suc k) (map (\<lambda>i. 900000 * Suc i) [Suc k..<m])" by (metis Suc_diff_Suc Suc_inject zero_less_Suc zero_less_diff)
  moreover have "[k..<m] = k # [Suc k..<m]" using Suc.hyps(2) by (simp add: upt_rec)
  ultimately show ?case by simp
qed

text \<open>Nine hundred seconds of requests, one every 0.9 milliseconds, at a rate of a thousand per second: one is admitted.\<close>

theorem busy_bucket_never_refills_witness:
  "fst (bucket_run \<lparr> so_requests_per_second = 1000, so_burst = 1 \<rparr> (new_bucket \<lparr> so_requests_per_second = 1000, so_burst = 1 \<rparr> 0)
     (map Consume (map (\<lambda>i. 900000 * Suc i) [0..<1000000]))) \<le> 1"
proof -
  let ?o = "\<lparr> so_requests_per_second = 1000, so_burst = 1 \<rparr>"
  have en: "scope_enabled ?o" by (simp add: scope_enabled_def)
  have "unat (scope_capacity ?o) = 1000" by (simp add: unat_scope_capacity en) (simp add: scope_burst_def en)
  then show ?thesis
    using busy_bucket_never_refills [OF en new_bucket_wf, of 0 "map (\<lambda>i. 900000 * Suc i) [0..<1000000]"] quick_steps [of 0 1000000]
    by (simp only: new_bucket_def RateLimitBucket.simps mult_0_right) simp
qed

text \<open>
  A bucket recovers. A request that comes after enough whole milliseconds for the rate to bring in
  one token is admitted, whatever the state of the bucket.
\<close>

theorem bucket_recovers:
  assumes "scope_enabled options" and "bucket_wf options b" and "n \<le> as_millis (now - rb_last_refill b)"
    and "1000 \<le> n * unat (so_requests_per_second options)"
    and "n * unat (so_requests_per_second options) \<le> (2 ^ 64 - 1) div 1000"
  shows "fst (try_consume_bucket b options now)"
proof -
  have "1000 \<le> unat (scope_capacity options)" using scope_burst_pos [OF assms(1)] assms(1) by (simp add: unat_scope_capacity)
  then have "1000 \<le> unat (rb_available_milli_tokens (refill_bucket b options now))"
    using available_refill [OF assms(1,2), of now] scope_refill_ge [OF assms(1,3,5)] assms(4) by linarith
  then show ?thesis by (simp add: consume_result Let_def)
qed

theorem bucket_recovers_witness:
  "fst (try_consume_bucket \<lparr> rb_available_milli_tokens = 0, rb_last_refill = 0 \<rparr> \<lparr> so_requests_per_second = 5, so_burst = 0 \<rparr> 200000000)"
  by (rule bucket_recovers [where n = 200]) (simp_all add: scope_enabled_def bucket_wf_def as_millis_def)

section \<open>The scopes together\<close>

definition scope_wf :: "KeyedScopeController \<Rightarrow> bool" where
  "scope_wf s \<longleftrightarrow> (\<forall>name b. ks_buckets s name = Some b \<longrightarrow> bucket_wf (ks_options s) b)"

definition rate_wf :: "HttpRateLimitController \<Rightarrow> bool" where
  "rate_wf c \<longleftrightarrow> (\<forall>b. rc_global c = Some b \<longrightarrow> bucket_wf (rc_global_options c) b)
     \<and> scope_wf (rc_listener c) \<and> scope_wf (rc_route c) \<and> scope_wf (rc_backend c)"

text \<open>From \<open>s\<close> to \<open>s'\<close> every bucket is at most refilled: no token is gone.\<close>

definition only_refilled :: "Instant \<Rightarrow> KeyedScopeController \<Rightarrow> KeyedScopeController \<Rightarrow> bool" where
  "only_refilled now s s' \<longleftrightarrow> ks_options s' = ks_options s \<and> (\<forall>name b. ks_buckets s name = Some b \<longrightarrow>
     ks_buckets s' name = Some b \<or> ks_buckets s' name = Some (refill_bucket b (ks_options s) now))"

lemma only_refilled_refl [simp]: "only_refilled now s s"
  by (simp add: only_refilled_def)

lemma keyed_bucket_cases:
  assumes "keyed_bucket s key created = (name, s')"
  obtains "name = None" and "s' = s"
  | k where "name = Some k" and "ks_buckets s k \<noteq> None" and "s' = s"
  | k where "name = Some k" and "ks_buckets s k = None"
      and "s' = s\<lparr> ks_buckets := (ks_buckets s)(k \<mapsto> new_bucket (ks_options s) created) \<rparr>"
proof (cases "scope_enabled (ks_options s) \<and> trim key \<noteq> []")
  case False
  then have "name = None" "s' = s" using assms by (simp_all add: keyed_bucket_def Let_def split: if_splits)
  then show thesis by (rule that(1))
next
  case True
  show thesis
  proof (cases "ks_buckets s (trim key)")
    case None
    have "name = Some (trim key)" "s' = s\<lparr> ks_buckets := (ks_buckets s)(trim key \<mapsto> new_bucket (ks_options s) created) \<rparr>"
      using assms True None by (simp_all add: keyed_bucket_def Let_def)
    with None show thesis by (intro that(3) [of "trim key"])
  next
    case (Some b)
    have "name = Some (trim key)" "s' = s" using assms True Some by (simp_all add: keyed_bucket_def Let_def)
    with Some show thesis by (intro that(2) [of "trim key"]) simp_all
  qed
qed

lemma keyed_bucket_wf: "keyed_bucket s key created = (name, s') \<Longrightarrow> scope_wf s \<Longrightarrow> scope_wf s'"
  by (erule keyed_bucket_cases) (auto simp: scope_wf_def new_bucket_wf)

lemma keyed_bucket_present: "keyed_bucket s key created = (Some k, s') \<Longrightarrow> \<exists>b. ks_buckets s' k = Some b"
  by (erule keyed_bucket_cases) auto

lemma keyed_bucket_refilled: "keyed_bucket s key created = (name, s') \<Longrightarrow> only_refilled now s s'"
  by (erule keyed_bucket_cases) (auto simp: only_refilled_def)

lemma keyed_consume_wf: "scope_wf s \<Longrightarrow> scope_wf (snd (keyed_consume s k now))"
  using consume_wf by (auto simp: scope_wf_def keyed_consume_def case_prod_unfold split: option.splits if_splits)

lemma scope_consume_wf:
  assumes "scope_wf s" and "scope_consume s key now created = (ok, name, s')"
  shows "scope_wf s'"
proof -
  obtain n s1 where kb: "keyed_bucket s key created = (n, s1)" by (cases "keyed_bucket s key created")
  show ?thesis
    using assms(2) kb keyed_bucket_wf [OF kb assms(1)] keyed_consume_wf [of s1 _ now]
    by (auto simp: scope_consume_def split: option.splits prod.splits) (metis snd_conv)
qed

lemma only_refilled_upd:
  assumes "only_refilled now s s1" and "ks_buckets s1 k = Some b1"
    and "\<And>b. ks_buckets s k = Some b \<Longrightarrow> b1 = b \<Longrightarrow> b2 = refill_bucket b (ks_options s) now"
    and "\<And>b. ks_buckets s k = Some b \<Longrightarrow> ks_buckets s1 k = Some b"
  shows "only_refilled now s (s1\<lparr> ks_buckets := (ks_buckets s1)(k \<mapsto> b2) \<rparr>)"
  using assms by (auto simp: only_refilled_def)

lemma keyed_bucket_same:
  "keyed_bucket s key created = (n, s1) \<Longrightarrow> ks_options s1 = ks_options s \<and> (\<forall>k b. ks_buckets s k = Some b \<longrightarrow> ks_buckets s1 k = Some b)"
  by (erule keyed_bucket_cases) auto

text \<open>A scope that rejects is only refilled, and so is one that admits once its token is refunded.\<close>

lemma scope_rejects:
  assumes "scope_consume s key now created = (False, name, s')"
  shows "only_refilled now s s'"
proof -
  obtain n s1 where kb: "keyed_bucket s key created = (n, s1)" by (cases "keyed_bucket s key created")
  obtain k where n: "n = Some k" using assms kb by (cases n) (auto simp: scope_consume_def)
  obtain b1 where b1: "ks_buckets s1 k = Some b1" using keyed_bucket_present [OF kb [unfolded n]] by blast
  have s': "s' = s1\<lparr> ks_buckets := (ks_buckets s1)(k \<mapsto> refill_bucket b1 (ks_options s1) now) \<rparr>"
    using assms kb n b1 by (auto simp: scope_consume_def keyed_consume_def consume_result Let_def split: prod.splits if_splits)
  show ?thesis unfolding s'
    by (rule only_refilled_upd [OF keyed_bucket_refilled [OF kb] b1]) (use keyed_bucket_same [OF kb] in auto)
qed

lemma scope_admits_refund:
  assumes "scope_wf s" and "scope_consume s key now created = (True, name, s')"
  shows "only_refilled now s (keyed_refund s' name now)"
proof -
  obtain n s1 where kb: "keyed_bucket s key created = (n, s1)" by (cases "keyed_bucket s key created")
  note same = keyed_bucket_same [OF kb]
  show ?thesis
  proof (cases n)
    case None
    then show ?thesis using assms(2) kb keyed_bucket_refilled [OF kb] by (simp add: scope_consume_def keyed_refund_def)
  next
    case (Some k)
    obtain b1 where b1: "ks_buckets s1 k = Some b1" using keyed_bucket_present [OF kb [unfolded Some]] by blast
    have wf: "bucket_wf (ks_options s1) b1" using keyed_bucket_wf [OF kb assms(1)] b1 by (simp add: scope_wf_def)
    obtain b2 where c: "try_consume_bucket b1 (ks_options s1) now = (True, b2)"
      and s': "s' = s1\<lparr> ks_buckets := (ks_buckets s1)(k \<mapsto> b2) \<rparr>" and name: "name = Some k"
      using assms(2) kb Some b1 by (auto simp: scope_consume_def keyed_consume_def split: prod.splits)
    have "keyed_refund s' name now = s1\<lparr> ks_buckets := (ks_buckets s1)(k \<mapsto> refill_bucket b1 (ks_options s1) now) \<rparr>"
      using consume_refund [OF wf c] by (simp add: keyed_refund_def name s')
    also have "only_refilled now s \<dots>"
      by (rule only_refilled_upd [OF keyed_bucket_refilled [OF kb] b1]) (use same in auto)
    finally show ?thesis .
  qed
qed

lemma global_admits_refund:
  assumes "\<forall>b. rc_global c = Some b \<longrightarrow> bucket_wf (rc_global_options c) b" and "global_consume c now = (True, c')"
  shows "map_option (\<lambda>b. refund_bucket b (rc_global_options c) now) (rc_global c') = map_option (\<lambda>b. refill_bucket b (rc_global_options c) now) (rc_global c)"
    and "c' = c\<lparr> rc_global := rc_global c' \<rparr>"
  using assms consume_refund by (auto simp: global_consume_def split: option.splits prod.splits)

lemma global_rejects:
  assumes "global_consume c now = (False, c')"
  shows "rc_global c' = map_option (\<lambda>b. refill_bucket b (rc_global_options c) now) (rc_global c)"
    and "c' = c\<lparr> rc_global := rc_global c' \<rparr>"
  using assms by (auto simp: global_consume_def consume_result Let_def split: option.splits prod.splits if_splits)

text \<open>
  A rejected request costs nothing. Whichever scope rejects it, the global bucket ends up as after
  a refill, and so does, or stays as it was, every bucket of a listener, a route and a backend: the
  tokens taken from the scopes before the rejecting one have been given back.
\<close>

theorem rejected_request_costs_nothing:
  assumes "rate_wf c" and "rate_try_acquire c listener route clock = (Inl rejection, c')"
  shows "rc_global c' = map_option (\<lambda>b. refill_bucket b (rc_global_options c) (clock 0)) (rc_global c)
    \<and> only_refilled (clock 0) (rc_listener c) (rc_listener c') \<and> only_refilled (clock 0) (rc_route c) (rc_route c')
    \<and> rc_backend c' = rc_backend c"
proof -
  let ?now = "clock 0"
  obtain g c1 where gc: "global_consume c ?now = (g, c1)" by (cases "global_consume c ?now")
  show ?thesis
  proof (cases g)
    case False
    note gf = global_rejects [OF gc [unfolded False [THEN eq_False [THEN iffD2]]]]
    have eqs: "rc_listener c1 = rc_listener c" "rc_route c1 = rc_route c" "rc_backend c1 = rc_backend c" by (subst gf(2), simp)+
    have "c' = rate_observe_reject RateGlobal None c1" using assms(2) gc False by (simp add: rate_try_acquire_def)
    then show ?thesis using gf(1) eqs by (simp add: rate_observe_reject_def)
  next
    case True
    have wfg: "\<forall>b. rc_global c = Some b \<longrightarrow> bucket_wf (rc_global_options c) b" using assms(1) by (simp add: rate_wf_def)
    note gt = global_admits_refund [OF wfg gc [unfolded True [THEN eq_True [THEN iffD2]]]]
    have eqs: "rc_listener c1 = rc_listener c" "rc_route c1 = rc_route c" "rc_backend c1 = rc_backend c" "rc_global_options c1 = rc_global_options c"
      by (subst gt(2), simp)+
    obtain l ln ls where lc: "scope_consume (rc_listener c) listener ?now (clock 1) = (l, ln, ls)" by (metis prod_cases3)
    show ?thesis
    proof (cases l)
      case False
      then show ?thesis using assms(2) gc True lc eqs gt(1) scope_rejects [of "rc_listener c" listener ?now "clock 1" ln ls]
        by (auto simp: rate_try_acquire_def rate_observe_reject_def global_refund_def)
    next
      case l: True
      have lr: "only_refilled ?now (rc_listener c) (keyed_refund ls ln ?now)"
        using scope_admits_refund [of "rc_listener c"] assms(1) lc l by (simp add: rate_wf_def)
      obtain r rn rs where rcs: "scope_consume (rc_route c) route ?now (clock 2) = (r, rn, rs)" by (metis prod_cases3)
      have "\<not> r" using assms(2) gc True lc l rcs eqs by (auto simp: rate_try_acquire_def Let_def)
      then show ?thesis using assms(2) gc True lc l rcs eqs gt(1) lr scope_rejects [of "rc_route c" route ?now "clock 2" rn rs]
        by (auto simp: rate_try_acquire_def rate_observe_reject_def global_refund_def Let_def)
    qed
  qed
qed


lemma rate_limit_new_wf: "rate_wf (rate_limit_new options created)"
  by (simp add: rate_wf_def rate_limit_new_def Let_def keyed_scope_new_def scope_wf_def new_bucket_wf)

text \<open>One token is in the global bucket, none in the bucket of the route.\<close>

definition drained_limits :: HttpRateLimitController where
  "drained_limits =
     (let options = \<lparr> so_requests_per_second = 10, so_burst = 1 \<rparr>;
          off = \<lparr> ks_options = \<lparr> so_requests_per_second = 0, so_burst = 0 \<rparr>, ks_buckets = Map.empty \<rparr>
      in \<lparr> rc_global_options = options, rc_global = Some \<lparr> rb_available_milli_tokens = 1000, rb_last_refill = 0 \<rparr>,
           rc_listener = off,
           rc_route = \<lparr> ks_options = options, ks_buckets = [''r'' \<mapsto> \<lparr> rb_available_milli_tokens = 0, rb_last_refill = 0 \<rparr>] \<rparr>,
           rc_backend = off, rc_stats = HttpRateLimitStats_default \<rparr>)"

theorem rejected_request_costs_nothing_witness:
  "\<exists>c'. rate_try_acquire drained_limits ''l'' ''r'' (\<lambda>_. 0) = (Inl RateRoute, c')
    \<and> rc_global c' = Some \<lparr> rb_available_milli_tokens = 1000, rb_last_refill = 0 \<rparr>"
proof -
  let ?o = "\<lparr> so_requests_per_second = 10, so_burst = 1 \<rparr>"
  have trim_r: "trim ''r'' = ''r''" by code_simp
  have en: "scope_enabled ?o" "\<not> scope_enabled \<lparr> so_requests_per_second = 0, so_burst = 0 \<rparr>" by (simp_all add: scope_enabled_def)
  have refill: "refill_bucket \<lparr> rb_available_milli_tokens = a, rb_last_refill = 0 \<rparr> ?o 0 = \<lparr> rb_available_milli_tokens = a, rb_last_refill = 0 \<rparr>" for a
    by (simp add: refill_bucket_def en scope_refill_within)
  have wf: "rate_wf drained_limits"
    by (simp add: rate_wf_def drained_limits_def Let_def scope_wf_def bucket_wf_def scope_capacity_def en scope_burst_def RATE_LIMIT_TOKEN_SCALE_def)
  obtain c' where c': "rate_try_acquire drained_limits ''l'' ''r'' (\<lambda>_. 0) = (Inl RateRoute, c')"
    by (simp add: drained_limits_def Let_def rate_try_acquire_def global_consume_def consume_result refill en trim_r scope_consume_def keyed_bucket_def keyed_consume_def)
  from rejected_request_costs_nothing [OF wf c'] c' show ?thesis by (simp add: drained_limits_def Let_def refill)
qed

section \<open>Buckets stay within their capacity\<close>

lemma keyed_refund_wf: "scope_wf s \<Longrightarrow> scope_wf (keyed_refund s name now)"
  using refund_wf by (cases name) (auto simp: scope_wf_def keyed_refund_def split: if_splits)

lemma keyed_snapshot_wf: "scope_wf s \<Longrightarrow> scope_wf (snd (keyed_snapshot s now))"
  using refill_wf by (auto simp: scope_wf_def keyed_snapshot_def Let_def)

lemma global_consume_wf: "rate_wf c \<Longrightarrow> global_consume c now = (g, c') \<Longrightarrow> rate_wf c'"
  using consume_wf [of "rc_global_options c"] by (auto simp: rate_wf_def global_consume_def split: option.splits prod.splits) (metis snd_conv)

lemma global_refund_wf: "rate_wf c \<Longrightarrow> rate_wf (global_refund c now)"
  using refund_wf by (auto simp: rate_wf_def global_refund_def)

lemma observe_reject_wf: "rate_wf c \<Longrightarrow> rate_wf (rate_observe_reject rejection key c)"
  by (simp add: rate_wf_def rate_observe_reject_def)

lemma rate_wf_update:
  "rate_wf c \<Longrightarrow> scope_wf s \<Longrightarrow> rate_wf (c\<lparr> rc_listener := s \<rparr>)"
  "rate_wf c \<Longrightarrow> scope_wf s \<Longrightarrow> rate_wf (c\<lparr> rc_route := s \<rparr>)"
  "rate_wf c \<Longrightarrow> scope_wf s \<Longrightarrow> rate_wf (c\<lparr> rc_backend := s \<rparr>)"
  "rate_wf c \<Longrightarrow> scope_wf (rc_listener c) \<and> scope_wf (rc_route c) \<and> scope_wf (rc_backend c)"
  by (simp_all add: rate_wf_def)

lemmas rate_wf_intros = rate_wf_update(1-3) global_refund_wf observe_reject_wf keyed_refund_wf

lemma try_acquire_listener_wf: "rate_wf c \<Longrightarrow> rate_wf (snd (rate_try_acquire_listener c listener clock))"
  by (auto simp: rate_try_acquire_listener_def Let_def split: prod.split bool.split
      intro!: rate_wf_intros dest: global_consume_wf scope_consume_wf [rotated] rate_wf_update(4))

lemma try_acquire_route_wf: "rate_wf c \<Longrightarrow> rate_wf (snd (rate_try_acquire_route c route clock))"
  by (auto simp: rate_try_acquire_route_def split: prod.split bool.split
      intro!: rate_wf_intros dest: scope_consume_wf [rotated] rate_wf_update(4))

lemma try_acquire_backend_wf: "rate_wf c \<Longrightarrow> rate_wf (snd (rate_try_acquire_backend c backend clock))"
  by (auto simp: rate_try_acquire_backend_def split: prod.split bool.split
      intro!: rate_wf_intros dest: scope_consume_wf [rotated] rate_wf_update(4))

lemma try_acquire_wf:
  assumes "rate_wf c"
  shows "rate_wf (snd (rate_try_acquire c listener route clock))"
proof -
  obtain g c1 where gc: "global_consume c (clock 0) = (g, c1)" by (cases "global_consume c (clock 0)")
  have c1: "rate_wf c1" by (rule global_consume_wf [OF assms gc])
  obtain l ln ls where lc: "scope_consume (rc_listener c1) listener (clock 0) (clock 1) = (l, ln, ls)" by (metis prod_cases3)
  have ls: "scope_wf ls" using scope_consume_wf [OF _ lc] rate_wf_update(4) [OF c1] by simp
  obtain r rn rs where rcs: "scope_consume (rc_route c1) route (clock 0) (clock 2) = (r, rn, rs)" by (metis prod_cases3)
  have rs: "scope_wf rs" using scope_consume_wf [OF _ rcs] rate_wf_update(4) [OF c1] by simp
  show ?thesis using gc c1 lc ls rcs rs
    by (auto simp: rate_try_acquire_def Let_def split: bool.split intro!: rate_wf_intros)
qed

lemma rate_snapshot_wf: "rate_wf c \<Longrightarrow> rate_wf (snd (rate_snapshot c now))"
  using keyed_snapshot_wf [of _ now] refill_wf
  by (auto simp: rate_snapshot_def rate_wf_def snapshot_bucket_def Let_def case_prod_unfold split: option.splits)

text \<open>
  C28. The buckets of the rate limiter are well-typed: none of its operations leaves more tokens in a
  bucket than its capacity, the burst in thousandths.
\<close>

theorem limiter_within_capacity:
  assumes "rate_wf c"
  shows "rate_wf (snd (rate_try_acquire c listener route clock)) \<and> rate_wf (snd (rate_try_acquire_listener c listener clock))
    \<and> rate_wf (snd (rate_try_acquire_route c route clock)) \<and> rate_wf (snd (rate_try_acquire_backend c backend clock))
    \<and> rate_wf (snd (rate_snapshot c now))"
  using assms by (intro conjI try_acquire_wf try_acquire_listener_wf try_acquire_route_wf try_acquire_backend_wf rate_snapshot_wf)

theorem limiter_within_capacity_witness:
  "rate_wf (snd (rate_try_acquire (rate_limit_new \<lparr> ro_global_requests_per_second = 10, ro_global_burst = 2,
     ro_listener_requests_per_second = 5, ro_listener_burst = 1, ro_route_requests_per_second = 0, ro_route_burst = 0,
     ro_backend_requests_per_second = 0, ro_backend_burst = 0 \<rparr> 0) ''l'' ''r'' (\<lambda>k. k)))"
  using limiter_within_capacity [OF rate_limit_new_wf] by blast

end
