(* ===== verification/Retry_Budget.thy ===== *)
theory Retry_Budget
  imports Counters
begin

text \<open>
  The budget of retries, \<open>crates/ntgw-observability/src/retry_budget.rs\<close>: every request that may be
  retried brings in a fraction of a token, every retry costs one. The lemmas bound the retries by
  the requests.
\<close>

definition RETRY_BUDGET_TOKEN_SCALE :: u64 where
  "RETRY_BUDGET_TOKEN_SCALE = 1000"

record RetryBudgetOptions =
  yo_enabled :: bool
  yo_ratio_percent :: u32
  yo_burst :: u32

definition RetryBudgetOptions_default :: RetryBudgetOptions where
  "RetryBudgetOptions_default = \<lparr> yo_enabled = True, yo_ratio_percent = 20, yo_burst = 16 \<rparr>"

record RetryBudgetState =
  ys_available_milli_tokens :: u64
  ys_retryable_requests_observed_total :: u64
  ys_retry_allowed_total :: u64
  ys_retry_rejected_total :: u64

record RetryBudgetController =
  yc_options :: RetryBudgetOptions
  yc_state :: RetryBudgetState

definition retry_budget_refill :: "RetryBudgetOptions \<Rightarrow> u64" where
  "retry_budget_refill options = ucast (min (yo_ratio_percent options) 100) * RETRY_BUDGET_TOKEN_SCALE div 100"

definition retry_budget_capacity :: "RetryBudgetOptions \<Rightarrow> u64" where
  "retry_budget_capacity options = ucast (max (yo_burst options) 1) * RETRY_BUDGET_TOKEN_SCALE"

definition retry_budget_new :: "RetryBudgetOptions \<Rightarrow> RetryBudgetController" where
  "retry_budget_new options =
     (let available_milli_tokens = (if yo_enabled options then retry_budget_capacity options else 0)
      in \<lparr> yc_options = options,
           yc_state = \<lparr> ys_available_milli_tokens = available_milli_tokens, ys_retryable_requests_observed_total = 0,
             ys_retry_allowed_total = 0, ys_retry_rejected_total = 0 \<rparr> \<rparr>)"

definition observe_retryable_request :: "RetryBudgetController \<Rightarrow> RetryBudgetController" where
  "observe_retryable_request c =
     (if \<not> yo_enabled (yc_options c) then c
      else let state = yc_state c in
        c\<lparr> yc_state := state
          \<lparr> ys_retryable_requests_observed_total := saturating_add (ys_retryable_requests_observed_total state) 1,
            ys_available_milli_tokens :=
              min (saturating_add (ys_available_milli_tokens state) (retry_budget_refill (yc_options c)))
                (retry_budget_capacity (yc_options c)) \<rparr> \<rparr>)"

definition try_acquire_retry :: "RetryBudgetController \<Rightarrow> bool \<times> RetryBudgetController" where
  "try_acquire_retry c =
     (if \<not> yo_enabled (yc_options c) then (True, c)
      else let state = yc_state c in
        if ys_available_milli_tokens state < RETRY_BUDGET_TOKEN_SCALE
        then (False, c\<lparr> yc_state := state\<lparr> ys_retry_rejected_total := saturating_add (ys_retry_rejected_total state) 1 \<rparr> \<rparr>)
        else (True, c\<lparr> yc_state := state
          \<lparr> ys_available_milli_tokens := ys_available_milli_tokens state - RETRY_BUDGET_TOKEN_SCALE,
            ys_retry_allowed_total := saturating_add (ys_retry_allowed_total state) 1 \<rparr> \<rparr>))"

record RetryBudgetSnapshot =
  yz_enabled :: bool
  yz_ratio_percent :: u32
  yz_burst :: u32
  yz_available_tokens :: u64
  yz_available_milli_tokens :: u64
  yz_retryable_requests_observed_total :: u64
  yz_retry_allowed_total :: u64
  yz_retry_rejected_total :: u64

definition retry_budget_snapshot :: "RetryBudgetController \<Rightarrow> RetryBudgetSnapshot" where
  "retry_budget_snapshot c =
     (let state = yc_state c; options = yc_options c
      in \<lparr> yz_enabled = yo_enabled options, yz_ratio_percent = min (yo_ratio_percent options) 100,
           yz_burst = max (yo_burst options) 1,
           yz_available_tokens = ys_available_milli_tokens state div RETRY_BUDGET_TOKEN_SCALE,
           yz_available_milli_tokens = ys_available_milli_tokens state,
           yz_retryable_requests_observed_total = ys_retryable_requests_observed_total state,
           yz_retry_allowed_total = ys_retry_allowed_total state,
           yz_retry_rejected_total = ys_retry_rejected_total state \<rparr>)"

section \<open>Retries are bounded by requests\<close>

text \<open>The events a budget sees: a retryable request, or a request for a retry.\<close>

datatype RetryEvent = Observed | Wanted

fun retry_run :: "RetryBudgetController \<Rightarrow> RetryEvent list \<Rightarrow> nat \<times> RetryBudgetController" where
  "retry_run c [] = (0, c)"
| "retry_run c (Observed # es) = retry_run (observe_retryable_request c) es"
| "retry_run c (Wanted # es) =
     (case try_acquire_retry c of (allowed, c) \<Rightarrow> map_prod (\<lambda>n. of_bool allowed + n) (\<lambda>c. c) (retry_run c es))"

lemma unat_refill: "unat (retry_budget_refill options) = 10 * min (unat (yo_ratio_percent options)) 100"
proof -
  have "unat (ucast (min (yo_ratio_percent options) 100) * RETRY_BUDGET_TOKEN_SCALE :: u64) = min (unat (yo_ratio_percent options)) 100 * 1000"
    by (subst unat_mult_no_overflow) (simp_all add: unat_u64_of_u32 unat_min RETRY_BUDGET_TOKEN_SCALE_def)
  then show ?thesis by (simp add: retry_budget_refill_def unat_div)
qed

lemma unat_capacity: "unat (retry_budget_capacity options) = 1000 * max (unat (yo_burst options)) 1"
proof -
  have lt: "unat (max (yo_burst options) 1) < 2 ^ 32" using unsigned_less [of "max (yo_burst options) 1"] by simp
  have "unat (max (yo_burst options) 1) = max (unat (yo_burst options)) 1" by (simp add: max_def word_le_nat_alt)
  then show ?thesis using lt unfolding retry_budget_capacity_def
    by (subst unat_mult_no_overflow) (simp_all add: unat_u64_of_u32 RETRY_BUDGET_TOKEN_SCALE_def)
qed

lemma observe_available:
  assumes "yo_enabled (yc_options c)"
  shows "unat (ys_available_milli_tokens (yc_state (observe_retryable_request c)))
    \<le> unat (ys_available_milli_tokens (yc_state c)) + unat (retry_budget_refill (yc_options c))"
    and "yc_options (observe_retryable_request c) = yc_options c"
  using assms by (simp_all add: observe_retryable_request_def Let_def unat_min unat_saturating_add min.coboundedI1)

lemma acquire_available:
  assumes "yo_enabled (yc_options c)" and "try_acquire_retry c = (allowed, c')"
  shows "1000 * of_bool allowed + unat (ys_available_milli_tokens (yc_state c')) = unat (ys_available_milli_tokens (yc_state c))"
    and "yc_options c' = yc_options c"
  using assms
  by (auto simp: try_acquire_retry_def Let_def RETRY_BUDGET_TOKEN_SCALE_def not_less unat_sub word_le_nat_alt split: if_splits)

lemma retry_run_bound:
  assumes "yo_enabled (yc_options c)" and "retry_run c es = (n, c')"
  shows "1000 * n + unat (ys_available_milli_tokens (yc_state c'))
    \<le> unat (ys_available_milli_tokens (yc_state c)) + unat (retry_budget_refill (yc_options c)) * count_list es Observed"
  using assms
proof (induction c es arbitrary: n rule: retry_run.induct)
  case (1 c)
  then show ?case by simp
next
  case (2 c es)
  then show ?case using observe_available [OF 2(2)] by fastforce
next
  case (3 c es)
  obtain a c1 where eq: "try_acquire_retry c = (a, c1)" by (cases "try_acquire_retry c")
  obtain m where m: "retry_run c1 es = (m, c')" "n = of_bool a + m" using 3(3) eq by (cases "retry_run c1 es") auto
  show ?case using 3(1) [OF eq [symmetric] _ m(1)] acquire_available [OF 3(2) eq] 3(2) m(2) by auto
qed

text \<open>
  C29. The retries are bounded. With an enabled budget, over any sequence of observed requests and
  wanted retries, the allowed retries are at most the burst plus the configured percentage, at
  most a hundred, of the observed requests.
\<close>

theorem retries_bounded:
  assumes "yo_enabled options"
  shows "100 * fst (retry_run (retry_budget_new options) es)
    \<le> 100 * max (unat (yo_burst options)) 1 + min (unat (yo_ratio_percent options)) 100 * count_list es Observed"
proof -
  obtain n c' where run: "retry_run (retry_budget_new options) es = (n, c')" by (cases "retry_run (retry_budget_new options) es")
  show ?thesis using retry_run_bound [OF _ run] assms run by (simp add: retry_budget_new_def unat_capacity unat_refill)
qed

theorem retries_bounded_witness:
  "100 * fst (retry_run (retry_budget_new RetryBudgetOptions_default) [Observed, Wanted, Wanted, Observed, Wanted])
    \<le> 100 * max (unat (16 :: u32)) 1 + min (unat (20 :: u32)) 100 * 2"
  using retries_bounded [of RetryBudgetOptions_default "[Observed, Wanted, Wanted, Observed, Wanted]"]
  by (simp add: RetryBudgetOptions_default_def)

end
