(* ===== verification/Keyed_Semaphore.thy ===== *)
theory Keyed_Semaphore
  imports Counters
begin

text \<open>
  Semaphores by name, the mechanism \<open>circuit_breaker.rs\<close> and \<open>overload/budget.rs\<close> of
  \<open>crates/ntgw-observability\<close> share: a map from names to reference-counted semaphores, created on demand and
  removed by the last permit. The semaphore of the \<open>tokio\<close> library is a parameter, \<open>SemaphoreLib\<close>, with its
  documented laws \<open>semaphore_laws\<close>; an \<open>Arc\<close> is an address of an explicit heap with a strong count.

  The primitives keep the invariant \<open>sm_inv\<close>, which relates counts and permits to the handles and
  permits that are out. On it rest the runs of one thread in the clients, and the interleaved runs
  of many threads here, in which a name never has more permits out than its limit.
\<close>

section \<open>Semaphores and reference counts\<close>

record 's SemaphoreLib =
  sem_new :: "nat \<Rightarrow> 's"
  sem_try_acquire :: "'s \<Rightarrow> 's option"
  sem_add_permit :: "'s \<Rightarrow> 's"
  sem_available_permits :: "'s \<Rightarrow> nat"

text \<open>
  A new semaphore has the given number of permits; acquiring fails exactly when none is available
  and otherwise takes one; a permit that is dropped goes back.
\<close>

definition semaphore_laws :: "'s SemaphoreLib \<Rightarrow> bool" where
  "semaphore_laws lib \<longleftrightarrow>
     (\<forall>n. sem_available_permits lib (sem_new lib n) = n)
     \<and> (\<forall>s. sem_try_acquire lib s = None \<longleftrightarrow> sem_available_permits lib s = 0)
     \<and> (\<forall>s s'. sem_try_acquire lib s = Some s' \<longrightarrow> sem_available_permits lib s' + 1 = sem_available_permits lib s)
     \<and> (\<forall>s. sem_available_permits lib (sem_add_permit lib s) = sem_available_permits lib s + 1)"

text \<open>A semaphore that is its number of permits.\<close>

definition counting_semaphore :: "nat SemaphoreLib" where
  "counting_semaphore = \<lparr> sem_new = (\<lambda>n. n), sem_try_acquire = (\<lambda>n. if n = 0 then None else Some (n - 1)),
     sem_add_permit = Suc, sem_available_permits = (\<lambda>n. n) \<rparr>"

lemma counting_semaphore_laws: "semaphore_laws counting_semaphore"
  by (simp add: semaphore_laws_def counting_semaphore_def)

record 's SemaphoreMap =
  sm_entries :: "string \<rightharpoonup> nat"
  sm_heap :: "nat \<rightharpoonup> 's \<times> nat"
  sm_next :: nat

definition SemaphoreMap_empty :: "'s SemaphoreMap" where
  "SemaphoreMap_empty = \<lparr> sm_entries = Map.empty, sm_heap = Map.empty, sm_next = 0 \<rparr>"

definition arc_clone :: "nat \<Rightarrow> 's SemaphoreMap \<Rightarrow> 's SemaphoreMap" where
  "arc_clone a m = m\<lparr> sm_heap := (sm_heap m)(a := map_option (map_prod (\<lambda>s. s) Suc) (sm_heap m a)) \<rparr>"

definition arc_drop :: "nat \<Rightarrow> 's SemaphoreMap \<Rightarrow> 's SemaphoreMap" where
  "arc_drop a m = m\<lparr> sm_heap := (sm_heap m)(a :=
     (case sm_heap m a of None \<Rightarrow> None | Some (s, n) \<Rightarrow> if n \<le> 1 then None else Some (s, n - 1))) \<rparr>"

definition keyed_semaphore :: "'s SemaphoreLib \<Rightarrow> 's SemaphoreMap \<Rightarrow> string \<Rightarrow> nat \<Rightarrow> nat \<times> 's SemaphoreMap" where
  "keyed_semaphore lib m key limit =
     (case sm_entries m key of
        Some a \<Rightarrow> (a, arc_clone a m)
      | None \<Rightarrow>
          let a = sm_next m;
              m = m\<lparr> sm_entries := (sm_entries m)(key \<mapsto> a), sm_heap := (sm_heap m)(a \<mapsto> (sem_new lib limit, 1)),
                     sm_next := Suc a \<rparr>
          in (a, arc_clone a m))"

text \<open>\<open>try_acquire_owned\<close> consumes its handle: a permit keeps it, a failure drops it.\<close>

definition try_acquire_owned :: "'s SemaphoreLib \<Rightarrow> 's SemaphoreMap \<Rightarrow> nat \<Rightarrow> bool \<times> 's SemaphoreMap" where
  "try_acquire_owned lib m a =
     (case sm_heap m a of
        None \<Rightarrow> (False, m)
      | Some (s, n) \<Rightarrow>
          (case sem_try_acquire lib s of
             Some s' \<Rightarrow> (True, m\<lparr> sm_heap := (sm_heap m)(a \<mapsto> (s', n)) \<rparr>)
           | None \<Rightarrow> (False, arc_drop a m)))"

text \<open>Dropping a permit gives it back and drops its handle.\<close>

definition permit_drop :: "'s SemaphoreLib \<Rightarrow> 's SemaphoreMap \<Rightarrow> nat \<Rightarrow> 's SemaphoreMap" where
  "permit_drop lib m a =
     arc_drop a (m\<lparr> sm_heap := (sm_heap m)(a := map_option (map_prod (sem_add_permit lib) (\<lambda>n. n)) (sm_heap m a)) \<rparr>)"

definition keyed_cleanup :: "'s SemaphoreLib \<Rightarrow> 's SemaphoreMap \<Rightarrow> string \<Rightarrow> nat \<Rightarrow> 's SemaphoreMap" where
  "keyed_cleanup lib m key limit =
     (case sm_entries m key of
        None \<Rightarrow> m
      | Some a \<Rightarrow>
          let remove = (case sm_heap m a of None \<Rightarrow> False | Some (s, n) \<Rightarrow> n = 1 \<and> sem_available_permits lib s = limit)
          in if remove then arc_drop a (m\<lparr> sm_entries := (sm_entries m)(key := None) \<rparr>) else m)"

text \<open>One thread that acquires: look up, clone, try, drop the local handle.\<close>

definition keyed_acquire ::
    "'s SemaphoreLib \<Rightarrow> 's SemaphoreMap \<Rightarrow> string \<Rightarrow> nat \<Rightarrow> nat option \<times> 's SemaphoreMap" where
  "keyed_acquire lib m key limit =
     (case keyed_semaphore lib m key limit of (a, m) \<Rightarrow>
      case try_acquire_owned lib (arc_clone a m) a of (acquired, m) \<Rightarrow>
        (if acquired then Some a else None, arc_drop a m))"

definition keyed_release :: "'s SemaphoreLib \<Rightarrow> 's SemaphoreMap \<Rightarrow> nat \<Rightarrow> string \<Rightarrow> nat \<Rightarrow> 's SemaphoreMap" where
  "keyed_release lib m a key limit = keyed_cleanup lib (permit_drop lib m a) key limit"

section \<open>The invariant\<close>

text \<open>
  \<open>H\<close> counts the handles that are out for a name, permits included, \<open>P\<close> the permits. The semaphore of a
  name is counted once for its entry and once for each handle, and its available permits and the
  permits that are out make up the limit.
\<close>

definition sm_inv :: "'s SemaphoreLib \<Rightarrow> (string \<Rightarrow> nat) \<Rightarrow> (string \<Rightarrow> nat) \<Rightarrow> (string \<Rightarrow> nat) \<Rightarrow> 's SemaphoreMap \<Rightarrow> bool" where
  "sm_inv lib limits H P m \<longleftrightarrow>
     (\<forall>key. P key \<le> H key)
     \<and> (\<forall>key. case sm_entries m key of
          None \<Rightarrow> H key = 0
        | Some a \<Rightarrow> a < sm_next m \<and> (\<exists>s. sm_heap m a = Some (s, Suc (H key)) \<and> sem_available_permits lib s + P key = limits key))
     \<and> (\<forall>k k' a. sm_entries m k = Some a \<longrightarrow> sm_entries m k' = Some a \<longrightarrow> k = k')"

lemma sm_invI:
  assumes "sm_entries m = entries" and "sm_heap m = heap" and "sm_next m = nxt"
    and "\<And>key. P key \<le> H key"
    and "\<And>key. case entries key of
        None \<Rightarrow> H key = 0
      | Some a \<Rightarrow> a < nxt \<and> (\<exists>s. heap a = Some (s, Suc (H key)) \<and> sem_available_permits lib s + P key = limits key)"
    and "\<And>k k' a. entries k = Some a \<Longrightarrow> entries k' = Some a \<Longrightarrow> k = k'"
  shows "sm_inv lib limits H P m"
  unfolding sm_inv_def assms(1-3) using assms(4-6) by (intro conjI allI impI)

lemma sm_inv_empty: "sm_inv lib limits (\<lambda>_. 0) (\<lambda>_. 0) SemaphoreMap_empty"
  by (simp add: sm_inv_def SemaphoreMap_empty_def)

lemma sm_inv_le: "sm_inv lib limits H P m \<Longrightarrow> P key \<le> H key"
  by (simp add: sm_inv_def)

lemma sm_inv_case:
  "sm_inv lib limits H P m \<Longrightarrow> case sm_entries m key of
     None \<Rightarrow> H key = 0
   | Some a \<Rightarrow> a < sm_next m \<and> (\<exists>s. sm_heap m a = Some (s, Suc (H key)) \<and> sem_available_permits lib s + P key = limits key)"
  unfolding sm_inv_def by (elim conjE) (rule spec)

lemma sm_inv_none: "sm_inv lib limits H P m \<Longrightarrow> sm_entries m key = None \<Longrightarrow> H key = 0"
  using sm_inv_case [of lib limits H P m key] by simp

lemma sm_inv_entry:
  assumes "sm_inv lib limits H P m" and "sm_entries m key = Some a"
  obtains s where "sm_heap m a = Some (s, Suc (H key))" and "sem_available_permits lib s + P key = limits key" and "a < sm_next m"
  using sm_inv_case [OF assms(1), of key] assms(2) that by auto

lemma sm_inv_inj: "sm_inv lib limits H P m \<Longrightarrow> sm_entries m k = Some a \<Longrightarrow> sm_entries m k' = Some a \<Longrightarrow> k = k'"
  unfolding sm_inv_def by (elim conjE allE impE) assumption+

lemma sm_inv_bound: "sm_inv lib limits H P m \<Longrightarrow> P key \<le> limits key"
proof (cases "sm_entries m key")
  case None
  assume inv: "sm_inv lib limits H P m"
  show ?thesis using sm_inv_none [OF inv None] sm_inv_le [OF inv, of key] by simp
next
  case (Some a)
  assume inv: "sm_inv lib limits H P m"
  show ?thesis by (rule sm_inv_entry [OF inv Some]) simp
qed

text \<open>Changing the cell of one name, with the counts of that name.\<close>

lemma sm_inv_update:
  assumes inv: "sm_inv lib limits H P m" and a: "sm_entries m key = Some a"
    and new: "sem_available_permits lib s + p = limits key" "p \<le> h"
  shows "sm_inv lib limits (H(key := h)) (P(key := p)) (m\<lparr> sm_heap := (sm_heap m)(a \<mapsto> (s, Suc h)) \<rparr>)"
proof -
  have other: "a' \<noteq> a" if "sm_entries m k = Some a'" "k \<noteq> key" for k a' using sm_inv_inj [OF inv _ a] that by auto
  have "case sm_entries m k of None \<Rightarrow> (H(key := h)) k = 0
      | Some a' \<Rightarrow> a' < sm_next m \<and> (\<exists>s'. ((sm_heap m)(a \<mapsto> (s, Suc h))) a' = Some (s', Suc ((H(key := h)) k))
          \<and> sem_available_permits lib s' + (P(key := p)) k = limits k)" for k
  proof (cases "k = key")
    case True
    then show ?thesis using a new sm_inv_case [OF inv, of key] by auto
  next
    case False
    show ?thesis
    proof (cases "sm_entries m k")
      case None
      then show ?thesis using False sm_inv_none [OF inv None] by simp
    next
      case (Some a')
      show ?thesis using False other [OF Some False] Some sm_inv_case [OF inv, of k] by simp
    qed
  qed
  note cell = this
  show ?thesis
  proof (rule sm_invI [where entries = "sm_entries m" and heap = "(sm_heap m)(a \<mapsto> (s, Suc h))" and nxt = "sm_next m"])
    show "(P(key := p)) k \<le> (H(key := h)) k" for k using new(2) sm_inv_le [OF inv] by simp
    show "k = k'" if "sm_entries m k = Some a" "sm_entries m k' = Some a" for k k' a by (rule sm_inv_inj [OF inv that])
  qed (simp_all only: cell, simp_all)
qed

section \<open>The primitives keep it\<close>

lemma clone_inv:
  assumes inv: "sm_inv lib limits H P m" and a: "sm_entries m key = Some a"
  shows "sm_inv lib limits (H(key := Suc (H key))) P (arc_clone a m)"
proof -
  obtain s where s: "sm_heap m a = Some (s, Suc (H key))" "sem_available_permits lib s + P key = limits key"
    by (rule sm_inv_entry [OF inv a])
  have "P key \<le> Suc (H key)" using sm_inv_le [OF inv, of key] by simp
  from sm_inv_update [OF inv a s(2) this] show ?thesis using s(1) by (simp add: arc_clone_def)
qed

lemma drop_inv:
  assumes inv: "sm_inv lib limits H P m" and a: "sm_entries m key = Some a" and free: "P key < H key"
  shows "sm_inv lib limits (H(key := H key - 1)) P (arc_drop a m)"
proof -
  obtain s where s: "sm_heap m a = Some (s, Suc (H key))" "sem_available_permits lib s + P key = limits key"
    by (rule sm_inv_entry [OF inv a])
  have "P key \<le> H key - 1" using free by simp
  from sm_inv_update [OF inv a s(2) this] show ?thesis using s(1) free by (simp add: arc_drop_def)
qed

lemma arc_entries [simp]:
  "sm_entries (arc_clone a m) = sm_entries m" "sm_entries (arc_drop a m) = sm_entries m"
  "sm_entries (permit_drop lib m a) = sm_entries m" "sm_entries (snd (try_acquire_owned lib m a)) = sm_entries m"
  by (simp_all add: arc_clone_def arc_drop_def permit_drop_def try_acquire_owned_def split: option.split prod.split)

lemma insert_inv:
  assumes inv: "sm_inv lib limits H P m" and none: "sm_entries m key = None" and laws: "semaphore_laws lib"
  shows "sm_inv lib limits H P (m\<lparr> sm_entries := (sm_entries m)(key \<mapsto> sm_next m),
    sm_heap := (sm_heap m)(sm_next m \<mapsto> (sem_new lib (limits key), 1)), sm_next := Suc (sm_next m) \<rparr>)"
proof -
  have zero: "H key = 0" "P key = 0" using sm_inv_none [OF inv none] sm_inv_le [OF inv, of key] by simp_all
  have fresh: "a < sm_next m" if "sm_entries m k = Some a" for k a by (rule sm_inv_entry [OF inv that])
  have "case ((sm_entries m)(key \<mapsto> sm_next m)) k of None \<Rightarrow> H k = 0
      | Some a \<Rightarrow> a < Suc (sm_next m) \<and> (\<exists>s. ((sm_heap m)(sm_next m \<mapsto> (sem_new lib (limits key), 1))) a = Some (s, Suc (H k))
          \<and> sem_available_permits lib s + P k = limits k)" for k
  proof (cases "k = key")
    case True
    then show ?thesis using zero laws by (simp add: semaphore_laws_def)
  next
    case False
    show ?thesis
    proof (cases "sm_entries m k")
      case None
      then show ?thesis using False sm_inv_none [OF inv None] by simp
    next
      case (Some a)
      obtain s where "sm_heap m a = Some (s, Suc (H k))" "sem_available_permits lib s + P k = limits k"
        by (rule sm_inv_entry [OF inv Some])
      then show ?thesis using False Some fresh [OF Some] by auto
    qed
  qed
  note cell = this
  have inj: "k = k'" if "((sm_entries m)(key \<mapsto> sm_next m)) k = Some a" "((sm_entries m)(key \<mapsto> sm_next m)) k' = Some a" for k k' a
  proof -
    consider "k = key" "k' = key" | "k = key" "k' \<noteq> key" | "k \<noteq> key" "k' = key" | "k \<noteq> key" "k' \<noteq> key" by blast
    then show ?thesis
    proof cases
      case 2
      then show ?thesis using that fresh [of k' a] by simp
    next
      case 3
      then show ?thesis using that fresh [of k a] by simp
    next
      case 4
      show ?thesis by (rule sm_inv_inj [OF inv]) (use that 4 in simp_all)
    qed simp
  qed
  show ?thesis
  proof (rule sm_invI [where entries = "(sm_entries m)(key \<mapsto> sm_next m)"
        and heap = "(sm_heap m)(sm_next m \<mapsto> (sem_new lib (limits key), 1))" and nxt = "Suc (sm_next m)"])
    show "k = k'" if "((sm_entries m)(key \<mapsto> sm_next m)) k = Some a" "((sm_entries m)(key \<mapsto> sm_next m)) k' = Some a" for k k' a
      by (rule inj [OF that])
  qed (simp_all only: cell sm_inv_le [OF inv], simp_all)
qed

lemma keyed_semaphore_inv:
  assumes inv: "sm_inv lib limits H P m" and laws: "semaphore_laws lib" and eq: "keyed_semaphore lib m key (limits key) = (a, m')"
  shows "sm_inv lib limits (H(key := Suc (H key))) P m'" and "sm_entries m' key = Some a"
    and "\<And>k a'. sm_entries m k = Some a' \<Longrightarrow> sm_entries m' k = Some a'"
proof -
  have "sm_inv lib limits (H(key := Suc (H key))) P m' \<and> sm_entries m' key = Some a
      \<and> (\<forall>k a'. sm_entries m k = Some a' \<longrightarrow> sm_entries m' k = Some a')"
  proof (cases "sm_entries m key")
    case None
    let ?m = "m\<lparr> sm_entries := (sm_entries m)(key \<mapsto> sm_next m), sm_heap := (sm_heap m)(sm_next m \<mapsto> (sem_new lib (limits key), 1)),
      sm_next := Suc (sm_next m) \<rparr>"
    have m': "a = sm_next m" "m' = arc_clone a ?m" using eq None by (auto simp: keyed_semaphore_def Let_def)
    have "sm_inv lib limits (H(key := Suc (H key))) P m'"
      unfolding m'(2) by (rule clone_inv [OF insert_inv [OF inv None laws]]) (simp add: m'(1))
    then show ?thesis using None by (auto simp: m')
  next
    case (Some b)
    have m': "a = b" "m' = arc_clone a m" using eq Some by (auto simp: keyed_semaphore_def)
    have "sm_inv lib limits (H(key := Suc (H key))) P m'" unfolding m'(2) by (rule clone_inv [OF inv]) (simp add: m'(1) Some)
    then show ?thesis using Some by (simp add: m')
  qed
  then show "sm_inv lib limits (H(key := Suc (H key))) P m'" "sm_entries m' key = Some a"
    "\<And>k a'. sm_entries m k = Some a' \<Longrightarrow> sm_entries m' k = Some a'" by blast+
qed

lemma try_acquire_inv:
  assumes inv: "sm_inv lib limits H P m" and laws: "semaphore_laws lib" and a: "sm_entries m key = Some a"
    and free: "P key < H key" and eq: "try_acquire_owned lib m a = (ok, m')"
  shows "ok \<longleftrightarrow> P key < limits key"
    and "ok \<Longrightarrow> sm_inv lib limits H (P(key := Suc (P key))) m'"
    and "\<not> ok \<Longrightarrow> sm_inv lib limits (H(key := H key - 1)) P m'"
proof -
  obtain s where s: "sm_heap m a = Some (s, Suc (H key))" "sem_available_permits lib s + P key = limits key"
    by (rule sm_inv_entry [OF inv a])
  have "(ok \<longleftrightarrow> P key < limits key) \<and> (ok \<longrightarrow> sm_inv lib limits H (P(key := Suc (P key))) m')
      \<and> (\<not> ok \<longrightarrow> sm_inv lib limits (H(key := H key - 1)) P m')"
  proof (cases "sem_try_acquire lib s")
    case None
    then have "sem_available_permits lib s = 0" using laws by (simp add: semaphore_laws_def)
    moreover have "\<not> ok" "m' = arc_drop a m" using eq None s(1) by (simp_all add: try_acquire_owned_def)
    ultimately show ?thesis using s(2) drop_inv [OF inv a free] by simp
  next
    case (Some s')
    have av: "sem_available_permits lib s' + 1 = sem_available_permits lib s" using laws Some by (simp add: semaphore_laws_def)
    have m': "ok" "m' = m\<lparr> sm_heap := (sm_heap m)(a \<mapsto> (s', Suc (H key))) \<rparr>" using eq Some s(1) by (simp_all add: try_acquire_owned_def)
    have "sem_available_permits lib s' + Suc (P key) = limits key" "Suc (P key) \<le> H key" using s(2) av free by simp_all
    from sm_inv_update [OF inv a this] show ?thesis using m' s(2) av by simp
  qed
  then show "ok \<longleftrightarrow> P key < limits key" "ok \<Longrightarrow> sm_inv lib limits H (P(key := Suc (P key))) m'"
    "\<not> ok \<Longrightarrow> sm_inv lib limits (H(key := H key - 1)) P m'" by blast+
qed

lemma permit_drop_inv:
  assumes inv: "sm_inv lib limits H P m" and laws: "semaphore_laws lib" and a: "sm_entries m key = Some a" and out: "0 < P key"
  shows "sm_inv lib limits (H(key := H key - 1)) (P(key := P key - 1)) (permit_drop lib m a)"
proof -
  obtain s where s: "sm_heap m a = Some (s, Suc (H key))" "sem_available_permits lib s + P key = limits key"
    by (rule sm_inv_entry [OF inv a])
  have H: "0 < H key" "P key - 1 \<le> H key - 1" using out sm_inv_le [OF inv, of key] by linarith+
  have "sem_available_permits lib (sem_add_permit lib s) + (P key - 1) = limits key" using laws s(2) out by (simp add: semaphore_laws_def)
  from sm_inv_update [OF inv a this H(2)] show ?thesis using s(1) H(1) by (simp add: permit_drop_def arc_drop_def)
qed

lemma cleanup_inv:
  assumes inv: "sm_inv lib limits H P m"
  shows "sm_inv lib limits H P (keyed_cleanup lib m key limit)"
    and "0 < H k \<Longrightarrow> sm_entries (keyed_cleanup lib m key limit) k = sm_entries m k"
proof -
  have "sm_inv lib limits H P (keyed_cleanup lib m key limit)
      \<and> (0 < H k \<longrightarrow> sm_entries (keyed_cleanup lib m key limit) k = sm_entries m k)" for k
  proof (cases "keyed_cleanup lib m key limit = m")
    case True
    then show ?thesis using inv by simp
  next
    case False
    then obtain a s where a: "sm_entries m key = Some a" "sm_heap m a = Some (s, 1)"
      and m': "keyed_cleanup lib m key limit = arc_drop a (m\<lparr> sm_entries := (sm_entries m)(key := None) \<rparr>)"
      by (auto simp: keyed_cleanup_def Let_def split: option.splits prod.splits if_splits)
    have zero: "H key = 0" by (rule sm_inv_entry [OF inv a(1)]) (use a(2) in simp)
    have other: "a' \<noteq> a" if "sm_entries m k = Some a'" "k \<noteq> key" for k a' using sm_inv_inj [OF inv _ a(1)] that by auto
    have cell: "case ((sm_entries m)(key := None)) k of None \<Rightarrow> H k = 0
        | Some a' \<Rightarrow> a' < sm_next m \<and> (\<exists>s'. ((sm_heap m)(a := None)) a' = Some (s', Suc (H k)) \<and> sem_available_permits lib s' + P k = limits k)" for k
    proof (cases "k = key")
      case True
      then show ?thesis using zero by simp
    next
      case False
      show ?thesis
      proof (cases "sm_entries m k")
        case None
        then show ?thesis using False sm_inv_none [OF inv None] by simp
      next
        case (Some a')
        show ?thesis using False other [OF Some False] Some sm_inv_case [OF inv, of k] by simp
      qed
    qed
    have inj: "k = k'" if "((sm_entries m)(key := None)) k = Some a" "((sm_entries m)(key := None)) k' = Some a" for k k' a
      by (rule sm_inv_inj [OF inv]) (use that in \<open>simp_all split: if_splits\<close>)
    have "sm_inv lib limits H P (keyed_cleanup lib m key limit)"
    proof (rule sm_invI [where entries = "(sm_entries m)(key := None)" and heap = "(sm_heap m)(a := None)" and nxt = "sm_next m"])
      show "k = k'" if "((sm_entries m)(key := None)) k = Some a" "((sm_entries m)(key := None)) k' = Some a" for k k' a
        by (rule inj [OF that])
    qed (simp_all only: cell sm_inv_le [OF inv], simp_all add: m' arc_drop_def a(2))
    then show ?thesis using zero m' by auto
  qed
  then show "sm_inv lib limits H P (keyed_cleanup lib m key limit)"
    "0 < H k \<Longrightarrow> sm_entries (keyed_cleanup lib m key limit) k = sm_entries m k" by blast+
qed

section \<open>One thread at a time\<close>

lemma keyed_acquire_inv:
  assumes inv: "sm_inv lib limits H P m" and laws: "semaphore_laws lib" and eq: "keyed_acquire lib m key (limits key) = (r, m')"
  shows "r = None \<longleftrightarrow> limits key \<le> P key"
    and "r = Some a \<Longrightarrow> sm_inv lib limits (H(key := Suc (H key))) (P(key := Suc (P key))) m' \<and> sm_entries m' key = Some a"
    and "r = None \<Longrightarrow> sm_inv lib limits H P m'"
    and "sm_entries m k = Some b \<Longrightarrow> sm_entries m' k = Some b"
proof -
  obtain c m1 where ks: "keyed_semaphore lib m key (limits key) = (c, m1)" by (cases "keyed_semaphore lib m key (limits key)")
  note s1 = keyed_semaphore_inv [OF inv laws ks]
  have s2: "sm_inv lib limits (H(key := Suc (Suc (H key)))) P (arc_clone c m1)"
    using clone_inv [OF s1(1,2)] by (simp only: fun_upd_upd fun_upd_same)
  obtain ok m2 where ta: "try_acquire_owned lib (arc_clone c m1) c = (ok, m2)" by (cases "try_acquire_owned lib (arc_clone c m1) c")
  have ent: "sm_entries (arc_clone c m1) key = Some c" using s1(2) by simp
  have m2: "sm_entries m2 = sm_entries m1" using arc_entries(4) [of lib "arc_clone c m1" c] ta by simp
  have res: "r = (if ok then Some c else None)" "m' = arc_drop c m2" using eq ks ta by (auto simp: keyed_acquire_def)
  have free: "P key < (H(key := Suc (Suc (H key)))) key" using sm_inv_le [OF inv, of key] by simp
  note s3 = try_acquire_inv [OF s2 laws ent _ ta, OF free]
  show "r = None \<longleftrightarrow> limits key \<le> P key" using res(1) s3(1) by auto
  show "sm_entries m k = Some b \<Longrightarrow> sm_entries m' k = Some b" using s1(3) m2 res(2) by simp
  have ent2: "sm_entries m2 key = Some c" using m2 s1(2) by simp
  show "sm_inv lib limits (H(key := Suc (H key))) (P(key := Suc (P key))) m' \<and> sm_entries m' key = Some a" if "r = Some a"
  proof -
    have ok: "ok" "a = c" using that res(1) by (simp_all split: if_splits)
    have inv2: "sm_inv lib limits (H(key := Suc (Suc (H key)))) (P(key := Suc (P key))) m2" using s3(2) [OF ok(1)] by simp
    have lt: "(P(key := Suc (P key))) key < (H(key := Suc (Suc (H key)))) key" using sm_inv_le [OF inv, of key] by simp
    from drop_inv [OF inv2 ent2, OF lt] show ?thesis using ent2 ok(2) res(2) by simp
  qed
  show "sm_inv lib limits H P m'" if "r = None"
  proof -
    have nok: "\<not> ok" using that res(1) by (simp split: if_splits)
    have lt: "P key < (H(key := Suc (H key))) key" using sm_inv_le [OF inv, of key] by simp
    have "sm_inv lib limits (H(key := Suc (H key))) P m2" using s3(3) [OF nok] by simp
    from drop_inv [OF this ent2, OF lt] show ?thesis using res(2) by simp
  qed
qed

lemma keyed_release_inv:
  assumes inv: "sm_inv lib limits H P m" and laws: "semaphore_laws lib" and a: "sm_entries m key = Some a" and out: "0 < P key"
  shows "sm_inv lib limits (H(key := H key - 1)) (P(key := P key - 1)) (keyed_release lib m a key limit)"
    and "0 < (H(key := H key - 1)) k \<Longrightarrow> sm_entries (keyed_release lib m a key limit) k = sm_entries m k"
  using cleanup_inv [OF permit_drop_inv [OF inv laws a out]] by (simp_all add: keyed_release_def)

section \<open>Many threads\<close>

text \<open>
  Where a thread is: it found no entry under the read lock; it has a handle; it has a permit and
  still its local handle; it was refused and still has its local handle; it holds a permit; it has
  given the permit back and goes on to clean up.
\<close>

datatype KeyedPc =
    KIdle
  | KMissed string nat
  | KHas string nat nat
  | KGot string nat nat
  | KRefused string nat nat
  | KHolds string nat nat
  | KReleased string nat

record 's KeyedState =
  kt_map :: "'s SemaphoreMap"
  kt_threads :: "nat \<Rightarrow> KeyedPc"

inductive keyed_step :: "'s SemaphoreLib \<Rightarrow> (string \<Rightarrow> nat) \<Rightarrow> 's KeyedState \<Rightarrow> 's KeyedState \<Rightarrow> bool"
  for lib :: "'s SemaphoreLib" and limits :: "string \<Rightarrow> nat" where
  hit: "kt_threads s t = KIdle \<Longrightarrow> sm_entries (kt_map s) key = Some a \<Longrightarrow>
    keyed_step lib limits s \<lparr> kt_map = arc_clone a (kt_map s), kt_threads = (kt_threads s)(t := KHas key (limits key) a) \<rparr>"
| miss: "kt_threads s t = KIdle \<Longrightarrow> sm_entries (kt_map s) key = None \<Longrightarrow>
    keyed_step lib limits s (s\<lparr> kt_threads := (kt_threads s)(t := KMissed key (limits key)) \<rparr>)"
| insert: "kt_threads s t = KMissed key l \<Longrightarrow> keyed_semaphore lib (kt_map s) key l = (a, m) \<Longrightarrow>
    keyed_step lib limits s \<lparr> kt_map = m, kt_threads = (kt_threads s)(t := KHas key l a) \<rparr>"
| acquire: "kt_threads s t = KHas key l a \<Longrightarrow> try_acquire_owned lib (arc_clone a (kt_map s)) a = (True, m) \<Longrightarrow>
    keyed_step lib limits s \<lparr> kt_map = m, kt_threads = (kt_threads s)(t := KGot key l a) \<rparr>"
| refuse: "kt_threads s t = KHas key l a \<Longrightarrow> try_acquire_owned lib (arc_clone a (kt_map s)) a = (False, m) \<Longrightarrow>
    keyed_step lib limits s \<lparr> kt_map = m, kt_threads = (kt_threads s)(t := KRefused key l a) \<rparr>"
| return: "kt_threads s t = KGot key l a \<Longrightarrow>
    keyed_step lib limits s \<lparr> kt_map = arc_drop a (kt_map s), kt_threads = (kt_threads s)(t := KHolds key l a) \<rparr>"
| reject: "kt_threads s t = KRefused key l a \<Longrightarrow>
    keyed_step lib limits s \<lparr> kt_map = arc_drop a (kt_map s), kt_threads = (kt_threads s)(t := KIdle) \<rparr>"
| release: "kt_threads s t = KHolds key l a \<Longrightarrow>
    keyed_step lib limits s \<lparr> kt_map = permit_drop lib (kt_map s) a, kt_threads = (kt_threads s)(t := KReleased key l) \<rparr>"
| cleanup: "kt_threads s t = KReleased key l \<Longrightarrow>
    keyed_step lib limits s \<lparr> kt_map = keyed_cleanup lib (kt_map s) key l, kt_threads = (kt_threads s)(t := KIdle) \<rparr>"

definition keyed_reachable :: "'s SemaphoreLib \<Rightarrow> (string \<Rightarrow> nat) \<Rightarrow> 's KeyedState \<Rightarrow> bool" where
  "keyed_reachable lib limits s \<longleftrightarrow>
     (keyed_step lib limits)\<^sup>*\<^sup>* \<lparr> kt_map = SemaphoreMap_empty, kt_threads = (\<lambda>_. KIdle) \<rparr> s"

text \<open>Handles and permits of a thread.\<close>

fun pc_handles :: "string \<Rightarrow> KeyedPc \<Rightarrow> nat" where
  "pc_handles k (KHas key l a) = of_bool (k = key)"
| "pc_handles k (KGot key l a) = 2 * of_bool (k = key)"
| "pc_handles k (KRefused key l a) = of_bool (k = key)"
| "pc_handles k (KHolds key l a) = of_bool (k = key)"
| "pc_handles k _ = 0"

fun pc_permits :: "string \<Rightarrow> KeyedPc \<Rightarrow> nat" where
  "pc_permits k (KGot key l a) = of_bool (k = key)"
| "pc_permits k (KHolds key l a) = of_bool (k = key)"
| "pc_permits k _ = 0"

fun pc_entry :: "KeyedPc \<Rightarrow> (string \<times> nat) option" where
  "pc_entry (KHas key l a) = Some (key, a)"
| "pc_entry (KGot key l a) = Some (key, a)"
| "pc_entry (KRefused key l a) = Some (key, a)"
| "pc_entry (KHolds key l a) = Some (key, a)"
| "pc_entry _ = None"

fun pc_limit :: "KeyedPc \<Rightarrow> (string \<times> nat) option" where
  "pc_limit KIdle = None"
| "pc_limit (KMissed key l) = Some (key, l)"
| "pc_limit (KHas key l a) = Some (key, l)"
| "pc_limit (KGot key l a) = Some (key, l)"
| "pc_limit (KRefused key l a) = Some (key, l)"
| "pc_limit (KHolds key l a) = Some (key, l)"
| "pc_limit (KReleased key l) = Some (key, l)"

definition total :: "(KeyedPc \<Rightarrow> nat) \<Rightarrow> (nat \<Rightarrow> KeyedPc) \<Rightarrow> nat" where
  "total f ths = (\<Sum>t | ths t \<noteq> KIdle. f (ths t))"

lemma total_update:
  assumes "finite {t. ths t \<noteq> KIdle}" and "f KIdle = 0"
  shows "total f (ths(t := pc)) + f (ths t) = total f ths + f pc"
proof -
  let ?A = "insert t {t. ths t \<noteq> KIdle}"
  have fin: "finite ?A" using assms(1) by simp
  have "total f ths = (\<Sum>i \<in> ?A. f (ths i))"
    unfolding total_def by (rule sum.mono_neutral_left [OF fin]) (use assms(2) in auto)
  moreover have "total f (ths(t := pc)) = (\<Sum>i \<in> ?A. f ((ths(t := pc)) i))"
    unfolding total_def by (rule sum.mono_neutral_left [OF fin]) (use assms(2) in auto)
  moreover have "(\<Sum>i \<in> ?A - {t}. f ((ths(t := pc)) i)) = (\<Sum>i \<in> ?A - {t}. f (ths i))"
    by (rule sum.cong) auto
  ultimately show ?thesis using fin by (simp add: sum.remove [of ?A t])
qed

lemma total_zero: "finite {t. ths t \<noteq> KIdle} \<Longrightarrow> total f ths = 0 \<Longrightarrow> ths t \<noteq> KIdle \<Longrightarrow> f (ths t) = 0"
  by (simp add: total_def)

definition keyed_inv :: "'s SemaphoreLib \<Rightarrow> (string \<Rightarrow> nat) \<Rightarrow> 's KeyedState \<Rightarrow> bool" where
  "keyed_inv lib limits s \<longleftrightarrow>
     finite {t. kt_threads s t \<noteq> KIdle}
     \<and> sm_inv lib limits (\<lambda>k. total (pc_handles k) (kt_threads s)) (\<lambda>k. total (pc_permits k) (kt_threads s)) (kt_map s)
     \<and> (\<forall>t key a. pc_entry (kt_threads s t) = Some (key, a) \<longrightarrow> sm_entries (kt_map s) key = Some a)
     \<and> (\<forall>t key l. pc_limit (kt_threads s t) = Some (key, l) \<longrightarrow> l = limits key)"

lemma total_ge: "finite {t. ths t \<noteq> KIdle} \<Longrightarrow> f KIdle = 0 \<Longrightarrow> f (ths t) \<le> total f ths"
  using total_update [of ths f t "ths t"] total_update [of ths f t KIdle] by simp

lemma total_upd_key:
  assumes "finite {t. ths t \<noteq> KIdle}" and "\<And>k. f k KIdle = 0" and "\<And>k. k \<noteq> key \<Longrightarrow> f k pc = 0" and "\<And>k. k \<noteq> key \<Longrightarrow> f k (ths t) = 0"
  shows "(\<lambda>k. total (f k) (ths(t := pc))) = (\<lambda>k. total (f k) ths)(key := total (f key) ths + f key pc - f key (ths t))"
proof
  fix k
  have "total (f k) (ths(t := pc)) + f k (ths t) = total (f k) ths + f k pc" by (rule total_update) (simp_all add: assms)
  then show "total (f k) (ths(t := pc)) = ((\<lambda>k. total (f k) ths)(key := total (f key) ths + f key pc - f key (ths t))) k"
    using assms(3,4) [of k] by (cases "k = key") auto
qed

lemma total_less:
  assumes fin: "finite {t. ths t \<noteq> KIdle}" and le: "\<And>pc. f pc \<le> g pc" and "f (ths t) < g (ths t)" and "g KIdle = 0"
  shows "total f ths < total g ths"
  unfolding total_def
proof (rule sum_strict_mono_ex1 [OF fin])
  show "\<exists>i \<in> {t. ths t \<noteq> KIdle}. f (ths i) < g (ths i)" using assms(3,4) by (intro bexI [of _ t]) auto
qed (simp add: le)

lemma pc_permits_handles: "pc_permits k pc \<le> pc_handles k pc"
  by (cases pc) auto

lemma pc_entry_handles: "pc_entry pc = Some (key, a) \<Longrightarrow> 0 < pc_handles key pc"
  by (cases pc) auto

lemma keyed_inv_step:
  assumes inv: "keyed_inv lib limits s"
    and key: "\<And>k. k \<noteq> key \<Longrightarrow> pc_handles k pc = 0" "\<And>k. k \<noteq> key \<Longrightarrow> pc_handles k (kt_threads s t) = 0"
      "\<And>k. k \<noteq> key \<Longrightarrow> pc_permits k pc = 0" "\<And>k. k \<noteq> key \<Longrightarrow> pc_permits k (kt_threads s t) = 0"
    and HP: "H = (\<lambda>k. total (pc_handles k) (kt_threads s))" "P = (\<lambda>k. total (pc_permits k) (kt_threads s))"
    and sm: "sm_inv lib limits (H(key := H key + pc_handles key pc - pc_handles key (kt_threads s t)))
        (P(key := P key + pc_permits key pc - pc_permits key (kt_threads s t))) m"
    and kept: "\<And>t' k a. t' \<noteq> t \<Longrightarrow> pc_entry (kt_threads s t') = Some (k, a) \<Longrightarrow> sm_entries (kt_map s) k = Some a \<Longrightarrow> sm_entries m k = Some a"
    and new: "\<And>k a. pc_entry pc = Some (k, a) \<Longrightarrow> sm_entries m k = Some a" "\<And>k l. pc_limit pc = Some (k, l) \<Longrightarrow> l = limits k"
  shows "keyed_inv lib limits \<lparr> kt_map = m, kt_threads = (kt_threads s)(t := pc) \<rparr>"
proof -
  have fin: "finite {t. kt_threads s t \<noteq> KIdle}" using inv by (simp add: keyed_inv_def)
  have "{i. ((kt_threads s)(t := pc)) i \<noteq> KIdle} \<subseteq> insert t {t. kt_threads s t \<noteq> KIdle}" by auto
  then have "finite {i. ((kt_threads s)(t := pc)) i \<noteq> KIdle}" by (rule finite_subset) (simp add: fin)
  moreover have "sm_inv lib limits (\<lambda>k. total (pc_handles k) ((kt_threads s)(t := pc))) (\<lambda>k. total (pc_permits k) ((kt_threads s)(t := pc))) m"
    using sm [unfolded HP] total_upd_key [OF fin, of pc_handles key pc t] total_upd_key [OF fin, of pc_permits key pc t] key by simp
  moreover have "\<forall>i k a. pc_entry (((kt_threads s)(t := pc)) i) = Some (k, a) \<longrightarrow> sm_entries m k = Some a"
    using kept new(1) inv by (auto simp: keyed_inv_def)
  moreover have "\<forall>i k l. pc_limit (((kt_threads s)(t := pc)) i) = Some (k, l) \<longrightarrow> l = limits k"
    using new(2) inv by (auto simp: keyed_inv_def)
  ultimately show ?thesis by (simp add: keyed_inv_def)
qed

lemma keyed_inv_fields:
  assumes "keyed_inv lib limits s"
  shows "sm_inv lib limits (\<lambda>k. total (pc_handles k) (kt_threads s)) (\<lambda>k. total (pc_permits k) (kt_threads s)) (kt_map s)"
    and "pc_entry (kt_threads s t) = Some (key, a) \<Longrightarrow> sm_entries (kt_map s) key = Some a"
    and "pc_limit (kt_threads s t) = Some (key, l) \<Longrightarrow> l = limits key"
    and "pc_handles k (kt_threads s t) \<le> total (pc_handles k) (kt_threads s)"
    and "pc_permits k (kt_threads s t) \<le> total (pc_permits k) (kt_threads s)"
proof -
  have fin: "finite {t. kt_threads s t \<noteq> KIdle}" using assms by (simp add: keyed_inv_def)
  show "pc_handles k (kt_threads s t) \<le> total (pc_handles k) (kt_threads s)"
    "pc_permits k (kt_threads s t) \<le> total (pc_permits k) (kt_threads s)" by (rule total_ge [OF fin], simp)+
qed (use assms in \<open>auto simp: keyed_inv_def\<close>)

lemma keyed_inv_preserved:
  assumes laws: "semaphore_laws lib" and inv: "keyed_inv lib limits s" and step: "keyed_step lib limits s s'"
  shows "keyed_inv lib limits s'"
proof -
  define H where H: "H = (\<lambda>k. total (pc_handles k) (kt_threads s))"
  define P where P: "P = (\<lambda>k. total (pc_permits k) (kt_threads s))"
  note sm = keyed_inv_fields(1) [OF inv, folded H P]
  note entry = keyed_inv_fields(2) [OF inv] and limit = keyed_inv_fields(3) [OF inv]
  have ge: "pc_handles k (kt_threads s t) \<le> H k" "pc_permits k (kt_threads s t) \<le> P k" "P k \<le> H k" for k t
    using keyed_inv_fields(4,5) [OF inv] sm_inv_le [OF sm] by (simp_all add: H P)
  have slack: "P k < H k" if "pc_permits k (kt_threads s t) < pc_handles k (kt_threads s t)" for k t
    unfolding H P by (rule total_less [where t = t]) (use inv that in \<open>simp_all add: keyed_inv_def pc_permits_handles\<close>)
  note rule = keyed_inv_step [OF inv _ _ _ _ H P]
  from step show ?thesis
  proof cases
    case (hit t key a)
    show ?thesis unfolding hit(1)
      by (rule rule [where key = key]) (use hit clone_inv [OF sm hit(3)] in auto)
  next
    case (miss t key)
    have "s' = \<lparr> kt_map = kt_map s, kt_threads = (kt_threads s)(t := KMissed key (limits key)) \<rparr>" using miss(1) by simp
    then show ?thesis by (simp only:, intro rule [where key = key]) (use miss sm in auto)
  next
    case (insert t key l a m)
    have l: "l = limits key" using limit [of t key l] insert(2) by simp
    note k = keyed_semaphore_inv [OF sm laws insert(3) [unfolded l]]
    show ?thesis unfolding insert(1) by (rule rule [where key = key]) (use insert(2) k l in auto)
  next
    case (acquire t key l a m)
    have a: "sm_entries (kt_map s) key = Some a" using entry [of t key a] acquire(2) by simp
    have m: "sm_entries m = sm_entries (kt_map s)" using arc_entries(4) [of lib "arc_clone a (kt_map s)" a] acquire(3) by simp
    have "sm_inv lib limits (H(key := Suc (H key))) (P(key := Suc (P key))) m"
      using try_acquire_inv(2) [OF clone_inv [OF sm a] laws _ _ acquire(3), of key] a ge(3) [of key] by simp
    then show ?thesis unfolding acquire(1)
      by (intro rule [where key = key]) (use acquire(2) m a limit [of t key l] in auto)
  next
    case (refuse t key l a m)
    have a: "sm_entries (kt_map s) key = Some a" using entry [of t key a] refuse(2) by simp
    have m: "sm_entries m = sm_entries (kt_map s)" using arc_entries(4) [of lib "arc_clone a (kt_map s)" a] refuse(3) by simp
    have "sm_inv lib limits H P m"
      using try_acquire_inv(3) [OF clone_inv [OF sm a] laws _ _ refuse(3), of key] a ge(3) [of key] by simp
    then show ?thesis unfolding refuse(1)
      by (intro rule [where key = key]) (use refuse(2) m a limit [of t key l] in auto)
  next
    case (return t key l a)
    have a: "sm_entries (kt_map s) key = Some a" using entry [of t key a] return(2) by simp
    have "P key < H key" by (rule slack [of _ t]) (simp add: return(2))
    from drop_inv [OF sm a this] show ?thesis unfolding return(1)
      by (intro rule [where key = key]) (use return(2) a limit [of t key l] in auto)
  next
    case (reject t key l a)
    have a: "sm_entries (kt_map s) key = Some a" using entry [of t key a] reject(2) by simp
    have "P key < H key" by (rule slack [of _ t]) (simp add: reject(2))
    from drop_inv [OF sm a this] show ?thesis unfolding reject(1)
      by (intro rule [where key = key]) (use reject(2) in auto)
  next
    case (release t key l a)
    have a: "sm_entries (kt_map s) key = Some a" using entry [of t key a] release(2) by simp
    have "0 < P key" using ge(2) [of key t] release(2) by simp
    from permit_drop_inv [OF sm laws a this] show ?thesis unfolding release(1)
      by (intro rule [where key = key]) (use release(2) limit [of t key l] in auto)
  next
    case (cleanup t key l)
    have kept: "sm_entries (keyed_cleanup lib (kt_map s) key l) k = Some a"
      if "pc_entry (kt_threads s i) = Some (k, a)" "sm_entries (kt_map s) k = Some a" for i k a
    proof -
      have "0 < H k" using pc_entry_handles [OF that(1)] ge(1) [of k i] by simp
      from cleanup_inv(2) [OF sm this] that(2) show ?thesis by simp
    qed
    show ?thesis unfolding cleanup(1)
      by (rule rule [where key = key]) (use cleanup(2) cleanup_inv(1) [OF sm] kept in auto)
  qed
qed

lemma keyed_reachable_inv:
  assumes "semaphore_laws lib" and "keyed_reachable lib limits s"
  shows "keyed_inv lib limits s"
  using assms(2) unfolding keyed_reachable_def
proof (induction rule: rtranclp_induct)
  case base
  show ?case by (simp add: keyed_inv_def total_def sm_inv_empty)
next
  case (step s s')
  show ?case by (rule keyed_inv_preserved [OF assms(1) step.IH step.hyps(2)])
qed

text \<open>
  C10. Under every interleaving a name never has more permits out than its limit: not while threads
  look up, create and clean up its semaphore at the same time, and not across its removal and
  recreation. The semaphores are those of any library with the documented laws.
\<close>

theorem permits_within_limit:
  assumes "semaphore_laws lib" and "keyed_reachable lib limits s"
  shows "card {t. \<exists>l a. kt_threads s t = KGot key l a \<or> kt_threads s t = KHolds key l a} \<le> limits key"
proof -
  have inv: "keyed_inv lib limits s" by (rule keyed_reachable_inv [OF assms])
  then have fin: "finite {t. kt_threads s t \<noteq> KIdle}" by (simp add: keyed_inv_def)
  let ?T = "{t. \<exists>l a. kt_threads s t = KGot key l a \<or> kt_threads s t = KHolds key l a}"
  have eq: "pc_permits key pc = of_bool (\<exists>l a. pc = KGot key l a \<or> pc = KHolds key l a)" for pc by (cases pc) auto
  have "{t \<in> {t. kt_threads s t \<noteq> KIdle}. \<exists>l a. kt_threads s t = KGot key l a \<or> kt_threads s t = KHolds key l a} = ?T" by auto
  then have "total (pc_permits key) (kt_threads s) = card ?T"
    using fin by (simp add: total_def eq sum.If_cases of_bool_def Int_def)
  then show ?thesis using sm_inv_bound [OF keyed_inv_fields(1) [OF inv], of key] by simp
qed

theorem permits_within_limit_witness:
  "\<exists>s :: nat KeyedState. keyed_reachable counting_semaphore (\<lambda>_. 1) s \<and> kt_threads s 0 = KGot ''b'' 1 0
    \<and> card {t. \<exists>l a. kt_threads s t = KGot ''b'' l a \<or> kt_threads s t = KHolds ''b'' l a} \<le> 1"
proof -
  let ?s0 = "\<lparr> kt_map = SemaphoreMap_empty, kt_threads = (\<lambda>_. KIdle) \<rparr> :: nat KeyedState"
  let ?s1 = "?s0\<lparr> kt_threads := (kt_threads ?s0)(0 := KMissed ''b'' 1) \<rparr>"
  obtain a m where am: "keyed_semaphore counting_semaphore (kt_map ?s1) ''b'' 1 = (a, m)" by (metis surj_pair)
  have a: "a = 0" "sm_heap m 0 = Some (1, 2)" using am by (auto simp: keyed_semaphore_def SemaphoreMap_empty_def Let_def arc_clone_def counting_semaphore_def)
  let ?s2 = "\<lparr> kt_map = m, kt_threads = (kt_threads ?s1)(0 := KHas ''b'' 1 a) \<rparr>"
  obtain m' where m': "try_acquire_owned counting_semaphore (arc_clone a (kt_map ?s2)) a = (True, m')"
    using a by (simp add: try_acquire_owned_def arc_clone_def counting_semaphore_def)
  let ?s3 = "\<lparr> kt_map = m', kt_threads = (kt_threads ?s2)(0 := KGot ''b'' 1 a) \<rparr>"
  have "keyed_step counting_semaphore (\<lambda>_. 1) ?s0 ?s1"
    by (rule keyed_step.miss) (simp_all add: SemaphoreMap_empty_def)
  moreover have "keyed_step counting_semaphore (\<lambda>_. 1) ?s1 ?s2" by (rule keyed_step.insert [OF _ am]) simp
  moreover have "keyed_step counting_semaphore (\<lambda>_. 1) ?s2 ?s3" by (rule keyed_step.acquire [OF _ m']) simp
  ultimately have r: "keyed_reachable counting_semaphore (\<lambda>_. 1) ?s3"
    unfolding keyed_reachable_def by (meson rtranclp.rtrancl_refl rtranclp.rtrancl_into_rtrancl)
  show ?thesis using permits_within_limit [OF counting_semaphore_laws r, of "''b''"] r a(1)
    by (intro exI [of _ ?s3]) simp
qed

end
