(* ===== verification/Circuit_Breaker.thy ===== *)
theory Circuit_Breaker
  imports Keyed_Semaphore
begin

text \<open>
  The HTTP circuit breaker, \<open>crates/ntgw-observability/src/circuit_breaker.rs\<close>: a limit of requests in
  flight per backend, kept by the keyed semaphores, and its counters. An operation is one run of its
  thread without interruption; \<open>Keyed_Semaphore\<close> has the interleaved runs. The lemmas relate the
  permits that are out, the limit and the reported requests in flight.
\<close>

record HttpCircuitBreakerSnapshot =
  bz_backend_max_inflight_requests :: nat
  bz_backend_inflight_current :: counters
  bz_rejected_total :: u64
  bz_rejected_backend_total :: u64
  bz_rejected_backend_by_name :: counters

record 's HttpCircuitBreakerController =
  bk_backend_limit :: nat
  bk_per_backend_limits :: "string \<rightharpoonup> nat"
  bk_backends :: "'s SemaphoreMap"
  bk_stats :: HttpCircuitBreakerSnapshot

datatype HttpCircuitBreakerRejection = BreakerBackend

text \<open>A permit with the address of its semaphore, and the name and limit its cleanup uses.\<close>

record HttpCircuitBreakerPermit =
  bp_permit :: "nat option"
  bp_backend :: string
  bp_cleanup :: "(string \<times> nat) option"

definition circuit_breaker_new :: "nat \<Rightarrow> 's HttpCircuitBreakerController" where
  "circuit_breaker_new backend_max_inflight_requests =
     \<lparr> bk_backend_limit = backend_max_inflight_requests, bk_per_backend_limits = Map.empty,
       bk_backends = SemaphoreMap_empty,
       bk_stats = \<lparr> bz_backend_max_inflight_requests = backend_max_inflight_requests,
         bz_backend_inflight_current = Map.empty, bz_rejected_total = 0, bz_rejected_backend_total = 0,
         bz_rejected_backend_by_name = Map.empty \<rparr> \<rparr>"

definition backend_limit_for :: "'s HttpCircuitBreakerController \<Rightarrow> string \<Rightarrow> nat" where
  "backend_limit_for c backend =
     (case bk_per_backend_limits c backend of None \<Rightarrow> bk_backend_limit c | Some limit \<Rightarrow> limit)"

definition set_backend_limit :: "'s HttpCircuitBreakerController \<Rightarrow> string \<Rightarrow> nat \<Rightarrow> 's HttpCircuitBreakerController" where
  "set_backend_limit c backend limit = c\<lparr> bk_per_backend_limits := (bk_per_backend_limits c)(backend \<mapsto> limit) \<rparr>"

definition set_per_backend_limits ::
    "'s HttpCircuitBreakerController \<Rightarrow> (string \<rightharpoonup> nat) \<Rightarrow> 's HttpCircuitBreakerController" where
  "set_per_backend_limits c limits = c\<lparr> bk_per_backend_limits := limits \<rparr>"

definition observe_backend_acquire :: "HttpCircuitBreakerSnapshot \<Rightarrow> string \<Rightarrow> HttpCircuitBreakerSnapshot" where
  "observe_backend_acquire state backend =
     state\<lparr> bz_backend_inflight_current := increment_named (bz_backend_inflight_current state) backend \<rparr>"

definition observe_backend_release :: "HttpCircuitBreakerSnapshot \<Rightarrow> string \<Rightarrow> HttpCircuitBreakerSnapshot" where
  "observe_backend_release state backend =
     state\<lparr> bz_backend_inflight_current := decrement_named (bz_backend_inflight_current state) backend \<rparr>"

definition observe_backend_reject :: "HttpCircuitBreakerSnapshot \<Rightarrow> string \<Rightarrow> HttpCircuitBreakerSnapshot" where
  "observe_backend_reject state backend =
     state\<lparr> bz_rejected_total := bz_rejected_total state + 1,
            bz_rejected_backend_total := bz_rejected_backend_total state + 1,
            bz_rejected_backend_by_name := increment_named (bz_rejected_backend_by_name state) backend \<rparr>"

definition breaker_try_acquire ::
    "'s SemaphoreLib \<Rightarrow> 's HttpCircuitBreakerController \<Rightarrow> string \<Rightarrow>
     (HttpCircuitBreakerRejection + HttpCircuitBreakerPermit) \<times> 's HttpCircuitBreakerController" where
  "breaker_try_acquire lib c backend =
     (let backend = trim backend; limit = backend_limit_for c backend in
      if limit = 0 \<or> backend = []
      then (Inr \<lparr> bp_permit = None, bp_backend = backend, bp_cleanup = None \<rparr>, c)
      else case keyed_acquire lib (bk_backends c) backend limit of
        (Some a, m) \<Rightarrow>
          (Inr \<lparr> bp_permit = Some a, bp_backend = backend, bp_cleanup = Some (backend, limit) \<rparr>,
           c\<lparr> bk_backends := m, bk_stats := observe_backend_acquire (bk_stats c) backend \<rparr>)
      | (None, m) \<Rightarrow>
          (Inl BreakerBackend, c\<lparr> bk_backends := m, bk_stats := observe_backend_reject (bk_stats c) backend \<rparr>))"

definition breaker_permit_drop ::
    "'s SemaphoreLib \<Rightarrow> 's HttpCircuitBreakerController \<Rightarrow> HttpCircuitBreakerPermit \<Rightarrow> 's HttpCircuitBreakerController" where
  "breaker_permit_drop lib c p =
     (let c = (case bp_permit p of
            None \<Rightarrow> c
          | Some a \<Rightarrow>
              let c = c\<lparr> bk_backends := permit_drop lib (bk_backends c) a \<rparr>
              in if bp_backend p \<noteq> [] then c\<lparr> bk_stats := observe_backend_release (bk_stats c) (bp_backend p) \<rparr> else c)
      in case bp_cleanup p of
           None \<Rightarrow> c
         | Some (key, limit) \<Rightarrow> c\<lparr> bk_backends := keyed_cleanup lib (bk_backends c) key limit \<rparr>)"

definition breaker_snapshot :: "'s HttpCircuitBreakerController \<Rightarrow> HttpCircuitBreakerSnapshot" where
  "breaker_snapshot c = bk_stats c"

section \<open>Histories\<close>

text \<open>
  A history of calls: a request for a backend, or the end of the \<open>i\<close>-th admitted request that is
  still in flight. The requests in flight are kept with their permits.
\<close>

datatype BreakerEvent = Enter string | Leave nat

fun breaker_event ::
    "'s SemaphoreLib \<Rightarrow> 's HttpCircuitBreakerController \<times> HttpCircuitBreakerPermit list \<Rightarrow> BreakerEvent \<Rightarrow>
     's HttpCircuitBreakerController \<times> HttpCircuitBreakerPermit list" where
  "breaker_event lib (c, held) (Enter backend) =
     (case breaker_try_acquire lib c backend of
        (Inl _, c) \<Rightarrow> (c, held)
      | (Inr p, c) \<Rightarrow> (c, held @ [p]))"
| "breaker_event lib (c, held) (Leave i) =
     (if i < length held then (breaker_permit_drop lib c (held ! i), take i held @ drop (Suc i) held) else (c, held))"

text \<open>The permits in flight for a backend.\<close>

definition inflight :: "HttpCircuitBreakerPermit list \<Rightarrow> string \<Rightarrow> nat" where
  "inflight held backend = length (filter (\<lambda>p. bp_permit p \<noteq> None \<and> bp_backend p = backend) held)"

lemma inflight_simps [simp]:
  "inflight [] b = 0"
  "inflight (p # ps) b = of_bool (bp_permit p \<noteq> None \<and> bp_backend p = b) + inflight ps b"
  "inflight (ps @ qs) b = inflight ps b + inflight qs b"
  by (simp_all add: inflight_def)

lemma inflight_remove:
  "i < length held \<Longrightarrow> inflight held b = of_bool (bp_permit (held ! i) \<noteq> None \<and> bp_backend (held ! i) = b)
     + inflight (take i held @ drop (Suc i) held) b"
  using id_take_nth_drop [of i held] by (metis (no_types, lifting) inflight_simps(2,3) add.left_commute)

definition permit_ok :: "'s HttpCircuitBreakerController \<Rightarrow> HttpCircuitBreakerPermit \<Rightarrow> bool" where
  "permit_ok c p \<longleftrightarrow> (case bp_permit p of
     None \<Rightarrow> bp_cleanup p = None
   | Some a \<Rightarrow> bp_backend p \<noteq> [] \<and> sm_entries (bk_backends c) (bp_backend p) = Some a
       \<and> bp_cleanup p = Some (bp_backend p, backend_limit_for c (bp_backend p)))"

definition breaker_inv :: "'s SemaphoreLib \<Rightarrow> 's HttpCircuitBreakerController \<Rightarrow> HttpCircuitBreakerPermit list \<Rightarrow> bool" where
  "breaker_inv lib c held \<longleftrightarrow>
     sm_inv lib (backend_limit_for c) (inflight held) (inflight held) (bk_backends c)
     \<and> (\<forall>b. named (bz_backend_inflight_current (bk_stats c)) b = inflight held b)
     \<and> list_all (permit_ok c) held"

lemma inflight_Nil_fun: "inflight [] = (\<lambda>_. 0)"
  by (rule ext) simp

lemma breaker_new_inv: "breaker_inv lib (circuit_breaker_new n) []"
  by (simp add: breaker_inv_def inflight_Nil_fun sm_inv_empty) (simp add: circuit_breaker_new_def sm_inv_empty)

lemma limits_same [simp]:
  "backend_limit_for (c\<lparr> bk_backends := m \<rparr>) = backend_limit_for c"
  "backend_limit_for (c\<lparr> bk_stats := st \<rparr>) = backend_limit_for c"
  by (rule ext, simp add: backend_limit_for_def cong: option.case_cong)+

lemma inflight_append_fun:
  "inflight (held @ [p]) = (if bp_permit p = None then inflight held
     else (inflight held)(bp_backend p := Suc (inflight held (bp_backend p))))"
  by (rule ext) auto

lemma inflight_le: "inflight held b \<le> length held"
  by (simp add: inflight_def)

lemma permit_ok_kept:
  "list_all (permit_ok c) held \<Longrightarrow> backend_limit_for c' = backend_limit_for c \<Longrightarrow>
   (\<And>k a. 0 < inflight held k \<Longrightarrow> sm_entries (bk_backends c) k = Some a \<Longrightarrow> sm_entries (bk_backends c') k = Some a) \<Longrightarrow>
   list_all (permit_ok c') held"
proof -
  assume ok: "list_all (permit_ok c) held" and lim: "backend_limit_for c' = backend_limit_for c"
    and kept: "\<And>k a. 0 < inflight held k \<Longrightarrow> sm_entries (bk_backends c) k = Some a \<Longrightarrow> sm_entries (bk_backends c') k = Some a"
  have "permit_ok c' p" if p: "p \<in> set held" for p
  proof (cases "bp_permit p")
    case None
    moreover have "permit_ok c p" using ok p by (simp add: list_all_iff)
    ultimately show ?thesis by (simp add: permit_ok_def)
  next
    case (Some a)
    have "p \<in> set (filter (\<lambda>q. bp_permit q \<noteq> None \<and> bp_backend q = bp_backend p) held)" using p Some by simp
    then have "0 < inflight held (bp_backend p)" unfolding inflight_def by (rule length_pos_if_in_set)
    moreover have "permit_ok c p" using ok p by (simp add: list_all_iff)
    ultimately show ?thesis using Some lim kept by (simp add: permit_ok_def)
  qed
  then show ?thesis by (simp add: list_all_iff)
qed

lemma breaker_enter_inv:
  assumes laws: "semaphore_laws lib" and inv: "breaker_inv lib c held" and len: "length held < 2 ^ 64 - 1"
    and eq: "breaker_event lib (c, held) (Enter backend) = (c', held')"
  shows "breaker_inv lib c' held' \<and> length held' \<le> Suc (length held) \<and> backend_limit_for c' = backend_limit_for c"
proof -
  let ?b = "trim backend"
  have sm: "sm_inv lib (backend_limit_for c) (inflight held) (inflight held) (bk_backends c)"
    and gauge: "\<And>b. named (bz_backend_inflight_current (bk_stats c)) b = inflight held b"
    and ok: "list_all (permit_ok c) held" using inv by (simp_all add: breaker_inv_def)
  show ?thesis
  proof (cases "backend_limit_for c ?b = 0 \<or> ?b = []")
    case True
    then have eqs: "c' = c" "held' = held @ [\<lparr> bp_permit = None, bp_backend = ?b, bp_cleanup = None \<rparr>]"
      using eq by (simp_all add: breaker_try_acquire_def Let_def)
    show ?thesis unfolding eqs using sm gauge ok by (simp add: breaker_inv_def inflight_append_fun) (simp add: permit_ok_def)
  next
    case False
    obtain r m where ka: "keyed_acquire lib (bk_backends c) ?b (backend_limit_for c ?b) = (r, m)"
      by (cases "keyed_acquire lib (bk_backends c) ?b (backend_limit_for c ?b)")
    note k = keyed_acquire_inv [OF sm laws ka]
    show ?thesis
    proof (cases r)
      case None
      then have eqs: "c' = c\<lparr> bk_backends := m, bk_stats := observe_backend_reject (bk_stats c) ?b \<rparr>" "held' = held"
        using eq False ka by (simp_all add: breaker_try_acquire_def Let_def)
      have "list_all (permit_ok c') held" by (rule permit_ok_kept [OF ok]) (use k(4) in \<open>simp_all add: eqs\<close>)
      then show ?thesis using k(3) [OF None] gauge by (simp add: breaker_inv_def eqs observe_backend_reject_def)
    next
      case (Some a)
      let ?p = "\<lparr> bp_permit = Some a, bp_backend = ?b, bp_cleanup = Some (?b, backend_limit_for c ?b) \<rparr>"
      have eqs: "c' = c\<lparr> bk_backends := m, bk_stats := observe_backend_acquire (bk_stats c) ?b \<rparr>" "held' = held @ [?p]"
        using eq False ka Some by (simp_all add: breaker_try_acquire_def Let_def)
      have "list_all (permit_ok c') held" by (rule permit_ok_kept [OF ok]) (use k(4) in \<open>simp_all add: eqs\<close>)
      moreover have "permit_ok c' ?p" using k(2) [OF Some] False by (simp add: permit_ok_def eqs)
      moreover have "named (bz_backend_inflight_current (bk_stats c)) ?b < 2 ^ 64 - 1" using gauge inflight_le [of held ?b] len by simp
      moreover have "inflight held' = (inflight held)(?b := Suc (inflight held ?b))" by (simp add: eqs inflight_append_fun)
      ultimately show ?thesis using k(2) [OF Some] gauge
        by (simp add: breaker_inv_def eqs observe_backend_acquire_def named_increment)
    qed
  qed
qed

lemma breaker_leave_inv:
  assumes laws: "semaphore_laws lib" and inv: "breaker_inv lib c held" and i: "i < length held"
    and eq: "breaker_event lib (c, held) (Leave i) = (c', held')"
  shows "breaker_inv lib c' held' \<and> length held' \<le> length held \<and> backend_limit_for c' = backend_limit_for c"
proof -
  let ?p = "held ! i"
  have sm: "sm_inv lib (backend_limit_for c) (inflight held) (inflight held) (bk_backends c)"
    and gauge: "\<And>b. named (bz_backend_inflight_current (bk_stats c)) b = inflight held b"
    and ok: "list_all (permit_ok c) held" using inv by (simp_all add: breaker_inv_def)
  have eqs: "c' = breaker_permit_drop lib c ?p" "held' = take i held @ drop (Suc i) held" using eq i by simp_all
  have ok': "list_all (permit_ok c) held'" using ok unfolding eqs(2) list_all_iff by (auto dest: in_set_takeD in_set_dropD)
  have p: "permit_ok c ?p" using ok i by (simp add: list_all_length)
  note rem = inflight_remove [OF i, folded eqs(2)]
  have len: "length held' \<le> length held" using i by (simp add: eqs(2))
  show ?thesis
  proof (cases "bp_permit ?p")
    case None
    then have "c' = c" using p by (simp add: eqs(1) breaker_permit_drop_def permit_ok_def)
    moreover have "inflight held' = inflight held" using rem None by (intro ext) simp
    ultimately show ?thesis using sm gauge ok' len by (simp add: breaker_inv_def)
  next
    case (Some a)
    let ?b = "bp_backend ?p"
    have pf: "?b \<noteq> []" "sm_entries (bk_backends c) ?b = Some a" "bp_cleanup ?p = Some (?b, backend_limit_for c ?b)"
      using p Some by (simp_all add: permit_ok_def)
    have c': "c' = c\<lparr> bk_backends := keyed_release lib (bk_backends c) a ?b (backend_limit_for c ?b),
        bk_stats := observe_backend_release (bk_stats c) ?b \<rparr>"
      by (simp add: eqs(1) breaker_permit_drop_def Let_def Some pf keyed_release_def)
    have pos: "0 < inflight held ?b" using rem [of ?b] Some by simp
    have fe: "inflight held' = (inflight held)(?b := inflight held ?b - 1)" using rem Some by (intro ext) simp
    note k = keyed_release_inv [OF sm laws pf(2) pos, where limit = "backend_limit_for c ?b", folded fe]
    have "list_all (permit_ok c') held'" by (rule permit_ok_kept [OF ok']) (use k(2) in \<open>simp_all add: c'\<close>)
    then show ?thesis using k(1) gauge len
      by (simp add: breaker_inv_def) (simp add: c' observe_backend_release_def named_decrement fe)
  qed
qed

lemma breaker_run:
  assumes laws: "semaphore_laws lib"
  shows "breaker_inv lib c held \<Longrightarrow> length held + length es < 2 ^ 64 \<Longrightarrow> foldl (breaker_event lib) (c, held) es = (c', held') \<Longrightarrow>
    breaker_inv lib c' held' \<and> backend_limit_for c' = backend_limit_for c"
proof (induction es arbitrary: c held)
  case Nil
  then show ?case by simp
next
  case (Cons e es)
  obtain c1 h1 where e: "breaker_event lib (c, held) e = (c1, h1)" by (cases "breaker_event lib (c, held) e")
  have "breaker_inv lib c1 h1 \<and> length h1 \<le> Suc (length held) \<and> backend_limit_for c1 = backend_limit_for c"
  proof (cases e)
    case (Enter b)
    then show ?thesis using breaker_enter_inv [OF laws Cons.prems(1), of b c1 h1] e Cons.prems(2) by simp
  next
    case (Leave i)
    then show ?thesis using breaker_leave_inv [OF laws Cons.prems(1), of i c1 h1] e Cons.prems(1)
      by (cases "i < length held") (simp_all del: breaker_event.simps, simp_all)
  qed
  then show ?case using Cons.IH [of c1 h1] Cons.prems(2,3) e by simp
qed

text \<open>
  C21. The circuit breaker counts right. After any history of requests that enter and leave, the
  reported requests in flight of a backend are the admitted ones that have not left, and they
  never exceed the limit of the backend.
\<close>

theorem breaker_gauge_counts:
  assumes "semaphore_laws lib" and "length es < 2 ^ 64"
    and "foldl (breaker_event lib) (circuit_breaker_new n, []) es = (c, held)"
  shows "named (bz_backend_inflight_current (breaker_snapshot c)) b = inflight held b \<and> inflight held b \<le> n"
proof -
  have inv: "breaker_inv lib c held" and lim: "backend_limit_for c = backend_limit_for (circuit_breaker_new n :: 'a HttpCircuitBreakerController)"
    using breaker_run [OF assms(1) breaker_new_inv _ assms(3)] assms(2) by simp_all
  have "backend_limit_for c b = n" by (simp add: lim) (simp add: backend_limit_for_def circuit_breaker_new_def)
  then show ?thesis using inv sm_inv_bound [of lib "backend_limit_for c" "inflight held" "inflight held" "bk_backends c" b]
    by (simp add: breaker_inv_def breaker_snapshot_def)
qed

theorem breaker_gauge_counts_witness:
  "let r = foldl (breaker_event counting_semaphore) (circuit_breaker_new 2, [])
         [Enter '' api '', Enter ''api'', Enter ''api'', Leave 0, Enter ''web'']
   in named (bz_backend_inflight_current (breaker_snapshot (fst r))) ''api'' = inflight (snd r) ''api'' \<and>
      inflight (snd r) ''api'' \<le> 2"
  unfolding Let_def
  by (rule breaker_gauge_counts [OF counting_semaphore_laws _ prod.collapse [symmetric]]) simp

text \<open>
  A limit that is raised while a request is in flight may never take effect. A permit puts the
  semaphore of its backend away only when as many permits are free as its own limit says, so a
  semaphore created with the old limit and given back under the new one is never full: when all
  requests have left, the backend still admits only as many as the old limit.
\<close>

theorem raised_limit_never_applies:
  "let c0 = circuit_breaker_new 2;
       (c1, h1) = breaker_event counting_semaphore (c0, []) (Enter ''api'');
       c2 = set_backend_limit c1 ''api'' 5;
       (c3, h3) = foldl (breaker_event counting_semaphore) (c2, h1) [Enter ''api'', Leave 0, Leave 0];
       (c4, h4) = foldl (breaker_event counting_semaphore) (c3, h3) [Enter ''api'', Enter ''api'']
   in h3 = [] \<and> backend_limit_for c4 ''api'' = 5 \<and> inflight h4 ''api'' = 2 \<and>
      fst (breaker_try_acquire counting_semaphore c4 ''api'') = Inl BreakerBackend"
  by code_simp

end
