(* ===== verification/Overload.thy ===== *)
theory Overload
  imports Keyed_Semaphore "HOL-Library.Multiset"
begin

text \<open>
  Admission control, \<open>overload.rs\<close>, \<open>overload/budget.rs\<close> and \<open>overload/stats.rs\<close> of \<open>crates/ntgw-observability\<close>: the
  controllers of HTTP requests, TCP connections and UDP datagrams, each with a budget for the whole
  process and one per listener, for HTTP also one per route, and the statistics they share. A controller
  is passed and returned with the statistics; a budget taken is a \<open>TrackedPermit\<close>, and what a permit does
  when it is dropped is a function of the controller it came from.

  The interface \<open>admission\<close> says what a controller keeps of its budgets and of the statistics; the
  three controllers are its instances, and a history of all three keeps the gauges right.
\<close>

section \<open>Statistics, \<open>overload/stats.rs\<close>\<close>

record OverloadSnapshot =
  oz_http_global_inflight_current :: u64
  oz_http_listener_inflight_current :: counters
  oz_http_route_inflight_current :: counters
  oz_http_rejected_total :: u64
  oz_http_rejected_global_total :: u64
  oz_http_rejected_listener_total :: u64
  oz_http_rejected_route_total :: u64
  oz_http_rejected_listener_by_name :: counters
  oz_http_rejected_route_by_name :: counters
  oz_tcp_global_connections_current :: u64
  oz_tcp_listener_connections_current :: counters
  oz_tcp_rejected_total :: u64
  oz_tcp_rejected_global_total :: u64
  oz_tcp_rejected_listener_total :: u64
  oz_tcp_rejected_listener_by_name :: counters
  oz_udp_global_datagrams_current :: u64
  oz_udp_listener_datagrams_current :: counters
  oz_udp_rejected_total :: u64
  oz_udp_rejected_global_total :: u64
  oz_udp_rejected_listener_total :: u64
  oz_udp_rejected_listener_by_name :: counters

record OverloadStats =
  os_http_global_inflight_current :: u64
  os_http_listener_inflight_current :: counters
  os_http_route_inflight_current :: counters
  os_http_rejected_total :: u64
  os_http_rejected_global_total :: u64
  os_http_rejected_listener_total :: u64
  os_http_rejected_route_total :: u64
  os_http_rejected_listener_by_name :: counters
  os_http_rejected_route_by_name :: counters
  os_tcp_global_connections_current :: u64
  os_tcp_listener_connections_current :: counters
  os_tcp_rejected_total :: u64
  os_tcp_rejected_global_total :: u64
  os_tcp_rejected_listener_total :: u64
  os_tcp_rejected_listener_by_name :: counters
  os_udp_global_datagrams_current :: u64
  os_udp_listener_datagrams_current :: counters
  os_udp_rejected_total :: u64
  os_udp_rejected_global_total :: u64
  os_udp_rejected_listener_total :: u64
  os_udp_rejected_listener_by_name :: counters

definition OverloadStats_default :: OverloadStats where
  "OverloadStats_default = \<lparr>
     os_http_global_inflight_current = 0,
     os_http_listener_inflight_current = Map.empty,
     os_http_route_inflight_current = Map.empty,
     os_http_rejected_total = 0,
     os_http_rejected_global_total = 0,
     os_http_rejected_listener_total = 0,
     os_http_rejected_route_total = 0,
     os_http_rejected_listener_by_name = Map.empty,
     os_http_rejected_route_by_name = Map.empty,
     os_tcp_global_connections_current = 0,
     os_tcp_listener_connections_current = Map.empty,
     os_tcp_rejected_total = 0,
     os_tcp_rejected_global_total = 0,
     os_tcp_rejected_listener_total = 0,
     os_tcp_rejected_listener_by_name = Map.empty,
     os_udp_global_datagrams_current = 0,
     os_udp_listener_datagrams_current = Map.empty,
     os_udp_rejected_total = 0,
     os_udp_rejected_global_total = 0,
     os_udp_rejected_listener_total = 0,
     os_udp_rejected_listener_by_name = Map.empty \<rparr>"

definition overload_snapshot :: "OverloadStats \<Rightarrow> OverloadSnapshot" where
  "overload_snapshot st = \<lparr>
     oz_http_global_inflight_current = os_http_global_inflight_current st,
     oz_http_listener_inflight_current = os_http_listener_inflight_current st,
     oz_http_route_inflight_current = os_http_route_inflight_current st,
     oz_http_rejected_total = os_http_rejected_total st,
     oz_http_rejected_global_total = os_http_rejected_global_total st,
     oz_http_rejected_listener_total = os_http_rejected_listener_total st,
     oz_http_rejected_route_total = os_http_rejected_route_total st,
     oz_http_rejected_listener_by_name = os_http_rejected_listener_by_name st,
     oz_http_rejected_route_by_name = os_http_rejected_route_by_name st,
     oz_tcp_global_connections_current = os_tcp_global_connections_current st,
     oz_tcp_listener_connections_current = os_tcp_listener_connections_current st,
     oz_tcp_rejected_total = os_tcp_rejected_total st,
     oz_tcp_rejected_global_total = os_tcp_rejected_global_total st,
     oz_tcp_rejected_listener_total = os_tcp_rejected_listener_total st,
     oz_tcp_rejected_listener_by_name = os_tcp_rejected_listener_by_name st,
     oz_udp_global_datagrams_current = os_udp_global_datagrams_current st,
     oz_udp_listener_datagrams_current = os_udp_listener_datagrams_current st,
     oz_udp_rejected_total = os_udp_rejected_total st,
     oz_udp_rejected_global_total = os_udp_rejected_global_total st,
     oz_udp_rejected_listener_total = os_udp_rejected_listener_total st,
     oz_udp_rejected_listener_by_name = os_udp_rejected_listener_by_name st \<rparr>"

datatype BudgetScope =
    HttpGlobal | HttpListener string | HttpRoute string
  | TcpGlobal | TcpListener string
  | UdpGlobal | UdpListener string

definition saturating_decrement :: "u64 \<Rightarrow> u64" where
  "saturating_decrement current = saturating_sub current 1"

fun observe_acquire :: "OverloadStats \<Rightarrow> BudgetScope \<Rightarrow> OverloadStats" where
  "observe_acquire st HttpGlobal = st\<lparr> os_http_global_inflight_current := os_http_global_inflight_current st + 1 \<rparr>"
| "observe_acquire st (HttpListener l) =
     st\<lparr> os_http_listener_inflight_current := increment_named (os_http_listener_inflight_current st) l \<rparr>"
| "observe_acquire st (HttpRoute r) =
     st\<lparr> os_http_route_inflight_current := increment_named (os_http_route_inflight_current st) r \<rparr>"
| "observe_acquire st TcpGlobal = st\<lparr> os_tcp_global_connections_current := os_tcp_global_connections_current st + 1 \<rparr>"
| "observe_acquire st (TcpListener l) =
     st\<lparr> os_tcp_listener_connections_current := increment_named (os_tcp_listener_connections_current st) l \<rparr>"
| "observe_acquire st UdpGlobal = st\<lparr> os_udp_global_datagrams_current := os_udp_global_datagrams_current st + 1 \<rparr>"
| "observe_acquire st (UdpListener l) =
     st\<lparr> os_udp_listener_datagrams_current := increment_named (os_udp_listener_datagrams_current st) l \<rparr>"

fun observe_release :: "OverloadStats \<Rightarrow> BudgetScope \<Rightarrow> OverloadStats" where
  "observe_release st HttpGlobal =
     st\<lparr> os_http_global_inflight_current := saturating_decrement (os_http_global_inflight_current st) \<rparr>"
| "observe_release st (HttpListener l) =
     st\<lparr> os_http_listener_inflight_current := decrement_named (os_http_listener_inflight_current st) l \<rparr>"
| "observe_release st (HttpRoute r) =
     st\<lparr> os_http_route_inflight_current := decrement_named (os_http_route_inflight_current st) r \<rparr>"
| "observe_release st TcpGlobal =
     st\<lparr> os_tcp_global_connections_current := saturating_decrement (os_tcp_global_connections_current st) \<rparr>"
| "observe_release st (TcpListener l) =
     st\<lparr> os_tcp_listener_connections_current := decrement_named (os_tcp_listener_connections_current st) l \<rparr>"
| "observe_release st UdpGlobal =
     st\<lparr> os_udp_global_datagrams_current := saturating_decrement (os_udp_global_datagrams_current st) \<rparr>"
| "observe_release st (UdpListener l) =
     st\<lparr> os_udp_listener_datagrams_current := decrement_named (os_udp_listener_datagrams_current st) l \<rparr>"

fun observe_reject :: "OverloadStats \<Rightarrow> BudgetScope \<Rightarrow> OverloadStats" where
  "observe_reject st HttpGlobal = st\<lparr>
       os_http_rejected_total := os_http_rejected_total st + 1,
       os_http_rejected_global_total := os_http_rejected_global_total st + 1 \<rparr>"
| "observe_reject st (HttpListener l) = st\<lparr>
       os_http_rejected_total := os_http_rejected_total st + 1,
       os_http_rejected_listener_total := os_http_rejected_listener_total st + 1,
       os_http_rejected_listener_by_name := increment_named (os_http_rejected_listener_by_name st) l \<rparr>"
| "observe_reject st (HttpRoute r) = st\<lparr>
       os_http_rejected_total := os_http_rejected_total st + 1,
       os_http_rejected_route_total := os_http_rejected_route_total st + 1,
       os_http_rejected_route_by_name := increment_named (os_http_rejected_route_by_name st) r \<rparr>"
| "observe_reject st TcpGlobal = st\<lparr>
       os_tcp_rejected_total := os_tcp_rejected_total st + 1,
       os_tcp_rejected_global_total := os_tcp_rejected_global_total st + 1 \<rparr>"
| "observe_reject st (TcpListener l) = st\<lparr>
       os_tcp_rejected_total := os_tcp_rejected_total st + 1,
       os_tcp_rejected_listener_total := os_tcp_rejected_listener_total st + 1,
       os_tcp_rejected_listener_by_name := increment_named (os_tcp_rejected_listener_by_name st) l \<rparr>"
| "observe_reject st UdpGlobal = st\<lparr>
       os_udp_rejected_total := os_udp_rejected_total st + 1,
       os_udp_rejected_global_total := os_udp_rejected_global_total st + 1 \<rparr>"
| "observe_reject st (UdpListener l) = st\<lparr>
       os_udp_rejected_total := os_udp_rejected_total st + 1,
       os_udp_rejected_listener_total := os_udp_rejected_listener_total st + 1,
       os_udp_rejected_listener_by_name := increment_named (os_udp_rejected_listener_by_name st) l \<rparr>"

text \<open>The gauge of a scope, and that the gauges read a given count.\<close>

fun gauge :: "OverloadStats \<Rightarrow> BudgetScope \<Rightarrow> nat" where
  "gauge st HttpGlobal = unat (os_http_global_inflight_current st)"
| "gauge st (HttpListener l) = named (os_http_listener_inflight_current st) l"
| "gauge st (HttpRoute r) = named (os_http_route_inflight_current st) r"
| "gauge st TcpGlobal = unat (os_tcp_global_connections_current st)"
| "gauge st (TcpListener l) = named (os_tcp_listener_connections_current st) l"
| "gauge st UdpGlobal = unat (os_udp_global_datagrams_current st)"
| "gauge st (UdpListener l) = named (os_udp_listener_datagrams_current st) l"

lemma gauge_default [simp]: "gauge OverloadStats_default s = 0"
  by (cases s) (simp_all add: OverloadStats_default_def)

lemma gauge_acquire:
  "gauge st s < 2 ^ 64 - 1 \<Longrightarrow> gauge (observe_acquire st s) = (gauge st)(s := Suc (gauge st s))"
proof (rule ext)
  fix s'
  assume "gauge st s < 2 ^ 64 - 1"
  then show "gauge (observe_acquire st s) s' = ((gauge st)(s := Suc (gauge st s))) s'"
    by (cases s; cases s') (simp_all add: named_increment unat_word_ariths)
qed

lemma gauge_release: "gauge (observe_release st s) = (gauge st)(s := gauge st s - 1)"
proof (rule ext)
  fix s'
  show "gauge (observe_release st s) s' = ((gauge st)(s := gauge st s - 1)) s'"
    by (cases s; cases s') (simp_all add: named_decrement saturating_decrement_def unat_saturating_sub)
qed

lemma gauge_reject: "gauge (observe_reject st s) = gauge st"
proof (rule ext)
  fix s'
  show "gauge (observe_reject st s) s' = gauge st s'" by (cases s; cases s') simp_all
qed

declare observe_acquire.simps [simp del] observe_release.simps [simp del] observe_reject.simps [simp del]

section \<open>Budgets, \<open>overload/budget.rs\<close>\<close>

text \<open>The semaphore a permit belongs to: that of the process, or one of the named ones by its address.\<close>

datatype OwnedPermit = GlobalPermit | KeyedPermit nat

record TrackedPermit =
  tp_permit :: "OwnedPermit option"
  tp_scope :: BudgetScope
  tp_cleanup :: "(string \<times> nat) option"

definition semaphore_for_limit :: "'s SemaphoreLib \<Rightarrow> nat \<Rightarrow> 's option" where
  "semaphore_for_limit lib limit = (if limit > 0 then Some (sem_new lib limit) else None)"

definition try_acquire_scope ::
    "'s SemaphoreLib \<Rightarrow> 's option \<Rightarrow> OverloadStats \<Rightarrow> BudgetScope \<Rightarrow> 'e \<Rightarrow>
     ('e + TrackedPermit option) \<times> 's option \<times> OverloadStats" where
  "try_acquire_scope lib semaphore st scope rejection =
     (case semaphore of
        None \<Rightarrow> (Inr None, None, st)
      | Some s \<Rightarrow>
          (case sem_try_acquire lib s of
             Some s' \<Rightarrow>
               (Inr (Some \<lparr> tp_permit = Some GlobalPermit, tp_scope = scope, tp_cleanup = None \<rparr>),
                Some s', observe_acquire st scope)
           | None \<Rightarrow> (Inl rejection, Some s, observe_reject st scope)))"

definition try_acquire_keyed_scope ::
    "'s SemaphoreLib \<Rightarrow> 's SemaphoreMap \<Rightarrow> nat \<Rightarrow> string \<Rightarrow> OverloadStats \<Rightarrow> (string \<Rightarrow> BudgetScope) \<Rightarrow> 'e \<Rightarrow>
     ('e + TrackedPermit option) \<times> 's SemaphoreMap \<times> OverloadStats" where
  "try_acquire_keyed_scope lib entries limit key st scope_builder rejection =
     (let key = trim key in
      if limit = 0 \<or> key = [] then (Inr None, entries, st)
      else let scope = scope_builder key in
        case keyed_acquire lib entries key limit of
          (Some a, entries) \<Rightarrow>
            (Inr (Some \<lparr> tp_permit = Some (KeyedPermit a), tp_scope = scope, tp_cleanup = Some (key, limit) \<rparr>),
             entries, observe_acquire st scope)
        | (None, entries) \<Rightarrow> (Inl rejection, entries, observe_reject st scope))"

text \<open>
  Dropping a permit: the gauge goes down, the permit goes back, and a named semaphore that nobody
  uses is put away.
\<close>

definition scope_drop :: "'s SemaphoreLib \<Rightarrow> 's option \<Rightarrow> OverloadStats \<Rightarrow> TrackedPermit \<Rightarrow> 's option \<times> OverloadStats" where
  "scope_drop lib semaphore st p =
     (let st = observe_release st (tp_scope p) in
      case tp_permit p of
        Some GlobalPermit \<Rightarrow> (map_option (sem_add_permit lib) semaphore, st)
      | _ \<Rightarrow> (semaphore, st))"

definition keyed_scope_drop ::
    "'s SemaphoreLib \<Rightarrow> 's SemaphoreMap \<Rightarrow> OverloadStats \<Rightarrow> TrackedPermit \<Rightarrow> 's SemaphoreMap \<times> OverloadStats" where
  "keyed_scope_drop lib entries st p =
     (let st = observe_release st (tp_scope p);
          entries = (case tp_permit p of Some (KeyedPermit a) \<Rightarrow> permit_drop lib entries a | _ \<Rightarrow> entries)
      in case tp_cleanup p of
           None \<Rightarrow> (entries, st)
         | Some (key, limit) \<Rightarrow> (keyed_cleanup lib entries key limit, st))"

section \<open>Controllers, \<open>overload.rs\<close>\<close>

record HttpAdmissionOptions =
  ho_global_inflight_limit :: nat
  ho_listener_inflight_limit :: nat
  ho_route_inflight_limit :: nat

record TcpAdmissionOptions =
  to_global_connection_limit :: nat
  to_listener_connection_limit :: nat

record UdpAdmissionOptions =
  uo_global_datagram_limit :: nat
  uo_listener_datagram_limit :: nat

datatype HttpAdmissionRejection = GlobalInflight | ListenerInflight | RouteInflight
datatype TcpAdmissionRejection = GlobalConnection | ListenerConnection
datatype UdpAdmissionRejection = GlobalDatagram | ListenerDatagram

record 's HttpAdmissionController =
  ha_global :: "'s option"
  ha_listener_limit :: nat
  ha_route_limit :: nat
  ha_listeners :: "'s SemaphoreMap"
  ha_routes :: "'s SemaphoreMap"

record 's TcpAdmissionController =
  ta_global :: "'s option"
  ta_listener_limit :: nat
  ta_listeners :: "'s SemaphoreMap"

record 's UdpAdmissionController =
  ua_global :: "'s option"
  ua_listener_limit :: nat
  ua_listeners :: "'s SemaphoreMap"

type_synonym AdmissionPermit = "TrackedPermit list"

definition http_admission_new :: "'s SemaphoreLib \<Rightarrow> HttpAdmissionOptions \<Rightarrow> 's HttpAdmissionController" where
  "http_admission_new lib options = \<lparr>
     ha_global = semaphore_for_limit lib (ho_global_inflight_limit options),
     ha_listener_limit = ho_listener_inflight_limit options, ha_route_limit = ho_route_inflight_limit options,
     ha_listeners = SemaphoreMap_empty, ha_routes = SemaphoreMap_empty \<rparr>"

definition tcp_admission_new :: "'s SemaphoreLib \<Rightarrow> TcpAdmissionOptions \<Rightarrow> 's TcpAdmissionController" where
  "tcp_admission_new lib options = \<lparr>
     ta_global = semaphore_for_limit lib (to_global_connection_limit options),
     ta_listener_limit = to_listener_connection_limit options, ta_listeners = SemaphoreMap_empty \<rparr>"

definition udp_admission_new :: "'s SemaphoreLib \<Rightarrow> UdpAdmissionOptions \<Rightarrow> 's UdpAdmissionController" where
  "udp_admission_new lib options = \<lparr>
     ua_global = semaphore_for_limit lib (uo_global_datagram_limit options),
     ua_listener_limit = uo_listener_datagram_limit options, ua_listeners = SemaphoreMap_empty \<rparr>"

text \<open>Which semaphores a permit of a controller goes back to, by its scope.\<close>

definition http_drop_permit ::
    "'s SemaphoreLib \<Rightarrow> 's HttpAdmissionController \<times> OverloadStats \<Rightarrow> TrackedPermit \<Rightarrow> 's HttpAdmissionController \<times> OverloadStats" where
  "http_drop_permit lib cs p = (case cs of (c, st) \<Rightarrow>
     (case tp_scope p of
        HttpListener _ \<Rightarrow> (case keyed_scope_drop lib (ha_listeners c) st p of (m, st) \<Rightarrow> (c\<lparr> ha_listeners := m \<rparr>, st))
      | HttpRoute _ \<Rightarrow> (case keyed_scope_drop lib (ha_routes c) st p of (m, st) \<Rightarrow> (c\<lparr> ha_routes := m \<rparr>, st))
      | _ \<Rightarrow> (case scope_drop lib (ha_global c) st p of (g, st) \<Rightarrow> (c\<lparr> ha_global := g \<rparr>, st))))"

definition tcp_drop_permit ::
    "'s SemaphoreLib \<Rightarrow> 's TcpAdmissionController \<times> OverloadStats \<Rightarrow> TrackedPermit \<Rightarrow> 's TcpAdmissionController \<times> OverloadStats" where
  "tcp_drop_permit lib cs p = (case cs of (c, st) \<Rightarrow>
     (case tp_scope p of
        TcpListener _ \<Rightarrow> (case keyed_scope_drop lib (ta_listeners c) st p of (m, st) \<Rightarrow> (c\<lparr> ta_listeners := m \<rparr>, st))
      | _ \<Rightarrow> (case scope_drop lib (ta_global c) st p of (g, st) \<Rightarrow> (c\<lparr> ta_global := g \<rparr>, st))))"

definition udp_drop_permit ::
    "'s SemaphoreLib \<Rightarrow> 's UdpAdmissionController \<times> OverloadStats \<Rightarrow> TrackedPermit \<Rightarrow> 's UdpAdmissionController \<times> OverloadStats" where
  "udp_drop_permit lib cs p = (case cs of (c, st) \<Rightarrow>
     (case tp_scope p of
        UdpListener _ \<Rightarrow> (case keyed_scope_drop lib (ua_listeners c) st p of (m, st) \<Rightarrow> (c\<lparr> ua_listeners := m \<rparr>, st))
      | _ \<Rightarrow> (case scope_drop lib (ua_global c) st p of (g, st) \<Rightarrow> (c\<lparr> ua_global := g \<rparr>, st))))"

definition active_budget_count :: "AdmissionPermit \<Rightarrow> nat" where
  "active_budget_count permits = length permits"

text \<open>An early return drops the permits taken so far.\<close>

definition http_try_acquire_listener ::
    "'s SemaphoreLib \<Rightarrow> 's HttpAdmissionController \<Rightarrow> OverloadStats \<Rightarrow> string \<Rightarrow>
     (HttpAdmissionRejection + AdmissionPermit) \<times> 's HttpAdmissionController \<times> OverloadStats" where
  "http_try_acquire_listener lib c st listener =
     (case try_acquire_scope lib (ha_global c) st HttpGlobal GlobalInflight of
        (Inl e, g, st) \<Rightarrow> (Inl e, c\<lparr> ha_global := g \<rparr>, st)
      | (Inr first, g, st) \<Rightarrow>
          let c = c\<lparr> ha_global := g \<rparr>; permits = option_list first in
          (case try_acquire_keyed_scope lib (ha_listeners c) (ha_listener_limit c) listener st HttpListener ListenerInflight of
             (Inl e, m, st) \<Rightarrow> (Inl e, foldl (http_drop_permit lib) (c\<lparr> ha_listeners := m \<rparr>, st) permits)
           | (Inr second, m, st) \<Rightarrow> (Inr (permits @ option_list second), c\<lparr> ha_listeners := m \<rparr>, st)))"

definition http_try_acquire_route ::
    "'s SemaphoreLib \<Rightarrow> 's HttpAdmissionController \<Rightarrow> OverloadStats \<Rightarrow> string \<Rightarrow>
     (HttpAdmissionRejection + AdmissionPermit) \<times> 's HttpAdmissionController \<times> OverloadStats" where
  "http_try_acquire_route lib c st route =
     (case try_acquire_keyed_scope lib (ha_routes c) (ha_route_limit c) route st HttpRoute RouteInflight of
        (Inl e, m, st) \<Rightarrow> (Inl e, c\<lparr> ha_routes := m \<rparr>, st)
      | (Inr permit, m, st) \<Rightarrow> (Inr (option_list permit), c\<lparr> ha_routes := m \<rparr>, st))"

definition route_scope_enabled :: "'s HttpAdmissionController \<Rightarrow> bool" where
  "route_scope_enabled c \<longleftrightarrow> ha_route_limit c > 0"

definition http_try_acquire ::
    "'s SemaphoreLib \<Rightarrow> 's HttpAdmissionController \<Rightarrow> OverloadStats \<Rightarrow> string \<times> string \<Rightarrow>
     (HttpAdmissionRejection + AdmissionPermit) \<times> 's HttpAdmissionController \<times> OverloadStats" where
  "http_try_acquire lib c st lr = (case lr of (listener, route) \<Rightarrow>
     (case http_try_acquire_listener lib c st listener of
        (Inl e, c, st) \<Rightarrow> (Inl e, c, st)
      | (Inr permit, c, st) \<Rightarrow>
          (case http_try_acquire_route lib c st route of
             (Inl e, c, st) \<Rightarrow> (Inl e, foldl (http_drop_permit lib) (c, st) permit)
           | (Inr other, c, st) \<Rightarrow> (Inr (permit @ other), c, st))))"

definition tcp_try_acquire ::
    "'s SemaphoreLib \<Rightarrow> 's TcpAdmissionController \<Rightarrow> OverloadStats \<Rightarrow> string \<Rightarrow>
     (TcpAdmissionRejection + AdmissionPermit) \<times> 's TcpAdmissionController \<times> OverloadStats" where
  "tcp_try_acquire lib c st listener =
     (case try_acquire_scope lib (ta_global c) st TcpGlobal GlobalConnection of
        (Inl e, g, st) \<Rightarrow> (Inl e, c\<lparr> ta_global := g \<rparr>, st)
      | (Inr first, g, st) \<Rightarrow>
          let c = c\<lparr> ta_global := g \<rparr>; permits = option_list first in
          (case try_acquire_keyed_scope lib (ta_listeners c) (ta_listener_limit c) listener st TcpListener ListenerConnection of
             (Inl e, m, st) \<Rightarrow> (Inl e, foldl (tcp_drop_permit lib) (c\<lparr> ta_listeners := m \<rparr>, st) permits)
           | (Inr second, m, st) \<Rightarrow> (Inr (permits @ option_list second), c\<lparr> ta_listeners := m \<rparr>, st)))"

definition udp_try_acquire ::
    "'s SemaphoreLib \<Rightarrow> 's UdpAdmissionController \<Rightarrow> OverloadStats \<Rightarrow> string \<Rightarrow>
     (UdpAdmissionRejection + AdmissionPermit) \<times> 's UdpAdmissionController \<times> OverloadStats" where
  "udp_try_acquire lib c st listener =
     (case try_acquire_scope lib (ua_global c) st UdpGlobal GlobalDatagram of
        (Inl e, g, st) \<Rightarrow> (Inl e, c\<lparr> ua_global := g \<rparr>, st)
      | (Inr first, g, st) \<Rightarrow>
          let c = c\<lparr> ua_global := g \<rparr>; permits = option_list first in
          (case try_acquire_keyed_scope lib (ua_listeners c) (ua_listener_limit c) listener st UdpListener ListenerDatagram of
             (Inl e, m, st) \<Rightarrow> (Inl e, foldl (udp_drop_permit lib) (c\<lparr> ua_listeners := m \<rparr>, st) permits)
           | (Inr second, m, st) \<Rightarrow> (Inr (permits @ option_list second), c\<lparr> ua_listeners := m \<rparr>, st)))"

section \<open>Pools\<close>

text \<open>How many of the permits that are out are of a scope.\<close>

definition permits_of :: "TrackedPermit multiset \<Rightarrow> BudgetScope \<Rightarrow> nat" where
  "permits_of M scope = size (filter_mset (\<lambda>p. tp_scope p = scope) M)"

lemma permits_of_simps [simp]:
  "permits_of {#} scope = 0"
  "permits_of (add_mset p M) scope = of_bool (tp_scope p = scope) + permits_of M scope"
  "permits_of (M + N) scope = permits_of M scope + permits_of N scope"
  by (simp_all add: permits_of_def)

lemma permits_of_zero: "(\<And>p. p \<in># M \<Longrightarrow> tp_scope p \<noteq> scope) \<Longrightarrow> permits_of M scope = 0"
  by (induction M) auto

lemma permits_of_pos: "p \<in># M \<Longrightarrow> 0 < permits_of M (tp_scope p)"
proof -
  assume "p \<in># M"
  then have "p \<in># filter_mset (\<lambda>q. tp_scope q = tp_scope p) M" by simp
  then show ?thesis unfolding permits_of_def by (metis count_greater_zero_iff nonempty_has_size set_mset_empty empty_iff)
qed

text \<open>The semaphore of a process-wide budget, and the permits that are out for it.\<close>

definition global_pool :: "'s SemaphoreLib \<Rightarrow> nat \<Rightarrow> 's option \<Rightarrow> TrackedPermit multiset \<Rightarrow> BudgetScope \<Rightarrow> bool" where
  "global_pool lib limit semaphore M scope \<longleftrightarrow>
     (case semaphore of
        None \<Rightarrow> limit = 0 \<and> permits_of M scope = 0
      | Some s \<Rightarrow> sem_available_permits lib s + permits_of M scope = limit)
     \<and> (\<forall>p. p \<in># M \<longrightarrow> tp_scope p = scope \<longrightarrow> tp_permit p = Some GlobalPermit)"

text \<open>The semaphores of a budget by name, and the permits that are out for it.\<close>

definition keyed_ok :: "'s SemaphoreMap \<Rightarrow> nat \<Rightarrow> TrackedPermit \<Rightarrow> string \<Rightarrow> bool" where
  "keyed_ok entries limit p key \<longleftrightarrow>
     (\<exists>a. tp_permit p = Some (KeyedPermit a) \<and> sm_entries entries key = Some a) \<and> tp_cleanup p = Some (key, limit)"

definition keyed_pool ::
    "'s SemaphoreLib \<Rightarrow> nat \<Rightarrow> 's SemaphoreMap \<Rightarrow> TrackedPermit multiset \<Rightarrow> (string \<Rightarrow> BudgetScope) \<Rightarrow> bool" where
  "keyed_pool lib limit entries M builder \<longleftrightarrow>
     sm_inv lib (\<lambda>_. limit) (\<lambda>key. permits_of M (builder key)) (\<lambda>key. permits_of M (builder key)) entries
     \<and> (\<forall>p key. p \<in># M \<longrightarrow> tp_scope p = builder key \<longrightarrow> keyed_ok entries limit p key)"

lemma global_pool_new: "semaphore_laws lib \<Longrightarrow> global_pool lib limit (semaphore_for_limit lib limit) {#} scope"
  by (simp add: global_pool_def semaphore_for_limit_def semaphore_laws_def)

lemma keyed_pool_new: "keyed_pool lib limit SemaphoreMap_empty {#} builder"
  by (simp add: keyed_pool_def sm_inv_empty)

lemma global_pool_bound: "global_pool lib limit g M scope \<Longrightarrow> permits_of M scope \<le> limit"
  by (auto simp: global_pool_def split: option.splits)

lemma keyed_pool_bound: "keyed_pool lib limit m M builder \<Longrightarrow> permits_of M (builder key) \<le> limit"
  unfolding keyed_pool_def by (elim conjE) (rule sm_inv_bound)

lemma global_pool_frame [simp]:
  "tp_scope p \<noteq> scope \<Longrightarrow> global_pool lib limit g (add_mset p M) scope = global_pool lib limit g M scope"
  by (cases g) (auto simp: global_pool_def)

lemma keyed_pool_frame [simp]:
  "(\<And>key. tp_scope p \<noteq> builder key) \<Longrightarrow> keyed_pool lib limit m (add_mset p M) builder = keyed_pool lib limit m M builder"
  by (simp add: keyed_pool_def)

lemma try_acquire_scope_pool:
  assumes laws: "semaphore_laws lib" and pool: "global_pool lib limit g M scope"
    and eq: "try_acquire_scope lib g st scope rejection = (res, g', st')"
  obtains (none) "res = Inr None" "g' = g" "st' = st"
  | (reject) "res = Inl rejection" "g' = g" "st' = observe_reject st scope" "permits_of M scope = limit"
  | (some) p where "res = Inr (Some p)" "tp_scope p = scope" "st' = observe_acquire st scope"
      "global_pool lib limit g' (add_mset p M) scope" "permits_of M scope < limit"
proof (cases g)
  case None
  then show ?thesis using eq none by (simp add: try_acquire_scope_def)
next
  case (Some s)
  show ?thesis
  proof (cases "sem_try_acquire lib s")
    case None
    then have "sem_available_permits lib s = 0" using laws by (simp add: semaphore_laws_def)
    moreover have "permits_of M scope = limit" using pool Some calculation by (simp add: global_pool_def)
    ultimately show ?thesis using eq reject Some None by (simp add: try_acquire_scope_def)
  next
    case (Some s')
    then have av: "sem_available_permits lib s' + 1 = sem_available_permits lib s" using laws by (simp add: semaphore_laws_def)
    have g': "g' = Some s'" "st' = observe_acquire st scope"
      "res = Inr (Some \<lparr> tp_permit = Some GlobalPermit, tp_scope = scope, tp_cleanup = None \<rparr>)"
      using eq \<open>g = Some s\<close> Some by (simp_all add: try_acquire_scope_def)
    show ?thesis by (rule some [OF g'(3) _ g'(2)]) (use \<open>g = Some s\<close> av pool in \<open>auto simp: global_pool_def g'(1)\<close>)
  qed
qed

lemma try_acquire_keyed_pool:
  assumes laws: "semaphore_laws lib" and pool: "keyed_pool lib limit m M builder" and inj: "\<And>k k'. builder k = builder k' \<longleftrightarrow> k = k'"
    and eq: "try_acquire_keyed_scope lib m limit key st builder rejection = (res, m', st')"
  obtains (none) "res = Inr None" "m' = m" "st' = st"
  | (reject) "res = Inl rejection" "keyed_pool lib limit m' M builder" "st' = observe_reject st (builder (trim key))"
      "permits_of M (builder (trim key)) = limit"
  | (some) p where "res = Inr (Some p)" "tp_scope p = builder (trim key)" "st' = observe_acquire st (builder (trim key))"
      "keyed_pool lib limit m' (add_mset p M) builder" "permits_of M (builder (trim key)) < limit"
proof (cases "limit = 0 \<or> trim key = []")
  case True
  then show ?thesis using eq none by (simp add: try_acquire_keyed_scope_def Let_def)
next
  case False
  let ?k = "trim key" and ?P = "\<lambda>k. permits_of M (builder k)"
  have sm: "sm_inv lib (\<lambda>_. limit) ?P ?P m" and ok: "\<And>p k. p \<in># M \<Longrightarrow> tp_scope p = builder k \<Longrightarrow> keyed_ok m limit p k"
    using pool by (simp_all add: keyed_pool_def)
  obtain r n where ka: "keyed_acquire lib m ?k limit = (r, n)" by (cases "keyed_acquire lib m ?k limit")
  note k = keyed_acquire_inv [OF sm laws ka]
  have ok': "keyed_ok n limit p k" if "p \<in># M" "tp_scope p = builder k" for p k
    using ok [OF that] k(4) by (auto simp: keyed_ok_def)
  show ?thesis
  proof (cases r)
    case None
    have "permits_of M (builder ?k) = limit" using k(1) None keyed_pool_bound [OF pool, of ?k] by simp
    moreover have "keyed_pool lib limit n M builder" using k(3) [OF None] ok' by (simp add: keyed_pool_def)
    ultimately show ?thesis using reject eq False ka None by (simp add: try_acquire_keyed_scope_def Let_def)
  next
    case (Some a)
    let ?p = "\<lparr> tp_permit = Some (KeyedPermit a), tp_scope = builder ?k, tp_cleanup = Some (?k, limit) \<rparr>"
    have "permits_of M (builder ?k) < limit" using k(1) Some keyed_pool_bound [OF pool, of ?k] by simp
    moreover have "(\<lambda>k. permits_of (add_mset ?p M) (builder k)) = ?P(?k := Suc (?P ?k))" by (rule ext) (auto simp: inj)
    then have "keyed_pool lib limit n (add_mset ?p M) builder"
      using k(2) [OF Some] ok' by (auto simp: keyed_pool_def keyed_ok_def inj)
    ultimately show ?thesis using some [of ?p] eq False ka Some by (simp add: try_acquire_keyed_scope_def Let_def)
  qed
qed

lemma scope_drop_pool:
  assumes laws: "semaphore_laws lib" and pool: "global_pool lib limit g (add_mset p M) (tp_scope p)"
    and eq: "scope_drop lib g st p = (g', st')"
  shows "global_pool lib limit g' M (tp_scope p) \<and> st' = observe_release st (tp_scope p)"
  using assms by (cases g) (auto simp: global_pool_def scope_drop_def Let_def semaphore_laws_def)

lemma keyed_scope_drop_pool:
  assumes laws: "semaphore_laws lib" and pool: "keyed_pool lib limit m (add_mset p M) builder" and inj: "\<And>k k'. builder k = builder k' \<longleftrightarrow> k = k'"
    and scope: "tp_scope p = builder key" and eq: "keyed_scope_drop lib m st p = (m', st')"
  shows "keyed_pool lib limit m' M builder \<and> st' = observe_release st (builder key)"
proof -
  define P where "P = (\<lambda>k. permits_of (add_mset p M) (builder k))"
  have sm: "sm_inv lib (\<lambda>_. limit) P P m" and ok: "\<And>q k. q \<in># add_mset p M \<Longrightarrow> tp_scope q = builder k \<Longrightarrow> keyed_ok m limit q k"
    using pool by (unfold keyed_pool_def P_def) (elim conjE, assumption, elim conjE, simp only:)
  obtain a where a: "tp_permit p = Some (KeyedPermit a)" "sm_entries m key = Some a" "tp_cleanup p = Some (key, limit)"
    using ok [of p key] scope by (auto simp: keyed_ok_def)
  have m': "m' = keyed_release lib m a key limit" "st' = observe_release st (builder key)"
    using eq scope a by (auto simp: keyed_scope_drop_def keyed_release_def Let_def)
  have pos: "0 < P key" using scope by (simp add: P_def)
  have P': "(\<lambda>k. permits_of M (builder k)) = P(key := P key - 1)" by (rule ext) (auto simp: P_def scope inj)
  note k = keyed_release_inv [OF sm laws a(2) pos, where limit = limit, folded P' m'(1)]
  have "keyed_ok m' limit q k" if q: "q \<in># M" "tp_scope q = builder k" for q k
  proof -
    have "0 < permits_of M (builder k)" using permits_of_pos [OF q(1)] q(2) by simp
    then show ?thesis using k(2) ok [of q k] q by (simp add: keyed_ok_def)
  qed
  then show ?thesis using k(1) m'(2) by (simp add: keyed_pool_def)
qed

section \<open>The contract of a controller\<close>

text \<open>
  A controller owns scopes. The state of its budgets agrees with the permits that are out, and so
  do the gauges of its scopes; what it does not own it leaves alone.
\<close>

definition tracks ::
    "(BudgetScope \<Rightarrow> bool) \<Rightarrow> ('c \<Rightarrow> TrackedPermit multiset \<Rightarrow> bool) \<Rightarrow> 'c \<Rightarrow> OverloadStats \<Rightarrow> TrackedPermit multiset \<Rightarrow> bool" where
  "tracks owns holds c st M \<longleftrightarrow> holds c M \<and> (\<forall>s. owns s \<longrightarrow> gauge st s = permits_of M s)"

definition untouched :: "(BudgetScope \<Rightarrow> bool) \<Rightarrow> OverloadStats \<Rightarrow> OverloadStats \<Rightarrow> bool" where
  "untouched owns st st' \<longleftrightarrow> (\<forall>s. \<not> owns s \<longrightarrow> gauge st' s = gauge st s)"

lemma untouched_refl [simp]: "untouched owns st st"
  by (simp add: untouched_def)

lemma untouched_trans: "untouched owns st st1 \<Longrightarrow> untouched owns st1 st2 \<Longrightarrow> untouched owns st st2"
  by (simp add: untouched_def)

lemma tracks_acquire:
  assumes "tracks owns holds c st M" and "holds c' (add_mset p M)" and "owns (tp_scope p)" and "permits_of M (tp_scope p) < 2 ^ 64 - 1"
  shows "tracks owns holds c' (observe_acquire st (tp_scope p)) (add_mset p M) \<and> untouched owns st (observe_acquire st (tp_scope p))"
proof -
  have "gauge st (tp_scope p) < 2 ^ 64 - 1" using assms(1,3,4) by (simp add: tracks_def)
  from gauge_acquire [OF this] show ?thesis using assms by (auto simp: tracks_def untouched_def)
qed

lemma tracks_reject:
  "tracks owns holds c st M \<Longrightarrow> holds c' M \<Longrightarrow> tracks owns holds c' (observe_reject st s) M \<and> untouched owns st (observe_reject st s)"
  by (simp add: tracks_def untouched_def gauge_reject)

lemma tracks_release:
  assumes "tracks owns holds c st (add_mset p M)" and "holds c' M" and "owns (tp_scope p)"
  shows "tracks owns holds c' (observe_release st (tp_scope p)) M \<and> untouched owns st (observe_release st (tp_scope p))"
  using assms by (auto simp: tracks_def untouched_def gauge_release)

primrec granted :: "'e + AdmissionPermit \<Rightarrow> TrackedPermit multiset" where
  "granted (Inl e) = {#}"
| "granted (Inr permits) = mset permits"

text \<open>A second stage after a first that took \<open>permits\<close>: a rejection drops them.\<close>

definition second_stage ::
    "('c \<times> OverloadStats \<Rightarrow> TrackedPermit \<Rightarrow> 'c \<times> OverloadStats) \<Rightarrow> AdmissionPermit \<Rightarrow>
     ('e + AdmissionPermit) \<times> 'c \<times> OverloadStats \<Rightarrow> ('e + AdmissionPermit) \<times> 'c \<times> OverloadStats" where
  "second_stage drop_permit permits r =
     (case r of
        (Inl e, c, st) \<Rightarrow> (Inl e, foldl drop_permit (c, st) permits)
      | (Inr others, c, st) \<Rightarrow> (Inr (permits @ others), c, st))"

lemma mset_left:
  "i < length held \<Longrightarrow> mset (concat held) = mset (held ! i) + mset (concat (take i held @ drop (Suc i) held))"
proof -
  assume "i < length held"
  then have "mset (concat held) = mset (concat (take i held @ held ! i # drop (Suc i) held))" by (simp only: id_take_nth_drop [symmetric])
  also have "\<dots> = mset (held ! i) + mset (concat (take i held @ drop (Suc i) held))" by (simp only: concat_append concat.simps mset_append ac_simps)
  finally show ?thesis .
qed

locale permit_owner =
  fixes owns :: "BudgetScope \<Rightarrow> bool"
    and holds :: "'c \<Rightarrow> TrackedPermit multiset \<Rightarrow> bool"
    and drop_permit :: "'c \<times> OverloadStats \<Rightarrow> TrackedPermit \<Rightarrow> 'c \<times> OverloadStats"
  assumes inv_owns: "holds c M \<Longrightarrow> p \<in># M \<Longrightarrow> owns (tp_scope p)"
    and drop_keeps: "tracks owns holds c st (add_mset p M) \<Longrightarrow> drop_permit (c, st) p = (c', st') \<Longrightarrow>
      tracks owns holds c' st' M \<and> untouched owns st st'"
begin

lemma leave_keeps:
  "tracks owns holds c st (mset permits + M) \<Longrightarrow> foldl drop_permit (c, st) permits = (c', st') \<Longrightarrow>
   tracks owns holds c' st' M \<and> untouched owns st st'"
proof (induction permits arbitrary: c st)
  case Nil
  then show ?case by simp
next
  case (Cons p permits)
  obtain c1 st1 where d: "drop_permit (c, st) p = (c1, st1)" by (cases "drop_permit (c, st) p")
  have "tracks owns holds c1 st1 (mset permits + M) \<and> untouched owns st st1"
    using drop_keeps [OF _ d] Cons.prems(1) by simp
  then show ?case using Cons.IH [of c1 st1] Cons.prems(2) d untouched_trans by auto
qed

lemma leave_nth_keeps:
  assumes "tracks owns holds c st (mset (concat held))" and "i < length held" and "foldl drop_permit (c, st) (held ! i) = (c', st')"
  shows "tracks owns holds c' st' (mset (concat (take i held @ drop (Suc i) held))) \<and> untouched owns st st'"
  using leave_keeps [OF _ assms(3)] assms(1) by (simp only: mset_left [OF assms(2)])

lemma second_stage_keeps:
  assumes t: "tracks owns holds c2 st2 (M + mset permits + granted r) \<and> untouched owns st1 st2" and u: "untouched owns st st1"
    and e: "second_stage drop_permit permits (r, c2, st2) = (res, c', st')"
  shows "tracks owns holds c' st' (M + granted res) \<and> untouched owns st st'"
proof (cases r)
  case (Inl x)
  then have "res = Inl x" "foldl drop_permit (c2, st2) permits = (c', st')" using e by (simp_all add: second_stage_def)
  then show ?thesis using leave_keeps [of c2 st2 permits M c' st'] t u untouched_trans Inl by (auto simp: add.commute)
next
  case (Inr others)
  then show ?thesis using e t u untouched_trans by (auto simp: second_stage_def add.assoc)
qed

lemma gauge_foreign: "tracks owns holds c st M \<Longrightarrow> \<not> owns s \<Longrightarrow> permits_of M s = 0"
  using inv_owns by (auto simp: tracks_def intro: permits_of_zero)

end

locale admission = permit_owner owns holds drop_permit
  for owns :: "BudgetScope \<Rightarrow> bool"
    and holds :: "'c \<Rightarrow> TrackedPermit multiset \<Rightarrow> bool"
    and drop_permit :: "'c \<times> OverloadStats \<Rightarrow> TrackedPermit \<Rightarrow> 'c \<times> OverloadStats" +
  fixes try_enter :: "'c \<Rightarrow> OverloadStats \<Rightarrow> 'r \<Rightarrow> ('e + AdmissionPermit) \<times> 'c \<times> OverloadStats"
  assumes enter_keeps: "tracks owns holds c st M \<Longrightarrow> try_enter c st r = (res, c', st') \<Longrightarrow>
      tracks owns holds c' st' (M + granted res) \<and> untouched owns st st'"
begin

text \<open>A rejected request leaves every gauge as it was.\<close>

lemma rejected_keeps_gauges:
  assumes "tracks owns holds c st M" and "try_enter c st r = (Inl e, c', st')"
  shows "gauge st' = gauge st"
proof (rule ext)
  fix s
  show "gauge st' s = gauge st s"
    using enter_keeps [OF assms] assms(1) by (cases "owns s") (simp_all add: tracks_def untouched_def)
qed

text \<open>A request that is admitted and leaves again leaves every gauge as it was.\<close>

lemma enter_leave_keeps_gauges:
  assumes t: "tracks owns holds c st M" and e: "try_enter c st r = (Inr permits, c1, st1)"
    and l: "foldl drop_permit (c1, st1) permits = (c', st')"
  shows "gauge st' = gauge st"
proof (rule ext)
  fix s
  have "tracks owns holds c1 st1 (mset permits + M) \<and> untouched owns st st1" using enter_keeps [OF t e] by (simp add: add.commute)
  then have "tracks owns holds c' st' M \<and> untouched owns st st'" using leave_keeps [OF _ l] untouched_trans by blast
  then show "gauge st' s = gauge st s" using t by (cases "owns s") (simp_all add: tracks_def untouched_def)
qed

end

section \<open>The three controllers keep it\<close>

text \<open>The largest number of permits the semaphore of the library takes, \<open>usize::MAX >> 3\<close>.\<close>

definition max_permits :: nat where
  "max_permits = 2 ^ 61 - 1"

fun http_scope :: "BudgetScope \<Rightarrow> bool" where
  "http_scope HttpGlobal = True"
| "http_scope (HttpListener _) = True"
| "http_scope (HttpRoute _) = True"
| "http_scope _ = False"

fun tcp_scope :: "BudgetScope \<Rightarrow> bool" where
  "tcp_scope TcpGlobal = True"
| "tcp_scope (TcpListener _) = True"
| "tcp_scope _ = False"

fun udp_scope :: "BudgetScope \<Rightarrow> bool" where
  "udp_scope UdpGlobal = True"
| "udp_scope (UdpListener _) = True"
| "udp_scope _ = False"

definition http_inv :: "'s SemaphoreLib \<Rightarrow> HttpAdmissionOptions \<Rightarrow> 's HttpAdmissionController \<Rightarrow> TrackedPermit multiset \<Rightarrow> bool" where
  "http_inv lib opts c M \<longleftrightarrow>
     semaphore_laws lib
     \<and> ho_global_inflight_limit opts \<le> max_permits \<and> ho_listener_inflight_limit opts \<le> max_permits \<and> ho_route_inflight_limit opts \<le> max_permits
     \<and> ha_listener_limit c = ho_listener_inflight_limit opts \<and> ha_route_limit c = ho_route_inflight_limit opts
     \<and> global_pool lib (ho_global_inflight_limit opts) (ha_global c) M HttpGlobal
     \<and> keyed_pool lib (ho_listener_inflight_limit opts) (ha_listeners c) M HttpListener
     \<and> keyed_pool lib (ho_route_inflight_limit opts) (ha_routes c) M HttpRoute
     \<and> (\<forall>p. p \<in># M \<longrightarrow> http_scope (tp_scope p))"

definition tcp_inv :: "'s SemaphoreLib \<Rightarrow> TcpAdmissionOptions \<Rightarrow> 's TcpAdmissionController \<Rightarrow> TrackedPermit multiset \<Rightarrow> bool" where
  "tcp_inv lib opts c M \<longleftrightarrow>
     semaphore_laws lib \<and> to_global_connection_limit opts \<le> max_permits \<and> to_listener_connection_limit opts \<le> max_permits
     \<and> ta_listener_limit c = to_listener_connection_limit opts
     \<and> global_pool lib (to_global_connection_limit opts) (ta_global c) M TcpGlobal
     \<and> keyed_pool lib (to_listener_connection_limit opts) (ta_listeners c) M TcpListener
     \<and> (\<forall>p. p \<in># M \<longrightarrow> tcp_scope (tp_scope p))"

definition udp_inv :: "'s SemaphoreLib \<Rightarrow> UdpAdmissionOptions \<Rightarrow> 's UdpAdmissionController \<Rightarrow> TrackedPermit multiset \<Rightarrow> bool" where
  "udp_inv lib opts c M \<longleftrightarrow>
     semaphore_laws lib \<and> uo_global_datagram_limit opts \<le> max_permits \<and> uo_listener_datagram_limit opts \<le> max_permits
     \<and> ua_listener_limit c = uo_listener_datagram_limit opts
     \<and> global_pool lib (uo_global_datagram_limit opts) (ua_global c) M UdpGlobal
     \<and> keyed_pool lib (uo_listener_datagram_limit opts) (ua_listeners c) M UdpListener
     \<and> (\<forall>p. p \<in># M \<longrightarrow> udp_scope (tp_scope p))"

text \<open>One stage of an admission, on the state \<open>c'\<close> of the controller that has the new pool.\<close>

lemma global_stage:
  assumes t: "tracks owns holds c st M" and laws: "semaphore_laws lib" and pool: "global_pool lib limit g M scope"
    and max: "limit \<le> max_permits" and own: "owns scope"
    and e: "try_acquire_scope lib g st scope rejection = (res, g', st')"
    and same: "g' = g \<Longrightarrow> holds c' M"
    and more: "\<And>p. tp_scope p = scope \<Longrightarrow> global_pool lib limit g' (add_mset p M) scope \<Longrightarrow> holds c' (add_mset p M)"
  shows "tracks owns holds c' st' (M + granted (map_sum (\<lambda>e. e) option_list res)) \<and> untouched owns st st'"
  using laws pool e
proof (cases rule: try_acquire_scope_pool)
  case none
  then show ?thesis using t same by (simp add: tracks_def)
next
  case reject
  then show ?thesis using tracks_reject [OF t same] by simp
next
  case (some p)
  have "permits_of M (tp_scope p) < 2 ^ 64 - 1" using some max by (simp add: max_permits_def)
  then show ?thesis using tracks_acquire [OF t more, of p] some own by simp
qed

lemma keyed_stage:
  assumes t: "tracks owns holds c st M" and laws: "semaphore_laws lib" and pool: "keyed_pool lib limit m M builder"
    and max: "limit \<le> max_permits" and own: "\<And>k. owns (builder k)" and inj: "\<And>k k'. builder k = builder k' \<longleftrightarrow> k = k'"
    and e: "try_acquire_keyed_scope lib m limit key st builder rejection = (res, m', st')"
    and same: "keyed_pool lib limit m' M builder \<Longrightarrow> holds c' M"
    and more: "\<And>p k. tp_scope p = builder k \<Longrightarrow> keyed_pool lib limit m' (add_mset p M) builder \<Longrightarrow> holds c' (add_mset p M)"
  shows "tracks owns holds c' st' (M + granted (map_sum (\<lambda>e. e) option_list res)) \<and> untouched owns st st'"
  using laws pool inj e
proof (cases rule: try_acquire_keyed_pool)
  case none
  then show ?thesis using t same pool by (simp add: tracks_def)
next
  case reject
  then show ?thesis using tracks_reject [OF t same] by simp
next
  case (some p)
  have "permits_of M (tp_scope p) < 2 ^ 64 - 1" using some max by (simp add: max_permits_def)
  then show ?thesis using tracks_acquire [OF t more, of p] some own by simp
qed

lemma global_drop_stage:
  assumes t: "tracks owns holds c st (add_mset p M)" and laws: "semaphore_laws lib"
    and pool: "global_pool lib limit g (add_mset p M) scope" and scope: "tp_scope p = scope" and own: "owns scope"
    and e: "scope_drop lib g st p = (g', st')" and less: "global_pool lib limit g' M scope \<Longrightarrow> holds c' M"
  shows "tracks owns holds c' st' M \<and> untouched owns st st'"
  using scope_drop_pool [OF laws pool [folded scope] e] tracks_release [OF t less] own by (simp add: scope)

lemma keyed_drop_stage:
  assumes t: "tracks owns holds c st (add_mset p M)" and laws: "semaphore_laws lib"
    and pool: "keyed_pool lib limit m (add_mset p M) builder" and inj: "\<And>k k'. builder k = builder k' \<longleftrightarrow> k = k'"
    and scope: "tp_scope p = builder key" and own: "\<And>k. owns (builder k)"
    and e: "keyed_scope_drop lib m st p = (m', st')" and less: "keyed_pool lib limit m' M builder \<Longrightarrow> holds c' M"
  shows "tracks owns holds c' st' M \<and> untouched owns st st'"
  using keyed_scope_drop_pool [OF laws pool inj scope e] tracks_release [OF t less] own by (simp add: scope)

subsection \<open>HTTP\<close>

interpretation http_permits: permit_owner http_scope "http_inv lib opts" "http_drop_permit lib"
  for lib :: "'s SemaphoreLib" and opts
proof unfold_locales
  show "http_scope (tp_scope p)" if "http_inv lib opts c M" "p \<in># M" for c M p using that by (simp add: http_inv_def)
  fix c st p M c' st'
  assume t: "tracks http_scope (http_inv lib opts) c st (add_mset p M)" and d: "http_drop_permit lib (c, st) p = (c', st')"
  have i: "http_inv lib opts c (add_mset p M)" using t by (simp add: tracks_def)
  then have laws: "semaphore_laws lib" and own: "http_scope (tp_scope p)"
    and pools: "global_pool lib (ho_global_inflight_limit opts) (ha_global c) (add_mset p M) HttpGlobal"
      "keyed_pool lib (ho_listener_inflight_limit opts) (ha_listeners c) (add_mset p M) HttpListener"
      "keyed_pool lib (ho_route_inflight_limit opts) (ha_routes c) (add_mset p M) HttpRoute" by (simp_all add: http_inv_def)
  show "tracks http_scope (http_inv lib opts) c' st' M \<and> untouched http_scope st st'"
  proof (cases "tp_scope p")
    case HttpGlobal
    obtain g where g: "scope_drop lib (ha_global c) st p = (g, st')" "c' = c\<lparr> ha_global := g \<rparr>"
      using d HttpGlobal by (auto simp: http_drop_permit_def split: prod.splits)
    show ?thesis by (rule global_drop_stage [OF t laws pools(1) HttpGlobal _ g(1)]) (use i HttpGlobal in \<open>simp_all add: http_inv_def g(2)\<close>)
  next
    case (HttpListener l)
    obtain m where m: "keyed_scope_drop lib (ha_listeners c) st p = (m, st')" "c' = c\<lparr> ha_listeners := m \<rparr>"
      using d HttpListener by (auto simp: http_drop_permit_def split: prod.splits)
    show ?thesis by (rule keyed_drop_stage [OF t laws pools(2) _ HttpListener _ m(1)]) (use i HttpListener in \<open>simp_all add: http_inv_def m(2)\<close>)
  next
    case (HttpRoute l)
    obtain m where m: "keyed_scope_drop lib (ha_routes c) st p = (m, st')" "c' = c\<lparr> ha_routes := m \<rparr>"
      using d HttpRoute by (auto simp: http_drop_permit_def split: prod.splits)
    show ?thesis by (rule keyed_drop_stage [OF t laws pools(3) _ HttpRoute _ m(1)]) (use i HttpRoute in \<open>simp_all add: http_inv_def m(2)\<close>)
  qed (use own in simp_all)
qed

lemma http_listener_keeps:
  assumes t: "tracks http_scope (http_inv lib opts) c st M" and e: "http_try_acquire_listener lib c st l = (res, c', st')"
  shows "tracks http_scope (http_inv lib opts) c' st' (M + granted res) \<and> untouched http_scope st st'"
proof -
  have i: "http_inv lib opts c M" using t by (simp add: tracks_def)
  have laws: "semaphore_laws lib" using i by (simp add: http_inv_def)
  obtain r1 g st1 where s1: "try_acquire_scope lib (ha_global c) st HttpGlobal GlobalInflight = (r1, g, st1)"
    by (cases "try_acquire_scope lib (ha_global c) st HttpGlobal GlobalInflight")
  let ?c1 = "c\<lparr> ha_global := g \<rparr>"
  have t1: "tracks http_scope (http_inv lib opts) ?c1 st1 (M + granted (map_sum (\<lambda>e. e) option_list r1)) \<and> untouched http_scope st st1"
    by (rule global_stage [OF t laws _ _ _ s1, where limit = "ho_global_inflight_limit opts"]) (use i in \<open>simp_all add: http_inv_def\<close>)
  show ?thesis
  proof (cases r1)
    case (Inl x)
    then show ?thesis using e t1 s1 by (simp add: http_try_acquire_listener_def)
  next
    case (Inr first)
    let ?M1 = "M + mset (option_list first)"
    have t1': "tracks http_scope (http_inv lib opts) ?c1 st1 ?M1" using t1 Inr by simp
    then have i1: "http_inv lib opts ?c1 ?M1" by (simp add: tracks_def)
    obtain r2 m st2 where s2: "try_acquire_keyed_scope lib (ha_listeners c) (ha_listener_limit c) l st1 HttpListener ListenerInflight = (r2, m, st2)"
      by (cases "try_acquire_keyed_scope lib (ha_listeners c) (ha_listener_limit c) l st1 HttpListener ListenerInflight")
    let ?c2 = "?c1\<lparr> ha_listeners := m \<rparr>"
    have t2: "tracks http_scope (http_inv lib opts) ?c2 st2 (?M1 + granted (map_sum (\<lambda>e. e) option_list r2)) \<and> untouched http_scope st1 st2"
      by (rule keyed_stage [OF t1' laws _ _ _ _ s2]) (use i1 in \<open>simp_all add: http_inv_def\<close>)
    have "second_stage (http_drop_permit lib) (option_list first) (map_sum (\<lambda>e. e) option_list r2, ?c2, st2) = (res, c', st')"
      using e s1 s2 Inr by (cases r2) (auto simp: http_try_acquire_listener_def second_stage_def)
    then show ?thesis by (rule http_permits.second_stage_keeps [OF t2 conjunct2 [OF t1]])
  qed
qed

lemma http_route_keeps:
  assumes t: "tracks http_scope (http_inv lib opts) c st M" and e: "http_try_acquire_route lib c st r = (res, c', st')"
  shows "tracks http_scope (http_inv lib opts) c' st' (M + granted res) \<and> untouched http_scope st st'"
proof -
  have i: "http_inv lib opts c M" using t by (simp add: tracks_def)
  have laws: "semaphore_laws lib" using i by (simp add: http_inv_def)
  obtain r2 m st2 where s2: "try_acquire_keyed_scope lib (ha_routes c) (ha_route_limit c) r st HttpRoute RouteInflight = (r2, m, st2)"
    by (cases "try_acquire_keyed_scope lib (ha_routes c) (ha_route_limit c) r st HttpRoute RouteInflight")
  have "tracks http_scope (http_inv lib opts) (c\<lparr> ha_routes := m \<rparr>) st2 (M + granted (map_sum (\<lambda>e. e) option_list r2)) \<and> untouched http_scope st st2"
    by (rule keyed_stage [OF t laws _ _ _ _ s2]) (use i in \<open>simp_all add: http_inv_def\<close>)
  moreover have "res = map_sum (\<lambda>e. e) option_list r2 \<and> c' = c\<lparr> ha_routes := m \<rparr> \<and> st' = st2"
    using e s2 by (cases r2) (auto simp: http_try_acquire_route_def)
  ultimately show ?thesis by simp
qed

interpretation http: admission http_scope "http_inv lib opts" "http_drop_permit lib" "http_try_acquire lib"
  for lib :: "'s SemaphoreLib" and opts
proof unfold_locales
  fix c st M lr res c' st'
  assume t: "tracks http_scope (http_inv lib opts) c st M" and e: "http_try_acquire lib c st lr = (res, c', st')"
  obtain r1 c1 st1 where s1: "http_try_acquire_listener lib c st (fst lr) = (r1, c1, st1)" by (metis prod_cases3)
  note t1 = http_listener_keeps [OF t s1]
  show "tracks http_scope (http_inv lib opts) c' st' (M + granted res) \<and> untouched http_scope st st'"
  proof (cases r1)
    case (Inl x)
    then show ?thesis using e t1 s1 by (auto simp: http_try_acquire_def split: prod.splits)
  next
    case (Inr permit)
    obtain r2 c2 st2 where s2: "http_try_acquire_route lib c1 st1 (snd lr) = (r2, c2, st2)" by (metis prod_cases3)
    have t1': "tracks http_scope (http_inv lib opts) c1 st1 (M + mset permit)" using t1 Inr by simp
    have "second_stage (http_drop_permit lib) permit (r2, c2, st2) = (res, c', st')"
      using e s1 s2 Inr by (cases lr; cases r2) (auto simp: http_try_acquire_def second_stage_def)
    then show ?thesis by (rule http_permits.second_stage_keeps [OF http_route_keeps [OF t1' s2] conjunct2 [OF t1]])
  qed
qed

subsection \<open>TCP\<close>

interpretation tcp_permits: permit_owner tcp_scope "tcp_inv lib opts" "tcp_drop_permit lib"
  for lib :: "'s SemaphoreLib" and opts
proof unfold_locales
  show "tcp_scope (tp_scope p)" if "tcp_inv lib opts c M" "p \<in># M" for c M p using that by (simp add: tcp_inv_def)
  fix c st p M c' st'
  assume t: "tracks tcp_scope (tcp_inv lib opts) c st (add_mset p M)" and d: "tcp_drop_permit lib (c, st) p = (c', st')"
  have i: "tcp_inv lib opts c (add_mset p M)" using t by (simp add: tracks_def)
  then have laws: "semaphore_laws lib" and own: "tcp_scope (tp_scope p)"
    and pools: "global_pool lib (to_global_connection_limit opts) (ta_global c) (add_mset p M) TcpGlobal"
      "keyed_pool lib (to_listener_connection_limit opts) (ta_listeners c) (add_mset p M) TcpListener" by (simp_all add: tcp_inv_def)
  show "tracks tcp_scope (tcp_inv lib opts) c' st' M \<and> untouched tcp_scope st st'"
  proof (cases "tp_scope p")
    case TcpGlobal
    obtain g where g: "scope_drop lib (ta_global c) st p = (g, st')" "c' = c\<lparr> ta_global := g \<rparr>"
      using d TcpGlobal by (auto simp: tcp_drop_permit_def split: prod.splits)
    show ?thesis by (rule global_drop_stage [OF t laws pools(1) TcpGlobal _ g(1)]) (use i TcpGlobal in \<open>simp_all add: tcp_inv_def g(2)\<close>)
  next
    case (TcpListener l)
    obtain m where m: "keyed_scope_drop lib (ta_listeners c) st p = (m, st')" "c' = c\<lparr> ta_listeners := m \<rparr>"
      using d TcpListener by (auto simp: tcp_drop_permit_def split: prod.splits)
    show ?thesis by (rule keyed_drop_stage [OF t laws pools(2) _ TcpListener _ m(1)]) (use i TcpListener in \<open>simp_all add: tcp_inv_def m(2)\<close>)
  qed (use own in simp_all)
qed

interpretation tcp: admission tcp_scope "tcp_inv lib opts" "tcp_drop_permit lib" "tcp_try_acquire lib"
  for lib :: "'s SemaphoreLib" and opts
proof unfold_locales
  fix c st M l res c' st'
  assume t: "tracks tcp_scope (tcp_inv lib opts) c st M" and e: "tcp_try_acquire lib c st l = (res, c', st')"
  have i: "tcp_inv lib opts c M" using t by (simp add: tracks_def)
  have laws: "semaphore_laws lib" using i by (simp add: tcp_inv_def)
  obtain r1 g st1 where s1: "try_acquire_scope lib (ta_global c) st TcpGlobal GlobalConnection = (r1, g, st1)" by (metis prod_cases3)
  let ?c1 = "c\<lparr> ta_global := g \<rparr>"
  have t1: "tracks tcp_scope (tcp_inv lib opts) ?c1 st1 (M + granted (map_sum (\<lambda>e. e) option_list r1)) \<and> untouched tcp_scope st st1"
    by (rule global_stage [OF t laws _ _ _ s1, where limit = "to_global_connection_limit opts"]) (use i in \<open>simp_all add: tcp_inv_def\<close>)
  show "tracks tcp_scope (tcp_inv lib opts) c' st' (M + granted res) \<and> untouched tcp_scope st st'"
  proof (cases r1)
    case (Inl x)
    then show ?thesis using e t1 s1 by (simp add: tcp_try_acquire_def)
  next
    case (Inr first)
    let ?M1 = "M + mset (option_list first)"
    have t1': "tracks tcp_scope (tcp_inv lib opts) ?c1 st1 ?M1" using t1 Inr by simp
    then have i1: "tcp_inv lib opts ?c1 ?M1" by (simp add: tracks_def)
    obtain r2 m st2 where s2: "try_acquire_keyed_scope lib (ta_listeners c) (ta_listener_limit c) l st1 TcpListener ListenerConnection = (r2, m, st2)"
      by (metis prod_cases3)
    let ?c2 = "?c1\<lparr> ta_listeners := m \<rparr>"
    have t2: "tracks tcp_scope (tcp_inv lib opts) ?c2 st2 (?M1 + granted (map_sum (\<lambda>e. e) option_list r2)) \<and> untouched tcp_scope st1 st2"
      by (rule keyed_stage [OF t1' laws _ _ _ _ s2]) (use i1 in \<open>simp_all add: tcp_inv_def\<close>)
    have "second_stage (tcp_drop_permit lib) (option_list first) (map_sum (\<lambda>e. e) option_list r2, ?c2, st2) = (res, c', st')"
      using e s1 s2 Inr by (cases r2) (auto simp: tcp_try_acquire_def second_stage_def)
    then show ?thesis by (rule tcp_permits.second_stage_keeps [OF t2 conjunct2 [OF t1]])
  qed
qed

subsection \<open>UDP\<close>

interpretation udp_permits: permit_owner udp_scope "udp_inv lib opts" "udp_drop_permit lib"
  for lib :: "'s SemaphoreLib" and opts
proof unfold_locales
  show "udp_scope (tp_scope p)" if "udp_inv lib opts c M" "p \<in># M" for c M p using that by (simp add: udp_inv_def)
  fix c st p M c' st'
  assume t: "tracks udp_scope (udp_inv lib opts) c st (add_mset p M)" and d: "udp_drop_permit lib (c, st) p = (c', st')"
  have i: "udp_inv lib opts c (add_mset p M)" using t by (simp add: tracks_def)
  then have laws: "semaphore_laws lib" and own: "udp_scope (tp_scope p)"
    and pools: "global_pool lib (uo_global_datagram_limit opts) (ua_global c) (add_mset p M) UdpGlobal"
      "keyed_pool lib (uo_listener_datagram_limit opts) (ua_listeners c) (add_mset p M) UdpListener" by (simp_all add: udp_inv_def)
  show "tracks udp_scope (udp_inv lib opts) c' st' M \<and> untouched udp_scope st st'"
  proof (cases "tp_scope p")
    case UdpGlobal
    obtain g where g: "scope_drop lib (ua_global c) st p = (g, st')" "c' = c\<lparr> ua_global := g \<rparr>"
      using d UdpGlobal by (auto simp: udp_drop_permit_def split: prod.splits)
    show ?thesis by (rule global_drop_stage [OF t laws pools(1) UdpGlobal _ g(1)]) (use i UdpGlobal in \<open>simp_all add: udp_inv_def g(2)\<close>)
  next
    case (UdpListener l)
    obtain m where m: "keyed_scope_drop lib (ua_listeners c) st p = (m, st')" "c' = c\<lparr> ua_listeners := m \<rparr>"
      using d UdpListener by (auto simp: udp_drop_permit_def split: prod.splits)
    show ?thesis by (rule keyed_drop_stage [OF t laws pools(2) _ UdpListener _ m(1)]) (use i UdpListener in \<open>simp_all add: udp_inv_def m(2)\<close>)
  qed (use own in simp_all)
qed

interpretation udp: admission udp_scope "udp_inv lib opts" "udp_drop_permit lib" "udp_try_acquire lib"
  for lib :: "'s SemaphoreLib" and opts
proof unfold_locales
  fix c st M l res c' st'
  assume t: "tracks udp_scope (udp_inv lib opts) c st M" and e: "udp_try_acquire lib c st l = (res, c', st')"
  have i: "udp_inv lib opts c M" using t by (simp add: tracks_def)
  have laws: "semaphore_laws lib" using i by (simp add: udp_inv_def)
  obtain r1 g st1 where s1: "try_acquire_scope lib (ua_global c) st UdpGlobal GlobalDatagram = (r1, g, st1)" by (metis prod_cases3)
  let ?c1 = "c\<lparr> ua_global := g \<rparr>"
  have t1: "tracks udp_scope (udp_inv lib opts) ?c1 st1 (M + granted (map_sum (\<lambda>e. e) option_list r1)) \<and> untouched udp_scope st st1"
    by (rule global_stage [OF t laws _ _ _ s1, where limit = "uo_global_datagram_limit opts"]) (use i in \<open>simp_all add: udp_inv_def\<close>)
  show "tracks udp_scope (udp_inv lib opts) c' st' (M + granted res) \<and> untouched udp_scope st st'"
  proof (cases r1)
    case (Inl x)
    then show ?thesis using e t1 s1 by (simp add: udp_try_acquire_def)
  next
    case (Inr first)
    let ?M1 = "M + mset (option_list first)"
    have t1': "tracks udp_scope (udp_inv lib opts) ?c1 st1 ?M1" using t1 Inr by simp
    then have i1: "udp_inv lib opts ?c1 ?M1" by (simp add: tracks_def)
    obtain r2 m st2 where s2: "try_acquire_keyed_scope lib (ua_listeners c) (ua_listener_limit c) l st1 UdpListener ListenerDatagram = (r2, m, st2)"
      by (metis prod_cases3)
    let ?c2 = "?c1\<lparr> ua_listeners := m \<rparr>"
    have t2: "tracks udp_scope (udp_inv lib opts) ?c2 st2 (?M1 + granted (map_sum (\<lambda>e. e) option_list r2)) \<and> untouched udp_scope st1 st2"
      by (rule keyed_stage [OF t1' laws _ _ _ _ s2]) (use i1 in \<open>simp_all add: udp_inv_def\<close>)
    have "second_stage (udp_drop_permit lib) (option_list first) (map_sum (\<lambda>e. e) option_list r2, ?c2, st2) = (res, c', st')"
      using e s1 s2 Inr by (cases r2) (auto simp: udp_try_acquire_def second_stage_def)
    then show ?thesis by (rule udp_permits.second_stage_keeps [OF t2 conjunct2 [OF t1]])
  qed
qed

end
