(* ===== verification/Admission_History.thy ===== *)
theory Admission_History
  imports Overload
begin

text \<open>
  Histories of the three admission controllers over their shared statistics, and what holds of them:
  the gauges count the budgets held and stay within the limits.
\<close>

section \<open>The three together\<close>

text \<open>
  The process has one controller of each kind over the same statistics. A history is a sequence of
  requests, connections and datagrams that ask to enter, and of those admitted that leave. The proxy may ask for a request in two
  steps, for its listener and later for its route, and then merges the second permit into the first.
\<close>

record 's AdmissionSystem =
  sy_http :: "'s HttpAdmissionController"
  sy_tcp :: "'s TcpAdmissionController"
  sy_udp :: "'s UdpAdmissionController"
  sy_stats :: OverloadStats
  sy_http_held :: "AdmissionPermit list"
  sy_tcp_held :: "AdmissionPermit list"
  sy_udp_held :: "AdmissionPermit list"

definition admission_new ::
    "'s SemaphoreLib \<Rightarrow> HttpAdmissionOptions \<Rightarrow> TcpAdmissionOptions \<Rightarrow> UdpAdmissionOptions \<Rightarrow> 's AdmissionSystem" where
  "admission_new lib hopts topts uopts = \<lparr>
     sy_http = http_admission_new lib hopts, sy_tcp = tcp_admission_new lib topts, sy_udp = udp_admission_new lib uopts,
     sy_stats = OverloadStats_default, sy_http_held = [], sy_tcp_held = [], sy_udp_held = [] \<rparr>"

datatype AdmissionEvent =
    HttpEnter string string | HttpEnterListener string | HttpEnterRoute string | HttpMerge nat | TcpEnter string | UdpEnter string
  | HttpLeave nat | TcpLeave nat | UdpLeave nat

primrec admitted :: "'e + AdmissionPermit \<Rightarrow> AdmissionPermit list" where
  "admitted (Inl e) = []"
| "admitted (Inr permit) = [permit]"

definition permit_merge :: "AdmissionPermit \<Rightarrow> AdmissionPermit \<Rightarrow> AdmissionPermit" where
  "permit_merge permit other = permit @ other"

fun admission_event :: "'s SemaphoreLib \<Rightarrow> 's AdmissionSystem \<Rightarrow> AdmissionEvent \<Rightarrow> 's AdmissionSystem" where
  "admission_event lib s (HttpEnter listener route) =
     (case http_try_acquire lib (sy_http s) (sy_stats s) (listener, route) of
        (res, c, st) \<Rightarrow> s\<lparr> sy_http := c, sy_stats := st, sy_http_held := sy_http_held s @ admitted res \<rparr>)"
| "admission_event lib s (HttpEnterListener listener) =
     (case http_try_acquire_listener lib (sy_http s) (sy_stats s) listener of
        (res, c, st) \<Rightarrow> s\<lparr> sy_http := c, sy_stats := st, sy_http_held := sy_http_held s @ admitted res \<rparr>)"
| "admission_event lib s (HttpEnterRoute route) =
     (case http_try_acquire_route lib (sy_http s) (sy_stats s) route of
        (res, c, st) \<Rightarrow> s\<lparr> sy_http := c, sy_stats := st, sy_http_held := sy_http_held s @ admitted res \<rparr>)"
| "admission_event lib s (HttpMerge i) =
     (if Suc i < length (sy_http_held s)
      then s\<lparr> sy_http_held := (butlast (sy_http_held s))[i := permit_merge (sy_http_held s ! i) (last (sy_http_held s))] \<rparr>
      else s)"
| "admission_event lib s (TcpEnter listener) =
     (case tcp_try_acquire lib (sy_tcp s) (sy_stats s) listener of
        (res, c, st) \<Rightarrow> s\<lparr> sy_tcp := c, sy_stats := st, sy_tcp_held := sy_tcp_held s @ admitted res \<rparr>)"
| "admission_event lib s (UdpEnter listener) =
     (case udp_try_acquire lib (sy_udp s) (sy_stats s) listener of
        (res, c, st) \<Rightarrow> s\<lparr> sy_udp := c, sy_stats := st, sy_udp_held := sy_udp_held s @ admitted res \<rparr>)"
| "admission_event lib s (HttpLeave i) =
     (if i < length (sy_http_held s)
      then case foldl (http_drop_permit lib) (sy_http s, sy_stats s) (sy_http_held s ! i) of
        (c, st) \<Rightarrow> s\<lparr> sy_http := c, sy_stats := st, sy_http_held := take i (sy_http_held s) @ drop (Suc i) (sy_http_held s) \<rparr>
      else s)"
| "admission_event lib s (TcpLeave i) =
     (if i < length (sy_tcp_held s)
      then case foldl (tcp_drop_permit lib) (sy_tcp s, sy_stats s) (sy_tcp_held s ! i) of
        (c, st) \<Rightarrow> s\<lparr> sy_tcp := c, sy_stats := st, sy_tcp_held := take i (sy_tcp_held s) @ drop (Suc i) (sy_tcp_held s) \<rparr>
      else s)"
| "admission_event lib s (UdpLeave i) =
     (if i < length (sy_udp_held s)
      then case foldl (udp_drop_permit lib) (sy_udp s, sy_stats s) (sy_udp_held s ! i) of
        (c, st) \<Rightarrow> s\<lparr> sy_udp := c, sy_stats := st, sy_udp_held := take i (sy_udp_held s) @ drop (Suc i) (sy_udp_held s) \<rparr>
      else s)"

definition admission_inv ::
    "'s SemaphoreLib \<Rightarrow> HttpAdmissionOptions \<Rightarrow> TcpAdmissionOptions \<Rightarrow> UdpAdmissionOptions \<Rightarrow> 's AdmissionSystem \<Rightarrow> bool" where
  "admission_inv lib hopts topts uopts s \<longleftrightarrow>
     tracks http_scope (http_inv lib hopts) (sy_http s) (sy_stats s) (mset (concat (sy_http_held s)))
     \<and> tracks tcp_scope (tcp_inv lib topts) (sy_tcp s) (sy_stats s) (mset (concat (sy_tcp_held s)))
     \<and> tracks udp_scope (udp_inv lib uopts) (sy_udp s) (sy_stats s) (mset (concat (sy_udp_held s)))"

lemma mset_admitted: "mset (concat (held @ admitted res)) = mset (concat held) + granted res"
  by (cases res) simp_all

lemma mset_merged:
  assumes "Suc i < length held"
  shows "mset (concat ((butlast held)[i := permit_merge (held ! i) (last held)])) = mset (concat held)"
proof -
  obtain xs l where h: "held = xs @ [l]" using assms by (cases held rule: rev_cases) auto
  then have i: "i < length xs" using assms by simp
  then have "mset (concat xs) = mset (concat (take i xs)) + mset (xs ! i) + mset (concat (drop (Suc i) xs))"
    by (subst id_take_nth_drop [OF i]) simp
  then show ?thesis using i by (simp add: h nth_append upd_conv_take_nth_drop permit_merge_def)
qed

lemma scopes_disjoint:
  "http_scope s \<Longrightarrow> \<not> tcp_scope s" "http_scope s \<Longrightarrow> \<not> udp_scope s" "tcp_scope s \<Longrightarrow> \<not> http_scope s"
  "tcp_scope s \<Longrightarrow> \<not> udp_scope s" "udp_scope s \<Longrightarrow> \<not> http_scope s" "udp_scope s \<Longrightarrow> \<not> tcp_scope s"
  by (cases s; simp)+

lemma tracks_untouched:
  "tracks owns holds c st M \<Longrightarrow> untouched other st st' \<Longrightarrow> (\<And>s. owns s \<Longrightarrow> \<not> other s) \<Longrightarrow> tracks owns holds c st' M"
  by (simp add: tracks_def untouched_def)

lemma admission_event_keeps:
  assumes inv: "admission_inv lib hopts topts uopts s"
  shows "admission_inv lib hopts topts uopts (admission_event lib s e)"
proof -
  have h: "tracks http_scope (http_inv lib hopts) (sy_http s) (sy_stats s) (mset (concat (sy_http_held s)))"
    and t: "tracks tcp_scope (tcp_inv lib topts) (sy_tcp s) (sy_stats s) (mset (concat (sy_tcp_held s)))"
    and u: "tracks udp_scope (udp_inv lib uopts) (sy_udp s) (sy_stats s) (mset (concat (sy_udp_held s)))"
    using inv by (simp_all add: admission_inv_def)
  show ?thesis
  proof (cases e)
    case (HttpEnter l r)
    obtain res c st where eq: "http_try_acquire lib (sy_http s) (sy_stats s) (l, r) = (res, c, st)" by (metis prod_cases3)
    note k = http.enter_keeps [OF h eq]
    show ?thesis using k tracks_untouched [OF t conjunct2 [OF k] scopes_disjoint(3)] tracks_untouched [OF u conjunct2 [OF k] scopes_disjoint(5)] eq HttpEnter
      by (simp add: admission_inv_def mset_admitted del: concat_append)
  next
    case (HttpEnterListener l)
    obtain res c st where eq: "http_try_acquire_listener lib (sy_http s) (sy_stats s) l = (res, c, st)" by (metis prod_cases3)
    note k = http_listener_keeps [OF h eq]
    show ?thesis using k tracks_untouched [OF t conjunct2 [OF k] scopes_disjoint(3)] tracks_untouched [OF u conjunct2 [OF k] scopes_disjoint(5)] eq HttpEnterListener
      by (simp add: admission_inv_def mset_admitted del: concat_append)
  next
    case (HttpEnterRoute r)
    obtain res c st where eq: "http_try_acquire_route lib (sy_http s) (sy_stats s) r = (res, c, st)" by (metis prod_cases3)
    note k = http_route_keeps [OF h eq]
    show ?thesis using k tracks_untouched [OF t conjunct2 [OF k] scopes_disjoint(3)] tracks_untouched [OF u conjunct2 [OF k] scopes_disjoint(5)] eq HttpEnterRoute
      by (simp add: admission_inv_def mset_admitted del: concat_append)
  next
    case (HttpMerge i)
    show ?thesis
    proof (cases "Suc i < length (sy_http_held s)")
      case True
      let ?s = "s\<lparr> sy_http_held := (butlast (sy_http_held s))[i := permit_merge (sy_http_held s ! i) (last (sy_http_held s))] \<rparr>"
      have "admission_event lib s e = ?s" using True HttpMerge by simp
      moreover have "admission_inv lib hopts topts uopts ?s"
        using h t u mset_merged [OF True] by (simp add: admission_inv_def)
      ultimately show ?thesis by (simp only:)
    qed (use inv HttpMerge in simp)
  next
    case (TcpEnter l)
    obtain res c st where eq: "tcp_try_acquire lib (sy_tcp s) (sy_stats s) l = (res, c, st)" by (metis prod_cases3)
    note k = tcp.enter_keeps [OF t eq]
    show ?thesis using k tracks_untouched [OF h conjunct2 [OF k] scopes_disjoint(1)] tracks_untouched [OF u conjunct2 [OF k] scopes_disjoint(6)] eq TcpEnter
      by (simp add: admission_inv_def mset_admitted del: concat_append)
  next
    case (UdpEnter l)
    obtain res c st where eq: "udp_try_acquire lib (sy_udp s) (sy_stats s) l = (res, c, st)" by (metis prod_cases3)
    note k = udp.enter_keeps [OF u eq]
    show ?thesis using k tracks_untouched [OF h conjunct2 [OF k] scopes_disjoint(2)] tracks_untouched [OF t conjunct2 [OF k] scopes_disjoint(4)] eq UdpEnter
      by (simp add: admission_inv_def mset_admitted del: concat_append)
  next
    case (HttpLeave i)
    obtain c st where eq: "foldl (http_drop_permit lib) (sy_http s, sy_stats s) (sy_http_held s ! i) = (c, st)" by (metis prod.exhaust)
    show ?thesis
    proof (cases "i < length (sy_http_held s)")
      case True
      note k = http_permits.leave_nth_keeps [OF h True eq]
      show ?thesis using k tracks_untouched [OF t conjunct2 [OF k] scopes_disjoint(3)] tracks_untouched [OF u conjunct2 [OF k] scopes_disjoint(5)] eq HttpLeave True
        by (simp add: admission_inv_def del: concat_append)
    qed (use inv HttpLeave in simp)
  next
    case (TcpLeave i)
    obtain c st where eq: "foldl (tcp_drop_permit lib) (sy_tcp s, sy_stats s) (sy_tcp_held s ! i) = (c, st)" by (metis prod.exhaust)
    show ?thesis
    proof (cases "i < length (sy_tcp_held s)")
      case True
      note k = tcp_permits.leave_nth_keeps [OF t True eq]
      show ?thesis using k tracks_untouched [OF h conjunct2 [OF k] scopes_disjoint(1)] tracks_untouched [OF u conjunct2 [OF k] scopes_disjoint(6)] eq TcpLeave True
        by (simp add: admission_inv_def del: concat_append)
    qed (use inv TcpLeave in simp)
  next
    case (UdpLeave i)
    obtain c st where eq: "foldl (udp_drop_permit lib) (sy_udp s, sy_stats s) (sy_udp_held s ! i) = (c, st)" by (metis prod.exhaust)
    show ?thesis
    proof (cases "i < length (sy_udp_held s)")
      case True
      note k = udp_permits.leave_nth_keeps [OF u True eq]
      show ?thesis using k tracks_untouched [OF h conjunct2 [OF k] scopes_disjoint(2)] tracks_untouched [OF t conjunct2 [OF k] scopes_disjoint(4)] eq UdpLeave True
        by (simp add: admission_inv_def del: concat_append)
    qed (use inv UdpLeave in simp)
  qed
qed

lemma admission_new_inv:
  assumes "semaphore_laws lib"
    and "ho_global_inflight_limit hopts \<le> max_permits" "ho_listener_inflight_limit hopts \<le> max_permits" "ho_route_inflight_limit hopts \<le> max_permits"
    and "to_global_connection_limit topts \<le> max_permits" "to_listener_connection_limit topts \<le> max_permits"
    and "uo_global_datagram_limit uopts \<le> max_permits" "uo_listener_datagram_limit uopts \<le> max_permits"
  shows "admission_inv lib hopts topts uopts (admission_new lib hopts topts uopts)"
  using assms by (simp add: admission_inv_def admission_new_def tracks_def http_inv_def tcp_inv_def udp_inv_def
      http_admission_new_def tcp_admission_new_def udp_admission_new_def global_pool_new keyed_pool_new)

lemma admission_run_inv:
  "admission_inv lib hopts topts uopts s \<Longrightarrow> admission_inv lib hopts topts uopts (foldl (admission_event lib) s es)"
  by (induction es arbitrary: s) (simp_all add: admission_event_keeps del: admission_event.simps)

text \<open>The limit of a scope and the permits that are out.\<close>

fun scope_limit :: "HttpAdmissionOptions \<Rightarrow> TcpAdmissionOptions \<Rightarrow> UdpAdmissionOptions \<Rightarrow> BudgetScope \<Rightarrow> nat" where
  "scope_limit hopts topts uopts HttpGlobal = ho_global_inflight_limit hopts"
| "scope_limit hopts topts uopts (HttpListener _) = ho_listener_inflight_limit hopts"
| "scope_limit hopts topts uopts (HttpRoute _) = ho_route_inflight_limit hopts"
| "scope_limit hopts topts uopts TcpGlobal = to_global_connection_limit topts"
| "scope_limit hopts topts uopts (TcpListener _) = to_listener_connection_limit topts"
| "scope_limit hopts topts uopts UdpGlobal = uo_global_datagram_limit uopts"
| "scope_limit hopts topts uopts (UdpListener _) = uo_listener_datagram_limit uopts"

definition permits_out :: "'s AdmissionSystem \<Rightarrow> BudgetScope \<Rightarrow> nat" where
  "permits_out s scope =
     length (filter (\<lambda>p. tp_scope p = scope) (concat (sy_http_held s @ sy_tcp_held s @ sy_udp_held s)))"

lemma permits_of_mset: "permits_of (mset ps) scope = length (filter (\<lambda>p. tp_scope p = scope) ps)"
  by (simp add: permits_of_def flip: mset_filter)

lemma http_inv_limit: "http_inv lib hopts c M \<Longrightarrow> http_scope scope \<Longrightarrow> permits_of M scope \<le> scope_limit hopts topts uopts scope"
  unfolding http_inv_def by (elim conjE, cases scope) (simp_all add: global_pool_bound [of lib _ "ha_global c"]
    keyed_pool_bound [of lib _ "ha_listeners c" _ HttpListener] keyed_pool_bound [of lib _ "ha_routes c" _ HttpRoute])

lemma tcp_inv_limit: "tcp_inv lib topts c M \<Longrightarrow> tcp_scope scope \<Longrightarrow> permits_of M scope \<le> scope_limit hopts topts uopts scope"
  unfolding tcp_inv_def by (elim conjE, cases scope) (simp_all add: global_pool_bound [of lib _ "ta_global c"]
    keyed_pool_bound [of lib _ "ta_listeners c" _ TcpListener])

lemma udp_inv_limit: "udp_inv lib uopts c M \<Longrightarrow> udp_scope scope \<Longrightarrow> permits_of M scope \<le> scope_limit hopts topts uopts scope"
  unfolding udp_inv_def by (elim conjE, cases scope) (simp_all add: global_pool_bound [of lib _ "ua_global c"]
    keyed_pool_bound [of lib _ "ua_listeners c" _ UdpListener])

lemma admission_inv_gauges:
  assumes "admission_inv lib hopts topts uopts s"
  shows "gauge (sy_stats s) scope = permits_out s scope \<and> permits_out s scope \<le> scope_limit hopts topts uopts scope"
proof -
  have h: "tracks http_scope (http_inv lib hopts) (sy_http s) (sy_stats s) (mset (concat (sy_http_held s)))"
    and t: "tracks tcp_scope (tcp_inv lib topts) (sy_tcp s) (sy_stats s) (mset (concat (sy_tcp_held s)))"
    and u: "tracks udp_scope (udp_inv lib uopts) (sy_udp s) (sy_stats s) (mset (concat (sy_udp_held s)))"
    using assms by (simp_all add: admission_inv_def)
  note zero = http_permits.gauge_foreign [OF h] tcp_permits.gauge_foreign [OF t] udp_permits.gauge_foreign [OF u]
  have out: "permits_out s scope = permits_of (mset (concat (sy_http_held s))) scope
      + permits_of (mset (concat (sy_tcp_held s))) scope + permits_of (mset (concat (sy_udp_held s))) scope"
    by (simp only: permits_out_def permits_of_mset concat_append filter_append length_append add.assoc)
  consider (http) "http_scope scope" | (tcp) "tcp_scope scope" | (udp) "udp_scope scope" by (cases scope) simp_all
  then show ?thesis
  proof cases
    case http
    have "permits_of (mset (concat (sy_http_held s))) scope \<le> scope_limit hopts topts uopts scope"
      by (rule http_inv_limit [OF conjunct1 [OF h [unfolded tracks_def]] http])
    moreover have "gauge (sy_stats s) scope = permits_of (mset (concat (sy_http_held s))) scope" using h http by (simp add: tracks_def)
    ultimately show ?thesis using zero(2,3) scopes_disjoint(1,2) [OF http] by (simp add: out)
  next
    case tcp
    have "permits_of (mset (concat (sy_tcp_held s))) scope \<le> scope_limit hopts topts uopts scope"
      by (rule tcp_inv_limit [OF conjunct1 [OF t [unfolded tracks_def]] tcp])
    moreover have "gauge (sy_stats s) scope = permits_of (mset (concat (sy_tcp_held s))) scope" using t tcp by (simp add: tracks_def)
    ultimately show ?thesis using zero(1,3) scopes_disjoint(3,4) [OF tcp] by (simp add: out)
  next
    case udp
    have "permits_of (mset (concat (sy_udp_held s))) scope \<le> scope_limit hopts topts uopts scope"
      by (rule udp_inv_limit [OF conjunct1 [OF u [unfolded tracks_def]] udp])
    moreover have "gauge (sy_stats s) scope = permits_of (mset (concat (sy_udp_held s))) scope" using u udp by (simp add: tracks_def)
    ultimately show ?thesis using zero(1,2) scopes_disjoint(5,6) [OF udp] by (simp add: out)
  qed
qed

text \<open>
  C9. Admission control counts right, across the three protocols that share the statistics. After any
  history of requests, connections and datagrams that enter (a request at once or in two steps), are rejected and leave, the gauge of every
  scope is the number of budgets of that scope that are held, and it never exceeds the limit of the
  scope; so a rejection, which gives back what it took before, moves no gauge.
\<close>

theorem admission_gauges_exact:
  assumes "semaphore_laws lib"
    and "ho_global_inflight_limit hopts \<le> max_permits" "ho_listener_inflight_limit hopts \<le> max_permits" "ho_route_inflight_limit hopts \<le> max_permits"
    and "to_global_connection_limit topts \<le> max_permits" "to_listener_connection_limit topts \<le> max_permits"
    and "uo_global_datagram_limit uopts \<le> max_permits" "uo_listener_datagram_limit uopts \<le> max_permits"
    and "s = foldl (admission_event lib) (admission_new lib hopts topts uopts) es"
  shows "gauge (sy_stats s) scope = permits_out s scope \<and> permits_out s scope \<le> scope_limit hopts topts uopts scope"
  unfolding assms(9) by (rule admission_inv_gauges [OF admission_run_inv [OF admission_new_inv [OF assms(1-8)]]])

theorem admission_gauges_exact_witness:
  "let s = foldl (admission_event counting_semaphore)
         (admission_new counting_semaphore \<lparr> ho_global_inflight_limit = 2, ho_listener_inflight_limit = 2, ho_route_inflight_limit = 1 \<rparr>
            \<lparr> to_global_connection_limit = 1, to_listener_connection_limit = 0 \<rparr>
            \<lparr> uo_global_datagram_limit = 0, uo_listener_datagram_limit = 1 \<rparr>)
         [HttpEnter ''web'' ''r'', HttpEnter ''web'' ''r'', HttpEnterListener ''web'', HttpEnterRoute ''q'', HttpMerge 1, TcpEnter ''db'', UdpEnter ''dns'', UdpEnter ''dns'', HttpLeave 0]
   in gauge (sy_stats s) (HttpListener ''web'') = permits_out s (HttpListener ''web'')
      \<and> permits_out s (HttpListener ''web'') \<le> 2"
proof -
  let ?h = "\<lparr> ho_global_inflight_limit = 2, ho_listener_inflight_limit = 2, ho_route_inflight_limit = 1 \<rparr>"
  let ?t = "\<lparr> to_global_connection_limit = 1, to_listener_connection_limit = 0 \<rparr>"
  let ?u = "\<lparr> uo_global_datagram_limit = 0, uo_listener_datagram_limit = 1 \<rparr>"
  have l: "ho_global_inflight_limit ?h \<le> max_permits" "ho_listener_inflight_limit ?h \<le> max_permits" "ho_route_inflight_limit ?h \<le> max_permits"
    "to_global_connection_limit ?t \<le> max_permits" "to_listener_connection_limit ?t \<le> max_permits"
    "uo_global_datagram_limit ?u \<le> max_permits" "uo_listener_datagram_limit ?u \<le> max_permits" by (simp_all add: max_permits_def)
  show ?thesis unfolding Let_def
    using admission_gauges_exact [OF counting_semaphore_laws l refl, where scope = "HttpListener ''web''"]
    by (simp only: scope_limit.simps HttpAdmissionOptions.select_convs)
qed

end
