(* ===== verification/Client_Hello.thy ===== *)
theory Client_Hello
  imports Rust_Str
begin

text \<open>
  The server name of a TLS client hello, \<open>ntgw-stream/src/sni.rs\<close>; \<open>ntgw-shared-tls/src/preface.rs\<close> has the same
  functions. Bytes come from the network before any authentication, so the indexing of the code is
  modelled with its panics: a function returns an \<open>outcome\<close>, which is \<open>Panics\<close> where an index or a slice
  is out of range.
\<close>

unbundle bit_operations_syntax

type_synonym u8 = "8 word"

section \<open>Slices\<close>

datatype 'a outcome = Panics | Returns 'a

primrec outcome_bind :: "'a outcome \<Rightarrow> ('a \<Rightarrow> 'b outcome) \<Rightarrow> 'b outcome" where
  "outcome_bind Panics f = Panics"
| "outcome_bind (Returns x) f = f x"

text \<open>The question mark of the code: an absent value is returned at once.\<close>

definition try_then :: "'a option outcome \<Rightarrow> ('a \<Rightarrow> 'b option outcome) \<Rightarrow> 'b option outcome" where
  "try_then r f = outcome_bind r (\<lambda>v. case v of None \<Rightarrow> Returns None | Some x \<Rightarrow> f x)"

lemma try_then_simps [simp]:
  "try_then Panics f = Panics" "try_then (Returns None) f = Returns None" "try_then (Returns (Some x)) f = f x"
  by (simp_all add: try_then_def)

definition index :: "'a list \<Rightarrow> nat \<Rightarrow> 'a outcome" where
  "index xs i = (if i < length xs then Returns (xs ! i) else Panics)"

definition slice :: "'a list \<Rightarrow> nat \<Rightarrow> nat \<Rightarrow> 'a list outcome" where
  "slice xs a b = (if a \<le> b \<and> b \<le> length xs then Returns (take (b - a) (drop a xs)) else Panics)"

definition slice_from :: "'a list \<Rightarrow> nat \<Rightarrow> 'a list outcome" where
  "slice_from xs a = (if a \<le> length xs then Returns (drop a xs) else Panics)"

definition get_range :: "'a list \<Rightarrow> nat \<Rightarrow> nat \<Rightarrow> 'a list option" where
  "get_range xs a b = (if a \<le> b \<and> b \<le> length xs then Some (take (b - a) (drop a xs)) else None)"

definition get_from :: "'a list \<Rightarrow> nat \<Rightarrow> 'a list option" where
  "get_from xs a = (if a \<le> length xs then Some (drop a xs) else None)"

definition u16_from_be_bytes :: "u8 \<Rightarrow> u8 \<Rightarrow> 16 word" where
  "u16_from_be_bytes hi lo = word_cat hi lo"

text \<open>UTF-8 as the standard library validates it.\<close>

definition utf8_cont :: "u8 \<Rightarrow> bool" where
  "utf8_cont b \<longleftrightarrow> 0x80 \<le> b \<and> b \<le> 0xBF"

fun valid_utf8 :: "u8 list \<Rightarrow> bool" where
  "valid_utf8 [] = True"
| "valid_utf8 (a # bs) =
     (if a < 0x80 then valid_utf8 bs
      else if 0xC2 \<le> a \<and> a \<le> 0xDF then
        (case bs of b # bs' \<Rightarrow> utf8_cont b \<and> valid_utf8 bs' | _ \<Rightarrow> False)
      else if 0xE0 \<le> a \<and> a \<le> 0xEF then
        (case bs of
           b # c # bs' \<Rightarrow>
             (if a = 0xE0 then 0xA0 \<le> b \<and> b \<le> 0xBF else if a = 0xED then 0x80 \<le> b \<and> b \<le> 0x9F else utf8_cont b)
             \<and> utf8_cont c \<and> valid_utf8 bs'
         | _ \<Rightarrow> False)
      else if 0xF0 \<le> a \<and> a \<le> 0xF4 then
        (case bs of
           b # c # d # bs' \<Rightarrow>
             (if a = 0xF0 then 0x90 \<le> b \<and> b \<le> 0xBF else if a = 0xF4 then 0x80 \<le> b \<and> b \<le> 0x8F else utf8_cont b)
             \<and> utf8_cont c \<and> utf8_cont d \<and> valid_utf8 bs'
         | _ \<Rightarrow> False)
      else False)"

definition string_of_bytes :: "u8 list \<Rightarrow> string" where
  "string_of_bytes bs = map (\<lambda>b. char_of (unat b)) bs"

definition from_utf8 :: "u8 list \<Rightarrow> string option" where
  "from_utf8 bs = (if valid_utf8 bs then Some (string_of_bytes bs) else None)"

section \<open>The parser\<close>

definition read_u16 :: "u8 list \<Rightarrow> (16 word) option" where
  "read_u16 payload =
     (case nth_opt payload 0 of None \<Rightarrow> None
      | Some hi \<Rightarrow> (case nth_opt payload 1 of None \<Rightarrow> None | Some lo \<Rightarrow> Some (u16_from_be_bytes hi lo)))"

definition skip_vector :: "u8 list \<Rightarrow> nat \<Rightarrow> u8 list option" where
  "skip_vector payload len_bytes =
     (case (if len_bytes = 1 then map_option unat (nth_opt payload 0)
            else if len_bytes = 2 then map_option unat (read_u16 payload)
            else None) of
        None \<Rightarrow> None
      | Some len \<Rightarrow> get_from payload (len_bytes + len))"

definition tls_record_len :: "u8 list \<Rightarrow> nat option outcome" where
  "tls_record_len payload =
     (if length payload < 5 then Returns None
      else outcome_bind (index payload 0) (\<lambda>kind.
        if kind \<noteq> 22 then Returns None
        else outcome_bind (index payload 3) (\<lambda>hi. outcome_bind (index payload 4) (\<lambda>lo.
          Returns (Some (5 + unat (u16_from_be_bytes hi lo)))))))"

definition parse_tls_record :: "u8 list \<Rightarrow> u8 list option outcome" where
  "parse_tls_record payload =
     try_then (tls_record_len payload) (\<lambda>length'.
       if length payload < length' then Returns None
       else outcome_bind (slice payload 5 length') (\<lambda>r. Returns (Some r)))"

definition parse_client_hello :: "u8 list \<Rightarrow> u8 list option outcome" where
  "parse_client_hello payload =
     (if length payload < 4 then Returns None
      else outcome_bind (index payload 0) (\<lambda>kind.
        if kind \<noteq> 1 then Returns None
        else outcome_bind (index payload 1) (\<lambda>a. outcome_bind (index payload 2) (\<lambda>b. outcome_bind (index payload 3) (\<lambda>c.
          let len = push_bit 16 (unat a) OR push_bit 8 (unat b) OR unat c in
          if length payload < 4 + len then Returns None
          else outcome_bind (slice payload 4 (4 + len)) (\<lambda>r. Returns (Some r)))))))"

function server_names :: "u8 list \<Rightarrow> string option outcome" where
  "server_names cursor =
     (if length cursor \<ge> 3 then
        outcome_bind (index cursor 0) (\<lambda>name_type.
        outcome_bind (slice_from cursor 1) (\<lambda>tail.
          case read_u16 tail of None \<Rightarrow> Returns None
          | Some len \<Rightarrow>
            (case get_range cursor 3 (3 + unat len) of None \<Rightarrow> Returns None
             | Some name \<Rightarrow>
               if name_type = 0 then Returns (from_utf8 name)
               else (case get_from cursor (3 + unat len) of None \<Rightarrow> Returns None | Some cursor' \<Rightarrow> server_names cursor'))))
      else Returns None)"
  by pat_completeness auto
termination
  by (relation "measure length") (auto simp: get_from_def split: if_splits)

definition parse_server_name_list :: "u8 list \<Rightarrow> string option outcome" where
  "parse_server_name_list payload =
     (case read_u16 payload of None \<Rightarrow> Returns None
      | Some list_len \<Rightarrow>
        (case get_range payload 2 (2 + unat list_len) of None \<Rightarrow> Returns None | Some cursor \<Rightarrow> server_names cursor))"

function extensions :: "u8 list \<Rightarrow> string option outcome" where
  "extensions cursor =
     (if length cursor \<ge> 4 then
        (case read_u16 cursor of None \<Rightarrow> Returns None
         | Some ext_type \<Rightarrow>
           outcome_bind (slice_from cursor 2) (\<lambda>tail.
             case read_u16 tail of None \<Rightarrow> Returns None
             | Some ext_len \<Rightarrow>
               (case get_range cursor 4 (4 + unat ext_len) of None \<Rightarrow> Returns None
                | Some ext_payload \<Rightarrow>
                  if ext_type = 0 then parse_server_name_list ext_payload
                  else (case get_from cursor (4 + unat ext_len) of None \<Rightarrow> Returns None | Some cursor' \<Rightarrow> extensions cursor'))))
      else Returns None)"
  by pat_completeness auto
termination
  by (relation "measure length") (auto simp: get_from_def split: if_splits)

declare server_names.simps [simp del] extensions.simps [simp del]

definition parse_server_name_extension :: "u8 list \<Rightarrow> string option outcome" where
  "parse_server_name_extension payload =
     (if length payload < 34 then Returns None
      else outcome_bind (slice_from payload 34) (\<lambda>cursor.
        try_then (Returns (skip_vector cursor 1)) (\<lambda>cursor.
        try_then (Returns (skip_vector cursor 2)) (\<lambda>cursor.
        try_then (Returns (skip_vector cursor 1)) (\<lambda>cursor.
        try_then (Returns (read_u16 cursor)) (\<lambda>extensions_len.
        try_then (Returns (get_range cursor 2 (2 + unat extensions_len))) extensions))))))"

definition extract_server_name :: "u8 list \<Rightarrow> string option outcome" where
  "extract_server_name payload =
     try_then (parse_tls_record payload) (\<lambda>record'.
     try_then (parse_client_hello record') (\<lambda>handshake.
       parse_server_name_extension handshake))"

section \<open>No input makes it panic\<close>

lemma try_then_safe: "r \<noteq> Panics \<Longrightarrow> (\<And>x. r = Returns (Some x) \<Longrightarrow> f x \<noteq> Panics) \<Longrightarrow> try_then r f \<noteq> Panics"
  by (cases r) (auto simp: try_then_def split: option.split)

lemma tls_record_len_safe: "tls_record_len payload \<noteq> Panics"
  by (simp add: tls_record_len_def index_def)

lemma tls_record_len_ge: "tls_record_len payload = Returns (Some n) \<Longrightarrow> 5 \<le> n"
  by (auto simp: tls_record_len_def index_def split: if_splits)

lemma parse_tls_record_safe: "parse_tls_record payload \<noteq> Panics"
  unfolding parse_tls_record_def
  by (rule try_then_safe) (auto simp: tls_record_len_safe slice_def dest: tls_record_len_ge)

lemma parse_client_hello_safe: "parse_client_hello payload \<noteq> Panics"
  by (simp add: parse_client_hello_def index_def slice_def Let_def)

lemma server_names_safe: "server_names cursor \<noteq> Panics"
proof (induction cursor rule: server_names.induct)
  case (1 cursor)
  show ?case by (subst server_names.simps) (auto simp: index_def slice_from_def 1 split: option.split)
qed

lemma extensions_safe: "extensions cursor \<noteq> Panics"
proof (induction cursor rule: extensions.induct)
  case (1 cursor)
  show ?case by (subst extensions.simps) (auto simp: slice_from_def 1 parse_server_name_list_def server_names_safe split: option.split)
qed

lemma parse_server_name_extension_safe: "parse_server_name_extension payload \<noteq> Panics"
proof (cases "length payload < 34")
  case False
  have "try_then (Returns (skip_vector c 1)) (\<lambda>c. try_then (Returns (skip_vector c 2)) (\<lambda>c. try_then (Returns (skip_vector c 1)) (\<lambda>c.
      try_then (Returns (read_u16 c)) (\<lambda>n. try_then (Returns (get_range c 2 (2 + unat n))) extensions)))) \<noteq> Panics" for c
    by (intro try_then_safe extensions_safe) simp_all
  then show ?thesis using False by (simp add: parse_server_name_extension_def slice_from_def)
qed (simp add: parse_server_name_extension_def)

text \<open>
  C22. No input makes the parser of client hellos panic: whatever bytes arrive on a connection, every
  index and slice is in range, and the two loops end.
\<close>

theorem extract_server_name_never_panics: "\<exists>r. extract_server_name payload = Returns r"
proof -
  have "extract_server_name payload \<noteq> Panics"
    unfolding extract_server_name_def
    by (intro try_then_safe parse_tls_record_safe parse_client_hello_safe parse_server_name_extension_safe)
  then show ?thesis by (cases "extract_server_name payload") simp_all
qed

section \<open>Round trip\<close>

text \<open>
  A client hello as RFC 8446 writes it: version and random in 34 bytes, session identifier, cipher
  suites, compression methods and extensions as vectors with their length in front. Only extension
  \<open>0\<close> is spelled out; the payload of the others is any byte string.
\<close>

definition u16_bytes :: "16 word \<Rightarrow> u8 list" where
  "u16_bytes w = [ucast (drop_bit 8 w), ucast w]"

definition vec8 :: "u8 list \<Rightarrow> u8 list" where
  "vec8 bs = of_nat (length bs) # bs"

definition vec16 :: "u8 list \<Rightarrow> u8 list" where
  "vec16 bs = u16_bytes (of_nat (length bs)) @ bs"

definition vec24 :: "u8 list \<Rightarrow> u8 list" where
  "vec24 bs = [of_nat (length bs div 65536), of_nat (length bs div 256), of_nat (length bs)] @ bs"

definition extension_bytes :: "16 word \<times> u8 list \<Rightarrow> u8 list" where
  "extension_bytes e = u16_bytes (fst e) @ vec16 (snd e)"

definition name_bytes :: "u8 \<times> u8 list \<Rightarrow> u8 list" where
  "name_bytes n = fst n # vec16 (snd n)"

definition server_name_extension :: "(u8 \<times> u8 list) list \<Rightarrow> u8 list" where
  "server_name_extension names = vec16 (concat (map name_bytes names))"

record ClientHello =
  ch_version_random :: "u8 list"
  ch_session_id :: "u8 list"
  ch_cipher_suites :: "u8 list"
  ch_compression :: "u8 list"
  ch_extensions :: "(16 word \<times> u8 list) list"

definition hello_body :: "ClientHello \<Rightarrow> u8 list" where
  "hello_body h = ch_version_random h @ vec8 (ch_session_id h) @ vec16 (ch_cipher_suites h) @ vec8 (ch_compression h)
     @ vec16 (concat (map extension_bytes (ch_extensions h)))"

definition hello_record :: "u8 \<Rightarrow> u8 \<Rightarrow> ClientHello \<Rightarrow> u8 list" where
  "hello_record major minor h = [22, major, minor] @ vec16 (1 # vec24 (hello_body h))"

text \<open>The lengths fit the fields that hold them.\<close>

definition hello_fits :: "ClientHello \<Rightarrow> bool" where
  "hello_fits h \<longleftrightarrow> length (ch_version_random h) = 34 \<and> length (ch_session_id h) < 256 \<and> length (ch_compression h) < 256
     \<and> length (hello_body h) + 4 < 65536"

lemma u16_of_bytes [simp]: "u16_from_be_bytes (ucast (drop_bit 8 w)) (ucast w) = w"
  unfolding u16_from_be_bytes_def
  by (rule bit_word_eqI) (auto simp: bit_word_cat_iff bit_ucast_iff bit_drop_bit_eq)

lemma read_u16_bytes [simp]: "read_u16 (u16_bytes w @ bs) = Some w"
  by (simp add: read_u16_def u16_bytes_def)

lemma length_u16_bytes [simp]: "length (u16_bytes w) = 2"
  by (simp add: u16_bytes_def)

lemma unat_u16_of_nat: "n < 65536 \<Longrightarrow> unat (of_nat n :: 16 word) = n"
  by (simp add: unsigned_of_nat take_bit_nat_eq_self)

lemma unat_u8_of_nat: "n < 256 \<Longrightarrow> unat (of_nat n :: u8) = n"
  by (simp add: unsigned_of_nat take_bit_nat_eq_self)

lemma skip_vec8: "length bs < 256 \<Longrightarrow> skip_vector (vec8 bs @ r) 1 = Some r"
  by (simp add: skip_vector_def vec8_def unat_u8_of_nat get_from_def)

lemma skip_vec16: "length bs < 65536 \<Longrightarrow> skip_vector (vec16 bs @ r) 2 = Some r"
  by (simp add: skip_vector_def vec16_def unat_u16_of_nat get_from_def)

lemma vec16_get: "length bs < 65536 \<Longrightarrow> read_u16 (vec16 bs @ r) = Some (of_nat (length bs)) \<and> get_range (vec16 bs @ r) 2 (2 + length bs) = Some bs"
  by (simp add: vec16_def get_range_def)

lemma server_names_step:
  "length name < 65536 \<Longrightarrow>
   server_names (name_bytes (kind, name) @ r) = (if kind = 0 then Returns (from_utf8 name) else server_names r)"
  by (subst server_names.simps)
    (simp add: name_bytes_def vec16_def u16_bytes_def read_u16_def index_def slice_from_def get_range_def get_from_def unat_u16_of_nat numeral_3_eq_3)

lemma server_names_found:
  assumes "list_all (\<lambda>n. fst n \<noteq> 0 \<and> length (snd n) < 65536) others" and "length name < 65536"
  shows "server_names (concat (map name_bytes (others @ (0, name) # rest))) = Returns (from_utf8 name)"
  using assms(1)
proof (induction others)
  case Nil
  then show ?case using server_names_step [OF assms(2)] by simp
next
  case (Cons n others)
  then show ?case using server_names_step [of "snd n" "fst n"] by simp
qed

lemma drop_four: "drop (4 + n) (a # b # c # d # xs) = drop n xs"
  by (simp add: numeral_eq_Suc)

lemma extensions_step:
  "length payload < 65536 \<Longrightarrow>
   extensions (extension_bytes (kind, payload) @ r) = (if kind = 0 then parse_server_name_list payload else extensions r)"
  by (subst extensions.simps)
    (simp add: extension_bytes_def vec16_def u16_bytes_def read_u16_def slice_from_def get_range_def get_from_def unat_u16_of_nat drop_four)

lemma extensions_found:
  assumes "list_all (\<lambda>e. fst e \<noteq> 0 \<and> length (snd e) < 65536) others" and "length payload < 65536"
  shows "extensions (concat (map extension_bytes (others @ (0, payload) # rest))) = parse_server_name_list payload"
  using assms(1)
proof (induction others)
  case Nil
  then show ?case using extensions_step [OF assms(2)] by simp
next
  case (Cons n others)
  then show ?case using extensions_step [of "snd n" "fst n"] by simp
qed

lemma parse_server_name_list_bytes:
  "length (concat (map name_bytes names)) < 65536 \<Longrightarrow>
   parse_server_name_list (server_name_extension names) = server_names (concat (map name_bytes names))"
  using vec16_get [of "concat (map name_bytes names)" "[]"]
  by (simp add: parse_server_name_list_def server_name_extension_def unat_u16_of_nat)

lemma parse_extension_bytes:
  assumes "hello_fits h"
  shows "parse_server_name_extension (hello_body h) = extensions (concat (map extension_bytes (ch_extensions h)))"
proof -
  let ?e = "concat (map extension_bytes (ch_extensions h))"
  have "length (ch_cipher_suites h) < 65536" "length ?e < 65536" "\<not> length (hello_body h) < 34" "34 \<le> length (hello_body h)"
    using assms by (simp_all add: hello_fits_def hello_body_def vec16_def)
  moreover have "drop 34 (hello_body h) = vec8 (ch_session_id h) @ vec16 (ch_cipher_suites h) @ vec8 (ch_compression h) @ vec16 ?e"
    using assms by (simp add: hello_fits_def hello_body_def)
  moreover have "skip_vector (vec8 (ch_session_id h) @ r) 1 = Some r" "skip_vector (vec8 (ch_compression h) @ r) 1 = Some r" for r
    using assms by (simp_all only: hello_fits_def skip_vec8)
  moreover have "read_u16 (vec16 ?e) = Some (of_nat (length ?e))" "get_range (vec16 ?e) 2 (2 + length ?e) = Some ?e"
    using vec16_get [of ?e "[]"] calculation(2) by simp_all
  ultimately show ?thesis
    by (simp only: parse_server_name_extension_def slice_from_def if_True if_False outcome_bind.simps try_then_simps skip_vec16
        unat_u16_of_nat)
qed

lemma or_bytes: "c < 256 \<Longrightarrow> push_bit 8 a OR c = a * 256 + c" for a c :: nat
proof -
  assume "c < 256"
  then have c: "take_bit 8 c = c" by (simp add: take_bit_nat_eq_self)
  have "push_bit 8 a AND take_bit 8 c = 0" by (rule bit_eqI) (simp add: bit_simps)
  then have "push_bit 8 a AND c = 0" by (simp only: c)
  then show ?thesis by (simp add: push_bit_eq_mult flip: disjunctive_add_eq_or)
qed

lemma parse_client_hello_bytes:
  assumes "length bs < 65536"
  shows "parse_client_hello (1 # vec24 bs) = Returns (Some bs)"
proof -
  let ?n = "length bs"
  have a: "of_nat (?n div 65536) = (0 :: u8)" using assms by simp
  have b: "unat (of_nat (?n div 256) :: u8) = ?n div 256" using assms by (simp add: unat_u8_of_nat)
  have c: "unat (of_nat ?n :: u8) = ?n mod 256" by (simp add: unsigned_of_nat take_bit_eq_mod)
  have "push_bit 16 (unat (0 :: u8)) OR push_bit 8 (?n div 256) OR ?n mod 256 = ?n" by (simp add: or_bytes)
  then show ?thesis
    by (simp add: parse_client_hello_def vec24_def index_def slice_def Let_def a b c del: of_nat_Suc)
qed

lemma parse_tls_record_bytes:
  assumes "length bs < 65536"
  shows "parse_tls_record ([22, major, minor] @ vec16 bs @ r) = Returns (Some bs)"
proof -
  have "tls_record_len ([22, major, minor] @ vec16 bs @ r) = Returns (Some (5 + length bs))"
    using assms by (simp add: tls_record_len_def index_def vec16_def u16_bytes_def unat_u16_of_nat)
  then show ?thesis by (simp add: parse_tls_record_def slice_def vec16_def u16_bytes_def)
qed

lemma extension_length: "e \<in> set es \<Longrightarrow> length (snd e) \<le> length (concat (map extension_bytes es))"
  by (induction es) (auto simp: extension_bytes_def vec16_def)

lemma name_length: "n \<in> set ns \<Longrightarrow> length (snd n) \<le> length (concat (map name_bytes ns))"
  by (induction ns) (auto simp: name_bytes_def vec16_def)

text \<open>
  C12. Round trip of the server name. Of a client hello whose lengths fit their fields, with the server
  name extension among any others and the host name among any other kinds of name, followed by
  anything, the parser returns exactly the host name.
\<close>

theorem server_name_round_trip:
  assumes fits: "hello_fits h"
    and exts: "ch_extensions h = others @ (0, server_name_extension (before @ (0, name) # after)) # rest"
    and others: "list_all (\<lambda>e. fst e \<noteq> 0) others" and before: "list_all (\<lambda>n. fst n \<noteq> 0) before"
    and utf8: "valid_utf8 name"
  shows "extract_server_name (hello_record major minor h @ more_bytes) = Returns (Some (string_of_bytes name))"
proof -
  let ?names = "before @ (0, name) # after"
  have len: "length (concat (map extension_bytes (ch_extensions h))) < 65536" "length (1 # vec24 (hello_body h)) < 65536"
    "length (hello_body h) < 65536" using fits by (simp_all add: hello_fits_def hello_body_def vec16_def vec24_def)
  have ext: "length (snd e) < 65536" if "e \<in> set (ch_extensions h)" for e
    using extension_length [OF that] len(1) by (rule le_less_trans)
  have sni: "length (server_name_extension ?names) < 65536" using ext [of "(0, server_name_extension ?names)"] exts by simp
  then have names: "length (concat (map name_bytes ?names)) < 65536" by (simp only: server_name_extension_def vec16_def length_append)
  have name: "length (snd n) < 65536" if "n \<in> set ?names" for n using name_length [OF that] names by (rule le_less_trans)
  have "parse_server_name_extension (hello_body h) = parse_server_name_list (server_name_extension ?names)"
    unfolding parse_extension_bytes [OF fits] exts
    by (rule extensions_found [OF _ sni]) (use others ext exts in \<open>auto simp: list_all_iff\<close>)
  also have "\<dots> = server_names (concat (map name_bytes ?names))" by (rule parse_server_name_list_bytes [OF names])
  also have "\<dots> = Returns (from_utf8 name)"
    by (rule server_names_found) (use before name name [of "(0, name)"] in \<open>auto simp: list_all_iff\<close>)
  finally have "parse_server_name_extension (hello_body h) = Returns (Some (string_of_bytes name))" using utf8 by (simp add: from_utf8_def)
  moreover have "hello_record major minor h @ more_bytes = [22, major, minor] @ vec16 (1 # vec24 (hello_body h)) @ more_bytes"
    by (simp add: hello_record_def)
  ultimately show ?thesis
    by (simp only: extract_server_name_def parse_tls_record_bytes [OF len(2)] parse_client_hello_bytes [OF len(3)] try_then_simps)
qed

theorem server_name_round_trip_witness:
  "extract_server_name (hello_record 3 1 \<lparr> ch_version_random = replicate 34 7, ch_session_id = [9, 9], ch_cipher_suites = [19, 1],
      ch_compression = [0], ch_extensions = [(43, [2, 3, 4]), (0, server_name_extension [(5, [1]), (0, [97, 46, 99, 111])])] \<rparr> @ [1, 2])
   = Returns (Some ''a.co'')"
proof -
  let ?h = "\<lparr> ch_version_random = replicate 34 7, ch_session_id = [9, 9], ch_cipher_suites = [19, 1], ch_compression = [0],
      ch_extensions = [(43, [2, 3, 4]), (0, server_name_extension [(5, [1]), (0, [97, 46, 99, 111])])] \<rparr>"
  have "hello_fits ?h" by (simp add: hello_fits_def hello_body_def vec8_def vec16_def extension_bytes_def server_name_extension_def name_bytes_def)
  moreover have "ch_extensions ?h = [(43, [2, 3, 4])] @ (0, server_name_extension ([(5, [1])] @ (0, [97, 46, 99, 111]) # [])) # []" by simp
  ultimately have "extract_server_name (hello_record 3 1 ?h @ [1, 2]) = Returns (Some (string_of_bytes [97, 46, 99, 111]))"
    by (rule server_name_round_trip) simp_all
  moreover have "string_of_bytes [97, 46, 99, 111] = ''a.co''" by code_simp
  ultimately show ?thesis by simp
qed

end
