(* ===== verification/Reconnect.thy ===== *)
theory Reconnect
  imports Counters
begin

text \<open>
  The delay before the client of the control plane connects again, \<open>ntgw-xds/src/reconnect.rs\<close>: it
  doubles with every failure up to a maximum, with a deterministic jitter on its upper half, and
  starts again after a stream was established.
\<close>

record TransportOptions =
  tr_connect_timeout :: Duration
  tr_keepalive_interval :: Duration
  tr_keepalive_timeout :: Duration
  tr_initial_reconnect_backoff :: Duration
  tr_max_reconnect_backoff :: Duration
  tr_apply_timeout :: Duration
  tr_apply_poll_interval :: Duration
  tr_stale_stream_timeout :: Duration

record ReconnectBackoff =
  rb_initial :: Duration
  rb_max :: Duration
  rb_attempt :: u32

definition backoff_new :: "TransportOptions \<Rightarrow> ReconnectBackoff" where
  "backoff_new options = \<lparr>
     rb_initial = tr_initial_reconnect_backoff options,
     rb_max = max (tr_max_reconnect_backoff options) (tr_initial_reconnect_backoff options),
     rb_attempt = 0 \<rparr>"

definition backoff_reset :: "ReconnectBackoff \<Rightarrow> ReconnectBackoff" where
  "backoff_reset b = b\<lparr> rb_attempt := 0 \<rparr>"

text \<open>\<open>as_millis\<close> of a duration in nanoseconds, as a \<open>u64\<close> that saturates.\<close>

definition duration_millis :: "Duration \<Rightarrow> u64" where
  "duration_millis d = (if d div 1000000 < 2 ^ 64 then of_nat (d div 1000000) else - 1)"

definition deterministic_jitter :: "u32 \<Rightarrow> u64 \<Rightarrow> u64" where
  "deterministic_jitter attempt m =
     (let seed = ucast attempt * 1103515245 + 12345
      in if m = 0 then 0 else seed mod m)"

definition next_delay :: "ReconnectBackoff \<Rightarrow> Duration \<times> ReconnectBackoff" where
  "next_delay b =
     (let shift = min (rb_attempt b) 16;
          multiplier = push_bit (unat shift) (1 :: u64);
          initial_ms = duration_millis (rb_initial b);
          max_ms = duration_millis (rb_max b);
          capped_ms = max (min (saturating_mul initial_ms multiplier) max_ms) 1;
          b = b\<lparr> rb_attempt := saturating_add (rb_attempt b) 1 \<rparr>;
          floor_ms = max (capped_ms div 2) 1;
          spread_ms = saturating_sub capped_ms floor_ms;
          jitter_ms = (if spread_ms = 0 then 0 else deterministic_jitter (rb_attempt b) (spread_ms + 1))
      in (unat (saturating_add floor_ms jitter_ms) * 1000000, b))"

definition retry_delay_after_stream_failure :: "ReconnectBackoff \<Rightarrow> bool \<Rightarrow> Duration \<times> ReconnectBackoff" where
  "retry_delay_after_stream_failure b stream_established =
     next_delay (if stream_established then backoff_reset b else b)"

section \<open>Bounds\<close>

lemma unat_duration_millis: "unat (duration_millis d) = min (d div 1000000) (2 ^ 64 - 1)"
proof (cases "d div 1000000 < 2 ^ 64")
  case True
  then have "unat (of_nat (d div 1000000) :: u64) = d div 1000000" by (simp add: unsigned_of_nat take_bit_nat_eq_self)
  then show ?thesis using True by (simp add: duration_millis_def)
next
  case False
  then show ?thesis by (simp add: duration_millis_def unat_max_word)
qed

text \<open>The cap of the delay, in milliseconds, after \<open>n\<close> failures.\<close>

definition backoff_cap :: "ReconnectBackoff \<Rightarrow> nat \<Rightarrow> nat" where
  "backoff_cap b n = max 1 (min (2 ^ 64 - 1) (min (rb_initial b div 1000000 * 2 ^ min n 16) (rb_max b div 1000000)))"

lemma unat_max: "unat (max a b) = max (unat a) (unat b)" for a b :: "'a::len word"
  by (simp add: max_def word_le_nat_alt)

lemma unat_multiplier: "n \<le> 16 \<Longrightarrow> unat (push_bit n (1 :: u64)) = 2 ^ n"
proof -
  assume "n \<le> 16"
  then have "unat (of_nat (2 ^ n) :: u64) = 2 ^ n" by (simp only: unsigned_of_nat) (simp add: take_bit_nat_eq_self)
  then show ?thesis by simp
qed

lemma min_mult: "1 \<le> m \<Longrightarrow> min (min i M * m) M = min (i * m) M" for i m M :: nat
proof (cases "i \<le> M")
  case False
  assume "1 \<le> m"
  then have "M \<le> M * m" "i \<le> i * m" by simp_all
  moreover have "min i M = M" using False by simp
  ultimately show ?thesis using False by (simp only: min.absorb2)
qed simp

lemma jitter_le: "m \<noteq> 0 \<Longrightarrow> unat (deterministic_jitter attempt m) < unat m"
  by (simp add: deterministic_jitter_def Let_def unat_mod unat_gt_0)

text \<open>The delay of one call: at least half of the cap, at most the cap.\<close>

lemma next_delay_bounds:
  defines "cap \<equiv> \<lambda>b. backoff_cap b (unat (rb_attempt b))"
  shows "max 1 (cap b div 2) * 1000000 \<le> fst (next_delay b) \<and> fst (next_delay b) \<le> cap b * 1000000"
proof -
  let ?s = "min (rb_attempt b) 16"
  define capped where "capped = max (min (saturating_mul (duration_millis (rb_initial b)) (push_bit (unat ?s) 1)) (duration_millis (rb_max b))) 1"
  define low where "low = max (capped div 2) 1"
  define jitter where "jitter = (if saturating_sub capped low = 0 then 0
      else deterministic_jitter (saturating_add (rb_attempt b) 1) (saturating_sub capped low + 1))"
  have s: "unat ?s = min (unat (rb_attempt b)) 16" by (simp add: unat_min)
  have m: "unat (push_bit (unat ?s) (1 :: u64)) = 2 ^ min (unat (rb_attempt b)) 16" using unat_multiplier [of "unat ?s"] by (simp add: s)
  have "unat capped = max (min (min (min (rb_initial b div 1000000) (2 ^ 64 - 1) * 2 ^ min (unat (rb_attempt b)) 16) (2 ^ 64 - 1))
      (min (rb_max b div 1000000) (2 ^ 64 - 1))) 1"
    by (simp only: capped_def unat_max unat_min [of "saturating_mul _ _"] unat_saturating_mul m unat_duration_millis unsigned_1 len_num1 len_bit0)
      simp
  also have "\<dots> = cap b" unfolding min_mult [OF one_le_power [OF one_le_numeral]]
    by (simp only: cap_def backoff_cap_def min.assoc min.commute min.left_commute min.left_idem max.commute)
  finally have cap: "unat capped = cap b" .
  have cap1: "1 \<le> cap b" by (simp add: cap_def backoff_cap_def)
  have low: "unat low = max 1 (cap b div 2)" by (simp add: low_def unat_max unat_div cap)
  have spread: "unat (saturating_sub capped low) = cap b - unat low" by (simp add: unat_saturating_sub cap)
  have "unat jitter \<le> cap b - unat low"
  proof (cases "saturating_sub capped low = 0")
    case False
    have "cap b - unat low < 2 ^ 64 - 1" using unat_u64_lt [of capped] low cap cap1 by simp
    then have "unat (saturating_sub capped low + 1) = cap b - unat low + 1" using spread by (simp add: unat_word_ariths)
    moreover from this have "saturating_sub capped low + 1 \<noteq> 0" by (metis Suc_eq_plus1 nat.distinct(1) unsigned_0)
    note jitter_le [OF this, of "saturating_add (rb_attempt b) 1"]
    ultimately show ?thesis using False by (simp only: jitter_def if_False)
  qed (simp add: jitter_def)
  moreover have "unat low \<le> cap b" using low cap1 by simp
  ultimately have "unat (saturating_add low jitter) = unat low + unat jitter" "unat low + unat jitter \<le> cap b"
    using unat_u64_lt [of capped] by (simp_all add: unat_saturating_add cap)
  moreover have "fst (next_delay b) = unat (saturating_add low jitter) * 1000000"
    by (simp add: next_delay_def Let_def low_def jitter_def capped_def)
  ultimately show ?thesis using low by simp
qed

lemma next_delay_state:
  "snd (next_delay b) = b\<lparr> rb_attempt := saturating_add (rb_attempt b) 1 \<rparr>"
  by (simp add: next_delay_def Let_def)

lemma attempts:
  "((\<lambda>b. snd (next_delay b)) ^^ n) b = b\<lparr> rb_attempt := (((\<lambda>a. saturating_add a 1) ^^ n) (rb_attempt b)) \<rparr>"
  by (induction n) (simp_all add: next_delay_state)

lemma unat_attempts: "unat (((\<lambda>a. saturating_add a 1) ^^ n) (0 :: u32)) = min n (2 ^ 32 - 1)"
  by (induction n) (simp_all add: unat_saturating_add)

text \<open>The first failure after an established stream, and the \<open>n\<close> failures to connect that follow.\<close>

fun failures :: "nat \<Rightarrow> ReconnectBackoff \<Rightarrow> Duration \<times> ReconnectBackoff" where
  "failures 0 b = retry_delay_after_stream_failure b True"
| "failures (Suc n) b = retry_delay_after_stream_failure (snd (failures n b)) False"

lemma failures_next: "failures n b = next_delay (((\<lambda>b. snd (next_delay b)) ^^ n) (backoff_reset b))"
  by (induction n) (simp_all add: retry_delay_after_stream_failure_def)

text \<open>
  The delays of a client that keeps failing. After \<open>n\<close> more failures since a stream was established,
  the delay is between half of the cap and the cap, which doubles from the initial delay up to the
  maximum, never below one millisecond; nothing overflows, however long the failures last.
\<close>

theorem backoff_delays:
  "max 1 (backoff_cap b n div 2) * 1000000 \<le> fst (failures n b) \<and> fst (failures n b) \<le> backoff_cap b n * 1000000"
proof -
  define c where "c = ((\<lambda>b. snd (next_delay b)) ^^ n) (backoff_reset b)"
  have "rb_attempt (backoff_reset b) = 0" by (simp add: backoff_reset_def)
  then have c: "unat (rb_attempt c) = min n (2 ^ 32 - 1)" "rb_initial c = rb_initial b" "rb_max c = rb_max b"
    unfolding c_def attempts by (simp_all add: unat_attempts backoff_reset_def)
  have "min (min n (2 ^ 32 - 1)) 16 = min n (16 :: nat)" by (simp only: min.assoc) simp
  then have "backoff_cap c (unat (rb_attempt c)) = backoff_cap b n" unfolding backoff_cap_def c by (simp only:)
  then show ?thesis using next_delay_bounds [of c] unfolding failures_next c_def [symmetric] by (simp only:)
qed

end
