(* ===== verification/Delta_Discovery.thy ===== *)
theory Delta_Discovery
  imports Rust_Str
begin

text \<open>
  The incremental client of the control plane, \<open>ntgw-xds/src/delta.rs\<close>: a cache of resources by type that
  every response changes, and the snapshots it publishes. The generated message types and their decoders
  are a parameter, \<open>ProtoLib\<close>; the snapshot has the six lists the code writes, its other fields keep
  their defaults. Sending the acknowledgement is a result of the step; shutdown and the end of the
  stream end the list of responses.
\<close>

section \<open>The cache\<close>

datatype ResourceKind = KListener | KHttpRoute | KGrpcRoute | KStreamRoute | KBackendCluster | KSecretMaterial

type_synonym bytes = string

record 'r ProtoLib =
  pl_decode :: "ResourceKind \<Rightarrow> bytes \<Rightarrow> string + 'r"
  pl_name :: "'r \<Rightarrow> string"

record 'r ConfigSnapshot =
  cs_listeners :: "'r list"
  cs_http_routes :: "'r list"
  cs_grpc_routes :: "'r list"
  cs_stream_routes :: "'r list"
  cs_backends :: "'r list"
  cs_secrets :: "'r list"

definition ConfigSnapshot_default :: "'r ConfigSnapshot" where
  "ConfigSnapshot_default = \<lparr> cs_listeners = [], cs_http_routes = [], cs_grpc_routes = [], cs_stream_routes = [],
     cs_backends = [], cs_secrets = [] \<rparr>"

record Resource =
  rs_name :: string
  rs_resource :: "bytes option"

record DeltaDiscoveryResponse =
  dr_system_version_info :: string
  dr_nonce :: string
  dr_type_url :: string
  dr_resources :: "Resource list"
  dr_removed_resources :: "string list"
  dr_non_incremental :: bool

fun contains_str :: "string \<Rightarrow> string \<Rightarrow> bool" where
  "contains_str [] needle = (needle = [])"
| "contains_str (c # s) needle = (starts_with (c # s) needle \<or> contains_str s needle)"

text \<open>Which list a type URL is about; \<open>clear_type\<close>, \<open>remove_resource\<close> and \<open>upsert_resource\<close> test in the same order.\<close>

definition resource_kind :: "string \<Rightarrow> ResourceKind option" where
  "resource_kind type_url =
     (if contains_str type_url ''Listener'' then Some KListener
      else if contains_str type_url ''HttpRoute'' then Some KHttpRoute
      else if contains_str type_url ''GrpcRoute'' then Some KGrpcRoute
      else if contains_str type_url ''StreamRoute'' then Some KStreamRoute
      else if contains_str type_url ''BackendCluster'' then Some KBackendCluster
      else if contains_str type_url ''SecretMaterial'' then Some KSecretMaterial
      else None)"

fun snap_list :: "ResourceKind \<Rightarrow> 'r ConfigSnapshot \<Rightarrow> 'r list" where
  "snap_list KListener s = cs_listeners s"
| "snap_list KHttpRoute s = cs_http_routes s"
| "snap_list KGrpcRoute s = cs_grpc_routes s"
| "snap_list KStreamRoute s = cs_stream_routes s"
| "snap_list KBackendCluster s = cs_backends s"
| "snap_list KSecretMaterial s = cs_secrets s"

fun snap_update :: "ResourceKind \<Rightarrow> ('r list \<Rightarrow> 'r list) \<Rightarrow> 'r ConfigSnapshot \<Rightarrow> 'r ConfigSnapshot" where
  "snap_update KListener f s = s\<lparr> cs_listeners := f (cs_listeners s) \<rparr>"
| "snap_update KHttpRoute f s = s\<lparr> cs_http_routes := f (cs_http_routes s) \<rparr>"
| "snap_update KGrpcRoute f s = s\<lparr> cs_grpc_routes := f (cs_grpc_routes s) \<rparr>"
| "snap_update KStreamRoute f s = s\<lparr> cs_stream_routes := f (cs_stream_routes s) \<rparr>"
| "snap_update KBackendCluster f s = s\<lparr> cs_backends := f (cs_backends s) \<rparr>"
| "snap_update KSecretMaterial f s = s\<lparr> cs_secrets := f (cs_secrets s) \<rparr>"

lemma snap_list_update [simp]: "snap_list k (snap_update k' f s) = (if k = k' then f (snap_list k s) else snap_list k s)"
  by (cases k; cases k') simp_all

lemma snap_list_default [simp]: "snap_list k ConfigSnapshot_default = []"
  by (cases k) (simp_all add: ConfigSnapshot_default_def)

fun kind_label :: "ResourceKind \<Rightarrow> string" where
  "kind_label KListener = ''Listener''"
| "kind_label KHttpRoute = ''HttpRoute''"
| "kind_label KGrpcRoute = ''GrpcRoute''"
| "kind_label KStreamRoute = ''StreamRoute''"
| "kind_label KBackendCluster = ''BackendCluster''"
| "kind_label KSecretMaterial = ''SecretMaterial''"

definition clear_type :: "'r ConfigSnapshot \<Rightarrow> string \<Rightarrow> 'r ConfigSnapshot" where
  "clear_type snap type_url =
     (case resource_kind type_url of None \<Rightarrow> snap | Some k \<Rightarrow> snap_update k (\<lambda>_. []) snap)"

definition remove_resource :: "'r ProtoLib \<Rightarrow> 'r ConfigSnapshot \<Rightarrow> string \<Rightarrow> string \<Rightarrow> 'r ConfigSnapshot" where
  "remove_resource lib snap type_url name =
     (case resource_kind type_url of
        None \<Rightarrow> snap
      | Some k \<Rightarrow> snap_update k (filter (\<lambda>r. pl_name lib r \<noteq> name)) snap)"

text \<open>The old resource goes before the new one is decoded.\<close>

definition upsert_resource ::
    "'r ProtoLib \<Rightarrow> 'r ConfigSnapshot \<Rightarrow> string \<Rightarrow> string \<Rightarrow> Resource \<Rightarrow> (string + unit) \<times> 'r ConfigSnapshot" where
  "upsert_resource lib snap type_url name resource =
     (case rs_resource resource of
        None \<Rightarrow> (Inr (), snap)
      | Some bytes \<Rightarrow>
          (case resource_kind type_url of
             None \<Rightarrow> (Inr (), snap)
           | Some k \<Rightarrow>
               let snap = snap_update k (filter (\<lambda>r. pl_name lib r \<noteq> name)) snap in
               (case pl_decode lib k bytes of
                  Inl e \<Rightarrow> (Inl (''decode '' @ kind_label k @ '': '' @ e), snap)
                | Inr r \<Rightarrow> (Inr (), snap_update k (\<lambda>rs. rs @ [r]) snap))))"

section \<open>Responses\<close>

definition SUBSCRIPTIONS :: "string list" where
  "SUBSCRIPTIONS =
     [''type.googleapis.com/gateway.control.v1.Listener'',
      ''type.googleapis.com/gateway.control.v1.HttpRoute'',
      ''type.googleapis.com/gateway.control.v1.GrpcRoute'',
      ''type.googleapis.com/gateway.control.v1.StreamRoute'',
      ''type.googleapis.com/gateway.control.v1.BackendCluster'',
      ''type.googleapis.com/gateway.control.v1.SecretMaterial'']"

definition SUBSCRIPTION_COUNT :: nat where
  "SUBSCRIPTION_COUNT = length SUBSCRIPTIONS"

record 'r DeltaState =
  dl_cached :: "'r ConfigSnapshot"
  dl_seen_types :: "string list"
  dl_version :: string

definition delta_start :: "'r DeltaState" where
  "delta_start = \<lparr> dl_cached = ConfigSnapshot_default, dl_seen_types = [], dl_version = [] \<rparr>"

text \<open>The acknowledgement echoes the nonce and the type.\<close>

record DeltaAck =
  da_response_nonce :: string
  da_type_url :: string

definition apply_resource :: "'r ProtoLib \<Rightarrow> string \<Rightarrow> 'r ConfigSnapshot \<Rightarrow> Resource \<Rightarrow> 'r ConfigSnapshot" where
  "apply_resource lib type_url cached resource =
     (if rs_name resource = [] then cached else snd (upsert_resource lib cached type_url (rs_name resource) resource))"

definition apply_response :: "'r ProtoLib \<Rightarrow> 'r ConfigSnapshot \<Rightarrow> DeltaDiscoveryResponse \<Rightarrow> 'r ConfigSnapshot" where
  "apply_response lib cached msg =
     (let cached = (if dr_non_incremental msg then clear_type cached (dr_type_url msg) else cached);
          cached = foldl (\<lambda>c. remove_resource lib c (dr_type_url msg)) cached (dr_removed_resources msg)
      in foldl (apply_resource lib (dr_type_url msg)) cached (dr_resources msg))"

definition delta_message ::
    "'r ProtoLib \<Rightarrow> 'r DeltaState \<Rightarrow> DeltaDiscoveryResponse \<Rightarrow> 'r DeltaState \<times> ('r ConfigSnapshot \<times> DeltaAck) option" where
  "delta_message lib st msg =
     (let seen = (if length (dl_seen_types st) < SUBSCRIPTION_COUNT
                  then List.insert (dr_type_url msg) (dl_seen_types st) else dl_seen_types st);
          initialized = (length seen \<ge> SUBSCRIPTION_COUNT);
          version_changed = (dr_system_version_info msg \<noteq> dl_version st);
          cached = apply_response lib (dl_cached st) msg
      in if initialized \<and> version_changed
         then (\<lparr> dl_cached = cached, dl_seen_types = seen, dl_version = dr_system_version_info msg \<rparr>,
               Some (cached, \<lparr> da_response_nonce = dr_nonce msg, da_type_url = dr_type_url msg \<rparr>))
         else (\<lparr> dl_cached = cached, dl_seen_types = seen, dl_version = dl_version st \<rparr>, None))"

text \<open>A stream of responses, with what is published.\<close>

fun delta_run :: "'r ProtoLib \<Rightarrow> 'r DeltaState \<Rightarrow> DeltaDiscoveryResponse list \<Rightarrow>
    'r DeltaState \<times> ('r ConfigSnapshot \<times> DeltaAck) option list" where
  "delta_run lib st [] = (st, [])"
| "delta_run lib st (msg # msgs) =
     (case delta_message lib st msg of (st, out) \<Rightarrow>
      case delta_run lib st msgs of (st, outs) \<Rightarrow> (st, out # outs))"

section \<open>The cache as a map\<close>

text \<open>What the cache means: the resource of a type with a name.\<close>

definition resource_view :: "'r ProtoLib \<Rightarrow> 'r ConfigSnapshot \<Rightarrow> ResourceKind \<Rightarrow> string \<Rightarrow> 'r option" where
  "resource_view lib s k name = find (\<lambda>r. pl_name lib r = name) (snap_list k s)"

text \<open>
  What the incremental protocol prescribes, without the functions of the client. A response is about the type its
  URL names in the list of subscriptions. It removes the names it lists and sets the resources it carries, one after the
  other; a full response starts from nothing. A resource without a payload only confirms the one the client has.
\<close>

definition subscribed_kind :: "string \<Rightarrow> ResourceKind option" where
  "subscribed_kind type_url =
     map_of (zip SUBSCRIPTIONS [KListener, KHttpRoute, KGrpcRoute, KStreamRoute, KBackendCluster, KSecretMaterial]) type_url"

definition view_resource :: "'r ProtoLib \<Rightarrow> ResourceKind \<Rightarrow> (string \<rightharpoonup> 'r) \<Rightarrow> Resource \<Rightarrow> (string \<rightharpoonup> 'r)" where
  "view_resource lib k m resource =
     (case rs_resource resource of
        None \<Rightarrow> m
      | Some bytes \<Rightarrow> (case pl_decode lib k bytes of Inl _ \<Rightarrow> m | Inr r \<Rightarrow> m(rs_name resource \<mapsto> r)))"

definition view_response ::
    "'r ProtoLib \<Rightarrow> (ResourceKind \<Rightarrow> string \<Rightarrow> 'r option) \<Rightarrow> DeltaDiscoveryResponse \<Rightarrow> (ResourceKind \<Rightarrow> string \<Rightarrow> 'r option)" where
  "view_response lib v msg =
     (case subscribed_kind (dr_type_url msg) of
        None \<Rightarrow> v
      | Some k \<Rightarrow>
          let m = (if dr_non_incremental msg then Map.empty else v k) |` (- set (dr_removed_resources msg))
          in v(k := foldl (view_resource lib k) m (dr_resources msg)))"

text \<open>
  A response as the protocol has it: of a subscribed type, every resource with a name, and every payload a message of
  the type with the name of the resource.
\<close>

definition resource_ok :: "'r ProtoLib \<Rightarrow> ResourceKind \<Rightarrow> Resource \<Rightarrow> bool" where
  "resource_ok lib k resource \<longleftrightarrow> rs_name resource \<noteq> []
     \<and> (case rs_resource resource of
          None \<Rightarrow> True
        | Some bytes \<Rightarrow> (case pl_decode lib k bytes of Inl _ \<Rightarrow> False | Inr r \<Rightarrow> pl_name lib r = rs_name resource))"

definition well_formed :: "'r ProtoLib \<Rightarrow> DeltaDiscoveryResponse \<Rightarrow> bool" where
  "well_formed lib msg \<longleftrightarrow>
     (case subscribed_kind (dr_type_url msg) of None \<Rightarrow> False | Some k \<Rightarrow> list_all (resource_ok lib k) (dr_resources msg))"

lemma subscribed_resource_kind: "subscribed_kind url = Some k \<Longrightarrow> resource_kind url = Some k"
proof -
  assume "subscribed_kind url = Some k"
  then have "(url, k) \<in> set (zip SUBSCRIPTIONS [KListener, KHttpRoute, KGrpcRoute, KStreamRoute, KBackendCluster, KSecretMaterial])"
    unfolding subscribed_kind_def by (rule map_of_SomeD)
  moreover have "list_all (\<lambda>(url, k). resource_kind url = Some k)
      (zip SUBSCRIPTIONS [KListener, KHttpRoute, KGrpcRoute, KStreamRoute, KBackendCluster, KSecretMaterial])" by code_simp
  ultimately show ?thesis by (auto simp: list_all_iff)
qed

lemma find_filter_name:
  "find (\<lambda>r. f r = n) (filter (\<lambda>r. f r \<noteq> m) rs) = (if n = m then None else find (\<lambda>r. f r = n) rs)"
  by (induction rs) auto

lemma find_append_last: "find P (rs @ [r]) = (case find P rs of None \<Rightarrow> if P r then Some r else None | Some x \<Rightarrow> Some x)"
  by (induction rs) auto

lemma view_clear:
  "resource_kind url = Some k \<Longrightarrow> resource_view lib (clear_type s url) = (resource_view lib s)(k := Map.empty)"
  by (intro ext) (simp add: resource_view_def clear_type_def)

lemma view_remove:
  "resource_kind url = Some k \<Longrightarrow>
   resource_view lib (remove_resource lib s url name) = (resource_view lib s)(k := (resource_view lib s k)(name := None))"
  by (intro ext) (simp add: resource_view_def remove_resource_def find_filter_name)

lemma view_removes:
  assumes k: "resource_kind url = Some k"
  shows "resource_view lib (foldl (\<lambda>c. remove_resource lib c url) s names) = (resource_view lib s)(k := resource_view lib s k |` (- set names))"
proof (induction names arbitrary: s)
  case (Cons name names)
  have m: "(m(name := None)) |` (- set names) = m |` (- set (name # names))" for m :: "string \<rightharpoonup> 'a"
    by (auto simp: restrict_map_def)
  show ?case by (simp only: foldl.simps Cons.IH view_remove [OF k] fun_upd_upd fun_upd_same m)
qed (simp add: restrict_map_def)

lemma view_apply:
  assumes k: "resource_kind url = Some k" and ok: "resource_ok lib k resource"
  shows "resource_view lib (apply_resource lib url s resource)
    = (resource_view lib s)(k := view_resource lib k (resource_view lib s k) resource)"
proof (cases "rs_resource resource")
  case None
  then show ?thesis by (simp add: apply_resource_def upsert_resource_def view_resource_def)
next
  case (Some bytes)
  then obtain r where r: "pl_decode lib k bytes = Inr r" "pl_name lib r = rs_name resource" "rs_name resource \<noteq> []"
    using ok by (auto simp: resource_ok_def split: sum.splits)
  then show ?thesis using k Some
    by (intro ext) (simp add: apply_resource_def upsert_resource_def view_resource_def resource_view_def find_filter_name find_append_last Let_def
        split: option.split)
qed

lemma view_applies:
  assumes k: "resource_kind url = Some k"
  shows "list_all (resource_ok lib k) resources \<Longrightarrow> resource_view lib (foldl (apply_resource lib url) s resources)
    = (resource_view lib s)(k := foldl (view_resource lib k) (resource_view lib s k) resources)"
  by (induction resources arbitrary: s) (simp_all add: view_apply [OF k])

lemma view_apply_response:
  assumes "well_formed lib msg"
  shows "resource_view lib (apply_response lib s msg) = view_response lib (resource_view lib s) msg"
proof -
  obtain k where k: "subscribed_kind (dr_type_url msg) = Some k" and ok: "list_all (resource_ok lib k) (dr_resources msg)"
    using assms by (auto simp: well_formed_def split: option.splits)
  note rk = subscribed_resource_kind [OF k]
  show ?thesis
    by (simp add: apply_response_def view_response_def Let_def k view_applies [OF rk ok] view_removes [OF rk] view_clear [OF rk])
qed

lemma delta_message_cached: "dl_cached (fst (delta_message lib st msg)) = apply_response lib (dl_cached st) msg"
  and delta_message_published: "snd (delta_message lib st msg) = Some (s, ack) \<Longrightarrow> s = apply_response lib (dl_cached st) msg"
  by (auto simp: delta_message_def Let_def split: if_splits)

lemma delta_run_views:
  "list_all (well_formed lib) msgs \<Longrightarrow> delta_run lib st msgs = (st', outs) \<Longrightarrow>
   resource_view lib (dl_cached st') = foldl (view_response lib) (resource_view lib (dl_cached st)) msgs
   \<and> (\<forall>i s ack. i < length outs \<longrightarrow> outs ! i = Some (s, ack) \<longrightarrow>
       resource_view lib s = foldl (view_response lib) (resource_view lib (dl_cached st)) (take (Suc i) msgs))"
proof (induction msgs arbitrary: st outs)
  case Nil
  then show ?case by simp
next
  case (Cons msg msgs)
  obtain st1 out where m: "delta_message lib st msg = (st1, out)" by (cases "delta_message lib st msg")
  obtain outs1 where r: "delta_run lib st1 msgs = (st', outs1)" and eqs: "outs = out # outs1"
    using Cons.prems(2) m by (auto split: prod.splits)
  have v: "resource_view lib (dl_cached st1) = view_response lib (resource_view lib (dl_cached st)) msg"
    using delta_message_cached [of lib st msg] m Cons.prems(1) by (simp add: view_apply_response)
  have p: "resource_view lib s = view_response lib (resource_view lib (dl_cached st)) msg" if "out = Some (s, ack)" for s ack
    using delta_message_published [of lib st msg s ack] m that Cons.prems(1) by (simp add: view_apply_response)
  show ?case using Cons.IH [OF _ r] Cons.prems(1) p by (auto simp: eqs v nth_Cons split: nat.split)
qed

text \<open>Payloads that are text, a name and a value, and responses with them.\<close>

definition text_lib :: "(string \<times> string) ProtoLib" where
  "text_lib = \<lparr> pl_decode = (\<lambda>_ bytes. case split_once (CHR ''='') bytes of None \<Rightarrow> Inl ''no name'' | Some r \<Rightarrow> Inr r),
     pl_name = fst \<rparr>"

definition text_response :: "nat \<Rightarrow> string \<Rightarrow> (string \<times> string) list \<Rightarrow> string list \<Rightarrow> DeltaDiscoveryResponse" where
  "text_response i version items removed =
     \<lparr> dr_system_version_info = version, dr_nonce = ''n'', dr_type_url = SUBSCRIPTIONS ! i,
       dr_resources = map (\<lambda>(name, value). \<lparr> rs_name = name, rs_resource = Some (name @ ''='' @ value) \<rparr>) items,
       dr_removed_resources = removed, dr_non_incremental = False \<rparr>"

lemma text_well_formed:
  assumes "i < 6" and "list_all (\<lambda>(name, value). name \<noteq> [] \<and> CHR ''='' \<notin> set name) items"
  shows "well_formed text_lib (text_response i version items removed)"
proof -
  have "list_all (\<lambda>i. subscribed_kind (SUBSCRIPTIONS ! i) \<noteq> None) [0..<6]" by code_simp
  then have "subscribed_kind (SUBSCRIPTIONS ! i) \<noteq> None" using assms(1) unfolding list_all_iff by fastforce
  then obtain k where "subscribed_kind (SUBSCRIPTIONS ! i) = Some k" by auto
  moreover have "resource_ok text_lib k \<lparr> rs_name = name, rs_resource = Some (name @ ''='' @ v) \<rparr>" if "(name, v) \<in> set items" for name v
    using assms(2) that by (auto simp: resource_ok_def text_lib_def list_all_iff split_once_append)
  ultimately show ?thesis by (auto simp: well_formed_def text_response_def list_all_iff)
qed

text \<open>
  C11. The incremental client implements the protocol. On any stream of well-formed responses (of subscribed types, with
  named resources whose payloads decode to messages of that name) the cache is the map from types and names to resources that
  the protocol prescribes, and every snapshot that is published is that map at its moment: nothing is lost, kept or
  mixed between types.
\<close>

theorem delta_cache_refines_protocol:
  assumes "list_all (well_formed lib) msgs" and "delta_run lib delta_start msgs = (st, outs)"
  shows "resource_view lib (dl_cached st) = foldl (view_response lib) (\<lambda>_ _. None) msgs
    \<and> (\<forall>i s ack. i < length outs \<longrightarrow> outs ! i = Some (s, ack) \<longrightarrow>
        resource_view lib s = foldl (view_response lib) (\<lambda>_ _. None) (take (Suc i) msgs))"
proof -
  have "resource_view lib (dl_cached delta_start) = (\<lambda>_ _. None)"
    by (intro ext) (simp add: resource_view_def delta_start_def)
  then show ?thesis using delta_run_views [OF assms] by simp
qed

theorem delta_cache_refines_protocol_witness:
  "let msgs = [text_response 0 ''v1'' [(''web'', ''80'')] [], text_response 1 ''v1'' [(''r'', ''a''), (''q'', ''b'')] [''x''],
         text_response 1 ''v2'' [(''r'', ''c'')] [''q'']];
       v = resource_view text_lib (dl_cached (fst (delta_run text_lib delta_start msgs)))
   in v = foldl (view_response text_lib) (\<lambda>_ _. None) msgs
      \<and> v KHttpRoute ''r'' = Some (''r'', ''c'') \<and> v KHttpRoute ''q'' = None \<and> v KListener ''web'' = Some (''web'', ''80'')"
proof -
  let ?msgs = "[text_response 0 ''v1'' [(''web'', ''80'')] [], text_response 1 ''v1'' [(''r'', ''a''), (''q'', ''b'')] [''x''],
      text_response 1 ''v2'' [(''r'', ''c'')] [''q'']]"
  let ?s = "dl_cached (fst (delta_run text_lib delta_start ?msgs))"
  have "list_all (well_formed text_lib) ?msgs" by (simp add: text_well_formed)
  then have "resource_view text_lib ?s = foldl (view_response text_lib) (\<lambda>_ _. None) ?msgs"
    by (rule conjunct1 [OF delta_cache_refines_protocol [OF _ prod.collapse [symmetric]]])
  moreover have "resource_view text_lib ?s KHttpRoute ''r'' = Some (''r'', ''c'')" by code_simp
  moreover have "resource_view text_lib ?s KHttpRoute ''q'' = None" by code_simp
  moreover have "resource_view text_lib ?s KListener ''web'' = Some (''web'', ''80'')" by code_simp
  ultimately show ?thesis by (simp only: Let_def)
qed

text \<open>
  C33. Only the first response of a system version is published. The control plane sends one response
  per type that has changes, all of one version. Of well-formed responses with the version of the last publication the
  cache takes all changes, but no snapshot is published and no acknowledgement is sent.
\<close>

theorem same_version_not_published:
  assumes "list_all (well_formed lib) msgs" and "list_all (\<lambda>msg. dr_system_version_info msg = dl_version st) msgs"
    and "delta_run lib st msgs = (st', outs)"
  shows "outs = replicate (length msgs) None \<and> dl_version st' = dl_version st
    \<and> resource_view lib (dl_cached st') = foldl (view_response lib) (resource_view lib (dl_cached st)) msgs"
proof -
  have "outs = replicate (length msgs) None \<and> dl_version st' = dl_version st" using assms(2,3)
  proof (induction msgs arbitrary: st outs)
    case (Cons msg msgs)
    obtain st1 out where m: "delta_message lib st msg = (st1, out)" by (cases "delta_message lib st msg")
    obtain outs1 where r: "delta_run lib st1 msgs = (st', outs1)" and outs: "outs = out # outs1"
      using Cons.prems(2) m by (auto split: prod.splits)
    have "out = None" "dl_version st1 = dl_version st" using m Cons.prems(1) by (auto simp: delta_message_def Let_def)
    then show ?case using Cons.IH [OF _ r] Cons.prems(1) by (simp add: outs)
  qed simp
  then show ?thesis using delta_run_views [OF assms(1,3)] by simp
qed

text \<open>Six responses of the first version, and the two of the second, of which the last is not published.\<close>

theorem same_version_not_published_witness:
  "let st = fst (delta_run text_lib delta_start
         (map (\<lambda>i. text_response i ''v1'' [] []) [0..<6] @ [text_response 0 ''v2'' [(''web'', ''80'')] []]));
       r = delta_run text_lib st [text_response 1 ''v2'' [(''r'', ''a'')] []]
   in dl_version st = ''v2'' \<and> snd r = [None] \<and> resource_view text_lib (dl_cached st) KHttpRoute ''r'' = None
      \<and> resource_view text_lib (dl_cached (fst r)) KHttpRoute ''r'' = Some (''r'', ''a'')"
proof -
  let ?st = "fst (delta_run text_lib delta_start
      (map (\<lambda>i. text_response i ''v1'' [] []) [0..<6] @ [text_response 0 ''v2'' [(''web'', ''80'')] []]))"
  let ?msgs = "[text_response 1 ''v2'' [(''r'', ''a'')] []]"
  have v: "dl_version ?st = ''v2''" by code_simp
  have "list_all (well_formed text_lib) ?msgs" by (simp add: text_well_formed)
  moreover have "list_all (\<lambda>msg. dr_system_version_info msg = dl_version ?st) ?msgs" unfolding v by (simp add: text_response_def)
  ultimately have "snd (delta_run text_lib ?st ?msgs) = replicate (length ?msgs) None"
    by (rule conjunct1 [OF same_version_not_published [OF _ _ prod.collapse [symmetric]]])
  then have "snd (delta_run text_lib ?st ?msgs) = [None]" by (simp only: length_Cons list.size replicate_Suc replicate_0)
  moreover have "resource_view text_lib (dl_cached ?st) KHttpRoute ''r'' = None" by code_simp
  moreover have "resource_view text_lib (dl_cached (fst (delta_run text_lib ?st ?msgs))) KHttpRoute ''r'' = Some (''r'', ''a'')" by code_simp
  ultimately show ?thesis using v by (simp only: Let_def)
qed

text \<open>
  A resource that does not decode removes the one it should replace. The code drops the old
  resource before it decodes the new one, so after a malformed update nothing of that name is left,
  and the response is acknowledged all the same.
\<close>

theorem malformed_update_removes_resource:
  assumes "resource_kind url = Some k" and "rs_resource resource = Some bytes" and "pl_decode lib k bytes = Inl e"
  shows "(\<exists>e'. fst (upsert_resource lib s url name resource) = Inl e')
    \<and> resource_view lib (snd (upsert_resource lib s url name resource)) k name = None"
  using assms by (simp add: upsert_resource_def resource_view_def find_filter_name Let_def)

theorem malformed_update_removes_resource_witness:
  "let s = fst (delta_run text_lib delta_start [text_response 0 ''v1'' [(''web'', ''80'')] []]);
       r = upsert_resource text_lib (dl_cached s) (SUBSCRIPTIONS ! 0) ''web'' \<lparr> rs_name = ''web'', rs_resource = Some ''?'' \<rparr>
   in resource_view text_lib (dl_cached s) KListener ''web'' = Some (''web'', ''80'')
      \<and> (\<exists>e. fst r = Inl e) \<and> resource_view text_lib (snd r) KListener ''web'' = None"
proof -
  let ?s = "dl_cached (fst (delta_run text_lib delta_start [text_response 0 ''v1'' [(''web'', ''80'')] []]))"
  let ?res = "\<lparr> rs_name = ''web'', rs_resource = Some ''?'' \<rparr>"
  have "resource_kind (SUBSCRIPTIONS ! 0) = Some KListener" "pl_decode text_lib KListener ''?'' = Inl ''no name''" by code_simp+
  from malformed_update_removes_resource [OF this(1) _ this(2), of ?res]
  have "(\<exists>e. fst (upsert_resource text_lib ?s (SUBSCRIPTIONS ! 0) ''web'' ?res) = Inl e)
      \<and> resource_view text_lib (snd (upsert_resource text_lib ?s (SUBSCRIPTIONS ! 0) ''web'' ?res)) KListener ''web'' = None" by simp
  moreover have "resource_view text_lib ?s KListener ''web'' = Some (''web'', ''80'')" by code_simp
  ultimately show ?thesis by (simp only: Let_def)
qed

end
