(* ===== verification/Http_Headers.thy ===== *)
theory Http_Headers
  imports IR_Types
begin

text \<open>
  Editing of headers, \<open>ntgw-http/src/filters/headers.rs\<close>, the default security headers of
  \<open>ntgw-http/src/filters.rs\<close> and direct responses, \<open>ntgw-http/src/extensions.rs\<close>. The header maps of the proxy framework are
  a parameter, \<open>HeaderLib\<close>, with the documented laws \<open>header_laws\<close>: names are compared without
  letter case, inserting replaces all values of a name, appending adds one, and an invalid name or value
  is an error. \<open>HeaderMap\<close> is an instance.
\<close>

section \<open>Header maps\<close>

record 'h HeaderLib =
  hl_values :: "'h \<Rightarrow> string \<Rightarrow> string list"
  hl_insert :: "'h \<Rightarrow> string \<Rightarrow> string \<Rightarrow> 'h option"
  hl_append :: "'h \<Rightarrow> string \<Rightarrow> string \<Rightarrow> 'h option"
  hl_remove :: "'h \<Rightarrow> string \<Rightarrow> 'h"
  hl_build :: "16 word \<Rightarrow> 'h option"

text \<open>The characters of a header name, and of a value that is text.\<close>

definition name_char :: "char \<Rightarrow> bool" where
  "name_char c \<longleftrightarrow> is_ascii_uppercase c \<or> is_ascii_lowercase c \<or> is_ascii_digit c \<or> c \<in> set ''!#$%&*+-.^_|~'' \<or> c = CHR ''`'' \<or> c = CHR 0x27"

definition value_char :: "char \<Rightarrow> bool" where
  "value_char c \<longleftrightarrow> (32 \<le> (of_char c :: nat) \<and> (of_char c :: nat) \<noteq> 127) \<or> (of_char c :: nat) = 9"

definition valid_header :: "string \<Rightarrow> string \<Rightarrow> bool" where
  "valid_header name value \<longleftrightarrow> name \<noteq> [] \<and> list_all name_char name \<and> list_all value_char value"

definition header_laws :: "'h HeaderLib \<Rightarrow> bool" where
  "header_laws lib \<longleftrightarrow>
     (\<forall>h n m. eq_ignore_ascii_case n m \<longrightarrow> hl_values lib h n = hl_values lib h m)
     \<and> (\<forall>h n v. hl_insert lib h n v = None \<longleftrightarrow> \<not> valid_header n v)
     \<and> (\<forall>h n v. hl_append lib h n v = None \<longleftrightarrow> \<not> valid_header n v)
     \<and> (\<forall>h n v h' m. hl_insert lib h n v = Some h' \<longrightarrow>
          hl_values lib h' m = (if eq_ignore_ascii_case m n then [v] else hl_values lib h m))
     \<and> (\<forall>h n v h' m. hl_append lib h n v = Some h' \<longrightarrow>
          hl_values lib h' m = (if eq_ignore_ascii_case m n then hl_values lib h m @ [v] else hl_values lib h m))
     \<and> (\<forall>h n m. hl_values lib (hl_remove lib h n) m = (if eq_ignore_ascii_case m n then [] else hl_values lib h m))
     \<and> (\<forall>status h n. hl_build lib status = Some h \<longrightarrow> hl_values lib h n = [])
     \<and> (\<forall>status. 100 \<le> status \<and> status \<le> 599 \<longrightarrow> hl_build lib status \<noteq> None)"

lemma header_lawsD:
  assumes "header_laws lib"
  shows "eq_ignore_ascii_case n m \<Longrightarrow> hl_values lib h n = hl_values lib h m"
    and "hl_insert lib h n v = None \<longleftrightarrow> \<not> valid_header n v"
    and "hl_append lib h n v = None \<longleftrightarrow> \<not> valid_header n v"
    and "hl_insert lib h n v = Some h' \<Longrightarrow> hl_values lib h' m = (if eq_ignore_ascii_case m n then [v] else hl_values lib h m)"
    and "hl_append lib h n v = Some h' \<Longrightarrow>
      hl_values lib h' m = (if eq_ignore_ascii_case m n then hl_values lib h m @ [v] else hl_values lib h m)"
    and "hl_values lib (hl_remove lib h n) m = (if eq_ignore_ascii_case m n then [] else hl_values lib h m)"
    and "hl_build lib status = Some r \<Longrightarrow> hl_values lib r n = []"
    and "100 \<le> status \<Longrightarrow> status \<le> 599 \<Longrightarrow> hl_build lib status \<noteq> None"
  using assms by (simp_all only: header_laws_def simp_thms)

text \<open>An instance: an association list from lower-case names to values.\<close>

definition HeaderMap :: "(string \<times> string) list HeaderLib" where
  "HeaderMap = \<lparr>
     hl_values = (\<lambda>h n. map snd (filter (\<lambda>e. fst e = to_ascii_lowercase n) h)),
     hl_insert = (\<lambda>h n v. if valid_header n v then Some (filter (\<lambda>e. fst e \<noteq> to_ascii_lowercase n) h @ [(to_ascii_lowercase n, v)]) else None),
     hl_append = (\<lambda>h n v. if valid_header n v then Some (h @ [(to_ascii_lowercase n, v)]) else None),
     hl_remove = (\<lambda>h n. filter (\<lambda>e. fst e \<noteq> to_ascii_lowercase n) h),
     hl_build = (\<lambda>status. if 100 \<le> status \<and> status \<le> 599 then Some [] else None) \<rparr>"

lemma HeaderMap_laws: "header_laws HeaderMap"
proof -
  have eq: "eq_ignore_ascii_case m n \<longleftrightarrow> to_ascii_lowercase m = to_ascii_lowercase n" for m n
    by (simp add: eq_ignore_ascii_case_def)
  have f1: "filter (\<lambda>e. fst e = a) (filter (\<lambda>e. fst e \<noteq> b) h) = (if a = b then [] else filter (\<lambda>e. fst e = a) h)"
    for a b and h :: "(string \<times> string) list" by (induction h) auto
  show ?thesis unfolding header_laws_def HeaderMap_def
    by (intro conjI allI impI) (auto simp: eq f1 simp del: filter_filter split: if_splits)
qed

section \<open>Header modifiers, \<open>filters/headers.rs\<close>\<close>

primrec insert_all :: "'h HeaderLib \<Rightarrow> 'h \<Rightarrow> HeaderOperation list \<Rightarrow> 'h option" where
  "insert_all lib h [] = Some h"
| "insert_all lib h (op # ops) =
     (case hl_insert lib h (ho_name op) (ho_value op) of None \<Rightarrow> None | Some h \<Rightarrow> insert_all lib h ops)"

primrec append_all :: "'h HeaderLib \<Rightarrow> 'h \<Rightarrow> HeaderOperation list \<Rightarrow> 'h option" where
  "append_all lib h [] = Some h"
| "append_all lib h (op # ops) =
     (case hl_append lib h (ho_name op) (ho_value op) of None \<Rightarrow> None | Some h \<Rightarrow> append_all lib h ops)"

definition apply_header_modifier :: "'h HeaderLib \<Rightarrow> 'h \<Rightarrow> HeaderModifier \<Rightarrow> 'h option" where
  "apply_header_modifier lib h modifier =
     (let h = foldl (hl_remove lib) h (hm_remove modifier) in
      case insert_all lib h (hm_set modifier) of
        None \<Rightarrow> None
      | Some h \<Rightarrow> append_all lib h (hm_add modifier))"

section \<open>Default security headers, \<open>filters.rs\<close>\<close>

definition security_defaults :: "(string \<times> string) list" where
  "security_defaults =
     [(''x-content-type-options'', ''nosniff''),
      (''x-frame-options'', ''DENY''),
      (''referrer-policy'', ''strict-origin-when-cross-origin''),
      (''x-permitted-cross-domain-policies'', ''none''),
      (''cross-origin-opener-policy'', ''same-origin'')]"

primrec default_headers :: "'h HeaderLib \<Rightarrow> 'h \<Rightarrow> (string \<times> string) list \<Rightarrow> 'h option" where
  "default_headers lib h [] = Some h"
| "default_headers lib h (d # defaults) =
     (if hl_values lib h (fst d) = []
      then case hl_insert lib h (fst d) (snd d) of None \<Rightarrow> None | Some h \<Rightarrow> default_headers lib h defaults
      else default_headers lib h defaults)"

definition apply_default_security_headers :: "'h HeaderLib \<Rightarrow> 'h \<Rightarrow> 'h option" where
  "apply_default_security_headers lib response = default_headers lib response security_defaults"

section \<open>Direct responses, \<open>extensions.rs\<close>\<close>

definition direct_response_filter :: "Filter list \<Rightarrow> DirectResponseFilter option" where
  "direct_response_filter filters =
     find_map (\<lambda>filter'.
       case fl_extension_ref filter' of
         None \<Rightarrow> None
       | Some item \<Rightarrow>
           if ef_resolved item \<and> ef_extension_type item = ''DirectResponse'' then ef_direct_response item else None) filters"

definition extension_filter_supported :: "ExtensionFilter \<Rightarrow> bool" where
  "extension_filter_supported filter' \<longleftrightarrow>
     ef_resolved filter' \<and> (if ef_extension_type filter' = ''DirectResponse'' then ef_direct_response filter' \<noteq> None else False)"

definition extension_filters_supported :: "Filter list \<Rightarrow> bool" where
  "extension_filters_supported filters \<longleftrightarrow>
     list_all extension_filter_supported (List.map_filter fl_extension_ref filters)"

definition normalize_status_code :: "16 word \<Rightarrow> 16 word" where
  "normalize_status_code status_code = (if 100 \<le> status_code \<and> status_code \<le> 599 then status_code else 500)"

definition build_direct_response :: "'h HeaderLib \<Rightarrow> DirectResponseFilter \<Rightarrow> ('h \<times> string option) option" where
  "build_direct_response lib filter' =
     (let status_code = normalize_status_code (dr_status_code filter');
          body = (if dr_body filter' \<noteq> [] then Some (dr_body filter') else None)
      in case hl_build lib status_code of None \<Rightarrow> None
         | Some response \<Rightarrow>
           (case insert_all lib response (dr_headers filter') of None \<Rightarrow> None
            | Some response \<Rightarrow>
              (case body of
                 Some b \<Rightarrow>
                   (case (if dr_content_type filter' \<noteq> [] then hl_insert lib response ''content-type'' (dr_content_type filter')
                          else Some response) of None \<Rightarrow> None
                    | Some response \<Rightarrow>
                      map_option (\<lambda>r. (r, body)) (hl_insert lib response ''content-length'' (show_nat (length b))))
               | None \<Rightarrow> map_option (\<lambda>r. (r, body)) (hl_insert lib response ''content-length'' ''0''))))"

section \<open>What they do\<close>

lemma eq_ignore_ascii_case_lower: "eq_ignore_ascii_case m n \<longleftrightarrow> to_ascii_lowercase m = to_ascii_lowercase n"
  by (simp add: eq_ignore_ascii_case_def)

lemma remove_all_values:
  assumes laws: "header_laws lib"
  shows "hl_values lib (foldl (hl_remove lib) h names) m = (if list_ex (eq_ignore_ascii_case m) names then [] else hl_values lib h m)"
  by (induction names arbitrary: h) (auto simp: header_lawsD(6) [OF laws])

lemma insert_all_values:
  assumes laws: "header_laws lib"
  shows "insert_all lib h ops = Some h' \<Longrightarrow>
    hl_values lib h' m = (case find (\<lambda>op. eq_ignore_ascii_case m (ho_name op)) (rev ops) of
      None \<Rightarrow> hl_values lib h m | Some op \<Rightarrow> [ho_value op])"
proof (induction ops arbitrary: h)
  case Nil
  then show ?case by simp
next
  case (Cons op ops)
  obtain h1 where h1: "hl_insert lib h (ho_name op) (ho_value op) = Some h1" "insert_all lib h1 ops = Some h'"
    using Cons.prems by (auto split: option.splits)
  have app: "find P (xs @ [x]) = (case find P xs of None \<Rightarrow> if P x then Some x else None | Some y \<Rightarrow> Some y)"
    for P and x :: HeaderOperation and xs by (induction xs) auto
  show ?case using Cons.IH [OF h1(2)] header_lawsD(4) [OF laws h1(1), of m] by (simp add: app split: option.split)
qed

lemma insert_all_None:
  assumes laws: "header_laws lib"
  shows "insert_all lib h ops = None \<longleftrightarrow> \<not> list_all (\<lambda>op. valid_header (ho_name op) (ho_value op)) ops"
proof (induction ops arbitrary: h)
  case (Cons op ops)
  show ?case
  proof (cases "hl_insert lib h (ho_name op) (ho_value op)")
    case None
    then show ?thesis using header_lawsD(2) [OF laws, of h "ho_name op" "ho_value op"] by simp
  next
    case (Some h1)
    then show ?thesis using header_lawsD(2) [OF laws, of h "ho_name op" "ho_value op"] Cons.IH [of h1] by simp
  qed
qed simp

lemma append_all_values:
  assumes laws: "header_laws lib"
  shows "append_all lib h ops = Some h' \<Longrightarrow>
    hl_values lib h' m = hl_values lib h m @ map ho_value (filter (\<lambda>op. eq_ignore_ascii_case m (ho_name op)) ops)"
proof (induction ops arbitrary: h)
  case Nil
  then show ?case by simp
next
  case (Cons op ops)
  obtain h1 where h1: "hl_append lib h (ho_name op) (ho_value op) = Some h1" "append_all lib h1 ops = Some h'"
    using Cons.prems by (auto split: option.splits)
  show ?case using Cons.IH [OF h1(2)] header_lawsD(5) [OF laws h1(1), of m] by simp
qed

lemma append_all_None:
  assumes laws: "header_laws lib"
  shows "append_all lib h ops = None \<longleftrightarrow> \<not> list_all (\<lambda>op. valid_header (ho_name op) (ho_value op)) ops"
proof (induction ops arbitrary: h)
  case (Cons op ops)
  show ?case
  proof (cases "hl_append lib h (ho_name op) (ho_value op)")
    case None
    then show ?thesis using header_lawsD(3) [OF laws, of h "ho_name op" "ho_value op"] by simp
  next
    case (Some h1)
    then show ?thesis using header_lawsD(3) [OF laws, of h "ho_name op" "ho_value op"] Cons.IH [of h1] by simp
  qed
qed simp

text \<open>
  What a header modifier does to every header, whatever the letter case of the names: the last
  value that is set, or else the old values unless the header is removed, and after them the values
  that are added, in order. It is an error exactly when a header it sets or adds is invalid.
\<close>

theorem header_modifier_effect:
  assumes laws: "header_laws lib"
  shows "case apply_header_modifier lib h modifier of
      None \<Rightarrow> \<not> list_all (\<lambda>op. valid_header (ho_name op) (ho_value op)) (hm_set modifier @ hm_add modifier)
    | Some h' \<Rightarrow> list_all (\<lambda>op. valid_header (ho_name op) (ho_value op)) (hm_set modifier @ hm_add modifier)
        \<and> hl_values lib h' m =
          (case find (\<lambda>op. eq_ignore_ascii_case m (ho_name op)) (rev (hm_set modifier)) of
             Some op \<Rightarrow> [ho_value op]
           | None \<Rightarrow> if list_ex (eq_ignore_ascii_case m) (hm_remove modifier) then [] else hl_values lib h m)
          @ map ho_value (filter (\<lambda>op. eq_ignore_ascii_case m (ho_name op)) (hm_add modifier))"
proof (cases "insert_all lib (foldl (hl_remove lib) h (hm_remove modifier)) (hm_set modifier)")
  case None
  then have "\<not> list_all (\<lambda>op. valid_header (ho_name op) (ho_value op)) (hm_set modifier)" by (simp only: insert_all_None [OF laws] simp_thms)
  moreover have "apply_header_modifier lib h modifier = None" using None by (simp add: apply_header_modifier_def)
  ultimately show ?thesis by simp
next
  case (Some h1)
  note h1 = this
  have set: "list_all (\<lambda>op. valid_header (ho_name op) (ho_value op)) (hm_set modifier)" using insert_all_None [OF laws, of _ "hm_set modifier"] Some by (metis option.distinct(1))
  show ?thesis
  proof (cases "append_all lib h1 (hm_add modifier)")
    case None
    then have "\<not> list_all (\<lambda>op. valid_header (ho_name op) (ho_value op)) (hm_add modifier)" by (simp only: append_all_None [OF laws] simp_thms)
    moreover have "apply_header_modifier lib h modifier = None" using Some None by (simp add: apply_header_modifier_def)
    ultimately show ?thesis by simp
  next
    case (Some h2)
    have "list_all (\<lambda>op. valid_header (ho_name op) (ho_value op)) (hm_add modifier)" using append_all_None [OF laws, of h1 "hm_add modifier"] Some by simp
    moreover have "apply_header_modifier lib h modifier = Some h2" using Some h1 by (simp add: apply_header_modifier_def)
    ultimately show ?thesis using set insert_all_values [OF laws h1, of m] append_all_values [OF laws Some, of m]
      by (simp add: remove_all_values [OF laws] split: option.split)
  qed
qed

theorem header_modifier_effect_witness:
  "let modifier = \<lparr> hm_set = [\<lparr> ho_name = ''X-A'', ho_value = ''1'' \<rparr>], hm_add = [\<lparr> ho_name = ''x-a'', ho_value = ''2'' \<rparr>], hm_remove = [''Server''] \<rparr>;
       h = [(''server'', ''s''), (''x-a'', ''0'')]
   in \<exists>h'. apply_header_modifier HeaderMap h modifier = Some h' \<and> hl_values HeaderMap h' ''x-A'' = [''1'', ''2'']"
proof -
  let ?m = "\<lparr> hm_set = [\<lparr> ho_name = ''X-A'', ho_value = ''1'' \<rparr>], hm_add = [\<lparr> ho_name = ''x-a'', ho_value = ''2'' \<rparr>], hm_remove = [''Server''] \<rparr>"
  have "find (\<lambda>op. eq_ignore_ascii_case ''x-A'' (ho_name op)) (rev (hm_set ?m)) = Some \<lparr> ho_name = ''X-A'', ho_value = ''1'' \<rparr>"
    "filter (\<lambda>op. eq_ignore_ascii_case ''x-A'' (ho_name op)) (hm_add ?m) = [\<lparr> ho_name = ''x-a'', ho_value = ''2'' \<rparr>]"
    "list_all (\<lambda>op. valid_header (ho_name op) (ho_value op)) (hm_set ?m @ hm_add ?m)" by code_simp+
  then show ?thesis using header_modifier_effect [OF HeaderMap_laws, where h = "[(''server'', ''s''), (''x-a'', ''0'')]" and modifier = ?m and m = "''x-A''"]
    by (simp split: option.splits)
qed

lemma default_headers_values:
  assumes laws: "header_laws lib"
  shows "list_all (\<lambda>d. valid_header (fst d) (snd d)) ds \<Longrightarrow> distinct (map (\<lambda>d. to_ascii_lowercase (fst d)) ds) \<Longrightarrow>
    \<exists>h'. default_headers lib h ds = Some h' \<and>
      (\<forall>m. hl_values lib h' m = (if hl_values lib h m \<noteq> [] then hl_values lib h m
         else case find (\<lambda>d. eq_ignore_ascii_case m (fst d)) ds of None \<Rightarrow> [] | Some d \<Rightarrow> [snd d]))"
proof (induction ds arbitrary: h)
  case Nil
  then show ?case by simp
next
  case (Cons d ds)
  show ?case
  proof (cases "hl_values lib h (fst d) = []")
    case True
    obtain h1 where h1: "hl_insert lib h (fst d) (snd d) = Some h1"
      using header_lawsD(2) [OF laws, of h "fst d" "snd d"] Cons.prems(1) by (cases "hl_insert lib h (fst d) (snd d)") simp_all
    obtain h' where h': "default_headers lib h1 ds = Some h'"
      "\<And>m. hl_values lib h' m = (if hl_values lib h1 m \<noteq> [] then hl_values lib h1 m
         else case find (\<lambda>d. eq_ignore_ascii_case m (fst d)) ds of None \<Rightarrow> [] | Some d \<Rightarrow> [snd d])"
      using Cons.IH [of h1] Cons.prems by auto
    have "hl_values lib h m = []" if "eq_ignore_ascii_case m (fst d)" for m using header_lawsD(1) [OF laws that] True by simp
    then show ?thesis using True h1 h' header_lawsD(4) [OF laws h1] by auto
  next
    case False
    obtain h' where h': "default_headers lib h ds = Some h'"
      "\<And>m. hl_values lib h' m = (if hl_values lib h m \<noteq> [] then hl_values lib h m
         else case find (\<lambda>d. eq_ignore_ascii_case m (fst d)) ds of None \<Rightarrow> [] | Some d \<Rightarrow> [snd d])"
      using Cons.IH [of h] Cons.prems by auto
    have "hl_values lib h m \<noteq> []" if "eq_ignore_ascii_case m (fst d)" for m using header_lawsD(1) [OF laws that] False by simp
    then show ?thesis using False h' by auto
  qed
qed

text \<open>Adding the defaults never fails, keeps every header there is, and adds nothing else.\<close>

lemma default_security_values:
  assumes laws: "header_laws lib"
  shows "\<exists>h'. apply_default_security_headers lib h = Some h' \<and>
    (\<forall>m. hl_values lib h' m = (if hl_values lib h m \<noteq> [] then hl_values lib h m
       else case find (\<lambda>d. eq_ignore_ascii_case m (fst d)) security_defaults of None \<Rightarrow> [] | Some d \<Rightarrow> [snd d]))"
proof -
  have "list_all (\<lambda>d. valid_header (fst d) (snd d)) security_defaults" by code_simp
  moreover have "distinct (map (\<lambda>d. to_ascii_lowercase (fst d)) security_defaults)" by code_simp
  ultimately show ?thesis unfolding apply_default_security_headers_def by (rule default_headers_values [OF laws])
qed

end
