(* ===== verification/Url_Rewrite.thy ===== *)
theory Url_Rewrite
  imports Http_Headers Matching
begin

text \<open>
  Redirects and rewrites of paths, \<open>ntgw-http/src/filters/redirect.rs\<close> and \<open>build_redirect_location\<close> of
  \<open>ntgw-http/src/filters.rs\<close>. What the code reads of the session and the request header of the proxy framework is a
  parameter: \<open>SessionView\<close> has whether the connection is encrypted and the address of the server,
  \<open>RequestLib\<close> the parts of the URI, how it is replaced, and the headers.

  A prefix that matched a route is replaced segment by segment.
\<close>

section \<open>Paths\<close>

definition trim_end_matches :: "char \<Rightarrow> string \<Rightarrow> string" where
  "trim_end_matches c s = rev (dropWhile (\<lambda>x. x = c) (rev s))"

definition if_empty :: "string \<Rightarrow> string \<Rightarrow> string" where
  "if_empty s fallback = (if s = [] then fallback else s)"

definition normalize_prefix :: "string \<Rightarrow> string" where
  "normalize_prefix pre = (if pre = ''/'' then pre else trim_end_matches CHR ''/'' pre)"

definition path_after_prefix :: "string \<Rightarrow> string \<Rightarrow> string option" where
  "path_after_prefix path pre =
     (if pre = ''/'' then Some path
      else if path = pre then Some []
      else strip_prefix pre path)"

definition normalize_replacement :: "string \<Rightarrow> string" where
  "normalize_replacement replacement =
     (if replacement = [] then ''/''
      else if starts_with replacement ''/'' then if_empty (trim_end_matches CHR ''/'' replacement) ''/''
      else if_empty (''/'' @ trim_end_matches CHR ''/'' replacement) ''/'')"

definition rewrite_prefix_path :: "string \<Rightarrow> string \<Rightarrow> string \<Rightarrow> string" where
  "rewrite_prefix_path path matched_prefix replacement =
     (case path_after_prefix path (normalize_prefix matched_prefix) of
        None \<Rightarrow> path
      | Some remainder \<Rightarrow>
          if replacement = [] then
            (if remainder = [] then ''/''
             else if starts_with remainder ''/'' then remainder
             else ''/'' @ remainder)
          else if remainder = [] then normalize_replacement replacement
          else let replacement = normalize_replacement replacement in
            if replacement = ''/'' then remainder
            else if remainder = ''/'' then replacement @ ''/''
            else replacement @ remainder)"

definition rewrite_path_and_query :: "string \<Rightarrow> string option \<Rightarrow> PathModifier \<Rightarrow> MatchedHttpPath option \<Rightarrow> string" where
  "rewrite_path_and_query path query modifier matched_http_path =
     (let rewritten_path =
        (if pm_modifier_type modifier = ''ReplaceFullPath'' \<and> pm_replace_full_path modifier \<noteq> []
         then pm_replace_full_path modifier
         else if pm_modifier_type modifier = ''ReplacePrefixMatch''
         then rewrite_prefix_path path (case matched_http_path of None \<Rightarrow> ''/'' | Some item \<Rightarrow> mp_path item)
                (pm_replace_prefix_match modifier)
         else path)
      in case query of
           Some q \<Rightarrow> if q \<noteq> [] then rewritten_path @ ''?'' @ q else rewritten_path
         | None \<Rightarrow> rewritten_path)"

section \<open>Redirects\<close>

record SessionView =
  sv_tls :: bool
  sv_server_addr :: "(string \<times> u32 option) option"

record 'q RequestLib =
  rl_headers :: "'q HeaderLib"
  rl_path :: "'q \<Rightarrow> string"
  rl_query :: "'q \<Rightarrow> string option"
  rl_path_and_query :: "'q \<Rightarrow> string option"
  rl_set_raw_path :: "'q \<Rightarrow> string \<Rightarrow> 'q option"

definition redirect_scheme :: "string \<Rightarrow> RequestRedirectFilter \<Rightarrow> string" where
  "redirect_scheme original_scheme redirect = (if rr_scheme redirect \<noteq> [] then rr_scheme redirect else original_scheme)"

definition request_scheme :: "SessionView \<Rightarrow> string" where
  "request_scheme session = (if sv_tls session then ''https'' else ''http'')"

definition strip_port :: "string \<Rightarrow> string" where
  "strip_port host =
     (if starts_with host ''['' then
        (case split_once CHR '']'' host of Some (value, _) \<Rightarrow> value @ '']'' | None \<Rightarrow> host)
      else case split_char CHR '':'' host of h # _ \<Rightarrow> h | [] \<Rightarrow> host)"

definition redirect_hostname :: "SessionView \<Rightarrow> RequestMeta \<Rightarrow> RequestRedirectFilter \<Rightarrow> string" where
  "redirect_hostname session request redirect =
     (if rr_hostname redirect \<noteq> [] then rr_hostname redirect
      else case rq_host request of
        Some host \<Rightarrow> host
      | None \<Rightarrow> (case sv_server_addr session of Some (addr, _) \<Rightarrow> strip_port addr | None \<Rightarrow> ''localhost''))"

definition request_port :: "SessionView \<Rightarrow> RequestMeta \<Rightarrow> u32" where
  "request_port session request =
     (if rq_port request \<noteq> 0 then rq_port request
      else case sv_server_addr session of Some (_, Some port) \<Rightarrow> port | _ \<Rightarrow> 0)"

definition default_port_for_scheme :: "string \<Rightarrow> u32 option" where
  "default_port_for_scheme scheme =
     (if eq_ignore_ascii_case scheme ''http'' then Some 80
      else if eq_ignore_ascii_case scheme ''https'' then Some 443
      else None)"

definition redirect_port :: "string \<Rightarrow> string \<Rightarrow> u32 \<Rightarrow> RequestRedirectFilter \<Rightarrow> u32" where
  "redirect_port target_scheme original_scheme original_port redirect =
     (if rr_port redirect \<noteq> 0 then rr_port redirect
      else if original_port \<noteq> 0 \<and> eq_ignore_ascii_case target_scheme original_scheme then original_port
      else case default_port_for_scheme target_scheme of Some port \<Rightarrow> port | None \<Rightarrow> original_port)"

definition redirect_path_and_query :: "'q RequestLib \<Rightarrow> 'q \<Rightarrow> MatchedHttpPath \<Rightarrow> RequestRedirectFilter \<Rightarrow> string" where
  "redirect_path_and_query lib request_header matched_http_path redirect =
     (case rr_path redirect of
        Some modifier \<Rightarrow>
          rewrite_path_and_query (rl_path lib request_header) (rl_query lib request_header) modifier (Some matched_http_path)
      | None \<Rightarrow>
          (case rl_path_and_query lib request_header of Some value \<Rightarrow> value | None \<Rightarrow> rl_path lib request_header))"

definition redirect_authority :: "string \<Rightarrow> string \<Rightarrow> u32 \<Rightarrow> string" where
  "redirect_authority scheme host port =
     (let host = (if CHR '':'' \<in> set host \<and> \<not> starts_with host ''['' then ''['' @ host @ '']'' else host)
      in if (eq_ignore_ascii_case scheme ''http'' \<and> port = 80) \<or> (eq_ignore_ascii_case scheme ''https'' \<and> port = 443) \<or> port = 0
         then host
         else host @ '':'' @ show_u32 port)"

definition build_redirect_location ::
    "'q RequestLib \<Rightarrow> SessionView \<Rightarrow> 'q \<Rightarrow> RequestMeta \<Rightarrow> MatchedHttpPath \<Rightarrow> RequestRedirectFilter \<Rightarrow> string" where
  "build_redirect_location lib session request_header request matched_http_path redirect =
     (let original_scheme = request_scheme session;
          scheme = redirect_scheme original_scheme redirect;
          host = redirect_hostname session request redirect;
          port = redirect_port scheme original_scheme (request_port session request) redirect;
          path_and_query = redirect_path_and_query lib request_header matched_http_path redirect;
          authority = redirect_authority scheme host port
      in scheme @ ''://'' @ authority @ path_and_query)"

section \<open>Rewrites of a request\<close>

datatype FilterError = HeaderError | InvalidRouteFilter | UnsupportedRouteFilter

definition apply_url_rewrite ::
    "'q RequestLib \<Rightarrow> 'q \<Rightarrow> UrlRewriteFilter \<Rightarrow> MatchedHttpPath option \<Rightarrow> FilterError + 'q" where
  "apply_url_rewrite lib request rewrite matched_http_path =
     (case (if ur_hostname rewrite \<noteq> [] then hl_insert (rl_headers lib) request ''host'' (ur_hostname rewrite) else Some request) of
        None \<Rightarrow> Inl HeaderError
      | Some request \<Rightarrow>
          (case ur_path rewrite of
             None \<Rightarrow> Inr request
           | Some modifier \<Rightarrow>
               let rewritten = rewrite_path_and_query (rl_path lib request) (rl_query lib request) modifier matched_http_path in
               (case rl_set_raw_path lib request rewritten of
                  None \<Rightarrow> Inl InvalidRouteFilter
                | Some request \<Rightarrow> Inr request)))"

section \<open>A matched prefix is replaced\<close>

lemma trim_end_split: "\<exists>n. s = trim_end_matches c s @ replicate n c"
proof -
  have "rev s = takeWhile (\<lambda>x. x = c) (rev s) @ dropWhile (\<lambda>x. x = c) (rev s)" by simp
  moreover have "takeWhile (\<lambda>x. x = c) (rev s) = replicate (length (takeWhile (\<lambda>x. x = c) (rev s))) c"
    by (rule replicate_length_same [symmetric]) (auto dest: set_takeWhileD)
  ultimately have "s = rev (dropWhile (\<lambda>x. x = c) (rev s)) @ rev (replicate (length (takeWhile (\<lambda>x. x = c) (rev s))) c)"
    by (metis rev_append rev_rev_ident)
  then show ?thesis unfolding trim_end_matches_def rev_replicate by blast
qed

lemma starts_with_slash: "starts_with s ''/'' \<longleftrightarrow> s \<noteq> [] \<and> hd s = CHR ''/''"
  by (cases s) (auto simp: starts_with_iff)

lemma trim_end_last: "trim_end_matches c s \<noteq> [] \<Longrightarrow> last (trim_end_matches c s) \<noteq> c"
  using hd_dropWhile [of "\<lambda>x. x = c" "rev s"] by (simp add: trim_end_matches_def last_rev)

text \<open>The replacement without its trailing slashes, with one in front unless it is empty.\<close>

definition replacement_base :: "string \<Rightarrow> string" where
  "replacement_base replacement =
     (let r = trim_end_matches CHR ''/'' replacement in if r = [] \<or> starts_with r ''/'' then r else ''/'' @ r)"

text \<open>What is left of a path behind a prefix that ends without a slash.\<close>

definition path_rest :: "string \<Rightarrow> string \<Rightarrow> string" where
  "path_rest path pre = drop (length (trim_end_matches CHR ''/'' pre)) path"

lemma normalize_replacement_base: "normalize_replacement replacement = if_empty (replacement_base replacement) ''/''"
proof (cases "trim_end_matches CHR ''/'' replacement = []")
  case True
  obtain n where "replacement = replicate n CHR ''/''" using trim_end_split [of replacement "CHR ''/''"] True by auto
  then have "replacement = [] \<or> starts_with replacement ''/''" by (cases n) (simp_all add: starts_with_iff)
  then show ?thesis using True by (auto simp: normalize_replacement_def replacement_base_def if_empty_def)
next
  case False
  obtain n where n: "replacement = trim_end_matches CHR ''/'' replacement @ replicate n CHR ''/''" using trim_end_split by blast
  have "starts_with (trim_end_matches CHR ''/'' replacement) ''/'' \<longleftrightarrow> starts_with replacement ''/''"
    using False arg_cong [OF n, of hd] by (auto simp: starts_with_slash trim_end_matches_def)
  moreover have "replacement \<noteq> []" using False by (auto simp: trim_end_matches_def)
  ultimately show ?thesis using False by (auto simp: normalize_replacement_def replacement_base_def if_empty_def Let_def)
qed

lemma replacement_base_cases:
  "replacement_base replacement = [] \<or> (hd (replacement_base replacement) = CHR ''/'' \<and> replacement_base replacement \<noteq> ''/'')"
proof (cases "trim_end_matches CHR ''/'' replacement = []")
  case False
  then show ?thesis using trim_end_last [OF False] by (auto simp: replacement_base_def Let_def starts_with_slash)
qed (simp add: replacement_base_def)

lemma matched_prefix_split:
  assumes "matches_path_prefix pre path" and "starts_with path ''/''"
  shows "path = trim_end_matches CHR ''/'' pre @ path_rest path pre"
    and "path_rest path pre = [] \<or> hd (path_rest path pre) = CHR ''/''"
proof -
  let ?t = "trim_end_matches CHR ''/'' pre"
  have "\<exists>r. path = ?t @ r \<and> (r = [] \<or> hd r = CHR ''/'')"
  proof (cases "pre = ''/''")
    case True
    then show ?thesis using assms(2) by (auto simp: trim_end_matches_def starts_with_slash)
  next
    case False
    then obtain rest where rest: "path = pre @ rest" "rest = [] \<or> ends_with_char pre CHR ''/'' \<or> hd rest = CHR ''/''"
      using assms(1) by (auto simp: matches_path_prefix_iff)
    obtain n where n: "pre = ?t @ replicate n CHR ''/''" using trim_end_split by blast
    have "replicate n CHR ''/'' @ rest = [] \<or> hd (replicate n CHR ''/'' @ rest) = CHR ''/''"
    proof (cases n)
      case 0
      then have "\<not> ends_with_char pre CHR ''/''" using n trim_end_last [of "CHR ''/''" pre] by (auto simp: ends_with_char_def)
      then show ?thesis using 0 rest(2) by auto
    qed simp
    moreover have "path = ?t @ (replicate n CHR ''/'' @ rest)" using n rest(1) by (metis append.assoc)
    ultimately show ?thesis by blast
  qed
  then obtain r where r: "path = ?t @ r" "r = [] \<or> hd r = CHR ''/''" by blast
  have "path_rest path pre = r" unfolding path_rest_def by (subst r(1)) simp
  then show "path = ?t @ path_rest path pre" "path_rest path pre = [] \<or> hd (path_rest path pre) = CHR ''/''" using r by simp_all
qed

lemma after_matched_prefix:
  assumes "path = trim_end_matches CHR ''/'' pre @ path_rest path pre"
  shows "path_after_prefix path (normalize_prefix pre) = Some (path_rest path pre)"
proof (cases "pre = ''/''")
  case True
  then show ?thesis by (simp add: normalize_prefix_def path_after_prefix_def path_rest_def trim_end_matches_def)
next
  case False
  let ?t = "trim_end_matches CHR ''/'' pre"
  have "?t \<noteq> ''/''" using trim_end_last [of "CHR ''/''" pre] by auto
  moreover have "path = ?t \<Longrightarrow> path_rest path pre = []" by (simp add: path_rest_def)
  moreover have "strip_prefix ?t path = Some (path_rest path pre)" using assms by (simp add: strip_prefix_Some)
  ultimately show ?thesis using False by (simp add: normalize_prefix_def path_after_prefix_def)
qed

text \<open>
  Replacing the prefix of a matched route. When the route of the request matched by path prefix, the
  rewritten path is the replacement without its trailing slashes followed by what the path has behind
  the prefix, which starts at a segment boundary, or a slash if both are empty; so whole segments are
  replaced, slashes are neither lost nor doubled, and the path stays absolute.
\<close>

theorem prefix_rewrite_replaces_segments:
  assumes "matches_path_prefix pre path" and "starts_with path ''/''"
  shows "rewrite_prefix_path path pre replacement = if_empty (replacement_base replacement @ path_rest path pre) ''/''
    \<and> path = trim_end_matches CHR ''/'' pre @ path_rest path pre
    \<and> (path_rest path pre = [] \<or> starts_with (path_rest path pre) ''/'')
    \<and> starts_with (rewrite_prefix_path path pre replacement) ''/''"
proof -
  let ?rest = "path_rest path pre" and ?base = "replacement_base replacement"
  note split = matched_prefix_split [OF assms]
  have rest: "?rest = [] \<or> starts_with ?rest ''/''" using split(2) by (auto simp: starts_with_slash)
  have empty: "replacement = [] \<Longrightarrow> ?base = []" by (simp add: replacement_base_def trim_end_matches_def)
  have eq: "rewrite_prefix_path path pre replacement = if_empty (?base @ ?rest) ''/''"
  proof (cases "?base = []")
    case True
    then show ?thesis using rest
      by (auto simp: rewrite_prefix_path_def after_matched_prefix [OF split(1)] normalize_replacement_base if_empty_def Let_def)
  next
    case False
    then show ?thesis using rest replacement_base_cases [of replacement] empty
      by (auto simp: rewrite_prefix_path_def after_matched_prefix [OF split(1)] normalize_replacement_base if_empty_def Let_def)
  qed
  moreover have "starts_with (if_empty (?base @ ?rest) ''/'') ''/''"
    using rest replacement_base_cases [of replacement] by (auto simp: if_empty_def starts_with_slash hd_append)
  ultimately show ?thesis using split(1) rest by simp
qed

theorem prefix_rewrite_replaces_segments_witness:
  "rewrite_prefix_path ''/foo/bar'' ''/foo/'' ''xyz/'' = ''/xyz/bar'' \<and> starts_with (rewrite_prefix_path ''/foo/bar'' ''/foo/'' ''xyz/'') ''/''"
proof -
  have "matches_path_prefix ''/foo/'' ''/foo/bar''" "starts_with ''/foo/bar'' ''/''" by code_simp+
  from prefix_rewrite_replaces_segments [OF this, of "''xyz/''"]
  show ?thesis by (simp add: replacement_base_def path_rest_def trim_end_matches_def if_empty_def starts_with_def)
qed

end
