(* ===== verification/Cors.thy ===== *)
theory Cors
  imports Http_Headers
begin

text \<open>
  Cross-origin requests, \<open>ntgw-http/src/filters/cors.rs\<close>: which origins a filter allows, and the headers it writes into
  a response. The headers of the request are the map of \<open>RequestMeta\<close>, with lower-case names.
\<close>

section \<open>Origins\<close>

record ParsedOrigin =
  po_scheme :: string
  po_host :: string
  po_port :: "16 word"

definition ends_with :: "string \<Rightarrow> string \<Rightarrow> bool" where
  "ends_with s suffix \<longleftrightarrow> length suffix \<le> length s \<and> drop (length s - length suffix) s = suffix"

definition default_port :: "string \<Rightarrow> (16 word) option" where
  "default_port scheme =
     (if eq_ignore_ascii_case scheme ''http'' then Some 80
      else if eq_ignore_ascii_case scheme ''https'' then Some 443
      else None)"

text \<open>\<open>parse::<u16>\<close> of a string of digits.\<close>

definition parse_u16_digits :: "string \<Rightarrow> (16 word) option" where
  "parse_u16_digits s = (let n = decimal_value 0 s in if n < 2 ^ 16 then Some (of_nat n) else None)"

definition split_host_port :: "string \<Rightarrow> 16 word \<Rightarrow> (string \<times> 16 word) option" where
  "split_host_port authority dflt =
     (case rsplit_once CHR '':'' authority of
        None \<Rightarrow> Some (authority, dflt)
      | Some (host, port) \<Rightarrow>
          if host = [] \<or> port = [] \<or> \<not> list_all is_ascii_digit port then Some (authority, dflt)
          else map_option (\<lambda>p. (host, p)) (parse_u16_digits port))"

definition parse_origin :: "string \<Rightarrow> ParsedOrigin option" where
  "parse_origin value =
     (case split_once_str ''://'' value of
        None \<Rightarrow> None
      | Some (scheme, authority) \<Rightarrow>
          if \<not> eq_ignore_ascii_case scheme ''http'' \<and> \<not> eq_ignore_ascii_case scheme ''https'' then None
          else if authority = [] \<or> CHR ''/'' \<in> set authority \<or> CHR ''?'' \<in> set authority then None
          else case default_port scheme of
            None \<Rightarrow> None
          | Some dflt \<Rightarrow>
              (case split_host_port authority dflt of
                 None \<Rightarrow> None
               | Some (host, port) \<Rightarrow>
                   if host = [] then None
                   else Some \<lparr> po_scheme = scheme, po_host = host, po_port = port \<rparr>))"

definition host_pattern_matches :: "string \<Rightarrow> string \<Rightarrow> bool" where
  "host_pattern_matches pattern host =
     (if pattern = ''*'' then True
      else if CHR ''*'' \<notin> set pattern then eq_ignore_ascii_case pattern host
      else let pattern = to_ascii_lowercase pattern; host = to_ascii_lowercase host in
        case split_once CHR ''*'' pattern of
          None \<Rightarrow> False
        | Some (pre, suffix) \<Rightarrow> starts_with host pre \<and> ends_with host suffix \<and> length host > length pre + length suffix)"

definition origin_matches :: "string \<Rightarrow> string \<Rightarrow> bool" where
  "origin_matches allowed origin =
     (if eq_ignore_ascii_case allowed origin then True
      else case parse_origin allowed of
        None \<Rightarrow> False
      | Some allowed \<Rightarrow>
          (case parse_origin origin of
             None \<Rightarrow> False
           | Some origin \<Rightarrow>
               if \<not> eq_ignore_ascii_case (po_scheme allowed) (po_scheme origin) \<or> po_port allowed \<noteq> po_port origin then False
               else host_pattern_matches (po_host allowed) (po_host origin)))"

section \<open>The filter\<close>

type_synonym request_headers = "string list btree"

definition cors_request_header :: "request_headers \<Rightarrow> string \<Rightarrow> string option" where
  "cors_request_header headers name =
     (case map_of headers name of
        Some (value # _) \<Rightarrow> if value \<noteq> [] then Some value else None
      | _ \<Rightarrow> None)"

definition is_cors_preflight_request :: "string option \<Rightarrow> request_headers \<Rightarrow> bool" where
  "is_cors_preflight_request request_method headers \<longleftrightarrow>
     (case request_method of None \<Rightarrow> False | Some method' \<Rightarrow> eq_ignore_ascii_case method' ''OPTIONS'')
     \<and> cors_request_header headers ''access-control-request-method'' \<noteq> None"

definition request_has_credentials :: "request_headers \<Rightarrow> bool" where
  "request_has_credentials headers \<longleftrightarrow>
     list_ex (\<lambda>name. cors_request_header headers name \<noteq> None) [''cookie'', ''authorization'', ''proxy-authorization'']"

definition cors_allow_origin :: "CorsFilter \<Rightarrow> string \<Rightarrow> request_headers \<Rightarrow> string option" where
  "cors_allow_origin cors origin headers =
     (if list_ex (\<lambda>allowed. allowed = ''*'') (cf_allow_origins cors) then
        (if cf_allow_credentials cors \<or> request_has_credentials headers then Some origin else Some ''*'')
      else if list_ex (\<lambda>allowed. origin_matches allowed origin) (cf_allow_origins cors) then Some origin else None)"

fun join_header_values :: "string list \<Rightarrow> string" where
  "join_header_values [] = []"
| "join_header_values [v] = v"
| "join_header_values (v # vs) = v @ '', '' @ join_header_values vs"

definition cors_allow_methods :: "CorsFilter \<Rightarrow> request_headers \<Rightarrow> string option" where
  "cors_allow_methods cors headers =
     (if cf_allow_methods cors = [] then None
      else if cf_allow_credentials cors \<and> list_ex (\<lambda>m. m = ''*'') (cf_allow_methods cors)
      then cors_request_header headers ''access-control-request-method''
      else Some (join_header_values (cf_allow_methods cors)))"

definition cors_allow_headers :: "CorsFilter \<Rightarrow> request_headers \<Rightarrow> string option" where
  "cors_allow_headers cors headers =
     (if cf_allow_headers cors = [] then None
      else if cf_allow_credentials cors \<and> list_ex (\<lambda>h. h = ''*'') (cf_allow_headers cors)
      then cors_request_header headers ''access-control-request-headers''
      else Some (join_header_values (cf_allow_headers cors)))"

text \<open>A header that is written when there is a value and removed when there is none.\<close>

definition put_header :: "'h HeaderLib \<Rightarrow> 'h \<Rightarrow> string \<Rightarrow> string option \<Rightarrow> 'h option" where
  "put_header lib response name value =
     (case value of Some v \<Rightarrow> hl_insert lib response name v | None \<Rightarrow> Some (hl_remove lib response name))"

definition apply_cors_filter ::
    "'h HeaderLib \<Rightarrow> 'h \<Rightarrow> CorsFilter \<Rightarrow> string option \<Rightarrow> request_headers option \<Rightarrow> 'h option" where
  "apply_cors_filter lib response cors request_method request_headers =
     (case request_headers of
        None \<Rightarrow> Some response
      | Some headers \<Rightarrow>
          (case map_of headers ''origin'' of
             Some (origin # _) \<Rightarrow>
               (case cors_allow_origin cors origin headers of
                  None \<Rightarrow> Some response
                | Some allow_origin \<Rightarrow>
                    Option.bind (hl_insert lib response ''access-control-allow-origin'' allow_origin) (\<lambda>response.
                    Option.bind (if allow_origin \<noteq> ''*'' then hl_append lib response ''vary'' ''Origin'' else Some response) (\<lambda>response.
                    Option.bind (put_header lib response ''access-control-allow-credentials''
                        (if cf_allow_credentials cors then Some ''true'' else None)) (\<lambda>response.
                    Option.bind (put_header lib response ''access-control-expose-headers''
                        (if cf_expose_headers cors \<noteq> [] then Some (join_header_values (cf_expose_headers cors)) else None)) (\<lambda>response.
                    let preflight = is_cors_preflight_request request_method headers in
                    Option.bind (put_header lib response ''access-control-allow-methods''
                        (if preflight then cors_allow_methods cors headers else None)) (\<lambda>response.
                    Option.bind (put_header lib response ''access-control-allow-headers''
                        (if preflight then cors_allow_headers cors headers else None)) (\<lambda>response.
                    put_header lib response ''access-control-max-age''
                        (if preflight then map_option show_u32 (cf_max_age cors) else None))))))))
           | _ \<Rightarrow> Some response))"

section \<open>What the response says\<close>

primrec header_value :: "string option \<Rightarrow> string list" where
  "header_value None = []"
| "header_value (Some v) = [v]"

lemma put_header_values:
  assumes laws: "header_laws lib" and put: "put_header lib h n v = Some h'"
  shows "hl_values lib h' m = (if eq_ignore_ascii_case m n then header_value v else hl_values lib h m)"
proof (cases v)
  case None
  then show ?thesis using put header_lawsD(6) [OF laws, of h n m] by (auto simp: put_header_def)
next
  case (Some x)
  then show ?thesis using put header_lawsD(4) [OF laws, of h n x h' m] by (simp add: put_header_def)
qed

lemma cors_names_lower:
  "to_ascii_lowercase ''access-control-allow-origin'' = ''access-control-allow-origin''"
  "to_ascii_lowercase ''access-control-allow-credentials'' = ''access-control-allow-credentials''"
  "to_ascii_lowercase ''access-control-expose-headers'' = ''access-control-expose-headers''"
  "to_ascii_lowercase ''access-control-allow-methods'' = ''access-control-allow-methods''"
  "to_ascii_lowercase ''access-control-allow-headers'' = ''access-control-allow-headers''"
  "to_ascii_lowercase ''access-control-max-age'' = ''access-control-max-age''"
  "to_ascii_lowercase ''vary'' = ''vary''"
  by code_simp+

lemma cors_allow_origin_eq:
  "cors_allow_origin cors origin headers =
     (if ''*'' \<in> set (cf_allow_origins cors) \<or> (\<exists>p \<in> set (cf_allow_origins cors). origin_matches p origin)
      then Some (if ''*'' \<in> set (cf_allow_origins cors) \<and> \<not> cf_allow_credentials cors \<and> \<not> request_has_credentials headers
                 then ''*'' else origin)
      else None)"
  by (auto simp: cors_allow_origin_def list_ex_iff)



text \<open>The origins a filter with a wildcard lets in: proper subdomains on the same port.\<close>

lemma wildcard_host_subdomain:
  assumes "CHR ''*'' \<notin> set domain" and "host_pattern_matches (''*.'' @ domain) host"
  shows "\<exists>label tail. host = label @ ''.'' @ tail \<and> label \<noteq> [] \<and> eq_ignore_ascii_case tail domain"
proof -
  let ?h = "to_ascii_lowercase host" and ?s = "''.'' @ to_ascii_lowercase domain"
  have "to_ascii_lowercase (''*.'' @ domain) = CHR ''*'' # ?s" by simp
  then have e: "ends_with ?h ?s" "length ?s < length ?h" using assms(2) by (auto simp: host_pattern_matches_def Let_def)
  define n where "n = length host - length ?s"
  have n: "0 < n" "drop n ?h = ?s" "n < length host" using e by (auto simp: n_def ends_with_def)
  have low: "to_ascii_lowercase (drop n host) = ?s" using n(2) by (simp add: to_ascii_lowercase_def drop_map)
  then obtain c tail where d: "drop n host = c # tail" "ascii_lower c = CHR ''.''" "to_ascii_lowercase tail = to_ascii_lowercase domain"
    by (cases "drop n host") (auto simp: to_ascii_lowercase_def)
  have "c = CHR ''.''" using d(2) by simp
  then have "host = take n host @ ''.'' @ tail" using append_take_drop_id [of n host] d(1) by simp
  moreover have "take n host \<noteq> []" using n by auto
  moreover have "eq_ignore_ascii_case tail domain" using d(3) by (simp add: eq_ignore_ascii_case_lower)
  ultimately show ?thesis by blast
qed

text \<open>What may follow the host in an origin: nothing, for the standard port of the scheme, or a colon and the digits of a port.\<close>

definition port_text :: "string \<Rightarrow> string \<Rightarrow> nat \<Rightarrow> bool" where
  "port_text scheme rest port \<longleftrightarrow>
     rest = [] \<and> port = (if eq_ignore_ascii_case scheme ''http'' then 80 else 443)
     \<or> (\<exists>digits. rest = CHR '':'' # digits \<and> digits \<noteq> [] \<and> list_all is_ascii_digit digits \<and> port = decimal_value 0 digits)"

definition web_scheme :: "string \<Rightarrow> bool" where
  "web_scheme scheme \<longleftrightarrow> eq_ignore_ascii_case scheme ''http'' \<or> eq_ignore_ascii_case scheme ''https''"

lemma web_scheme_plain: "web_scheme scheme \<Longrightarrow> CHR '':'' \<notin> set scheme"
proof
  assume "web_scheme scheme" "CHR '':'' \<in> set scheme"
  then have "ascii_lower CHR '':'' \<in> set (to_ascii_lowercase ''http'') \<union> set (to_ascii_lowercase ''https'')"
    unfolding web_scheme_def eq_ignore_ascii_case_def by (auto simp: to_ascii_lowercase_def dest: arg_cong [where f = set])
  moreover have "ascii_lower CHR '':'' \<notin> set (to_ascii_lowercase ''http'') \<union> set (to_ascii_lowercase ''https'')" by code_simp
  ultimately show False by blast
qed

lemma split_scheme: "CHR '':'' \<notin> set scheme \<Longrightarrow> split_once_str ''://'' (scheme @ ''://'' @ authority) = Some (scheme, authority)"
  by (induction scheme) (auto simp: starts_with_def)

lemma split_once_str_Some: "split_once_str p s = Some (a, b) \<Longrightarrow> s = a @ p @ b"
  by (induction s arbitrary: a) (auto simp: starts_with_iff split: if_splits)

lemma split_host_port_text:
  assumes "CHR '':'' \<notin> set host" and "host \<noteq> []" and "port_text scheme rest port" and "port < 2 ^ 16"
    and "dflt = (if eq_ignore_ascii_case scheme ''http'' then 80 else 443)"
  shows "split_host_port (host @ rest) dflt = Some (host, of_nat port)"
proof (cases "rest = []")
  case True
  then have "rsplit_once CHR '':'' (host @ rest) = None" using assms(1) by (simp add: rsplit_once_None)
  then show ?thesis using True assms(3,5) by (auto simp: split_host_port_def port_text_def)
next
  case False
  then obtain digits where d: "rest = CHR '':'' # digits" "digits \<noteq> []" "list_all is_ascii_digit digits" "port = decimal_value 0 digits"
    using assms(3) by (auto simp: port_text_def)
  have "\<not> is_ascii_digit CHR '':''" by code_simp
  then have "CHR '':'' \<notin> set digits" using d(3) by (auto simp: list_all_iff)
  then have "rsplit_once CHR '':'' (host @ rest) = Some (host, digits)" by (simp add: rsplit_once_Some d(1))
  then show ?thesis using assms(2,4) d by (simp add: split_host_port_def parse_u16_digits_def Let_def)
qed

lemma split_host_port_Some:
  assumes "split_host_port authority dflt = Some (host, p)" and "dflt = (if eq_ignore_ascii_case scheme ''http'' then 80 else 443)"
  shows "\<exists>rest. authority = host @ rest \<and> port_text scheme rest (unat p)"
proof (cases "rsplit_once CHR '':'' authority")
  case None
  then show ?thesis using assms by (auto simp: split_host_port_def port_text_def)
next
  case (Some x)
  obtain h digits where x: "x = (h, digits)" by (cases x)
  show ?thesis
  proof (cases "h = [] \<or> digits = [] \<or> \<not> list_all is_ascii_digit digits")
    case True
    then show ?thesis using assms Some x by (auto simp: split_host_port_def port_text_def)
  next
    case False
    then have p: "host = h" "decimal_value 0 digits < 2 ^ 16" "p = of_nat (decimal_value 0 digits)"
      using assms(1) Some x by (auto simp: split_host_port_def parse_u16_digits_def Let_def split: if_splits)
    have "authority = h @ CHR '':'' # digits" using Some x by (simp add: rsplit_once_Some)
    moreover have "unat p = decimal_value 0 digits" using p by (simp add: unat_of_nat take_bit_nat_eq_self)
    ultimately show ?thesis using False p(1) by (auto simp: port_text_def)
  qed
qed

lemma default_port_web: "web_scheme scheme \<Longrightarrow> default_port scheme = Some (if eq_ignore_ascii_case scheme ''http'' then 80 else 443)"
  by (auto simp: web_scheme_def default_port_def)

lemma parse_origin_text:
  assumes "web_scheme scheme" and "CHR '':'' \<notin> set host" and "host \<noteq> []" and "CHR ''/'' \<notin> set host" and "CHR ''?'' \<notin> set host"
    and "port_text scheme rest port" and "port < 2 ^ 16"
  shows "parse_origin (scheme @ ''://'' @ host @ rest) = Some \<lparr> po_scheme = scheme, po_host = host, po_port = of_nat port \<rparr>"
proof -
  have "\<not> is_ascii_digit CHR ''/''" "\<not> is_ascii_digit CHR ''?''" by code_simp+
  then have "CHR ''/'' \<notin> set rest" "CHR ''?'' \<notin> set rest" using assms(6) by (auto simp: port_text_def list_all_iff)
  then show ?thesis
    using assms(1,3-5) split_scheme [OF web_scheme_plain [OF assms(1)], of "host @ rest"]
      split_host_port_text [OF assms(2,3,6,7) refl] default_port_web [OF assms(1)]
    by (auto simp: parse_origin_def web_scheme_def)
qed

lemma parse_origin_Some:
  assumes "parse_origin origin = Some q"
  shows "\<exists>rest. origin = po_scheme q @ ''://'' @ po_host q @ rest \<and> port_text (po_scheme q) rest (unat (po_port q))
    \<and> CHR ''/'' \<notin> set (po_host q) \<and> CHR ''?'' \<notin> set (po_host q)"
proof -
  obtain scheme authority dflt host port where s: "split_once_str ''://'' origin = Some (scheme, authority)" "web_scheme scheme"
    "CHR ''/'' \<notin> set authority" "CHR ''?'' \<notin> set authority" "default_port scheme = Some dflt"
    "split_host_port authority dflt = Some (host, port)" "q = \<lparr> po_scheme = scheme, po_host = host, po_port = port \<rparr>"
    using assms by (auto simp: parse_origin_def web_scheme_def split: option.splits if_splits)
  have "dflt = (if eq_ignore_ascii_case scheme ''http'' then 80 else 443)" using s(5) default_port_web [OF s(2)] by simp
  from split_host_port_Some [OF s(6) this] obtain rest where "authority = host @ rest" "port_text scheme rest (unat port)" by blast
  then show ?thesis using split_once_str_Some [OF s(1)] s(3,4,7) by auto
qed

text \<open>
  C32. A wildcard origin lets in the subdomains of its domain and nothing else. An origin that matches \<open>scheme://*.domain\<close>, with or
  without a port, and is not that text itself, has the same scheme and the same port (both may leave out the standard
  port), and between them at least one character, a dot and the domain; letter case does not matter.
\<close>

theorem cors_wildcard_admits_subdomains:
  assumes "web_scheme scheme" and "\<forall>c \<in> {CHR ''*'', CHR ''/'', CHR ''?'', CHR '':''}. c \<notin> set domain"
    and "port_text scheme rest port" and "port < 2 ^ 16"
    and "origin_matches (scheme @ ''://*.'' @ domain @ rest) origin"
    and "\<not> eq_ignore_ascii_case (scheme @ ''://*.'' @ domain @ rest) origin"
  shows "\<exists>scheme' label tail rest'. origin = scheme' @ ''://'' @ label @ ''.'' @ tail @ rest'
    \<and> eq_ignore_ascii_case scheme scheme' \<and> label \<noteq> [] \<and> CHR ''/'' \<notin> set label \<and> CHR ''?'' \<notin> set label
    \<and> eq_ignore_ascii_case tail domain \<and> port_text scheme' rest' port"
proof -
  have "parse_origin (scheme @ ''://'' @ (''*.'' @ domain) @ rest) = Some \<lparr> po_scheme = scheme, po_host = ''*.'' @ domain, po_port = of_nat port \<rparr>"
    by (rule parse_origin_text) (use assms in simp_all)
  then have p: "parse_origin (scheme @ ''://*.'' @ domain @ rest) = Some \<lparr> po_scheme = scheme, po_host = ''*.'' @ domain, po_port = of_nat port \<rparr>" by simp
  obtain q where q: "parse_origin origin = Some q" "eq_ignore_ascii_case scheme (po_scheme q)" "po_port q = of_nat port"
    "host_pattern_matches (''*.'' @ domain) (po_host q)"
    using assms(5,6) p by (auto simp: origin_matches_def split: option.splits if_splits)
  obtain label tail where h: "po_host q = label @ ''.'' @ tail" "label \<noteq> []" "eq_ignore_ascii_case tail domain"
    using wildcard_host_subdomain [OF _ q(4)] assms(2) by blast
  have "unat (po_port q) = port" using q(3) assms(4) by (simp add: unat_of_nat take_bit_nat_eq_self)
  then obtain rest' where "origin = po_scheme q @ ''://'' @ po_host q @ rest'" "port_text (po_scheme q) rest' port"
    "CHR ''/'' \<notin> set (po_host q)" "CHR ''?'' \<notin> set (po_host q)" using parse_origin_Some [OF q(1)] by blast
  then show ?thesis using q(2) h by (intro exI [of _ "po_scheme q"] exI [of _ label] exI [of _ tail] exI [of _ rest']) simp
qed

theorem cors_wildcard_admits_subdomains_witness:
  "origin_matches ''http://*.a.io:81'' ''HTTP://x.A.io:81'' \<and> \<not> origin_matches ''http://*.a.io:81'' ''http://x.a.io''
   \<and> (\<exists>scheme' label tail rest'. ''HTTP://x.A.io:81'' = scheme' @ ''://'' @ label @ ''.'' @ tail @ rest'
     \<and> eq_ignore_ascii_case ''http'' scheme' \<and> label \<noteq> [] \<and> CHR ''/'' \<notin> set label \<and> CHR ''?'' \<notin> set label
     \<and> eq_ignore_ascii_case tail ''a.io'' \<and> port_text scheme' rest' 81)"
proof (intro conjI)
  have digits: "list_all is_ascii_digit ''81'' \<and> decimal_value 0 ''81'' = 81" by code_simp
  then have port: "port_text scheme '':81'' 81" for scheme by (simp add: port_text_def)
  have http: "eq_ignore_ascii_case ''http'' ''http''" "web_scheme ''http''" "web_scheme ''HTTP''" by code_simp+
  then have none: "port_text ''http'' [] 80" by (simp add: port_text_def)
  have p: "parse_origin ''http://*.a.io:81'' = Some \<lparr> po_scheme = ''http'', po_host = ''*.a.io'', po_port = 81 \<rparr>"
    using parse_origin_text [OF http(2) _ _ _ _ port, of "''*.a.io''"] by simp
  have q: "parse_origin ''HTTP://x.A.io:81'' = Some \<lparr> po_scheme = ''HTTP'', po_host = ''x.A.io'', po_port = 81 \<rparr>"
    using parse_origin_text [OF http(3) _ _ _ _ port, of "''x.A.io''"] by simp
  have n: "parse_origin ''http://x.a.io'' = Some \<lparr> po_scheme = ''http'', po_host = ''x.a.io'', po_port = 80 \<rparr>"
    using parse_origin_text [OF http(2) _ _ _ _ none, of "''x.a.io''"] by simp
  have other: "\<not> eq_ignore_ascii_case ''http://*.a.io:81'' ''HTTP://x.A.io:81''" "\<not> eq_ignore_ascii_case ''http://*.a.io:81'' ''http://x.a.io''" by code_simp+
  have "host_pattern_matches ''*.a.io'' ''x.A.io''" "eq_ignore_ascii_case ''http'' ''HTTP''" by code_simp+
  then show m: "origin_matches ''http://*.a.io:81'' ''HTTP://x.A.io:81''" using other(1) by (simp add: origin_matches_def p q)
  show "\<not> origin_matches ''http://*.a.io:81'' ''http://x.a.io''" using other(2) by (simp add: origin_matches_def p n)
  show "\<exists>scheme' label tail rest'. ''HTTP://x.A.io:81'' = scheme' @ ''://'' @ label @ ''.'' @ tail @ rest'
     \<and> eq_ignore_ascii_case ''http'' scheme' \<and> label \<noteq> [] \<and> CHR ''/'' \<notin> set label \<and> CHR ''?'' \<notin> set label
     \<and> eq_ignore_ascii_case tail ''a.io'' \<and> port_text scheme' rest' 81"
    using m other(1) http(2) port
    by (intro cors_wildcard_admits_subdomains [where scheme = "''http''" and domain = "''a.io''" and rest = "'':81''"]) simp_all
qed

end
