(* ===== verification/Route_Filters.thy ===== *)
theory Route_Filters
  imports Url_Rewrite Cors
begin

text \<open>
  The filters of a route, \<open>ntgw-http/src/filters.rs\<close>: which are supported, the redirect and the preflight response,
  and the loops that apply them to a request and to a response.
\<close>

definition request_redirect_filter :: "Filter list \<Rightarrow> RequestRedirectFilter option" where
  "request_redirect_filter filters = find_map fl_request_redirect filters"

definition jwt_auth_filter :: "Filter list \<Rightarrow> JwtAuthFilter option" where
  "jwt_auth_filter filters = find_map fl_jwt_auth filters"

definition is_supported_filter_type :: "string \<Rightarrow> bool" where
  "is_supported_filter_type filter_type \<longleftrightarrow> filter_type \<in> set
     [''RequestHeaderModifier'', ''ResponseHeaderModifier'', ''CORS'', ''RequestRedirect'', ''URLRewrite'', ''RequestMirror'',
      ''ExternalAuth'', ''ExtensionRef'', ''JwtAuth'']"

definition ensure_supported_filters :: "Filter list \<Rightarrow> FilterError + unit" where
  "ensure_supported_filters filters =
     (if list_ex (\<lambda>f. \<not> is_supported_filter_type (fl_filter_type f)) filters then Inl UnsupportedRouteFilter
      else if \<not> extension_filters_supported filters then Inl UnsupportedRouteFilter
      else if list_ex (\<lambda>f. case fl_external_auth f of
             None \<Rightarrow> False
           | Some auth \<Rightarrow> \<not> (eq_ignore_ascii_case (ea_protocol auth) ''HTTP'' \<or> eq_ignore_ascii_case (ea_protocol auth) ''GRPC'')) filters
      then Inl UnsupportedRouteFilter
      else Inr ())"

definition build_redirect_response :: "'h HeaderLib \<Rightarrow> 16 word \<Rightarrow> string \<Rightarrow> 'h option" where
  "build_redirect_response lib status_code location =
     Option.bind (hl_build lib status_code) (\<lambda>response.
     Option.bind (hl_insert lib response ''location'' location) (\<lambda>response.
     hl_insert lib response ''content-length'' ''0''))"

primrec apply_request_filters ::
    "'q RequestLib \<Rightarrow> 'q \<Rightarrow> Filter list \<Rightarrow> MatchedHttpPath option \<Rightarrow> FilterError + 'q" where
  "apply_request_filters lib request [] matched_http_path = Inr request"
| "apply_request_filters lib request (f # filters) matched_http_path =
     (case fl_url_rewrite f of
        Some rewrite \<Rightarrow>
          (case apply_url_rewrite lib request rewrite matched_http_path of
             Inl e \<Rightarrow> Inl e
           | Inr request \<Rightarrow> apply_request_filters lib request filters matched_http_path)
      | None \<Rightarrow>
          (case (if fl_filter_type f = ''RequestHeaderModifier'' then fl_header_modifier f else None) of
             Some modifier \<Rightarrow>
               (case apply_header_modifier (rl_headers lib) request modifier of
                  None \<Rightarrow> Inl HeaderError
                | Some request \<Rightarrow> apply_request_filters lib request filters matched_http_path)
           | None \<Rightarrow> apply_request_filters lib request filters matched_http_path))"

primrec filter_response ::
    "'h HeaderLib \<Rightarrow> 'h \<Rightarrow> Filter list \<Rightarrow> string option \<Rightarrow> request_headers option \<Rightarrow> 'h option" where
  "filter_response lib response [] request_method headers = Some response"
| "filter_response lib response (f # filters) request_method headers =
     (if fl_filter_type f = ''ResponseHeaderModifier'' then
        (case fl_header_modifier f of
           Some modifier \<Rightarrow>
             (case apply_header_modifier lib response modifier of
                None \<Rightarrow> None
              | Some response \<Rightarrow> filter_response lib response filters request_method headers)
         | None \<Rightarrow> filter_response lib response filters request_method headers)
      else
        (case (if fl_filter_type f = ''CORS'' then fl_cors f else None) of
           Some cors \<Rightarrow>
             (case apply_cors_filter lib response cors request_method headers of
                None \<Rightarrow> None
              | Some response \<Rightarrow> filter_response lib response filters request_method headers)
         | None \<Rightarrow> filter_response lib response filters request_method headers))"

definition apply_response_filters ::
    "'h HeaderLib \<Rightarrow> 'h \<Rightarrow> Filter list \<Rightarrow> string option \<Rightarrow> request_headers option \<Rightarrow> 'h option" where
  "apply_response_filters lib response filters request_method headers =
     (case filter_response lib response filters request_method headers of
        None \<Rightarrow> None
      | Some response \<Rightarrow> apply_default_security_headers lib response)"

definition build_cors_preflight_response ::
    "'h HeaderLib \<Rightarrow> Filter list \<Rightarrow> string \<Rightarrow> request_headers \<Rightarrow> 'h option option" where
  "build_cors_preflight_response lib filters request_method headers =
     (if \<not> is_cors_preflight_request (Some request_method) headers \<or> \<not> list_ex (\<lambda>f. fl_filter_type f = ''CORS'') filters
      then Some None
      else case hl_build lib 204 of
        None \<Rightarrow> None
      | Some response \<Rightarrow>
          (case hl_insert lib response ''content-length'' ''0'' of
             None \<Rightarrow> None
           | Some response \<Rightarrow> map_option Some (apply_response_filters lib response filters (Some request_method) (Some headers))))"

text \<open>
  C30. Every response carries the security headers. Whatever the filters of the route do, their result
  gets the five default headers it lacks, keeps every header it has, and gets nothing else; adding them is
  never what fails.
\<close>

theorem responses_carry_security_headers:
  assumes laws: "header_laws lib"
  shows "case apply_response_filters lib response filters request_method headers of
      None \<Rightarrow> filter_response lib response filters request_method headers = None
    | Some r \<Rightarrow> \<exists>filtered. filter_response lib response filters request_method headers = Some filtered \<and>
        hl_values lib r m = (if hl_values lib filtered m \<noteq> [] then hl_values lib filtered m
          else case find (\<lambda>d. eq_ignore_ascii_case m (fst d)) security_defaults of None \<Rightarrow> [] | Some d \<Rightarrow> [snd d])"
proof (cases "filter_response lib response filters request_method headers")
  case None
  then show ?thesis by (simp add: apply_response_filters_def)
next
  case (Some filtered)
  obtain r where "apply_default_security_headers lib filtered = Some r"
    "hl_values lib r m = (if hl_values lib filtered m \<noteq> [] then hl_values lib filtered m
       else case find (\<lambda>d. eq_ignore_ascii_case m (fst d)) security_defaults of None \<Rightarrow> [] | Some d \<Rightarrow> [snd d])"
    using default_security_values [OF laws, of filtered] by blast
  then show ?thesis using Some by (simp add: apply_response_filters_def)
qed

theorem responses_carry_security_headers_witness:
  "let f = Filter ''ResponseHeaderModifier'' (Some \<lparr> hm_set = [\<lparr> ho_name = ''X-Frame-Options'', ho_value = ''SAMEORIGIN'' \<rparr>], hm_add = [], hm_remove = [] \<rparr>)
         None None None None None None None
   in \<exists>r. apply_response_filters HeaderMap [] [f] None None = Some r
     \<and> hl_values HeaderMap r ''x-frame-options'' = [''SAMEORIGIN''] \<and> hl_values HeaderMap r ''x-content-type-options'' = [''nosniff'']"
proof -
  let ?f = "Filter ''ResponseHeaderModifier'' (Some \<lparr> hm_set = [\<lparr> ho_name = ''X-Frame-Options'', ho_value = ''SAMEORIGIN'' \<rparr>], hm_add = [], hm_remove = [] \<rparr>)
    None None None None None None None"
  have fr: "filter_response HeaderMap [] [?f] None None = Some [(''x-frame-options'', ''SAMEORIGIN'')]" by code_simp
  obtain r where r: "apply_response_filters HeaderMap [] [?f] None None = Some r"
    using responses_carry_security_headers [OF HeaderMap_laws, of "[]" "[?f]" None None "[]"] fr by (auto split: option.splits)
  have "hl_values HeaderMap [(''x-frame-options'', ''SAMEORIGIN'')] ''x-frame-options'' = [''SAMEORIGIN'']"
    "hl_values HeaderMap [(''x-frame-options'', ''SAMEORIGIN'')] ''x-content-type-options'' = []"
    "find (\<lambda>d. eq_ignore_ascii_case ''x-content-type-options'' (fst d)) security_defaults = Some (''x-content-type-options'', ''nosniff'')"
    by code_simp+
  then show ?thesis
    using responses_carry_security_headers [OF HeaderMap_laws, of "[]" "[?f]" None None "''x-frame-options''"]
      responses_carry_security_headers [OF HeaderMap_laws, of "[]" "[?f]" None None "''x-content-type-options''"] r fr by simp
qed

end
