(* ===== verification/Tcp_Pool.thy ===== *)
theory Tcp_Pool
  imports Counters
begin

text \<open>
  The pool of upstream connections of the stream proxy, \<open>ntgw-stream/src/pool.rs\<close>. Connections are values of any type; what
  the network answers during a call, the result of a new connection and of the liveness probe of an idle one, is an
  argument of the call, \<open>PoolEnv\<close>. The counters are \<open>u64\<close> and wrap as \<open>fetch_add\<close> and \<open>fetch_sub\<close> do.
  Calls run one after the other.
\<close>

section \<open>The pool\<close>

definition MAX_CONNECTION_COUNT :: nat where
  "MAX_CONNECTION_COUNT = 32768"

type_synonym PoolKey = "string \<times> 16 word"

record 'c IdleConnection =
  ic_stream :: 'c
  ic_since :: Instant

record PoolCountersSnapshot =
  pz_active_connections :: u64
  pz_idle_connections :: u64
  pz_connection_hits :: u64
  pz_connection_misses :: u64
  pz_peak_active_connections :: u64

record 'c TcpConnectionPool =
  pc_idle :: "PoolKey \<rightharpoonup> 'c IdleConnection list"
  pc_max_idle_per_backend :: nat
  pc_idle_timeout :: Duration
  pc_active_connections :: u64
  pc_idle_connections :: u64
  pc_connection_hits :: u64
  pc_connection_misses :: u64
  pc_peak_active_connections :: u64

record StreamPoolCounters =
  sp_hits :: u32
  sp_misses :: u32

text \<open>The liveness probe, a read that must not block: closed, data pending, would block, another error.\<close>

datatype Probe = ProbeClosed | ProbeData | ProbeWouldBlock | ProbeError

record 'c PoolEnv =
  pe_now :: Instant
  pe_probe :: "'c \<Rightarrow> Probe"
  pe_connect :: "'c option"

definition pool_new :: "nat \<Rightarrow> Duration \<Rightarrow> 'c TcpConnectionPool" where
  "pool_new max_idle timeout = \<lparr>
     pc_idle = Map.empty, pc_max_idle_per_backend = min max_idle MAX_CONNECTION_COUNT, pc_idle_timeout = timeout,
     pc_active_connections = 0, pc_idle_connections = 0, pc_connection_hits = 0, pc_connection_misses = 0,
     pc_peak_active_connections = 0 \<rparr>"

definition is_enabled :: "'c TcpConnectionPool \<Rightarrow> bool" where
  "is_enabled pool \<longleftrightarrow> pc_max_idle_per_backend pool > 0"

definition set_max_idle_per_backend :: "'c TcpConnectionPool \<Rightarrow> nat \<Rightarrow> 'c TcpConnectionPool" where
  "set_max_idle_per_backend pool size' = pool\<lparr> pc_max_idle_per_backend := min size' MAX_CONNECTION_COUNT \<rparr>"

text \<open>
  The loop of \<open>get_connection\<close>: pop the last idle connection until one is young enough and alive. The
  list is given from its end; the result is the connection, if any, with what is left and the idle gauge.
\<close>

fun pop_idle :: "'c PoolEnv \<Rightarrow> Duration \<Rightarrow> 'c IdleConnection list \<Rightarrow> u64 \<Rightarrow> 'c option \<times> 'c IdleConnection list \<times> u64" where
  "pop_idle env timeout [] idle_connections = (None, [], idle_connections)"
| "pop_idle env timeout (c # cs) idle_connections =
     (let idle_connections = idle_connections - 1 in
      if pe_now env - ic_since c \<ge> timeout then pop_idle env timeout cs idle_connections
      else case pe_probe env (ic_stream c) of
        ProbeWouldBlock \<Rightarrow> (Some (ic_stream c), cs, idle_connections)
      | _ \<Rightarrow> pop_idle env timeout cs idle_connections)"

definition get_connection ::
    "'c PoolEnv \<Rightarrow> 'c TcpConnectionPool \<Rightarrow> PoolKey \<Rightarrow> ('c option \<times> StreamPoolCounters) \<times> 'c TcpConnectionPool" where
  "get_connection env pool key =
     (if \<not> is_enabled pool then ((pe_connect env, \<lparr> sp_hits = 0, sp_misses = 0 \<rparr>), pool)
      else
        let (found, pool) =
          (case pc_idle pool key of
             None \<Rightarrow> (None, pool)
           | Some entry \<Rightarrow>
               (case pop_idle env (pc_idle_timeout pool) (rev entry) (pc_idle_connections pool) of
                  (found, rest, idle_connections) \<Rightarrow>
                    (found, pool\<lparr> pc_idle := (pc_idle pool)(key \<mapsto> rev rest), pc_idle_connections := idle_connections \<rparr>)))
        in case found of
             Some stream \<Rightarrow>
               ((Some stream, \<lparr> sp_hits = 1, sp_misses = 0 \<rparr>),
                pool\<lparr> pc_connection_hits := pc_connection_hits pool + 1, pc_active_connections := pc_active_connections pool + 1 \<rparr>)
           | None \<Rightarrow>
               let pool = pool\<lparr> pc_connection_misses := pc_connection_misses pool + 1 \<rparr>;
                   pool = (case pe_connect env of
                       None \<Rightarrow> pool
                     | Some _ \<Rightarrow>
                         let pool = pool\<lparr> pc_active_connections := pc_active_connections pool + 1 \<rparr>
                         in pool\<lparr> pc_peak_active_connections := max (pc_peak_active_connections pool) (pc_active_connections pool) \<rparr>)
               in ((pe_connect env, \<lparr> sp_hits = 0, sp_misses = 1 \<rparr>), pool))"

definition return_connection :: "'c PoolEnv \<Rightarrow> 'c TcpConnectionPool \<Rightarrow> PoolKey \<Rightarrow> 'c \<Rightarrow> 'c TcpConnectionPool" where
  "return_connection env pool key stream =
     (let pool = pool\<lparr> pc_active_connections := pc_active_connections pool - 1 \<rparr> in
      if \<not> is_enabled pool then pool
      else
        let entry = (case pc_idle pool key of None \<Rightarrow> [] | Some entry \<Rightarrow> entry) in
        if length entry \<ge> pc_max_idle_per_backend pool then pool\<lparr> pc_idle := (pc_idle pool)(key \<mapsto> entry) \<rparr>
        else pool\<lparr> pc_idle_connections := pc_idle_connections pool + 1,
                   pc_idle := (pc_idle pool)(key \<mapsto> entry @ [\<lparr> ic_stream = stream, ic_since = pe_now env \<rparr>]) \<rparr>)"

primrec somes :: "'a option list \<Rightarrow> 'a list" where
  "somes [] = []"
| "somes (x # xs) = option_list x @ somes xs"

text \<open>\<open>prewarm\<close> opens as many connections as there is room for; the results of the attempts are an argument.\<close>

definition prewarm :: "'c PoolEnv \<Rightarrow> 'c TcpConnectionPool \<Rightarrow> PoolKey \<Rightarrow> nat \<Rightarrow> 'c option list \<Rightarrow> 'c TcpConnectionPool" where
  "prewarm env pool key count' connects =
     (if \<not> is_enabled pool then pool
      else
        let entry = (case pc_idle pool key of None \<Rightarrow> [] | Some entry \<Rightarrow> entry);
            available = pc_max_idle_per_backend pool - length entry;
            effective = min count' available;
            warmed = somes (take effective connects)
        in pool\<lparr> pc_idle := (pc_idle pool)(key \<mapsto> entry @ map (\<lambda>c. \<lparr> ic_stream = c, ic_since = pe_now env \<rparr>) warmed),
                 pc_idle_connections := pc_idle_connections pool + of_nat (length warmed) \<rparr>)"

definition drain :: "'c TcpConnectionPool \<Rightarrow> 'c TcpConnectionPool" where
  "drain pool = pool\<lparr> pc_idle := Map.empty, pc_idle_connections := 0 \<rparr>"

definition counter_snapshot :: "'c TcpConnectionPool \<Rightarrow> PoolCountersSnapshot" where
  "counter_snapshot pool = \<lparr>
     pz_active_connections = pc_active_connections pool, pz_idle_connections = pc_idle_connections pool,
     pz_connection_hits = pc_connection_hits pool, pz_connection_misses = pc_connection_misses pool,
     pz_peak_active_connections = pc_peak_active_connections pool \<rparr>"

section \<open>Histories\<close>

text \<open>
  Connections are numbered as they are opened. A history has the calls of the callers and what the
  network answers: a caller gets a connection, returns the \<open>i\<close>-th one that is held or drops it without
  returning it. The key a connection was opened for is kept beside the pool.
\<close>

record PoolRun =
  pn_pool :: "nat TcpConnectionPool"
  pn_held :: "(PoolKey \<times> nat) list"
  pn_next :: nat
  pn_opened_for :: "nat \<Rightarrow> PoolKey"

datatype PoolEvent =
    PoolGet PoolKey Instant "nat \<Rightarrow> Probe" bool
  | PoolReturn nat Instant
  | PoolAbandon nat
  | PoolResize nat
  | PoolPrewarm PoolKey nat Instant "bool list"
  | PoolDrain

definition pool_start :: "nat \<Rightarrow> Duration \<Rightarrow> PoolRun" where
  "pool_start max_idle timeout = \<lparr> pn_pool = pool_new max_idle timeout, pn_held = [], pn_next = 0, pn_opened_for = (\<lambda>_. ([], 0)) \<rparr>"

primrec number_connections :: "nat \<Rightarrow> bool list \<Rightarrow> nat option list" where
  "number_connections n [] = []"
| "number_connections n (ok # oks) = (if ok then Some n else None) # number_connections (Suc n) oks"

fun pool_event :: "PoolRun \<Rightarrow> PoolEvent \<Rightarrow> PoolRun" where
  "pool_event r (PoolGet key now probe connects) =
     (let env = \<lparr> pe_now = now, pe_probe = probe, pe_connect = (if connects then Some (pn_next r) else None) \<rparr> in
      case get_connection env (pn_pool r) key of
        ((conn, _), pool) \<Rightarrow>
          r\<lparr> pn_pool := pool, pn_next := Suc (pn_next r), pn_opened_for := (pn_opened_for r)(pn_next r := key),
             pn_held := pn_held r @ (case conn of None \<Rightarrow> [] | Some c \<Rightarrow> [(key, c)]) \<rparr>)"
| "pool_event r (PoolReturn i now) =
     (if i < length (pn_held r) then
        (case pn_held r ! i of (key, c) \<Rightarrow>
           r\<lparr> pn_pool := return_connection \<lparr> pe_now = now, pe_probe = (\<lambda>_. ProbeError), pe_connect = None \<rparr> (pn_pool r) key c,
              pn_held := take i (pn_held r) @ drop (Suc i) (pn_held r) \<rparr>)
      else r)"
| "pool_event r (PoolAbandon i) = r\<lparr> pn_held := take i (pn_held r) @ drop (Suc i) (pn_held r) \<rparr>"
| "pool_event r (PoolResize n) = r\<lparr> pn_pool := set_max_idle_per_backend (pn_pool r) n \<rparr>"
| "pool_event r (PoolPrewarm key n now oks) =
     (let conns = number_connections (pn_next r) oks
      in r\<lparr> pn_pool := prewarm \<lparr> pe_now = now, pe_probe = (\<lambda>_. ProbeError), pe_connect = None \<rparr> (pn_pool r) key n conns,
            pn_next := pn_next r + length oks,
            pn_opened_for := (\<lambda>c. if pn_next r \<le> c \<and> c < pn_next r + length oks then key else pn_opened_for r c) \<rparr>)"
| "pool_event r PoolDrain = r\<lparr> pn_pool := drain (pn_pool r) \<rparr>"

definition idle_streams :: "'c TcpConnectionPool \<Rightarrow> PoolKey \<Rightarrow> 'c list" where
  "idle_streams pool key = (case pc_idle pool key of None \<Rightarrow> [] | Some entry \<Rightarrow> map ic_stream entry)"

definition pool_inv :: "PoolRun \<Rightarrow> bool" where
  "pool_inv r \<longleftrightarrow>
     (\<forall>key. distinct (idle_streams (pn_pool r) key))
     \<and> (\<forall>key c. c \<in> set (idle_streams (pn_pool r) key) \<longrightarrow> c < pn_next r \<and> pn_opened_for r c = key \<and> c \<notin> snd ` set (pn_held r))
     \<and> distinct (map snd (pn_held r))
     \<and> (\<forall>key c. (key, c) \<in> set (pn_held r) \<longrightarrow> c < pn_next r \<and> pn_opened_for r c = key)"

section \<open>No connection is shared\<close>

lemma pop_idle_result:
  assumes "pop_idle env timeout cs n = (found, rest, n')"
  shows "\<exists>evicted. map ic_stream cs = evicted @ option_list found @ map ic_stream rest"
    and "found = Some c \<Longrightarrow> \<exists>x \<in> set cs. ic_stream x = c \<and> pe_probe env c = ProbeWouldBlock \<and> pe_now env - ic_since x < timeout"
proof -
  have "(\<exists>evicted. map ic_stream cs = evicted @ option_list found @ map ic_stream rest)
    \<and> (\<forall>c. found = Some c \<longrightarrow> (\<exists>x \<in> set cs. ic_stream x = c \<and> pe_probe env c = ProbeWouldBlock \<and> pe_now env - ic_since x < timeout))"
    using assms
  proof (induction cs arbitrary: n)
    case Nil
    then show ?case by simp
  next
    case (Cons c cs)
    show ?case
    proof (cases "pe_now env - ic_since c \<ge> timeout \<or> pe_probe env (ic_stream c) \<noteq> ProbeWouldBlock")
      case True
      then have "pop_idle env timeout cs (n - 1) = (found, rest, n')" using Cons.prems by (auto simp: Let_def split: if_splits Probe.splits)
      from Cons.IH [OF this] obtain evicted where
        e: "map ic_stream cs = evicted @ option_list found @ map ic_stream rest"
        "\<forall>c. found = Some c \<longrightarrow> (\<exists>x \<in> set cs. ic_stream x = c \<and> pe_probe env c = ProbeWouldBlock \<and> pe_now env - ic_since x < timeout)" by blast
      have "map ic_stream (c # cs) = (ic_stream c # evicted) @ option_list found @ map ic_stream rest" using e(1) by simp
      then show ?thesis using e(2) by (intro conjI exI [of _ "ic_stream c # evicted"]) auto
    next
      case False
      then have "found = Some (ic_stream c)" "rest = cs" using Cons.prems by (auto simp: Let_def)
      then show ?thesis using False by (intro conjI exI [of _ "[]"]) auto
    qed
  qed
  then show "\<exists>evicted. map ic_stream cs = evicted @ option_list found @ map ic_stream rest"
    "found = Some c \<Longrightarrow> \<exists>x \<in> set cs. ic_stream x = c \<and> pe_probe env c = ProbeWouldBlock \<and> pe_now env - ic_since x < timeout" by blast+
qed

lemma get_connection_streams:
  assumes "get_connection env pool key = ((conn, counters), pool')"
  shows "\<exists>evicted taken. idle_streams pool key = idle_streams pool' key @ taken @ evicted
      \<and> (\<forall>k. k \<noteq> key \<longrightarrow> idle_streams pool' k = idle_streams pool k)
      \<and> ((taken = [] \<and> conn = pe_connect env) \<or> (\<exists>c. taken = [c] \<and> conn = Some c))"
proof (cases "is_enabled pool")
  case False
  then have "pool' = pool" "conn = pe_connect env" using assms by (simp_all add: get_connection_def)
  then show ?thesis by simp
next
  case True
  show ?thesis
  proof (cases "pc_idle pool key")
    case None
    then have "conn = pe_connect env" "pc_idle pool' = pc_idle pool"
      using assms True by (auto simp: get_connection_def Let_def split: option.splits)
    then show ?thesis by (simp add: idle_streams_def)
  next
    case (Some entry)
    obtain found rest n where p: "pop_idle env (pc_idle_timeout pool) (rev entry) (pc_idle_connections pool) = (found, rest, n)" by (metis prod_cases3)
    obtain evicted where e: "map ic_stream (rev entry) = evicted @ option_list found @ map ic_stream rest"
      using pop_idle_result(1) [OF p] by blast
    have "map ic_stream entry = rev (map ic_stream (rev entry))" by (simp add: rev_map)
    then have m: "map ic_stream entry = rev (map ic_stream rest) @ option_list found @ rev evicted"
      unfolding e by (cases found) simp_all
    have s: "idle_streams pool' key = rev (map ic_stream rest)" "\<forall>k. k \<noteq> key \<longrightarrow> idle_streams pool' k = idle_streams pool k"
      "conn = (case found of None \<Rightarrow> pe_connect env | Some c \<Rightarrow> Some c)"
      using assms True Some p by (auto simp: get_connection_def idle_streams_def Let_def rev_map split: option.splits)
    have "idle_streams pool key = idle_streams pool' key @ option_list found @ rev evicted"
      using Some m s(1) by (simp add: idle_streams_def)
    moreover have "(option_list found = [] \<and> conn = pe_connect env) \<or> (\<exists>c. option_list found = [c] \<and> conn = Some c)"
      using s(3) by (cases found) simp_all
    ultimately show ?thesis using s(2) by blast
  qed
qed

lemma pool_invD:
  assumes "pool_inv r"
  shows "distinct (idle_streams (pn_pool r) key)"
    and "c \<in> set (idle_streams (pn_pool r) key) \<Longrightarrow> c < pn_next r \<and> pn_opened_for r c = key \<and> c \<notin> snd ` set (pn_held r)"
    and "distinct (map snd (pn_held r))"
    and "(key, c) \<in> set (pn_held r) \<Longrightarrow> c < pn_next r \<and> pn_opened_for r c = key"
  using assms unfolding pool_inv_def by blast+

lemma pool_invI:
  assumes "pn_pool r = pool" and "pn_held r = held" and "pn_next r = n" and "pn_opened_for r = opened_for"
    and "\<And>key. distinct (idle_streams pool key)"
    and "\<And>key c. c \<in> set (idle_streams pool key) \<Longrightarrow> c < n \<and> opened_for c = key \<and> c \<notin> snd ` set held"
    and "distinct (map snd held)"
    and "\<And>key c. (key, c) \<in> set held \<Longrightarrow> c < n \<and> opened_for c = key"
  shows "pool_inv r"
  unfolding pool_inv_def assms(1-4) using assms(5-8) by blast

lemma pool_get_inv:
  assumes inv: "pool_inv r"
  shows "pool_inv (pool_event r (PoolGet key now probe connects))"
proof -
  note I = pool_invD [OF inv]
  let ?env = "\<lparr> pe_now = now, pe_probe = probe, pe_connect = (if connects then Some (pn_next r) else None) \<rparr>"
  obtain conn counters pool' where g: "get_connection ?env (pn_pool r) key = ((conn, counters), pool')" by (metis prod.exhaust)
  obtain evicted taken where s: "idle_streams (pn_pool r) key = idle_streams pool' key @ taken @ evicted"
    "\<And>k. k \<noteq> key \<Longrightarrow> idle_streams pool' k = idle_streams (pn_pool r) k"
    "(taken = [] \<and> conn = pe_connect ?env) \<or> (\<exists>c. taken = [c] \<and> conn = Some c)" using get_connection_streams [OF g] by blast
  have sub: "c \<in> set (idle_streams (pn_pool r) k)" if "c \<in> set (idle_streams pool' k)" for c k
    using that s(1) s(2) [of k] by (cases "k = key") auto
  have dist: "distinct (idle_streams pool' k)" for k using I(1) [of k] s(1) s(2) [of k] by (cases "k = key") auto
  have fresh: "c < Suc (pn_next r) \<and> ((pn_opened_for r)(pn_next r := key)) c = key \<and> c \<notin> snd ` set (pn_held r) \<and> c \<notin> set (idle_streams pool' k)"
    if "conn = Some c" for c k
    using s(3)
  proof
    assume "taken = [] \<and> conn = pe_connect ?env"
    then have "c = pn_next r" using that by (simp split: if_splits)
    then show ?thesis using I(2,4) sub [of c k] by fastforce
  next
    assume "\<exists>c. taken = [c] \<and> conn = Some c"
    then have c: "c \<in> set (idle_streams (pn_pool r) key)" "c \<notin> set (idle_streams pool' key)" using that s(1) I(1) [of key] by auto
    moreover have "c \<notin> set (idle_streams pool' k)" using c I(2) [OF c(1)] I(2) [OF sub [of c k]] by (cases "k = key") auto
    ultimately show ?thesis using I(2) [OF c(1)] by auto
  qed
  have old: "c < Suc (pn_next r) \<and> ((pn_opened_for r)(pn_next r := key)) c = k \<and> c \<notin> snd ` set (pn_held r)" if "c \<in> set (idle_streams pool' k)" for c k
    using I(2) [OF sub [OF that]] by auto
  have held: "c < Suc (pn_next r) \<and> ((pn_opened_for r)(pn_next r := key)) c = k" if "(k, c) \<in> set (pn_held r)" for c k
    using I(4) [OF that] by auto
  show ?thesis
  proof (cases conn)
    case None
    then have ev: "pool_event r (PoolGet key now probe connects) = r\<lparr> pn_pool := pool', pn_next := Suc (pn_next r),
        pn_opened_for := (pn_opened_for r)(pn_next r := key), pn_held := pn_held r \<rparr>" using g by simp
    show ?thesis unfolding ev by (rule pool_invI [OF _ _ _ _ dist old I(3) held]) (simp_all add: fun_upd_def)
  next
    case (Some c)
    let ?held = "pn_held r @ [(key, c)]"
    have ev: "pool_event r (PoolGet key now probe connects) = r\<lparr> pn_pool := pool', pn_next := Suc (pn_next r),
        pn_opened_for := (pn_opened_for r)(pn_next r := key), pn_held := ?held \<rparr>" using g Some by simp
    have old': "x < Suc (pn_next r) \<and> ((pn_opened_for r)(pn_next r := key)) x = k \<and> x \<notin> snd ` set ?held"
      if "x \<in> set (idle_streams pool' k)" for x k using fresh [OF Some, of k] old [OF that] that by (auto simp del: fun_upd_apply)
    have held': "x < Suc (pn_next r) \<and> ((pn_opened_for r)(pn_next r := key)) x = k" if "(k, x) \<in> set ?held" for x k
      using that held [of k x] fresh [OF Some] by (auto simp del: fun_upd_apply)
    have d: "distinct (map snd ?held)" using I(3) fresh [OF Some] by auto
    show ?thesis unfolding ev by (rule pool_invI [OF _ _ _ _ dist old' d held']) (simp_all add: fun_upd_def)
  qed
qed

lemma held_remove:
  assumes "i < length xs" and "distinct (map snd xs)"
  shows "distinct (map snd (take i xs @ drop (Suc i) xs))" and "snd (xs ! i) \<notin> snd ` set (take i xs @ drop (Suc i) xs)"
proof -
  have "map snd xs = map snd (take i xs) @ snd (xs ! i) # map snd (drop (Suc i) xs)"
    using id_take_nth_drop [OF assms(1)] by (metis list.simps(9) map_append)
  then have "distinct (map snd (take i xs) @ snd (xs ! i) # map snd (drop (Suc i) xs))" using assms(2) by simp
  then show "distinct (map snd (take i xs @ drop (Suc i) xs))" "snd (xs ! i) \<notin> snd ` set (take i xs @ drop (Suc i) xs)" by auto
qed

lemma held_subset: "set (take i xs @ drop (Suc i) xs) \<subseteq> set xs"
  by (auto dest: in_set_takeD in_set_dropD)

lemma return_streams:
  "\<exists>added. (added = [] \<or> added = [c]) \<and> idle_streams (return_connection env pool key c) key = idle_streams pool key @ added
     \<and> (\<forall>k. k \<noteq> key \<longrightarrow> idle_streams (return_connection env pool key c) k = idle_streams pool k)"
proof (cases "is_enabled pool \<and> length (case pc_idle pool key of None \<Rightarrow> [] | Some entry \<Rightarrow> entry) < pc_max_idle_per_backend pool")
  case True
  then show ?thesis by (intro exI [of _ "[c]"]) (auto simp: return_connection_def idle_streams_def is_enabled_def Let_def split: option.splits)
next
  case False
  then show ?thesis by (intro exI [of _ "[]"]) (auto simp: return_connection_def idle_streams_def is_enabled_def Let_def not_less split: option.splits)
qed

lemma pool_return_inv:
  assumes inv: "pool_inv r"
  shows "pool_inv (pool_event r (PoolReturn i now))"
proof (cases "i < length (pn_held r)")
  case True
  note I = pool_invD [OF inv]
  obtain key c where kc: "pn_held r ! i = (key, c)" by (cases "pn_held r ! i")
  let ?held = "take i (pn_held r) @ drop (Suc i) (pn_held r)"
  let ?pool = "return_connection \<lparr> pe_now = now, pe_probe = (\<lambda>_. ProbeError), pe_connect = None \<rparr> (pn_pool r) key c"
  have c: "(key, c) \<in> set (pn_held r)" using kc True by (metis nth_mem)
  obtain added where a: "added = [] \<or> added = [c]" "idle_streams ?pool key = idle_streams (pn_pool r) key @ added"
    "\<And>k. k \<noteq> key \<Longrightarrow> idle_streams ?pool k = idle_streams (pn_pool r) k" using return_streams by metis
  have cn: "c \<notin> set (idle_streams (pn_pool r) k)" for k using I(2) [of c k] c by force
  have gone: "c \<notin> snd ` set ?held" using held_remove(2) [OF True I(3)] kc by simp
  have dist: "distinct (idle_streams ?pool k)" for k using a I(1) [of k] cn [of k] by (cases "k = key") auto
  have mem: "x \<in> set (idle_streams (pn_pool r) k) \<or> (x = c \<and> k = key)" if "x \<in> set (idle_streams ?pool k)" for x k
    using that a by (cases "k = key") auto
  have idle: "x < pn_next r \<and> pn_opened_for r x = k \<and> x \<notin> snd ` set ?held" if "x \<in> set (idle_streams ?pool k)" for x k
    using mem [OF that] I(2) [of x k] I(4) [OF c] gone held_subset [of i "pn_held r"] by blast
  have ev: "pool_event r (PoolReturn i now) = r\<lparr> pn_pool := ?pool, pn_held := ?held \<rparr>" using True kc by simp
  have held': "x < pn_next r \<and> pn_opened_for r x = k" if "(k, x) \<in> set ?held" for x k using I(4) [of k x] held_subset [of i "pn_held r"] that by blast
  show ?thesis unfolding ev by (rule pool_invI [OF _ _ _ _ dist idle held_remove(1) [OF True I(3)] held']) simp_all
qed (use inv in simp)

lemma pool_abandon_inv:
  assumes inv: "pool_inv r"
  shows "pool_inv (pool_event r (PoolAbandon i))"
proof -
  note I = pool_invD [OF inv]
  let ?held = "take i (pn_held r) @ drop (Suc i) (pn_held r)"
  have d: "distinct (map snd ?held)"
  proof (cases "i < length (pn_held r)")
    case True
    then show ?thesis by (rule held_remove(1) [OF _ I(3)])
  qed (use I(3) in simp)
  have idle: "x < pn_next r \<and> pn_opened_for r x = k \<and> x \<notin> snd ` set ?held" if "x \<in> set (idle_streams (pn_pool r) k)" for x k
    using I(2) [OF that] held_subset [of i "pn_held r"] by blast
  have held': "x < pn_next r \<and> pn_opened_for r x = k" if "(k, x) \<in> set ?held" for x k using I(4) [of k x] held_subset [of i "pn_held r"] that by blast
  show ?thesis unfolding pool_event.simps by (rule pool_invI [OF _ _ _ _ I(1) idle d held']) simp_all
qed

lemma idle_streams_simps [simp]:
  "idle_streams (set_max_idle_per_backend pool n) key = idle_streams pool key" "idle_streams (drain pool) key = []"
  by (simp_all add: idle_streams_def set_max_idle_per_backend_def drain_def)

lemma warmed_streams: "set (somes (number_connections n oks)) \<subseteq> {n..<n + length oks} \<and> distinct (somes (number_connections n oks))"
proof (induction oks arbitrary: n)
  case (Cons ok oks)
  then show ?case using Cons.IH [of "Suc n"] by auto
qed simp

lemma somes_take: "\<exists>m. somes (take n xs) = take m (somes xs)"
proof (induction xs arbitrary: n)
  case (Cons x xs)
  show ?case
  proof (cases n)
    case (Suc n')
    obtain m where "somes (take n' xs) = take m (somes xs)" using Cons.IH by blast
    then show ?thesis using Suc by (cases x) (auto intro: exI [of _ m] exI [of _ "Suc m"])
  qed (auto intro: exI [of _ 0])
qed simp

lemma pool_prewarm_inv:
  assumes inv: "pool_inv r"
  shows "pool_inv (pool_event r (PoolPrewarm key n now oks))"
proof -
  note I = pool_invD [OF inv]
  let ?conns = "number_connections (pn_next r) oks"
  let ?pool = "prewarm \<lparr> pe_now = now, pe_probe = (\<lambda>_. ProbeError), pe_connect = None \<rparr> (pn_pool r) key n ?conns"
  let ?opened = "\<lambda>c. if pn_next r \<le> c \<and> c < pn_next r + length oks then key else pn_opened_for r c"
  have "\<exists>m. idle_streams ?pool key = idle_streams (pn_pool r) key @ take m (somes ?conns)"
  proof (cases "is_enabled (pn_pool r)")
    case True
    define entry where "entry = (case pc_idle (pn_pool r) key of None \<Rightarrow> [] | Some entry \<Rightarrow> entry)"
    obtain m where "somes (take (min n (pc_max_idle_per_backend (pn_pool r) - length entry)) ?conns)
        = take m (somes ?conns)" using somes_take by blast
    moreover have "idle_streams (pn_pool r) key = map ic_stream entry" by (simp add: idle_streams_def entry_def split: option.split)
    moreover have "map ic_stream (map (\<lambda>c. \<lparr> ic_stream = c, ic_since = now \<rparr>) cs) = cs" for cs :: "nat list" by (induction cs) simp_all
    ultimately show ?thesis using True by (intro exI [of _ m]) (simp add: prewarm_def idle_streams_def entry_def [symmetric] Let_def del: map_map)
  next
    case False
    then show ?thesis by (intro exI [of _ 0]) (simp add: prewarm_def)
  qed
  then obtain m where s: "idle_streams ?pool key = idle_streams (pn_pool r) key @ take m (somes ?conns)" by blast
  have other: "k \<noteq> key \<Longrightarrow> idle_streams ?pool k = idle_streams (pn_pool r) k" for k by (simp add: prewarm_def idle_streams_def Let_def)
  have w: "set (take m (somes ?conns)) \<subseteq> {pn_next r..<pn_next r + length oks}" "distinct (take m (somes ?conns))"
    using warmed_streams [of "pn_next r" oks] set_take_subset [of m] by fastforce+
  have dist: "distinct (idle_streams ?pool k)" for k
    using I(1) [of k] I(2) [of _ key] s other [of k] w by (cases "k = key") fastforce+
  have idle: "x < pn_next r + length oks \<and> ?opened x = k \<and> x \<notin> snd ` set (pn_held r)" if "x \<in> set (idle_streams ?pool k)" for x k
  proof (cases "x \<in> set (idle_streams (pn_pool r) k)")
    case True
    then show ?thesis using I(2) [OF True] by auto
  next
    case False
    then have "k = key" "x \<in> {pn_next r..<pn_next r + length oks}" using that s other [of k] w(1) by (cases "k = key"; auto)+
    then show ?thesis using I(4) by fastforce
  qed
  have held: "x < pn_next r + length oks \<and> ?opened x = k" if "(k, x) \<in> set (pn_held r)" for x k using I(4) [OF that] by auto
  show ?thesis unfolding pool_event.simps Let_def by (rule pool_invI [OF _ _ _ _ dist idle I(3) held]) simp_all
qed

lemma pool_event_inv: "pool_inv r \<Longrightarrow> pool_inv (pool_event r e)"
proof (cases e)
  case (PoolResize n)
  assume "pool_inv r"
  note I = pool_invD [OF this]
  show ?thesis unfolding PoolResize pool_event.simps
    by (rule pool_invI [where pool = "set_max_idle_per_backend (pn_pool r) n", OF _ _ _ _ _ _ I(3,4)]) (use I(1,2) in simp_all)
next
  case PoolDrain
  assume "pool_inv r"
  note I = pool_invD [OF this]
  show ?thesis unfolding PoolDrain pool_event.simps
    by (rule pool_invI [where pool = "drain (pn_pool r)", OF _ _ _ _ _ _ I(3,4)]) simp_all
qed (simp_all only: pool_get_inv pool_return_inv pool_abandon_inv pool_prewarm_inv)

lemma pool_start_inv: "pool_inv (pool_start max_idle timeout)"
  by (rule pool_invI [OF refl refl refl refl]) (simp_all add: pool_start_def pool_new_def idle_streams_def)

lemma pool_run_inv: "pool_inv r \<Longrightarrow> pool_inv (foldl pool_event r es)"
  by (induction es arbitrary: r) (simp_all add: pool_event_inv del: pool_event.simps)

text \<open>
  C13. A pooled connection has one user. After any history of calls that get, return and drop connections,
  resize, prewarm and drain the pool, no connection is held by two callers, none that is held is also
  idle in the pool, and every one that is held was opened to the address it was asked for.
\<close>

theorem pooled_connections_exclusive:
  "let r = foldl pool_event (pool_start max_idle timeout) es
   in distinct (map snd (pn_held r)) \<and> (\<forall>key. set (idle_streams (pn_pool r) key) \<inter> snd ` set (pn_held r) = {})
      \<and> list_all (\<lambda>(key, c). pn_opened_for r c = key) (pn_held r)"
proof -
  note I = pool_invD [OF pool_run_inv [OF pool_start_inv [of max_idle timeout], of es]]
  show ?thesis using I(2,3,4) unfolding Let_def list_all_iff by blast
qed

text \<open>
  The gauge of active connections can fall below zero. A connection that is taken while the pool is
  disabled is not counted, but returning it after the pool was enabled is, and the gauge wraps around to the
  largest number; and a connection that a caller drops instead of returning it is counted forever.
\<close>

theorem active_connections_gauge_wraps:
  "pz_active_connections (counter_snapshot (pn_pool (foldl pool_event (pool_start 0 timeout)
     [PoolGet key now probe True, PoolResize 4, PoolReturn 0 later]))) = - 1
   \<and> pz_active_connections (counter_snapshot (pn_pool (foldl pool_event (pool_start 4 timeout)
     [PoolGet key now probe True, PoolAbandon 0]))) = 1"
  by (simp add: pool_start_def pool_new_def get_connection_def is_enabled_def set_max_idle_per_backend_def return_connection_def
      counter_snapshot_def MAX_CONNECTION_COUNT_def Let_def)

end
