(* ===== verification/Ip_Filter.thy ===== *)
theory Ip_Filter
  imports IR_Types
begin

text \<open>
  Access control by client address, \<open>ntgw-http/src/proxy/filters/ip_filter.rs\<close>. Parsing an address is the parser of the standard
  library; a CIDR block of the configuration and whether it contains an address is a parameter, the
  package that parses them is not part of the sources; the address of the client is the text the framework
  prints, \<open>address:port\<close>, with brackets around an IPv6 address.
\<close>

section \<open>Addresses\<close>

datatype IpAddr = V4 "8 word list" | V6 "16 word list"

definition read_given_char :: "char \<Rightarrow> string \<Rightarrow> string option" where
  "read_given_char c s = (case s of x # rest \<Rightarrow> if x = c then Some rest else None | [] \<Rightarrow> None)"

text \<open>A decimal octet: one to three digits, no leading zero, at most 255.\<close>

definition read_octet :: "string \<Rightarrow> (8 word \<times> string) option" where
  "read_octet s =
     (let digits = takeWhile is_ascii_digit s in
      if digits = [] \<or> length digits > 3 \<or> (length digits > 1 \<and> hd digits = CHR ''0'') \<or> decimal_value 0 digits > 255 then None
      else Some (of_nat (decimal_value 0 digits), dropWhile is_ascii_digit s))"

text \<open>A group of an IPv6 address: one to four hexadecimal digits.\<close>

definition read_group :: "string \<Rightarrow> (16 word \<times> string) option" where
  "read_group s =
     (let digits = takeWhile is_ascii_hexdigit s in
      if digits = [] \<or> length digits > 4 then None
      else Some (of_nat (hex_value 0 digits), dropWhile is_ascii_hexdigit s))"

definition read_separator :: "char \<Rightarrow> nat \<Rightarrow> (string \<Rightarrow> ('a \<times> string) option) \<Rightarrow> string \<Rightarrow> ('a \<times> string) option" where
  "read_separator sep index' inner s =
     (if index' > 0 then (case read_given_char sep s of None \<Rightarrow> None | Some s \<Rightarrow> inner s) else inner s)"

fun read_octets :: "nat \<Rightarrow> nat \<Rightarrow> string \<Rightarrow> (8 word list \<times> string) option" where
  "read_octets i 0 s = Some ([], s)"
| "read_octets i (Suc n) s =
     (case read_separator CHR ''.'' i read_octet s of
        None \<Rightarrow> None
      | Some (octet, s) \<Rightarrow> map_option (\<lambda>(octets, s). (octet # octets, s)) (read_octets (Suc i) n s))"

definition read_ipv4_addr :: "string \<Rightarrow> (8 word list \<times> string) option" where
  "read_ipv4_addr s = read_octets 0 4 s"

definition group_of :: "8 word \<Rightarrow> 8 word \<Rightarrow> 16 word" where
  "group_of hi lo = word_cat hi lo"

text \<open>Up to \<open>n\<close> more groups from index \<open>i\<close>; where there is room for two, an IPv4 address may end them.\<close>

fun read_groups :: "nat \<Rightarrow> nat \<Rightarrow> string \<Rightarrow> 16 word list \<times> bool \<times> string" where
  "read_groups i 0 s = ([], False, s)"
| "read_groups i (Suc n) s =
     (case (if n > 0 then read_separator CHR '':'' i read_ipv4_addr s else None) of
        Some (octets, s) \<Rightarrow> ([group_of (octets ! 0) (octets ! 1), group_of (octets ! 2) (octets ! 3)], True, s)
      | None \<Rightarrow>
          (case read_separator CHR '':'' i read_group s of
             None \<Rightarrow> ([], False, s)
           | Some (g, s) \<Rightarrow> (case read_groups (Suc i) n s of (gs, ipv4, s) \<Rightarrow> (g # gs, ipv4, s))))"

definition read_ipv6_addr :: "string \<Rightarrow> (16 word list \<times> string) option" where
  "read_ipv6_addr s =
     (case read_groups 0 8 s of (head, head_ipv4, s) \<Rightarrow>
        if length head = 8 then Some (head, s)
        else if head_ipv4 then None
        else case read_given_char CHR '':'' s of
          None \<Rightarrow> None
        | Some s \<Rightarrow>
            (case read_given_char CHR '':'' s of
               None \<Rightarrow> None
             | Some s \<Rightarrow>
                 (case read_groups 0 (8 - (length head + 1)) s of
                    (tail, _, s) \<Rightarrow> Some (head @ replicate (8 - length head - length tail) 0 @ tail, s))))"

definition parse_ip :: "string \<Rightarrow> IpAddr option" where
  "parse_ip s =
     (case (case read_ipv4_addr s of
              Some (octets, s) \<Rightarrow> Some (V4 octets, s)
            | None \<Rightarrow> map_option (\<lambda>(groups, s). (V6 groups, s)) (read_ipv6_addr s)) of
        Some (addr, []) \<Rightarrow> Some addr
      | _ \<Rightarrow> None)"

section \<open>The filter\<close>

text \<open>Whether the request is answered with 403; \<open>contains\<close> is false for a block that does not parse.\<close>

definition handle_ip_filter :: "(string \<Rightarrow> IpAddr \<Rightarrow> bool) \<Rightarrow> SecurityPolicyConfig option \<Rightarrow> string option \<Rightarrow> bool" where
  "handle_ip_filter contains security_policy client_addr =
     (case Option.bind security_policy sy_ip of
        None \<Rightarrow> False
      | Some ip_config \<Rightarrow>
          if si_allow_cidrs ip_config = [] \<and> si_deny_cidrs ip_config = [] then False
          else case client_addr of
            None \<Rightarrow> True
          | Some client_ip_str \<Rightarrow>
              let ip_str = (case rsplit_once CHR '':'' client_ip_str of Some (before, _) \<Rightarrow> before | None \<Rightarrow> client_ip_str) in
              (case parse_ip ip_str of
                 None \<Rightarrow> True
               | Some client_ip \<Rightarrow>
                   if si_allow_cidrs ip_config \<noteq> [] \<and> \<not> list_ex (\<lambda>cidr. contains cidr client_ip) (si_allow_cidrs ip_config) then True
                   else list_ex (\<lambda>cidr. contains cidr client_ip) (si_deny_cidrs ip_config)))"

section \<open>IPv4 clients\<close>

definition show_ipv4 :: "8 word \<Rightarrow> 8 word \<Rightarrow> 8 word \<Rightarrow> 8 word \<Rightarrow> string" where
  "show_ipv4 a b c d = show_nat (unat a) @ ''.'' @ show_nat (unat b) @ ''.'' @ show_nat (unat c) @ ''.'' @ show_nat (unat d)"

lemma octet_less: "unat (a :: 8 word) < 256"
  using unsigned_less [where 'a = nat, of a] by simp

lemma show_octet:
  fixes a :: "8 word"
  shows "length (show_nat (unat a)) \<le> 3" and "length (show_nat (unat a)) > 1 \<Longrightarrow> hd (show_nat (unat a)) \<noteq> CHR ''0''"
proof -
  let ?n = "unat a"
  have n: "?n < 256" by (rule octet_less)
  have zero: "d = 0" if "d < 10" "digit_char d = CHR ''0''" for d
    using digit_char_value [OF that(1)] by (simp add: that(2) digit_value_def)
  have small: "show_nat m = [digit_char m]" if "m < 10" for m using that by (subst show_nat.simps) simp
  have mid: "show_nat m = [digit_char (m div 10), digit_char (m mod 10)]" if "10 \<le> m" "m < 100" for m
    using that small [of "m div 10"] by (subst show_nat.simps) simp
  have big: "show_nat m = [digit_char (m div 10 div 10), digit_char (m div 10 mod 10), digit_char (m mod 10)]" if "100 \<le> m" "m < 1000" for m
    using that mid [of "m div 10"] by (subst show_nat.simps) simp
  consider "?n < 10" | "10 \<le> ?n" "?n < 100" | "100 \<le> ?n" by linarith
  then have "length (show_nat ?n) \<le> 3 \<and> (length (show_nat ?n) > 1 \<longrightarrow> hd (show_nat ?n) \<noteq> CHR ''0'')"
  proof cases
    case 1
    then show ?thesis by (simp add: small)
  next
    case 2
    moreover from this have "?n div 10 < 10" "?n div 10 \<noteq> 0" by auto
    ultimately show ?thesis using zero [of "?n div 10"] by (auto simp: mid)
  next
    case 3
    moreover from this have "?n div 10 div 10 < 10" "?n div 10 div 10 \<noteq> 0" using n by auto
    ultimately show ?thesis using zero [of "?n div 10 div 10"] n by (auto simp: big)
  qed
  then show "length (show_nat ?n) \<le> 3" "length (show_nat ?n) > 1 \<Longrightarrow> hd (show_nat ?n) \<noteq> CHR ''0''" by blast+
qed

lemma read_octet_show:
  assumes "rest = [] \<or> \<not> is_ascii_digit (hd rest)"
  shows "read_octet (show_nat (unat a) @ rest) = Some (a, rest)"
proof -
  have d: "\<And>x. x \<in> set (show_nat (unat a)) \<Longrightarrow> is_ascii_digit x" using show_nat_digits [of "unat a"] by (simp add: list_all_iff)
  have tw: "takeWhile is_ascii_digit (show_nat (unat a) @ rest) = show_nat (unat a)" "dropWhile is_ascii_digit (show_nat (unat a) @ rest) = rest"
    using d assms by (cases rest; simp add: takeWhile_append dropWhile_append)+
  have "unat a \<le> 255" using octet_less [of a] by simp
  then show ?thesis using show_octet [of a] by (auto simp: read_octet_def Let_def tw decimal_value_show_nat)
qed

lemma read_octets_step:
  assumes "rest = [] \<or> \<not> is_ascii_digit (hd rest)"
  shows "read_octets (Suc i) (Suc n) (CHR ''.'' # show_nat (unat a) @ rest) =
    map_option (\<lambda>(octets, s). (a # octets, s)) (read_octets (Suc (Suc i)) n rest)"
  using read_octet_show [OF assms, of a] by (simp add: read_separator_def read_given_char_def)

lemma dot_not_digit: "\<not> is_ascii_digit CHR ''.''" "\<not> is_ascii_digit CHR '':''"
  by (simp_all add: is_ascii_digit_def)

lemma parse_show_ipv4: "parse_ip (show_ipv4 a b c d) = Some (V4 [a, b, c, d])"
proof -
  have "read_octets (Suc (Suc 0)) (Suc (Suc 0)) (CHR ''.'' # show_nat (unat c) @ CHR ''.'' # show_nat (unat d)) = Some ([c, d], [])"
    using read_octets_step [of "[]" "Suc (Suc 0)" 0 d] by (subst read_octets_step) (simp_all add: dot_not_digit)
  then have "read_octets (Suc 0) (Suc (Suc (Suc 0))) (CHR ''.'' # show_nat (unat b) @ CHR ''.'' # show_nat (unat c) @ CHR ''.'' # show_nat (unat d)) = Some ([b, c, d], [])"
    by (subst read_octets_step) (simp_all add: dot_not_digit)
  then have "read_ipv4_addr (show_ipv4 a b c d) = Some ([a, b, c, d], [])"
    by (simp add: read_ipv4_addr_def show_ipv4_def read_separator_def read_octet_show dot_not_digit eval_nat_numeral del: read_octets.simps(2))
      (simp add: read_separator_def read_octet_show dot_not_digit)
  then show ?thesis by (simp add: parse_ip_def)
qed

lemma strip_client_port: "rsplit_once CHR '':'' (addr @ CHR '':'' # show_nat port) = Some (addr, show_nat port)"
  by (simp add: rsplit_once_Some show_nat_no_sep dot_not_digit)

text \<open>
  An IPv4 client, whatever its address and port, is answered with 403 exactly when the allow list is not empty and no
  block of it contains the address, or a block of the deny list contains it: being on the allow list does
  not outweigh the deny list.
\<close>

theorem ipv4_clients_verdict:
  assumes "Option.bind security_policy sy_ip = Some ip_config"
  shows "handle_ip_filter contains security_policy (Some (show_ipv4 a b c d @ '':'' @ show_nat port)) \<longleftrightarrow>
     (si_allow_cidrs ip_config \<noteq> [] \<and> \<not> (\<exists>cidr \<in> set (si_allow_cidrs ip_config). contains cidr (V4 [a, b, c, d]))) \<or>
     (\<exists>cidr \<in> set (si_deny_cidrs ip_config). contains cidr (V4 [a, b, c, d]))"
proof (cases "si_allow_cidrs ip_config = [] \<and> si_deny_cidrs ip_config = []")
  case True
  then show ?thesis by (simp add: handle_ip_filter_def assms)
next
  case False
  then show ?thesis
    by (simp only: handle_ip_filter_def assms option.case if_False append_Cons append_Nil strip_client_port Let_def prod.case parse_show_ipv4)
      (auto simp: list_ex_iff)
qed

definition ten_policy :: SecurityPolicyConfig where
  "ten_policy = \<lparr> sy_authn = None, sy_authz = None, sy_cors = None, sy_rate_limit = [],
     sy_ip = Some \<lparr> si_allow_cidrs = [''10.0.0.0/8''], si_deny_cidrs = [''10.9.0.0/16''] \<rparr> \<rparr>"

definition ten_contains :: "string \<Rightarrow> IpAddr \<Rightarrow> bool" where
  "ten_contains cidr addr = (case addr of
       V4 octets \<Rightarrow> if cidr = ''10.0.0.0/8'' then take 1 octets = [10] else cidr = ''10.9.0.0/16'' \<and> take 2 octets = [10, 9]
     | V6 _ \<Rightarrow> False)"

theorem ipv4_clients_verdict_witness:
  "handle_ip_filter ten_contains (Some ten_policy) (Some (show_ipv4 10 9 1 1 @ '':'' @ show_nat 4000)) \<and>
   \<not> handle_ip_filter ten_contains (Some ten_policy) (Some (show_ipv4 10 8 1 1 @ '':'' @ show_nat 4000))"
proof -
  have p: "Option.bind (Some ten_policy) sy_ip = Some \<lparr> si_allow_cidrs = [''10.0.0.0/8''], si_deny_cidrs = [''10.9.0.0/16''] \<rparr>"
    by (simp add: ten_policy_def)
  show ?thesis unfolding ipv4_clients_verdict [OF p] by (simp add: ten_contains_def)
qed

lemma bracket_not_an_address: "parse_ip (CHR ''['' # s) = None"
proof -
  have o: "read_octet (CHR ''['' # s) = None" and g: "read_group (CHR ''['' # s) = None"
    by (simp_all add: read_octet_def read_group_def is_ascii_digit_def is_ascii_hexdigit_def)
  have v4: "read_ipv4_addr (CHR ''['' # s) = None" using o by (simp add: read_ipv4_addr_def read_separator_def eval_nat_numeral)
  have "read_groups 0 8 (CHR ''['' # s) = ([], False, CHR ''['' # s)"
    using v4 g by (simp add: read_separator_def eval_nat_numeral)
  then have "read_ipv6_addr (CHR ''['' # s) = None" by (simp add: read_ipv6_addr_def read_given_char_def)
  then show ?thesis using v4 by (simp add: parse_ip_def)
qed

text \<open>
  C40. Cutting the text of the client at its last colon leaves the brackets of an IPv6 address in place, and the parser of
  addresses takes none: with any list configured, every IPv6 client is answered with 403, also one the allow list contains.
\<close>

theorem ipv6_clients_always_denied:
  assumes "Option.bind security_policy sy_ip = Some ip_config"
    and "si_allow_cidrs ip_config \<noteq> [] \<or> si_deny_cidrs ip_config \<noteq> []"
  shows "handle_ip_filter contains security_policy (Some (''['' @ address @ '']:'' @ show_nat port))"
proof -
  have "rsplit_once CHR '':'' (''['' @ address @ '']:'' @ show_nat port) = Some (CHR ''['' # address @ '']'', show_nat port)"
    using strip_client_port [of "CHR ''['' # address @ '']''" port] by simp
  then show ?thesis using assms(2)
    by (auto simp: handle_ip_filter_def assms(1) Let_def bracket_not_an_address)
qed

theorem ipv6_clients_always_denied_witness:
  "handle_ip_filter (\<lambda>cidr addr. True) (Some ten_policy) (Some (''['' @ ''::1'' @ '']:'' @ show_nat 4000)) \<and> parse_ip ''::1'' = Some (V6 [0, 0, 0, 0, 0, 0, 0, 1])"
proof
  show "handle_ip_filter (\<lambda>cidr addr. True) (Some ten_policy) (Some (''['' @ ''::1'' @ '']:'' @ show_nat 4000))"
    by (rule ipv6_clients_always_denied [where ip_config = "\<lparr> si_allow_cidrs = [''10.0.0.0/8''], si_deny_cidrs = [''10.9.0.0/16''] \<rparr>"])
      (simp_all add: ten_policy_def)
  show "parse_ip ''::1'' = Some (V6 [0, 0, 0, 0, 0, 0, 0, 1])" by code_simp
qed

end
