(* ===== verification/Udp_Sessions.thy ===== *)
theory Udp_Sessions
  imports Overload
begin

text \<open>
  The sessions of the UDP proxy, \<open>ntgw-stream/src/udp/session.rs\<close> and \<open>udp/dispatcher.rs\<close>, with their statistics in
  \<open>ntgw-observability/src/udp_session.rs\<close>, as interleaved steps. A step is what one task does under a lock, or one
  operation on a channel; the statistics are updated beside the lock and are steps of their own where
  that can be seen. The shards of the registry hold different keys and are one map here. The hash that
  sends a datagram to a worker is a parameter; only its being a function of the key is used.
  Addresses are their printed texts, datagrams are values of any type. A session may leave its loop at any moment, as
  after an error of a socket; the exchange it relays and the bytes of the responses are not modelled.
\<close>

section \<open>Statistics\<close>

record UdpSessionStats =
  ud_active_sessions_current :: u64
  ud_active_sessions_by_listener :: counters
  ud_queue_depth_current :: u64
  ud_queue_depth_by_listener :: counters
  ud_queue_overflow_dropped_total :: u64
  ud_queue_overflow_dropped_by_listener :: counters
  ud_idle_evictions_total :: u64
  ud_idle_evictions_by_listener :: counters

definition UdpSessionStats_default :: UdpSessionStats where
  "UdpSessionStats_default = \<lparr>
     ud_active_sessions_current = 0, ud_active_sessions_by_listener = Map.empty,
     ud_queue_depth_current = 0, ud_queue_depth_by_listener = Map.empty,
     ud_queue_overflow_dropped_total = 0, ud_queue_overflow_dropped_by_listener = Map.empty,
     ud_idle_evictions_total = 0, ud_idle_evictions_by_listener = Map.empty \<rparr>"

definition observe_session_started :: "UdpSessionStats \<Rightarrow> string \<Rightarrow> UdpSessionStats" where
  "observe_session_started st listener = st\<lparr>
     ud_active_sessions_current := ud_active_sessions_current st + 1,
     ud_active_sessions_by_listener := increment_named (ud_active_sessions_by_listener st) listener \<rparr>"

definition observe_session_ended :: "UdpSessionStats \<Rightarrow> string \<Rightarrow> UdpSessionStats" where
  "observe_session_ended st listener = st\<lparr>
     ud_active_sessions_current := saturating_decrement (ud_active_sessions_current st),
     ud_active_sessions_by_listener := decrement_named (ud_active_sessions_by_listener st) listener \<rparr>"

definition observe_queue_enqueued :: "UdpSessionStats \<Rightarrow> string \<Rightarrow> UdpSessionStats" where
  "observe_queue_enqueued st listener = st\<lparr>
     ud_queue_depth_current := ud_queue_depth_current st + 1,
     ud_queue_depth_by_listener := increment_named (ud_queue_depth_by_listener st) listener \<rparr>"

definition observe_queue_dequeued :: "UdpSessionStats \<Rightarrow> string \<Rightarrow> UdpSessionStats" where
  "observe_queue_dequeued st listener = st\<lparr>
     ud_queue_depth_current := saturating_decrement (ud_queue_depth_current st),
     ud_queue_depth_by_listener := decrement_named (ud_queue_depth_by_listener st) listener \<rparr>"

definition observe_queue_overflow_drop :: "UdpSessionStats \<Rightarrow> string \<Rightarrow> UdpSessionStats" where
  "observe_queue_overflow_drop st listener = st\<lparr>
     ud_queue_overflow_dropped_total := ud_queue_overflow_dropped_total st + 1,
     ud_queue_overflow_dropped_by_listener := increment_named (ud_queue_overflow_dropped_by_listener st) listener \<rparr>"

definition observe_idle_eviction :: "UdpSessionStats \<Rightarrow> string \<Rightarrow> UdpSessionStats" where
  "observe_idle_eviction st listener = st\<lparr>
     ud_idle_evictions_total := ud_idle_evictions_total st + 1,
     ud_idle_evictions_by_listener := increment_named (ud_idle_evictions_by_listener st) listener \<rparr>"

section \<open>The registry\<close>

record UdpSessionKey =
  uk_listener_name :: string
  uk_client_addr :: string
  uk_upstream_addr :: string

text \<open>
  Where the task of a session is: entered in the registry, counted, running, out of its loop, its key
  removed (with whether there was an entry), and gone with its end of the channel. A session whose
  upstream socket cannot be opened is removed by the dispatcher.
\<close>

datatype SessionPc = SInserted | SStarted | SRunning | SEnding | SRemoved bool | SFailing bool | SGone

record 't UdpSession =
  ss_key :: UdpSessionKey
  ss_pc :: SessionPc
  ss_queue :: "'t list"

text \<open>Where a worker of the dispatcher is in \<open>dispatch\<close> and \<open>ensure_sender_with_factory\<close>.\<close>

datatype 't WorkerPc =
    WIdle
  | WLookup UdpSessionKey 't
  | WMissed UdpSessionKey 't
  | WInserted UdpSessionKey 't nat
  | WStarted UdpSessionKey 't nat
  | WFailed UdpSessionKey nat
  | WFailedRemoved UdpSessionKey nat bool
  | WSend UdpSessionKey 't nat
  | WClosed UdpSessionKey 't nat
  | WClosedRemoved UdpSessionKey 't bool

record 't UdpSystem =
  us_registry :: "UdpSessionKey \<rightharpoonup> nat"
  us_sessions :: "'t UdpSession list"
  us_stats :: UdpSessionStats
  us_workers :: "nat \<Rightarrow> 't WorkerPc"

definition udp_start :: "'t UdpSystem" where
  "udp_start = \<lparr> us_registry = Map.empty, us_sessions = [], us_stats = UdpSessionStats_default, us_workers = (\<lambda>_. WIdle) \<rparr>"

definition CHANNEL_CAPACITY :: nat where
  "CHANNEL_CAPACITY = 32"

abbreviation set_worker :: "nat \<Rightarrow> 't WorkerPc \<Rightarrow> 't UdpSystem \<Rightarrow> 't UdpSystem" where
  "set_worker w pc s \<equiv> s\<lparr> us_workers := (us_workers s)(w := pc) \<rparr>"

abbreviation set_pc :: "nat \<Rightarrow> SessionPc \<Rightarrow> 't UdpSystem \<Rightarrow> 't UdpSystem" where
  "set_pc ch pc s \<equiv> s\<lparr> us_sessions := (us_sessions s)[ch := (us_sessions s ! ch)\<lparr> ss_pc := pc \<rparr>] \<rparr>"

definition registry_lookup :: "'t UdpSystem \<Rightarrow> nat \<Rightarrow> UdpSessionKey \<Rightarrow> 't \<Rightarrow> 't UdpSystem" where
  "registry_lookup s w key task =
     (case us_registry s key of
        Some ch \<Rightarrow> set_worker w (WSend key task ch) s
      | None \<Rightarrow> set_worker w (WMissed key task) s)"

definition registry_insert :: "'t UdpSystem \<Rightarrow> nat \<Rightarrow> UdpSessionKey \<Rightarrow> 't \<Rightarrow> 't UdpSystem" where
  "registry_insert s w key task =
     (case us_registry s key of
        Some ch \<Rightarrow> set_worker w (WSend key task ch) s
      | None \<Rightarrow>
          let ch = length (us_sessions s)
          in set_worker w (WInserted key task ch)
               (s\<lparr> us_registry := (us_registry s)(key \<mapsto> ch),
                   us_sessions := us_sessions s @ [\<lparr> ss_key = key, ss_pc = SInserted, ss_queue = [] \<rparr>] \<rparr>))"

text \<open>\<open>remove\<close>: whether there was an entry decides whether the end is counted afterwards.\<close>

definition registry_remove :: "'t UdpSystem \<Rightarrow> UdpSessionKey \<Rightarrow> bool \<times> 't UdpSystem" where
  "registry_remove s key = (us_registry s key \<noteq> None, s\<lparr> us_registry := (us_registry s)(key := None) \<rparr>)"

definition observe_removed :: "bool \<Rightarrow> UdpSessionKey \<Rightarrow> 't UdpSystem \<Rightarrow> 't UdpSystem" where
  "observe_removed removed key s =
     (if removed then s\<lparr> us_stats := observe_session_ended (us_stats s) (uk_listener_name key) \<rparr> else s)"

text \<open>The datagrams a channel still holds when its receiver goes are dropped, and leave the queue gauge.\<close>

definition receiver_drop :: "nat \<Rightarrow> 't UdpSystem \<Rightarrow> 't UdpSystem" where
  "receiver_drop ch s =
     (let session = us_sessions s ! ch
      in s\<lparr> us_sessions := (us_sessions s)[ch := session\<lparr> ss_pc := SGone, ss_queue := [] \<rparr>],
            us_stats := foldl (\<lambda>st _. observe_queue_dequeued st (uk_listener_name (ss_key session))) (us_stats s) (ss_queue session) \<rparr>)"

definition try_send :: "'t UdpSystem \<Rightarrow> nat \<Rightarrow> UdpSessionKey \<Rightarrow> 't \<Rightarrow> nat \<Rightarrow> 't UdpSystem" where
  "try_send s w key task ch =
     (let listener = uk_listener_name key;
          session = us_sessions s ! ch;
          s = s\<lparr> us_stats := observe_queue_enqueued (us_stats s) listener \<rparr>
      in if ss_pc session = SGone then set_worker w (WClosed key task ch) s
         else if length (ss_queue session) \<ge> CHANNEL_CAPACITY
         then set_worker w WIdle
                (s\<lparr> us_stats := observe_queue_dequeued (observe_queue_overflow_drop (us_stats s) listener) listener \<rparr>)
         else set_worker w WIdle
                (s\<lparr> us_sessions := (us_sessions s)[ch := session\<lparr> ss_queue := ss_queue session @ [task] \<rparr>] \<rparr>))"

inductive udp_step :: "(UdpSessionKey \<Rightarrow> nat) \<Rightarrow> 't UdpSystem \<Rightarrow> 't UdpSystem \<Rightarrow> bool"
  for worker_of :: "UdpSessionKey \<Rightarrow> nat" where
  receive: "us_workers s (worker_of key) = WIdle \<Longrightarrow> udp_step worker_of s (set_worker (worker_of key) (WLookup key task) s)"
| find: "us_workers s w = WLookup key task \<Longrightarrow> udp_step worker_of s (registry_lookup s w key task)"
| insert: "us_workers s w = WMissed key task \<Longrightarrow> udp_step worker_of s (registry_insert s w key task)"
| started: "us_workers s w = WInserted key task ch \<Longrightarrow>
    udp_step worker_of s (set_worker w (WStarted key task ch)
      ((set_pc ch SStarted s)\<lparr> us_stats := observe_session_started (us_stats s) (uk_listener_name key) \<rparr>))"
| connected: "us_workers s w = WStarted key task ch \<Longrightarrow>
    udp_step worker_of s (set_worker w (WSend key task ch) (set_pc ch SRunning s))"
| refused: "us_workers s w = WStarted key task ch \<Longrightarrow> udp_step worker_of s (set_worker w (WFailed key ch) s)"
| refused_remove: "us_workers s w = WFailed key ch \<Longrightarrow> registry_remove s key = (removed, s') \<Longrightarrow>
    udp_step worker_of s (set_worker w (WFailedRemoved key ch removed) (set_pc ch (SFailing removed) s'))"
| refused_return: "us_workers s w = WFailedRemoved key ch removed \<Longrightarrow>
    udp_step worker_of s (set_worker w WIdle (receiver_drop ch (observe_removed removed key s)))"
| send: "us_workers s w = WSend key task ch \<Longrightarrow> udp_step worker_of s (try_send s w key task ch)"
| closed_remove: "us_workers s w = WClosed key task ch \<Longrightarrow> registry_remove s key = (removed, s') \<Longrightarrow>
    udp_step worker_of s (set_worker w (WClosedRemoved key task removed) s')"
| closed_again: "us_workers s w = WClosedRemoved key task removed \<Longrightarrow> s' = observe_removed removed key s \<Longrightarrow>
    udp_step worker_of s (set_worker w (WLookup key task)
      (s'\<lparr> us_stats := observe_queue_dequeued (us_stats s') (uk_listener_name key) \<rparr>))"
| session_receive: "ch < length (us_sessions s) \<Longrightarrow> us_sessions s ! ch = \<lparr> ss_key = key, ss_pc = SRunning, ss_queue = task # tasks \<rparr> \<Longrightarrow>
    udp_step worker_of s (s\<lparr> us_sessions := (us_sessions s)[ch := \<lparr> ss_key = key, ss_pc = SRunning, ss_queue = tasks \<rparr>],
      us_stats := observe_queue_dequeued (us_stats s) (uk_listener_name key) \<rparr>)"
| session_idle: "ch < length (us_sessions s) \<Longrightarrow> us_sessions s ! ch = \<lparr> ss_key = key, ss_pc = SRunning, ss_queue = [] \<rparr> \<Longrightarrow>
    udp_step worker_of s ((set_pc ch SEnding s)\<lparr> us_stats := observe_idle_eviction (us_stats s) (uk_listener_name key) \<rparr>)"
| session_error: "ch < length (us_sessions s) \<Longrightarrow> ss_pc (us_sessions s ! ch) = SRunning \<Longrightarrow> udp_step worker_of s (set_pc ch SEnding s)"
| session_remove: "ch < length (us_sessions s) \<Longrightarrow> ss_pc (us_sessions s ! ch) = SEnding \<Longrightarrow>
    registry_remove s (ss_key (us_sessions s ! ch)) = (removed, s') \<Longrightarrow> udp_step worker_of s (set_pc ch (SRemoved removed) s')"
| session_gone: "ch < length (us_sessions s) \<Longrightarrow> ss_pc (us_sessions s ! ch) = SRemoved removed \<Longrightarrow>
    udp_step worker_of s (receiver_drop ch (observe_removed removed (ss_key (us_sessions s ! ch)) s))"

definition udp_reachable :: "(UdpSessionKey \<Rightarrow> nat) \<Rightarrow> 't UdpSystem \<Rightarrow> bool" where
  "udp_reachable worker_of s \<longleftrightarrow> (udp_step worker_of)\<^sup>*\<^sup>* udp_start s"

section \<open>The invariant\<close>

fun worker_ok :: "'t UdpSystem \<Rightarrow> 't WorkerPc \<Rightarrow> bool" where
  "worker_ok s WIdle = True"
| "worker_ok s (WLookup key task) = True"
| "worker_ok s (WMissed key task) = (us_registry s key = None)"
| "worker_ok s (WInserted key task ch) = (us_registry s key = Some ch \<and> ss_pc (us_sessions s ! ch) = SInserted)"
| "worker_ok s (WStarted key task ch) = (us_registry s key = Some ch \<and> ss_pc (us_sessions s ! ch) = SStarted)"
| "worker_ok s (WFailed key ch) = (us_registry s key = Some ch \<and> ss_pc (us_sessions s ! ch) = SStarted)"
| "worker_ok s (WFailedRemoved key ch removed) =
     (removed \<and> ch < length (us_sessions s) \<and> ss_key (us_sessions s ! ch) = key \<and> ss_pc (us_sessions s ! ch) = SFailing True)"
| "worker_ok s (WSend key task ch) =
     (ch < length (us_sessions s) \<and> ss_key (us_sessions s ! ch) = key \<and> (us_registry s key = Some ch \<or> us_registry s key = None)
      \<and> ss_pc (us_sessions s ! ch) \<in> {SRunning, SEnding, SRemoved True, SGone})"
| "worker_ok s (WClosed key task ch) = (us_registry s key = None)"
| "worker_ok s (WClosedRemoved key task removed) = (\<not> removed)"

fun worker_key :: "'t WorkerPc \<Rightarrow> UdpSessionKey option" where
  "worker_key WIdle = None"
| "worker_key (WLookup key _) = Some key"
| "worker_key (WMissed key _) = Some key"
| "worker_key (WInserted key _ _) = Some key"
| "worker_key (WStarted key _ _) = Some key"
| "worker_key (WFailed key _) = Some key"
| "worker_key (WFailedRemoved key _ _) = Some key"
| "worker_key (WSend key _ _) = Some key"
| "worker_key (WClosed key _ _) = Some key"
| "worker_key (WClosedRemoved key _ _) = Some key"

text \<open>What the session \<open>ch\<close> of a key may be, given the registry and the worker of the key.\<close>

fun session_ok :: "UdpSessionKey \<Rightarrow> nat \<Rightarrow> nat option \<Rightarrow> 't WorkerPc \<Rightarrow> SessionPc \<Rightarrow> bool" where
  "session_ok key ch entry w SInserted = (entry = Some ch \<and> (\<exists>t. w = WInserted key t ch))"
| "session_ok key ch entry w SStarted = (entry = Some ch \<and> ((\<exists>t. w = WStarted key t ch) \<or> w = WFailed key ch))"
| "session_ok key ch entry w SRunning = (entry = Some ch)"
| "session_ok key ch entry w SEnding = (entry = Some ch)"
| "session_ok key ch entry w (SRemoved removed) = (removed \<and> entry \<noteq> Some ch)"
| "session_ok key ch entry w (SFailing removed) = (removed \<and> entry \<noteq> Some ch \<and> w = WFailedRemoved key ch True)"
| "session_ok key ch entry w SGone = (entry \<noteq> Some ch)"

definition registry_inv :: "(UdpSessionKey \<Rightarrow> nat) \<Rightarrow> 't UdpSystem \<Rightarrow> bool" where
  "registry_inv worker_of s \<longleftrightarrow>
     (\<forall>w. worker_ok s (us_workers s w))
     \<and> (\<forall>w key. worker_key (us_workers s w) = Some key \<longrightarrow> worker_of key = w)
     \<and> (\<forall>key ch. us_registry s key = Some ch \<longrightarrow> ch < length (us_sessions s) \<and> ss_key (us_sessions s ! ch) = key)
     \<and> (\<forall>ch < length (us_sessions s).
          session_ok (ss_key (us_sessions s ! ch)) ch (us_registry s (ss_key (us_sessions s ! ch)))
            (us_workers s (worker_of (ss_key (us_sessions s ! ch)))) (ss_pc (us_sessions s ! ch)))"

lemma registry_inv_start: "registry_inv worker_of udp_start"
  by (simp add: registry_inv_def udp_start_def)

text \<open>A step about the key \<open>k\<close> leaves the entries and the sessions of other keys alone.\<close>

definition other_keys_same :: "UdpSessionKey \<Rightarrow> 't UdpSystem \<Rightarrow> 't UdpSystem \<Rightarrow> bool" where
  "other_keys_same k s s' \<longleftrightarrow>
     (\<forall>key. key \<noteq> k \<longrightarrow> us_registry s' key = us_registry s key)
     \<and> length (us_sessions s) \<le> length (us_sessions s')
     \<and> (\<forall>ch < length (us_sessions s). ss_key (us_sessions s' ! ch) = ss_key (us_sessions s ! ch)
          \<and> (ss_key (us_sessions s ! ch) \<noteq> k \<longrightarrow> ss_pc (us_sessions s' ! ch) = ss_pc (us_sessions s ! ch)))
     \<and> (\<forall>ch < length (us_sessions s'). length (us_sessions s) \<le> ch \<longrightarrow> ss_key (us_sessions s' ! ch) = k)"

lemma registry_invD:
  assumes "registry_inv worker_of s"
  shows "worker_ok s (us_workers s w)"
    and "worker_key (us_workers s w) = Some key \<Longrightarrow> worker_of key = w"
    and "us_registry s key = Some ch \<Longrightarrow> ch < length (us_sessions s) \<and> ss_key (us_sessions s ! ch) = key"
    and "ch < length (us_sessions s) \<Longrightarrow>
      session_ok (ss_key (us_sessions s ! ch)) ch (us_registry s (ss_key (us_sessions s ! ch)))
        (us_workers s (worker_of (ss_key (us_sessions s ! ch)))) (ss_pc (us_sessions s ! ch))"
  using assms unfolding registry_inv_def by blast+

lemma worker_ok_other:
  assumes inv: "registry_inv worker_of s" and ok: "worker_ok s pc" and key: "worker_key pc = Some key" "key \<noteq> k"
    and same: "other_keys_same k s s'"
  shows "worker_ok s' pc"
proof -
  have r: "us_registry s' key = us_registry s key" using same key(2) by (simp add: other_keys_same_def)
  have c: "ch < length (us_sessions s')" "ss_key (us_sessions s' ! ch) = key" "ss_pc (us_sessions s' ! ch) = ss_pc (us_sessions s ! ch)"
    if "ch < length (us_sessions s)" "ss_key (us_sessions s ! ch) = key" for ch
    using same key(2) that by (auto simp: other_keys_same_def)
  show ?thesis
    using ok key(1) r c registry_invD(3) [OF inv, of key] by (cases pc) auto
qed

lemma registry_inv_step:
  fixes s s' :: "'t UdpSystem"
  assumes inv: "registry_inv worker_of s" and same: "other_keys_same k s s'"
    and workers: "\<And>w. w \<noteq> worker_of k \<Longrightarrow> us_workers s' w = us_workers s w"
    and pc: "us_workers s' (worker_of k) = pc"
    and keys: "pc = us_workers s (worker_of k) \<or> worker_key (us_workers s (worker_of k)) \<in> {None, Some k} \<and> worker_key pc \<in> {None, Some k}"
    and ok: "worker_key pc = Some k \<Longrightarrow> worker_ok s' pc"
    and entry: "\<And>ch. us_registry s' k = Some ch \<Longrightarrow> ch < length (us_sessions s') \<and> ss_key (us_sessions s' ! ch) = k"
    and sessions: "\<And>ch. ch < length (us_sessions s') \<Longrightarrow> ss_key (us_sessions s' ! ch) = k \<Longrightarrow>
      session_ok k ch (us_registry s' k) pc (ss_pc (us_sessions s' ! ch))"
  shows "registry_inv worker_of s'"
  unfolding registry_inv_def
proof (intro conjI allI impI)
  note I = registry_invD [OF inv]
  note same' = same [unfolded other_keys_same_def]
  fix w
  show "worker_ok s' (us_workers s' w)"
  proof (cases "worker_key (us_workers s' w)")
    case None
    then show ?thesis by (cases "us_workers s' w") simp_all
  next
    case (Some key)
    show ?thesis
    proof (cases "key = k")
      case True
      have "w = worker_of k"
      proof (rule ccontr)
        assume "w \<noteq> worker_of k"
        then show False using Some True workers [of w] I(2) [of w k] by simp
      qed
      then show ?thesis using Some True ok pc by simp
    next
      case False
      then have "us_workers s' w = us_workers s w" using Some workers [of w] pc keys by (cases "w = worker_of k") auto
      then show ?thesis using worker_ok_other [OF inv I(1) [of w] _ False same] Some by simp
    qed
  qed
next
  note I = registry_invD [OF inv]
  fix w key
  assume a: "worker_key (us_workers s' w) = Some key"
  show "worker_of key = w"
  proof (cases "w = worker_of k")
    case True
    then show ?thesis using a pc keys I(2) [of w key] by auto
  next
    case False
    then show ?thesis using a workers [OF False] I(2) [of w key] by simp
  qed
next
  note I = registry_invD [OF inv]
  fix key ch
  assume "us_registry s' key = Some ch"
  then show "ch < length (us_sessions s')" "ss_key (us_sessions s' ! ch) = key"
    using same entry [of ch] I(3) [of key ch] unfolding other_keys_same_def by (cases "key = k"; auto)+
next
  note I = registry_invD [OF inv]
  fix ch
  assume ch: "ch < length (us_sessions s')"
  let ?key = "ss_key (us_sessions s' ! ch)"
  show "session_ok ?key ch (us_registry s' ?key) (us_workers s' (worker_of ?key)) (ss_pc (us_sessions s' ! ch))"
  proof (cases "?key = k")
    case True
    then show ?thesis using sessions [OF ch] pc by simp
  next
    case False
    have len: "ch < length (us_sessions s)" using same ch False unfolding other_keys_same_def by (metis not_less)
    then have same_ch: "ss_key (us_sessions s ! ch) = ?key" "ss_pc (us_sessions s' ! ch) = ss_pc (us_sessions s ! ch)"
      "us_registry s' ?key = us_registry s ?key" using same False unfolding other_keys_same_def by auto
    have old: "session_ok ?key ch (us_registry s' ?key) (us_workers s (worker_of ?key)) (ss_pc (us_sessions s' ! ch))"
      using I(4) [OF len] same_ch by simp
    show ?thesis
    proof (cases "worker_of ?key = worker_of k \<and> pc \<noteq> us_workers s (worker_of k)")
      case True
      then have "worker_key (us_workers s (worker_of ?key)) \<noteq> Some ?key" using keys False by auto
      then show ?thesis using old by (cases "ss_pc (us_sessions s' ! ch)") auto
    next
      case same_pc: False
      have "us_workers s' (worker_of ?key) = us_workers s (worker_of ?key)"
        using same_pc workers [of "worker_of ?key"] pc by (cases "worker_of ?key = worker_of k") auto
      then show ?thesis using old by simp
    qed
  qed
qed

lemmas step_simps = other_keys_same_def nth_list_update nth_append registry_lookup_def registry_insert_def registry_remove_def
  observe_removed_def receiver_drop_def try_send_def Let_def

lemma worker_at:
  assumes "registry_inv worker_of s" and "us_workers s w = pc" and "worker_key pc = Some key"
  shows "w = worker_of key" and "worker_ok s pc"
    and "ch < length (us_sessions s) \<Longrightarrow> ss_key (us_sessions s ! ch) = key \<Longrightarrow> session_ok key ch (us_registry s key) pc (ss_pc (us_sessions s ! ch))"
    and "us_registry s key = Some ch \<Longrightarrow> ch < length (us_sessions s) \<and> ss_key (us_sessions s ! ch) = key"
  using registry_invD [OF assms(1)] assms(2,3) by metis+

lemma inv_receive:
  assumes inv: "registry_inv worker_of s" and w: "us_workers s (worker_of key) = WIdle"
  shows "registry_inv worker_of (set_worker (worker_of key) (WLookup key task) s)"
proof (rule registry_inv_step [OF inv, where k = key and pc = "WLookup key task"], goal_cases)
  case (7 ch)
  then show ?case using registry_invD(4) [OF inv, of ch] w by (cases "ss_pc (us_sessions s ! ch)") auto
qed (use w registry_invD(3) [OF inv] in \<open>auto simp: step_simps\<close>)

lemma inv_find:
  assumes inv: "registry_inv worker_of s" and w: "us_workers s w = WLookup key task"
  shows "registry_inv worker_of (registry_lookup s w key task)"
proof -
  have wk: "worker_key (WLookup key task) = Some key" by simp
  note A = worker_at [OF inv w wk]
  let ?pc = "case us_registry s key of Some ch \<Rightarrow> WSend key task ch | None \<Rightarrow> WMissed key task"
  have sok: "session_ok key ch (us_registry s key) ?pc (ss_pc (us_sessions s ! ch))"
    if "ch < length (us_sessions s)" "ss_key (us_sessions s ! ch) = key" for ch
    using A(3) [OF that] by (cases "ss_pc (us_sessions s ! ch)") auto
  have send: "worker_ok s (WSend key task ch)" if "us_registry s key = Some ch" for ch
    using A(4) [OF that] A(3) [of ch] that by (cases "ss_pc (us_sessions s ! ch)") auto
  have ok: "worker_ok (registry_lookup s w key task) ?pc"
    using send by (cases "us_registry s key") (auto simp: registry_lookup_def)
  show ?thesis
    by (rule registry_inv_step [OF inv, where k = key and pc = ?pc])
      (use A(1,4) w ok sok in \<open>auto simp: step_simps split: option.splits\<close>)
qed

lemma inv_insert:
  assumes inv: "registry_inv worker_of s" and w: "us_workers s w = WMissed key task"
  shows "registry_inv worker_of (registry_insert s w key task)"
proof -
  have wk: "worker_key (WMissed key task) = Some key" by simp
  note A = worker_at [OF inv w wk]
  have none: "us_registry s key = None" using A(2) by simp
  let ?pc = "WInserted key task (length (us_sessions s))"
  have sok: "session_ok key ch (Some (length (us_sessions s))) ?pc (ss_pc (us_sessions s ! ch))"
    if "ch < length (us_sessions s)" "ss_key (us_sessions s ! ch) = key" for ch
    using A(3) [OF that] none that by (cases "ss_pc (us_sessions s ! ch)") auto
  show ?thesis
    by (rule registry_inv_step [OF inv, where k = key and pc = ?pc])
      (use A(1,4) w none sok in \<open>auto simp: step_simps less_Suc_eq\<close>)
qed

lemma inv_started:
  assumes inv: "registry_inv worker_of s" and w: "us_workers s w = WInserted key task ch"
  shows "registry_inv worker_of (set_worker w (WStarted key task ch)
      ((set_pc ch SStarted s)\<lparr> us_stats := observe_session_started (us_stats s) (uk_listener_name key) \<rparr>))"
proof -
  have wk: "worker_key (WInserted key task ch) = Some key" by simp
  note A = worker_at [OF inv w wk]
  have e: "us_registry s key = Some ch" using A(2) by simp
  have sok: "session_ok key c (Some ch) (WStarted key task ch) (ss_pc (us_sessions s ! c))"
    if "c < length (us_sessions s)" "ss_key (us_sessions s ! c) = key" "ch \<noteq> c" for c
    using A(3) [OF that(1,2)] e that(3) by (cases "ss_pc (us_sessions s ! c)") auto
  show ?thesis
    by (rule registry_inv_step [OF inv, where k = key and pc = "WStarted key task ch"])
      (use A(1,4) w e sok in \<open>auto simp: step_simps\<close>)
qed

lemma inv_connected:
  assumes inv: "registry_inv worker_of s" and w: "us_workers s w = WStarted key task ch"
  shows "registry_inv worker_of (set_worker w (WSend key task ch) (set_pc ch SRunning s))"
proof -
  have wk: "worker_key (WStarted key task ch) = Some key" by simp
  note A = worker_at [OF inv w wk]
  have e: "us_registry s key = Some ch" using A(2) by simp
  have sok: "session_ok key c (Some ch) (WSend key task ch) (ss_pc (us_sessions s ! c))"
    if "c < length (us_sessions s)" "ss_key (us_sessions s ! c) = key" "ch \<noteq> c" for c
    using A(3) [OF that(1,2)] e that(3) by (cases "ss_pc (us_sessions s ! c)") auto
  show ?thesis
    by (rule registry_inv_step [OF inv, where k = key and pc = "WSend key task ch"])
      (use A(1,4) w e sok in \<open>auto simp: step_simps\<close>)
qed

lemma inv_refused:
  assumes inv: "registry_inv worker_of s" and w: "us_workers s w = WStarted key task ch"
  shows "registry_inv worker_of (set_worker w (WFailed key ch) s)"
proof -
  have wk: "worker_key (WStarted key task ch) = Some key" by simp
  note A = worker_at [OF inv w wk]
  have sok: "session_ok key c (us_registry s key) (WFailed key ch) (ss_pc (us_sessions s ! c))"
    if "c < length (us_sessions s)" "ss_key (us_sessions s ! c) = key" for c
    using A(3) [OF that] by (cases "ss_pc (us_sessions s ! c)") auto
  show ?thesis
    by (rule registry_inv_step [OF inv, where k = key and pc = "WFailed key ch"])
      (use A(1,2,4) w sok in \<open>auto simp: step_simps\<close>)
qed

lemma inv_refused_remove:
  assumes inv: "registry_inv worker_of s" and w: "us_workers s w = WFailed key ch" and r: "registry_remove s key = (removed, s')"
  shows "registry_inv worker_of (set_worker w (WFailedRemoved key ch removed) (set_pc ch (SFailing removed) s'))"
proof -
  have wk: "worker_key (WFailed key ch) = Some key" by simp
  note A = worker_at [OF inv w wk]
  have e: "us_registry s key = Some ch" "removed" "s' = s\<lparr> us_registry := (us_registry s)(key := None) \<rparr>"
    using A(2) r by (auto simp: registry_remove_def)
  have sok: "session_ok key c None (WFailedRemoved key ch True) (ss_pc (us_sessions s ! c))"
    if "c < length (us_sessions s)" "ss_key (us_sessions s ! c) = key" "ch \<noteq> c" for c
    using A(3) [OF that(1,2)] e that(3) by (cases "ss_pc (us_sessions s ! c)") auto
  show ?thesis
  proof (rule registry_inv_step [OF inv, where k = key and pc = "WFailedRemoved key ch True"], goal_cases)
    case (7 c)
    then show ?case using sok [of c] A(4) [OF e(1)] e by (cases "ch = c") (auto simp: step_simps)
  qed (use A(1,4) w e in \<open>auto simp: step_simps\<close>)
qed

lemma inv_refused_return:
  assumes inv: "registry_inv worker_of s" and w: "us_workers s w = WFailedRemoved key ch removed"
  shows "registry_inv worker_of (set_worker w WIdle (receiver_drop ch (observe_removed removed key s)))"
proof -
  have wk: "worker_key (WFailedRemoved key ch removed) = Some key" by simp
  note A = worker_at [OF inv w wk]
  have e: "removed" "ch < length (us_sessions s)" "ss_key (us_sessions s ! ch) = key" "us_registry s key \<noteq> Some ch"
    using A(2) A(3) [of ch] by auto
  have sok: "session_ok key c (us_registry s key) WIdle (ss_pc (us_sessions s ! c))"
    if "c < length (us_sessions s)" "ss_key (us_sessions s ! c) = key" "ch \<noteq> c" for c
    using A(3) [OF that(1,2)] that(3) by (cases "ss_pc (us_sessions s ! c)") auto
  show ?thesis
  proof (rule registry_inv_step [OF inv, where k = key and pc = WIdle], goal_cases)
    case (7 c)
    then show ?case using sok [of c] e by (cases "ch = c") (auto simp: step_simps)
  qed (use A(1,4) w e in \<open>auto simp: step_simps\<close>)
qed

text \<open>A step that only moves the worker of the key.\<close>

lemma inv_worker_moves:
  assumes inv: "registry_inv worker_of s" and w: "us_workers s w = pc" "worker_key pc = Some key"
    and same: "us_registry s' = us_registry s" "us_workers s' = (us_workers s)(w := pc')"
      "length (us_sessions s') = length (us_sessions s)"
      "\<And>c. ss_key (us_sessions s' ! c) = ss_key (us_sessions s ! c)" "\<And>c. ss_pc (us_sessions s' ! c) = ss_pc (us_sessions s ! c)"
    and pc': "worker_key pc' \<in> {None, Some key}" "worker_ok s pc'"
    and sok: "\<And>c. c < length (us_sessions s) \<Longrightarrow> ss_key (us_sessions s ! c) = key \<Longrightarrow>
      session_ok key c (us_registry s key) pc' (ss_pc (us_sessions s ! c))"
  shows "registry_inv worker_of s'"
proof -
  note A = worker_at [OF inv w]
  have ok: "worker_ok s' pc'" using pc'(2) same by (cases pc') auto
  show ?thesis
    by (rule registry_inv_step [OF inv, where k = key and pc = pc'])
      (use A(1,4) w pc'(1) ok sok same in \<open>auto simp: other_keys_same_def\<close>)
qed

lemma inv_send:
  assumes inv: "registry_inv worker_of s" and w: "us_workers s w = WSend key task ch"
  shows "registry_inv worker_of (try_send s w key task ch)"
proof -
  have wk: "worker_key (WSend key task ch) = Some key" by simp
  note A = worker_at [OF inv w wk]
  have e: "ch < length (us_sessions s)" "ss_key (us_sessions s ! ch) = key" using A(2) by simp_all
  let ?pc = "if ss_pc (us_sessions s ! ch) = SGone then WClosed key task ch else WIdle"
  show ?thesis
  proof (rule inv_worker_moves [OF inv w wk, where pc' = ?pc])
    show "worker_ok s ?pc" using A(2) A(3) [OF e] by auto
    show "session_ok key c (us_registry s key) ?pc (ss_pc (us_sessions s ! c))"
      if "c < length (us_sessions s)" "ss_key (us_sessions s ! c) = key" for c
      using A(3) [OF that] by (cases "ss_pc (us_sessions s ! c)") auto
  qed (use e(1) in \<open>auto simp: try_send_def Let_def nth_list_update\<close>)
qed

lemma inv_closed_remove:
  assumes inv: "registry_inv worker_of s" and w: "us_workers s w = WClosed key task ch" and r: "registry_remove s key = (removed, s')"
  shows "registry_inv worker_of (set_worker w (WClosedRemoved key task removed) s')"
proof -
  have wk: "worker_key (WClosed key task ch) = Some key" by simp
  note A = worker_at [OF inv w wk]
  have e: "us_registry s key = None" "\<not> removed" "s' = s"
    using A(2) r by (auto simp: registry_remove_def fun_upd_idem)
  have sok: "session_ok key c None (WClosedRemoved key task False) (ss_pc (us_sessions s ! c))"
    if "c < length (us_sessions s)" "ss_key (us_sessions s ! c) = key" for c
    using A(3) [OF that(1,2)] e by (cases "ss_pc (us_sessions s ! c)") auto
  show ?thesis
    by (rule registry_inv_step [OF inv, where k = key and pc = "WClosedRemoved key task False"])
      (use A(1) w e sok in \<open>auto simp: step_simps\<close>)
qed

lemma inv_closed_again:
  assumes inv: "registry_inv worker_of s" and w: "us_workers s w = WClosedRemoved key task removed" and s': "s' = observe_removed removed key s"
  shows "registry_inv worker_of (set_worker w (WLookup key task)
      (s'\<lparr> us_stats := observe_queue_dequeued (us_stats s') (uk_listener_name key) \<rparr>))"
proof -
  have wk: "worker_key (WClosedRemoved key task removed) = Some key" by simp
  note A = worker_at [OF inv w wk]
  have e: "s' = s" using A(2) s' by (simp add: observe_removed_def)
  have sok: "session_ok key c (us_registry s key) (WLookup key task) (ss_pc (us_sessions s ! c))"
    if "c < length (us_sessions s)" "ss_key (us_sessions s ! c) = key" for c
    using A(3) [OF that(1,2)] by (cases "ss_pc (us_sessions s ! c)") auto
  show ?thesis
    by (rule registry_inv_step [OF inv, where k = key and pc = "WLookup key task"])
      (use A(1,4) w e sok in \<open>auto simp: step_simps\<close>)
qed

text \<open>A step of a session: it keeps its key, and its worker, which is not creating it, stays where it is.\<close>

lemma inv_session:
  assumes inv: "registry_inv worker_of s" and ch: "ch < length (us_sessions s)" and key: "key = ss_key (us_sessions s ! ch)"
    and same: "us_workers s' = us_workers s" "us_sessions s' = (us_sessions s)[ch := session]" "ss_key session = key"
    and registry: "us_registry s' = us_registry s \<or> us_registry s key = Some ch \<and> us_registry s' = (us_registry s)(key := None)"
    and old: "ss_pc (us_sessions s ! ch) \<in> {SRunning, SEnding, SRemoved True}"
    and new: "ss_pc session \<in> {SRunning, SEnding, SRemoved True, SGone}" "session_ok key ch (us_registry s' key) WIdle (ss_pc session)"
  shows "registry_inv worker_of s'"
proof (rule registry_inv_step [OF inv, where k = key and pc = "us_workers s (worker_of key)"], goal_cases)
  case 5
  let ?pc = "us_workers s (worker_of key)"
  note I = registry_invD [OF inv]
  have ok: "worker_ok s ?pc" by (rule I(1))
  have sess: "c < length (us_sessions s')" "ss_key (us_sessions s' ! c) = ss_key (us_sessions s ! c)"
    "c \<noteq> ch \<Longrightarrow> ss_pc (us_sessions s' ! c) = ss_pc (us_sessions s ! c)"
    "c = ch \<Longrightarrow> ss_pc (us_sessions s' ! c) = ss_pc session" if "c < length (us_sessions s)" for c
    using that same key ch by (auto simp: nth_list_update)
  have len: "us_registry s key = Some c \<Longrightarrow> c < length (us_sessions s)" for c using I(3) by blast
  have r: "us_registry s' key = us_registry s key \<or> us_registry s' key = None \<and> us_registry s key = Some ch" using registry by auto
  show ?case
  proof (cases ?pc)
    case (WInserted k t c)
    then show ?thesis using ok 5 r len [of c] sess [of c] old by (cases "c = ch") auto
  next
    case (WStarted k t c)
    then show ?thesis using ok 5 r len [of c] sess [of c] old by (cases "c = ch") auto
  next
    case (WFailed k c)
    then show ?thesis using ok 5 r len [of c] sess [of c] old by (cases "c = ch") auto
  next
    case (WFailedRemoved k c removed)
    then show ?thesis using ok 5 sess [of c] old by (cases "c = ch") auto
  next
    case (WSend k t c)
    then show ?thesis using ok 5 r sess [of c] new(1) by (cases "c = ch") auto
  qed (use ok 5 r in auto)
next
  case (7 c)
  have c: "c < length (us_sessions s)" using 7(1) same(2) by simp
  show ?case
  proof (cases "c = ch")
    case True
    then have "us_sessions s' ! c = session" using same(2) ch by simp
    then show ?thesis using True new by (cases "ss_pc session") auto
  next
    case False
    then have eq: "us_sessions s' ! c = us_sessions s ! c" using same(2) by simp
    have r: "us_registry s' key = us_registry s key \<or> us_registry s' key = None \<and> us_registry s key = Some ch" using registry by auto
    have "session_ok key c (us_registry s key) (us_workers s (worker_of key)) (ss_pc (us_sessions s ! c))"
      using registry_invD(4) [OF inv c] 7(2) eq by simp
    then show ?thesis using r False unfolding eq by (cases "ss_pc (us_sessions s ! c)") auto
  qed
next
  case 1
  have "ss_key ((us_sessions s)[ch := session] ! c) = ss_key (us_sessions s ! c)" for c
    using same(3) key ch by (cases "c = ch") auto
  moreover have "ss_pc ((us_sessions s)[ch := session] ! c) = ss_pc (us_sessions s ! c)" if "ss_key (us_sessions s ! c) \<noteq> key" for c
    using key that by (cases "c = ch") auto
  ultimately show ?case using registry unfolding other_keys_same_def same(2) by auto
next
  case (6 c)
  then have "us_registry s key = Some c" using registry by auto
  then have "c < length (us_sessions s)" "ss_key (us_sessions s ! c) = key" using registry_invD(3) [OF inv] by blast+
  then show ?case using same(2,3) ch by (cases "c = ch") auto
qed (simp_all add: same(1))

lemma registry_inv_preserved:
  assumes "udp_step worker_of s s'" and "registry_inv worker_of s"
  shows "registry_inv worker_of s'"
  using assms(1)
proof (cases rule: udp_step.cases)
  case (session_receive ch key task tasks)
  then show ?thesis using registry_invD(4) [OF assms(2), of ch]
    by (intro inv_session [OF assms(2), where ch = ch and key = key]) auto
next
  case (session_idle ch key)
  then show ?thesis using registry_invD(4) [OF assms(2), of ch]
    by (intro inv_session [OF assms(2), where ch = ch and key = key]) auto
next
  case (session_error ch)
  then show ?thesis using registry_invD(4) [OF assms(2), of ch]
    by (intro inv_session [OF assms(2), where ch = ch and key = "ss_key (us_sessions s ! ch)"
        and session = "(us_sessions s ! ch)\<lparr> ss_pc := SEnding \<rparr>"]) auto
next
  case (session_remove ch removed s'')
  then show ?thesis using registry_invD(4) [OF assms(2), of ch]
    by (intro inv_session [OF assms(2), where ch = ch and key = "ss_key (us_sessions s ! ch)"
        and session = "(us_sessions s ! ch)\<lparr> ss_pc := SRemoved removed \<rparr>"]) (auto simp: registry_remove_def)
next
  case (session_gone ch removed)
  then show ?thesis using registry_invD(4) [OF assms(2), of ch]
    by (intro inv_session [OF assms(2), where ch = ch and key = "ss_key (us_sessions s ! ch)"
        and session = "(us_sessions s ! ch)\<lparr> ss_pc := SGone, ss_queue := [] \<rparr>"])
      (auto simp: receiver_drop_def observe_removed_def Let_def)
next
  case (receive key task)
  show ?thesis unfolding receive(1) by (rule inv_receive [OF assms(2) receive(2)])
next
  case (find w key task)
  show ?thesis unfolding find(1) by (rule inv_find [OF assms(2) find(2)])
next
  case (insert w key task)
  show ?thesis unfolding insert(1) by (rule inv_insert [OF assms(2) insert(2)])
next
  case (started w key task ch)
  show ?thesis unfolding started(1) by (rule inv_started [OF assms(2) started(2)])
next
  case (connected w key task ch)
  show ?thesis unfolding connected(1) by (rule inv_connected [OF assms(2) connected(2)])
next
  case (refused w key task ch)
  show ?thesis unfolding refused(1) by (rule inv_refused [OF assms(2) refused(2)])
next
  case (refused_remove w key ch removed s1)
  show ?thesis unfolding refused_remove(1) by (rule inv_refused_remove [OF assms(2) refused_remove(2) refused_remove(3)])
next
  case (refused_return w key ch removed)
  show ?thesis unfolding refused_return(1) by (rule inv_refused_return [OF assms(2) refused_return(2)])
next
  case (send w key task ch)
  show ?thesis unfolding send(1) by (rule inv_send [OF assms(2) send(2)])
next
  case (closed_remove w key task ch removed s1)
  show ?thesis unfolding closed_remove(1) by (rule inv_closed_remove [OF assms(2) closed_remove(2) closed_remove(3)])
next
  case (closed_again w key task removed s1)
  show ?thesis unfolding closed_again(1) by (rule inv_closed_again [OF assms(2) closed_again(2) closed_again(3)])
qed

lemma reachable_registry_inv: "udp_reachable worker_of s \<Longrightarrow> registry_inv worker_of s"
  unfolding udp_reachable_def by (induction rule: rtranclp_induct) (auto intro: registry_inv_start registry_inv_preserved)

section \<open>The gauge of active sessions\<close>

fun counted :: "SessionPc \<Rightarrow> bool" where
  "counted SInserted = False"
| "counted SStarted = True"
| "counted SRunning = True"
| "counted SEnding = True"
| "counted (SRemoved removed) = removed"
| "counted (SFailing removed) = removed"
| "counted SGone = False"

definition counted_sessions :: "'t UdpSession list \<Rightarrow> string \<Rightarrow> nat" where
  "counted_sessions sessions listener =
     length (filter (\<lambda>x. uk_listener_name (ss_key x) = listener \<and> counted (ss_pc x)) sessions)"

lemma counted_sessions_update:
  assumes "ch < length sessions" and "ss_key session = ss_key (sessions ! ch)"
  shows "counted_sessions (sessions[ch := session]) l + of_bool (uk_listener_name (ss_key session) = l \<and> counted (ss_pc (sessions ! ch))) =
    counted_sessions sessions l + of_bool (uk_listener_name (ss_key session) = l \<and> counted (ss_pc session))"
proof -
  have split: "sessions = take ch sessions @ sessions ! ch # drop (Suc ch) sessions" using assms(1) by (rule id_take_nth_drop)
  have new: "sessions[ch := session] = take ch sessions @ session # drop (Suc ch) sessions" using assms(1) by (rule upd_conv_take_nth_drop)
  have "counted_sessions sessions l = counted_sessions (take ch sessions @ sessions ! ch # drop (Suc ch) sessions) l" using split by simp
  then show ?thesis unfolding new using assms(2) by (simp add: counted_sessions_def)
qed

lemma counted_sessions_same:
  assumes "ch < length sessions" and "ss_key session = ss_key (sessions ! ch)" and "counted (ss_pc session) = counted (ss_pc (sessions ! ch))"
  shows "counted_sessions (sessions[ch := session]) l = counted_sessions sessions l"
  using counted_sessions_update [OF assms(1,2), of l] assms(3) by simp

lemma counted_sessions_append: "counted_sessions (sessions @ [\<lparr> ss_key = key, ss_pc = SInserted, ss_queue = [] \<rparr>]) l = counted_sessions sessions l"
  by (simp add: counted_sessions_def)

lemma counted_sessions_le:
  assumes "ch < length sessions" and "\<not> counted (ss_pc (sessions ! ch))"
  shows "counted_sessions sessions l < length sessions"
proof -
  have "filter (\<lambda>x. uk_listener_name (ss_key x) = l \<and> counted (ss_pc x)) sessions \<noteq> sessions"
    using assms by (metis (mono_tags, lifting) filter_id_conv nth_mem)
  then show ?thesis unfolding counted_sessions_def
    by (metis (no_types, lifting) filter_True length_filter_less length_filter_le le_neq_implies_less)
qed

definition gauge_ok :: "'t UdpSystem \<Rightarrow> bool" where
  "gauge_ok s \<longleftrightarrow> (\<forall>l. named (ud_active_sessions_by_listener (us_stats s)) l = counted_sessions (us_sessions s) l)"

lemma active_sessions_stats [simp]:
  "ud_active_sessions_by_listener (observe_queue_enqueued st l) = ud_active_sessions_by_listener st"
  "ud_active_sessions_by_listener (observe_queue_dequeued st l) = ud_active_sessions_by_listener st"
  "ud_active_sessions_by_listener (observe_queue_overflow_drop st l) = ud_active_sessions_by_listener st"
  "ud_active_sessions_by_listener (observe_idle_eviction st l) = ud_active_sessions_by_listener st"
  "ud_active_sessions_by_listener (foldl (\<lambda>st _. observe_queue_dequeued st l) st ts) = ud_active_sessions_by_listener st"
  by (simp_all add: observe_queue_enqueued_def observe_queue_dequeued_def observe_queue_overflow_drop_def observe_idle_eviction_def)
    (induction ts arbitrary: st; simp add: observe_queue_dequeued_def)

lemma gauge_ok_same:
  assumes "gauge_ok s" and "ud_active_sessions_by_listener (us_stats s') = ud_active_sessions_by_listener (us_stats s)"
    and "\<And>l. counted_sessions (us_sessions s') l = counted_sessions (us_sessions s) l"
  shows "gauge_ok s'"
  using assms by (simp add: gauge_ok_def)

lemma gauge_ok_ended:
  assumes ok: "gauge_ok s" and ch: "ch < length (us_sessions s)" "ss_key (us_sessions s ! ch) = key" "counted (ss_pc (us_sessions s ! ch))"
  shows "gauge_ok (receiver_drop ch (observe_removed True key s))"
proof -
  have "counted_sessions ((us_sessions s)[ch := (us_sessions s ! ch)\<lparr> ss_pc := SGone, ss_queue := [] \<rparr>]) l + of_bool (uk_listener_name key = l)
      = counted_sessions (us_sessions s) l" for l
    using counted_sessions_update [OF ch(1), of "(us_sessions s ! ch)\<lparr> ss_pc := SGone, ss_queue := [] \<rparr>" l] ch(2,3) by simp
  then have "counted_sessions ((us_sessions s)[ch := (us_sessions s ! ch)\<lparr> ss_pc := SGone, ss_queue := [] \<rparr>]) l
      = counted_sessions (us_sessions s) l - of_bool (uk_listener_name key = l)" for l by (metis add_diff_cancel_right')
  then show ?thesis using ok by (simp add: gauge_ok_def receiver_drop_def observe_removed_def observe_session_ended_def named_decrement Let_def)
qed

lemma gauge_ok_preserved:
  assumes step: "udp_step worker_of s s'" and inv: "registry_inv worker_of s" and ok: "gauge_ok s" and fits: "length (us_sessions s') < 2 ^ 64"
  shows "gauge_ok s'"
  using step
proof (cases rule: udp_step.cases)
  case (receive key task)
  then show ?thesis using ok by (auto intro: gauge_ok_same)
next
  case (find w key task)
  then show ?thesis using ok by (auto intro!: gauge_ok_same [OF ok] simp: registry_lookup_def split: option.splits)
next
  case (insert w key task)
  then show ?thesis
    by (auto intro!: gauge_ok_same [OF ok] simp: registry_insert_def counted_sessions_append Let_def split: option.splits)
next
  case (started w key task ch)
  then have "worker_ok s (WInserted key task ch)" using registry_invD(1) [OF inv, of w] by simp
  then have ch: "ch < length (us_sessions s)" "ss_key (us_sessions s ! ch) = key" "ss_pc (us_sessions s ! ch) = SInserted"
    using registry_invD(3) [OF inv] by auto
  have "counted_sessions (us_sessions s) (uk_listener_name key) < length (us_sessions s)"
    using counted_sessions_le [OF ch(1)] ch(3) by simp
  then have room: "named (ud_active_sessions_by_listener (us_stats s)) (uk_listener_name key) < 2 ^ 64 - 1"
    using ok fits started by (simp add: gauge_ok_def)
  have "counted_sessions ((us_sessions s)[ch := (us_sessions s ! ch)\<lparr> ss_pc := SStarted \<rparr>]) l
      = counted_sessions (us_sessions s) l + of_bool (uk_listener_name key = l)" for l
    using counted_sessions_update [OF ch(1), of "(us_sessions s ! ch)\<lparr> ss_pc := SStarted \<rparr>" l] ch by simp
  then show ?thesis using ok started named_increment [OF room]
    by (simp add: gauge_ok_def observe_session_started_def)
next
  case (connected w key task ch)
  then have "worker_ok s (WStarted key task ch)" using registry_invD(1) [OF inv, of w] by simp
  then have "ch < length (us_sessions s)" "ss_pc (us_sessions s ! ch) = SStarted" using registry_invD(3) [OF inv] by auto
  then show ?thesis using connected by (auto intro!: gauge_ok_same [OF ok] counted_sessions_same)
next
  case (refused w key task ch)
  then show ?thesis using ok by (auto intro: gauge_ok_same)
next
  case (refused_remove w key ch removed s'')
  then have "worker_ok s (WFailed key ch)" using registry_invD(1) [OF inv, of w] by simp
  then have "ch < length (us_sessions s)" "ss_pc (us_sessions s ! ch) = SStarted" "removed"
    using registry_invD(3) [OF inv] refused_remove(3) by (auto simp: registry_remove_def)
  then show ?thesis using refused_remove by (auto intro!: gauge_ok_same [OF ok] counted_sessions_same simp: registry_remove_def)
next
  case (refused_return w key ch removed)
  then have "worker_ok s (WFailedRemoved key ch removed)" using registry_invD(1) [OF inv, of w] by simp
  then have "gauge_ok (receiver_drop ch (observe_removed removed key s))" using gauge_ok_ended [OF ok] by auto
  then show ?thesis unfolding refused_return(1) by (rule gauge_ok_same) simp_all
next
  case (send w key task ch)
  then have "worker_ok s (WSend key task ch)" using registry_invD(1) [OF inv, of w] by simp
  then show ?thesis unfolding send(1)
    by (auto intro!: gauge_ok_same [OF ok] counted_sessions_same simp: try_send_def Let_def)
next
  case (closed_remove w key task ch removed s'')
  then show ?thesis by (auto intro!: gauge_ok_same [OF ok] simp: registry_remove_def)
next
  case (closed_again w key task removed s'')
  then have "\<not> removed" using registry_invD(1) [OF inv, of w] by simp
  then show ?thesis using closed_again by (auto intro!: gauge_ok_same [OF ok] simp: observe_removed_def)
next
  case (session_receive ch key task tasks)
  then show ?thesis by (auto intro!: gauge_ok_same [OF ok] counted_sessions_same)
next
  case (session_idle ch key)
  then show ?thesis by (auto intro!: gauge_ok_same [OF ok] counted_sessions_same)
next
  case (session_error ch)
  then show ?thesis by (auto intro!: gauge_ok_same [OF ok] counted_sessions_same)
next
  case (session_remove ch removed s'')
  then have "removed" using registry_invD(4) [OF inv, of ch] by (auto simp: registry_remove_def)
  then show ?thesis using session_remove by (auto intro!: gauge_ok_same [OF ok] counted_sessions_same simp: registry_remove_def)
next
  case (session_gone ch removed)
  then have "removed" using registry_invD(4) [OF inv, of ch] by auto
  then show ?thesis using session_gone gauge_ok_ended [OF ok, of ch] by simp
qed

lemma sessions_grow: "udp_step worker_of s s' \<Longrightarrow> length (us_sessions s) \<le> length (us_sessions s')"
  by (induction rule: udp_step.induct)
    (auto simp: registry_lookup_def registry_insert_def registry_remove_def observe_removed_def receiver_drop_def try_send_def Let_def split: option.splits)

lemma reachable_gauge_ok:
  assumes "udp_reachable worker_of s" and "length (us_sessions s) < 2 ^ 64"
  shows "gauge_ok s"
proof -
  have "(udp_step worker_of)\<^sup>*\<^sup>* udp_start s" using assms(1) by (simp add: udp_reachable_def)
  then have "length (us_sessions s) < 2 ^ 64 \<longrightarrow> gauge_ok s"
  proof (induction rule: rtranclp_induct)
    case base
    show ?case by (simp add: gauge_ok_def udp_start_def UdpSessionStats_default_def counted_sessions_def)
  next
    case (step s s')
    have "registry_inv worker_of s" using step.hyps(1) by (intro reachable_registry_inv) (simp add: udp_reachable_def)
    then show ?case using gauge_ok_preserved [OF step.hyps(2)] sessions_grow [OF step.hyps(2)] step.IH by auto
  qed
  then show ?thesis using assms(2) by blast
qed

text \<open>
  C14. The sessions of the UDP proxy under every interleaving of the workers and the session tasks, given
  that the datagrams of a key all go to one worker. A session that is being set up or runs is the one that
  the registry has for its key, so a client has at most one session per listener and backend and no session
  is cut off by the removal of another; and the gauge of a listener counts the sessions from
  the moment they are announced until their end has been recorded.
\<close>

theorem udp_sessions_registered:
  assumes "udp_reachable worker_of s" and "length (us_sessions s) < 2 ^ 64"
  shows "(ch < length (us_sessions s) \<longrightarrow> ss_pc (us_sessions s ! ch) \<in> {SInserted, SStarted, SRunning, SEnding} \<longrightarrow>
      us_registry s (ss_key (us_sessions s ! ch)) = Some ch)
    \<and> named (ud_active_sessions_by_listener (us_stats s)) listener = counted_sessions (us_sessions s) listener"
proof
  show "ch < length (us_sessions s) \<longrightarrow> ss_pc (us_sessions s ! ch) \<in> {SInserted, SStarted, SRunning, SEnding} \<longrightarrow>
      us_registry s (ss_key (us_sessions s ! ch)) = Some ch"
    using registry_invD(4) [OF reachable_registry_inv [OF assms(1)], of ch] by auto
  show "named (ud_active_sessions_by_listener (us_stats s)) listener = counted_sessions (us_sessions s) listener"
    using reachable_gauge_ok [OF assms] by (simp add: gauge_ok_def)
qed

section \<open>A datagram that meets an ending session\<close>

lemma reachable_start: "udp_reachable worker_of udp_start"
  by (simp add: udp_reachable_def)

lemma reachable_step: "udp_reachable worker_of s \<Longrightarrow> udp_step worker_of s s' \<Longrightarrow> s' = s'' \<Longrightarrow> udp_reachable worker_of s''"
  unfolding udp_reachable_def by (metis rtranclp.rtrancl_into_rtrancl)

text \<open>A system with one session, of which one worker is not idle.\<close>

definition one_session :: "nat \<Rightarrow> UdpSessionKey \<Rightarrow> SessionPc \<Rightarrow> 't list \<Rightarrow> UdpSessionStats \<Rightarrow> 't WorkerPc \<Rightarrow> 't UdpSystem" where
  "one_session w key pc queue st worker = \<lparr> us_registry = [key \<mapsto> 0], us_sessions = [\<lparr> ss_key = key, ss_pc = pc, ss_queue = queue \<rparr>],
     us_stats = st, us_workers = (\<lambda>_. WIdle)(w := worker) \<rparr>"

lemma one_session_runs:
  "\<exists>st. ud_queue_overflow_dropped_total st = 0 \<and> udp_reachable worker_of (one_session (worker_of key) key SRunning [] st WIdle :: 't UdpSystem)"
proof -
  let ?w = "worker_of key" and ?start = UdpSessionStats_default
  let ?miss = "\<lambda>pc. udp_start\<lparr> us_workers := (\<lambda>_. WIdle)(?w := pc) \<rparr>"
  have 1: "udp_reachable worker_of (?miss (WLookup key task))" for task :: 't
    by (rule reachable_step [OF reachable_start udp_step.receive [where key = key and task = task]]) (simp_all add: udp_start_def)
  have 2: "udp_reachable worker_of (?miss (WMissed key task))" for task :: 't
    by (rule reachable_step [OF 1 udp_step.find [where w = ?w and key = key and task = task]]) (simp_all add: udp_start_def registry_lookup_def)
  have 3: "udp_reachable worker_of (one_session ?w key SInserted [] ?start (WInserted key task 0))" for task :: 't
    by (rule reachable_step [OF 2 udp_step.insert [where w = ?w and key = key and task = task]])
      (simp_all add: udp_start_def registry_insert_def one_session_def)
  let ?started = "observe_session_started ?start (uk_listener_name key)"
  have 4: "udp_reachable worker_of (one_session ?w key SStarted [] ?started (WStarted key task 0))" for task :: 't
    by (rule reachable_step [OF 3 udp_step.started [where w = ?w and key = key and task = task and ch = 0]]) (simp_all add: one_session_def)
  have 5: "udp_reachable worker_of (one_session ?w key SRunning [] ?started (WSend key task 0))" for task :: 't
    by (rule reachable_step [OF 4 udp_step.connected [where w = ?w and key = key and task = task and ch = 0]]) (simp_all add: one_session_def)
  let ?queued = "observe_queue_enqueued ?started (uk_listener_name key)"
  have 6: "udp_reachable worker_of (one_session ?w key SRunning [task] ?queued WIdle)" for task :: 't
    by (rule reachable_step [OF 5 udp_step.send [where w = ?w and key = key and task = task and ch = 0]])
      (simp_all add: one_session_def try_send_def CHANNEL_CAPACITY_def)
  have 7: "udp_reachable worker_of (one_session ?w key SRunning [] (observe_queue_dequeued ?queued (uk_listener_name key)) WIdle :: 't UdpSystem)"
    by (rule reachable_step [OF 6 udp_step.session_receive [where ch = 0 and key = key and task = "undefined :: 't" and tasks = "[]"]])
      (simp_all add: one_session_def)
  then show ?thesis
    by (intro exI conjI)
      (simp_all add: observe_queue_dequeued_def observe_queue_enqueued_def observe_session_started_def UdpSessionStats_default_def)
qed

lemma datagram_meets_end:
  "\<exists>st. ud_queue_overflow_dropped_total st = 0 \<and> udp_reachable worker_of (one_session (worker_of key) key SEnding [] st (WSend key task 0))"
proof -
  let ?w = "worker_of key"
  obtain st where st: "ud_queue_overflow_dropped_total st = 0" and 1: "udp_reachable worker_of (one_session ?w key SRunning [] st (WIdle :: 'a WorkerPc))"
    using one_session_runs by blast
  have 2: "udp_reachable worker_of (one_session ?w key SRunning [] st (WLookup key task))"
    by (rule reachable_step [OF 1 udp_step.receive [where key = key and task = task]]) (simp_all add: one_session_def)
  have 3: "udp_reachable worker_of (one_session ?w key SRunning [] st (WSend key task 0))"
    by (rule reachable_step [OF 2 udp_step.find [where w = ?w and key = key and task = task]]) (simp_all add: one_session_def registry_lookup_def)
  let ?idle = "observe_idle_eviction st (uk_listener_name key)"
  have 4: "udp_reachable worker_of (one_session ?w key SEnding [] ?idle (WSend key task 0))"
    by (rule reachable_step [OF 3 udp_step.session_idle [where ch = 0 and key = key]]) (simp_all add: one_session_def)
  then show ?thesis using st by (intro exI conjI) (simp_all add: observe_idle_eviction_def)
qed

lemma datagram_queued_at_end:
  "\<exists>st. ud_queue_overflow_dropped_total st = 0 \<and> udp_reachable worker_of (one_session (worker_of key) key SEnding [task] st WIdle)"
proof -
  let ?w = "worker_of key"
  obtain st where st: "ud_queue_overflow_dropped_total st = 0"
    and 4: "udp_reachable worker_of (one_session ?w key SEnding [] st (WSend key task 0))" using datagram_meets_end [of worker_of key task] by (elim exE conjE)
  have 5: "udp_reachable worker_of (one_session ?w key SEnding [task] (observe_queue_enqueued st (uk_listener_name key)) WIdle)"
    by (rule reachable_step [OF 4 udp_step.send [where w = ?w and key = key and task = task and ch = 0]])
      (simp_all add: one_session_def try_send_def CHANNEL_CAPACITY_def)
  then show ?thesis using st by (intro exI conjI) (simp_all add: observe_queue_enqueued_def)
qed

text \<open>A session that has left its loop does not come back to it.\<close>

fun past_loop :: "SessionPc \<Rightarrow> bool" where
  "past_loop SEnding = True"
| "past_loop (SRemoved _) = True"
| "past_loop SGone = True"
| "past_loop _ = False"

lemma nth_updated: "i < length xs \<Longrightarrow> xs[j := y] ! i = (if j = i then y else xs ! i)"
  by (simp add: nth_list_update)

lemma past_loop_step:
  assumes step: "udp_step worker_of s s'" and inv: "registry_inv worker_of s" and ch: "ch < length (us_sessions s)" "past_loop (ss_pc (us_sessions s ! ch))"
  shows "past_loop (ss_pc (us_sessions s' ! ch))"
proof -
  have neq: "us_workers s w = WInserted key task c \<Longrightarrow> c \<noteq> ch" "us_workers s w = WStarted key task c \<Longrightarrow> c \<noteq> ch"
    "us_workers s w = WFailed key c \<Longrightarrow> c \<noteq> ch" for w key task c
    using registry_invD(1) [OF inv, of w] ch(2) by auto
  show ?thesis using step ch
    by (cases rule: udp_step.cases)
      (use neq in \<open>auto simp: registry_lookup_def registry_insert_def registry_remove_def observe_removed_def receiver_drop_def try_send_def
        Let_def nth_append nth_updated split: option.splits if_splits\<close>)
qed

text \<open>The counters of dropped datagrams.\<close>

definition overflow_drops :: "'t UdpSystem \<Rightarrow> u64 \<times> counters" where
  "overflow_drops s = (ud_queue_overflow_dropped_total (us_stats s), ud_queue_overflow_dropped_by_listener (us_stats s))"

lemma dequeue_counters:
  "ud_queue_overflow_dropped_total (foldl (\<lambda>st _. observe_queue_dequeued st l) st q) = ud_queue_overflow_dropped_total st"
  "ud_queue_overflow_dropped_by_listener (foldl (\<lambda>st _. observe_queue_dequeued st l) st q) = ud_queue_overflow_dropped_by_listener st"
  by (induction q arbitrary: st) (simp_all add: observe_queue_dequeued_def)

lemma sessions_observe_removed: "us_sessions (observe_removed removed key s) = us_sessions s"
  by (simp add: observe_removed_def)

lemma drop_uncounted: "overflow_drops (receiver_drop ch (observe_removed removed key s)) = overflow_drops s"
  by (simp add: overflow_drops_def receiver_drop_def observe_removed_def observe_session_ended_def dequeue_counters Let_def)

text \<open>
  What a step does to a session that has left its loop: its queue may grow, or it drops the queue, uncounted.
\<close>

lemma ending_step:
  assumes step: "udp_step worker_of s s'" and inv: "registry_inv worker_of s"
    and ch: "ch < length (us_sessions s)" "past_loop (ss_pc (us_sessions s ! ch))" "ss_pc (us_sessions s ! ch) \<noteq> SGone"
  shows "ss_pc (us_sessions s' ! ch) \<noteq> SGone \<and> (\<exists>more. ss_queue (us_sessions s' ! ch) = ss_queue (us_sessions s ! ch) @ more)
    \<or> ss_pc (us_sessions s' ! ch) = SGone \<and> ss_queue (us_sessions s' ! ch) = [] \<and> overflow_drops s' = overflow_drops s"
proof -
  have neq: "us_workers s w = WInserted key task c \<Longrightarrow> c \<noteq> ch" "us_workers s w = WStarted key task c \<Longrightarrow> c \<noteq> ch"
    "us_workers s w = WFailed key c \<Longrightarrow> c \<noteq> ch" "us_workers s w = WFailedRemoved key c removed \<Longrightarrow> c \<noteq> ch" for w key task c removed
    using registry_invD(1) [OF inv, of w] ch(2) by auto
  show ?thesis using step
  proof (cases rule: udp_step.cases)
    case (session_gone c removed)
    let ?s = "observe_removed removed (ss_key (us_sessions s ! c)) s"
    have "us_sessions s' ! ch = (if c = ch then (us_sessions s ! ch)\<lparr> ss_pc := SGone, ss_queue := [] \<rparr> else us_sessions s ! ch)"
      unfolding session_gone(1) using ch(1) by (simp add: receiver_drop_def sessions_observe_removed nth_updated Let_def)
    moreover have "overflow_drops s' = overflow_drops s" unfolding session_gone(1) by (rule drop_uncounted)
    ultimately show ?thesis using ch(3) by (cases "c = ch") simp_all
  qed (use neq ch in \<open>auto simp: registry_lookup_def registry_insert_def registry_remove_def observe_removed_def receiver_drop_def try_send_def
        Let_def nth_append nth_updated split: option.splits if_splits\<close>)
qed

lemma gone_step:
  assumes step: "udp_step worker_of s s'" and inv: "registry_inv worker_of s"
    and ch: "ch < length (us_sessions s)" "ss_pc (us_sessions s ! ch) = SGone" "ss_queue (us_sessions s ! ch) = []"
  shows "ss_pc (us_sessions s' ! ch) = SGone \<and> ss_queue (us_sessions s' ! ch) = []"
proof -
  have neq: "us_workers s w = WInserted key task c \<Longrightarrow> c \<noteq> ch" "us_workers s w = WStarted key task c \<Longrightarrow> c \<noteq> ch"
    "us_workers s w = WFailed key c \<Longrightarrow> c \<noteq> ch" "us_workers s w = WFailedRemoved key c removed \<Longrightarrow> c \<noteq> ch" for w key task c removed
    using registry_invD(1) [OF inv, of w] ch(2) by auto
  show ?thesis using step
    by (cases rule: udp_step.cases)
      (use neq ch in \<open>auto simp: registry_lookup_def registry_insert_def registry_remove_def observe_removed_def receiver_drop_def try_send_def
        Let_def nth_append nth_updated split: option.splits if_splits\<close>)
qed

lemma ending_forever:
  assumes "(udp_step worker_of)\<^sup>*\<^sup>* s s'" and "registry_inv worker_of s"
    and "ch < length (us_sessions s)" and "past_loop (ss_pc (us_sessions s ! ch))" and "ss_pc (us_sessions s ! ch) \<noteq> SGone"
  shows "registry_inv worker_of s' \<and> ch < length (us_sessions s') \<and> past_loop (ss_pc (us_sessions s' ! ch))
    \<and> (ss_pc (us_sessions s' ! ch) \<noteq> SGone \<and> (\<exists>more. ss_queue (us_sessions s' ! ch) = ss_queue (us_sessions s ! ch) @ more)
       \<or> ss_pc (us_sessions s' ! ch) = SGone \<and> ss_queue (us_sessions s' ! ch) = [])"
  using assms(1)
proof (induction rule: rtranclp_induct)
  case base
  show ?case using assms by simp
next
  case (step s1 s2)
  have keep: "registry_inv worker_of s2" "ch < length (us_sessions s2)" "past_loop (ss_pc (us_sessions s2 ! ch))"
    using step.IH registry_inv_preserved [OF step.hyps(2)] sessions_grow [OF step.hyps(2)] past_loop_step [OF step.hyps(2)] by auto
  show ?case
  proof (cases "ss_pc (us_sessions s1 ! ch) = SGone")
    case True
    then show ?thesis using gone_step [OF step.hyps(2), of ch] step.IH keep by auto
  next
    case False
    then show ?thesis using ending_step [OF step.hyps(2), of ch] step.IH keep by auto
  qed
qed


definition sample_key :: UdpSessionKey where
  "sample_key = \<lparr> uk_listener_name = ''dns'', uk_client_addr = ''10.0.0.1:5353'', uk_upstream_addr = ''10.0.0.9:53'' \<rparr>"


theorem udp_sessions_registered_witness:
  "\<exists>s :: nat UdpSystem. us_registry s sample_key = Some 0 \<and> named (ud_active_sessions_by_listener (us_stats s)) ''dns'' = 1"
proof -
  obtain st where r: "udp_reachable (\<lambda>_. 3) (one_session 3 sample_key SEnding [7 :: nat] st WIdle)"
    using datagram_queued_at_end [of "\<lambda>_. 3" sample_key "7 :: nat"] by (elim exE conjE)
  let ?s = "one_session 3 sample_key SEnding [7 :: nat] st WIdle"
  have s: "us_sessions ?s = [\<lparr> ss_key = sample_key, ss_pc = SEnding, ss_queue = [7] \<rparr>]" by (simp add: one_session_def)
  have "us_registry ?s sample_key = Some 0" using udp_sessions_registered [OF r, of 0 "''dns''"] unfolding s by simp
  moreover have "named (ud_active_sessions_by_listener (us_stats ?s)) ''dns'' = 1"
    using udp_sessions_registered [OF r, of 0 "''dns''"] unfolding s by (simp add: counted_sessions_def sample_key_def)
  ultimately show ?thesis by (intro exI conjI)
qed

end
