(* ===== verification/Ai_Quota.thy ===== *)
theory Ai_Quota
  imports Counters Complex_Main
begin

text \<open>
  Quotas of the AI gateway: the sliding windows of requests and tokens, \<open>ntgw-ai/src/ratelimit.rs\<close>, and the registry of
  tenants with their fixed windows, \<open>ntgw-ai/src/multitenant.rs\<close>. Operations on one key are atomic, as under the lock of its
  entry, and the time is an argument. The burst factor and costs are real numbers in place of \<open>f64\<close>.
\<close>

section \<open>Sliding windows\<close>

datatype RateLimitResult = Allowed u64 | Limited u64

record RateLimitConfig =
  lc_tokens_per_minute :: u64
  lc_tokens_per_hour :: u64
  lc_requests_per_minute :: u64
  lc_scope :: string
  lc_burst :: real
  lc_on_limit :: string

definition RateLimitConfig_default :: RateLimitConfig where
  "RateLimitConfig_default = \<lparr> lc_tokens_per_minute = 0, lc_tokens_per_hour = 0, lc_requests_per_minute = 0,
     lc_scope = ''apiKey'', lc_burst = 1, lc_on_limit = ''reject'' \<rparr>"

record SlidingWindow =
  sw_minute_req_limit :: u64
  sw_minute_token_limit :: u64
  sw_hour_token_limit :: u64
  sw_requests :: "Instant list"
  sw_minute_tokens :: "(Instant \<times> u64) list"
  sw_hour_tokens :: "(Instant \<times> u64) list"
  sw_minute_token_total :: u64
  sw_hour_token_total :: u64

definition from_secs :: "nat \<Rightarrow> Duration" where
  "from_secs n = n * 1000000000"

definition min_enabled_remaining :: "u64 option list \<Rightarrow> u64" where
  "min_enabled_remaining values =
     (case map the (filter (\<lambda>v. v \<noteq> None) values) of [] \<Rightarrow> - 1 | v # vs \<Rightarrow> fold min vs v)"

text \<open>A limit times the burst factor, \<open>(limit as f64 * burst) as u64\<close>: the cast rounds down and saturates.\<close>

definition scaled_limit :: "real \<Rightarrow> u64 \<Rightarrow> u64" where
  "scaled_limit burst limit = of_nat (min (nat \<lfloor>real (unat limit) * burst\<rfloor>) (2 ^ 64 - 1))"

definition sliding_window_new :: "RateLimitConfig \<Rightarrow> SlidingWindow" where
  "sliding_window_new config =
     (let burst = max (lc_burst config) 1
      in \<lparr> sw_minute_req_limit = scaled_limit burst (lc_requests_per_minute config),
           sw_minute_token_limit = scaled_limit burst (lc_tokens_per_minute config),
           sw_hour_token_limit = scaled_limit burst (lc_tokens_per_hour config),
           sw_requests = [], sw_minute_tokens = [], sw_hour_tokens = [],
           sw_minute_token_total = 0, sw_hour_token_total = 0 \<rparr>)"

fun prune_token_window :: "(Instant \<times> u64) list \<Rightarrow> u64 \<Rightarrow> Instant \<Rightarrow> Duration \<Rightarrow> (Instant \<times> u64) list \<times> u64" where
  "prune_token_window [] token_total now window = ([], token_total)"
| "prune_token_window ((t, expired_tokens) # tokens) token_total now window =
     (if now - t > window then prune_token_window tokens (saturating_sub token_total expired_tokens) now window
      else ((t, expired_tokens) # tokens, token_total))"

fun prune_requests :: "Instant list \<Rightarrow> Instant \<Rightarrow> Duration \<Rightarrow> Instant list" where
  "prune_requests [] now window = []"
| "prune_requests (t # requests) now window =
     (if now - t > window then prune_requests requests now window else t # requests)"

definition prune :: "SlidingWindow \<Rightarrow> Instant \<Rightarrow> SlidingWindow" where
  "prune sw now =
     (let (minute_tokens, minute_token_total) = prune_token_window (sw_minute_tokens sw) (sw_minute_token_total sw) now (from_secs 60);
          (hour_tokens, hour_token_total) = prune_token_window (sw_hour_tokens sw) (sw_hour_token_total sw) now (from_secs 3600)
      in sw\<lparr> sw_requests := prune_requests (sw_requests sw) now (from_secs 60),
             sw_minute_tokens := minute_tokens, sw_minute_token_total := minute_token_total,
             sw_hour_tokens := hour_tokens, sw_hour_token_total := hour_token_total \<rparr>)"

definition window_check :: "SlidingWindow \<Rightarrow> Instant \<Rightarrow> RateLimitResult \<times> SlidingWindow" where
  "window_check sw now =
     (let sw = prune sw now;
          minute_used = sw_minute_token_total sw;
          hour_used = sw_hour_token_total sw
      in if sw_minute_token_limit sw > 0 \<and> minute_used \<ge> sw_minute_token_limit sw then (Limited 1, sw)
         else if sw_hour_token_limit sw > 0 \<and> hour_used \<ge> sw_hour_token_limit sw then (Limited 1, sw)
         else if sw_minute_req_limit sw > 0 \<and> length (sw_requests sw) \<ge> unat (sw_minute_req_limit sw)
         then let oldest = (case sw_requests sw of [] \<Rightarrow> now | t # _ \<Rightarrow> t);
                  secs = from_secs 60 - (now - oldest)
              in (Limited (max (of_nat (secs div 1000000000)) 1), sw)
         else
           let sw = sw\<lparr> sw_requests := sw_requests sw @ [now] \<rparr>
           in (Allowed (min_enabled_remaining
                 [if sw_minute_token_limit sw > 0 then Some (saturating_sub (sw_minute_token_limit sw) minute_used) else None,
                  if sw_hour_token_limit sw > 0 then Some (saturating_sub (sw_hour_token_limit sw) hour_used) else None,
                  if sw_minute_req_limit sw > 0
                  then Some (saturating_sub (sw_minute_req_limit sw) (of_nat (length (sw_requests sw)))) else None]), sw))"

definition record_tokens :: "SlidingWindow \<Rightarrow> u64 \<Rightarrow> Instant \<Rightarrow> RateLimitResult \<times> SlidingWindow" where
  "record_tokens sw tokens now =
     (let sw = prune sw now;
          projected_minute_total = saturating_add (sw_minute_token_total sw) tokens;
          projected_hour_total = saturating_add (sw_hour_token_total sw) tokens
      in if sw_hour_token_limit sw > 0 \<and> projected_hour_total > sw_hour_token_limit sw then (Limited 1, sw)
         else if sw_minute_token_limit sw > 0 \<and> projected_minute_total > sw_minute_token_limit sw then (Limited 1, sw)
         else
           let sw = (if sw_minute_token_limit sw > 0
                     then sw\<lparr> sw_minute_tokens := sw_minute_tokens sw @ [(now, tokens)], sw_minute_token_total := projected_minute_total \<rparr>
                     else sw);
               sw = (if sw_hour_token_limit sw > 0
                     then sw\<lparr> sw_hour_tokens := sw_hour_tokens sw @ [(now, tokens)], sw_hour_token_total := projected_hour_total \<rparr>
                     else sw)
           in (Allowed (min_enabled_remaining
                 [if sw_minute_token_limit sw > 0 then Some (saturating_sub (sw_minute_token_limit sw) (sw_minute_token_total sw)) else None,
                  if sw_hour_token_limit sw > 0 then Some (saturating_sub (sw_hour_token_limit sw) (sw_hour_token_total sw)) else None]), sw))"

record TokenRateLimiter =
  tl_windows :: "string \<rightharpoonup> SlidingWindow"
  tl_config :: RateLimitConfig

definition token_rate_limiter_new :: "RateLimitConfig \<Rightarrow> TokenRateLimiter" where
  "token_rate_limiter_new config = \<lparr> tl_windows = Map.empty, tl_config = config \<rparr>"

definition limiter_window :: "TokenRateLimiter \<Rightarrow> string \<Rightarrow> SlidingWindow" where
  "limiter_window rl key = (case tl_windows rl key of None \<Rightarrow> sliding_window_new (tl_config rl) | Some sw \<Rightarrow> sw)"

definition limiter_check :: "TokenRateLimiter \<Rightarrow> string \<Rightarrow> Instant \<Rightarrow> RateLimitResult \<times> TokenRateLimiter" where
  "limiter_check rl key now =
     (if lc_tokens_per_minute (tl_config rl) = 0 \<and> lc_tokens_per_hour (tl_config rl) = 0 \<and> lc_requests_per_minute (tl_config rl) = 0
      then (Allowed (- 1), rl)
      else case window_check (limiter_window rl key) now of
        (result, sw) \<Rightarrow> (result, rl\<lparr> tl_windows := (tl_windows rl)(key \<mapsto> sw) \<rparr>))"

definition record_usage :: "TokenRateLimiter \<Rightarrow> string \<Rightarrow> u64 \<Rightarrow> Instant \<Rightarrow> RateLimitResult \<times> TokenRateLimiter" where
  "record_usage rl key total_tokens now =
     (if lc_tokens_per_minute (tl_config rl) = 0 \<and> lc_tokens_per_hour (tl_config rl) = 0 then (Allowed (- 1), rl)
      else case record_tokens (limiter_window rl key) total_tokens now of
        (result, sw) \<Rightarrow> (result, rl\<lparr> tl_windows := (tl_windows rl)(key \<mapsto> sw) \<rparr>))"

section \<open>Tenants\<close>

record TenantQuota =
  tq_tokens_per_minute :: u64
  tq_tokens_per_day :: u64
  tq_requests_per_minute :: u64

record Tenant =
  tn_tenant_id :: string
  tn_api_keys :: "string list"
  tn_quota :: TenantQuota
  tn_allowed_models :: "string list"
  tn_cost_limit :: "real option"

record TenantQuotaState =
  ts_minute_tokens :: u64
  ts_day_tokens :: u64
  ts_minute_requests :: u64
  ts_minute_reset :: Instant
  ts_day_reset :: Instant

definition quota_state_new :: "Instant \<Rightarrow> TenantQuotaState" where
  "quota_state_new now = \<lparr> ts_minute_tokens = 0, ts_day_tokens = 0, ts_minute_requests = 0,
     ts_minute_reset = now + from_secs 60, ts_day_reset = now + from_secs 86400 \<rparr>"

definition quota_consume :: "TenantQuotaState \<Rightarrow> TenantQuota \<Rightarrow> u64 \<Rightarrow> Instant \<Rightarrow> bool \<times> TenantQuotaState" where
  "quota_consume st quota tokens now =
     (let st = (if now \<ge> ts_minute_reset st
                then st\<lparr> ts_minute_tokens := 0, ts_minute_requests := 0, ts_minute_reset := now + from_secs 60 \<rparr> else st);
          st = (if now \<ge> ts_day_reset st then st\<lparr> ts_day_tokens := 0, ts_day_reset := now + from_secs 86400 \<rparr> else st);
          new_minute_tokens = saturating_add (ts_minute_tokens st) tokens;
          new_day_tokens = saturating_add (ts_day_tokens st) tokens;
          new_minute_requests = saturating_add (ts_minute_requests st) 1
      in if tq_tokens_per_minute quota > 0 \<and> new_minute_tokens > tq_tokens_per_minute quota then (False, st)
         else if tq_tokens_per_day quota > 0 \<and> new_day_tokens > tq_tokens_per_day quota then (False, st)
         else if tq_requests_per_minute quota > 0 \<and> new_minute_requests > tq_requests_per_minute quota then (False, st)
         else (True, st\<lparr> ts_minute_tokens := new_minute_tokens, ts_day_tokens := new_day_tokens, ts_minute_requests := new_minute_requests \<rparr>))"

record TenantManager =
  tm_tenants :: "string \<rightharpoonup> Tenant"
  tm_api_key_index :: "string \<rightharpoonup> string"
  tm_quota_state :: "string \<rightharpoonup> TenantQuotaState"
  tm_check_count :: u64

definition CLEANUP_INTERVAL :: u64 where
  "CLEANUP_INTERVAL = 1000"

definition register_tenant :: "(string \<rightharpoonup> Tenant) \<times> (string \<rightharpoonup> string) \<Rightarrow> Tenant \<Rightarrow> (string \<rightharpoonup> Tenant) \<times> (string \<rightharpoonup> string)" where
  "register_tenant maps t =
     (case maps of (tenant_map, key_index) \<Rightarrow>
        (tenant_map(tn_tenant_id t \<mapsto> t), foldl (\<lambda>index key. index(key \<mapsto> tn_tenant_id t)) key_index (tn_api_keys t)))"

definition tenant_manager_new :: "Tenant list \<Rightarrow> TenantManager" where
  "tenant_manager_new tenants =
     (case foldl register_tenant (Map.empty, Map.empty) tenants of (tenant_map, key_index) \<Rightarrow>
        \<lparr> tm_tenants = tenant_map, tm_api_key_index = key_index, tm_quota_state = Map.empty, tm_check_count = 0 \<rparr>)"

definition resolve_tenant :: "TenantManager \<Rightarrow> string \<Rightarrow> Tenant option" where
  "resolve_tenant tm api_key = Option.bind (tm_api_key_index tm api_key) (tm_tenants tm)"

definition force_cleanup :: "TenantManager \<Rightarrow> TenantManager" where
  "force_cleanup tm = tm\<lparr> tm_quota_state := (\<lambda>tid. if tm_tenants tm tid \<noteq> None then tm_quota_state tm tid else None) \<rparr>"

definition maybe_cleanup :: "TenantManager \<Rightarrow> TenantManager" where
  "maybe_cleanup tm =
     (let count' = tm_check_count tm;
          tm = tm\<lparr> tm_check_count := count' + 1 \<rparr>
      in if count' mod CLEANUP_INTERVAL \<noteq> 0 then tm else force_cleanup tm)"

definition check_quota :: "TenantManager \<Rightarrow> string \<Rightarrow> u64 \<Rightarrow> Instant \<Rightarrow> Instant \<Rightarrow> bool \<times> TenantManager" where
  "check_quota tm tenant_id tokens created now =
     (case tm_tenants tm tenant_id of
        None \<Rightarrow> (False, tm)
      | Some tenant \<Rightarrow>
          let quota = tn_quota tenant in
          if tq_tokens_per_minute quota = 0 \<and> tq_tokens_per_day quota = 0 \<and> tq_requests_per_minute quota = 0 then (True, tm)
          else
            let tm = maybe_cleanup tm;
                st = (case tm_quota_state tm tenant_id of None \<Rightarrow> quota_state_new created | Some st \<Rightarrow> st)
            in case quota_consume st quota tokens now of
                 (ok, st) \<Rightarrow> (ok, tm\<lparr> tm_quota_state := (tm_quota_state tm)(tenant_id \<mapsto> st) \<rparr>))"

definition check_model_access :: "TenantManager \<Rightarrow> string \<Rightarrow> string \<Rightarrow> bool" where
  "check_model_access tm tenant_id model =
     (case tm_tenants tm tenant_id of
        None \<Rightarrow> False
      | Some tenant \<Rightarrow> tn_allowed_models tenant = [] \<or> model \<in> set (tn_allowed_models tenant))"

definition check_cost_limit :: "TenantManager \<Rightarrow> string \<Rightarrow> real \<Rightarrow> bool" where
  "check_cost_limit tm tenant_id current_cost =
     (case tm_tenants tm tenant_id of
        None \<Rightarrow> False
      | Some tenant \<Rightarrow> (case tn_cost_limit tenant of Some limit \<Rightarrow> current_cost \<le> limit | None \<Rightarrow> True))"

section \<open>What a sliding window admits\<close>

text \<open>
  A log has what was accepted when, with a weight. Its recent part at a time \<open>p\<close> is what a window of length \<open>W\<close> that
  ends at \<open>p\<close> still has; it is bounded when no window of length \<open>W\<close>, wherever it starts, has more than the limit.
\<close>

type_synonym UsageLog = "(Instant \<times> u64) list"

definition recent :: "Duration \<Rightarrow> Instant \<Rightarrow> UsageLog \<Rightarrow> UsageLog" where
  "recent W p entries = filter (\<lambda>x. p \<le> fst x + W) entries"

definition log_weight :: "UsageLog \<Rightarrow> nat" where
  "log_weight entries = sum_list (map (\<lambda>x. unat (snd x)) entries)"

definition log_bounded :: "Duration \<Rightarrow> nat \<Rightarrow> UsageLog \<Rightarrow> bool" where
  "log_bounded W limit entries \<longleftrightarrow> (\<forall>a. log_weight (filter (\<lambda>x. a \<le> fst x \<and> fst x \<le> a + W) entries) \<le> limit)"

definition log_wf :: "Instant \<Rightarrow> UsageLog \<Rightarrow> bool" where
  "log_wf now entries \<longleftrightarrow> sorted (map fst entries) \<and> list_all (\<lambda>x. fst x \<le> now) entries"

lemma log_weight_simps [simp]:
  "log_weight [] = 0" "log_weight (x # entries) = unat (snd x) + log_weight entries" "log_weight (a @ b) = log_weight a + log_weight b"
  by (simp_all add: log_weight_def)

lemma log_weight_filter_mono:
  "(\<And>x. x \<in> set entries \<Longrightarrow> P x \<Longrightarrow> Q x) \<Longrightarrow> log_weight (filter P entries) \<le> log_weight (filter Q entries)"
  by (induction entries) (auto simp: add_le_mono trans_le_add2)

lemma log_wf_mono: "log_wf now entries \<Longrightarrow> now \<le> now' \<Longrightarrow> log_wf now' entries"
  by (auto simp: log_wf_def list_all_iff)

lemma log_wf_append: "log_wf now entries \<Longrightarrow> log_wf now (entries @ [(now, n)])"
  by (auto simp: log_wf_def list_all_iff sorted_append)

lemma log_bounded_append:
  assumes "log_bounded W limit entries" and "log_weight (recent W now entries) + unat n \<le> limit"
  shows "log_bounded W limit (entries @ [(now, n)])"
  unfolding log_bounded_def
proof
  fix a
  show "log_weight (filter (\<lambda>x. a \<le> fst x \<and> fst x \<le> a + W) (entries @ [(now, n)])) \<le> limit"
  proof (cases "a \<le> now \<and> now \<le> a + W")
    case True
    have "log_weight (filter (\<lambda>x. a \<le> fst x \<and> fst x \<le> a + W) entries) \<le> log_weight (recent W now entries)"
      unfolding recent_def by (rule log_weight_filter_mono) (use True in auto)
    then show ?thesis using True assms(2) by simp
  next
    case False
    then show ?thesis using assms(1) by (auto simp: log_bounded_def)
  qed
qed

lemma recent_append: "recent W now (entries @ [(now, n)]) = recent W now entries @ [(now, n)]"
  by (simp add: recent_def)

lemma recent_recent: "p \<le> now \<Longrightarrow> filter (\<lambda>x. now \<le> fst x + W) (recent W p entries) = recent W now entries"
  by (auto simp: recent_def intro!: filter_cong)

lemma sorted_recent: "sorted (map fst entries) \<Longrightarrow> sorted (map fst (recent W p entries))"
  by (simp add: recent_def sorted_filter)

text \<open>Pruning a sorted log from its front drops what is older than the window, and the running total follows.\<close>

lemma prune_token_window_filter:
  assumes "sorted (map fst tokens)" and "unat token_total = log_weight tokens"
  shows "fst (prune_token_window tokens token_total now window) = filter (\<lambda>x. now \<le> fst x + window) tokens"
    and "unat (snd (prune_token_window tokens token_total now window)) = log_weight (filter (\<lambda>x. now \<le> fst x + window) tokens)"
proof -
  have "fst (prune_token_window tokens token_total now window) = filter (\<lambda>x. now \<le> fst x + window) tokens
    \<and> unat (snd (prune_token_window tokens token_total now window)) = log_weight (filter (\<lambda>x. now \<le> fst x + window) tokens)"
    using assms
  proof (induction tokens arbitrary: token_total)
    case (Cons x tokens)
    obtain t n where x: "x = (t, n)" by (cases x)
    show ?case
    proof (cases "now - t > window")
      case True
      then show ?thesis using Cons x by (simp add: unat_saturating_sub)
    next
      case False
      then have "\<forall>y \<in> set tokens. now \<le> fst y + window" using Cons.prems(1) x by fastforce
      then have "filter (\<lambda>x. now \<le> fst x + window) tokens = tokens" by (simp add: filter_id_conv)
      then show ?thesis using False Cons.prems x by simp
    qed
  qed simp
  then show "fst (prune_token_window tokens token_total now window) = filter (\<lambda>x. now \<le> fst x + window) tokens"
    "unat (snd (prune_token_window tokens token_total now window)) = log_weight (filter (\<lambda>x. now \<le> fst x + window) tokens)" by blast+
qed

lemma prune_requests_filter: "sorted requests \<Longrightarrow> prune_requests requests now window = filter (\<lambda>t. now \<le> t + window) requests"
proof (induction requests)
  case (Cons t requests)
  show ?case
  proof (cases "now - t > window")
    case True
    then show ?thesis using Cons by simp
  next
    case False
    then have "\<forall>y \<in> set requests. now \<le> y + window" using Cons.prems by fastforce
    then show ?thesis using False by (simp add: filter_id_conv)
  qed
qed simp

text \<open>A history of one window: the accepted requests and the recorded tokens are logged.\<close>

datatype UsageEvent = UCheck Instant | URecord u64 Instant

fun usage_time :: "UsageEvent \<Rightarrow> Instant" where
  "usage_time (UCheck now) = now"
| "usage_time (URecord _ now) = now"

fun usage_event :: "SlidingWindow \<times> UsageLog \<times> UsageLog \<Rightarrow> UsageEvent \<Rightarrow> SlidingWindow \<times> UsageLog \<times> UsageLog" where
  "usage_event (sw, reqs, toks) (UCheck now) =
     (case window_check sw now of
        (Allowed _, sw) \<Rightarrow> (sw, reqs @ [(now, 1)], toks)
      | (Limited _, sw) \<Rightarrow> (sw, reqs, toks))"
| "usage_event (sw, reqs, toks) (URecord tokens now) =
     (case record_tokens sw tokens now of
        (Allowed _, sw) \<Rightarrow> (sw, reqs, toks @ [(now, tokens)])
      | (Limited _, sw) \<Rightarrow> (sw, reqs, toks))"

text \<open>A token window agrees with the log; the largest limit is left out, the running total saturates there.\<close>

definition tokens_ok :: "Duration \<Rightarrow> Instant \<Rightarrow> u64 \<Rightarrow> UsageLog \<Rightarrow> UsageLog \<Rightarrow> u64 \<Rightarrow> bool" where
  "tokens_ok W p limit toks tokens token_total \<longleftrightarrow>
     (0 < limit \<and> limit < - 1 \<longrightarrow>
        tokens = recent W p toks \<and> unat token_total = log_weight tokens \<and> log_bounded W (unat limit) toks)"

definition window_inv :: "Instant \<Rightarrow> Instant \<Rightarrow> SlidingWindow \<times> UsageLog \<times> UsageLog \<Rightarrow> bool" where
  "window_inv p now s \<longleftrightarrow>
     (case s of (sw, reqs, toks) \<Rightarrow>
        p \<le> now \<and> log_wf now reqs \<and> log_wf now toks \<and> list_all (\<lambda>x. snd x = 1) reqs
        \<and> sw_requests sw = map fst (recent (from_secs 60) p reqs)
        \<and> (0 < sw_minute_req_limit sw \<longrightarrow> log_bounded (from_secs 60) (unat (sw_minute_req_limit sw)) reqs)
        \<and> tokens_ok (from_secs 60) p (sw_minute_token_limit sw) toks (sw_minute_tokens sw) (sw_minute_token_total sw)
        \<and> tokens_ok (from_secs 3600) p (sw_hour_token_limit sw) toks (sw_hour_tokens sw) (sw_hour_token_total sw))"

definition same_limits :: "SlidingWindow \<Rightarrow> SlidingWindow \<Rightarrow> bool" where
  "same_limits sw sw' \<longleftrightarrow> sw_minute_req_limit sw' = sw_minute_req_limit sw \<and> sw_minute_token_limit sw' = sw_minute_token_limit sw
     \<and> sw_hour_token_limit sw' = sw_hour_token_limit sw"

lemma tokens_ok_prune:
  assumes "tokens_ok W p limit toks tokens token_total" and "log_wf now0 toks" and "p \<le> now"
  shows "tokens_ok W now limit toks (fst (prune_token_window tokens token_total now W)) (snd (prune_token_window tokens token_total now W))"
  unfolding tokens_ok_def
proof
  assume "0 < limit \<and> limit < - 1"
  then have o: "tokens = recent W p toks" "unat token_total = log_weight tokens" "log_bounded W (unat limit) toks"
    using assms(1) by (simp_all add: tokens_ok_def)
  have "sorted (map fst tokens)" unfolding o(1) by (rule sorted_recent) (use assms(2) in \<open>simp add: log_wf_def\<close>)
  note P = prune_token_window_filter [OF this o(2), of now W]
  show "fst (prune_token_window tokens token_total now W) = recent W now toks
    \<and> unat (snd (prune_token_window tokens token_total now W)) = log_weight (fst (prune_token_window tokens token_total now W))
    \<and> log_bounded W (unat limit) toks"
    using P o(1,3) recent_recent [OF assms(3)] by simp
qed

lemma prune_limits [simp]:
  "sw_minute_req_limit (prune sw now) = sw_minute_req_limit sw" "sw_minute_token_limit (prune sw now) = sw_minute_token_limit sw"
  "sw_hour_token_limit (prune sw now) = sw_hour_token_limit sw"
  by (simp_all add: prune_def case_prod_beta Let_def)

lemma window_inv_prune:
  assumes "window_inv p now0 (sw, reqs, toks)" and "now0 \<le> now"
  shows "window_inv now now (prune sw now, reqs, toks)"
proof -
  have p: "p \<le> now" using assms by (auto simp: window_inv_def)
  have wf: "log_wf now0 reqs" "log_wf now0 toks" using assms(1) by (simp_all add: window_inv_def)
  have "sorted (sw_requests sw)" using assms(1) wf(1) sorted_recent [of reqs "from_secs 60" p] by (simp add: window_inv_def log_wf_def)
  then have "prune_requests (sw_requests sw) now (from_secs 60) = map fst (recent (from_secs 60) now reqs)"
    using assms(1) recent_recent [OF p, of "from_secs 60" reqs]
    by (simp add: prune_requests_filter window_inv_def filter_map o_def)
  then show ?thesis
    using assms(1) tokens_ok_prune [OF _ wf(2) p] log_wf_mono [OF wf(1) assms(2)] log_wf_mono [OF wf(2) assms(2)]
    by (simp add: window_inv_def prune_def case_prod_beta Let_def)
qed

lemma request_weight: "list_all (\<lambda>x. snd x = 1) reqs \<Longrightarrow> log_weight reqs = length reqs"
  by (induction reqs) simp_all

lemma list_all_recent: "list_all P reqs \<Longrightarrow> list_all P (recent W p reqs)"
  by (auto simp: recent_def list_all_iff)

lemma window_inv_request:
  assumes inv: "window_inv now now (sw, reqs, toks)"
    and room: "\<not> (sw_minute_req_limit sw > 0 \<and> length (sw_requests sw) \<ge> unat (sw_minute_req_limit sw))"
  shows "window_inv now now (sw\<lparr> sw_requests := sw_requests sw @ [now] \<rparr>, reqs @ [(now, 1)], toks)"
proof -
  have ones: "list_all (\<lambda>x. snd x = 1) reqs" and r: "sw_requests sw = map fst (recent (from_secs 60) now reqs)"
    using inv by (simp_all add: window_inv_def)
  have len: "log_weight (recent (from_secs 60) now reqs) = length (sw_requests sw)"
    using request_weight [OF list_all_recent [OF ones]] r by simp
  have "log_bounded (from_secs 60) (unat (sw_minute_req_limit sw)) (reqs @ [(now, 1)])" if "0 < sw_minute_req_limit sw"
    by (rule log_bounded_append) (use inv room that len in \<open>auto simp: window_inv_def\<close>)
  then show ?thesis using inv r by (simp add: window_inv_def log_wf_append recent_append)
qed

lemma tokens_ok_record:
  assumes ok: "tokens_ok W now limit toks tokens token_total" and room: "\<not> (limit > 0 \<and> saturating_add token_total n > limit)"
  shows "tokens_ok W now limit (toks @ [(now, n)]) (if limit > 0 then tokens @ [(now, n)] else tokens)
    (if limit > 0 then saturating_add token_total n else token_total)"
  unfolding tokens_ok_def
proof
  assume l: "0 < limit \<and> limit < - 1"
  then have o: "tokens = recent W now toks" "unat token_total = log_weight tokens" "log_bounded W (unat limit) toks"
    using ok by (simp_all add: tokens_ok_def)
  have "saturating_add token_total n \<le> limit" using room l by auto
  then have "unat (saturating_add token_total n) \<le> unat limit" "unat limit < 2 ^ 64 - 1"
    using l by (simp_all add: word_le_nat_alt word_less_nat_alt unat_max_word)
  then have s: "unat (saturating_add token_total n) = unat token_total + unat n" "unat token_total + unat n \<le> unat limit"
    by (simp_all add: unat_saturating_add min_def split: if_splits)
  have "log_bounded W (unat limit) (toks @ [(now, n)])" by (rule log_bounded_append [OF o(3)]) (use s o in simp)
  then show "(if limit > 0 then tokens @ [(now, n)] else tokens) = recent W now (toks @ [(now, n)])
    \<and> unat (if limit > 0 then saturating_add token_total n else token_total) = log_weight (if limit > 0 then tokens @ [(now, n)] else tokens)
    \<and> log_bounded W (unat limit) (toks @ [(now, n)])"
    using l o s by (simp add: recent_append)
qed

lemma window_check_cases:
  obtains (room) r where "window_check sw now = (Allowed r, (prune sw now)\<lparr> sw_requests := sw_requests (prune sw now) @ [now] \<rparr>)"
      "\<not> (sw_minute_req_limit (prune sw now) > 0 \<and> length (sw_requests (prune sw now)) \<ge> unat (sw_minute_req_limit (prune sw now)))"
  | (limited) r where "window_check sw now = (Limited r, prune sw now)"
proof -
  let ?sw = "prune sw now"
  consider "sw_minute_token_limit ?sw > 0 \<and> sw_minute_token_total ?sw \<ge> sw_minute_token_limit ?sw"
    | "\<not> (sw_minute_token_limit ?sw > 0 \<and> sw_minute_token_total ?sw \<ge> sw_minute_token_limit ?sw)"
      "sw_hour_token_limit ?sw > 0 \<and> sw_hour_token_total ?sw \<ge> sw_hour_token_limit ?sw"
    | "\<not> (sw_minute_token_limit ?sw > 0 \<and> sw_minute_token_total ?sw \<ge> sw_minute_token_limit ?sw)"
      "\<not> (sw_hour_token_limit ?sw > 0 \<and> sw_hour_token_total ?sw \<ge> sw_hour_token_limit ?sw)"
      "sw_minute_req_limit ?sw > 0 \<and> length (sw_requests ?sw) \<ge> unat (sw_minute_req_limit ?sw)"
    | "\<not> (sw_minute_token_limit ?sw > 0 \<and> sw_minute_token_total ?sw \<ge> sw_minute_token_limit ?sw)"
      "\<not> (sw_hour_token_limit ?sw > 0 \<and> sw_hour_token_total ?sw \<ge> sw_hour_token_limit ?sw)"
      "\<not> (sw_minute_req_limit ?sw > 0 \<and> length (sw_requests ?sw) \<ge> unat (sw_minute_req_limit ?sw))" by blast
  then show ?thesis
  proof cases
    case 1
    show ?thesis by (rule limited) (simp only: window_check_def Let_def if_P [OF 1])
  next
    case 2
    show ?thesis by (rule limited) (simp only: window_check_def Let_def if_not_P [OF 2(1)] if_P [OF 2(2)])
  next
    case 3
    show ?thesis by (rule limited) (simp only: window_check_def Let_def if_not_P [OF 3(1)] if_not_P [OF 3(2)] if_P [OF 3(3)])
  next
    case 4
    show ?thesis by (rule room [OF _ 4(3)]) (simp only: window_check_def Let_def if_not_P [OF 4(1)] if_not_P [OF 4(2)] if_not_P [OF 4(3)])
  qed
qed

definition tokens_recorded :: "SlidingWindow \<Rightarrow> u64 \<Rightarrow> Instant \<Rightarrow> SlidingWindow" where
  "tokens_recorded sw n now =
     (let sw = (if sw_minute_token_limit sw > 0
                then sw\<lparr> sw_minute_tokens := sw_minute_tokens sw @ [(now, n)], sw_minute_token_total := saturating_add (sw_minute_token_total sw) n \<rparr>
                else sw)
      in if sw_hour_token_limit sw > 0
         then sw\<lparr> sw_hour_tokens := sw_hour_tokens sw @ [(now, n)], sw_hour_token_total := saturating_add (sw_hour_token_total sw) n \<rparr>
         else sw)"

lemma record_tokens_cases:
  obtains (room) r where "record_tokens sw n now = (Allowed r, tokens_recorded (prune sw now) n now)"
      "\<not> (sw_hour_token_limit (prune sw now) > 0 \<and> saturating_add (sw_hour_token_total (prune sw now)) n > sw_hour_token_limit (prune sw now))"
      "\<not> (sw_minute_token_limit (prune sw now) > 0 \<and> saturating_add (sw_minute_token_total (prune sw now)) n > sw_minute_token_limit (prune sw now))"
  | (limited) r where "record_tokens sw n now = (Limited r, prune sw now)"
proof -
  let ?sw = "prune sw now"
  let ?h = "sw_hour_token_limit ?sw > 0 \<and> saturating_add (sw_hour_token_total ?sw) n > sw_hour_token_limit ?sw"
  let ?m = "sw_minute_token_limit ?sw > 0 \<and> saturating_add (sw_minute_token_total ?sw) n > sw_minute_token_limit ?sw"
  show ?thesis
  proof (cases "?h \<or> ?m")
    case True
    then have "record_tokens sw n now = (Limited 1, ?sw)" unfolding record_tokens_def Let_def by (simp only: if_True if_cancel split: if_split) blast
    then show ?thesis by (rule limited)
  next
    case False
    then have h: "\<not> ?h" and m: "\<not> ?m" by blast+
    have "\<exists>r. record_tokens sw n now = (Allowed r, tokens_recorded ?sw n now)"
      unfolding record_tokens_def tokens_recorded_def Let_def if_not_P [OF h] if_not_P [OF m] by (auto split: if_splits)
    then show ?thesis using room h m by blast
  qed
qed

lemma window_inv_event:
  assumes inv: "window_inv p now0 (sw, reqs, toks)" and now: "now0 \<le> usage_time e"
  shows "window_inv (usage_time e) (usage_time e) (usage_event (sw, reqs, toks) e) \<and> same_limits sw (fst (usage_event (sw, reqs, toks) e))"
proof (cases e)
  case (UCheck now)
  let ?sw = "prune sw now"
  have p: "window_inv now now (?sw, reqs, toks)" using window_inv_prune [OF inv] assms(2) UCheck by simp
  show ?thesis
  proof (cases rule: window_check_cases [of sw now])
    case (room r)
    then show ?thesis using window_inv_request [OF p room(2)] UCheck by (simp add: same_limits_def)
  next
    case (limited r)
    then show ?thesis using p UCheck by (simp add: same_limits_def)
  qed
next
  case (URecord n now)
  let ?sw = "prune sw now"
  have p: "window_inv now now (?sw, reqs, toks)" using window_inv_prune [OF inv] assms(2) URecord by simp
  show ?thesis
  proof (cases rule: record_tokens_cases [of sw n now])
    case (room r)
    have m: "tokens_ok (from_secs 60) now (sw_minute_token_limit ?sw) toks (sw_minute_tokens ?sw) (sw_minute_token_total ?sw)"
      and h: "tokens_ok (from_secs 3600) now (sw_hour_token_limit ?sw) toks (sw_hour_tokens ?sw) (sw_hour_token_total ?sw)"
      using p by (simp_all add: window_inv_def)
    have "window_inv now now (tokens_recorded ?sw n now, reqs, toks @ [(now, n)])"
      using p tokens_ok_record [OF m room(3)] tokens_ok_record [OF h room(2)]
      by (auto simp: tokens_recorded_def window_inv_def log_wf_append Let_def split: if_splits)
    then show ?thesis using URecord room(1) by (auto simp: same_limits_def tokens_recorded_def Let_def)
  next
    case (limited r)
    then show ?thesis using p URecord by (simp add: same_limits_def)
  qed
qed

lemma window_inv_run:
  "window_inv p now s \<Longrightarrow> sorted (now # map usage_time es) \<Longrightarrow>
   \<exists>p' now'. window_inv p' now' (foldl usage_event s es) \<and> same_limits (fst s) (fst (foldl usage_event s es))"
proof (induction es arbitrary: p now s)
  case Nil
  then show ?case by (auto simp: same_limits_def)
next
  case (Cons e es)
  obtain sw reqs toks where s: "s = (sw, reqs, toks)" by (cases s)
  have step: "window_inv (usage_time e) (usage_time e) (usage_event s e)" "same_limits sw (fst (usage_event s e))"
    using window_inv_event [of p now sw reqs toks e] Cons.prems s by auto
  have "sorted (usage_time e # map usage_time es)" using Cons.prems(2) by simp
  from Cons.IH [OF step(1) this] show ?case using step(2) s by (auto simp: same_limits_def)
qed

text \<open>
  C20. The sliding windows keep their limits. Over any history at non-decreasing times, no interval of a minute,
  wherever it starts, has more accepted requests than the request limit allows, nor more recorded tokens than
  the token limit, and no interval of an hour more than the hourly one. Token limits of the largest
  value are left out: the running total saturates there.
\<close>

theorem sliding_windows_keep_limits:
  assumes "sorted (map usage_time es)" and "foldl usage_event (sliding_window_new config, [], []) es = (sw, reqs, toks)"
    and "w = sliding_window_new config"
  shows "(0 < sw_minute_req_limit w \<longrightarrow>
      length (filter (\<lambda>x. a \<le> fst x \<and> fst x \<le> a + from_secs 60) reqs) \<le> unat (sw_minute_req_limit w))
    \<and> (0 < sw_minute_token_limit w \<and> sw_minute_token_limit w < - 1 \<longrightarrow>
      log_weight (filter (\<lambda>x. a \<le> fst x \<and> fst x \<le> a + from_secs 60) toks) \<le> unat (sw_minute_token_limit w))
    \<and> (0 < sw_hour_token_limit w \<and> sw_hour_token_limit w < - 1 \<longrightarrow>
      log_weight (filter (\<lambda>x. a \<le> fst x \<and> fst x \<le> a + from_secs 3600) toks) \<le> unat (sw_hour_token_limit w))"
proof -
  have "window_inv 0 0 (w, [], [])"
    by (simp add: assms(3) window_inv_def sliding_window_new_def log_wf_def recent_def tokens_ok_def log_bounded_def Let_def)
  then obtain p now where inv: "window_inv p now (sw, reqs, toks)" and lim: "same_limits w sw"
    using window_inv_run [of 0 0 "(w, [], [])" es] assms by auto
  have "list_all (\<lambda>x. snd x = 1) (filter (\<lambda>x. a \<le> fst x \<and> fst x \<le> a + from_secs 60) reqs)"
    using inv by (auto simp: window_inv_def list_all_iff)
  note ones = request_weight [OF this]
  show ?thesis using inv lim unfolding ones [symmetric] by (simp add: window_inv_def tokens_ok_def log_bounded_def same_limits_def)
qed

theorem sliding_windows_keep_limits_witness:
  "sw_minute_req_limit (sliding_window_new (RateLimitConfig_default\<lparr> lc_requests_per_minute := 2 \<rparr>)) = 2
   \<and> (\<exists>sw reqs toks. foldl usage_event (sliding_window_new (RateLimitConfig_default\<lparr> lc_requests_per_minute := 2 \<rparr>), [], []) [UCheck 0, UCheck 5, UCheck 9]
        = (sw, reqs, toks) \<and> length (filter (\<lambda>x. 0 \<le> fst x \<and> fst x \<le> 0 + from_secs 60) reqs) \<le> 2)"
proof -
  let ?config = "RateLimitConfig_default\<lparr> lc_requests_per_minute := 2 \<rparr>" and ?es = "[UCheck 0, UCheck 5, UCheck 9]"
  have lim: "sw_minute_req_limit (sliding_window_new ?config) = 2"
    by (simp add: sliding_window_new_def RateLimitConfig_default_def scaled_limit_def Let_def)
  obtain sw reqs toks where run: "foldl usage_event (sliding_window_new ?config, [], []) ?es = (sw, reqs, toks)" by (metis prod_cases3)
  have s: "sorted (map usage_time ?es)" by simp
  have "length (filter (\<lambda>x. 0 \<le> fst x \<and> fst x \<le> 0 + from_secs 60) reqs) \<le> 2"
    using sliding_windows_keep_limits [OF s run refl, of 0] by (simp add: lim)
  then show ?thesis using lim run by (intro conjI exI)
qed

section \<open>Responses above the limit\<close>

text \<open>A window in which no tokens are recorded, and the same window without token limits.\<close>

definition unused :: "SlidingWindow \<Rightarrow> bool" where
  "unused sw \<longleftrightarrow> sw_minute_tokens sw = [] \<and> sw_minute_token_total sw = 0 \<and> sw_hour_tokens sw = [] \<and> sw_hour_token_total sw = 0"

definition unlimited_tokens :: "SlidingWindow \<Rightarrow> SlidingWindow" where
  "unlimited_tokens sw = sw\<lparr> sw_minute_token_limit := 0, sw_hour_token_limit := 0 \<rparr>"

lemma unused_prune: "unused sw \<Longrightarrow> prune sw now = sw\<lparr> sw_requests := prune_requests (sw_requests sw) now (from_secs 60) \<rparr>"
  by (simp add: unused_def prune_def)

fun is_check :: "UsageEvent \<Rightarrow> bool" where
  "is_check (UCheck _) = True"
| "is_check (URecord _ _) = False"

fun oversized :: "u64 \<Rightarrow> UsageEvent \<Rightarrow> bool" where
  "oversized limit (UCheck _) = True"
| "oversized limit (URecord tokens _) = (tokens > limit)"

lemma unused_event:
  assumes u: "unused sw" and l: "sw_minute_token_limit sw = limit" "0 < limit" and o: "oversized limit e"
  shows "\<exists>sw' reqs' toks'. usage_event (sw, reqs, []) e = (sw', reqs', []) \<and> unused sw' \<and> sw_minute_token_limit sw' = limit
    \<and> usage_event (unlimited_tokens sw, reqs, toks) e = (unlimited_tokens sw', reqs', toks')
    \<and> sw_minute_req_limit sw' = sw_minute_req_limit sw
    \<and> (sw_minute_req_limit sw = 0 \<longrightarrow> reqs' = reqs @ (if is_check e then [(usage_time e, 1)] else []))"
proof (cases e)
  case (UCheck now)
  have "unused (unlimited_tokens sw)" using u by (simp add: unused_def unlimited_tokens_def)
  note p = unused_prune [OF u, of now] unused_prune [OF this, of now]
  show ?thesis using u l UCheck p by (auto simp: window_check_def unlimited_tokens_def unused_def Let_def)
next
  case (URecord n now)
  have "unused (unlimited_tokens sw)" using u by (simp add: unused_def unlimited_tokens_def)
  note p = unused_prune [OF u, of now] unused_prune [OF this, of now]
  have z: "saturating_add 0 n = n" using unat_u64_lt [of n] by (simp add: saturating_add_def)
  show ?thesis using u l o URecord z p by (auto simp: record_tokens_def unlimited_tokens_def unused_def Let_def)
qed

lemma unused_run:
  "unused sw \<Longrightarrow> sw_minute_token_limit sw = limit \<Longrightarrow> 0 < limit \<Longrightarrow> list_all (oversized limit) es \<Longrightarrow>
   \<exists>sw' reqs' toks'. foldl usage_event (sw, reqs, []) es = (sw', reqs', [])
     \<and> foldl usage_event (unlimited_tokens sw, reqs, toks) es = (unlimited_tokens sw', reqs', toks')
     \<and> (sw_minute_req_limit sw = 0 \<longrightarrow> reqs' = reqs @ map (\<lambda>e. (usage_time e, 1)) (filter is_check es))"
proof (induction es arbitrary: sw reqs toks)
  case (Cons e es)
  have o: "oversized limit e" "list_all (oversized limit) es" using Cons.prems(4) by simp_all
  obtain sw1 reqs1 toks1 where s: "usage_event (sw, reqs, []) e = (sw1, reqs1, [])" "unused sw1" "sw_minute_token_limit sw1 = limit"
    "usage_event (unlimited_tokens sw, reqs, toks) e = (unlimited_tokens sw1, reqs1, toks1)"
    "sw_minute_req_limit sw1 = sw_minute_req_limit sw"
    "sw_minute_req_limit sw = 0 \<longrightarrow> reqs1 = reqs @ (if is_check e then [(usage_time e, 1)] else [])"
    using unused_event [OF Cons.prems(1-3) o(1), of reqs toks] by (elim exE conjE)
  from Cons.IH [OF s(2,3) Cons.prems(3) o(2), of reqs1 toks1] show ?case using s by auto
qed auto

text \<open>
  C36. Usage above the limit of a minute is not counted at all. Of a client whose responses each use more tokens than that limit
  nothing is ever recorded, and exactly the requests are accepted that the window would accept without any token limits;
  without a limit of requests, that is every one.
\<close>

theorem oversized_usage_never_limits:
  assumes "0 < sw_minute_token_limit (sliding_window_new config)"
    and "list_all (oversized (sw_minute_token_limit (sliding_window_new config))) es"
    and "foldl usage_event (sliding_window_new config, [], []) es = (sw, reqs, toks)"
  shows "toks = []
    \<and> reqs = fst (snd (foldl usage_event
        (sliding_window_new (config\<lparr> lc_tokens_per_minute := 0, lc_tokens_per_hour := 0 \<rparr>), [], []) es))
    \<and> (sw_minute_req_limit (sliding_window_new config) = 0 \<longrightarrow> reqs = map (\<lambda>e. (usage_time e, 1)) (filter is_check es))"
proof -
  have n: "sliding_window_new (config\<lparr> lc_tokens_per_minute := 0, lc_tokens_per_hour := 0 \<rparr>) = unlimited_tokens (sliding_window_new config)"
    by (simp add: sliding_window_new_def unlimited_tokens_def scaled_limit_def Let_def)
  have "unused (sliding_window_new config)" by (simp add: unused_def sliding_window_new_def Let_def)
  from unused_run [OF this refl assms(1,2), of "[]" "[]"] show ?thesis unfolding n using assms(3) by auto
qed

theorem oversized_usage_never_limits_witness:
  "\<exists>sw reqs toks. foldl usage_event (sliding_window_new (RateLimitConfig_default\<lparr> lc_tokens_per_minute := 100 \<rparr>), [], [])
     [UCheck 0, URecord 500 1, UCheck 2, URecord 500 3, UCheck 4] = (sw, reqs, toks) \<and> reqs = [(0, 1), (2, 1), (4, 1)] \<and> toks = []"
proof -
  let ?config = "RateLimitConfig_default\<lparr> lc_tokens_per_minute := 100 \<rparr>" and ?es = "[UCheck 0, URecord 500 1, UCheck 2, URecord 500 3, UCheck 4]"
  have l: "sw_minute_token_limit (sliding_window_new ?config) = 100" "sw_minute_req_limit (sliding_window_new ?config) = 0"
    by (simp_all add: sliding_window_new_def RateLimitConfig_default_def scaled_limit_def Let_def)
  obtain sw reqs toks where run: "foldl usage_event (sliding_window_new ?config, [], []) ?es = (sw, reqs, toks)" by (metis prod_cases3)
  have "0 < sw_minute_token_limit (sliding_window_new ?config)" "list_all (oversized (sw_minute_token_limit (sliding_window_new ?config))) ?es"
    by (simp_all add: l)
  note used = oversized_usage_never_limits [OF this run]
  have "toks = []" by (rule conjunct1 [OF used])
  moreover have "reqs = [(0, 1), (2, 1), (4, 1)]" using conjunct2 [OF conjunct2 [OF used]] l(2) by simp
  ultimately show ?thesis using run by (intro exI conjI)
qed

section \<open>Quotas of tenants\<close>

text \<open>The counters of a tenant stay within its quota.\<close>

definition quota_ok :: "TenantQuota \<Rightarrow> TenantQuotaState \<Rightarrow> bool" where
  "quota_ok quota st \<longleftrightarrow>
     (0 < tq_tokens_per_minute quota \<longrightarrow> ts_minute_tokens st \<le> tq_tokens_per_minute quota)
     \<and> (0 < tq_tokens_per_day quota \<longrightarrow> ts_day_tokens st \<le> tq_tokens_per_day quota)
     \<and> (0 < tq_requests_per_minute quota \<longrightarrow> ts_minute_requests st \<le> tq_requests_per_minute quota)"

lemma quota_ok_new: "quota_ok quota (quota_state_new now)"
  by (simp add: quota_ok_def quota_state_new_def)

definition quota_reset :: "TenantQuotaState \<Rightarrow> Instant \<Rightarrow> TenantQuotaState" where
  "quota_reset st now =
     (let st = (if now \<ge> ts_minute_reset st
                then st\<lparr> ts_minute_tokens := 0, ts_minute_requests := 0, ts_minute_reset := now + from_secs 60 \<rparr> else st)
      in if now \<ge> ts_day_reset st then st\<lparr> ts_day_tokens := 0, ts_day_reset := now + from_secs 86400 \<rparr> else st)"

lemma quota_ok_reset: "quota_ok quota st \<Longrightarrow> quota_ok quota (quota_reset st now)"
  by (simp add: quota_ok_def quota_reset_def Let_def)

lemma quota_ok_consume:
  assumes "quota_ok quota st"
  shows "quota_ok quota (snd (quota_consume st quota tokens now))"
proof -
  obtain r where r: "r = quota_reset st now" by simp
  have ok: "quota_ok quota r" unfolding r by (rule quota_ok_reset [OF assms])
  have "snd (quota_consume st quota tokens now) = r
    \<or> (snd (quota_consume st quota tokens now) = r\<lparr> ts_minute_tokens := saturating_add (ts_minute_tokens r) tokens,
          ts_day_tokens := saturating_add (ts_day_tokens r) tokens, ts_minute_requests := saturating_add (ts_minute_requests r) 1 \<rparr>
       \<and> \<not> (tq_tokens_per_minute quota > 0 \<and> saturating_add (ts_minute_tokens r) tokens > tq_tokens_per_minute quota)
       \<and> \<not> (tq_tokens_per_day quota > 0 \<and> saturating_add (ts_day_tokens r) tokens > tq_tokens_per_day quota)
       \<and> \<not> (tq_requests_per_minute quota > 0 \<and> saturating_add (ts_minute_requests r) 1 > tq_requests_per_minute quota))"
    unfolding quota_consume_def quota_reset_def [symmetric, unfolded Let_def] Let_def r by simp
  then show ?thesis using ok by (auto simp: quota_ok_def not_less)
qed

definition manager_ok :: "TenantManager \<Rightarrow> bool" where
  "manager_ok tm \<longleftrightarrow> (\<forall>tid st tenant. tm_quota_state tm tid = Some st \<longrightarrow> tm_tenants tm tid = Some tenant \<longrightarrow> quota_ok (tn_quota tenant) st)"

lemma manager_ok_cleanup: "manager_ok tm \<Longrightarrow> manager_ok (maybe_cleanup tm) \<and> tm_tenants (maybe_cleanup tm) = tm_tenants tm"
  by (auto simp: manager_ok_def maybe_cleanup_def force_cleanup_def Let_def split: if_splits)

lemma manager_ok_check_quota:
  assumes "manager_ok tm"
  shows "manager_ok (snd (check_quota tm tenant_id tokens created now))"
proof (cases "tm_tenants tm tenant_id")
  case None
  then show ?thesis using assms by (simp add: check_quota_def)
next
  case (Some tenant)
  let ?tm = "maybe_cleanup tm"
  let ?st = "case tm_quota_state ?tm tenant_id of None \<Rightarrow> quota_state_new created | Some st \<Rightarrow> st"
  have c: "manager_ok ?tm" "tm_tenants ?tm = tm_tenants tm" using manager_ok_cleanup [OF assms] by auto
  have "quota_ok (tn_quota tenant) ?st" using c Some by (auto simp: manager_ok_def quota_ok_new split: option.splits)
  from quota_ok_consume [OF this, of tokens now]
  have "manager_ok (?tm\<lparr> tm_quota_state := (tm_quota_state ?tm)(tenant_id \<mapsto> snd (quota_consume ?st (tn_quota tenant) tokens now)) \<rparr>)"
    using c Some by (auto simp: manager_ok_def)
  then show ?thesis using assms Some by (simp add: check_quota_def Let_def case_prod_beta)
qed

text \<open>An API key belongs to the tenant it resolves to, as long as tenants have different names.\<close>

lemma foldl_index: "foldl (\<lambda>index key. index(key \<mapsto> tid)) m keys key = (if key \<in> set keys then Some tid else m key)"
  by (induction keys arbitrary: m) auto

lemma register_tenants:
  assumes "foldl register_tenant (Map.empty, Map.empty) tenants = (tenant_map, key_index)" and "distinct (map tn_tenant_id tenants)"
  shows "(key_index key = Some tid \<longrightarrow> (\<exists>t \<in> set tenants. tn_tenant_id t = tid \<and> key \<in> set (tn_api_keys t)))
    \<and> (tenant_map tid = Some t \<longleftrightarrow> t \<in> set tenants \<and> tn_tenant_id t = tid)"
  using assms
proof (induction tenants arbitrary: tenant_map key_index key tid t rule: rev_induct)
  case Nil
  then show ?case by auto
next
  case (snoc x tenants)
  obtain m k where mk: "foldl register_tenant (Map.empty, Map.empty) tenants = (m, k)" by (cases "foldl register_tenant (Map.empty, Map.empty) tenants")
  have maps: "tenant_map = m(tn_tenant_id x \<mapsto> x)" "key_index = foldl (\<lambda>index key. index(key \<mapsto> tn_tenant_id x)) k (tn_api_keys x)"
  proof -
    have "register_tenant (m, k) x = (tenant_map, key_index)" using snoc.prems(1) mk by simp
    then show "tenant_map = m(tn_tenant_id x \<mapsto> x)" "key_index = foldl (\<lambda>index key. index(key \<mapsto> tn_tenant_id x)) k (tn_api_keys x)"
      by (simp_all add: register_tenant_def)
  qed
  have d: "distinct (map tn_tenant_id tenants)" "tn_tenant_id x \<notin> tn_tenant_id ` set tenants" using snoc.prems(2) by auto
  note IH = snoc.IH [OF mk d(1)]
  show ?case using IH [of key tid t] d(2) unfolding maps foldl_index by (auto simp: image_iff)
qed

lemma resolve_tenant_owner:
  assumes "distinct (map tn_tenant_id tenants)" and "resolve_tenant (tenant_manager_new tenants) api_key = Some t"
  shows "t \<in> set tenants \<and> api_key \<in> set (tn_api_keys t)"
proof -
  obtain m k where mk: "foldl register_tenant (Map.empty, Map.empty) tenants = (m, k)" by (cases "foldl register_tenant (Map.empty, Map.empty) tenants")
  obtain tid where tid: "k api_key = Some tid" "m tid = Some t"
    using assms(2) mk by (auto simp: resolve_tenant_def tenant_manager_new_def bind_eq_Some_conv)
  then obtain t' where "t' \<in> set tenants" "tn_tenant_id t' = tid" "api_key \<in> set (tn_api_keys t')"
    using register_tenants [OF mk assms(1), of api_key tid] by blast
  moreover have "t \<in> set tenants" "tn_tenant_id t = tid" using register_tenants [OF mk assms(1), of api_key tid t] tid(2) by blast+
  ultimately show ?thesis using assms(1) by (metis distinct_map inj_onD)
qed

end
