(* ===== verification/Session_Token.thy ===== *)
theory Session_Token
  imports Url_Rewrite Counters
begin

text \<open>
  Session persistence, \<open>ntgw-http/src/session.rs\<close>: signed tokens that name the backend of a client, in a cookie or a
  header. The JSON, base64 and HMAC packages are a parameter, \<open>TokenLib\<close>, with the documented laws \<open>token_laws\<close>; the
  secret is what its source yields at the moment, \<open>None\<close> when its file cannot be read; times are seconds since
  the epoch. The lemmas show that a token the gateway wrote leads back to its backend until it expires, and that
  renewing a session never moves its absolute expiry.
\<close>

section \<open>Tokens\<close>

type_synonym octets = "8 word list"

record SessionToken =
  tk_v :: "8 word"
  tk_sn :: string
  tk_st :: string
  tk_bn :: string
  tk_a :: string
  tk_p :: u32
  tk_ax :: "u64 option"
  tk_ix :: "u64 option"

record ResolvedSession =
  rv_target :: PersistentSessionTarget
  rv_absolute_expires_at :: "u64 option"

record TokenLib =
  to_json :: "SessionToken \<Rightarrow> octets"
  from_json :: "octets \<Rightarrow> SessionToken option"
  base64_encode :: "octets \<Rightarrow> string"
  base64_decode :: "string \<Rightarrow> octets option"
  hmac :: "octets \<Rightarrow> octets \<Rightarrow> octets"

text \<open>The alphabet of \<open>URL_SAFE_NO_PAD\<close>.\<close>

definition token_char :: "char \<Rightarrow> bool" where
  "token_char c \<longleftrightarrow> is_ascii_uppercase c \<or> is_ascii_lowercase c \<or> is_ascii_digit c \<or> c = CHR ''-'' \<or> c = CHR ''_''"

definition token_laws :: "TokenLib \<Rightarrow> bool" where
  "token_laws lib \<longleftrightarrow>
     (\<forall>token. from_json lib (to_json lib token) = Some token)
     \<and> (\<forall>bytes. base64_decode lib (base64_encode lib bytes) = Some bytes)
     \<and> (\<forall>bytes. list_all token_char (base64_encode lib bytes))"

datatype SessionError =
    MalformedToken | BadEncoding | NoSecret | SignatureMismatch | BadPayload
  | UnsupportedVersion | NameMismatch | TransportMismatch | AbsoluteTimeoutExceeded | IdleTimeoutExceeded

definition is_cookie :: "SessionPersistence \<Rightarrow> bool" where
  "is_cookie policy \<longleftrightarrow> sp_session_type policy \<noteq> ''Header''"

definition cookie_lifetime_type :: "SessionPersistence \<Rightarrow> string" where
  "cookie_lifetime_type policy =
     (case sp_cookie policy of
        None \<Rightarrow> ''Session''
      | Some cookie \<Rightarrow> if ck_lifetime_type cookie = [] then ''Session'' else ck_lifetime_type cookie)"

definition as_secs :: "Duration \<Rightarrow> u64" where
  "as_secs d = of_nat (d div 1000000000)"

definition session_transport :: "SessionPersistence \<Rightarrow> string" where
  "session_transport policy = (if is_cookie policy then ''Cookie'' else ''Header'')"

definition build_token_payload :: "SessionPersistence \<Rightarrow> SelectedBackend \<Rightarrow> ResolvedSession option \<Rightarrow> u64 \<Rightarrow> SessionToken" where
  "build_token_payload policy selected previous now =
     (let absolute_expires_at = map_option (\<lambda>timeout.
            (case Option.bind previous rv_absolute_expires_at of
               Some expiry \<Rightarrow> expiry
             | None \<Rightarrow> saturating_add now (as_secs timeout))) (sp_absolute_timeout policy);
          idle_expires_at = map_option (\<lambda>timeout. saturating_add now (as_secs timeout)) (sp_idle_timeout policy)
      in \<lparr> tk_v = 1, tk_sn = sp_session_name policy, tk_st = session_transport policy,
           tk_bn = sb_backend_name selected, tk_a = ep_address (sb_backend selected), tk_p = ep_port (sb_backend selected),
           tk_ax = absolute_expires_at, tk_ix = idle_expires_at \<rparr>)"

definition sign :: "TokenLib \<Rightarrow> octets option \<Rightarrow> octets \<Rightarrow> octets option" where
  "sign lib secret body = map_option (\<lambda>s. hmac lib s body) secret"

definition verify :: "TokenLib \<Rightarrow> octets option \<Rightarrow> octets \<Rightarrow> octets \<Rightarrow> SessionError + unit" where
  "verify lib secret body signature =
     (case secret of
        None \<Rightarrow> Inl NoSecret
      | Some s \<Rightarrow> if hmac lib s body = signature then Inr () else Inl SignatureMismatch)"

definition encode_payload :: "TokenLib \<Rightarrow> octets option \<Rightarrow> SessionToken \<Rightarrow> string option" where
  "encode_payload lib secret payload =
     (let body = to_json lib payload
      in map_option (\<lambda>signature. base64_encode lib body @ ''.'' @ base64_encode lib signature) (sign lib secret body))"

definition expired :: "u64 option \<Rightarrow> u64 \<Rightarrow> bool" where
  "expired expiry now = (case expiry of None \<Rightarrow> False | Some e \<Rightarrow> now > e)"

definition decode_token :: "TokenLib \<Rightarrow> octets option \<Rightarrow> SessionPersistence \<Rightarrow> string \<Rightarrow> u64 \<Rightarrow> SessionError + ResolvedSession" where
  "decode_token lib secret policy raw now =
     (case split_once CHR ''.'' raw of
        None \<Rightarrow> Inl MalformedToken
      | Some (encoded_body, encoded_signature) \<Rightarrow>
          (case base64_decode lib encoded_body of None \<Rightarrow> Inl BadEncoding | Some body \<Rightarrow>
           (case base64_decode lib encoded_signature of None \<Rightarrow> Inl BadEncoding | Some signature \<Rightarrow>
            (case verify lib secret body signature of Inl e \<Rightarrow> Inl e | Inr _ \<Rightarrow>
             (case from_json lib body of None \<Rightarrow> Inl BadPayload | Some payload \<Rightarrow>
                if tk_v payload \<noteq> 1 then Inl UnsupportedVersion
                else if tk_sn payload \<noteq> sp_session_name policy then Inl NameMismatch
                else if tk_st payload \<noteq> session_transport policy then Inl TransportMismatch
                else if expired (tk_ax payload) now then Inl AbsoluteTimeoutExceeded
                else if expired (tk_ix payload) now then Inl IdleTimeoutExceeded
                else Inr \<lparr> rv_target = \<lparr> pt_backend_name = tk_bn payload,
                              pt_endpoint = \<lparr> ep_address = tk_a payload, ep_port = tk_p payload, ep_healthy = True \<rparr> \<rparr>,
                            rv_absolute_expires_at = tk_ax payload \<rparr>)))))"

section \<open>Requests\<close>

definition request_header_value_headers :: "string list btree \<Rightarrow> string \<Rightarrow> string option" where
  "request_header_value_headers headers name =
     (case map_of headers (to_ascii_lowercase name) of Some (v # _) \<Rightarrow> Some v | _ \<Rightarrow> None)"

text \<open>The cookie of a name in one \<open>Cookie\<close> header.\<close>

fun find_cookie :: "string \<Rightarrow> string list \<Rightarrow> string option" where
  "find_cookie name [] = None"
| "find_cookie name (item # items) =
     (case split_once CHR ''='' (trim item) of
        Some (cookie_name, cookie_value) \<Rightarrow> if cookie_name = name then Some cookie_value else find_cookie name items
      | None \<Rightarrow> find_cookie name items)"

fun find_cookies :: "string \<Rightarrow> string list \<Rightarrow> string option" where
  "find_cookies name [] = None"
| "find_cookies name (cookie # cookies) =
     (case find_cookie name (split_char CHR '';'' cookie) of Some v \<Rightarrow> Some v | None \<Rightarrow> find_cookies name cookies)"

definition request_cookie_headers :: "string list btree \<Rightarrow> string \<Rightarrow> string option" where
  "request_cookie_headers headers name = Option.bind (map_of headers ''cookie'') (find_cookies name)"

text \<open>On the header map of the framework: a list of names and values, a value is \<open>None\<close> when it is not text.\<close>

definition request_header_value :: "(string \<times> string option) list \<Rightarrow> string \<Rightarrow> string option" where
  "request_header_value headers name =
     (case find (\<lambda>h. eq_ignore_ascii_case (fst h) name) headers of Some (_, Some v) \<Rightarrow> Some v | _ \<Rightarrow> None)"

fun request_cookie :: "(string \<times> string option) list \<Rightarrow> string \<Rightarrow> string option" where
  "request_cookie [] name = None"
| "request_cookie ((header_name, value) # headers) name =
     (if \<not> eq_ignore_ascii_case header_name ''cookie'' then request_cookie headers name
      else case value of
        None \<Rightarrow> None
      | Some cookie \<Rightarrow>
          (case find_cookie name (split_char CHR '';'' cookie) of Some v \<Rightarrow> Some v | None \<Rightarrow> request_cookie headers name))"

definition result_ok :: "'e + 'a \<Rightarrow> 'a option" where
  "result_ok r = (case r of Inl _ \<Rightarrow> None | Inr x \<Rightarrow> Some x)"

definition resolve_request_session ::
    "TokenLib \<Rightarrow> octets option \<Rightarrow> (string \<times> string option) list \<Rightarrow> SessionPersistence \<Rightarrow> u64 \<Rightarrow> ResolvedSession option" where
  "resolve_request_session lib secret request policy now =
     Option.bind (if is_cookie policy then request_cookie request (sp_session_name policy)
                  else request_header_value request (sp_session_name policy))
       (\<lambda>raw. result_ok (decode_token lib secret policy raw now))"

definition resolve_request_session_headers ::
    "TokenLib \<Rightarrow> octets option \<Rightarrow> string list btree \<Rightarrow> SessionPersistence \<Rightarrow> u64 \<Rightarrow> ResolvedSession option" where
  "resolve_request_session_headers lib secret headers policy now =
     Option.bind (if is_cookie policy then request_cookie_headers headers (sp_session_name policy)
                  else request_header_value_headers headers (sp_session_name policy))
       (\<lambda>raw. result_ok (decode_token lib secret policy raw now))"

section \<open>Responses\<close>

definition max_age :: "u64 option \<Rightarrow> u64 \<Rightarrow> u64 option" where
  "max_age absolute_expires_at now = map_option (\<lambda>expiry. max (saturating_sub expiry now) 1) absolute_expires_at"

definition normalize_cookie_path :: "string \<Rightarrow> string" where
  "normalize_cookie_path path =
     (if path = [] \<or> path = ''/'' then ''/''
      else let trimmed = trim_end_matches CHR ''/'' path
           in if trimmed = [] then ''/'' else if starts_with trimmed ''/'' then trimmed else ''/'' @ trimmed)"

text \<open>The loop over a pattern: whether the character is escaped, its index, and the last slash seen.\<close>

fun last_literal_slash :: "string \<Rightarrow> nat \<Rightarrow> bool \<Rightarrow> nat \<Rightarrow> nat" where
  "last_literal_slash [] i escaped last_slash = last_slash"
| "last_literal_slash (c # cs) i escaped last_slash =
     (if escaped then last_literal_slash cs (Suc i) False last_slash
      else if c = CHR 0x5C then last_literal_slash cs (Suc i) True last_slash
      else if c \<in> set ''.*+?([{|^$'' then last_slash
      else if c = CHR ''/'' \<and> i > 0 then last_literal_slash cs (Suc i) False i
      else last_literal_slash cs (Suc i) False last_slash)"

definition longest_literal_cookie_path :: "string \<Rightarrow> string" where
  "longest_literal_cookie_path pattern =
     (if pattern = [] then ''/''
      else let last_slash = last_literal_slash pattern 0 False 0
           in if last_slash = 0 then ''/'' else normalize_cookie_path (take last_slash pattern))"

definition cookie_path :: "SelectedBackend \<Rightarrow> string" where
  "cookie_path selected =
     (case sb_matched_http_path selected of
        None \<Rightarrow> ''/''
      | Some matched_path \<Rightarrow>
          if mp_path_type matched_path = ''RegularExpression'' then longest_literal_cookie_path (mp_path matched_path)
          else normalize_cookie_path (mp_path matched_path))"

definition build_set_cookie :: "SessionPersistence \<Rightarrow> SelectedBackend \<Rightarrow> string \<Rightarrow> u64 option \<Rightarrow> u64 \<Rightarrow> string" where
  "build_set_cookie policy selected token absolute_expires_at now =
     sp_session_name policy @ ''='' @ token @ ''; Path='' @ cookie_path selected @ ''; HttpOnly'' @
     (if cookie_lifetime_type policy = ''Permanent''
      then case max_age absolute_expires_at now of None \<Rightarrow> [] | Some age \<Rightarrow> ''; Max-Age='' @ show_nat (unat age)
      else [])"

definition write_response_session ::
    "TokenLib \<Rightarrow> 'h HeaderLib \<Rightarrow> octets option \<Rightarrow> 'h \<Rightarrow> SessionPersistence \<Rightarrow> SelectedBackend \<Rightarrow> ResolvedSession option \<Rightarrow> u64 \<Rightarrow> 'h option" where
  "write_response_session lib hl secret response policy selected previous now =
     (let payload = build_token_payload policy selected previous now in
      case encode_payload lib secret payload of
        None \<Rightarrow> None
      | Some token \<Rightarrow>
          if is_cookie policy then hl_append hl response ''set-cookie'' (build_set_cookie policy selected token (tk_ax payload) now)
          else hl_insert hl response (sp_session_name policy) token)"

section \<open>An instance of the packages\<close>

text \<open>
  Bytes are written as two hexadecimal digits, which are of the alphabet; a token is written as its fields in order, each
  as text that ends in a zero byte, the bytes of the text marked.
\<close>

fun unhex :: "string \<Rightarrow> octets option" where
  "unhex [] = Some []"
| "unhex [a] = None"
| "unhex (a # b # s) = map_option (\<lambda>bytes. of_nat (hex_value 0 [a, b]) # bytes) (unhex s)"

definition hex_bytes :: "octets \<Rightarrow> string" where
  "hex_bytes bytes = concat (map (\<lambda>b. show_hex 2 (unat b)) bytes)"

definition put_text :: "string \<Rightarrow> octets" where
  "put_text s = concat (map (\<lambda>c. [1, of_nat (of_char c)]) s) @ [0]"

fun get_texts :: "octets \<Rightarrow> string \<Rightarrow> string list" where
  "get_texts [] s = []"
| "get_texts (m # bytes) s =
     (if m = 0 then rev s # get_texts bytes []
      else case bytes of [] \<Rightarrow> [] | c # bytes \<Rightarrow> get_texts bytes (char_of (unat c) # s))"

definition put_option :: "u64 option \<Rightarrow> string" where
  "put_option w = (case w of None \<Rightarrow> [] | Some w \<Rightarrow> show_nat (unat w))"

definition get_option :: "string \<Rightarrow> u64 option" where
  "get_option s = (if s = [] then None else Some (of_nat (decimal_value 0 s)))"

definition SampleToken :: TokenLib where
  "SampleToken = \<lparr>
     to_json = (\<lambda>t. concat (map put_text
       [show_nat (unat (tk_v t)), tk_sn t, tk_st t, tk_bn t, tk_a t, show_nat (unat (tk_p t)), put_option (tk_ax t), put_option (tk_ix t)])),
     from_json = (\<lambda>bytes. case get_texts bytes [] of
        [v, sn, st, bn, a, p, ax, ix] \<Rightarrow>
          Some \<lparr> tk_v = of_nat (decimal_value 0 v), tk_sn = sn, tk_st = st, tk_bn = bn, tk_a = a,
                 tk_p = of_nat (decimal_value 0 p), tk_ax = get_option ax, tk_ix = get_option ix \<rparr>
      | _ \<Rightarrow> None),
     base64_encode = hex_bytes,
     base64_decode = unhex,
     hmac = (\<lambda>key body. [foldl (\<lambda>h b. h * 31 + b) 7 (key @ body)]) \<rparr>"

lemma unhex_bytes: "unhex (hex_bytes bytes) = Some bytes"
proof (induction bytes)
  case (Cons b bytes)
  obtain c d where cd: "show_hex 2 (unat b) = [c, d]" by (simp add: numeral_2_eq_2)
  have "hex_value 0 [c, d] = unat b" using hex_value_show [of 2 "unat b"] unsigned_less [where w = b and ?'a = nat] by (simp only: cd) simp
  then have "of_nat (hex_value 0 [c, d]) = b" by simp
  then show ?case using Cons by (simp only: hex_bytes_def list.map concat.simps cd append.simps unhex.simps option.map)
qed (simp add: hex_bytes_def)

lemma hex_token_char: "is_ascii_hexdigit c \<Longrightarrow> token_char c"
  by (auto simp: is_ascii_hexdigit_def token_char_def is_ascii_digit_def is_ascii_uppercase_def is_ascii_lowercase_def Let_def)

lemma hex_bytes_chars: "list_all token_char (hex_bytes bytes)"
proof (induction bytes)
  case (Cons b bytes)
  have "list_all token_char (show_hex 2 (unat b))"
    using show_hex_props(2) [of 2 "unat b"] by (rule list.pred_mono_strong) (rule hex_token_char)
  with Cons show ?case by (simp add: hex_bytes_def)
qed (simp add: hex_bytes_def)

lemma char_octet: "char_of (unat (of_nat (of_char c) :: 8 word)) = c"
  by (simp add: unat_of_nat)

lemma get_put_text: "get_texts (put_text s @ bytes) acc = (rev acc @ s) # get_texts bytes []"
proof (induction s arbitrary: acc)
  case (Cons c s)
  have "get_texts (put_text (c # s) @ bytes) acc = get_texts (put_text s @ bytes) (c # acc)"
    by (simp add: put_text_def char_octet)
  also have "\<dots> = (rev (c # acc) @ s) # get_texts bytes []" by (rule Cons.IH)
  finally show ?case by simp
qed (simp add: put_text_def)

lemma get_put_texts: "get_texts (concat (map put_text ss)) [] = ss"
  by (induction ss) (simp_all add: get_put_text)

lemma get_put_option [simp]: "get_option (put_option w) = w"
  by (cases w) (simp_all add: get_option_def put_option_def decimal_value_show_nat)

lemma SampleToken_laws: "token_laws SampleToken"
proof -
  have "from_json SampleToken (to_json SampleToken t) = Some t" for t
    by (simp only: SampleToken_def TokenLib.simps get_put_texts list.case) (simp add: decimal_value_show_nat)
  then show ?thesis
    by (simp add: token_laws_def) (simp add: SampleToken_def unhex_bytes hex_bytes_chars)
qed

section \<open>A written token is read back\<close>

lemma token_lawsD:
  assumes "token_laws lib"
  shows "from_json lib (to_json lib token) = Some token"
    and "base64_decode lib (base64_encode lib bytes) = Some bytes"
    and "c \<in> set (base64_encode lib bytes) \<Longrightarrow> token_char c"
  using assms by (simp_all add: token_laws_def list_all_iff)

lemma encode_payload_Some:
  "encode_payload lib secret payload = Some token \<longleftrightarrow>
   (\<exists>s. secret = Some s \<and>
     token = base64_encode lib (to_json lib payload) @ CHR ''.'' # base64_encode lib (hmac lib s (to_json lib payload)))"
  by (cases secret) (auto simp: encode_payload_def sign_def Let_def)

text \<open>Whatever the secret of the reader is, the payload that is checked is the one that was written.\<close>

lemma decode_encoded:
  assumes laws: "token_laws lib" and token: "encode_payload lib (Some s) payload = Some token"
  shows "decode_token lib secret policy token now =
    (case verify lib secret (to_json lib payload) (hmac lib s (to_json lib payload)) of Inl e \<Rightarrow> Inl e | Inr _ \<Rightarrow>
       if tk_v payload \<noteq> 1 then Inl UnsupportedVersion
       else if tk_sn payload \<noteq> sp_session_name policy then Inl NameMismatch
       else if tk_st payload \<noteq> session_transport policy then Inl TransportMismatch
       else if expired (tk_ax payload) now then Inl AbsoluteTimeoutExceeded
       else if expired (tk_ix payload) now then Inl IdleTimeoutExceeded
       else Inr \<lparr> rv_target = \<lparr> pt_backend_name = tk_bn payload,
                     pt_endpoint = \<lparr> ep_address = tk_a payload, ep_port = tk_p payload, ep_healthy = True \<rparr> \<rparr>,
                   rv_absolute_expires_at = tk_ax payload \<rparr>)"
proof -
  have dot: "CHR ''.'' \<notin> set (base64_encode lib (to_json lib payload))"
    using token_lawsD(3) [OF laws, of "CHR ''.''"]
    by (auto simp: token_char_def is_ascii_digit_def is_ascii_uppercase_def is_ascii_lowercase_def)
  show ?thesis
    using token
    by (cases "verify lib secret (to_json lib payload) (hmac lib s (to_json lib payload))")
      (simp_all add: decode_token_def encode_payload_Some split_once_append [OF dot] token_lawsD(1,2) [OF laws])
qed

lemmas payload_simps = build_token_payload_def Let_def

lemma find_cookie_append:
  "find_cookie name before = None \<Longrightarrow> find_cookie name (before @ items) = find_cookie name items"
  by (induction before) (auto split: option.splits if_splits)

lemma find_cookie_hit:
  "trim item = name @ CHR ''='' # token \<Longrightarrow> CHR ''='' \<notin> set name \<Longrightarrow> find_cookie name (item # items) = Some token"
  by (simp add: split_once_append)

text \<open>A request returns a token: in its first cookie header, before any other cookie of the name, or as its header.\<close>

definition carries :: "string list btree \<Rightarrow> SessionPersistence \<Rightarrow> string \<Rightarrow> bool" where
  "carries headers policy token \<longleftrightarrow>
     (if is_cookie policy
      then (\<exists>cookie cookies before item after.
         map_of headers ''cookie'' = Some (cookie # cookies) \<and> split_char CHR '';'' cookie = before @ item # after
         \<and> find_cookie (sp_session_name policy) before = None \<and> trim item = sp_session_name policy @ CHR ''='' # token)
      else (\<exists>vs. map_of headers (to_ascii_lowercase (sp_session_name policy)) = Some (token # vs)))"

lemma carries_cookie:
  assumes "carries headers policy token" "is_cookie policy" "CHR ''='' \<notin> set (sp_session_name policy)"
  shows "request_cookie_headers headers (sp_session_name policy) = Some token"
proof -
  obtain cookie cookies before item after where
    c: "map_of headers ''cookie'' = Some (cookie # cookies)" "split_char CHR '';'' cookie = before @ item # after"
      "find_cookie (sp_session_name policy) before = None" "trim item = sp_session_name policy @ CHR ''='' # token"
    using assms(1,2) unfolding carries_def by (simp only: if_True) (elim exE conjE)
  show ?thesis
    by (simp only: request_cookie_headers_def c(1,2) bind.bind_lunit find_cookies.simps find_cookie_append [OF c(3)]
        find_cookie_hit [OF c(4) assms(3)] option.case)
qed

lemma carries_resolved:
  assumes "carries headers policy token" "CHR ''='' \<notin> set (sp_session_name policy)"
  shows "resolve_request_session_headers lib secret headers policy now = result_ok (decode_token lib secret policy token now)"
proof (cases "is_cookie policy")
  case True
  show ?thesis
    by (simp add: resolve_request_session_headers_def True carries_cookie [OF assms(1) True assms(2)])
next
  case False
  then show ?thesis using assms(1)
    by (auto simp: resolve_request_session_headers_def request_header_value_headers_def carries_def)
qed

text \<open>A request with the plain pair of the \<open>Set-Cookie\<close> header returns the token.\<close>

lemma split_char_single: "c \<notin> set s \<Longrightarrow> split_char c s = [s]"
  by (induction s) auto

lemma encoded_chars:
  assumes "token_laws lib" "encode_payload lib secret payload = Some token" "c \<in> set token"
  shows "token_char c \<or> c = CHR ''.''"
  using assms(2,3) token_lawsD(3) [OF assms(1)] by (auto simp: encode_payload_Some)

lemma token_char_graphic: "token_char c \<Longrightarrow> is_ascii_graphic c \<and> c \<noteq> CHR '';''"
  by (auto simp: token_char_def is_ascii_digit_def is_ascii_uppercase_def is_ascii_lowercase_def is_ascii_graphic_def)

lemma carries_pair:
  assumes "token_laws lib" "encode_payload lib secret payload = Some token" "is_cookie policy"
    and "list_all (\<lambda>c. is_ascii_graphic c \<and> c \<noteq> CHR '';'') (sp_session_name policy)"
  shows "carries [(''cookie'', [sp_session_name policy @ CHR ''='' # token])] policy token"
proof -
  let ?pair = "sp_session_name policy @ CHR ''='' # token"
  have chars: "is_ascii_graphic c \<and> c \<noteq> CHR '';''" if "c \<in> set token" for c
    using encoded_chars [OF assms(1,2) that] by (elim disjE) (erule token_char_graphic, simp add: is_ascii_graphic_def)
  have all: "list_all (\<lambda>c. is_ascii_graphic c \<and> c \<noteq> CHR '';'') ?pair"
    unfolding list_all_append list.pred_inject using assms(4) by (intro conjI) (simp_all add: chars list_all_iff, simp add: is_ascii_graphic_def)
  then have "CHR '';'' \<notin> set ?pair" unfolding list_all_iff by blast
  then have pair: "split_char CHR '';'' ?pair = [] @ ?pair # []" by (simp only: append_Nil) (rule split_char_single)
  have "list_all is_ascii_graphic ?pair" using all by (rule list.pred_mono_strong) (rule conjunct1)
  then have trimmed: "trim ?pair = ?pair" by (rule trim_graphic)
  have cookie: "map_of [(''cookie'', [?pair])] ''cookie'' = Some [?pair]" by simp
  show ?thesis unfolding carries_def if_P [OF assms(3)]
    by (intro exI conjI, rule cookie, rule pair, rule find_cookie.simps, rule trimmed)
qed

text \<open>
  C18. A session leads back to its backend: a request that returns the token of a response, in a cookie or in a header, is
  resolved to the backend the token was written for, with the absolute expiry it was given, until one of its
  two expiries has passed, and not after that.
\<close>

theorem session_round_trip:
  assumes "token_laws lib" and "CHR ''='' \<notin> set (sp_session_name policy)"
    and "payload = build_token_payload policy selected previous now"
    and "encode_payload lib (Some secret) payload = Some token"
    and "carries headers policy token"
  shows "resolve_request_session_headers lib (Some secret) headers policy later =
    (if expired (tk_ax payload) later \<or> expired (tk_ix payload) later then None
     else Some \<lparr> rv_target = \<lparr> pt_backend_name = sb_backend_name selected,
                   pt_endpoint = \<lparr> ep_address = ep_address (sb_backend selected), ep_port = ep_port (sb_backend selected),
                                   ep_healthy = True \<rparr> \<rparr>,
                 rv_absolute_expires_at = tk_ax payload \<rparr>)"
proof -
  have p: "tk_v payload = 1" "tk_sn payload = sp_session_name policy" "tk_st payload = session_transport policy"
    "tk_bn payload = sb_backend_name selected" "tk_a payload = ep_address (sb_backend selected)"
    "tk_p payload = ep_port (sb_backend selected)"
    by (simp_all add: assms(3) payload_simps)
  show ?thesis
    by (simp add: carries_resolved [OF assms(5,2)] decode_encoded [OF assms(1,4)] p verify_def result_ok_def)
qed

definition sample_policy :: SessionPersistence where
  "sample_policy = \<lparr> sp_session_name = ''sid'', sp_session_type = ''Cookie'', sp_absolute_timeout = Some 3600000000000,
     sp_idle_timeout = None, sp_cookie = None \<rparr>"

definition sample_selected :: SelectedBackend where
  "sample_selected = \<lparr> sb_route_kind = Http, sb_route_name = ''shop'', sb_route_namespace = ''web'', sb_rule_index = Some 0,
     sb_route_annotations = [], sb_listener_name = ''http'', sb_listener_protocol = ''HTTP'',
     sb_backend = \<lparr> ep_address = ''10.0.0.1'', ep_port = 80, ep_healthy = True \<rparr>, sb_backend_name = ''shop'',
     sb_filters = [], sb_matched_http_path = None, sb_timeouts = None, sb_retry = None,
     sb_session_persistence = Some sample_policy, sb_backend_tls = None, sb_route_policy = None \<rparr>"

definition sample_payload :: SessionToken where
  "sample_payload = build_token_payload sample_policy sample_selected None 1000"

definition sample_token :: string where
  "sample_token = base64_encode SampleToken (to_json SampleToken sample_payload)
     @ CHR ''.'' # base64_encode SampleToken (hmac SampleToken [1, 2] (to_json SampleToken sample_payload))"

lemma sample_encoded: "encode_payload SampleToken (Some [1, 2]) sample_payload = Some sample_token"
  by (simp add: encode_payload_Some sample_token_def)

lemma sample_expiry: "tk_ax sample_payload = Some 4600" "tk_ix sample_payload = None"
  by (simp_all add: sample_payload_def payload_simps sample_policy_def as_secs_def saturating_add_def)

theorem session_round_trip_witness:
  "map_option (pt_backend_name \<circ> rv_target)
     (resolve_request_session_headers SampleToken (Some [1, 2]) [(''cookie'', [''sid='' @ sample_token])] sample_policy 4000)
   = Some ''shop''"
proof -
  have name: "sp_session_name sample_policy = ''sid''" by (simp add: sample_policy_def)
  have "is_cookie sample_policy" by (simp add: is_cookie_def sample_policy_def)
  then have "carries [(''cookie'', [''sid='' @ sample_token])] sample_policy sample_token"
    using carries_pair [OF SampleToken_laws sample_encoded, of sample_policy] by (simp add: name is_ascii_graphic_def)
  then show ?thesis
    using session_round_trip [OF SampleToken_laws _ sample_payload_def sample_encoded, of _ 4000]
    by (simp add: name sample_expiry expired_def) (simp add: sample_selected_def)
qed

section \<open>Responses carry the token\<close>

text \<open>The path of a cookie is absolute, as browsers require, whatever the route matched.\<close>

lemma normalize_cookie_path_rooted: "starts_with (normalize_cookie_path path) ''/''"
  by (simp add: normalize_cookie_path_def Let_def starts_with_def)

lemma cookie_path_rooted: "starts_with (cookie_path selected) ''/''"
proof -
  have "starts_with ''/'' ''/''" by (simp add: starts_with_def)
  then show ?thesis
    by (simp add: cookie_path_def longest_literal_cookie_path_def normalize_cookie_path_rooted Let_def split: option.split)
qed

text \<open>
  A written response has the token, as one more \<open>Set-Cookie\<close> header that starts with the pair, or as the only value
  of the session header; without a secret nothing is written.
\<close>

lemma session_written:
  assumes "header_laws hl" "write_response_session lib hl secret response policy selected previous now = Some response'"
  shows "\<exists>token. encode_payload lib secret (build_token_payload policy selected previous now) = Some token \<and>
    (if is_cookie policy
     then \<exists>attributes. hl_values hl response' ''set-cookie'' =
            hl_values hl response ''set-cookie'' @ [sp_session_name policy @ CHR ''='' # token @ attributes]
     else hl_values hl response' (sp_session_name policy) = [token])"
proof -
  obtain token where token: "encode_payload lib secret (build_token_payload policy selected previous now) = Some token"
    using assms(2) by (auto simp: write_response_session_def Let_def split: option.splits)
  have eq: "eq_ignore_ascii_case n n" for n by (simp add: eq_ignore_ascii_case_def)
  show ?thesis
  proof (cases "is_cookie policy")
    case True
    then have "hl_append hl response ''set-cookie''
        (build_set_cookie policy selected token (tk_ax (build_token_payload policy selected previous now)) now) = Some response'"
      using assms(2) by (simp add: write_response_session_def Let_def token)
    from header_lawsD(5) [OF assms(1) this, of "''set-cookie''"] show ?thesis
      by (simp add: token True eq) (simp add: build_set_cookie_def)
  next
    case False
    then have "hl_insert hl response (sp_session_name policy) token = Some response'"
      using assms(2) by (simp add: write_response_session_def Let_def token)
    from header_lawsD(4) [OF assms(1) this, of "sp_session_name policy"] show ?thesis by (simp add: token False eq)
  qed
qed

lemma session_needs_secret: "write_response_session lib hl None response policy selected previous now = None"
  by (simp add: write_response_session_def encode_payload_def sign_def Let_def)

section \<open>Renewals\<close>

text \<open>
  A session over time: each response renews the token the request returned, for the backend, time and secret of
  that moment; the session ends when a token is not accepted.
\<close>

fun session_life :: "TokenLib \<Rightarrow> SessionPersistence \<Rightarrow> string \<Rightarrow> (octets option \<times> SelectedBackend \<times> u64) list \<Rightarrow> string option" where
  "session_life lib policy token [] = Some token"
| "session_life lib policy token ((secret, selected, now) # renewals) =
     (case decode_token lib secret policy token now of
        Inl _ \<Rightarrow> None
      | Inr previous \<Rightarrow>
          (case encode_payload lib secret (build_token_payload policy selected (Some previous) now) of
             None \<Rightarrow> None
           | Some token \<Rightarrow> session_life lib policy token renewals))"

lemma decode_encoded_Inr:
  assumes "token_laws lib" "encode_payload lib s payload = Some token" "decode_token lib secret policy token now = Inr session"
  shows "rv_absolute_expires_at session = tk_ax payload" "\<not> expired (tk_ax payload) now"
proof -
  obtain k where "encode_payload lib (Some k) payload = Some token" using assms(2) by (auto simp: encode_payload_Some)
  from decode_encoded [OF assms(1) this] assms(3)
  show "rv_absolute_expires_at session = tk_ax payload" "\<not> expired (tk_ax payload) now"
    by (auto split: sum.splits if_splits)
qed

lemma renewals_keep_expiry:
  assumes laws: "token_laws lib" and timeout: "sp_absolute_timeout policy = Some d"
  shows "encode_payload lib s payload = Some token \<Longrightarrow> tk_ax payload = Some expiry \<Longrightarrow>
    session_life lib policy token renewals = Some last_token \<Longrightarrow>
    \<exists>s payload. encode_payload lib s payload = Some last_token \<and> tk_ax payload = Some expiry"
proof (induction renewals arbitrary: token s payload)
  case Nil
  then show ?case by auto
next
  case (Cons renewal renewals)
  obtain secret selected now where r: "renewal = (secret, selected, now)" by (cases renewal)
  then obtain previous token' where
    d: "decode_token lib secret policy token now = Inr previous"
    and e: "encode_payload lib secret (build_token_payload policy selected (Some previous) now) = Some token'"
    and l: "session_life lib policy token' renewals = Some last_token"
    using Cons.prems(3) by (auto split: sum.splits option.splits)
  have "rv_absolute_expires_at previous = Some expiry"
    using decode_encoded_Inr(1) [OF laws Cons.prems(1) d] Cons.prems(2) by simp
  then have "tk_ax (build_token_payload policy selected (Some previous) now) = Some expiry"
    by (simp add: payload_simps timeout)
  then show ?case using Cons.IH [OF e _ l] by blast
qed

text \<open>
  C17. The absolute time-out of a session is absolute: however often its token is renewed, for whatever backends and under
  whatever secrets, no token of a session that began at \<open>start\<close> is accepted later than the time-out after \<open>start\<close>.
\<close>

theorem session_absolute_timeout:
  assumes "token_laws lib" and "sp_absolute_timeout policy = Some d"
    and "encode_payload lib secret (build_token_payload policy selected None start) = Some first_token"
    and "session_life lib policy first_token renewals = Some last_token"
    and "decode_token lib secret' policy last_token later = Inr session"
  shows "later \<le> saturating_add start (as_secs d)"
proof -
  have "tk_ax (build_token_payload policy selected None start) = Some (saturating_add start (as_secs d))"
    by (simp add: payload_simps assms(2))
  from renewals_keep_expiry [OF assms(1,2,3) this assms(4)]
  obtain s payload where p: "encode_payload lib s payload = Some last_token" "tk_ax payload = Some (saturating_add start (as_secs d))"
    by (elim exE conjE)
  show ?thesis using decode_encoded_Inr(2) [OF assms(1) p(1) assms(5)] by (simp add: expired_def p(2))
qed

lemma sample_decoded:
  "now \<le> 4600 \<Longrightarrow> \<exists>session. decode_token SampleToken (Some [1, 2]) sample_policy sample_token now = Inr session
     \<and> rv_absolute_expires_at session = Some 4600"
  by (simp add: decode_encoded [OF SampleToken_laws sample_encoded] verify_def sample_expiry expired_def)
    (simp add: sample_payload_def payload_simps)

lemma sample_renewed:
  "session_life SampleToken sample_policy sample_token [(Some [1, 2], sample_selected, 2000)] = Some sample_token"
proof -
  have earlier: "(2000 :: u64) \<le> 4600" by simp
  obtain session where s: "decode_token SampleToken (Some [1, 2]) sample_policy sample_token 2000 = Inr session"
    "rv_absolute_expires_at session = Some 4600"
    using sample_decoded [OF earlier] by (elim exE conjE)
  have "build_token_payload sample_policy sample_selected (Some session) 2000 = sample_payload"
    by (simp add: sample_payload_def payload_simps s(2) sample_policy_def as_secs_def saturating_add_def)
  note payload = this
  show ?thesis unfolding session_life.simps s(1) sum.case payload sample_encoded option.case ..
qed

theorem session_absolute_timeout_witness:
  "session_life SampleToken sample_policy sample_token [(Some [1, 2], sample_selected, 2000)] = Some sample_token
   \<and> (4000 :: u64) \<le> saturating_add 1000 (as_secs 3600000000000)"
proof
  have earlier: "(4000 :: u64) \<le> 4600" by simp
  obtain session where s: "decode_token SampleToken (Some [1, 2]) sample_policy sample_token 4000 = Inr session"
    using sample_decoded [OF earlier] by (elim exE conjE)
  have "sp_absolute_timeout sample_policy = Some 3600000000000" by (simp add: sample_policy_def)
  from session_absolute_timeout [OF SampleToken_laws this sample_encoded [unfolded sample_payload_def] sample_renewed s]
  show "(4000 :: u64) \<le> saturating_add 1000 (as_secs 3600000000000)" .
qed (rule sample_renewed)

end
