(* ===== verification/Tls_Plan.thy ===== *)
theory Tls_Plan
  imports Url_Rewrite Sample_Config
begin

text \<open>
  The shared TLS listeners, \<open>ntgw-shared-tls\<close>: the plan of the binds of a snapshot, \<open>listener_plan.rs\<close>, and the
  reconciliation of the running binds with it, \<open>runtime/binds.incl.rs\<close> and \<open>runtime/run.incl.rs\<close>. The X.509 package is a
  parameter, \<open>CertLib\<close>, on which nothing is assumed; whether a bind can be opened is the answer of the argument
  \<open>spawn\<close>. The lemmas show which listeners each bind serves, that no listener which asks for client certificates is served
  without them, and that a reload leaves exactly the planned binds running.
\<close>

section \<open>Ordered maps\<close>

definition btree_insert :: "string \<Rightarrow> 'v \<Rightarrow> 'v btree \<Rightarrow> 'v btree" where
  "btree_insert k v m = insort_key fst (k, v) (AList.delete k m)"

definition btree_set :: "string list \<Rightarrow> string list" where
  "btree_set xs = sort (remdups xs)"

section \<open>Plans\<close>

datatype SharedTlsError = Certificate string | Handshake string | Bind string | IdentityConfig string

record SharedTlsIdentity =
  ti_secret_ref :: string
  ti_cert_pem :: string
  ti_key_pem :: string
  ti_match_names :: "string list"

record TerminateSurface =
  tf_listener_names :: "string list"
  tf_identities :: "SharedTlsIdentity list"
  tf_frontend_validation_mode :: "string option"
  tf_client_ca_bundle_pem :: "string option"

record PassthroughSurface =
  pf_listener_names :: "string list"

record PlannedSharedTlsBind =
  pb_bind :: string
  pb_terminate :: "TerminateSurface option"
  pb_passthrough :: "PassthroughSurface option"

type_synonym ListenerPlan = "PlannedSharedTlsBind btree"

record 'c CertLib =
  x5_stack_from_pem :: "string \<Rightarrow> string + 'c list"
  x5_subject_alt_names :: "'c \<Rightarrow> string option list option"
  x5_common_name :: "'c \<Rightarrow> string option"
  x5_private_key_from_pem :: "string \<Rightarrow> string + unit"

definition normalize_tls_server_name :: "string \<Rightarrow> string" where
  "normalize_tls_server_name v = to_ascii_lowercase (trim_end_matches CHR ''.'' (trim v))"

fun san_names :: "string option list \<Rightarrow> string list \<Rightarrow> string list" where
  "san_names [] names = names"
| "san_names (san # sans) names =
     (case san of
        None \<Rightarrow> san_names sans names
      | Some dns_name \<Rightarrow>
          let normalized = normalize_tls_server_name dns_name
          in san_names sans (if normalized \<noteq> [] \<and> normalized \<notin> set names then names @ [normalized] else names))"

definition certificate_match_names :: "'c CertLib \<Rightarrow> 'c \<Rightarrow> string list" where
  "certificate_match_names lib cert =
     (let names = (case x5_subject_alt_names lib cert of None \<Rightarrow> [] | Some sans \<Rightarrow> san_names sans [])
      in if names = []
         then case x5_common_name lib cert of
             None \<Rightarrow> names
           | Some common_name \<Rightarrow>
               let normalized = normalize_tls_server_name common_name in if normalized \<noteq> [] then names @ [normalized] else names
         else names)"

definition build_tls_identity :: "'c CertLib \<Rightarrow> string \<Rightarrow> SecretMaterial \<Rightarrow> SharedTlsError + SharedTlsIdentity" where
  "build_tls_identity lib secret_ref secret =
     (case x5_stack_from_pem lib (se_cert_pem secret) of
        Inl e \<Rightarrow> Inl (Certificate (''parse certificate PEM: '' @ e))
      | Inr [] \<Rightarrow> Inl (Certificate ''no certificates found in PEM'')
      | Inr (leaf # _) \<Rightarrow>
          (case x5_private_key_from_pem lib (se_key_pem secret) of
             Inl e \<Rightarrow> Inl (Certificate (''parse private key PEM: '' @ e))
           | Inr _ \<Rightarrow> Inr \<lparr> ti_secret_ref = secret_ref, ti_cert_pem = se_cert_pem secret, ti_key_pem = se_key_pem secret,
                            ti_match_names = certificate_match_names lib leaf \<rparr>))"

fun resolve_secret_refs :: "'c CertLib \<Rightarrow> SecretMaterial list \<Rightarrow> string list \<Rightarrow> SharedTlsError + SharedTlsIdentity list" where
  "resolve_secret_refs lib secrets [] = Inr []"
| "resolve_secret_refs lib secrets (secret_ref # refs) =
     (case find (\<lambda>secret. se_namespace secret @ ''/'' @ se_name secret = secret_ref) secrets of
        None \<Rightarrow> resolve_secret_refs lib secrets refs
      | Some secret \<Rightarrow>
          (case build_tls_identity lib secret_ref secret of
             Inl e \<Rightarrow> Inl e
           | Inr identity \<Rightarrow>
               (case resolve_secret_refs lib secrets refs of Inl e \<Rightarrow> Inl e | Inr identities \<Rightarrow> Inr (identity # identities))))"

definition resolve_tls_identities :: "'c CertLib \<Rightarrow> Listener \<Rightarrow> Snapshot \<Rightarrow> SharedTlsError + SharedTlsIdentity list" where
  "resolve_tls_identities lib listener snapshot =
     (case ls_tls listener of
        None \<Rightarrow> Inr []
      | Some tls \<Rightarrow> resolve_secret_refs lib (sn_secrets snapshot) (tl_secret_refs tls))"

fun join_lines :: "string list \<Rightarrow> string" where
  "join_lines [] = []"
| "join_lines [line] = line"
| "join_lines (line # lines) = line @ CHR 0x0A # join_lines lines"

definition frontend_validation_mode :: "Listener \<Rightarrow> string option" where
  "frontend_validation_mode listener =
     (let mode = (case Option.bind (ls_tls listener) tl_frontend_validation of None \<Rightarrow> [] | Some validation \<Rightarrow> trim (fv_mode validation))
      in if mode = [] then None else Some mode)"

definition frontend_validation_bundle :: "Listener \<Rightarrow> string option" where
  "frontend_validation_bundle listener =
     (let bundle = (case Option.bind (ls_tls listener) tl_frontend_validation of
          None \<Rightarrow> []
        | Some validation \<Rightarrow> join_lines (filter (\<lambda>item. item \<noteq> []) (fv_ca_pems validation)))
      in if bundle = [] then None else Some bundle)"

definition tls_mode_is :: "Listener \<Rightarrow> bool \<Rightarrow> bool" where
  "tls_mode_is listener passthrough =
     (case ls_tls listener of None \<Rightarrow> False | Some tls \<Rightarrow> tl_enabled tls \<and> tl_passthrough tls = passthrough)"

definition is_tls_passthrough_listener :: "Listener \<Rightarrow> bool" where
  "is_tls_passthrough_listener listener \<longleftrightarrow>
     ls_protocol listener \<in> set [''LISTENER_PROTOCOL_TLS_PASSTHROUGH'', ''TLS'', ''TLS_PASSTHROUGH''] \<and> tls_mode_is listener True"

definition is_mixed_tls_listener :: "Listener \<Rightarrow> bool" where
  "is_mixed_tls_listener listener \<longleftrightarrow> ls_protocol listener = ''LISTENER_PROTOCOL_TLS'' \<and> tls_mode_is listener False"

definition is_https_terminate_listener :: "Listener \<Rightarrow> bool" where
  "is_https_terminate_listener listener \<longleftrightarrow>
     ls_protocol listener \<in> set [''LISTENER_PROTOCOL_HTTPS'', ''HTTPS''] \<and> tls_mode_is listener False"

section \<open>Addresses\<close>

definition socket_addr :: "string \<Rightarrow> u32 \<Rightarrow> string" where
  "socket_addr address port =
     (if CHR '':'' \<in> set address \<and> \<not> starts_with address ''['' then ''['' @ address @ '']:'' @ show_u32 port
      else address @ '':'' @ show_u32 port)"

definition bind_addrs :: "string \<Rightarrow> u32 \<Rightarrow> bool \<Rightarrow> string list" where
  "bind_addrs address port enable_ipv6 =
     (let host = (if address = [] then ''0.0.0.0'' else address)
      in if enable_ipv6 \<and> host = ''0.0.0.0'' then [''0.0.0.0:'' @ show_u32 port, ''[::]:'' @ show_u32 port]
         else [socket_addr host port])"

text \<open>The loops with \<open>seen\<close>: the trimmed values that are not empty, each at its first place.\<close>

fun unique_values :: "string list \<Rightarrow> string set \<Rightarrow> string list" where
  "unique_values [] seen = []"
| "unique_values (v # vs) seen =
     (let v = trim v in
      if v = [] then unique_values vs seen
      else if v \<in> seen then unique_values vs seen
      else v # unique_values vs (insert v seen))"

definition listener_configured_addresses :: "Listener \<Rightarrow> string list" where
  "listener_configured_addresses listener =
     (let out = unique_values (ls_addresses listener) {};
          raw = (case map_of (ls_metadata listener) ''nantian.dev/listener-addresses'' of
                   None \<Rightarrow> [] | Some raw \<Rightarrow> unique_values (split_char CHR '','' raw) {})
      in if out \<noteq> [] then out
         else if raw \<noteq> [] then raw
         else if ls_address listener \<noteq> [] then [ls_address listener]
         else [''0.0.0.0''])"

definition listener_bind_addrs :: "Listener \<Rightarrow> bool \<Rightarrow> string list" where
  "listener_bind_addrs listener enable_ipv6 =
     btree_set (concat (map (\<lambda>address. bind_addrs address (ls_port listener) enable_ipv6) (listener_configured_addresses listener)))"

section \<open>Building the plan\<close>

definition bind_entry :: "ListenerPlan \<Rightarrow> string \<Rightarrow> PlannedSharedTlsBind" where
  "bind_entry binds bind =
     (case map_of binds bind of
        None \<Rightarrow> \<lparr> pb_bind = bind, pb_terminate = None, pb_passthrough = None \<rparr>
      | Some shared \<Rightarrow> shared)"

definition add_passthrough :: "Listener \<Rightarrow> ListenerPlan \<Rightarrow> string \<Rightarrow> ListenerPlan" where
  "add_passthrough listener binds bind =
     (let shared = bind_entry binds bind;
          passthrough = (case pb_passthrough shared of None \<Rightarrow> \<lparr> pf_listener_names = [] \<rparr> | Some p \<Rightarrow> p)
      in btree_insert bind
           (shared\<lparr> pb_passthrough := Some (passthrough\<lparr> pf_listener_names := pf_listener_names passthrough @ [ls_name listener] \<rparr>) \<rparr>) binds)"

definition merge_frontend_validation ::
    "TerminateSurface \<Rightarrow> string option \<Rightarrow> string option \<Rightarrow> string \<Rightarrow> SharedTlsError + TerminateSurface" where
  "merge_frontend_validation terminate requested_mode requested_client_ca_bundle_pem bind =
     (if requested_mode = None \<and> requested_client_ca_bundle_pem = None then Inr terminate
      else if tf_frontend_validation_mode terminate = None \<and> tf_client_ca_bundle_pem terminate = None
      then Inr (terminate\<lparr> tf_frontend_validation_mode := requested_mode, tf_client_ca_bundle_pem := requested_client_ca_bundle_pem \<rparr>)
      else if tf_frontend_validation_mode terminate = requested_mode \<and> tf_client_ca_bundle_pem terminate = requested_client_ca_bundle_pem
      then Inr terminate
      else Inl (IdentityConfig (''frontend validation conflict on shared tls bind '' @ bind)))"

fun add_terminate ::
    "Listener \<Rightarrow> SharedTlsIdentity list \<Rightarrow> bool \<Rightarrow> bool \<Rightarrow> string list \<Rightarrow> ListenerPlan \<Rightarrow> SharedTlsError + ListenerPlan" where
  "add_terminate listener identities has_passthrough is_mixed [] binds = Inr binds"
| "add_terminate listener identities has_passthrough is_mixed (bind # addrs) binds =
     (let shared = bind_entry binds bind in
      if has_passthrough \<and> pb_passthrough shared \<noteq> None \<and> \<not> is_mixed
      then add_terminate listener identities has_passthrough is_mixed addrs (btree_insert bind shared binds)
      else
        let terminate = (case pb_terminate shared of
              None \<Rightarrow> \<lparr> tf_listener_names = [], tf_identities = [], tf_frontend_validation_mode = None, tf_client_ca_bundle_pem = None \<rparr>
            | Some t \<Rightarrow> t)
        in case merge_frontend_validation terminate (frontend_validation_mode listener) (frontend_validation_bundle listener) (pb_bind shared) of
             Inl e \<Rightarrow> Inl e
           | Inr terminate \<Rightarrow>
               add_terminate listener identities has_passthrough is_mixed addrs
                 (btree_insert bind (shared\<lparr> pb_terminate := Some (terminate\<lparr>
                    tf_listener_names := tf_listener_names terminate @ [ls_name listener],
                    tf_identities := tf_identities terminate @ identities \<rparr>) \<rparr>) binds))"

definition plan_listener :: "'c CertLib \<Rightarrow> Snapshot \<Rightarrow> bool \<Rightarrow> Listener \<Rightarrow> ListenerPlan \<Rightarrow> SharedTlsError + ListenerPlan" where
  "plan_listener lib snapshot enable_ipv6 listener binds =
     (let is_passthrough = is_tls_passthrough_listener listener;
          is_mixed = is_mixed_tls_listener listener;
          is_terminate = is_https_terminate_listener listener
      in if \<not> is_passthrough \<and> \<not> is_mixed \<and> \<not> is_terminate then Inr binds
         else
           let binds = (if is_passthrough \<or> is_mixed
                 then foldl (add_passthrough listener) binds (listener_bind_addrs listener enable_ipv6) else binds)
           in if \<not> is_terminate \<and> \<not> is_mixed then Inr binds
              else
                let has_passthrough = (is_mixed \<or> is_tls_passthrough_listener listener) in
                case resolve_tls_identities lib listener snapshot of
                  Inl e \<Rightarrow> Inl e
                | Inr identities \<Rightarrow>
                    if identities = [] then Inr binds
                    else add_terminate listener identities has_passthrough is_mixed (listener_bind_addrs listener enable_ipv6) binds)"

fun plan_listeners :: "'c CertLib \<Rightarrow> Snapshot \<Rightarrow> bool \<Rightarrow> Listener list \<Rightarrow> ListenerPlan \<Rightarrow> SharedTlsError + ListenerPlan" where
  "plan_listeners lib snapshot enable_ipv6 [] binds = Inr binds"
| "plan_listeners lib snapshot enable_ipv6 (listener # listeners) binds =
     (case plan_listener lib snapshot enable_ipv6 listener binds of
        Inl e \<Rightarrow> Inl e
      | Inr binds \<Rightarrow> plan_listeners lib snapshot enable_ipv6 listeners binds)"

definition build_listener_plan :: "'c CertLib \<Rightarrow> Snapshot \<Rightarrow> bool \<Rightarrow> SharedTlsError + ListenerPlan" where
  "build_listener_plan lib snapshot enable_ipv6 = plan_listeners lib snapshot enable_ipv6 (sn_listeners snapshot) []"

definition shared_tls_listener_protocol :: "Listener \<Rightarrow> bool" where
  "shared_tls_listener_protocol listener \<longleftrightarrow>
     ls_protocol listener \<in> set [''LISTENER_PROTOCOL_HTTPS'', ''LISTENER_PROTOCOL_TLS_PASSTHROUGH'', ''HTTPS'', ''TLS'', ''TLS_PASSTHROUGH'']"

definition desired_listener_plan :: "'c CertLib \<Rightarrow> Snapshot \<Rightarrow> bool \<Rightarrow> SharedTlsError + ListenerPlan option" where
  "desired_listener_plan lib snapshot enable_ipv6 =
     (if \<not> list_ex shared_tls_listener_protocol (sn_listeners snapshot) then Inr None
      else case build_listener_plan lib snapshot enable_ipv6 of
        Inl e \<Rightarrow> Inl e
      | Inr binds \<Rightarrow> if binds = [] then Inr None else Inr (Some binds))"

section \<open>Reconciliation\<close>

record SharedTlsBindTask =
  bk_bind :: PlannedSharedTlsBind
  bk_finished :: bool

type_synonym SharedTlsBindSet = "SharedTlsBindTask btree"

record RuntimeListenerFailure =
  rf_listener :: string
  rf_message :: string

record BindReplaceResult =
  rr_failures :: "RuntimeListenerFailure list"
  rr_started_listeners :: "string list"
  rr_retained_listeners :: "string list"

record BindUpdatePlan =
  up_start :: "PlannedSharedTlsBind list"
  up_stop :: "string list"

fun update_binds ::
    "bool \<Rightarrow> string set \<Rightarrow> PlannedSharedTlsBind btree \<Rightarrow> ListenerPlan \<Rightarrow> BindUpdatePlan \<Rightarrow> ListenerPlan \<times> BindUpdatePlan" where
  "update_binds force_reload finished [] desired updates = (desired, updates)"
| "update_binds force_reload finished ((bind, active_bind) # active) desired updates =
     (let next_bind = map_of desired bind; desired = AList.delete bind desired in
      if force_reload \<and> bind \<notin> finished
      then case next_bind of
          Some p \<Rightarrow> update_binds force_reload finished active desired
            (updates\<lparr> up_stop := up_stop updates @ [bind], up_start := up_start updates @ [p] \<rparr>)
        | None \<Rightarrow> update_binds force_reload finished active desired (updates\<lparr> up_stop := up_stop updates @ [bind] \<rparr>)
      else case next_bind of
          Some p \<Rightarrow>
            if bind \<notin> finished \<and> active_bind = p then update_binds force_reload finished active desired updates
            else update_binds force_reload finished active desired
              (updates\<lparr> up_stop := up_stop updates @ [bind], up_start := up_start updates @ [p] \<rparr>)
        | None \<Rightarrow> update_binds force_reload finished active desired (updates\<lparr> up_stop := up_stop updates @ [bind] \<rparr>))"

definition listener_updates :: "PlannedSharedTlsBind btree \<Rightarrow> ListenerPlan option \<Rightarrow> string set \<Rightarrow> bool \<Rightarrow> BindUpdatePlan" where
  "listener_updates active desired finished force_reload =
     (case update_binds force_reload finished active (case desired of None \<Rightarrow> [] | Some plan \<Rightarrow> plan) \<lparr> up_start = [], up_stop = [] \<rparr> of
        (desired_by_bind, updates) \<Rightarrow> updates\<lparr> up_start := up_start updates @ map snd desired_by_bind \<rparr>)"

definition active_plan :: "SharedTlsBindSet \<Rightarrow> PlannedSharedTlsBind btree" where
  "active_plan tasks = map (\<lambda>(bind, task). (bind, bk_bind task)) tasks"

definition finished_tasks :: "SharedTlsBindSet \<Rightarrow> string set" where
  "finished_tasks tasks = set (map fst (filter (\<lambda>(bind, task). bk_finished task) tasks))"

definition bind_listener_names :: "PlannedSharedTlsBind \<Rightarrow> string list" where
  "bind_listener_names bind =
     btree_set ((case pb_terminate bind of None \<Rightarrow> [] | Some surface \<Rightarrow> tf_listener_names surface) @
                (case pb_passthrough bind of None \<Rightarrow> [] | Some surface \<Rightarrow> pf_listener_names surface))"

definition active_listener_names :: "SharedTlsBindSet \<Rightarrow> string list" where
  "active_listener_names tasks = btree_set (concat (map (bind_listener_names \<circ> bk_bind \<circ> snd) tasks))"

definition needs_reload :: "SharedTlsBindSet \<Rightarrow> ListenerPlan option \<Rightarrow> bool \<Rightarrow> bool" where
  "needs_reload tasks desired force_reload =
     (let updates = listener_updates (active_plan tasks) desired (finished_tasks tasks) force_reload
      in up_start updates \<noteq> [] \<or> up_stop updates \<noteq> [])"

text \<open>Opening the planned binds one after the other: a new task, or the failures of its listeners.\<close>

fun start_binds ::
    "(PlannedSharedTlsBind \<Rightarrow> string + unit) \<Rightarrow> PlannedSharedTlsBind list \<Rightarrow>
     RuntimeListenerFailure list \<times> string list \<times> SharedTlsBindSet \<Rightarrow> RuntimeListenerFailure list \<times> string list \<times> SharedTlsBindSet" where
  "start_binds spawn [] s = s"
| "start_binds spawn (bind # binds) (failures, started, tasks) =
     start_binds spawn binds
       (case spawn bind of
          Inr _ \<Rightarrow> (failures, started @ bind_listener_names bind, btree_insert (pb_bind bind) \<lparr> bk_bind = bind, bk_finished = False \<rparr> tasks)
        | Inl message \<Rightarrow>
            (failures @ map (\<lambda>listener. \<lparr> rf_listener = listener, rf_message = message \<rparr>) (bind_listener_names bind), started, tasks))"

definition replace_binds ::
    "(PlannedSharedTlsBind \<Rightarrow> string + unit) \<Rightarrow> SharedTlsBindSet \<Rightarrow> ListenerPlan option \<Rightarrow> bool \<Rightarrow> BindReplaceResult \<times> SharedTlsBindSet" where
  "replace_binds spawn tasks plan force_reload =
     (let updates = listener_updates (active_plan tasks) plan (finished_tasks tasks) force_reload
      in if up_start updates = [] \<and> up_stop updates = []
         then (\<lparr> rr_failures = [], rr_started_listeners = [], rr_retained_listeners = [] \<rparr>, tasks)
         else
           let tasks = foldl (\<lambda>tasks bind. AList.delete bind tasks) tasks (up_stop updates)
           in case start_binds spawn (up_start updates) ([], [], tasks) of
                (failures, started_listeners, tasks) \<Rightarrow>
                  (\<lparr> rr_failures = failures, rr_started_listeners = started_listeners,
                     rr_retained_listeners = btree_set (filter (\<lambda>listener. listener \<notin> set started_listeners)
                       (concat (map (bind_listener_names \<circ> bk_bind)
                         (filter (\<lambda>task. pb_bind (bk_bind task) \<notin> set (up_stop updates)) (map snd tasks))))) \<rparr>, tasks))"

definition shared_tls_listener_failures :: "Snapshot \<Rightarrow> string \<Rightarrow> RuntimeListenerFailure list" where
  "shared_tls_listener_failures snapshot message =
     map (\<lambda>listener. \<lparr> rf_listener = ls_name listener, rf_message = message \<rparr>) (filter shared_tls_listener_protocol (sn_listeners snapshot))"

text \<open>One turn of the loop of \<open>run\<close>: what is reported for the snapshot, and the binds that run after it.\<close>

datatype ReloadReport =
    ReloadFailures "RuntimeListenerFailure list"
  | ReloadResult BindReplaceResult
  | ReloadQuiet

fun tls_error_message :: "SharedTlsError \<Rightarrow> string" where
  "tls_error_message (Certificate m) = ''TLS certificate error: '' @ m"
| "tls_error_message (Handshake m) = ''TLS handshake error: '' @ m"
| "tls_error_message (Bind m) = ''TLS bind error: '' @ m"
| "tls_error_message (IdentityConfig m) = ''TLS identity configuration error: '' @ m"

text \<open>
  A turn of the loop. Building the HTTP application in it always succeeds in \<open>ntgw-http\<close>, so its error exit is left out.
\<close>

definition reload_turn ::
    "'c CertLib \<Rightarrow> (PlannedSharedTlsBind \<Rightarrow> string + unit) \<Rightarrow> Snapshot \<Rightarrow> bool \<Rightarrow> bool \<Rightarrow> SharedTlsBindSet \<Rightarrow> ReloadReport \<times> SharedTlsBindSet" where
  "reload_turn lib spawn snapshot enable_ipv6 force_reload tasks =
     (let tls_required = list_ex shared_tls_listener_protocol (sn_listeners snapshot);
          (desired, failures) = (case desired_listener_plan lib snapshot enable_ipv6 of
              Inr plan \<Rightarrow> (plan, [])
            | Inl e \<Rightarrow> (None, shared_tls_listener_failures snapshot (tls_error_message e)))
      in if desired = None \<and> failures \<noteq> [] then (ReloadFailures failures, tasks)
         else if needs_reload tasks desired force_reload
         then map_prod ReloadResult id (replace_binds spawn tasks desired force_reload)
         else if desired \<noteq> None \<or> tls_required
         then (ReloadResult \<lparr> rr_failures = [], rr_started_listeners = [], rr_retained_listeners = active_listener_names tasks \<rparr>, tasks)
         else (ReloadQuiet, tasks))"

section \<open>Which listeners a bind serves\<close>

lemma map_of_insort_key:
  "k \<notin> fst ` set m \<Longrightarrow> map_of (insort_key fst (k, v) m) k' = (if k' = k then Some v else map_of m k')"
  by (induction m) auto

lemma map_of_btree_insert [simp]: "map_of (btree_insert k v m) k' = (if k' = k then Some v else map_of m k')"
proof -
  have "k \<notin> fst ` set (AList.delete k m)" by (auto simp: AList.delete_eq)
  then show ?thesis by (simp add: btree_insert_def map_of_insort_key AList.delete_conv')
qed

lemma distinct_insort_key: "distinct (map fst (insort_key fst x m)) \<longleftrightarrow> fst x \<notin> fst ` set m \<and> distinct (map fst m)"
  by (induction m) (auto simp: set_insort_key)

lemma distinct_btree_insert [simp]: "distinct (map fst m) \<Longrightarrow> distinct (map fst (btree_insert k v m))"
  by (auto simp: btree_insert_def distinct_insort_key AList.delete_eq distinct_map_filter)

lemma distinct_listener_bind_addrs [simp]: "distinct (listener_bind_addrs listener enable_ipv6)"
  by (simp add: listener_bind_addrs_def btree_set_def)

text \<open>What a plan says of a bind: the listeners passed through, the surface of the terminated ones, its client validation.\<close>

definition passthrough_names :: "ListenerPlan \<Rightarrow> string \<Rightarrow> string list" where
  "passthrough_names binds b =
     (case Option.bind (map_of binds b) pb_passthrough of None \<Rightarrow> [] | Some surface \<Rightarrow> pf_listener_names surface)"

definition terminate_surface :: "ListenerPlan \<Rightarrow> string \<Rightarrow> TerminateSurface option" where
  "terminate_surface binds b = Option.bind (map_of binds b) pb_terminate"

definition terminate_names :: "ListenerPlan \<Rightarrow> string \<Rightarrow> string list" where
  "terminate_names binds b = (case terminate_surface binds b of None \<Rightarrow> [] | Some surface \<Rightarrow> tf_listener_names surface)"

definition validation :: "ListenerPlan \<Rightarrow> string \<Rightarrow> string option \<times> string option" where
  "validation binds b =
     (case terminate_surface binds b of
        None \<Rightarrow> (None, None) | Some surface \<Rightarrow> (tf_frontend_validation_mode surface, tf_client_ca_bundle_pem surface))"

definition requested_validation :: "Listener \<Rightarrow> string option \<times> string option" where
  "requested_validation listener = (frontend_validation_mode listener, frontend_validation_bundle listener)"

definition passes_through :: "Listener \<Rightarrow> bool" where
  "passes_through listener \<longleftrightarrow> is_tls_passthrough_listener listener \<or> is_mixed_tls_listener listener"

definition terminates :: "'c CertLib \<Rightarrow> Snapshot \<Rightarrow> Listener \<Rightarrow> bool" where
  "terminates lib snapshot listener \<longleftrightarrow>
     (is_https_terminate_listener listener \<or> is_mixed_tls_listener listener)
     \<and> (case resolve_tls_identities lib listener snapshot of Inl _ \<Rightarrow> False | Inr identities \<Rightarrow> identities \<noteq> [])"

definition plan_wf :: "ListenerPlan \<Rightarrow> bool" where
  "plan_wf binds \<longleftrightarrow> distinct (map fst binds) \<and> (\<forall>b p. map_of binds b = Some p \<longrightarrow> pb_bind p = b)"

lemma bind_entry_bind: "plan_wf binds \<Longrightarrow> pb_bind (bind_entry binds b) = b"
  by (auto simp: plan_wf_def bind_entry_def split: option.split)

lemma plan_wf_insert: "plan_wf binds \<Longrightarrow> pb_bind p = b \<Longrightarrow> plan_wf (btree_insert b p binds)"
  by (auto simp: plan_wf_def)

lemmas plan_views = passthrough_names_def terminate_surface_def bind_entry_def

lemma add_passthrough_effect:
  "passthrough_names (add_passthrough l binds a) b = passthrough_names binds b @ (if b = a then [ls_name l] else [])"
  "terminate_surface (add_passthrough l binds a) b = terminate_surface binds b"
  "plan_wf binds \<Longrightarrow> plan_wf (add_passthrough l binds a)"
  using bind_entry_bind [of binds a]
  by (auto simp: add_passthrough_def plan_views Let_def intro!: plan_wf_insert split: option.split)

lemma add_passthroughs_effect:
  "distinct addrs \<Longrightarrow> passthrough_names (foldl (add_passthrough l) binds addrs) b =
     passthrough_names binds b @ (if b \<in> set addrs then [ls_name l] else [])"
  "terminate_surface (foldl (add_passthrough l) binds addrs) b = terminate_surface binds b"
  "plan_wf binds \<Longrightarrow> plan_wf (foldl (add_passthrough l) binds addrs)"
  by (induction addrs arbitrary: binds) (auto simp: add_passthrough_effect)

text \<open>One bind of the second loop, with the validation merged.\<close>

lemma merge_validation:
  assumes "merge_frontend_validation t m c b = Inr t'"
  shows "tf_listener_names t' = tf_listener_names t"
    and "(m, c) \<noteq> (None, None) \<Longrightarrow> (tf_frontend_validation_mode t', tf_client_ca_bundle_pem t') = (m, c)"
    and "(tf_frontend_validation_mode t, tf_client_ca_bundle_pem t) \<noteq> (None, None) \<Longrightarrow>
      (tf_frontend_validation_mode t', tf_client_ca_bundle_pem t') = (tf_frontend_validation_mode t, tf_client_ca_bundle_pem t)"
  using assms by (auto simp: merge_frontend_validation_def split: if_splits)

definition terminate_bind :: "Listener \<Rightarrow> SharedTlsIdentity list \<Rightarrow> string \<Rightarrow> ListenerPlan \<Rightarrow> SharedTlsError + ListenerPlan" where
  "terminate_bind l identities b binds =
     (let shared = bind_entry binds b;
          terminate = (case pb_terminate shared of
            None \<Rightarrow> \<lparr> tf_listener_names = [], tf_identities = [], tf_frontend_validation_mode = None, tf_client_ca_bundle_pem = None \<rparr>
          | Some t \<Rightarrow> t)
      in case merge_frontend_validation terminate (frontend_validation_mode l) (frontend_validation_bundle l) (pb_bind shared) of
           Inl e \<Rightarrow> Inl e
         | Inr terminate \<Rightarrow> Inr (btree_insert b (shared\<lparr> pb_terminate := Some (terminate\<lparr>
               tf_listener_names := tf_listener_names terminate @ [ls_name l], tf_identities := tf_identities terminate @ identities \<rparr>) \<rparr>) binds))"

lemma add_terminate_Cons:
  "\<not> has_passthrough \<or> is_mixed \<Longrightarrow> add_terminate l identities has_passthrough is_mixed (b # addrs) binds =
     (case terminate_bind l identities b binds of
        Inl e \<Rightarrow> Inl e | Inr binds \<Rightarrow> add_terminate l identities has_passthrough is_mixed addrs binds)"
  by (auto simp: terminate_bind_def Let_def split: sum.split)

lemma terminate_bind_effect:
  assumes "terminate_bind l identities a binds = Inr binds'"
  shows "passthrough_names binds' b = passthrough_names binds b"
    and "terminate_names binds' b = terminate_names binds b @ (if b = a then [ls_name l] else [])"
    and "b = a \<Longrightarrow> requested_validation l \<noteq> (None, None) \<Longrightarrow> validation binds' b = requested_validation l"
    and "validation binds b \<noteq> (None, None) \<Longrightarrow> validation binds' b = validation binds b"
    and "plan_wf binds \<Longrightarrow> plan_wf binds'"
proof -
  let ?t = "case pb_terminate (bind_entry binds a) of
      None \<Rightarrow> \<lparr> tf_listener_names = [], tf_identities = [], tf_frontend_validation_mode = None, tf_client_ca_bundle_pem = None \<rparr>
    | Some t \<Rightarrow> t"
  obtain t' where m: "merge_frontend_validation ?t (frontend_validation_mode l) (frontend_validation_bundle l) (pb_bind (bind_entry binds a)) = Inr t'"
    and binds': "binds' = btree_insert a ((bind_entry binds a)\<lparr> pb_terminate := Some (t'\<lparr>
      tf_listener_names := tf_listener_names t' @ [ls_name l], tf_identities := tf_identities t' @ identities \<rparr>) \<rparr>) binds"
    using assms by (auto simp: terminate_bind_def Let_def split: sum.splits)
  have t: "pb_terminate (bind_entry binds a) = terminate_surface binds a"
    by (auto simp: bind_entry_def terminate_surface_def split: option.split)
  show "passthrough_names binds' b = passthrough_names binds b"
    by (auto simp: binds' passthrough_names_def bind_entry_def split: option.split)
  show "terminate_names binds' b = terminate_names binds b @ (if b = a then [ls_name l] else [])"
    using merge_validation(1) [OF m] unfolding t
    by (auto simp: binds' terminate_names_def terminate_surface_def split: option.splits)
  show "validation binds' b = requested_validation l" if "b = a" "requested_validation l \<noteq> (None, None)"
    using merge_validation(2) [OF m] that by (simp add: binds' validation_def terminate_surface_def requested_validation_def)
  show "validation binds' b = validation binds b" if "validation binds b \<noteq> (None, None)"
    using merge_validation(3) [OF m] that unfolding t
    by (auto simp: binds' validation_def terminate_surface_def split: option.splits if_splits)
  show "plan_wf binds'" if "plan_wf binds"
    unfolding binds' by (rule plan_wf_insert [OF that]) (simp add: bind_entry_bind [OF that])
qed

lemma add_terminate_effect:
  assumes "add_terminate l identities has_passthrough is_mixed addrs binds = Inr binds'"
    and "\<not> has_passthrough \<or> is_mixed" and "distinct addrs"
  shows "passthrough_names binds' b = passthrough_names binds b"
    and "terminate_names binds' b = terminate_names binds b @ (if b \<in> set addrs then [ls_name l] else [])"
    and "b \<in> set addrs \<Longrightarrow> requested_validation l \<noteq> (None, None) \<Longrightarrow> validation binds' b = requested_validation l"
    and "validation binds b \<noteq> (None, None) \<Longrightarrow> validation binds' b = validation binds b"
    and "plan_wf binds \<Longrightarrow> plan_wf binds'"
proof -
  have "passthrough_names binds' b = passthrough_names binds b
    \<and> terminate_names binds' b = terminate_names binds b @ (if b \<in> set addrs then [ls_name l] else [])
    \<and> (b \<in> set addrs \<longrightarrow> requested_validation l \<noteq> (None, None) \<longrightarrow> validation binds' b = requested_validation l)
    \<and> (validation binds b \<noteq> (None, None) \<longrightarrow> validation binds' b = validation binds b)
    \<and> (plan_wf binds \<longrightarrow> plan_wf binds')"
    using assms(1,3)
  proof (induction addrs arbitrary: binds)
    case (Cons a addrs)
    obtain binds1 where s: "terminate_bind l identities a binds = Inr binds1"
      and r: "add_terminate l identities has_passthrough is_mixed addrs binds1 = Inr binds'"
      using Cons.prems(1) by (auto simp: add_terminate_Cons [OF assms(2)] simp del: add_terminate.simps(2) split: sum.splits)
    note e = terminate_bind_effect [OF s]
    have "a \<notin> set addrs" "distinct addrs" using Cons.prems(2) by auto
    with Cons.IH [OF r] show ?case using e(1) [of b] e(2) [of b] e(3) [of b] e(4) [of b] e(5) by auto
  qed simp
  then show "passthrough_names binds' b = passthrough_names binds b"
    and "terminate_names binds' b = terminate_names binds b @ (if b \<in> set addrs then [ls_name l] else [])"
    and "b \<in> set addrs \<Longrightarrow> requested_validation l \<noteq> (None, None) \<Longrightarrow> validation binds' b = requested_validation l"
    and "validation binds b \<noteq> (None, None) \<Longrightarrow> validation binds' b = validation binds b"
    and "plan_wf binds \<Longrightarrow> plan_wf binds'"
    by blast+
qed

text \<open>
  The guard of the second loop never holds: a listener that gets there terminates TLS, so it is no
  passthrough listener unless it is mixed.
\<close>

lemma terminate_guard_never:
  "is_https_terminate_listener l \<or> is_mixed_tls_listener l \<Longrightarrow>
   \<not> (is_mixed_tls_listener l \<or> is_tls_passthrough_listener l) \<or> is_mixed_tls_listener l"
  by (auto simp: is_https_terminate_listener_def is_tls_passthrough_listener_def)

lemma plan_listener_effect:
  assumes "plan_listener lib snapshot enable_ipv6 l binds = Inr binds'"
  shows "passthrough_names binds' b = passthrough_names binds b @
      (if passes_through l \<and> b \<in> set (listener_bind_addrs l enable_ipv6) then [ls_name l] else [])"
    and "terminate_names binds' b = terminate_names binds b @
      (if terminates lib snapshot l \<and> b \<in> set (listener_bind_addrs l enable_ipv6) then [ls_name l] else [])"
    and "terminates lib snapshot l \<Longrightarrow> b \<in> set (listener_bind_addrs l enable_ipv6) \<Longrightarrow>
      requested_validation l \<noteq> (None, None) \<Longrightarrow> validation binds' b = requested_validation l"
    and "validation binds b \<noteq> (None, None) \<Longrightarrow> validation binds' b = validation binds b"
    and "plan_wf binds \<Longrightarrow> plan_wf binds'"
proof -
  let ?addrs = "listener_bind_addrs l enable_ipv6"
  let ?binds = "if passes_through l then foldl (add_passthrough l) binds ?addrs else binds"
  have p: "passthrough_names ?binds b = passthrough_names binds b @ (if passes_through l \<and> b \<in> set ?addrs then [ls_name l] else [])"
    "terminate_surface ?binds b = terminate_surface binds b" "plan_wf binds \<Longrightarrow> plan_wf ?binds"
    by (simp_all add: add_passthroughs_effect)
  note views = terminate_names_def validation_def p(2)
  let ?t = "is_https_terminate_listener l \<or> is_mixed_tls_listener l"
  consider (none) "\<not> terminates lib snapshot l" "binds' = ?binds"
    | (add) identities where "?t" "terminates lib snapshot l"
        "add_terminate l identities (is_mixed_tls_listener l \<or> is_tls_passthrough_listener l) (is_mixed_tls_listener l) ?addrs ?binds = Inr binds'"
    using assms unfolding plan_listener_def Let_def passes_through_def terminates_def
    by (cases "resolve_tls_identities lib l snapshot") (auto split: if_splits)
  then have "passthrough_names binds' b = passthrough_names binds b @ (if passes_through l \<and> b \<in> set ?addrs then [ls_name l] else [])
    \<and> terminate_names binds' b = terminate_names binds b @ (if terminates lib snapshot l \<and> b \<in> set ?addrs then [ls_name l] else [])
    \<and> (terminates lib snapshot l \<longrightarrow> b \<in> set ?addrs \<longrightarrow> requested_validation l \<noteq> (None, None) \<longrightarrow> validation binds' b = requested_validation l)
    \<and> (validation binds b \<noteq> (None, None) \<longrightarrow> validation binds' b = validation binds b) \<and> (plan_wf binds \<longrightarrow> plan_wf binds')"
  proof cases
    case none
    then show ?thesis using p by (simp add: views)
  next
    case (add identities)
    note e = add_terminate_effect [OF add(3) terminate_guard_never [OF add(1)] distinct_listener_bind_addrs]
    show ?thesis using e(1-4) [of b] e(5) p add(2) by (simp add: views)
  qed
  then show "passthrough_names binds' b = passthrough_names binds b @ (if passes_through l \<and> b \<in> set ?addrs then [ls_name l] else [])"
    and "terminate_names binds' b = terminate_names binds b @ (if terminates lib snapshot l \<and> b \<in> set ?addrs then [ls_name l] else [])"
    and "terminates lib snapshot l \<Longrightarrow> b \<in> set ?addrs \<Longrightarrow> requested_validation l \<noteq> (None, None) \<Longrightarrow> validation binds' b = requested_validation l"
    and "validation binds b \<noteq> (None, None) \<Longrightarrow> validation binds' b = validation binds b"
    and "plan_wf binds \<Longrightarrow> plan_wf binds'" by blast+
qed

lemma plan_listeners_effect:
  assumes "plan_listeners lib snapshot enable_ipv6 ls binds = Inr binds'"
  shows "passthrough_names binds' b = passthrough_names binds b @
      map ls_name (filter (\<lambda>l. passes_through l \<and> b \<in> set (listener_bind_addrs l enable_ipv6)) ls)"
    and "terminate_names binds' b = terminate_names binds b @
      map ls_name (filter (\<lambda>l. terminates lib snapshot l \<and> b \<in> set (listener_bind_addrs l enable_ipv6)) ls)"
    and "plan_wf binds \<Longrightarrow> plan_wf binds'"
  using assms
  by (induction ls arbitrary: binds) (auto simp: plan_listener_effect(1,2) dest: plan_listener_effect(5) split: sum.splits)

lemma plan_listeners_validation:
  assumes "plan_listeners lib snapshot enable_ipv6 ls binds = Inr binds'"
  shows "(validation binds b \<noteq> (None, None) \<longrightarrow> validation binds' b = validation binds b)
    \<and> (l \<in> set ls \<and> terminates lib snapshot l \<and> b \<in> set (listener_bind_addrs l enable_ipv6)
         \<and> requested_validation l \<noteq> (None, None) \<longrightarrow> validation binds' b = requested_validation l)"
  using assms
proof (induction ls arbitrary: binds)
  case (Cons a ls)
  obtain binds1 where s: "plan_listener lib snapshot enable_ipv6 a binds = Inr binds1"
    and r: "plan_listeners lib snapshot enable_ipv6 ls binds1 = Inr binds'"
    using Cons.prems by (auto split: sum.splits)
  show ?case using Cons.IH [OF r] plan_listener_effect(3,4) [OF s, of b] by auto
qed simp

text \<open>
  C16. The plan of the shared TLS binds. When it can be built, a bind passes through exactly the passthrough and mixed
  listeners of its address, in their order, and terminates exactly the HTTPS and mixed ones that have a certificate;
  and every such listener that asks for client certificates gets exactly its mode and its authorities on each
  of its binds, so that none is served without its validation.
\<close>

theorem shared_tls_plan_complete:
  assumes "build_listener_plan lib snapshot enable_ipv6 = Inr binds"
  shows "passthrough_names binds b =
      map ls_name (filter (\<lambda>l. passes_through l \<and> b \<in> set (listener_bind_addrs l enable_ipv6)) (sn_listeners snapshot))
    \<and> terminate_names binds b =
      map ls_name (filter (\<lambda>l. terminates lib snapshot l \<and> b \<in> set (listener_bind_addrs l enable_ipv6)) (sn_listeners snapshot))
    \<and> (\<forall>l \<in> set (sn_listeners snapshot). terminates lib snapshot l \<longrightarrow> b \<in> set (listener_bind_addrs l enable_ipv6) \<longrightarrow>
        requested_validation l \<noteq> (None, None) \<longrightarrow> validation binds b = requested_validation l)"
proof -
  have p: "plan_listeners lib snapshot enable_ipv6 (sn_listeners snapshot) [] = Inr binds"
    using assms by (simp add: build_listener_plan_def)
  have "passthrough_names [] b = []" "terminate_names [] b = []"
    by (simp_all add: passthrough_names_def terminate_names_def terminate_surface_def)
  then show ?thesis
    using plan_listeners_effect(1,2) [OF p, of b] plan_listeners_validation [OF p, of b] by auto
qed

definition tls_listener :: "string \<Rightarrow> string \<Rightarrow> bool \<Rightarrow> FrontendValidation option \<Rightarrow> Listener" where
  "tls_listener name protocol passthrough frontend = \<lparr> ls_name = name, ls_address = ''10.0.0.1'', ls_addresses = [], ls_port = 443,
     ls_protocol = protocol, ls_hostnames = [], ls_attached_routes = [],
     ls_tls = Some \<lparr> tl_enabled = True, tl_passthrough = passthrough, tl_secret_refs = [''web/cert''], tl_sni_hosts = [],
       tl_min_version = [], tl_max_version = [], tl_frontend_validation = frontend \<rparr>,
     ls_backend_tls = None, ls_metadata = [] \<rparr>"

definition tls_snapshot :: "Listener list \<Rightarrow> Snapshot" where
  "tls_snapshot listeners = empty_snapshot\<lparr> sn_listeners := listeners,
     sn_secrets := [\<lparr> se_namespace = ''web'', se_name = ''cert'', se_cert_pem = ''C'', se_key_pem = ''K'', se_htpasswd = [],
       se_oidc_client_secret = [] \<rparr>] \<rparr>"

definition plain_certs :: "string CertLib" where
  "plain_certs = \<lparr> x5_stack_from_pem = (\<lambda>pem. Inr [pem]), x5_subject_alt_names = (\<lambda>_. None), x5_common_name = (\<lambda>_. Some ''shop.example''),
     x5_private_key_from_pem = (\<lambda>_. Inr ()) \<rparr>"

definition guarded_snapshot :: Snapshot where
  "guarded_snapshot = tls_snapshot
     [tls_listener ''a'' ''HTTPS'' False (Some \<lparr> fv_ca_pems = [''CA''], fv_mode = ''AllowValidOnly'' \<rparr>),
      tls_listener ''p'' ''TLS_PASSTHROUGH'' True None]"

definition guarded_bind :: PlannedSharedTlsBind where
  "guarded_bind = \<lparr> pb_bind = ''10.0.0.1:443'',
     pb_terminate = Some \<lparr> tf_listener_names = [''a''],
       tf_identities = [\<lparr> ti_secret_ref = ''web/cert'', ti_cert_pem = ''C'', ti_key_pem = ''K'', ti_match_names = [''shop.example''] \<rparr>],
       tf_frontend_validation_mode = Some ''AllowValidOnly'', tf_client_ca_bundle_pem = Some ''CA'' \<rparr>,
     pb_passthrough = Some \<lparr> pf_listener_names = [''p''] \<rparr> \<rparr>"

lemma guarded_plan: "build_listener_plan plain_certs guarded_snapshot True = Inr [(''10.0.0.1:443'', guarded_bind)]"
  by code_simp

theorem shared_tls_plan_complete_witness:
  "validation [(''10.0.0.1:443'', guarded_bind)] ''10.0.0.1:443'' = (Some ''AllowValidOnly'', Some ''CA'')"
proof -
  let ?a = "tls_listener ''a'' ''HTTPS'' False (Some \<lparr> fv_ca_pems = [''CA''], fv_mode = ''AllowValidOnly'' \<rparr>)"
  have "terminates plain_certs guarded_snapshot ?a" by code_simp
  moreover have "''10.0.0.1:443'' \<in> set (listener_bind_addrs ?a True)" by code_simp
  moreover have r: "requested_validation ?a = (Some ''AllowValidOnly'', Some ''CA'')" by code_simp
  moreover have "?a \<in> set (sn_listeners guarded_snapshot)" by (simp add: guarded_snapshot_def tls_snapshot_def)
  ultimately show ?thesis
    using shared_tls_plan_complete [OF guarded_plan, of "''10.0.0.1:443''"] by simp
qed

section \<open>A reload leaves the planned binds running\<close>

definition tasks_wf :: "SharedTlsBindSet \<Rightarrow> bool" where
  "tasks_wf tasks \<longleftrightarrow> distinct (map fst tasks)"

text \<open>An active bind is left alone when the plan has it unchanged, its task runs, and no reload is forced.\<close>

definition bind_kept :: "bool \<Rightarrow> string set \<Rightarrow> ListenerPlan \<Rightarrow> string \<times> PlannedSharedTlsBind \<Rightarrow> bool" where
  "bind_kept force_reload finished desired = (\<lambda>(b, a). \<not> force_reload \<and> b \<notin> finished \<and> map_of desired b = Some a)"

lemma update_binds_spec:
  "distinct (map fst active) \<Longrightarrow> update_binds force_reload finished active desired updates =
     (filter (\<lambda>(b, _). b \<notin> fst ` set active) desired,
      updates\<lparr> up_stop := up_stop updates @ map fst (filter (\<lambda>x. \<not> bind_kept force_reload finished desired x) active),
               up_start := up_start updates @ List.map_filter (\<lambda>x. map_of desired (fst x))
                 (filter (\<lambda>x. \<not> bind_kept force_reload finished desired x) active) \<rparr>)"
proof (induction active arbitrary: desired updates)
  case Nil
  then show ?case by (simp add: List.map_filter_def)
next
  case (Cons x active)
  obtain b a where x: "x = (b, a)" by (cases x)
  have other: "map_of (AList.delete b desired) c = map_of desired c" if "(c, d) \<in> set active" for c d
    using Cons.prems that x by (force simp: AList.delete_conv')
  have kept: "filter (\<lambda>y. \<not> bind_kept force_reload finished (AList.delete b desired) y) active =
      filter (\<lambda>y. \<not> bind_kept force_reload finished desired y) active"
    using other by (intro filter_cong) (auto simp: bind_kept_def)
  have starts: "List.map_filter (\<lambda>y. map_of (AList.delete b desired) (fst y)) (filter P active) =
      List.map_filter (\<lambda>y. map_of desired (fst y)) (filter P active)" for P
    unfolding List.map_filter_def using other by (auto intro!: map_cong filter_cong arg_cong [where f = the])
  have rest: "filter (\<lambda>(c, _). c \<notin> fst ` set active) (AList.delete b desired) = filter (\<lambda>(c, _). c \<notin> fst ` set (x # active)) desired"
    by (auto simp: AList.delete_eq x intro!: filter_cong)
  have "distinct (map fst active)" using Cons.prems by simp
  note IH = Cons.IH [OF this, of "AList.delete b desired", unfolded kept starts rest]
  have case_x: "bind_kept force_reload finished desired x \<longleftrightarrow> \<not> force_reload \<and> b \<notin> finished \<and> map_of desired b = Some a"
    by (simp add: bind_kept_def x)
  show ?case
    using case_x IH
    by (cases "map_of desired b"; cases force_reload; cases "b \<in> finished") (auto simp: x Let_def map_filter_simps)
qed

lemma start_binds_other:
  "b \<notin> pb_bind ` set ps \<Longrightarrow> map_of (snd (snd (start_binds spawn ps (f, st, tasks)))) b = map_of tasks b"
  by (induction ps arbitrary: f st tasks) (auto split: sum.split)

lemma start_binds_started:
  "p \<in> set ps \<Longrightarrow> distinct (map pb_bind ps) \<Longrightarrow>
   map_of (snd (snd (start_binds spawn ps (f, st, tasks)))) (pb_bind p) =
     (if isl (spawn p) then map_of tasks (pb_bind p) else Some \<lparr> bk_bind = p, bk_finished = False \<rparr>)"
proof (induction ps arbitrary: f st tasks)
  case (Cons q ps)
  show ?case
  proof (cases "p = q")
    case True
    then show ?thesis using Cons.prems by (auto simp: start_binds_other split: sum.split)
  next
    case False
    then have "p \<in> set ps" using Cons.prems(1) by simp
    moreover from imageI [OF this, of pb_bind] have "pb_bind p \<noteq> pb_bind q" using Cons.prems(2) by auto
    ultimately have "p \<in> set ps" "pb_bind p \<noteq> pb_bind q" .
    then show ?thesis using Cons.IH Cons.prems by (auto split: sum.split)
  qed
qed simp

lemma start_binds_wf: "tasks_wf tasks \<Longrightarrow> tasks_wf (snd (snd (start_binds spawn ps (f, st, tasks))))"
  by (induction ps arbitrary: f st tasks) (auto simp: tasks_wf_def split: sum.split)

lemma map_of_deletes: "map_of (foldl (\<lambda>m b. AList.delete b m) m bs) b = (if b \<in> set bs then None else map_of m b)"
  by (induction bs arbitrary: m) (auto simp: AList.delete_conv')

lemma distinct_deletes: "distinct (map fst m) \<Longrightarrow> distinct (map fst (foldl (\<lambda>m b. AList.delete b m) m bs))"
  by (induction bs arbitrary: m) (auto simp: AList.delete_eq distinct_map_filter)

lemma planned_keys:
  assumes "plan_wf desired"
  shows "map pb_bind (List.map_filter (\<lambda>x. map_of desired (fst x)) xs) = filter (\<lambda>b. map_of desired b \<noteq> None) (map fst xs)"
    and "map pb_bind (map snd (filter P desired)) = map fst (filter P desired)"
proof -
  show "map pb_bind (List.map_filter (\<lambda>x. map_of desired (fst x)) xs) = filter (\<lambda>b. map_of desired b \<noteq> None) (map fst xs)"
    using assms by (induction xs) (auto simp: map_filter_simps plan_wf_def split: option.splits)
  have "pb_bind p = b" if "(b, p) \<in> set desired" for b p
    using assms that by (auto simp: plan_wf_def)
  then show "map pb_bind (map snd (filter P desired)) = map fst (filter P desired)" by auto
qed

text \<open>Which binds a reload stops and starts.\<close>

lemma listener_updates_spec:
  fixes tasks plan force_reload
  defines "updates \<equiv> listener_updates (active_plan tasks) plan (finished_tasks tasks) force_reload"
    and "desired \<equiv> (case plan of None \<Rightarrow> [] | Some p \<Rightarrow> p)"
  assumes tasks: "tasks_wf tasks" and plan: "plan_wf desired"
  shows "b \<in> set (up_stop updates) \<longleftrightarrow>
      (\<exists>t. map_of tasks b = Some t \<and> (force_reload \<or> bk_finished t \<or> map_of desired b \<noteq> Some (bk_bind t)))"
    and "b \<in> pb_bind ` set (up_start updates) \<longleftrightarrow>
      map_of desired b \<noteq> None \<and> (map_of tasks b = None \<or> b \<in> set (up_stop updates))"
    and "distinct (map pb_bind (up_start updates))"
    and "p \<in> set (up_start updates) \<Longrightarrow> map_of desired (pb_bind p) = Some p"
proof -
  let ?kept = "bind_kept force_reload (finished_tasks tasks) desired" and ?active = "active_plan tasks"
  let ?new = "filter (\<lambda>(b, _). b \<notin> fst ` set ?active) desired"
  have keys: "map fst ?active = map fst tasks" by (simp add: active_plan_def split_beta comp_def)
  have d: "distinct (map fst ?active)" "distinct (map fst tasks)" using tasks by (simp_all add: keys tasks_wf_def)
  have active: "(c, a) \<in> set ?active \<longleftrightarrow> (\<exists>t. map_of tasks c = Some t \<and> a = bk_bind t)" for c a
    unfolding map_of_eq_Some_iff [OF d(2)] by (auto simp: active_plan_def)
  have dom: "c \<in> fst ` set ?active \<longleftrightarrow> map_of tasks c \<noteq> None" for c
    using keys by (metis list.set_map map_of_eq_None_iff)
  have fin: "c \<in> finished_tasks tasks \<longleftrightarrow> (\<exists>t. map_of tasks c = Some t \<and> bk_finished t)" for c
    unfolding map_of_eq_Some_iff [OF d(2)] by (auto simp: finished_tasks_def image_iff)
  have stop: "up_stop updates = map fst (filter (\<lambda>x. \<not> ?kept x) ?active)"
    and start: "up_start updates = List.map_filter (\<lambda>x. map_of desired (fst x)) (filter (\<lambda>x. \<not> ?kept x) ?active) @ map snd ?new"
    unfolding updates_def listener_updates_def desired_def [symmetric] update_binds_spec [OF d(1)] by simp_all
  have "b \<in> set (up_stop updates) \<longleftrightarrow> (\<exists>a. (b, a) \<in> set ?active \<and> \<not> ?kept (b, a))" for b
    unfolding stop by (auto simp: image_iff)
  then show s: "b \<in> set (up_stop updates) \<longleftrightarrow>
      (\<exists>t. map_of tasks b = Some t \<and> (force_reload \<or> bk_finished t \<or> map_of desired b \<noteq> Some (bk_bind t)))" for b
    unfolding active bind_kept_def prod.case fin by (cases "map_of tasks b") auto
  have skeys: "map pb_bind (up_start updates) = filter (\<lambda>b. map_of desired b \<noteq> None) (up_stop updates) @ map fst ?new"
    unfolding start stop map_append planned_keys [OF plan] ..
  have "set (map fst ?new) = {c. c \<in> fst ` set desired \<and> c \<notin> fst ` set ?active}" by (auto simp: image_iff)
  then have new: "set (map fst ?new) = {c. map_of desired c \<noteq> None \<and> map_of tasks c = None}"
    unfolding dom map_of_eq_None_iff by simp
  then show "b \<in> pb_bind ` set (up_start updates) \<longleftrightarrow>
      map_of desired b \<noteq> None \<and> (map_of tasks b = None \<or> b \<in> set (up_stop updates))"
    unfolding list.set_map [symmetric] skeys by auto
  show "distinct (map pb_bind (up_start updates))"
    unfolding skeys distinct_append
  proof (intro conjI)
    show "distinct (filter (\<lambda>b. map_of desired b \<noteq> None) (up_stop updates))" using d(1) by (simp add: stop distinct_map_filter)
    show "distinct (map fst ?new)" using plan by (simp add: plan_wf_def distinct_map_filter)
    show "set (filter (\<lambda>b. map_of desired b \<noteq> None) (up_stop updates)) \<inter> set (map fst ?new) = {}" unfolding new using s by auto
  qed
  show "map_of desired (pb_bind p) = Some p" if "p \<in> set (up_start updates)"
    using that plan unfolding start by (auto simp: List.map_filter_def plan_wf_def)
qed

text \<open>The binds that run after a reload: the planned ones, unless they were to be started and could not.\<close>

definition reload_goal ::
    "(PlannedSharedTlsBind \<Rightarrow> string + unit) \<Rightarrow> bool \<Rightarrow> SharedTlsBindSet \<Rightarrow> ListenerPlan \<Rightarrow> string \<Rightarrow> SharedTlsBindTask option" where
  "reload_goal spawn force_reload tasks desired b =
     (case map_of desired b of
        None \<Rightarrow> None
      | Some p \<Rightarrow>
          if \<not> force_reload \<and> map_of tasks b = Some \<lparr> bk_bind = p, bk_finished = False \<rparr> \<or> \<not> isl (spawn p)
          then Some \<lparr> bk_bind = p, bk_finished = False \<rparr> else None)"

lemma replace_binds_tasks:
  assumes tasks: "tasks_wf tasks" and plan: "plan_wf (case plan of None \<Rightarrow> [] | Some p \<Rightarrow> p)"
  shows "map_of (snd (replace_binds spawn tasks plan force_reload)) b =
      reload_goal spawn force_reload tasks (case plan of None \<Rightarrow> [] | Some p \<Rightarrow> p) b"
    and "tasks_wf (snd (replace_binds spawn tasks plan force_reload))"
proof -
  let ?desired = "case plan of None \<Rightarrow> [] | Some p \<Rightarrow> p"
  let ?updates = "listener_updates (active_plan tasks) plan (finished_tasks tasks) force_reload"
  let ?tasks = "foldl (\<lambda>tasks bind. AList.delete bind tasks) tasks (up_stop ?updates)"
  let ?after = "snd (snd (start_binds spawn (up_start ?updates) ([], [], ?tasks)))"
  note u = listener_updates_spec [OF tasks plan, where force_reload = force_reload]
  have after: "snd (replace_binds spawn tasks plan force_reload) = ?after"
    by (simp add: replace_binds_def Let_def split: prod.split)
  have "tasks_wf ?tasks" using tasks unfolding tasks_wf_def by (rule distinct_deletes)
  then show "tasks_wf (snd (replace_binds spawn tasks plan force_reload))" unfolding after by (rule start_binds_wf)
  show "map_of (snd (replace_binds spawn tasks plan force_reload)) b = reload_goal spawn force_reload tasks ?desired b"
  proof (cases "b \<in> pb_bind ` set (up_start ?updates)")
    case True
    then obtain p where p: "p \<in> set (up_start ?updates)" "b = pb_bind p" by auto
    have d: "map_of ?desired b = Some p" using u(4) [OF p(1)] p(2) by simp
    have gone: "map_of ?tasks b = None" using u(2) [of b] True unfolding map_of_deletes by auto
    have "map_of ?after b = (if isl (spawn p) then map_of ?tasks b else Some \<lparr> bk_bind = p, bk_finished = False \<rparr>)"
      unfolding p(2) by (rule start_binds_started [OF p(1) u(3)])
    moreover have "\<not> (\<not> force_reload \<and> map_of tasks b = Some \<lparr> bk_bind = p, bk_finished = False \<rparr>)"
      using u(1,2) [of b] True d by auto
    ultimately show ?thesis unfolding after gone reload_goal_def d option.case by auto
  next
    case False
    then have *: "map_of ?after b = (if b \<in> set (up_stop ?updates) then None else map_of tasks b)"
      by (simp add: start_binds_other map_of_deletes)
    show ?thesis
    proof (cases "map_of ?desired b")
      case None
      then show ?thesis unfolding after * using u(1) [of b] by (cases "map_of tasks b") (auto simp: reload_goal_def)
    next
      case (Some p)
      then obtain t where t: "map_of tasks b = Some t" "b \<notin> set (up_stop ?updates)" using u(2) [of b] False by auto
      then have "t = \<lparr> bk_bind = p, bk_finished = False \<rparr>" "\<not> force_reload" using u(1) [of b] Some by auto
      then show ?thesis unfolding after * using t by (simp add: reload_goal_def Some)
    qed
  qed
qed

lemma task_eq: "t = \<lparr> bk_bind = p, bk_finished = False \<rparr> \<longleftrightarrow> bk_bind t = p \<and> \<not> bk_finished t"
  by (cases t) simp

lemma some_member: "set xs \<noteq> {} \<or> set ys \<noteq> {} \<longleftrightarrow> (\<exists>b. b \<in> set ys \<or> b \<in> f ` set xs)"
  by (cases xs; cases ys) auto

lemma needs_reload_iff:
  assumes "tasks_wf tasks" and "plan_wf plan"
  shows "needs_reload tasks (Some plan) False \<longleftrightarrow>
    (\<exists>b. map_of tasks b \<noteq> map_option (\<lambda>p. \<lparr> bk_bind = p, bk_finished = False \<rparr>) (map_of plan b))"
proof -
  let ?updates = "listener_updates (active_plan tasks) (Some plan) (finished_tasks tasks) False"
  note u = listener_updates_spec [where plan = "Some plan" and force_reload = False, unfolded option.case, OF assms]
  have "needs_reload tasks (Some plan) False \<longleftrightarrow> set (up_start ?updates) \<noteq> {} \<or> set (up_stop ?updates) \<noteq> {}"
    by (simp add: needs_reload_def Let_def)
  then have "needs_reload tasks (Some plan) False \<longleftrightarrow> (\<exists>b. b \<in> set (up_stop ?updates) \<or> b \<in> pb_bind ` set (up_start ?updates))"
    unfolding some_member [where f = pb_bind] .
  moreover have "b \<in> set (up_stop ?updates) \<or> b \<in> pb_bind ` set (up_start ?updates) \<longleftrightarrow>
      map_of tasks b \<noteq> map_option (\<lambda>p. \<lparr> bk_bind = p, bk_finished = False \<rparr>) (map_of plan b)" for b
    unfolding u(2) unfolding u(1)
    by (cases "map_of tasks b"; cases "map_of plan b") (simp_all only: option.map task_eq option.inject, auto)
  ultimately show ?thesis by (simp only:)
qed

lemma built_plan_wf: "build_listener_plan lib snapshot enable_ipv6 = Inr binds \<Longrightarrow> plan_wf binds"
  using plan_listeners_effect(3) [of lib snapshot enable_ipv6 "sn_listeners snapshot" "[]" binds]
  by (simp add: build_listener_plan_def plan_wf_def)

lemma desired_plan_wf: "desired_listener_plan lib snapshot enable_ipv6 = Inr (Some plan) \<Longrightarrow> plan_wf plan"
  by (auto simp: desired_listener_plan_def built_plan_wf split: if_splits sum.splits)

text \<open>A plan that cannot be built leaves the running binds as they are, and every listener is reported.\<close>

lemma reload_error_keeps_binds:
  assumes "desired_listener_plan lib snapshot enable_ipv6 = Inl e"
  shows "reload_turn lib spawn snapshot enable_ipv6 force_reload tasks =
    (ReloadFailures (shared_tls_listener_failures snapshot (tls_error_message e)), tasks)"
proof -
  have "list_ex shared_tls_listener_protocol (sn_listeners snapshot)"
    using assms by (auto simp: desired_listener_plan_def split: if_splits)
  then have "shared_tls_listener_failures snapshot m \<noteq> []" for m
    by (auto simp: shared_tls_listener_failures_def list_ex_iff filter_empty_conv)
  then show ?thesis by (simp add: reload_turn_def assms)
qed

lemma no_entries: "(\<And>b. map_of xs b = None) \<Longrightarrow> xs = []"
  by (simp flip: map_of_eq_empty_iff add: fun_eq_iff)

text \<open>Without a plan every bind is stopped.\<close>

lemma reload_without_plan:
  assumes desired: "desired_listener_plan lib snapshot enable_ipv6 = Inr None" and tasks: "tasks_wf tasks"
  shows "snd (reload_turn lib spawn snapshot enable_ipv6 force_reload tasks) = []"
proof (cases "needs_reload tasks None force_reload")
  case True
  have "map_of (snd (replace_binds spawn tasks None force_reload)) b = None" for b
    using replace_binds_tasks(1) [OF tasks, of None spawn force_reload b] by (simp add: plan_wf_def reload_goal_def)
  then show ?thesis using True desired by (simp add: reload_turn_def no_entries)
next
  case False
  have "map_of tasks b = None" for b
    using listener_updates_spec(1) [where plan = None and force_reload = force_reload, OF tasks, of b] False
    by (cases "map_of tasks b") (auto simp: needs_reload_def plan_wf_def Let_def)
  then show ?thesis using False desired by (simp add: reload_turn_def no_entries)
qed

text \<open>
  C35. Mixed listeners, of protocol \<open>LISTENER_PROTOCOL_TLS\<close>, are served only beside other TLS listeners. When no listener of the
  snapshot has one of the other TLS protocols (there may be any number of listeners without TLS), a turn of
  the reload loop has no plan, stops every bind that runs, and with none running reports nothing; yet the plan, if it
  were built, would have each mixed listener on each of its addresses, passed through and, with a certificate, terminated.
\<close>

theorem mixed_listeners_not_served:
  assumes "\<forall>l \<in> set (sn_listeners snapshot). ls_protocol l \<notin>
      {''LISTENER_PROTOCOL_HTTPS'', ''HTTPS'', ''LISTENER_PROTOCOL_TLS_PASSTHROUGH'', ''TLS_PASSTHROUGH'', ''TLS''}"
    and "distinct (map fst tasks)" and "build_listener_plan lib snapshot enable_ipv6 = Inr binds"
  shows "desired_listener_plan lib snapshot enable_ipv6 = Inr None
    \<and> snd (reload_turn lib spawn snapshot enable_ipv6 force_reload tasks) = []
    \<and> reload_turn lib spawn snapshot enable_ipv6 force_reload [] = (ReloadQuiet, [])
    \<and> (\<forall>l \<in> set (sn_listeners snapshot). is_mixed_tls_listener l \<longrightarrow> b \<in> set (listener_bind_addrs l enable_ipv6) \<longrightarrow>
        ls_name l \<in> set (passthrough_names binds b)
        \<and> (\<forall>i is. resolve_tls_identities lib l snapshot = Inr (i # is) \<longrightarrow> ls_name l \<in> set (terminate_names binds b)))"
proof -
  have n: "\<not> list_ex shared_tls_listener_protocol (sn_listeners snapshot)"
    using assms(1) by (auto simp: list_ex_iff shared_tls_listener_protocol_def)
  then have d: "desired_listener_plan lib snapshot enable_ipv6 = Inr None" by (simp add: desired_listener_plan_def)
  have p: "plan_listeners lib snapshot enable_ipv6 (sn_listeners snapshot) [] = Inr binds"
    using assms(3) by (simp add: build_listener_plan_def)
  have "reload_turn lib spawn snapshot enable_ipv6 force_reload [] = (ReloadQuiet, [])"
    using n d by (simp add: reload_turn_def needs_reload_def listener_updates_def active_plan_def Let_def)
  then show ?thesis
    using d reload_without_plan [OF d, of tasks spawn force_reload] assms(2) plan_listeners_effect(1,2) [OF p, of b]
    by (auto simp: tasks_wf_def passes_through_def terminates_def)
qed

definition mixed_snapshot :: Snapshot where
  "mixed_snapshot = tls_snapshot [tls_listener ''m'' ''LISTENER_PROTOCOL_TLS'' False None, (tls_listener ''h'' ''HTTP'' False None)\<lparr> ls_port := 80 \<rparr>]"

theorem mixed_listeners_not_served_witness:
  "desired_listener_plan plain_certs mixed_snapshot True = Inr None
   \<and> snd (reload_turn plain_certs (\<lambda>_. Inr ()) mixed_snapshot True False [(''10.0.0.1:443'', \<lparr> bk_bind = guarded_bind, bk_finished = False \<rparr>)]) = []
   \<and> (\<exists>binds. build_listener_plan plain_certs mixed_snapshot True = Inr binds \<and> ''m'' \<in> set (passthrough_names binds ''10.0.0.1:443''))"
proof -
  let ?m = "tls_listener ''m'' ''LISTENER_PROTOCOL_TLS'' False None"
  have "\<not> isl (build_listener_plan plain_certs mixed_snapshot True)" by code_simp
  then obtain binds where b: "build_listener_plan plain_certs mixed_snapshot True = Inr binds"
    by (cases "build_listener_plan plain_certs mixed_snapshot True") auto
  have p: "\<forall>l \<in> set (sn_listeners mixed_snapshot). ls_protocol l \<notin>
      {''LISTENER_PROTOCOL_HTTPS'', ''HTTPS'', ''LISTENER_PROTOCOL_TLS_PASSTHROUGH'', ''TLS_PASSTHROUGH'', ''TLS''}"
    by (simp add: mixed_snapshot_def tls_snapshot_def tls_listener_def)
  have m: "?m \<in> set (sn_listeners mixed_snapshot)" "is_mixed_tls_listener ?m" "ls_name ?m = ''m''"
    by (simp_all add: mixed_snapshot_def tls_snapshot_def tls_listener_def is_mixed_tls_listener_def tls_mode_is_def)
  have a: "''10.0.0.1:443'' \<in> set (listener_bind_addrs ?m True)" by code_simp
  have "distinct (map fst [(''10.0.0.1:443'', \<lparr> bk_bind = guarded_bind, bk_finished = False \<rparr>)])" by simp
  from mixed_listeners_not_served [OF p this b, of "\<lambda>_. Inr ()" False "''10.0.0.1:443''"] m a b
  show ?thesis by metis
qed

text \<open>
  C15. A turn of the reload loop with a plan leaves exactly the planned binds running, whatever ran before: a bind
  that is not in the plan is stopped, a planned one runs as planned unless it had to be started and could not, and
  a bind that runs as planned is not restarted unless a reload is forced. When every bind can be opened, the next turn
  with the same plan changes nothing.
\<close>

theorem reload_reaches_plan:
  assumes "desired_listener_plan lib snapshot enable_ipv6 = Inr (Some plan)" and "distinct (map fst tasks)"
    and "reload_turn lib spawn snapshot enable_ipv6 force_reload tasks = (report, tasks')"
  shows "map_of tasks' b =
      (case map_of plan b of
         None \<Rightarrow> None
       | Some p \<Rightarrow>
           if \<not> force_reload \<and> map_of tasks b = Some \<lparr> bk_bind = p, bk_finished = False \<rparr> \<or> \<not> isl (spawn p)
           then Some \<lparr> bk_bind = p, bk_finished = False \<rparr> else None)
    \<and> ((\<forall>p. \<not> isl (spawn p)) \<longrightarrow> \<not> needs_reload tasks' (Some plan) False)"
proof -
  have wf: "tasks_wf tasks" "plan_wf plan" using assms(2) desired_plan_wf [OF assms(1)] by (simp_all add: tasks_wf_def)
  note r = replace_binds_tasks [OF wf(1), of "Some plan", unfolded option.case, OF wf(2)]
  have "tasks' = (if needs_reload tasks (Some plan) force_reload then snd (replace_binds spawn tasks (Some plan) force_reload) else tasks)"
    using assms(3)
    by (cases "replace_binds spawn tasks (Some plan) force_reload") (auto simp: reload_turn_def assms(1) split: if_splits)
  moreover have "snd (replace_binds spawn tasks (Some plan) force_reload) = tasks" if "\<not> needs_reload tasks (Some plan) force_reload"
    using that by (simp add: needs_reload_def replace_binds_def Let_def)
  ultimately have t: "tasks' = snd (replace_binds spawn tasks (Some plan) force_reload)" by simp
  have w: "tasks_wf tasks'" unfolding t by (rule r(2))
  have "map_of tasks' b = reload_goal spawn force_reload tasks plan b" for b unfolding t by (rule r(1))
  moreover have "\<not> needs_reload tasks' (Some plan) False" if "\<forall>p. \<not> isl (spawn p)"
    unfolding needs_reload_iff [OF w wf(2)] using that calculation by (simp add: reload_goal_def split: option.split)
  ultimately show ?thesis by (simp add: reload_goal_def)
qed

theorem reload_reaches_plan_witness:
  "snd (reload_turn plain_certs (\<lambda>_. Inr ()) guarded_snapshot True False []) \<noteq> [] \<and>
   \<not> needs_reload (snd (reload_turn plain_certs (\<lambda>_. Inr ()) guarded_snapshot True False [])) (Some [(''10.0.0.1:443'', guarded_bind)]) False"
proof -
  have d: "desired_listener_plan plain_certs guarded_snapshot True = Inr (Some [(''10.0.0.1:443'', guarded_bind)])"
    by (simp add: desired_listener_plan_def guarded_plan)
      (simp add: guarded_snapshot_def tls_snapshot_def tls_listener_def shared_tls_listener_protocol_def)
  obtain report tasks' where r: "reload_turn plain_certs (\<lambda>_. Inr ()) guarded_snapshot True False [] = (report, tasks')" by (rule prod.exhaust)
  have "map_of tasks' ''10.0.0.1:443'' \<noteq> None" "\<not> needs_reload tasks' (Some [(''10.0.0.1:443'', guarded_bind)]) False"
    using reload_reaches_plan [OF d _ r, of "''10.0.0.1:443''"] by simp_all
  then show ?thesis unfolding r snd_conv by (intro conjI) (auto)
qed

end
