(* ===== verification/Tls_Selection.thy ===== *)
theory Tls_Selection
  imports Tls_Plan Cors "HOL-Library.Multiset"
begin

text \<open>
  A connection to a shared TLS bind, \<open>ntgw-shared-tls/src/runtime/selection.incl.rs\<close>, \<open>handle_connection\<close> of \<open>binds.incl.rs\<close> and
  the choice of certificates of \<open>handshake.rs\<close>: which listener the server name of the client selects on each surface,
  whether the connection is passed through, terminated or refused, and in which order the certificates are tried. The
  lemmas show that the listener is the first best of its surface, and that certificates are tried exact names first.
\<close>

section \<open>Server names\<close>

text \<open>A score is its rank and its length, compared in this order.\<close>

type_synonym TlsListenerScore = "nat \<times> nat"

record SharedTlsListenerMatch =
  lm_listener_name :: string
  lm_tls_score :: TlsListenerScore
  lm_has_route :: bool

definition tls_hostname_matches :: "string \<Rightarrow> string \<Rightarrow> bool" where
  "tls_hostname_matches pattern host =
     (let pattern = normalize_tls_server_name pattern; host = normalize_tls_server_name host in
      if pattern = [] \<or> host = [] then False
      else if pattern = host then True
      else case strip_prefix ''*.'' pattern of
        None \<Rightarrow> False
      | Some suffix \<Rightarrow>
          host \<noteq> suffix \<and> ends_with host suffix
          \<and> nth_opt host (length host - (length suffix + 1)) = Some CHR ''.'')"

definition tls_hostname_match_score :: "string \<Rightarrow> string \<Rightarrow> TlsListenerScore option" where
  "tls_hostname_match_score pattern server_name =
     (let normalized = normalize_tls_server_name pattern in
      if normalized = [] then None
      else case strip_prefix ''*.'' normalized of
        Some suffix \<Rightarrow> if tls_hostname_matches normalized server_name then Some (1, length suffix) else None
      | None \<Rightarrow> if normalized = server_name then Some (2, length normalized) else None)"

definition tls_route_hostnames_match :: "string list \<Rightarrow> string option \<Rightarrow> bool" where
  "tls_route_hostnames_match hostnames server_name =
     (if hostnames = [] then True
      else case map_option normalize_tls_server_name server_name of
        None \<Rightarrow> False
      | Some server_name \<Rightarrow> server_name \<noteq> [] \<and> list_ex (\<lambda>hostname. tls_hostname_matches hostname server_name) hostnames)"

definition tls_listener_hostname_score :: "string list \<Rightarrow> string option \<Rightarrow> TlsListenerScore option" where
  "tls_listener_hostname_score hostnames server_name =
     (if hostnames = [] then Some (0, 0)
      else case server_name of
        None \<Rightarrow> None
      | Some server_name \<Rightarrow>
          let server_name = normalize_tls_server_name server_name in
          if server_name = [] then None
          else max_by (\<lambda>score. score) (List.map_filter (\<lambda>hostname. tls_hostname_match_score hostname server_name) hostnames))"

section \<open>Routes of a listener\<close>

definition stream_rule_matches_listener_with_mode :: "StreamMatch list \<Rightarrow> u32 \<Rightarrow> string option \<Rightarrow> TlsRouteMode \<Rightarrow> bool" where
  "stream_rule_matches_listener_with_mode matches listener_port server_name mode =
     (if matches = [] then mode = Passthrough
      else list_ex (\<lambda>item.
        if sm_mode item \<noteq> mode then False
        else if sm_port item \<noteq> 0 \<and> sm_port item \<noteq> listener_port then False
        else if sm_sni_hostname item = [] then True
        else tls_route_hostnames_match [sm_sni_hostname item] server_name) matches)"

definition listener_has_matching_tls_route_with_mode :: "Snapshot \<Rightarrow> Listener \<Rightarrow> string option \<Rightarrow> TlsRouteMode \<Rightarrow> bool" where
  "listener_has_matching_tls_route_with_mode snapshot listener server_name mode =
     list_ex (\<lambda>route_key. list_ex (\<lambda>route.
         route_key = sroute_namespace route @ ''/'' @ sroute_name route
         \<and> sroute_kind route \<in> set [''ROUTE_KIND_TLS'', ''TLS'', ''TLSRoute'', ''ROUTE_KIND_TLSROUTE'']
         \<and> list_ex (\<lambda>rule. stream_rule_matches_listener_with_mode (sr_matches rule) (ls_port listener) server_name mode) (sroute_rules route))
       (sn_stream_routes snapshot)) (ls_attached_routes listener)"

definition listener_has_matching_passthrough_tls_route :: "Snapshot \<Rightarrow> Listener \<Rightarrow> string option \<Rightarrow> bool" where
  "listener_has_matching_passthrough_tls_route snapshot listener server_name =
     listener_has_matching_tls_route_with_mode snapshot listener server_name Passthrough"

definition listener_has_matching_terminated_tls_route :: "Snapshot \<Rightarrow> Listener \<Rightarrow> string option \<Rightarrow> bool" where
  "listener_has_matching_terminated_tls_route snapshot listener server_name =
     listener_has_matching_tls_route_with_mode snapshot listener server_name Terminate"

definition listener_has_matching_http_route :: "Snapshot \<Rightarrow> Listener \<Rightarrow> string option \<Rightarrow> bool" where
  "listener_has_matching_http_route snapshot listener server_name =
     list_ex (\<lambda>route_key. list_ex (\<lambda>route.
         route_key = hroute_namespace route @ ''/'' @ hroute_name route
         \<and> tls_route_hostnames_match (hroute_hostnames route) server_name)
       (sn_http_routes snapshot)) (ls_attached_routes listener)"

definition listener_has_matching_terminate_route :: "Snapshot \<Rightarrow> Listener \<Rightarrow> string option \<Rightarrow> bool" where
  "listener_has_matching_terminate_route snapshot listener server_name \<longleftrightarrow>
     listener_has_matching_http_route snapshot listener server_name
     \<or> listener_has_matching_terminated_tls_route snapshot listener server_name"

section \<open>Selecting a listener\<close>

definition consider_listener ::
    "Snapshot \<Rightarrow> string option \<Rightarrow> (Snapshot \<Rightarrow> Listener \<Rightarrow> string option \<Rightarrow> bool) \<Rightarrow>
     SharedTlsListenerMatch option \<Rightarrow> string \<Rightarrow> SharedTlsListenerMatch option" where
  "consider_listener snapshot server_name has_matching_route selected listener_name =
     (case find (\<lambda>listener. ls_name listener = listener_name) (sn_listeners snapshot) of
        None \<Rightarrow> selected
      | Some listener \<Rightarrow>
          (case tls_listener_hostname_score (ls_hostnames listener) server_name of
             None \<Rightarrow> selected
           | Some score \<Rightarrow>
               let has_route = has_matching_route snapshot listener server_name in
               if (case selected of
                     None \<Rightarrow> False
                   | Some current \<Rightarrow>
                       lm_tls_score current > score \<or> (lm_tls_score current = score \<and> (lm_has_route current \<or> \<not> has_route)))
               then selected
               else Some \<lparr> lm_listener_name = ls_name listener, lm_tls_score = score, lm_has_route = has_route \<rparr>))"

definition select_listener_match ::
    "Snapshot \<Rightarrow> string list \<Rightarrow> string option \<Rightarrow> (Snapshot \<Rightarrow> Listener \<Rightarrow> string option \<Rightarrow> bool) \<Rightarrow> SharedTlsListenerMatch option" where
  "select_listener_match snapshot listener_names server_name has_matching_route =
     foldl (consider_listener snapshot server_name has_matching_route) None listener_names"

definition select_shared_tls_listeners ::
    "Snapshot \<Rightarrow> string list \<Rightarrow> string list \<Rightarrow> string option \<Rightarrow> SharedTlsListenerMatch option \<times> SharedTlsListenerMatch option" where
  "select_shared_tls_listeners snapshot passthrough_listener_names terminate_listener_names server_name =
     (select_listener_match snapshot passthrough_listener_names server_name listener_has_matching_passthrough_tls_route,
      select_listener_match snapshot terminate_listener_names server_name listener_has_matching_terminate_route)"

definition terminate_match_uses_tls_stream_route :: "Snapshot \<Rightarrow> string \<Rightarrow> string option \<Rightarrow> bool" where
  "terminate_match_uses_tls_stream_route snapshot listener_name server_name =
     (case find (\<lambda>listener. ls_name listener = listener_name) (sn_listeners snapshot) of
        None \<Rightarrow> False
      | Some listener \<Rightarrow> listener_has_matching_terminated_tls_route snapshot listener server_name)"

section \<open>Connections\<close>

text \<open>What becomes of a connection; \<open>handshake\<close> is the answer of the TLS handshake.\<close>

datatype ConnectionFate =
    PassedThrough string
  | TerminatedStream string
  | TerminatedHttp
  | ConnectionRefused SharedTlsError

definition server_name_text :: "string option \<Rightarrow> string" where
  "server_name_text server_name = (case server_name of None \<Rightarrow> [] | Some s \<Rightarrow> s)"

definition handle_connection ::
    "PlannedSharedTlsBind \<Rightarrow> Snapshot \<Rightarrow> string option \<Rightarrow> SharedTlsError + unit \<Rightarrow> ConnectionFate" where
  "handle_connection bind snapshot server_name handshake =
     (case select_shared_tls_listeners snapshot
             (case pb_passthrough bind of None \<Rightarrow> [] | Some passthrough \<Rightarrow> pf_listener_names passthrough)
             (case pb_terminate bind of None \<Rightarrow> [] | Some terminate \<Rightarrow> tf_listener_names terminate) server_name of
        (passthrough_match, terminate_match) \<Rightarrow>
          let terminate_has_better_route = (\<lambda>listener_match. case terminate_match of
                None \<Rightarrow> False
              | Some candidate \<Rightarrow> lm_has_route candidate \<and> lm_tls_score candidate \<ge> lm_tls_score listener_match);
              pass = (case passthrough_match of
                None \<Rightarrow> None
              | Some listener_match \<Rightarrow>
                  if lm_has_route listener_match \<or> \<not> terminate_has_better_route listener_match
                  then Some (lm_listener_name listener_match) else None)
          in case pass of
               Some listener_name \<Rightarrow> PassedThrough listener_name
             | None \<Rightarrow>
                 if pb_terminate bind = None
                 then ConnectionRefused (Bind (''no terminate surface for bind '' @ pb_bind bind))
                 else if pb_passthrough bind \<noteq> None \<and> \<not> (case terminate_match of None \<Rightarrow> False | Some item \<Rightarrow> lm_has_route item)
                 then ConnectionRefused (Handshake (''no shared tls listener route matched SNI '' @ server_name_text server_name
                        @ '' on bind '' @ pb_bind bind))
                 else if pb_passthrough bind = None \<and> terminate_match = None
                 then ConnectionRefused (Handshake (''no terminate listener matched SNI '' @ server_name_text server_name
                        @ '' on bind '' @ pb_bind bind))
                 else case handshake of
                   Inl e \<Rightarrow> ConnectionRefused e
                 | Inr _ \<Rightarrow>
                     (case terminate_match of
                        Some listener_match \<Rightarrow>
                          if terminate_match_uses_tls_stream_route snapshot (lm_listener_name listener_match) server_name
                          then TerminatedStream (lm_listener_name listener_match) else TerminatedHttp
                      | None \<Rightarrow> TerminatedHttp))"

section \<open>Certificates\<close>

definition strip_suffix_str :: "string \<Rightarrow> string \<Rightarrow> string option" where
  "strip_suffix_str suffix s = (if ends_with s suffix then Some (take (length s - length suffix) s) else None)"

definition wildcard_hostname_matches :: "string \<Rightarrow> string \<Rightarrow> bool" where
  "wildcard_hostname_matches pattern host =
     (case strip_prefix ''*.'' pattern of
        None \<Rightarrow> False
      | Some suffix \<Rightarrow>
          if host = suffix \<or> \<not> ends_with host suffix then False
          else case Option.bind (strip_suffix_str suffix host) (strip_suffix_str ''.'') of
            None \<Rightarrow> False
          | Some prefix \<Rightarrow> prefix \<noteq> [] \<and> CHR ''.'' \<notin> set prefix)"

fun match_rank :: "string list \<Rightarrow> string \<Rightarrow> nat option \<Rightarrow> nat option" where
  "match_rank [] normalized best = best"
| "match_rank (pattern # patterns) normalized best =
     (if pattern = normalized then Some 2
      else match_rank patterns normalized
        (if wildcard_hostname_matches pattern normalized then Some (case best of None \<Rightarrow> 1 | Some b \<Rightarrow> b) else best))"

definition tls_identity_match_rank :: "SharedTlsIdentity \<Rightarrow> string \<Rightarrow> nat option" where
  "tls_identity_match_rank identity server_name =
     match_rank (ti_match_names identity) (normalize_tls_server_name server_name) None"

text \<open>The comparison of \<open>sort_by\<close>: rank downwards, then index; the sort is stable, as \<open>sort_key\<close> is.\<close>

definition ordered_tls_identity_candidates :: "SharedTlsIdentity list \<Rightarrow> string option \<Rightarrow> SharedTlsIdentity list" where
  "ordered_tls_identity_candidates identities server_name =
     (let rank = (\<lambda>identity. Option.bind server_name (tls_identity_match_rank identity));
          scored = List.map_filter (\<lambda>(index, identity). map_option (\<lambda>r. (r, index, identity)) (rank identity)) (enumerate 0 identities);
          fallback = filter (\<lambda>identity. rank identity = None) identities
      in map (\<lambda>(r, index, identity). identity) (sort_key (\<lambda>(r, index, identity). (- int r, index)) scored) @ fallback)"

text \<open>\<open>certificate_callback\<close>: the first certificate that can be applied.\<close>

definition certificate_callback :: "(SharedTlsIdentity \<Rightarrow> bool) \<Rightarrow> SharedTlsIdentity list \<Rightarrow> string option \<Rightarrow> SharedTlsIdentity option" where
  "certificate_callback applies identities server_name = find applies (ordered_tls_identity_candidates identities server_name)"

section \<open>The selected listener is the first best\<close>

definition listener_candidate ::
    "Snapshot \<Rightarrow> string option \<Rightarrow> (Snapshot \<Rightarrow> Listener \<Rightarrow> string option \<Rightarrow> bool) \<Rightarrow> string \<Rightarrow> SharedTlsListenerMatch option" where
  "listener_candidate snapshot server_name has_matching_route name =
     Option.bind (find (\<lambda>listener. ls_name listener = name) (sn_listeners snapshot)) (\<lambda>listener.
       map_option (\<lambda>score. \<lparr> lm_listener_name = ls_name listener, lm_tls_score = score,
           lm_has_route = has_matching_route snapshot listener server_name \<rparr>)
         (tls_listener_hostname_score (ls_hostnames listener) server_name))"

definition match_key :: "SharedTlsListenerMatch \<Rightarrow> TlsListenerScore \<times> bool" where
  "match_key m = (lm_tls_score m, lm_has_route m)"

lemma consider_listener_keep:
  "consider_listener snapshot server_name has selected name =
     (case listener_candidate snapshot server_name has name of None \<Rightarrow> selected | Some m \<Rightarrow> keep_better match_key selected m)"
  by (cases "find (\<lambda>listener. ls_name listener = name) (sn_listeners snapshot)")
    (auto simp: consider_listener_def listener_candidate_def keep_better_def match_key_def Let_def less_le split: option.split)

definition best_listener ::
    "Snapshot \<Rightarrow> string list \<Rightarrow> string option \<Rightarrow> (Snapshot \<Rightarrow> Listener \<Rightarrow> string option \<Rightarrow> bool) \<Rightarrow> SharedTlsListenerMatch option" where
  "best_listener snapshot names server_name has = first_max match_key (List.map_filter (listener_candidate snapshot server_name has) names)"

text \<open>The listener selected on a surface is the first of the highest score, with a route if one of that score has one.\<close>

lemma select_listener_match_best: "select_listener_match snapshot names server_name has = best_listener snapshot names server_name has"
proof -
  have "foldl (consider_listener snapshot server_name has) best names =
      foldl (keep_better match_key) best (List.map_filter (listener_candidate snapshot server_name has) names)" for best
    by (induction names arbitrary: best) (auto simp: map_filter_simps consider_listener_keep split: option.split)
  then show ?thesis by (simp add: select_listener_match_def foldl_keep_better best_listener_def)
qed

lemma best_listener_Nil [simp]: "best_listener snapshot [] server_name has = None"
  by (simp add: best_listener_def List.map_filter_def)

text \<open>
  A connection that is passed through goes to the best passthrough listener of the bind, one that is terminated
  as a stream to the best terminating one; where both surfaces share a bind, nothing is terminated for a name without a route.
\<close>

lemma passed_through_to_best:
  assumes "handle_connection bind snapshot server_name handshake = PassedThrough name"
  shows "\<exists>p m. pb_passthrough bind = Some p \<and> lm_listener_name m = name
    \<and> best_listener snapshot (pf_listener_names p) server_name listener_has_matching_passthrough_tls_route = Some m"
  using assms
  by (auto simp: handle_connection_def select_shared_tls_listeners_def select_listener_match_best Let_def split: option.splits if_splits sum.splits)

lemma terminated_by_best:
  assumes "handle_connection bind snapshot server_name handshake = TerminatedStream name \<or>
    handle_connection bind snapshot server_name handshake = TerminatedHttp"
  shows "\<exists>t m. pb_terminate bind = Some t \<and> (pb_passthrough bind \<noteq> None \<longrightarrow> lm_has_route m)
    \<and> best_listener snapshot (tf_listener_names t) server_name listener_has_matching_terminate_route = Some m
    \<and> (handle_connection bind snapshot server_name handshake = TerminatedStream name \<longrightarrow> lm_listener_name m = name)"
  using assms
  by (auto simp: handle_connection_def select_shared_tls_listeners_def select_listener_match_best Let_def split: option.splits if_splits sum.splits)

text \<open>
  A passthrough listener with a route takes the connection even from a terminating listener of the bind that has a route
  for exactly this server name: the better score counts only when the passthrough listener has no route.
\<close>

definition named_listener :: "string \<Rightarrow> string \<Rightarrow> bool \<Rightarrow> string \<Rightarrow> string \<Rightarrow> Listener" where
  "named_listener name protocol passthrough hostname route =
     (tls_listener name protocol passthrough None)\<lparr> ls_hostnames := [hostname], ls_attached_routes := [route] \<rparr>"

definition shared_snapshot :: Snapshot where
  "shared_snapshot = (tls_snapshot
     [named_listener ''p'' ''TLS_PASSTHROUGH'' True ''*.shop.example'' ''web/raw'',
      named_listener ''h'' ''HTTPS'' False ''pay.shop.example'' ''web/pay''])
     \<lparr> sn_stream_routes := [\<lparr> sroute_name = ''raw'', sroute_namespace = ''web'', sroute_kind = ''TLS'', sroute_parent_refs = [],
         sroute_rules = [\<lparr> sr_name = [], sr_matches = [], sr_backend_refs = [] \<rparr>], sroute_labels = [], sroute_annotations = [] \<rparr>],
       sn_http_routes := [sample_route ''pay'' [''pay.shop.example''] []] \<rparr>"

definition shared_bind :: PlannedSharedTlsBind where
  "shared_bind = guarded_bind
     \<lparr> pb_terminate := Some \<lparr> tf_listener_names = [''h''], tf_identities = [], tf_frontend_validation_mode = None, tf_client_ca_bundle_pem = None \<rparr>,
       pb_passthrough := Some \<lparr> pf_listener_names = [''p''] \<rparr> \<rparr>"

lemma passthrough_shadows_exact_name:
  "handle_connection shared_bind shared_snapshot (Some ''pay.shop.example'') (Inr ()) = PassedThrough ''p''
   \<and> select_listener_match shared_snapshot [''p''] (Some ''pay.shop.example'') listener_has_matching_passthrough_tls_route =
       Some \<lparr> lm_listener_name = ''p'', lm_tls_score = (1, 12), lm_has_route = True \<rparr>
   \<and> map_option lm_tls_score (select_listener_match shared_snapshot [''h''] (Some ''pay.shop.example'') listener_has_matching_terminate_route) = Some (2, 16)"
  by code_simp

section \<open>Certificates are tried exact names first\<close>

lemma match_rank_cases: "best \<in> {None, Some 1} \<Longrightarrow> match_rank patterns normalized best \<in> {None, Some 1, Some 2}"
proof (induction patterns arbitrary: best)
  case (Cons p patterns)
  show ?case using Cons.IH [of None] Cons.IH [of "Some 1"] Cons.prems by auto
qed auto

fun ranked :: "('a \<Rightarrow> nat option) \<Rightarrow> nat \<Rightarrow> 'a list \<Rightarrow> (nat \<times> nat \<times> 'a) list" where
  "ranked rank n [] = []"
| "ranked rank n (x # xs) = (case rank x of None \<Rightarrow> ranked rank (Suc n) xs | Some r \<Rightarrow> (r, n, x) # ranked rank (Suc n) xs)"

lemma ranked_enumerate:
  "List.map_filter (\<lambda>(index, x). map_option (\<lambda>r. (r, index, x)) (rank x)) (enumerate n xs) = ranked rank n xs"
  by (induction xs arbitrary: n) (auto simp: map_filter_simps split: option.split)

lemma ranked_members: "t \<in> set (ranked rank n xs) \<Longrightarrow> n \<le> fst (snd t) \<and> rank (snd (snd t)) = Some (fst t)"
proof (induction xs arbitrary: n)
  case (Cons x xs)
  show ?case using Cons.IH [of "Suc n"] Cons.prems by (cases "rank x") auto
qed simp

lemma ranked_indices: "sorted_wrt (\<lambda>a b. fst (snd a) < fst (snd b)) (ranked rank n xs)"
proof (induction xs arbitrary: n)
  case (Cons x xs)
  have "n < fst (snd t)" if "t \<in> set (ranked rank (Suc n) xs)" for t using ranked_members [OF that] by simp
  then show ?case using Cons.IH [of "Suc n"] by (cases "rank x") auto
qed simp

lemma ranked_of_rank: "map (snd \<circ> snd) (filter (\<lambda>t. fst t = r) (ranked rank n xs)) = filter (\<lambda>x. rank x = Some r) xs"
  by (induction xs arbitrary: n) (auto split: option.split)

text \<open>
  The certificates of a handshake are tried in this order: those with the server name itself, then those with a wildcard of it, then
  the others, each group in the order of the configuration. No certificate is tried before one that matches
  better.
\<close>

lemma certificates_ordered:
  "ordered_tls_identity_candidates identities server_name =
     (let rank = (\<lambda>identity. Option.bind server_name (tls_identity_match_rank identity))
      in filter (\<lambda>x. rank x = Some 2) identities @ filter (\<lambda>x. rank x = Some 1) identities @ filter (\<lambda>x. rank x = None) identities)"
proof -
  define rank where "rank = (\<lambda>identity. Option.bind server_name (tls_identity_match_rank identity))"
  define key where "key = (\<lambda>(r, index, identity :: SharedTlsIdentity). (- int r, index :: nat))"
  let ?xs = "ranked rank 0 identities"
  let ?ys = "filter (\<lambda>t. fst t = 2) ?xs @ filter (\<lambda>t. fst t = 1) ?xs"
  have two: "fst t = 1 \<or> fst t = 2" if t: "t \<in> set ?xs" for t
    using ranked_members [OF t] match_rank_cases [of None "ti_match_names (snd (snd t))" "normalize_tls_server_name (the server_name)"]
    by (cases server_name) (auto simp: rank_def tls_identity_match_rank_def)
  have "filter (\<lambda>t. fst t = 1) ?xs = filter (\<lambda>t. fst t \<noteq> 2) ?xs" using two by (intro filter_cong) auto
  then have perm: "mset ?xs = mset ?ys" by simp
  have idx: "sorted_wrt (\<lambda>a b. fst (snd a) < fst (snd b)) (filter P ?xs)" for P by (intro sorted_wrt_filter ranked_indices)
  have part: "sorted_wrt (\<lambda>a b. key a < key b) (filter (\<lambda>t. fst t = r) ?xs)" for r
    using idx [of "\<lambda>t. fst t = r"] by (rule sorted_wrt_mono_rel [rotated]) (auto simp: key_def)
  have "sorted_wrt (\<lambda>a b. key a < key b) ?ys"
    unfolding sorted_wrt_append using part by (auto simp: key_def)
  then have strict: "sorted_wrt (<) (map key ?ys)" by (simp only: sorted_wrt_map)
  have "sort_key key ?xs = ?ys"
  proof (rule sort_key_inj_key_eq [OF perm])
    show "sorted (map key ?ys)" using strict by (rule strict_sorted_imp_sorted)
    have "distinct (map key ?ys)" using strict unfolding strict_sorted_iff by (rule conjunct2)
    then have "inj_on key (set ?ys)" unfolding distinct_map by (rule conjunct2)
    then show "inj_on key (set ?xs)" unfolding mset_eq_setD [OF perm] .
  qed
  then show ?thesis
    using ranked_of_rank [of 2 rank 0 identities] ranked_of_rank [of 1 rank 0 identities]
    by (simp add: ordered_tls_identity_candidates_def rank_def [symmetric] ranked_enumerate [simplified case_prod_unfold prod.collapse] Let_def
        key_def case_prod_unfold comp_def)
qed

end
