(* ===== verification/Spec2Isabelle.thy ===== *)
theory Spec2Isabelle
  imports Shadowed_Weights Routing_Properties Snapshot_Signal Runtime_Refinement Rate_Limit Retry_Budget Circuit_Breaker Admission_History Client_Hello Reconnect Delta_Discovery Route_Filters Tcp_Pool Ip_Filter Udp_Sessions Ai_Quota Session_Token Tls_Selection
begin

text \<open>
  A verification of the data plane of the Nantian gateway, the Rust workspace under \<open>src/crates\<close>.

  \<^bold>\<open>The program.\<close> A control plane streams the configuration to the data plane, \<open>ntgw-xds\<close>, which turns it into a
  \<open>Snapshot\<close> of listeners, routes and backends, \<open>ntgw-ir\<close>, builds the indexes and compiled plans of the snapshot, publishes it
  and wakes those who wait for it. The HTTP proxy \<open>ntgw-http\<close>, the stream proxy \<open>ntgw-stream\<close> and the shared TLS
  listeners \<open>ntgw-shared-tls\<close> ask the snapshot for the backend of a request or connection and record how the endpoint
  behaved. \<open>ntgw-observability\<close> limits what is admitted: admission budgets, rate limits, circuit breakers, retry budgets.
  \<open>ntgw-ai\<close> has quotas of its own.

  \<^bold>\<open>How the code is modelled.\<close> Structs are records, enums are datatypes, and every function is a function with the branches of
  the source. A string is its bytes, \<open>u32\<close> and \<open>u64\<close> are words, \<open>usize\<close> is a natural number, instants and durations are
  nanoseconds, \<open>f64\<close> is a real number. A \<open>HashMap\<close> is a partial function and a \<open>BTreeMap\<close> the list of its
  entries. An early return, an error or a question mark is a branch, and a panic is the value \<open>Panics\<close> where the code
  indexes slices. State that is shared by requests (tickets, the clock) is the record \<open>World\<close>. Code that threads run
  in parallel is an inductive step relation at the grain of its atomic operations; code under a single lock is a function.
  Packages that are not part of the sources are arguments: \<open>Lib\<close> (regular expressions, hashing, form decoding),
  \<open>SemaphoreLib\<close>, \<open>HeaderLib\<close>, \<open>RequestLib\<close>, \<open>ProtoLib\<close>, \<open>PoolEnv\<close>, \<open>TokenLib\<close>, \<open>CertLib\<close>. What is assumed
  of them is a named predicate (\<open>semaphore_laws\<close>, \<open>header_laws\<close>, \<open>token_laws\<close>), and each has an instance in the theory
  that declares it. No fuel is used: loops are structural recursions or functions with a termination proof.

  \<^bold>\<open>Foundations.\<close>
  \<^item> \<open>Prelude\<close>, \<open>Rust_Str\<close>: integers, slices, iterators and strings of the standard library.
  \<^item> \<open>IR_Types\<close>, \<open>Scores\<close>: the data of \<open>types.rs\<close>, \<open>filters.rs\<close>, \<open>session.rs\<close> and others; scores as linear orders.

  \<^bold>\<open>Routing, \<open>ntgw-ir\<close>.\<close>
  \<^item> \<open>Matching\<close>, \<open>Scoring\<close>: \<open>matching.rs\<close> and \<open>http_selection/scoring.rs\<close>.
  \<^item> \<open>Hostname_Index\<close>, \<open>Service_Index\<close>, \<open>Listener_Index\<close>, \<open>Runtime_Id\<close>: the indexes. The locales \<open>candidate_source\<close>
    and \<open>service_index\<close> say what a client of an index relies on and are interpreted on the code.
  \<^item> \<open>Endpoint_Runtime\<close>: ejection and probes of endpoints, the sharded store; locale \<open>endpoint_states\<close>.
  \<^item> \<open>Load_Balancing\<close>, \<open>Backend_Resolution\<close>: tickets, weights, hashing, \<open>resolve_http_backend_refs_with_session\<close>.
  \<^item> \<open>Snapshot_State\<close>, \<open>Snapshot_Rebuild\<close>: the snapshot and \<open>rebuild_runtime_indexes\<close>.
  \<^item> \<open>Http_Selection\<close>, \<open>Http_Fast_Path\<close>, \<open>Stream_Selection\<close>: the selections and the compiled plans.
  \<^item> \<open>Snapshot_Signal\<close>: \<open>notify_changed\<close> and \<open>wait_timeout\<close> as interleaved steps.

  What is shown: the HTTP selection returns the first entry of the highest score (\<open>Http_Spec\<close>, this theory); the indexes do
  not change an answer (\<open>Index_Equivalence\<close>, this theory); whenever the fast path answers, it has chosen the route and rule
  of the full selection (\<open>Fast_Path_Agreement\<close>); a backend is servable, is found when there is one, and is chosen as often as its weight
  says (\<open>Backend_Choice\<close>, \<open>Balancing\<close>); the sharded store behaves as one map (\<open>Runtime_Refinement\<close>); parts of the
  selection (\<open>Routing_Properties\<close>); no wake-up is lost unless notifications overlap (\<open>Snapshot_Signal\<close>); and a rule that loses
  can starve a backend of the rule that wins (\<open>Shadowed_Weights\<close>). \<open>Sample_Config\<close> is the configuration of the witnesses.

  \<^bold>\<open>Limits, \<open>ntgw-observability\<close> and \<open>ntgw-ai\<close>.\<close>
  \<^item> \<open>Counters\<close>, \<open>Rate_Limit\<close>, \<open>Retry_Budget\<close>: buckets never admit more than their tokens and refills; the retries are bounded.
  \<^item> \<open>Keyed_Semaphore\<close>, \<open>Circuit_Breaker\<close>: semaphores by name that are created and removed while threads use them never
    exceed their limit; the gauges count the permits.
  \<^item> \<open>Overload\<close>, \<open>Admission_History\<close>: the three admission controllers. The locales \<open>permit_owner\<close> and \<open>admission\<close> are the
    contract of a controller, interpreted on the HTTP, TCP and UDP ones; over any history every gauge is exact.
  \<^item> \<open>Ai_Quota\<close>: sliding windows and tenant quotas of \<open>ratelimit.rs\<close> and \<open>multitenant.rs\<close>.

  \<^bold>\<open>HTTP proxy, \<open>ntgw-http\<close>.\<close>
  \<^item> \<open>Http_Headers\<close>, \<open>Url_Rewrite\<close>, \<open>Cors\<close>, \<open>Route_Filters\<close>: \<open>filters.rs\<close> and \<open>filters/\<close>.
  \<^item> \<open>Session_Token\<close>: \<open>session.rs\<close>. A token leads back to its backend, and renewals do not move the absolute expiry.
  \<^item> \<open>Ip_Filter\<close>: \<open>proxy/filters/ip_filter.rs\<close>.

  \<^bold>\<open>Streams and TLS, \<open>ntgw-stream\<close> and \<open>ntgw-shared-tls\<close>.\<close>
  \<^item> \<open>Client_Hello\<close>: \<open>sni.rs\<close>, byte by byte; \<open>preface.rs\<close> of the shared TLS listeners has the same functions. The parser
    never panics and finds the server name of every well-formed hello that carries one.
  \<^item> \<open>Tcp_Pool\<close>: \<open>pool.rs\<close>. No connection is used twice at once or for another address.
  \<^item> \<open>Udp_Sessions\<close>: \<open>udp/session.rs\<close>, the registry, dispatcher workers and session tasks interleaved.
  \<^item> \<open>Tls_Plan\<close>: \<open>listener_plan.rs\<close>, \<open>binds.incl.rs\<close>, \<open>run.incl.rs\<close>. The plan is complete and keeps client validation, and a
    reload reaches it.
  \<^item> \<open>Tls_Selection\<close>: \<open>selection.incl.rs\<close>, \<open>handle_connection\<close>, the order of certificates.

  \<^bold>\<open>Control plane client, \<open>ntgw-xds\<close>.\<close>
  \<^item> \<open>Delta_Discovery\<close>: \<open>delta.rs\<close>. The cache holds what the incremental protocol prescribes.
  \<^item> \<open>Reconnect\<close>: the delays of \<open>reconnect.rs\<close>.

  \<^bold>\<open>Hypotheses and bounds.\<close> \<open>distinct_names\<close> asks that listeners have distinct names and backends distinct pairs of namespace and
  name; the indexes keep the last entry of a key where a search finds the first. \<open>namespaces_plain\<close> asks that no namespace
  of a backend or reference has a slash, as in Kubernetes; the fast path looks a backend up by the joined name.
  \<open>backend_names_ok\<close> asks that the joined names are distinct. \<open>well_formed\<close> is what the incremental protocol demands of a
  response: a subscribed type, named resources, payloads that decode to a message of the name; what happens to a payload that
  does not decode is a lemma of its own. The bound of a rate limit by the time that passed and the sliding windows ask for times that do
  not decrease; the code reads the clock outside its locks, and a lemma shows what a late reader does to a bucket.
  Where a counter of the code could wrap, the theorem has the bound as a hypothesis: \<open>http_fits\<close> and
  \<open>clusters_fit\<close> ask that the sum of the weights of a rule and the number of endpoints of a backend are below \<open>2 ^ 64\<close>, histories
  that have a gauge are shorter than \<open>2 ^ 64\<close> events, and in a balancing period ticket times total weight stays within it.
  The token bound of the sliding windows leaves out one limit, the largest word, at which the saturating sum of the code cannot
  exceed the limit.

  \<^bold>\<open>Not modelled.\<close>
  \<^item> Code of packages that are not part of the sources: sockets, TLS handshakes, HTTP parsing, the phases of the proxy framework
    (\<open>ntgw-http/src/proxy\<close>), the plug-in runtime (\<open>ntgw-wasm\<close>), the gRPC client, JSON and YAML. Their answers are
    arguments where a modelled function needs them.
  \<^item> The conversion from protobuf messages (\<open>ntgw-ir/src/proto\<close>): it reads types that the build generates. The
    model starts from the converted snapshot.
  \<^item> Code that could be modelled in the same way and is not yet: the listener plans of \<open>ntgw-http\<close> and \<open>ntgw-stream\<close>, the retry
    conditions, cache rules and authentication decisions inside the proxy phases, the policies of \<open>ntgw-ai\<close> (experiments,
    costs, fall-backs, keys, content rules, response cache), the status reports and feature checks of \<open>ntgw-xds\<close>, the
    templates of access logs, traffic statistics, configuration defaults. Nothing is claimed of them.
  \<^item> Start-up, the admin API, log writers, exporters, the allocator and the benchmarks: input and output.
  \<^item> Rounding of floating point numbers: they are real numbers, in the rendezvous scores and the scaled quotas.
  \<^item> The weak memory order of atomics: every atomic operation is one step of a common order.

  A definition for part of a function, such as the body of a loop, models lines of the function that the definition of
  the whole function names.
\<close>

section \<open>Selecting an HTTP route\<close>

text \<open>
  C1. The HTTP selection of a ready snapshot is decided by the scores alone. The entries are the
  rules of all routes that match the request, on a listener the route is attached to, and that
  answer with a backend, an error or a filter. \<open>select_http_route\<close> returns the first entry of the
  highest score, its backend resolved in a later state of the world, and nothing only when there
  is no entry.
\<close>

theorem http_selection_first_best:
  assumes "http_fits s"
  shows "case first_max he_score (http_entries lib (rebuild_runtime_indexes lib s) request) of
      None \<Rightarrow> fst (select_http_route lib (rebuild_runtime_indexes lib s) request resolver w) = None
    | Some e \<Rightarrow> \<exists>w'. same_clock w w' \<and>
        fst (select_http_route lib (rebuild_runtime_indexes lib s) request resolver w) =
          Some (selected_http_route (rebuild_runtime_indexes lib s)
            (entry_candidate lib (rebuild_runtime_indexes lib s) request resolver w' e))"
  using assms rebuild_indexed [of lib s]
  by (intro select_http_route_entries)
    (simp_all add: rebuild_fits http_hosts_indexed_def runtime_indexed_def build_http_route_hostname_index_def)

theorem http_selection_first_best_witness:
  "case first_max he_score (http_entries sample_lib (rebuild_runtime_indexes sample_lib sample_snapshot) (sample_request ''shop.example'' ''/api'')) of
      None \<Rightarrow> fst (select_http_route sample_lib (rebuild_runtime_indexes sample_lib sample_snapshot) (sample_request ''shop.example'' ''/api'') (\<lambda>_. None) sample_world) = None
    | Some e \<Rightarrow> \<exists>w'. same_clock sample_world w' \<and>
        fst (select_http_route sample_lib (rebuild_runtime_indexes sample_lib sample_snapshot) (sample_request ''shop.example'' ''/api'') (\<lambda>_. None) sample_world) =
          Some (selected_http_route (rebuild_runtime_indexes sample_lib sample_snapshot)
            (entry_candidate sample_lib (rebuild_runtime_indexes sample_lib sample_snapshot) (sample_request ''shop.example'' ''/api'') (\<lambda>_. None) w' e))"
  by (rule http_selection_first_best) (rule sample_fits)

text \<open>
  C2. Building the runtime indexes does not change an HTTP selection. On a snapshot with distinct
  listener names and backend names, the selection that goes through the indexes returns the same
  route, the same backend and the same state of the world as the one that searches the tables.
\<close>

theorem http_selection_index_independent:
  assumes "distinct_names s"
  shows "select_http_route lib (rebuild_runtime_indexes lib s) request resolver w =
    select_http_route lib (unindexed (rebuild_runtime_indexes lib s)) request resolver w"
  using assms by (intro select_http_route_unindexed rebuild_indexed) (simp add: rebuild_distinct)

theorem http_selection_index_independent_witness:
  "select_http_route sample_lib (rebuild_runtime_indexes sample_lib sample_snapshot) (sample_request ''shop.example'' ''/api'') (\<lambda>_. None) sample_world =
    select_http_route sample_lib (unindexed (rebuild_runtime_indexes sample_lib sample_snapshot)) (sample_request ''shop.example'' ''/api'') (\<lambda>_. None) sample_world"
  by (rule http_selection_index_independent) (simp add: distinct_names_def sample_defs)

text \<open>
  The same holds for the gRPC selection.
\<close>

theorem grpc_selection_index_independent:
  assumes "distinct_names s"
  shows "select_grpc_backend lib (rebuild_runtime_indexes lib s) request resolver w =
    select_grpc_backend lib (unindexed (rebuild_runtime_indexes lib s)) request resolver w"
  using assms by (intro select_grpc_backend_unindexed rebuild_indexed) (simp add: rebuild_distinct)

theorem grpc_selection_index_independent_witness:
  "select_grpc_backend sample_lib (rebuild_runtime_indexes sample_lib sample_snapshot) (sample_request ''shop.example'' ''/api'') (\<lambda>_. None) sample_world =
    select_grpc_backend sample_lib (unindexed (rebuild_runtime_indexes sample_lib sample_snapshot)) (sample_request ''shop.example'' ''/api'') (\<lambda>_. None) sample_world"
  by (rule grpc_selection_index_independent) (simp add: distinct_names_def sample_defs)

text \<open>
  C3. The compiled fast path refines the full selection. On a ready snapshot with distinct listener and backend names and
  no slash in a namespace, whenever it answers a request, the full selection of the same request, whatever its session resolver and the state
  of the cursors, finds a backend and chooses the same route, rule, listener and matched path.
\<close>

theorem fast_path_refines_selection:
  assumes "distinct_names s" and "namespaces_plain s" and "http_fits s" and "same_request fq request"
    and "fst (select_http_fast_path lib (rebuild_runtime_indexes lib s) fq w) = Some c"
  shows "\<exists>r. fst (select_http_route lib (rebuild_runtime_indexes lib s) request resolver w') = Some r
    \<and> sh_route_name r = cs_route_name c \<and> sh_route_namespace r = cs_route_namespace c
    \<and> sh_rule_index r = cs_rule_index c \<and> sh_route_annotations r = cs_route_annotations c
    \<and> sh_listener_name r = cs_listener_name c \<and> sh_listener_protocol r = cs_listener_protocol c
    \<and> sh_matched_http_path r = cs_matched_http_path c
    \<and> sh_backend r \<noteq> None \<and> sh_backend_error r = None"
  using assms by (intro fast_path_agrees(1) [OF rebuild_fast_ready _ rebuild_plan]) (simp_all add: rebuild_fits)

theorem fast_path_refines_selection_witness:
  "\<exists>c r. fst (select_http_fast_path sample_lib (rebuild_runtime_indexes sample_lib fast_snapshot) fast_request sample_world) = Some c
    \<and> fst (select_http_route sample_lib (rebuild_runtime_indexes sample_lib fast_snapshot) (sample_request ''shop.example'' ''/x'') (\<lambda>_. None) sample_world) = Some r
    \<and> sh_route_name r = ''any'' \<and> sh_backend r \<noteq> None"
proof -
  obtain c where c: "fst (select_http_fast_path sample_lib (rebuild_runtime_indexes sample_lib fast_snapshot) fast_request sample_world) = Some c"
    "cs_route_name c = ''any''"
    using fast_sample_selects by (auto simp: fast_rebuilt_def)
  show ?thesis using fast_path_refines_selection [OF fast_sample_ok fast_sample_request c(1), of "\<lambda>_. None" sample_world] c by auto
qed

text \<open>
  C4. The backend the fast path returns is one the full selection may return. On a ready snapshot with distinct listener and
  backend names and no slash in a namespace it is an eligible endpoint, at a time the selection read, of a reference with a weight of the very rule the full
  selection chooses.
\<close>

theorem fast_path_backend_servable:
  assumes "distinct_names s" and "namespaces_plain s" and "http_fits s" and "same_request fq request"
    and "fst (select_http_fast_path lib (rebuild_runtime_indexes lib s) fq w) = Some c"
  shows "\<exists>e. first_max he_score (http_entries lib (rebuild_runtime_indexes lib s) request) = Some e
    \<and> servable lib (rebuild_runtime_indexes lib s) (hr_backend_refs (he_rule e)) w (cs_backend_name c) (cs_backend c) []"
  using assms by (intro fast_path_agrees(2) [OF rebuild_fast_ready _ rebuild_plan]) (simp_all add: rebuild_fits)

theorem fast_path_backend_servable_witness:
  "\<exists>c e. fst (select_http_fast_path sample_lib (rebuild_runtime_indexes sample_lib fast_snapshot) fast_request sample_world) = Some c
    \<and> first_max he_score (http_entries sample_lib (rebuild_runtime_indexes sample_lib fast_snapshot) (sample_request ''shop.example'' ''/x'')) = Some e
    \<and> servable sample_lib (rebuild_runtime_indexes sample_lib fast_snapshot) (hr_backend_refs (he_rule e)) sample_world (cs_backend_name c) (cs_backend c) []"
proof -
  obtain c where c: "fst (select_http_fast_path sample_lib (rebuild_runtime_indexes sample_lib fast_snapshot) fast_request sample_world) = Some c"
    using fast_sample_selects by (auto simp: fast_rebuilt_def)
  show ?thesis using fast_path_backend_servable [OF fast_sample_ok fast_sample_request c] c by auto
qed

section \<open>The hostname index\<close>

text \<open>
  Offering routes through the hostname index visits a closure exactly as scanning the
  whole table does, whenever the closure passes over routes whose hostnames do not match.
\<close>

theorem hostname_index_equals_scan:
  assumes "\<And>r s. r \<in> set routes \<Longrightarrow> best_hostname_score (hostnames r) host = None \<Longrightarrow> v r s = (True, s)"
  shows "visit_hostname_route_candidates routes (build_hostname_route_index (map hostnames routes)) host True v s =
    visit_hostname_route_candidates routes any_index host False v s"
  using hostname_index.visit_eq_scan [of routes hostnames host v s] hostname_scan.visit_eq_scan [of routes v any_index host s] assms
  by simp

theorem hostname_index_equals_scan_witness:
  "visit_hostname_route_candidates [[''a'']] (build_hostname_route_index (map (\<lambda>r. r) [[''a'']]))
     (Some ''b'') True (\<lambda>r s. (best_hostname_score r (Some ''b'') = None, s)) () =
   visit_hostname_route_candidates [[''a'']] HostnameRouteIndex_default
     (Some ''b'') False (\<lambda>r s. (best_hostname_score r (Some ''b'') = None, s)) ()"
  by (rule hostname_index_equals_scan) simp

end
